(* ===== verification/Prelude.thy ===== *)
theory Prelude
  imports Main "HOL-Library.Word" "HOL-Library.Char_ord" "HOL-Library.List_Lexorder"
    "HOL-Library.Product_Lexorder" "HOL-Library.Option_ord"
begin

text \<open>
  Shared vocabulary of the development. It holds the model of Rust's \<open>Result\<close> type and of the
  machine integers the crates use, big-endian byte strings (\<open>to_be_bytes\<close>, \<open>from_be_bytes\<close>),
  the well-formedness test of \<open>std::str::from_utf8\<close>, and the list facts the components share.

  Conventions: a signed machine integer is an \<open>int\<close> with an explicit range predicate
  (\<open>in_i32\<close>, \<open>in_i64\<close>, \<open>in_i128\<close>); an unsigned one is a \<open>nat\<close> with a range predicate
  (\<open>in_u32\<close>, \<open>in_u64\<close>, \<open>in_u128\<close>); a checked operation answers \<open>None\<close> outside the range; a
  byte is an \<open>8 word\<close>; a Rust \<open>str\<close> is a \<open>string\<close>, that is, its list of bytes.
\<close>

section \<open>Collections of the development\<close>

named_theorems result_simps \<open>how \<open>Ok\<close> and \<open>Err\<close> outcomes decompose\<close>
named_theorems range_defs \<open>unfolding of the machine-integer ranges and checked operations\<close>

section \<open>Results\<close>

datatype ('a, 'e) result = Ok 'a | Err 'e

fun rbind :: "('a, 'e) result \<Rightarrow> ('a \<Rightarrow> ('b, 'e) result) \<Rightarrow> ('b, 'e) result" where
  "rbind (Ok x) f = f x"
| "rbind (Err e) f = Err e"

fun map_err :: "('e \<Rightarrow> 'f) \<Rightarrow> ('a, 'e) result \<Rightarrow> ('a, 'f) result" where
  "map_err g (Ok x) = Ok x"
| "map_err g (Err e) = Err (g e)"

fun ok_or :: "'a option \<Rightarrow> 'e \<Rightarrow> ('a, 'e) result" where
  "ok_or (Some x) e = Ok x"
| "ok_or None e = Err e"

fun is_ok :: "('a, 'e) result \<Rightarrow> bool" where
  "is_ok (Ok x) = True"
| "is_ok (Err e) = False"

lemma rbind_eq_Ok [simp, result_simps]:
  "rbind m f = Ok y \<longleftrightarrow> (\<exists>x. m = Ok x \<and> f x = Ok y)"
  by (cases m) auto

lemma rbind_eq_Err [result_simps]:
  "rbind m f = Err e \<longleftrightarrow> m = Err e \<or> (\<exists>x. m = Ok x \<and> f x = Err e)"
  by (cases m) auto

lemma map_err_eq_Ok [simp, result_simps]: "map_err g m = Ok y \<longleftrightarrow> m = Ok y"
  by (cases m) auto

lemma map_err_eq_Err [result_simps]: "map_err g m = Err e \<longleftrightarrow> (\<exists>d. m = Err d \<and> e = g d)"
  by (cases m) auto

lemma ok_or_eq_Ok [simp, result_simps]: "ok_or m e = Ok y \<longleftrightarrow> m = Some y"
  by (cases m) auto

lemma ok_or_eq_Err [simp, result_simps]: "ok_or m e = Err d \<longleftrightarrow> m = None \<and> d = e"
  by (cases m) auto

lemma is_ok_iff: "is_ok m \<longleftrightarrow> (\<exists>x. m = Ok x)"
  by (cases m) auto

lemma rbind_assoc: "rbind (rbind m f) g = rbind m (\<lambda>x. rbind (f x) g)"
  by (cases m) auto

lemma rbind_cong [fundef_cong]:
  "\<lbrakk> m = m'; \<And>x. m' = Ok x \<Longrightarrow> f x = f' x \<rbrakk> \<Longrightarrow> rbind m f = rbind m' f'"
  by (cases m') auto

text \<open>A fallible fold over a list: Rust's \<open>for\<close> loop with \<open>?\<close> in its body.\<close>

fun rfold :: "('s \<Rightarrow> 'a \<Rightarrow> ('s, 'e) result) \<Rightarrow> 's \<Rightarrow> 'a list \<Rightarrow> ('s, 'e) result" where
  "rfold f s [] = Ok s"
| "rfold f s (x # xs) = rbind (f s x) (\<lambda>s'. rfold f s' xs)"

lemma rfold_append: "rfold f s (xs @ ys) = rbind (rfold f s xs) (\<lambda>s'. rfold f s' ys)"
  by (induction xs arbitrary: s) (auto simp: rbind_assoc)

lemma rfold_invariant:
  assumes "rfold f s xs = Ok t" and "P s"
    and "\<And>s x s'. P s \<Longrightarrow> x \<in> set xs \<Longrightarrow> f s x = Ok s' \<Longrightarrow> P s'"
  shows "P t"
  using assms
proof (induction xs arbitrary: s)
  case Nil
  show ?case using Nil.prems(1,2) by simp
next
  case (Cons x xs)
  obtain s' where "f s x = Ok s'" and rest: "rfold f s' xs = Ok t"
    using Cons.prems(1) by auto
  then have "P s'" using Cons.prems by (meson list.set_intros(1))
  show ?case
  proof (rule Cons.IH [OF rest \<open>P s'\<close>])
    show "P b" if "P a" "y \<in> set xs" "f a y = Ok b" for a y b
      using Cons.prems(3) that by (meson list.set_intros(2))
  qed
qed

text \<open>\<open>collect\<close> into a \<open>Result\<close> of a vector: the images, or the first error.\<close>

fun rmap :: "('a \<Rightarrow> ('b, 'e) result) \<Rightarrow> 'a list \<Rightarrow> ('b list, 'e) result" where
  "rmap f [] = Ok []"
| "rmap f (x # xs) = rbind (f x) (\<lambda>y. rbind (rmap f xs) (\<lambda>ys. Ok (y # ys)))"

lemma rmap_eq_Ok: "rmap f xs = Ok ys \<longleftrightarrow> list_all2 (\<lambda>x y. f x = Ok y) xs ys"
  by (induction xs arbitrary: ys) (auto simp: list_all2_Cons1)

lemma is_ok_rmap: "is_ok (rmap f xs) \<longleftrightarrow> list_all (\<lambda>x. is_ok (f x)) xs"
  by (induction xs) (auto simp: is_ok_iff)

section \<open>Machine integers\<close>

definition in_i16 :: "int \<Rightarrow> bool" where "in_i16 x \<longleftrightarrow> - (2 ^ 15) \<le> x \<and> x < 2 ^ 15"
definition in_i32 :: "int \<Rightarrow> bool" where "in_i32 x \<longleftrightarrow> - (2 ^ 31) \<le> x \<and> x < 2 ^ 31"
definition in_i64 :: "int \<Rightarrow> bool" where "in_i64 x \<longleftrightarrow> - (2 ^ 63) \<le> x \<and> x < 2 ^ 63"
definition in_i128 :: "int \<Rightarrow> bool" where "in_i128 x \<longleftrightarrow> - (2 ^ 127) \<le> x \<and> x < 2 ^ 127"
definition in_u32 :: "nat \<Rightarrow> bool" where "in_u32 x \<longleftrightarrow> x < 2 ^ 32"
definition in_u64 :: "nat \<Rightarrow> bool" where "in_u64 x \<longleftrightarrow> x < 2 ^ 64"
definition in_u128 :: "nat \<Rightarrow> bool" where "in_u128 x \<longleftrightarrow> x < 2 ^ 128"

definition checked_i64 :: "int \<Rightarrow> int option" where
  "checked_i64 x = (if in_i64 x then Some x else None)"
definition checked_i128 :: "int \<Rightarrow> int option" where
  "checked_i128 x = (if in_i128 x then Some x else None)"
definition checked_u64 :: "nat \<Rightarrow> nat option" where
  "checked_u64 x = (if in_u64 x then Some x else None)"
definition checked_u128 :: "nat \<Rightarrow> nat option" where
  "checked_u128 x = (if in_u128 x then Some x else None)"

text \<open>\<open>checked_sub\<close> on an unsigned type fails below zero, where \<open>nat\<close> subtraction stops.\<close>

definition checked_sub_nat :: "nat \<Rightarrow> nat \<Rightarrow> nat option" where
  "checked_sub_nat a b = (if b \<le> a then Some (a - b) else None)"

text \<open>The cast \<open>x as i128\<close> of a \<open>u128\<close>: reinterpretation in two's complement.\<close>

definition u128_as_i128 :: "nat \<Rightarrow> int" where
  "u128_as_i128 x = (if x < 2 ^ 127 then int x else int x - 2 ^ 128)"

text \<open>Truncating division and remainder, as Rust's \<open>/\<close> and \<open>%\<close> on signed integers.\<close>

definition tdiv :: "int \<Rightarrow> int \<Rightarrow> int" where
  "tdiv a b = sgn a * sgn b * (\<bar>a\<bar> div \<bar>b\<bar>)"
definition trem :: "int \<Rightarrow> int \<Rightarrow> int" where
  "trem a b = a - b * tdiv a b"

lemmas [range_defs] = in_i16_def in_i32_def in_i64_def in_i128_def in_u32_def in_u64_def
  in_u128_def checked_i64_def checked_i128_def checked_u64_def checked_u128_def checked_sub_nat_def

lemma checked_i64_Some [simp]: "checked_i64 x = Some y \<longleftrightarrow> in_i64 x \<and> y = x"
  by (auto simp: checked_i64_def)

lemma checked_i128_Some [simp]: "checked_i128 x = Some y \<longleftrightarrow> in_i128 x \<and> y = x"
  by (auto simp: checked_i128_def)

lemma checked_u64_Some [simp]: "checked_u64 x = Some y \<longleftrightarrow> in_u64 x \<and> y = x"
  by (auto simp: checked_u64_def)

lemma checked_u128_Some [simp]: "checked_u128 x = Some y \<longleftrightarrow> in_u128 x \<and> y = x"
  by (auto simp: checked_u128_def)

lemma checked_sub_nat_Some [simp]: "checked_sub_nat a b = Some c \<longleftrightarrow> b \<le> a \<and> c = a - b"
  by (auto simp: checked_sub_nat_def)

lemma checked_none [simp]:
  "checked_i64 x = None \<longleftrightarrow> \<not> in_i64 x"
  "checked_i128 x = None \<longleftrightarrow> \<not> in_i128 x"
  "checked_u64 n = None \<longleftrightarrow> \<not> in_u64 n"
  "checked_u128 n = None \<longleftrightarrow> \<not> in_u128 n"
  "checked_sub_nat n m = None \<longleftrightarrow> n < m"
  by (auto simp: checked_i64_def checked_i128_def checked_u64_def checked_u128_def
      checked_sub_nat_def)

lemma tdiv_trem: "b * tdiv a b + trem a b = a"
  by (simp add: trem_def)

lemma tdiv_nonneg: "0 \<le> a \<Longrightarrow> 0 < b \<Longrightarrow> tdiv a b = a div b"
  by (cases "a = 0") (auto simp: tdiv_def)

lemma trem_nonneg: "0 \<le> a \<Longrightarrow> 0 < b \<Longrightarrow> trem a b = a mod b"
  by (simp add: trem_def tdiv_nonneg minus_mult_div_eq_mod)

lemma abs_trem: "0 < b \<Longrightarrow> \<bar>trem a b\<bar> = \<bar>a\<bar> mod b"
proof (cases "0 \<le> a")
  case True
  moreover assume "0 < b"
  ultimately show ?thesis by (simp add: trem_nonneg)
next
  case False
  moreover assume "0 < b"
  ultimately have "trem a b = - (\<bar>a\<bar> mod b)"
    by (simp add: trem_def tdiv_def minus_mult_div_eq_mod [symmetric])
  with \<open>0 < b\<close> show ?thesis by simp
qed

lemma tdiv_dvd:
  assumes "b dvd a"
  shows "b * tdiv a b = a"
proof (cases "b = 0")
  case True
  with assms show ?thesis by simp
next
  case False
  obtain k where k: "a = b * k" using assms by blast
  have "tdiv a b = sgn b * sgn b * (sgn k * \<bar>k\<bar>)"
    using False by (simp add: k tdiv_def abs_mult sgn_mult)
  then have "tdiv a b = k"
    using False by (simp add: sgn_mult_abs flip: sgn_mult)
  then show ?thesis by (simp add: k)
qed

lemma trem_eq_0_iff: "trem a b = 0 \<longleftrightarrow> b dvd a"
proof
  assume "trem a b = 0"
  then have "a = b * tdiv a b" by (simp add: trem_def)
  then show "b dvd a" by (metis dvd_triv_left)
next
  assume "b dvd a"
  then show "trem a b = 0" by (simp add: trem_def tdiv_dvd)
qed

lemma u128_as_i128_small [simp]: "x < 2 ^ 127 \<Longrightarrow> u128_as_i128 x = int x"
  by (simp add: u128_as_i128_def)

section \<open>Big-endian bytes\<close>

type_synonym u8 = "8 word"
type_synonym bytes = "u8 list"

fun be_bytes :: "nat \<Rightarrow> nat \<Rightarrow> bytes" where
  "be_bytes 0 x = []"
| "be_bytes (Suc n) x = be_bytes n (x div 256) @ [word_of_nat (x mod 256)]"

definition of_be_bytes :: "bytes \<Rightarrow> nat" where
  "of_be_bytes bs = foldl (\<lambda>a b. a * 256 + unat b) 0 bs"

text \<open>Two's complement in \<open>n\<close> bytes.\<close>

definition be_bytes_signed :: "nat \<Rightarrow> int \<Rightarrow> bytes" where
  "be_bytes_signed n x = be_bytes n (nat (x mod 2 ^ (8 * n)))"

definition of_be_bytes_signed :: "bytes \<Rightarrow> int" where
  "of_be_bytes_signed bs =
     (let v = int (of_be_bytes bs); m = 2 ^ (8 * length bs) in if 2 * v < m then v else v - m)"

lemma length_be_bytes [simp]: "length (be_bytes n x) = n"
  by (induction n arbitrary: x) auto

lemma length_be_bytes_signed [simp]: "length (be_bytes_signed n x) = n"
  by (simp add: be_bytes_signed_def)

lemma of_be_bytes_Nil [simp]: "of_be_bytes [] = 0"
  by (simp add: of_be_bytes_def)

lemma of_be_bytes_snoc: "of_be_bytes (bs @ [b]) = of_be_bytes bs * 256 + unat b"
  by (simp add: of_be_bytes_def)

lemma of_be_bytes_be_bytes: "x < 256 ^ n \<Longrightarrow> of_be_bytes (be_bytes n x) = x"
proof (induction n arbitrary: x)
  case 0
  then show ?case by simp
next
  case (Suc n)
  then have "x div 256 < 256 ^ n" by (simp add: less_mult_imp_div_less mult.commute)
  then have "of_be_bytes (be_bytes n (x div 256)) = x div 256" by (rule Suc.IH)
  then show ?case
    by (simp add: of_be_bytes_snoc unat_of_nat div_mult_mod_eq)
qed

lemma be_bytes_of_be_bytes: "be_bytes (length bs) (of_be_bytes bs) = bs"
proof (induction bs rule: rev_induct)
  case Nil
  then show ?case by simp
next
  case (snoc b bs)
  have b: "unat b < 256" using unsigned_less [of b, where ?'a = nat] by simp
  then show ?case using snoc by (simp add: of_be_bytes_snoc)
qed

lemma of_be_bytes_bound: "of_be_bytes bs < 256 ^ length bs"
proof (induction bs rule: rev_induct)
  case Nil
  then show ?case by simp
next
  case (snoc b bs)
  have "unat b < 256" using unsigned_less [of b, where ?'a = nat] by simp
  moreover have "of_be_bytes bs + 1 \<le> 256 ^ length bs" using snoc by simp
  then have "(of_be_bytes bs + 1) * 256 \<le> 256 ^ length bs * 256" by (rule mult_le_mono1)
  ultimately show ?case by (simp add: of_be_bytes_snoc)
qed

lemma pow256: "(256 :: 'a :: comm_semiring_1) ^ n = 2 ^ (8 * n)"
  by (simp add: power_mult)

lemma signed_of_be_bytes:
  assumes "0 < n" and "- (2 ^ (8 * n - 1)) \<le> x" and "x < 2 ^ (8 * n - 1)"
  shows "of_be_bytes_signed (be_bytes_signed n x) = x"
proof -
  define m :: int where "m = 2 ^ (8 * n)"
  have half: "m = 2 * 2 ^ (8 * n - 1)"
    using assms(1) by (simp add: m_def flip: power_Suc)
  have pos: "0 < m" by (simp add: m_def)
  have lt: "nat (x mod m) < 256 ^ n"
    using pos by (simp add: pow256 m_def nat_less_iff)
  then have "int (of_be_bytes (be_bytes_signed n x)) = x mod m"
    using pos by (simp add: be_bytes_signed_def of_be_bytes_be_bytes flip: m_def)
  moreover have "x mod m = (if 0 \<le> x then x else x + m)"
  proof (cases "0 \<le> x")
    case True
    then show ?thesis using assms half by (simp add: mod_pos_pos_trivial)
  next
    case False
    have "x mod m = (x + m) mod m" by simp
    also have "\<dots> = x + m" using False assms half by (intro mod_pos_pos_trivial) auto
    finally show ?thesis using False by simp
  qed
  ultimately show ?thesis
    using assms half by (auto simp: of_be_bytes_signed_def Let_def simp flip: m_def)
qed

lemma be_bytes_of_signed: "be_bytes_signed (length bs) (of_be_bytes_signed bs) = bs"
proof -
  have "int (of_be_bytes bs) < 2 ^ (8 * length bs)"
    using of_be_bytes_bound [of bs] by (simp add: pow256 flip: of_nat_less_iff)
  then have "of_be_bytes_signed bs mod 2 ^ (8 * length bs) = int (of_be_bytes bs)"
    by (simp add: of_be_bytes_signed_def Let_def)
  then show ?thesis by (simp add: be_bytes_signed_def be_bytes_of_be_bytes)
qed

lemma of_be_bytes_signed_bound:
  assumes "bs \<noteq> []"
  shows "- (2 ^ (8 * length bs - 1)) \<le> of_be_bytes_signed bs"
    and "of_be_bytes_signed bs < 2 ^ (8 * length bs - 1)"
proof -
  define m :: int where "m = 2 ^ (8 * length bs)"
  have "0 < 8 * length bs" using assms by simp
  then have half: "m = 2 * 2 ^ (8 * length bs - 1)"
    unfolding m_def by (metis power_Suc Suc_diff_1)
  have "int (of_be_bytes bs) < m"
    using of_be_bytes_bound [of bs] by (simp add: m_def pow256 flip: of_nat_less_iff)
  then show "- (2 ^ (8 * length bs - 1)) \<le> of_be_bytes_signed bs"
    and "of_be_bytes_signed bs < 2 ^ (8 * length bs - 1)"
    using half by (auto simp: of_be_bytes_signed_def Let_def simp flip: m_def)
qed

section \<open>Text\<close>

text \<open>Bytes of a Rust \<open>str\<close> and the characters of a byte slice.\<close>

definition as_bytes :: "string \<Rightarrow> bytes" where
  "as_bytes s = map (\<lambda>c. word_of_nat (of_char c)) s"

definition str_of_bytes :: "bytes \<Rightarrow> string" where
  "str_of_bytes bs = map (\<lambda>b. char_of (unat b)) bs"

lemma length_as_bytes [simp]: "length (as_bytes s) = length s"
  by (simp add: as_bytes_def)

lemma length_str_of_bytes [simp]: "length (str_of_bytes bs) = length bs"
  by (simp add: str_of_bytes_def)

lemma str_of_as_bytes [simp]: "str_of_bytes (as_bytes s) = s"
proof -
  have "of_char c < (256 :: nat)" for c :: char
    using of_char_mod_256 [of c, where ?'a = nat] by (metis mod_less_divisor zero_less_numeral)
  then show ?thesis
    by (simp add: str_of_bytes_def as_bytes_def comp_def unat_of_nat map_idI)
qed

lemma as_bytes_of_str [simp]: "as_bytes (str_of_bytes bs) = bs"
proof -
  have "unat b mod 256 = unat b" for b :: u8 using unsigned_less [of b, where ?'a = nat] by simp
  then show ?thesis
    by (simp add: str_of_bytes_def as_bytes_def comp_def map_idI)
qed

lemma as_bytes_inject [simp]: "as_bytes s = as_bytes t \<longleftrightarrow> s = t"
  by (metis str_of_as_bytes)

text \<open>The well-formed byte sequences of \<open>std::str::from_utf8\<close> (Unicode, table 3-7).\<close>

definition utf8_cont :: "char \<Rightarrow> bool" where
  "utf8_cont c \<longleftrightarrow> (let n = (of_char c :: nat) in 128 \<le> n \<and> n \<le> 191)"

definition utf8_second :: "nat \<Rightarrow> char \<Rightarrow> bool" where
  "utf8_second lead c \<longleftrightarrow>
     (let n = (of_char c :: nat) in
      (if lead = 224 then 160 else if lead = 240 then 144 else 128) \<le> n \<and>
      n \<le> (if lead = 237 then 159 else if lead = 244 then 143 else 191))"

function utf8_valid :: "string \<Rightarrow> bool" where
  "utf8_valid [] = True"
| "utf8_valid (c # cs) =
     (let n = (of_char c :: nat) in
      if n < 128 then utf8_valid cs
      else if 194 \<le> n \<and> n \<le> 223 then
        (case cs of c1 # r \<Rightarrow> utf8_cont c1 \<and> utf8_valid r | _ \<Rightarrow> False)
      else if 224 \<le> n \<and> n \<le> 239 then
        (case cs of c1 # c2 # r \<Rightarrow> utf8_second n c1 \<and> utf8_cont c2 \<and> utf8_valid r | _ \<Rightarrow> False)
      else if 240 \<le> n \<and> n \<le> 244 then
        (case cs of c1 # c2 # c3 # r \<Rightarrow>
           utf8_second n c1 \<and> utf8_cont c2 \<and> utf8_cont c3 \<and> utf8_valid r | _ \<Rightarrow> False)
      else False)"
  by pat_completeness auto
termination
  by (relation "measure length") (auto split: list.splits)

section \<open>Lists\<close>

text \<open>The condition \<open>windows(2).any(...)\<close> of the sources, and its meaning on sorted lists.\<close>

fun any_adjacent :: "('a \<Rightarrow> 'a \<Rightarrow> bool) \<Rightarrow> 'a list \<Rightarrow> bool" where
  "any_adjacent P (x # y # xs) = (P x y \<or> any_adjacent P (y # xs))"
| "any_adjacent P _ = False"

lemma any_adjacent_Cons:
  "any_adjacent P (x # xs) \<longleftrightarrow> (xs \<noteq> [] \<and> P x (hd xs)) \<or> any_adjacent P xs"
  by (cases xs) auto

lemma sorted_no_adjacent_distinct:
  fixes f :: "'a \<Rightarrow> 'b :: linorder"
  assumes "sorted (map f xs)" and "\<not> any_adjacent (\<lambda>x y. f x = f y) xs"
  shows "distinct (map f xs)"
  using assms
proof (induction xs)
  case Nil
  then show ?case by simp
next
  case (Cons x xs)
  have "f x \<noteq> f y" if "y \<in> set xs" for y
  proof -
    obtain z zs where xs: "xs = z # zs" using \<open>y \<in> set xs\<close> by (cases xs) auto
    have "f x < f z" using Cons.prems xs by auto
    moreover have "f z \<le> f y" using Cons.prems xs \<open>y \<in> set xs\<close> by auto
    ultimately show ?thesis by simp
  qed
  then show ?case using Cons by (auto simp: any_adjacent_Cons)
qed

lemma distinct_no_adjacent:
  "distinct (map f xs) \<Longrightarrow> \<not> any_adjacent (\<lambda>x y. f x = f y) xs"
  by (induction xs) (auto simp: any_adjacent_Cons)

end
