(* ===== verification/Decimals.thy ===== *)
theory Decimals
  imports Prelude Complex_Main
begin

text \<open>
  The exact decimals of \<open>crates/market-types/src/decimal.rs\<close> and the prices of \<open>price.rs\<close>.
  A \<open>Decimal\<close> is a transparent wrapper of its signed \<open>10^-18\<close> atoms, an \<open>i128\<close>; the model is the
  \<open>int\<close> of the atoms, and \<open>in_i128\<close> is the invariant of the Rust type. The theory holds the text
  parser and printer, the checked arithmetic, and their exactness: the parser accepts a literal
  exactly when the number it denotes is a whole number of atoms in range, and printing is a right
  inverse of parsing.
\<close>

section \<open>Model\<close>

type_synonym decimal = int
type_synonym price = decimal

datatype decimal_error = DecimalInvalidFormat | DecimalPrecisionLoss | DecimalOutOfRange

definition DECIMAL_SCALE :: nat where "DECIMAL_SCALE = 18"

definition DECIMAL_SCALE_FACTOR :: int where "DECIMAL_SCALE_FACTOR = 1000000000000000000"

definition decimal_checked_add :: "decimal \<Rightarrow> decimal \<Rightarrow> (decimal, decimal_error) result" where
  "decimal_checked_add a b = ok_or (checked_i128 (a + b)) DecimalOutOfRange"

definition decimal_checked_sub :: "decimal \<Rightarrow> decimal \<Rightarrow> (decimal, decimal_error) result" where
  "decimal_checked_sub a b = ok_or (checked_i128 (a - b)) DecimalOutOfRange"

definition decimal_checked_neg :: "decimal \<Rightarrow> (decimal, decimal_error) result" where
  "decimal_checked_neg a = ok_or (checked_i128 (- a)) DecimalOutOfRange"

definition decimal_to_canonical_bytes :: "decimal \<Rightarrow> bytes" where
  "decimal_to_canonical_bytes d = be_bytes_signed 16 d"

definition is_ascii_digit :: "char \<Rightarrow> bool" where
  "is_ascii_digit c \<longleftrightarrow> (let n = (of_char c :: nat) in 48 \<le> n \<and> n \<le> 57)"

definition digit_val :: "char \<Rightarrow> nat" where
  "digit_val c = of_char c - 48"

text \<open>An optional sign in front of the digits: \<open>-\<close> and \<open>+\<close> are consumed.\<close>

definition take_sign :: "string \<Rightarrow> bool \<times> string" where
  "take_sign s =
     (case s of [] \<Rightarrow> (False, [])
      | c # cs \<Rightarrow> if c = CHR ''-'' then (True, cs) else if c = CHR ''+'' then (False, cs)
                  else (False, c # cs))"

fun exponent_digits :: "nat \<Rightarrow> string \<Rightarrow> (nat \<times> string, decimal_error) result" where
  "exponent_digits m [] = Ok (m, [])"
| "exponent_digits m (c # cs) =
     (if is_ascii_digit c then
        rbind (ok_or (Option.bind (checked_u64 (m * 10)) (\<lambda>v. checked_u64 (v + digit_val c)))
                 DecimalOutOfRange) (\<lambda>m'. exponent_digits m' cs)
      else Ok (m, c # cs))"

definition parse_exponent :: "string \<Rightarrow> (int \<times> string, decimal_error) result" where
  "parse_exponent s =
     (let (negative, start) = take_sign s in
      rbind (exponent_digits 0 start) (\<lambda>(m, rest).
        if length rest = length start then Err DecimalInvalidFormat
        else rbind (if negative then
                      (if m = 2 ^ 63 then Ok (- (2 ^ 63))
                       else if m < 2 ^ 63 then Ok (- int m) else Err DecimalOutOfRange)
                    else (if m < 2 ^ 63 then Ok (int m) else Err DecimalOutOfRange))
               (\<lambda>e. Ok (e, rest))))"

fun push_digits :: "nat \<Rightarrow> string \<Rightarrow> (nat, decimal_error) result" where
  "push_digits m [] = Ok m"
| "push_digits m (c # cs) =
     rbind (ok_or (Option.bind (checked_u128 (m * 10)) (\<lambda>v. checked_u128 (v + digit_val c)))
              DecimalOutOfRange) (\<lambda>m'. push_digits m' cs)"

fun shift_up :: "nat \<Rightarrow> nat \<Rightarrow> (nat, decimal_error) result" where
  "shift_up 0 m = Ok m"
| "shift_up (Suc n) m = rbind (ok_or (checked_u128 (m * 10)) DecimalOutOfRange) (shift_up n)"

definition signed_atoms :: "nat \<Rightarrow> bool \<Rightarrow> (int, decimal_error) result" where
  "signed_atoms m negative =
     (if negative then
        (if m = 2 ^ 127 then Ok (- (2 ^ 127))
         else if m < 2 ^ 127 then Ok (- int m) else Err DecimalOutOfRange)
      else (if m < 2 ^ 127 then Ok (int m) else Err DecimalOutOfRange))"

text \<open>The digits kept once the exponent is known: a negative shift must only drop zeros.\<close>

definition retained_digits :: "string \<Rightarrow> int \<Rightarrow> (nat, decimal_error) result" where
  "retained_digits digits atom_shift =
     (if atom_shift < 0 then
        (let removed = nat (- atom_shift) in
         if length digits < removed then Err DecimalPrecisionLoss
         else let retained = length digits - removed in
           if (\<exists>c \<in> set (drop retained digits). c \<noteq> CHR ''0'') then Err DecimalPrecisionLoss
           else Ok retained)
      else Ok (length digits))"

definition atoms_of_digits :: "bool \<Rightarrow> string \<Rightarrow> int \<Rightarrow> (decimal, decimal_error) result" where
  "atoms_of_digits negative digits atom_shift =
     (if list_all (\<lambda>c. c = CHR ''0'') digits then Ok 0
      else rbind (retained_digits digits atom_shift) (\<lambda>retained.
        rbind (push_digits 0 (take retained digits)) (\<lambda>magnitude.
          if 38 < atom_shift then Err DecimalOutOfRange
          else rbind (if 0 < atom_shift then shift_up (nat atom_shift) magnitude else Ok magnitude)
                 (\<lambda>m. signed_atoms m negative))))"

definition parse_decimal :: "string \<Rightarrow> (decimal, decimal_error) result" where
  "parse_decimal input =
     (if input = [] then Err DecimalInvalidFormat
      else let (negative, r0) = take_sign input;
               integer_digits = takeWhile is_ascii_digit r0;
               r1 = dropWhile is_ascii_digit r0;
               (fraction_digits, r2) =
                 (case r1 of c # cs \<Rightarrow> if c = CHR ''.'' then
                       (takeWhile is_ascii_digit cs, dropWhile is_ascii_digit cs) else ([], r1)
                  | [] \<Rightarrow> ([], r1))
           in if integer_digits = [] \<and> fraction_digits = [] then Err DecimalInvalidFormat
              else rbind (case r2 of c # cs \<Rightarrow> if c = CHR ''e'' \<or> c = CHR ''E''
                            then parse_exponent cs else Ok (0, r2)
                          | [] \<Rightarrow> Ok (0, r2)) (\<lambda>(exponent, r3).
                if r3 \<noteq> [] then Err DecimalInvalidFormat
                else rbind (ok_or (checked_i64 (int (length fraction_digits))) DecimalOutOfRange)
                  (\<lambda>fraction_length.
                  rbind (ok_or (Option.bind (checked_i64 (int DECIMAL_SCALE + exponent))
                            (\<lambda>v. checked_i64 (v - fraction_length))) DecimalOutOfRange)
                    (\<lambda>atom_shift.
                      atoms_of_digits negative (integer_digits @ fraction_digits) atom_shift))))"

text \<open>\<open>Display\<close>: the integer part, then the fraction padded to 18 places without its zeros.\<close>

definition digit_char :: "nat \<Rightarrow> char" where
  "digit_char d = char_of (48 + d)"

fun nat_digits :: "nat \<Rightarrow> string" where
  "nat_digits n = (if n < 10 then [digit_char n] else nat_digits (n div 10) @ [digit_char (n mod 10)])"

declare nat_digits.simps [simp del]

definition pad_zero :: "nat \<Rightarrow> string \<Rightarrow> string" where
  "pad_zero width s = replicate (width - length s) CHR ''0'' @ s"

definition trim_end_zeros :: "string \<Rightarrow> string" where
  "trim_end_zeros s = rev (dropWhile (\<lambda>c. c = CHR ''0'') (rev s))"

definition decimal_to_string :: "decimal \<Rightarrow> string" where
  "decimal_to_string d =
     (let magnitude = nat \<bar>d\<bar>; scale = nat DECIMAL_SCALE_FACTOR;
          integer = magnitude div scale; fraction = magnitude mod scale
      in (if d < 0 then ''-'' else []) @ nat_digits integer @
         (if fraction \<noteq> 0 then CHR ''.'' # trim_end_zeros (pad_zero 18 (nat_digits fraction))
          else []))"

datatype price_error = PriceInvalidDecimal decimal_error | PriceNonPositive

definition price_positive :: "decimal \<Rightarrow> (price, price_error) result" where
  "price_positive v = (if 0 < v then Ok v else Err PriceNonPositive)"

definition price_parse :: "string \<Rightarrow> (price, price_error) result" where
  "price_parse s = map_err PriceInvalidDecimal (parse_decimal s)"

definition price_parse_positive :: "string \<Rightarrow> (price, price_error) result" where
  "price_parse_positive s = rbind (map_err PriceInvalidDecimal (parse_decimal s)) price_positive"

section \<open>Values of digit strings\<close>

definition digits_value :: "string \<Rightarrow> nat" where
  "digits_value ds = foldl (\<lambda>a c. a * 10 + digit_val c) 0 ds"

lemma foldl_digits: "foldl (\<lambda>a c. a * 10 + digit_val c) a ds = a * 10 ^ length ds + digits_value ds"
proof (induction ds arbitrary: a)
  case Nil
  show ?case by (simp add: digits_value_def)
next
  case (Cons d ds)
  have "digits_value (d # ds) = digit_val d * 10 ^ length ds + digits_value ds"
    using Cons.IH [of "digit_val d"] by (simp add: digits_value_def)
  then show ?case using Cons.IH [of "a * 10 + digit_val d"] by (simp add: algebra_simps)
qed

lemma digits_value_Nil [simp]: "digits_value [] = 0"
  by (simp add: digits_value_def)

lemma digits_value_append:
  "digits_value (xs @ ys) = digits_value xs * 10 ^ length ys + digits_value ys"
  using foldl_digits [of "digits_value xs" ys] by (simp add: digits_value_def)

lemma digits_value_Cons: "digits_value (c # cs) = digit_val c * 10 ^ length cs + digits_value cs"
  using digits_value_append [of "[c]" cs] by (simp add: digits_value_def)

lemma digit_val_less: "is_ascii_digit c \<Longrightarrow> digit_val c < 10"
  by (auto simp: is_ascii_digit_def digit_val_def Let_def)

lemma digit_val_zero: "is_ascii_digit c \<Longrightarrow> digit_val c = 0 \<longleftrightarrow> c = CHR ''0''"
proof -
  assume "is_ascii_digit c"
  then have "digit_val c = 0 \<longleftrightarrow> of_char c = (48 :: nat)"
    by (auto simp: is_ascii_digit_def digit_val_def Let_def)
  also have "\<dots> \<longleftrightarrow> of_char c = (of_char CHR ''0'' :: nat)" by simp
  also have "\<dots> \<longleftrightarrow> c = CHR ''0''" by (simp only: of_char_eq_iff)
  finally show ?thesis .
qed

lemma digits_value_less: "list_all is_ascii_digit ds \<Longrightarrow> digits_value ds < 10 ^ length ds"
proof (induction ds)
  case Nil
  then show ?case by simp
next
  case (Cons c cs)
  then have "digit_val c + 1 \<le> 10" using digit_val_less [of c] by simp
  then have "(digit_val c + 1) * 10 ^ length cs \<le> 10 * 10 ^ length cs" by (rule mult_le_mono1)
  moreover have "digits_value cs < 10 ^ length cs" using Cons by simp
  ultimately show ?case
    unfolding digits_value_Cons length_Cons power_Suc add_mult_distrib by linarith
qed

lemma digits_value_zero:
  "list_all is_ascii_digit ds \<Longrightarrow> digits_value ds = 0 \<longleftrightarrow> list_all (\<lambda>c. c = CHR ''0'') ds"
  by (induction ds) (auto simp: digits_value_Cons digit_val_zero)

lemma in_u128_0 [simp]: "in_u128 0"
  by (simp add: in_u128_def)

lemma push_digits_spec:
  assumes "in_u128 m"
  shows "push_digits m ds =
    (if in_u128 (m * 10 ^ length ds + digits_value ds) then Ok (m * 10 ^ length ds + digits_value ds)
     else Err DecimalOutOfRange)"
  using assms
proof (induction ds arbitrary: m)
  case Nil
  then show ?case by simp
next
  case (Cons c cs)
  define m' where "m' = m * 10 + digit_val c"
  have total: "m * 10 ^ length (c # cs) + digits_value (c # cs)
      = m' * 10 ^ length cs + digits_value cs"
    by (simp add: m'_def digits_value_Cons algebra_simps)
  have bounds: "m * 10 \<le> m'" "m' \<le> m' * 10 ^ length cs + digits_value cs"
    by (simp_all add: m'_def trans_le_add1)
  show ?case
  proof (cases "in_u128 m'")
    case True
    then have "in_u128 (m * 10)" using bounds by (simp add: in_u128_def)
    with True show ?thesis unfolding total
      by (simp add: Cons.IH checked_u128_def flip: m'_def)
  next
    case False
    then have "\<not> in_u128 (m' * 10 ^ length cs + digits_value cs)"
      using bounds by (simp add: in_u128_def)
    with False show ?thesis unfolding total
      by (auto simp: checked_u128_def simp flip: m'_def)
  qed
qed

lemma shift_up_spec:
  assumes "in_u128 m"
  shows "shift_up n m =
    (if in_u128 (m * 10 ^ n) then Ok (m * 10 ^ n) else Err DecimalOutOfRange)"
  using assms
proof (induction n arbitrary: m)
  case 0
  then show ?case by simp
next
  case (Suc n)
  have step: "m * 10 ^ Suc n = m * 10 * 10 ^ n" by simp
  show ?case
  proof (cases "in_u128 (m * 10)")
    case True
    then show ?thesis unfolding step by (simp add: Suc.IH checked_u128_def)
  next
    case False
    have "m * 10 \<le> m * 10 * 10 ^ n" by simp
    with False have "\<not> in_u128 (m * 10 * 10 ^ n)" unfolding in_u128_def by linarith
    with False show ?thesis unfolding step by (simp add: checked_u128_def)
  qed
qed

lemma signed_atoms_spec:
  "signed_atoms m negative =
     (let v = (if negative then - int m else int m)
      in if in_i128 v then Ok v else Err DecimalOutOfRange)"
  by (auto simp: signed_atoms_def in_i128_def Let_def)

section \<open>Exactness of the parser\<close>

text \<open>
  \<open>exact_atoms\<close> says, over the integers, that \<open>d\<close> atoms are the number \<open>\<plusminus>N * 10^shift\<close>. No rounding
  is involved: for a negative shift the quotient must be exact.
\<close>

definition exact_atoms :: "bool \<Rightarrow> nat \<Rightarrow> int \<Rightarrow> int \<Rightarrow> bool" where
  "exact_atoms negative N shift d \<longleftrightarrow>
     (let v = (if negative then - int N else int N)
      in if 0 \<le> shift then d = v * 10 ^ nat shift else d * 10 ^ nat (- shift) = v)"

lemma exact_atoms_rat:
  "exact_atoms negative N shift d \<longleftrightarrow>
     (of_int d :: rat) = (if negative then - of_nat N else of_nat N) * 10 powi shift"
proof -
  define v where "v = (if negative then - int N else int N)"
  have v: "(of_int v :: rat) = (if negative then - of_nat N else of_nat N)" by (simp add: v_def)
  show ?thesis
  proof (cases "0 \<le> shift")
    case True
    have "(of_int v :: rat) * 10 ^ nat shift = of_int (v * 10 ^ nat shift)" by simp
    then have "(of_int d :: rat) = of_int v * 10 ^ nat shift \<longleftrightarrow> d = v * 10 ^ nat shift"
      by (simp only: of_int_eq_iff)
    with True show ?thesis
      unfolding exact_atoms_def v [symmetric] Let_def v_def [symmetric]
      by (simp add: power_int_def)
  next
    case False
    have "(of_int d :: rat) * 10 ^ nat (- shift) = of_int (d * 10 ^ nat (- shift))" by simp
    then have "(of_int d :: rat) * 10 ^ nat (- shift) = of_int v \<longleftrightarrow> d * 10 ^ nat (- shift) = v"
      by (simp only: of_int_eq_iff)
    with False show ?thesis
      unfolding exact_atoms_def v [symmetric] Let_def v_def [symmetric]
      by (simp add: power_int_def field_simps)
  qed
qed

lemma atoms_nonneg_shift:
  assumes "0 \<le> shift" and "0 < N"
  shows "rbind (if in_u128 N then Ok N else Err DecimalOutOfRange) (\<lambda>magnitude.
      if 38 < shift then Err DecimalOutOfRange
      else rbind (if 0 < shift then shift_up (nat shift) magnitude else Ok magnitude)
        (\<lambda>m. signed_atoms m negative)) = Ok d
    \<longleftrightarrow> in_i128 d \<and> exact_atoms negative N shift d"
proof -
  define k where "k = nat shift"
  have k: "shift = int k" using assms(1) by (simp add: k_def)
  have le: "N \<le> N * 10 ^ k" by simp
  have signed: "signed_atoms (N * 10 ^ k) negative = Ok d \<longleftrightarrow> in_i128 d \<and> exact_atoms negative N shift d"
    by (auto simp: signed_atoms_spec exact_atoms_def Let_def k)
  have big: "\<not> in_i128 d" if "\<not> in_u128 (N * 10 ^ k)" and "exact_atoms negative N shift d"
  proof -
    have "(2 :: int) ^ 128 \<le> int (N * 10 ^ k)"
      using that(1) unfolding in_u128_def by (metis not_less of_nat_le_iff of_nat_numeral of_nat_power)
    then show ?thesis using that(2) unfolding exact_atoms_def Let_def k in_i128_def
      by (cases negative) auto
  qed
  have large: "\<not> in_u128 (N * 10 ^ k)" if "38 < shift"
  proof -
    have "39 \<le> k" using that k by simp
    then have "(10 :: nat) ^ 39 \<le> 10 ^ k" by (intro power_increasing) auto
    also have "\<dots> \<le> N * 10 ^ k" using assms(2) by simp
    finally show ?thesis by (simp add: in_u128_def)
  qed
  show ?thesis
  proof (cases "in_u128 (N * 10 ^ k)")
    case True
    then have "in_u128 N" using le unfolding in_u128_def by linarith
    moreover have "\<not> 38 < shift" using large True by blast
    moreover have "(if 0 < shift then shift_up (nat shift) N else Ok N) = Ok (N * 10 ^ k)"
      using True \<open>in_u128 N\<close> by (auto simp: shift_up_spec k)
    ultimately show ?thesis using signed by simp
  next
    case False
    then have "\<not> (in_i128 d \<and> exact_atoms negative N shift d)" using big by blast
    moreover have "(if 0 < shift then shift_up (nat shift) N else Ok N) = Err DecimalOutOfRange"
      if "in_u128 N"
    proof -
      have "k \<noteq> 0" using that False by (metis mult_1_right power_0)
      then show ?thesis using that False by (simp add: shift_up_spec k)
    qed
    ultimately show ?thesis by auto
  qed
qed

lemma retained_digits_neg:
  assumes "0 < k"
  shows "retained_digits ds (- int k) =
    (if k \<le> length ds \<and> list_all (\<lambda>c. c = CHR ''0'') (drop (length ds - k) ds)
     then Ok (length ds - k) else Err DecimalPrecisionLoss)"
  using assms by (simp add: retained_digits_def Let_def list_all_iff)

lemma exact_atoms_drop:
  assumes "0 < k" and "k \<le> length ds" and "digits_value (drop (length ds - k) ds) = 0"
  shows "exact_atoms negative (digits_value ds) (- int k) d \<longleftrightarrow>
    exact_atoms negative (digits_value (take (length ds - k) ds)) 0 d"
proof -
  define N where "N = digits_value (take (length ds - k) ds)"
  have "digits_value ds = N * 10 ^ k"
    using digits_value_append [of "take (length ds - k) ds" "drop (length ds - k) ds"] assms
    by (simp add: N_def)
  then have "(if negative then - int (digits_value ds) else int (digits_value ds)) =
      (if negative then - int N else int N) * 10 ^ k" by simp
  then show ?thesis
    using assms(1) unfolding exact_atoms_def Let_def N_def [symmetric]
    by (simp only: mult_cancel_right) simp
qed

lemma exact_atoms_not_exact:
  assumes digits: "list_all is_ascii_digit ds" and k: "0 < k" and pos: "0 < digits_value ds"
    and bad: "\<not> (k \<le> length ds \<and> digits_value (drop (length ds - k) ds) = 0)"
  shows "\<not> exact_atoms negative (digits_value ds) (- int k) d"
proof
  assume "exact_atoms negative (digits_value ds) (- int k) d"
  then have "d * 10 ^ k = (if negative then - int (digits_value ds) else int (digits_value ds))"
    using k by (simp add: exact_atoms_def Let_def)
  then have "\<bar>d * 10 ^ k\<bar> = int (digits_value ds)" by simp
  then have "\<bar>d\<bar> * 10 ^ k = int (digits_value ds)" by (simp add: abs_mult)
  then have "int (nat \<bar>d\<bar> * 10 ^ k) = int (digits_value ds)" by simp
  then have eq: "nat \<bar>d\<bar> * 10 ^ k = digits_value ds" by (simp only: of_nat_eq_iff)
  have ddrp: "list_all is_ascii_digit (drop (length ds - k) ds)"
    using digits by (auto simp: list_all_iff dest: in_set_dropD)
  show False
  proof (cases "k \<le> length ds")
    case True
    then have "digits_value ds mod 10 ^ k = digits_value (drop (length ds - k) ds)"
      using digits_value_append [of "take (length ds - k) ds" "drop (length ds - k) ds"]
        digits_value_less [OF ddrp] by simp
    moreover have "digits_value ds mod 10 ^ k = 0" unfolding eq [symmetric] by simp
    ultimately show False using bad True by auto
  next
    case False
    then have "(10 :: nat) ^ length ds \<le> 10 ^ k" by (intro power_increasing) auto
    then have "digits_value ds < 10 ^ k" using digits_value_less [OF digits] by (rule less_le_trans [rotated])
    moreover have "0 < nat \<bar>d\<bar>" using eq pos by (cases "nat \<bar>d\<bar>") auto
    then have "10 ^ k \<le> nat \<bar>d\<bar> * 10 ^ k" by simp
    ultimately show False using eq by simp
  qed
qed

lemma atoms_of_digits_spec:
  assumes digits: "list_all is_ascii_digit ds"
  shows "atoms_of_digits negative ds shift = Ok d \<longleftrightarrow>
    in_i128 d \<and> exact_atoms negative (digits_value ds) shift d"
proof (cases "list_all (\<lambda>c. c = CHR ''0'') ds")
  case True
  then have "digits_value ds = 0" using digits by (simp add: digits_value_zero)
  with True show ?thesis by (auto simp: atoms_of_digits_def exact_atoms_def in_i128_def)
next
  case nonzero: False
  then have pos: "0 < digits_value ds" using digits by (simp add: digits_value_zero flip: neq0_conv)
  consider "0 \<le> shift" | k where "0 < k" "shift = - int k"
    by (metis linorder_not_less neg_0_less_iff_less zero_less_imp_eq_int verit_minus_simplify(4))
  then show ?thesis
  proof cases
    case 1
    then have "retained_digits ds shift = Ok (length ds)" by (simp add: retained_digits_def)
    then show ?thesis
      unfolding atoms_nonneg_shift [OF 1 pos, of negative d, symmetric]
      by (simp only: atoms_of_digits_def nonzero if_False rbind.simps take_all order_refl
          push_digits_spec [OF in_u128_0] mult_0 add_0)
  next
    case k: 2
    define keep where "keep = take (length ds - k) ds"
    have ddrp: "list_all is_ascii_digit (drop (length ds - k) ds)"
      using digits by (auto simp: list_all_iff dest: in_set_dropD)
    show ?thesis
    proof (cases "k \<le> length ds \<and> digits_value (drop (length ds - k) ds) = 0")
      case True
      have "0 < digits_value keep"
        using pos True digits_value_append [of keep "drop (length ds - k) ds"]
        by (cases "digits_value keep = 0") (simp_all add: keep_def)
      then have "rbind (push_digits 0 keep) (\<lambda>m. signed_atoms m negative) = Ok d \<longleftrightarrow>
          in_i128 d \<and> exact_atoms negative (digits_value keep) 0 d"
        using atoms_nonneg_shift [of 0 "digits_value keep" negative d]
        unfolding push_digits_spec [OF in_u128_0] mult_0 add_0 by simp
      moreover have "atoms_of_digits negative ds shift =
          rbind (push_digits 0 keep) (\<lambda>m. signed_atoms m negative)"
        using nonzero True k
        by (simp add: atoms_of_digits_def keep_def retained_digits_neg flip: digits_value_zero [OF ddrp])
      ultimately show ?thesis
        using exact_atoms_drop [OF k(1), of ds negative d] True k(2) by (simp add: keep_def)
    next
      case False
      then have "retained_digits ds shift = Err DecimalPrecisionLoss"
        using k by (simp add: retained_digits_neg flip: digits_value_zero [OF ddrp])
      then show ?thesis
        using exact_atoms_not_exact [OF digits k(1) pos False] nonzero k(2)
        by (simp add: atoms_of_digits_def)
    qed
  qed
qed

section \<open>The grammar of decimal text\<close>

text \<open>
  \<open>decimal_text sg ids fr ex\<close> is the text with sign \<open>sg\<close>, integer digits \<open>ids\<close>, an optional
  fraction \<open>fr\<close> and an optional exponent (its letter, its sign, its digits).
\<close>

fun sign_text :: "bool option \<Rightarrow> string" where
  "sign_text None = []"
| "sign_text (Some negative) = (if negative then ''-'' else ''+'')"

definition decimal_text ::
  "bool option \<Rightarrow> string \<Rightarrow> string option \<Rightarrow> (char \<times> bool option \<times> string) option \<Rightarrow> string" where
  "decimal_text sg ids fr ex =
     sign_text sg @ ids @ (case fr of None \<Rightarrow> [] | Some fds \<Rightarrow> CHR ''.'' # fds) @
     (case ex of None \<Rightarrow> [] | Some (c, esg, eds) \<Rightarrow> c # sign_text esg @ eds)"

abbreviation fraction_of :: "string option \<Rightarrow> string" where
  "fraction_of fr \<equiv> (case fr of None \<Rightarrow> [] | Some fds \<Rightarrow> fds)"

definition exponent_of :: "(char \<times> bool option \<times> string) option \<Rightarrow> int" where
  "exponent_of ex = (case ex of None \<Rightarrow> 0
     | Some (c, esg, eds) \<Rightarrow> if esg = Some True then - int (digits_value eds) else int (digits_value eds))"

definition valid_decimal_text ::
  "string \<Rightarrow> string option \<Rightarrow> (char \<times> bool option \<times> string) option \<Rightarrow> bool" where
  "valid_decimal_text ids fr ex \<longleftrightarrow>
     list_all is_ascii_digit ids \<and> list_all is_ascii_digit (fraction_of fr) \<and>
     (ids \<noteq> [] \<or> fraction_of fr \<noteq> []) \<and>
     (case ex of None \<Rightarrow> True
      | Some (c, esg, eds) \<Rightarrow> (c = CHR ''e'' \<or> c = CHR ''E'') \<and> eds \<noteq> [] \<and> list_all is_ascii_digit eds)"

lemma digit_not_sign: "is_ascii_digit c \<Longrightarrow> c \<noteq> CHR ''-'' \<and> c \<noteq> CHR ''+'' \<and> c \<noteq> CHR ''.''"
  by (auto simp: is_ascii_digit_def)

lemma take_sign_text:
  "r = [] \<or> hd r \<noteq> CHR ''-'' \<and> hd r \<noteq> CHR ''+'' \<Longrightarrow>
     take_sign (sign_text sg @ r) = (sg = Some True, r)"
  by (cases sg) (auto simp: take_sign_def split: list.splits)

lemma take_signE:
  assumes "take_sign s = (negative, r)"
  obtains sg where "s = sign_text sg @ r" and "negative = (sg = Some True)"
proof (cases s)
  case Nil
  then show thesis using assms that [of None] by (simp add: take_sign_def)
next
  case (Cons c cs)
  consider "c = CHR ''-''" | "c = CHR ''+''" | "c \<noteq> CHR ''-'' \<and> c \<noteq> CHR ''+''" by blast
  then show thesis
  proof cases
    case 1
    then show thesis using assms Cons that [of "Some True"] by (simp add: take_sign_def)
  next
    case 2
    then show thesis using assms Cons that [of "Some False"] by (simp add: take_sign_def)
  next
    case 3
    then show thesis using assms Cons that [of None] by (simp add: take_sign_def)
  qed
qed

lemma exponent_digits_spec:
  assumes "in_u64 m"
  shows "exponent_digits m s = Ok (v, rest) \<longleftrightarrow>
    rest = dropWhile is_ascii_digit s \<and>
    v = m * 10 ^ length (takeWhile is_ascii_digit s) + digits_value (takeWhile is_ascii_digit s) \<and>
    in_u64 v"
  using assms
proof (induction s arbitrary: m)
  case Nil
  then show ?case by auto
next
  case (Cons c cs)
  show ?case
  proof (cases "is_ascii_digit c")
    case True
    define m' where "m' = m * 10 + digit_val c"
    define t where "t = takeWhile is_ascii_digit cs"
    have total: "m * 10 ^ length (c # t) + digits_value (c # t) = m' * 10 ^ length t + digits_value t"
      by (simp add: m'_def digits_value_Cons algebra_simps)
    have bounds: "m * 10 \<le> m'" "m' \<le> m' * 10 ^ length t + digits_value t"
      by (simp_all add: m'_def trans_le_add1)
    show ?thesis
    proof (cases "in_u64 m'")
      case ok: True
      then have "in_u64 (m * 10)" using bounds(1) unfolding in_u64_def by linarith
      then show ?thesis
        using ok True Cons.IH [OF ok] total
        by (simp add: checked_u64_def flip: m'_def t_def)
    next
      case False
      then have "\<not> in_u64 (m' * 10 ^ length t + digits_value t)"
        using bounds(2) unfolding in_u64_def by linarith
      then show ?thesis
        using False True total by (auto simp: checked_u64_def simp flip: m'_def t_def)
    qed
  next
    case False
    then show ?thesis using Cons.prems by auto
  qed
qed

lemma takeWhile_all: "list_all P xs \<Longrightarrow> takeWhile P xs = xs \<and> dropWhile P xs = []"
  by (simp add: list_all_iff)

lemma takeWhile_split:
  "list_all P xs \<Longrightarrow> ys = [] \<or> \<not> P (hd ys) \<Longrightarrow> takeWhile P (xs @ ys) = xs \<and> dropWhile P (xs @ ys) = ys"
  by (cases ys) (simp_all add: list_all_iff takeWhile_append dropWhile_append)

lemma list_all_takeWhile: "list_all P (takeWhile P xs)"
  by (auto simp: list_all_iff dest: set_takeWhileD)

lemma parse_exponent_complete:
  assumes "eds \<noteq> []" and digits: "list_all is_ascii_digit eds"
  shows "parse_exponent (sign_text esg @ eds) = Ok (e, []) \<longleftrightarrow>
    e = (if esg = Some True then - int (digits_value eds) else int (digits_value eds)) \<and> in_i64 e"
proof -
  have "is_ascii_digit (hd eds)" using assms by (cases eds) auto
  then have sign: "take_sign (sign_text esg @ eds) = (esg = Some True, eds)"
    using digit_not_sign by (intro take_sign_text) auto
  have "exponent_digits 0 eds = Ok (v, r) \<longleftrightarrow> r = [] \<and> v = digits_value eds \<and> in_u64 v" for v r
    using exponent_digits_spec [of 0 eds v r] takeWhile_all [OF digits] by (simp add: in_u64_def)
  then show ?thesis
    using assms(1) unfolding parse_exponent_def sign
    by (auto simp: in_i64_def in_u64_def split: if_splits)
qed

lemma parse_exponentE:
  assumes "parse_exponent s = Ok (e, [])"
  obtains esg eds where "s = sign_text esg @ eds" and "eds \<noteq> []" and "list_all is_ascii_digit eds"
proof -
  obtain negative start where start: "take_sign s = (negative, start)" by fastforce
  then obtain esg where s: "s = sign_text esg @ start" by (rule take_signE) blast
  from assms start obtain m where "exponent_digits 0 start = Ok (m, [])" and "start \<noteq> []"
    by (auto simp: parse_exponent_def split: if_splits)
  then have "dropWhile is_ascii_digit start = []"
    using exponent_digits_spec [of 0 start m "[]"] by (simp add: in_u64_def)
  then have "list_all is_ascii_digit start" by (simp add: list_all_iff)
  with s \<open>start \<noteq> []\<close> show thesis by (rule that)
qed

text \<open>The text after the integer and fraction digits, split the way the parser reads it.\<close>

definition split_fraction :: "string \<Rightarrow> string \<times> string" where
  "split_fraction r1 =
     (case r1 of c # cs \<Rightarrow> if c = CHR ''.'' then
           (takeWhile is_ascii_digit cs, dropWhile is_ascii_digit cs) else ([], r1)
      | [] \<Rightarrow> ([], r1))"

definition split_exponent :: "string \<Rightarrow> (int \<times> string, decimal_error) result" where
  "split_exponent r2 =
     (case r2 of c # cs \<Rightarrow> if c = CHR ''e'' \<or> c = CHR ''E'' then parse_exponent cs else Ok (0, r2)
      | [] \<Rightarrow> Ok (0, r2))"

lemma parse_decimal_unfold:
  assumes "take_sign s = (negative, r0)"
    and "split_fraction (dropWhile is_ascii_digit r0) = (fds, r2)"
  shows "parse_decimal s = Ok d \<longleftrightarrow>
    (takeWhile is_ascii_digit r0 \<noteq> [] \<or> fds \<noteq> []) \<and>
    (\<exists>e. split_exponent r2 = Ok (e, []) \<and> in_i64 (int (length fds)) \<and> in_i64 (18 + e) \<and>
         in_i64 (18 + e - int (length fds)) \<and>
         atoms_of_digits negative (takeWhile is_ascii_digit r0 @ fds) (18 + e - int (length fds)) = Ok d)"
proof -
  have "s = [] \<Longrightarrow> r0 = [] \<and> fds = []"
    using assms by (auto simp: take_sign_def split_fraction_def)
  then show ?thesis
    using assms(2) unfolding parse_decimal_def assms(1) split_fraction_def [symmetric]
      split_exponent_def [symmetric]
    by (auto simp: DECIMAL_SCALE_def Let_def Option.bind_eq_Some_conv split: if_splits)
qed

lemma split_exponentE:
  assumes "split_exponent r2 = Ok (e, [])"
  obtains ex where "r2 = (case ex of None \<Rightarrow> [] | Some (c, esg, eds) \<Rightarrow> c # sign_text esg @ eds)"
    and "case ex of None \<Rightarrow> True
      | Some (c, esg, eds) \<Rightarrow> (c = CHR ''e'' \<or> c = CHR ''E'') \<and> eds \<noteq> [] \<and> list_all is_ascii_digit eds"
    and "e = exponent_of ex" and "in_i64 e"
proof (cases r2)
  case Nil
  then show thesis using assms that [of None] by (simp add: split_exponent_def exponent_of_def in_i64_def)
next
  case (Cons c cs)
  then have c: "c = CHR ''e'' \<or> c = CHR ''E''" and pe: "parse_exponent cs = Ok (e, [])"
    using assms by (auto simp: split_exponent_def split: if_splits)
  from pe obtain esg eds where ex: "cs = sign_text esg @ eds" "eds \<noteq> []" "list_all is_ascii_digit eds"
    by (rule parse_exponentE)
  have "e = (if esg = Some True then - int (digits_value eds) else int (digits_value eds)) \<and> in_i64 e"
    using pe unfolding ex(1) parse_exponent_complete [OF ex(2,3)] .
  then have "e = exponent_of (Some (c, esg, eds))" and "in_i64 e"
    unfolding exponent_of_def by auto
  then show thesis using Cons c ex that [of "Some (c, esg, eds)"] by simp
qed

lemma split_exponent_text:
  assumes "case ex of None \<Rightarrow> True
      | Some (c, esg, eds) \<Rightarrow> (c = CHR ''e'' \<or> c = CHR ''E'') \<and> eds \<noteq> [] \<and> list_all is_ascii_digit eds"
  shows "split_exponent (case ex of None \<Rightarrow> [] | Some (c, esg, eds) \<Rightarrow> c # sign_text esg @ eds) = Ok (e, [])
    \<longleftrightarrow> e = exponent_of ex \<and> in_i64 e"
proof (cases ex)
  case None
  then show ?thesis by (auto simp: split_exponent_def exponent_of_def in_i64_def)
next
  case (Some x)
  obtain c esg eds where x: "x = (c, esg, eds)" by (cases x) auto
  then have "split_exponent (c # sign_text esg @ eds) = parse_exponent (sign_text esg @ eds)"
    using assms Some by (auto simp: split_exponent_def)
  then show ?thesis
    using assms Some x parse_exponent_complete [of eds esg e] by (simp add: exponent_of_def)
qed

lemma split_fractionE:
  assumes "split_fraction r1 = (fds, r2)"
  obtains fr where "r1 = (case fr of None \<Rightarrow> [] | Some f \<Rightarrow> CHR ''.'' # f) @ r2"
    and "fds = fraction_of fr" and "list_all is_ascii_digit fds"
proof (cases "\<exists>cs. r1 = CHR ''.'' # cs")
  case True
  then obtain cs where "r1 = CHR ''.'' # cs" by blast
  then show thesis
    using assms that [of "Some fds"] list_all_takeWhile [of is_ascii_digit cs]
    by (auto simp: split_fraction_def)
next
  case False
  then show thesis
    using assms that [of None] by (auto simp: split_fraction_def split: list.splits if_splits)
qed

text \<open>
  The whole parser: it accepts a text exactly when it is a decimal literal whose exponent and
  shift fit an \<open>i64\<close> and whose value is a whole number of \<open>10^-18\<close> atoms inside the \<open>i128\<close> range.
\<close>

lemma parse_decimal_text:
  assumes valid: "valid_decimal_text ids fr ex"
  shows "parse_decimal (decimal_text sg ids fr ex) = Ok d \<longleftrightarrow>
    in_i64 (int (length (fraction_of fr))) \<and> in_i64 (exponent_of ex) \<and>
    in_i64 (18 + exponent_of ex) \<and>
    in_i64 (18 + exponent_of ex - int (length (fraction_of fr))) \<and> in_i128 d \<and>
    exact_atoms (sg = Some True) (digits_value (ids @ fraction_of fr))
      (18 + exponent_of ex - int (length (fraction_of fr))) d"
proof -
  define xt where "xt = (case ex of None \<Rightarrow> [] | Some (c, esg, eds) \<Rightarrow> c # sign_text esg @ eds)"
  define ft where "ft = (case fr of None \<Rightarrow> [] | Some f \<Rightarrow> CHR ''.'' # f)"
  have ids: "list_all is_ascii_digit ids" and fds: "list_all is_ascii_digit (fraction_of fr)"
    and some: "ids \<noteq> [] \<or> fraction_of fr \<noteq> []"
    and exv: "case ex of None \<Rightarrow> True | Some (c, esg, eds) \<Rightarrow>
        (c = CHR ''e'' \<or> c = CHR ''E'') \<and> eds \<noteq> [] \<and> list_all is_ascii_digit eds"
    using valid by (simp_all add: valid_decimal_text_def)
  have xt: "xt = [] \<or> \<not> is_ascii_digit (hd xt) \<and> hd xt \<noteq> CHR ''-'' \<and> hd xt \<noteq> CHR ''+'' \<and> hd xt \<noteq> CHR ''.''"
    using exv by (auto simp: xt_def is_ascii_digit_def split: option.splits)
  have ft: "ft @ xt = [] \<or> \<not> is_ascii_digit (hd (ft @ xt)) \<and> hd (ft @ xt) \<noteq> CHR ''-'' \<and> hd (ft @ xt) \<noteq> CHR ''+''"
    using xt by (auto simp: ft_def is_ascii_digit_def split: option.splits)
  have "take_sign (sign_text sg @ ids @ ft @ xt) = (sg = Some True, ids @ ft @ xt)"
    using ids ft digit_not_sign by (intro take_sign_text) (cases ids, auto)
  moreover have tw: "takeWhile is_ascii_digit (ids @ ft @ xt) = ids \<and> dropWhile is_ascii_digit (ids @ ft @ xt) = ft @ xt"
    using ids ft by (intro takeWhile_split) auto
  moreover have "split_fraction (ft @ xt) = (fraction_of fr, xt)"
    using takeWhile_split [OF fds, of xt] xt
    by (auto simp: ft_def split_fraction_def split: option.splits list.splits)
  ultimately show ?thesis
    using parse_decimal_unfold [of "decimal_text sg ids fr ex" "sg = Some True" "ids @ ft @ xt" "fraction_of fr" xt d]
      split_exponent_text [OF exv] some atoms_of_digits_spec [of "ids @ fraction_of fr"] ids fds
    by (auto simp: decimal_text_def simp flip: ft_def xt_def)
qed

lemma parse_decimal_accepts_text:
  assumes "parse_decimal s = Ok d"
  obtains sg ids fr ex where "s = decimal_text sg ids fr ex" and "valid_decimal_text ids fr ex"
proof -
  obtain negative r0 where sign: "take_sign s = (negative, r0)" by fastforce
  obtain fds r2 where frac: "split_fraction (dropWhile is_ascii_digit r0) = (fds, r2)" by fastforce
  from sign obtain sg where s: "s = sign_text sg @ r0" by (rule take_signE) blast
  from frac obtain fr where fr: "dropWhile is_ascii_digit r0 = (case fr of None \<Rightarrow> [] | Some f \<Rightarrow> CHR ''.'' # f) @ r2"
    "fds = fraction_of fr" "list_all is_ascii_digit fds" by (rule split_fractionE)
  from assms parse_decimal_unfold [OF sign frac]
  obtain e where some: "takeWhile is_ascii_digit r0 \<noteq> [] \<or> fds \<noteq> []" and "split_exponent r2 = Ok (e, [])"
    by blast
  from this(2) obtain ex where ex: "r2 = (case ex of None \<Rightarrow> [] | Some (c, esg, eds) \<Rightarrow> c # sign_text esg @ eds)"
    "case ex of None \<Rightarrow> True
      | Some (c, esg, eds) \<Rightarrow> (c = CHR ''e'' \<or> c = CHR ''E'') \<and> eds \<noteq> [] \<and> list_all is_ascii_digit eds"
    by (rule split_exponentE)
  have "s = decimal_text sg (takeWhile is_ascii_digit r0) fr ex"
    unfolding decimal_text_def s ex(1) [symmetric] fr(1) [symmetric] by simp
  moreover have "valid_decimal_text (takeWhile is_ascii_digit r0) fr ex"
    using some fr ex(2) list_all_takeWhile [of is_ascii_digit r0] by (simp add: valid_decimal_text_def)
  ultimately show thesis by (rule that)
qed

section \<open>Printing\<close>

lemma digit_char_digit [simp]: "d < 10 \<Longrightarrow> is_ascii_digit (digit_char d)"
  by (simp add: is_ascii_digit_def digit_char_def)

lemma digit_val_digit_char [simp]: "d < 10 \<Longrightarrow> digit_val (digit_char d) = d"
  by (simp add: digit_val_def digit_char_def)

lemma nat_digits_digits: "list_all is_ascii_digit (nat_digits n)"
proof (induction n rule: nat_digits.induct)
  case (1 n)
  then show ?case by (simp add: nat_digits.simps [of n])
qed

lemma nat_digits_value: "digits_value (nat_digits n) = n"
proof (induction n rule: nat_digits.induct)
  case (1 n)
  then show ?case
    by (simp add: nat_digits.simps [of n] digits_value_append digits_value_Cons)
qed

lemma nat_digits_nonempty: "nat_digits n \<noteq> []"
  by (simp add: nat_digits.simps [of n])

lemma nat_digits_length: "n < 10 ^ k \<Longrightarrow> 0 < k \<Longrightarrow> length (nat_digits n) \<le> k"
proof (induction n arbitrary: k rule: nat_digits.induct)
  case (1 n)
  show ?case
  proof (cases "n < 10")
    case True
    then show ?thesis using 1 by (simp add: nat_digits.simps [of n])
  next
    case False
    then obtain j where k: "k = Suc j" "0 < j"
      using 1 by (cases k; cases "k - 1") auto
    then have "n div 10 < 10 ^ j" using 1 by (simp add: less_mult_imp_div_less mult.commute)
    then show ?thesis using 1 False k by (simp add: nat_digits.simps [of n])
  qed
qed

lemma digits_value_replicate [simp]: "digits_value (replicate n CHR ''0'') = 0"
  by (induction n) (simp_all add: digits_value_Cons digit_val_def)

lemma pad_zero_value: "digits_value (pad_zero w s) = digits_value s"
  by (simp add: pad_zero_def digits_value_append)

lemma pad_zero_length: "length s \<le> w \<Longrightarrow> length (pad_zero w s) = w"
  by (simp add: pad_zero_def)

lemma pad_zero_digits: "list_all is_ascii_digit s \<Longrightarrow> list_all is_ascii_digit (pad_zero w s)"
  by (auto simp: pad_zero_def list_all_iff is_ascii_digit_def)

lemma trim_end_zeros_split:
  "s = trim_end_zeros s @ replicate (length s - length (trim_end_zeros s)) CHR ''0''"
proof -
  define z where "z = rev (takeWhile (\<lambda>c. c = CHR ''0'') (rev s))"
  have "rev s = rev z @ rev (trim_end_zeros s)" by (simp add: z_def trim_end_zeros_def)
  then have s: "s = trim_end_zeros s @ z" by (metis rev_append rev_rev_ident)
  have "\<forall>c \<in> set z. c = CHR ''0''" by (auto simp: z_def dest: set_takeWhileD)
  then have "replicate (length z) CHR ''0'' = z" by (rule replicate_length_same)
  moreover have "length z = length s - length (trim_end_zeros s)"
    using arg_cong [OF s, of length] by simp
  ultimately show ?thesis using s by simp
qed

lemma trim_end_zeros_value:
  "digits_value s = digits_value (trim_end_zeros s) * 10 ^ (length s - length (trim_end_zeros s))"
  by (subst (1) trim_end_zeros_split [of s]) (simp only: digits_value_append length_replicate
      digits_value_replicate add_0_right)

lemma trim_end_zeros_digits: "list_all is_ascii_digit s \<Longrightarrow> list_all is_ascii_digit (trim_end_zeros s)"
  by (subst (asm) trim_end_zeros_split) simp

lemma trim_end_zeros_length: "length (trim_end_zeros s) \<le> length s"
  by (subst (2) trim_end_zeros_split) simp

lemma decimal_to_string_text:
  fixes d :: int
  defines "fraction \<equiv> nat \<bar>d\<bar> mod 10 ^ 18"
  defines "fr \<equiv> (if fraction = 0 then None else Some (trim_end_zeros (pad_zero 18 (nat_digits fraction))))"
  shows "decimal_to_string d =
    decimal_text (if d < 0 then Some True else None) (nat_digits (nat \<bar>d\<bar> div 10 ^ 18)) fr None"
  by (auto simp: decimal_to_string_def decimal_text_def DECIMAL_SCALE_FACTOR_def Let_def
      fr_def fraction_def)

lemma fraction_digits_exact:
  assumes "0 < f" and "f < 10 ^ 18"
  defines "fds \<equiv> trim_end_zeros (pad_zero 18 (nat_digits f))"
  shows "list_all is_ascii_digit fds" and "length fds \<le> 18"
    and "digits_value fds * 10 ^ (18 - length fds) = f"
proof -
  have len: "length (pad_zero 18 (nat_digits f)) = 18"
    using nat_digits_length [OF assms(2)] by (simp add: pad_zero_length)
  show "list_all is_ascii_digit fds"
    unfolding fds_def by (intro trim_end_zeros_digits pad_zero_digits nat_digits_digits)
  show "length fds \<le> 18"
    using trim_end_zeros_length [of "pad_zero 18 (nat_digits f)"] len by (simp add: fds_def)
  show "digits_value fds * 10 ^ (18 - length fds) = f"
    using trim_end_zeros_value [of "pad_zero 18 (nat_digits f)"] len
    by (simp add: fds_def pad_zero_value nat_digits_value)
qed

text \<open>
  C35: printing is inverted by parsing. For every decimal the Rust type can hold, parsing the text
  that \<open>Display\<close> writes returns the same decimal.
\<close>

theorem decimal_display_parse_roundtrip:
  assumes "in_i128 d"
  shows "parse_decimal (decimal_to_string d) = Ok d"
proof -
  define m where "m = nat \<bar>d\<bar>"
  define f where "f = m mod 10 ^ 18"
  define fr where "fr = (if f = 0 then None else Some (trim_end_zeros (pad_zero 18 (nat_digits f))))"
  have f: "f < 10 ^ 18" by (simp add: f_def)
  have valid: "valid_decimal_text (nat_digits (m div 10 ^ 18)) fr None" and len: "length (fraction_of fr) \<le> 18"
    and fval: "digits_value (fraction_of fr) * 10 ^ (18 - length (fraction_of fr)) = f"
    using fraction_digits_exact [OF _ f] nat_digits_digits nat_digits_nonempty
    by (auto simp: valid_decimal_text_def fr_def)
  define n where "n = length (fraction_of fr)"
  have "m = m div 10 ^ 18 * 10 ^ 18 + f" by (simp add: f_def)
  also have "\<dots> = (m div 10 ^ 18 * 10 ^ n + digits_value (fraction_of fr)) * 10 ^ (18 - n)"
    using fval len by (simp add: algebra_simps n_def flip: power_add)
  also have "\<dots> = digits_value (nat_digits (m div 10 ^ 18) @ fraction_of fr) * 10 ^ (18 - n)"
    by (simp add: digits_value_append nat_digits_value n_def)
  finally have m: "m = digits_value (nat_digits (m div 10 ^ 18) @ fraction_of fr) * 10 ^ (18 - n)" .
  have "int m = \<bar>d\<bar>" by (simp add: m_def)
  moreover have "nat (18 - int n) = 18 - n" using len by (simp add: n_def nat_diff_distrib)
  ultimately have "exact_atoms (d < 0) (digits_value (nat_digits (m div 10 ^ 18) @ fraction_of fr)) (18 - int n) d"
    using arg_cong [OF m, of int] len by (auto simp: exact_atoms_def Let_def n_def)
  moreover have "decimal_to_string d =
      decimal_text (if d < 0 then Some True else None) (nat_digits (m div 10 ^ 18)) fr None"
    unfolding fr_def f_def m_def by (rule decimal_to_string_text)
  moreover have "((if d < 0 then Some True else None) = Some True) = (d < 0)" by simp
  ultimately show ?thesis
    using parse_decimal_text [OF valid, of "if d < 0 then Some True else None" d] assms len
    by (simp add: exponent_of_def in_i64_def n_def)
qed

theorem decimal_display_parse_roundtrip_witness:
  "in_i128 (- 1500000000000000000) \<and>
   parse_decimal (decimal_to_string (- 1500000000000000000)) = Ok (- 1500000000000000000)"
proof -
  have h: "in_i128 (- 1500000000000000000)" by (simp add: in_i128_def)
  show ?thesis using h decimal_display_parse_roundtrip [OF h] by blast
qed

text \<open>
  C34: the parser is exact and complete. It accepts a text and returns \<open>d\<close> atoms exactly when the text is
  a decimal literal, the length of its fraction, its exponent, its exponent plus 18 and the resulting
  shift by powers of ten each fit an \<open>i64\<close>, \<open>d\<close> fits an \<open>i128\<close>, and \<open>d * 10^-18\<close> is the rational number
  the literal denotes. So no accepted text is rounded, and a literal that denotes a representable number
  is refused only for the size of its exponent or fraction, as \<open>0e99999999999999999999\<close> is.
\<close>

theorem parse_decimal_exact:
  "parse_decimal s = Ok d \<longleftrightarrow>
    (\<exists>sg ids fr ex. s = decimal_text sg ids fr ex \<and> valid_decimal_text ids fr ex \<and>
       in_i64 (int (length (fraction_of fr))) \<and> in_i64 (exponent_of ex) \<and> in_i64 (18 + exponent_of ex) \<and>
       in_i64 (18 + exponent_of ex - int (length (fraction_of fr))) \<and> in_i128 d \<and>
       (of_int d :: rat) = (if sg = Some True then - 1 else 1) * of_nat (digits_value (ids @ fraction_of fr))
         * 10 powi (18 + exponent_of ex - int (length (fraction_of fr))))"
  (is "_ \<longleftrightarrow> ?denotes")
proof
  assume ok: "parse_decimal s = Ok d"
  then obtain sg ids fr ex where lit: "s = decimal_text sg ids fr ex" "valid_decimal_text ids fr ex"
    by (rule parse_decimal_accepts_text)
  show ?denotes
    using ok [unfolded lit(1) parse_decimal_text [OF lit(2)] exact_atoms_rat] lit
    by (intro exI [of _ sg] exI [of _ ids] exI [of _ fr] exI [of _ ex]) simp
next
  assume ?denotes
  then obtain sg ids fr ex where lit: "s = decimal_text sg ids fr ex" "valid_decimal_text ids fr ex"
    and facts: "in_i64 (int (length (fraction_of fr)))" "in_i64 (exponent_of ex)" "in_i64 (18 + exponent_of ex)"
      "in_i64 (18 + exponent_of ex - int (length (fraction_of fr)))" "in_i128 d"
      "(of_int d :: rat) = (if sg = Some True then - 1 else 1) * of_nat (digits_value (ids @ fraction_of fr))
         * 10 powi (18 + exponent_of ex - int (length (fraction_of fr)))" by blast
  show "parse_decimal s = Ok d"
    unfolding lit(1) parse_decimal_text [OF lit(2)] exact_atoms_rat using facts by simp
qed

theorem parse_decimal_exact_witness:
  "parse_decimal ''-12.5e2'' = Ok (- 1250000000000000000000) \<and> parse_decimal ''0e99999999999999999999'' = Err DecimalOutOfRange"
proof -
  have lit: "''-12.5e2'' = decimal_text (Some True) ''12'' (Some ''5'') (Some (CHR ''e'', None, ''2''))"
    by (simp add: decimal_text_def)
  have "(of_int (- 1250000000000000000000) :: rat) = - 1 * of_nat (digits_value ''125'') * 10 powi 19"
    by (simp add: digits_value_def digit_val_def)
  then have "parse_decimal ''-12.5e2'' = Ok (- 1250000000000000000000)"
    unfolding parse_decimal_exact
    by (intro exI [of _ "Some True"] exI [of _ "''12''"] exI [of _ "Some ''5''"] exI [of _ "Some (CHR ''e'', None, ''2'')"])
      (simp add: lit valid_decimal_text_def is_ascii_digit_def exponent_of_def in_i64_def in_i128_def digits_value_def digit_val_def)
  moreover have "parse_decimal ''0e99999999999999999999'' = Err DecimalOutOfRange"
    by (simp add: parse_decimal_def parse_exponent_def take_sign_def is_ascii_digit_def digit_val_def checked_u64_def in_u64_def)
  ultimately show ?thesis by blast
qed

end
