(* ===== verification/Quantities.thy ===== *)
theory Quantities
  imports Decimals
begin

text \<open>
  The typed quantities of \<open>crates/market-types/src/quantity.rs\<close> and \<open>volume.rs\<close>, the market,
  symbol and instrument identities (\<open>market.rs\<close>, \<open>symbol.rs\<close>, \<open>instrument.rs\<close>,
  \<open>instrument_class.rs\<close>, \<open>source_format.rs\<close>) and the four-valued source observation of
  \<open>observation.rs\<close>. A quantity is positive, a volume may be zero, and arithmetic never mixes units;
  the laws of the checked arithmetic are stated once in a locale and hold for both types.
\<close>

section \<open>Units and quantities\<close>

datatype quantity_unit = SourceUnit | Share | TradingUnit | Contract

fun unit_discriminant :: "quantity_unit \<Rightarrow> nat" where
  "unit_discriminant SourceUnit = 0"
| "unit_discriminant Share = 1"
| "unit_discriminant TradingUnit = 2"
| "unit_discriminant Contract = 3"

definition unit_from_discriminant :: "nat \<Rightarrow> (quantity_unit, nat) result" where
  "unit_from_discriminant n =
     (if n = 0 then Ok SourceUnit else if n = 1 then Ok Share else if n = 2 then Ok TradingUnit
      else if n = 3 then Ok Contract else Err n)"

record quantity =
  q_value :: nat
  q_unit :: quantity_unit

record volume =
  v_value :: nat
  v_unit :: quantity_unit

datatype quantity_error =
  QuantityZero | QuantityUnitMismatch quantity_unit quantity_unit | QuantityOverflow | QuantityUnderflow

datatype volume_error =
  VolumeUnitMismatch quantity_unit quantity_unit | VolumeOverflow | VolumeUnderflow

text \<open>The invariants of the two Rust types: a \<open>u64\<close> count, positive for a quantity.\<close>

definition wf_quantity :: "quantity \<Rightarrow> bool" where
  "wf_quantity q \<longleftrightarrow> 0 < q_value q \<and> in_u64 (q_value q)"

definition wf_volume :: "volume \<Rightarrow> bool" where
  "wf_volume v \<longleftrightarrow> in_u64 (v_value v)"

definition quantity_new :: "nat \<Rightarrow> quantity_unit \<Rightarrow> (quantity, quantity_error) result" where
  "quantity_new n u = (if n = 0 then Err QuantityZero else Ok \<lparr>q_value = n, q_unit = u\<rparr>)"

definition quantity_require_same_unit :: "quantity \<Rightarrow> quantity \<Rightarrow> (unit, quantity_error) result" where
  "quantity_require_same_unit a b =
     (if q_unit a = q_unit b then Ok () else Err (QuantityUnitMismatch (q_unit a) (q_unit b)))"

definition quantity_checked_add :: "quantity \<Rightarrow> quantity \<Rightarrow> (quantity, quantity_error) result" where
  "quantity_checked_add a b =
     rbind (quantity_require_same_unit a b) (\<lambda>_.
       rbind (ok_or (checked_u64 (q_value a + q_value b)) QuantityOverflow) (\<lambda>v.
         Ok \<lparr>q_value = v, q_unit = q_unit a\<rparr>))"

definition quantity_checked_sub :: "quantity \<Rightarrow> quantity \<Rightarrow> (quantity, quantity_error) result" where
  "quantity_checked_sub a b =
     rbind (quantity_require_same_unit a b) (\<lambda>_.
       rbind (ok_or (checked_sub_nat (q_value a) (q_value b)) QuantityUnderflow) (\<lambda>v.
         quantity_new v (q_unit a)))"

definition volume_require_same_unit :: "volume \<Rightarrow> volume \<Rightarrow> (unit, volume_error) result" where
  "volume_require_same_unit a b =
     (if v_unit a = v_unit b then Ok () else Err (VolumeUnitMismatch (v_unit a) (v_unit b)))"

definition volume_checked_add :: "volume \<Rightarrow> volume \<Rightarrow> (volume, volume_error) result" where
  "volume_checked_add a b =
     rbind (volume_require_same_unit a b) (\<lambda>_.
       rbind (ok_or (checked_u64 (v_value a + v_value b)) VolumeOverflow) (\<lambda>v.
         Ok \<lparr>v_value = v, v_unit = v_unit a\<rparr>))"

definition volume_checked_sub :: "volume \<Rightarrow> volume \<Rightarrow> (volume, volume_error) result" where
  "volume_checked_sub a b =
     rbind (volume_require_same_unit a b) (\<lambda>_.
       rbind (ok_or (checked_sub_nat (v_value a) (v_value b)) VolumeUnderflow) (\<lambda>v.
         Ok \<lparr>v_value = v, v_unit = v_unit a\<rparr>))"

definition volume_of_quantity :: "quantity \<Rightarrow> volume" where
  "volume_of_quantity q = \<lparr>v_value = q_value q, v_unit = q_unit q\<rparr>"

definition quantity_of_volume :: "volume \<Rightarrow> (quantity, quantity_error) result" where
  "quantity_of_volume v = quantity_new (v_value v) (v_unit v)"

definition quantity_to_canonical_bytes :: "quantity \<Rightarrow> bytes" where
  "quantity_to_canonical_bytes q = word_of_nat (unit_discriminant (q_unit q)) # be_bytes 8 (q_value q)"

definition volume_to_canonical_bytes :: "volume \<Rightarrow> bytes" where
  "volume_to_canonical_bytes v = word_of_nat (unit_discriminant (v_unit v)) # be_bytes 8 (v_value v)"

section \<open>Markets, symbols and instruments\<close>

datatype market_id = Twse | Tpex | Taifex

fun market_discriminant :: "market_id \<Rightarrow> nat" where
  "market_discriminant Twse = 1"
| "market_discriminant Tpex = 2"
| "market_discriminant Taifex = 3"

definition market_from_discriminant :: "nat \<Rightarrow> (market_id, nat) result" where
  "market_from_discriminant n =
     (if n = 1 then Ok Twse else if n = 2 then Ok Tpex else if n = 3 then Ok Taifex else Err n)"

text \<open>The order of markets is the order of their fixed ranks.\<close>

instantiation market_id :: linorder
begin

definition less_eq_market_id :: "market_id \<Rightarrow> market_id \<Rightarrow> bool" where
  "less_eq_market_id a b \<longleftrightarrow> market_discriminant a \<le> market_discriminant b"

definition less_market_id :: "market_id \<Rightarrow> market_id \<Rightarrow> bool" where
  "less_market_id a b \<longleftrightarrow> market_discriminant a < market_discriminant b"

instance
proof
  fix a b c :: market_id
  show "(a < b) = (a \<le> b \<and> \<not> b \<le> a)" by (auto simp: less_eq_market_id_def less_market_id_def)
  show "a \<le> a" by (simp add: less_eq_market_id_def)
  show "a \<le> b \<Longrightarrow> b \<le> c \<Longrightarrow> a \<le> c" by (simp add: less_eq_market_id_def)
  show "a \<le> b \<Longrightarrow> b \<le> a \<Longrightarrow> a = b"
    by (cases a; cases b) (simp_all add: less_eq_market_id_def)
  show "a \<le> b \<or> b \<le> a" by (auto simp: less_eq_market_id_def)
qed

end

text \<open>
  \<open>Symbol\<close> and \<open>SourceFormatId\<close> are non-empty strings compared by their bytes; \<open>string\<close> with the
  lexicographic order of \<open>List_Lexorder\<close> and \<open>Char_ord\<close> is that order.
\<close>

type_synonym symbol = string
type_synonym source_format_id = string

datatype empty_text_error = EmptyText

definition symbol_new :: "string \<Rightarrow> (symbol, empty_text_error) result" where
  "symbol_new s = (if s = [] then Err EmptyText else Ok s)"

definition source_format_new :: "string \<Rightarrow> (source_format_id, empty_text_error) result" where
  "source_format_new s = (if s = [] then Err EmptyText else Ok s)"

definition wf_text_id :: "string \<Rightarrow> bool" where
  "wf_text_id s \<longleftrightarrow> s \<noteq> [] \<and> utf8_valid s"

text \<open>An instrument is its market and symbol, ordered by market and then by symbol.\<close>

type_synonym instrument_id = "market_id \<times> symbol"

datatype instrument_class = Equity | Warrant | Future | OptionClass
datatype contract_shape = Outright | CalendarSpread
datatype price_policy = PositiveOnly | Signed
datatype option_side = Call | Put

definition policy_accepts :: "price_policy \<Rightarrow> price \<Rightarrow> bool" where
  "policy_accepts p x \<longleftrightarrow> p = Signed \<or> 0 < x"

section \<open>Observations\<close>

datatype unknown_value =
  UvUnsigned nat | UvSigned int | UvDecimal decimal | UvText string | UvBytes bytes

datatype 'a observation = NoObservation | Set 'a | Clear | Unknown unknown_value

fun observation_discriminant :: "'a observation \<Rightarrow> nat" where
  "observation_discriminant NoObservation = 0"
| "observation_discriminant (Set x) = 1"
| "observation_discriminant Clear = 2"
| "observation_discriminant (Unknown u) = 3"

fun as_set :: "'a observation \<Rightarrow> 'a option" where
  "as_set (Set x) = Some x"
| "as_set _ = None"

fun unknown_discriminant :: "unknown_value \<Rightarrow> nat" where
  "unknown_discriminant (UvUnsigned n) = 1"
| "unknown_discriminant (UvSigned i) = 2"
| "unknown_discriminant (UvDecimal d) = 3"
| "unknown_discriminant (UvText s) = 4"
| "unknown_discriminant (UvBytes b) = 5"

section \<open>Laws of unit-checked arithmetic\<close>

text \<open>
  The contract quantities and volumes share: a count with a unit, and addition and subtraction
  that succeed only on equal units and then act on the counts.
\<close>

locale unit_arithmetic =
  fixes amount :: "'q \<Rightarrow> nat" and unit_of :: "'q \<Rightarrow> quantity_unit" and wf :: "'q \<Rightarrow> bool"
    and add :: "'q \<Rightarrow> 'q \<Rightarrow> ('q, 'e) result" and sub :: "'q \<Rightarrow> 'q \<Rightarrow> ('q, 'e) result"
  assumes eqI: "amount a = amount b \<Longrightarrow> unit_of a = unit_of b \<Longrightarrow> a = b"
    and wf_range: "wf a \<Longrightarrow> in_u64 (amount a)"
    and add_Ok: "wf a \<Longrightarrow> wf b \<Longrightarrow> add a b = Ok c \<longleftrightarrow>
      unit_of a = unit_of b \<and> unit_of c = unit_of a \<and> amount c = amount a + amount b \<and> wf c"
    and sub_Ok: "wf a \<Longrightarrow> wf b \<Longrightarrow> sub a b = Ok c \<longleftrightarrow>
      unit_of a = unit_of b \<and> unit_of c = unit_of a \<and> amount c + amount b = amount a \<and> wf c"
begin

lemma add_commute: "wf a \<Longrightarrow> wf b \<Longrightarrow> add a b = Ok c \<longleftrightarrow> add b a = Ok c"
  by (auto simp: add_Ok)

lemma add_wf: "wf a \<Longrightarrow> wf b \<Longrightarrow> add a b = Ok c \<Longrightarrow> wf c"
  by (simp add: add_Ok)

lemma sub_add: "wf a \<Longrightarrow> wf b \<Longrightarrow> add a b = Ok c \<Longrightarrow> sub c b = Ok a"
  by (auto simp: add_Ok sub_Ok)

lemma add_sub: "wf a \<Longrightarrow> wf b \<Longrightarrow> sub a b = Ok c \<Longrightarrow> add c b = Ok a"
  by (auto simp: add_Ok sub_Ok)

lemma add_assoc:
  assumes "wf a" "wf b" "wf c" "add a b = Ok ab" "add ab c = Ok d" "add b c = Ok bc"
  shows "add a bc = Ok d"
  using assms by (auto simp: add_Ok)

end

interpretation qa: unit_arithmetic q_value q_unit wf_quantity quantity_checked_add quantity_checked_sub
proof
  fix a b c :: quantity
  show "q_value a = q_value b \<Longrightarrow> q_unit a = q_unit b \<Longrightarrow> a = b" by simp
  show "wf_quantity a \<Longrightarrow> in_u64 (q_value a)" by (simp add: wf_quantity_def)
  assume wf: "wf_quantity a" "wf_quantity b"
  show "quantity_checked_add a b = Ok c \<longleftrightarrow> q_unit a = q_unit b \<and> q_unit c = q_unit a \<and>
      q_value c = q_value a + q_value b \<and> wf_quantity c"
    using wf by (cases c) (auto simp: quantity_checked_add_def quantity_require_same_unit_def wf_quantity_def)
  show "quantity_checked_sub a b = Ok c \<longleftrightarrow> q_unit a = q_unit b \<and> q_unit c = q_unit a \<and>
      q_value c + q_value b = q_value a \<and> wf_quantity c"
    using wf by (cases c) (auto simp: quantity_checked_sub_def quantity_require_same_unit_def wf_quantity_def
        quantity_new_def in_u64_def)
qed

interpretation va: unit_arithmetic v_value v_unit wf_volume volume_checked_add volume_checked_sub
proof
  fix a b c :: volume
  show "v_value a = v_value b \<Longrightarrow> v_unit a = v_unit b \<Longrightarrow> a = b" by simp
  show "wf_volume a \<Longrightarrow> in_u64 (v_value a)" by (simp add: wf_volume_def)
  assume wf: "wf_volume a" "wf_volume b"
  show "volume_checked_add a b = Ok c \<longleftrightarrow> v_unit a = v_unit b \<and> v_unit c = v_unit a \<and>
      v_value c = v_value a + v_value b \<and> wf_volume c"
    by (cases c) (auto simp: volume_checked_add_def volume_require_same_unit_def wf_volume_def)
  show "volume_checked_sub a b = Ok c \<longleftrightarrow> v_unit a = v_unit b \<and> v_unit c = v_unit a \<and>
      v_value c + v_value b = v_value a \<and> wf_volume c"
    using wf by (cases c) (auto simp: volume_checked_sub_def volume_require_same_unit_def wf_volume_def in_u64_def)
qed

lemma unit_discriminant_roundtrip [simp]: "unit_from_discriminant (unit_discriminant u) = Ok u"
  by (cases u) (simp_all add: unit_from_discriminant_def)

lemma unit_from_discriminant_Ok: "unit_from_discriminant n = Ok u \<longleftrightarrow> n = unit_discriminant u"
  by (cases u) (auto simp: unit_from_discriminant_def)

lemma market_discriminant_roundtrip [simp]: "market_from_discriminant (market_discriminant m) = Ok m"
  by (cases m) (simp_all add: market_from_discriminant_def)

lemma market_from_discriminant_Ok: "market_from_discriminant n = Ok m \<longleftrightarrow> n = market_discriminant m"
  by (cases m) (auto simp: market_from_discriminant_def)

lemma unit_discriminant_less: "unit_discriminant u < 4"
  by (cases u) simp_all

lemma market_discriminant_less: "market_discriminant m < 4"
  by (cases m) simp_all

lemma as_set_Some [simp]: "as_set ob = Some x \<longleftrightarrow> ob = Set x"
  by (cases ob) auto

text \<open>
  Quantity arithmetic is exact and unit-safe. On valid quantities, subtracting what was added
  returns the first operand and adding back what was subtracted does too; both need equal units, and
  a result is again a positive \<open>u64\<close> quantity.
\<close>

theorem quantity_add_sub_inverse:
  assumes "wf_quantity a" and "wf_quantity b"
  shows "(quantity_checked_add a b = Ok c \<longrightarrow> wf_quantity c \<and> quantity_checked_sub c b = Ok a) \<and>
    (quantity_checked_sub a b = Ok c \<longrightarrow> wf_quantity c \<and> quantity_checked_add c b = Ok a)"
  using assms qa.add_wf qa.sub_add qa.add_sub qa.sub_Ok by blast

theorem quantity_add_sub_inverse_witness:
  "wf_quantity \<lparr>q_value = 3, q_unit = Share\<rparr> \<and>
   quantity_checked_add \<lparr>q_value = 3, q_unit = Share\<rparr> \<lparr>q_value = 4, q_unit = Share\<rparr> =
     Ok \<lparr>q_value = 7, q_unit = Share\<rparr> \<and>
   quantity_checked_sub \<lparr>q_value = 7, q_unit = Share\<rparr> \<lparr>q_value = 4, q_unit = Share\<rparr> =
     Ok \<lparr>q_value = 3, q_unit = Share\<rparr>"
  using quantity_add_sub_inverse [of "\<lparr>q_value = 3, q_unit = Share\<rparr>" "\<lparr>q_value = 4, q_unit = Share\<rparr>"
      "\<lparr>q_value = 7, q_unit = Share\<rparr>"]
  by (simp add: wf_quantity_def in_u64_def checked_u64_def quantity_checked_add_def quantity_require_same_unit_def)

end
