(* ===== verification/Book.thy ===== *)
theory Book
  imports Quantities
begin

text \<open>
  The five-level book of \<open>crates/market-types/src/book.rs\<close> and the observed trades of \<open>trade.rs\<close>.
  A side is validated by one loop over its five slots; the theory shows that the loop accepts
  exactly the sides whose levels are contiguous, strictly ordered from the best price outward and
  of one unit, so the first level of an accepted side is its best price.
\<close>

section \<open>Model\<close>

definition BOOK_DEPTH :: nat where "BOOK_DEPTH = 5"

record book_level =
  bl_price :: price
  bl_quantity :: quantity

datatype book_side_kind = Bid | Ask

record book_side =
  bs_kind :: book_side_kind
  bs_market_order_quantity :: "quantity option"
  bs_slots :: "book_level option list"

datatype book_error =
    TooManyLevels book_side_kind nat
  | NonContiguous book_side_kind nat
  | PriceOrder book_side_kind nat
  | BookUnitMismatch book_side_kind quantity_unit quantity_unit nat
  | WrongSide book_side_kind book_side_kind
  | CrossSideUnitMismatch quantity_unit quantity_unit

text \<open>\<open>levels\<close>: the slots up to the first empty one (\<open>map_while\<close>).\<close>

fun filled_prefix :: "'a option list \<Rightarrow> 'a list" where
  "filled_prefix (Some x # xs) = x # filled_prefix xs"
| "filled_prefix _ = []"

definition side_levels :: "book_side \<Rightarrow> book_level list" where
  "side_levels s = filled_prefix (bs_slots s)"

definition side_quantity_unit :: "book_side \<Rightarrow> quantity_unit option" where
  "side_quantity_unit s =
     (case bs_market_order_quantity s of
        Some q \<Rightarrow> Some (q_unit q)
      | None \<Rightarrow> (case side_levels s of [] \<Rightarrow> None | l # _ \<Rightarrow> Some (q_unit (bl_quantity l))))"

fun correctly_ordered :: "book_side_kind \<Rightarrow> price \<Rightarrow> price \<Rightarrow> bool" where
  "correctly_ordered Bid previous price = (previous > price)"
| "correctly_ordered Ask previous price = (previous < price)"

text \<open>The loop of \<open>validate\<close>: the index, whether an empty slot was seen, the previous level, the unit.\<close>

fun validate_slots ::
  "book_side_kind \<Rightarrow> nat \<Rightarrow> bool \<Rightarrow> book_level option \<Rightarrow> quantity_unit option \<Rightarrow>
   book_level option list \<Rightarrow> (unit, book_error) result" where
  "validate_slots kind index empty_seen previous un [] = Ok ()"
| "validate_slots kind index empty_seen previous un (None # slots) =
     validate_slots kind (Suc index) True previous un slots"
| "validate_slots kind index empty_seen previous un (Some level # slots) =
     (if empty_seen then Err (NonContiguous kind index)
      else let level_unit = q_unit (bl_quantity level) in
        if \<exists>expected. un = Some expected \<and> expected \<noteq> level_unit
        then Err (BookUnitMismatch kind (the un) level_unit index)
        else if \<exists>p. previous = Some p \<and> \<not> correctly_ordered kind (bl_price p) (bl_price level)
        then Err (PriceOrder kind index)
        else validate_slots kind (Suc index) empty_seen (Some level) (Some level_unit) slots)"

definition side_validate :: "book_side \<Rightarrow> (unit, book_error) result" where
  "side_validate s =
     (let displayed = length (side_levels s) + (if bs_market_order_quantity s = None then 0 else 1) in
      if displayed > BOOK_DEPTH then Err (TooManyLevels (bs_kind s) displayed)
      else validate_slots (bs_kind s) 0 False None (map_option q_unit (bs_market_order_quantity s))
             (bs_slots s))"

definition side_from_parts ::
  "book_side_kind \<Rightarrow> quantity option \<Rightarrow> book_level option list \<Rightarrow> (book_side, book_error) result" where
  "side_from_parts kind moq slots =
     (let side = \<lparr>bs_kind = kind, bs_market_order_quantity = moq, bs_slots = slots\<rparr>
      in rbind (side_validate side) (\<lambda>_. Ok side))"

definition side_with_market_order_quantity ::
  "book_side_kind \<Rightarrow> quantity option \<Rightarrow> book_level list \<Rightarrow> (book_side, book_error) result" where
  "side_with_market_order_quantity kind moq levels =
     (if length levels > BOOK_DEPTH then Err (TooManyLevels kind (length levels))
      else side_from_parts kind moq
             (map Some levels @ replicate (BOOK_DEPTH - length levels) None))"

definition side_new :: "book_side_kind \<Rightarrow> book_level list \<Rightarrow> (book_side, book_error) result" where
  "side_new kind levels = side_with_market_order_quantity kind None levels"

record complete_book =
  cb_bids :: book_side
  cb_asks :: book_side

definition book_new :: "book_side \<Rightarrow> book_side \<Rightarrow> (complete_book, book_error) result" where
  "book_new bids asks =
     (if bs_kind bids \<noteq> Bid then Err (WrongSide Bid (bs_kind bids))
      else if bs_kind asks \<noteq> Ask then Err (WrongSide Ask (bs_kind asks))
      else case (side_quantity_unit bids, side_quantity_unit asks) of
        (Some b, Some a) \<Rightarrow>
          if b \<noteq> a then Err (CrossSideUnitMismatch b a) else Ok \<lparr>cb_bids = bids, cb_asks = asks\<rparr>
      | _ \<Rightarrow> Ok \<lparr>cb_bids = bids, cb_asks = asks\<rparr>)"

definition book_quantity_unit :: "complete_book \<Rightarrow> quantity_unit option" where
  "book_quantity_unit b =
     (case side_quantity_unit (cb_bids b) of Some u \<Rightarrow> Some u | None \<Rightarrow> side_quantity_unit (cb_asks b))"

subsection \<open>Trades\<close>

datatype trade_observation_kind = Regular | Intermediate
datatype trade_batch_ordering = Unspecified | SourceSequencePreserved

fun trade_kind_discriminant :: "trade_observation_kind \<Rightarrow> nat" where
  "trade_kind_discriminant Regular = 0"
| "trade_kind_discriminant Intermediate = 1"

fun trade_order_discriminant :: "trade_batch_ordering \<Rightarrow> nat" where
  "trade_order_discriminant Unspecified = 0"
| "trade_order_discriminant SourceSequencePreserved = 1"

record observed_trade =
  ot_price :: price
  ot_quantity :: quantity
  ot_kind :: trade_observation_kind

datatype trade_error = TradeEmpty | TradeUnitMismatch quantity_unit quantity_unit nat

fun first_unit_mismatch :: "quantity_unit \<Rightarrow> nat \<Rightarrow> observed_trade list \<Rightarrow> (quantity_unit \<times> nat) option" where
  "first_unit_mismatch u index [] = None"
| "first_unit_mismatch u index (t # ts) =
     (if q_unit (ot_quantity t) \<noteq> u then Some (q_unit (ot_quantity t), index)
      else first_unit_mismatch u (Suc index) ts)"

definition validate_trade_units :: "observed_trade list \<Rightarrow> (quantity_unit, trade_error) result" where
  "validate_trade_units ts =
     (case ts of [] \<Rightarrow> Err TradeEmpty
      | t # rest \<Rightarrow> (let first = q_unit (ot_quantity t) in
          case first_unit_mismatch first 1 rest of
            None \<Rightarrow> Ok first
          | Some (actual, index) \<Rightarrow> Err (TradeUnitMismatch first actual index)))"

section \<open>What validation accepts\<close>

text \<open>
  The specification of a side: contiguous levels, strictly ordered away from the touch, one unit
  across the levels and the market-order quantity, and at most five displayed entries.
\<close>

definition side_ordered :: "book_side_kind \<Rightarrow> price list \<Rightarrow> bool" where
  "side_ordered kind ps \<longleftrightarrow> sorted_wrt (correctly_ordered kind) ps"

definition valid_side :: "book_side \<Rightarrow> bool" where
  "valid_side s \<longleftrightarrow>
     (\<exists>n. bs_slots s = map Some (side_levels s) @ replicate n None) \<and>
     side_ordered (bs_kind s) (map bl_price (side_levels s)) \<and>
     (\<forall>l \<in> set (side_levels s). \<forall>u. side_quantity_unit s = Some u \<longrightarrow> q_unit (bl_quantity l) = u) \<and>
     length (side_levels s) + (if bs_market_order_quantity s = None then 0 else 1) \<le> BOOK_DEPTH"

lemma filled_prefix_map_Some [simp]: "filled_prefix (map Some xs @ None # ys) = xs"
  by (induction xs) auto

lemma filled_prefix_all_Some [simp]: "filled_prefix (map Some xs) = xs"
  by (induction xs) auto

lemma filled_prefix_replicate [simp]: "filled_prefix (map Some xs @ replicate n None) = xs"
  by (cases n) auto

lemma correctly_ordered_trans:
  "correctly_ordered k a b \<Longrightarrow> correctly_ordered k b c \<Longrightarrow> correctly_ordered k a c"
  by (cases k) auto

lemma validate_slots_after_empty:
  "validate_slots kind index True previous un slots = Ok () \<longleftrightarrow> slots = replicate (length slots) None"
proof (induction slots arbitrary: index)
  case (Cons s slots)
  then show ?case by (cases s) auto
qed simp

lemma validate_slots_spec:
  "validate_slots kind index False previous un slots = Ok () \<longleftrightarrow>
    (\<exists>n. slots = map Some (filled_prefix slots) @ replicate n None) \<and>
    sorted_wrt (correctly_ordered kind)
      ((case previous of None \<Rightarrow> [] | Some p \<Rightarrow> [bl_price p]) @ map bl_price (filled_prefix slots)) \<and>
    (\<forall>l \<in> set (filled_prefix slots).
       q_unit (bl_quantity l) = (case un of Some u \<Rightarrow> u | None \<Rightarrow> q_unit (bl_quantity (hd (filled_prefix slots)))))"
proof (induction slots arbitrary: index previous un)
  case Nil
  then show ?case by (cases previous) auto
next
  case (Cons s slots)
  show ?case
  proof (cases s)
    case None
    have "(\<exists>n. None # slots = replicate n None) \<longleftrightarrow> slots = replicate (length slots) None"
      by (metis length_Cons length_replicate list.inject replicate_Suc)
    then show ?thesis
      using None by (cases previous) (auto simp: validate_slots_after_empty)
  next
    case (Some l)
    have ex: "(\<exists>n. Some l # slots = Some l # map Some (filled_prefix slots) @ replicate n None) \<longleftrightarrow>
      (\<exists>n. slots = map Some (filled_prefix slots) @ replicate n None)" by simp
    show ?thesis
      using Some Cons.IH [of "Suc index" "Some l" "Some (q_unit (bl_quantity l))"]
      by (cases un; cases previous) (auto simp: Let_def ex intro: correctly_ordered_trans)
  qed
qed

lemma side_validate_spec: "side_validate s = Ok () \<longleftrightarrow> valid_side s"
proof -
  have "(\<forall>l \<in> set (side_levels s). q_unit (bl_quantity l) =
      (case map_option q_unit (bs_market_order_quantity s) of Some u \<Rightarrow> u
       | None \<Rightarrow> q_unit (bl_quantity (hd (side_levels s))))) \<longleftrightarrow>
    (\<forall>l \<in> set (side_levels s). \<forall>u. side_quantity_unit s = Some u \<longrightarrow> q_unit (bl_quantity l) = u)"
    by (auto simp: side_quantity_unit_def split: option.splits list.splits)
  moreover have "side_validate s = Ok () \<longleftrightarrow>
      length (side_levels s) + (if bs_market_order_quantity s = None then 0 else 1) \<le> BOOK_DEPTH \<and>
      validate_slots (bs_kind s) 0 False None (map_option q_unit (bs_market_order_quantity s)) (bs_slots s) = Ok ()"
    by (simp add: side_validate_def Let_def not_less)
  ultimately show ?thesis
    unfolding valid_side_def validate_slots_spec side_ordered_def side_levels_def [symmetric]
    by (simp only: option.case append.simps) blast
qed

lemma side_from_parts_Ok:
  "side_from_parts kind moq slots = Ok s \<longleftrightarrow>
     s = \<lparr>bs_kind = kind, bs_market_order_quantity = moq, bs_slots = slots\<rparr> \<and> valid_side s"
  by (auto simp: side_from_parts_def Let_def side_validate_spec)

lemma side_with_levels:
  assumes "side_with_market_order_quantity kind moq ls = Ok s"
  shows "side_levels s = ls" and "length (bs_slots s) = BOOK_DEPTH"
  using assms
  by (auto simp: side_with_market_order_quantity_def side_from_parts_Ok side_levels_def split: if_splits)

lemma first_unit_mismatch_None:
  "first_unit_mismatch u i ts = None \<longleftrightarrow> (\<forall>t \<in> set ts. q_unit (ot_quantity t) = u)"
  by (induction ts arbitrary: i) auto

lemma validate_trade_units_Ok:
  "validate_trade_units ts = Ok u \<longleftrightarrow> ts \<noteq> [] \<and> (\<forall>t \<in> set ts. q_unit (ot_quantity t) = u)"
proof (cases ts)
  case (Cons t rest)
  define r where "r = first_unit_mismatch (q_unit (ot_quantity t)) (Suc 0) rest"
  have "validate_trade_units ts = Ok u \<longleftrightarrow> r = None \<and> u = q_unit (ot_quantity t)"
    by (cases r) (auto simp: validate_trade_units_def Cons Let_def simp flip: r_def)
  then show ?thesis by (auto simp: Cons r_def first_unit_mismatch_None)
qed (simp add: validate_trade_units_def)

text \<open>The five-slot representation invariant, used by the codec and the reducer.\<close>

definition wf_level :: "book_level \<Rightarrow> bool" where
  "wf_level l \<longleftrightarrow> in_i128 (bl_price l) \<and> wf_quantity (bl_quantity l)"

definition wf_side :: "book_side_kind \<Rightarrow> book_side \<Rightarrow> bool" where
  "wf_side kind s \<longleftrightarrow> bs_kind s = kind \<and> length (bs_slots s) = BOOK_DEPTH \<and> valid_side s \<and>
     (\<forall>q. bs_market_order_quantity s = Some q \<longrightarrow> wf_quantity q) \<and>
     (\<forall>l. Some l \<in> set (bs_slots s) \<longrightarrow> wf_level l)"

definition wf_book :: "complete_book \<Rightarrow> bool" where
  "wf_book b \<longleftrightarrow> wf_side Bid (cb_bids b) \<and> wf_side Ask (cb_asks b) \<and>
     book_new (cb_bids b) (cb_asks b) = Ok b"

definition wf_trade :: "observed_trade \<Rightarrow> bool" where
  "wf_trade t \<longleftrightarrow> in_i128 (ot_price t) \<and> wf_quantity (ot_quantity t)"

lemma book_new_Ok:
  "book_new bids asks = Ok b \<Longrightarrow> cb_bids b = bids \<and> cb_asks b = asks \<and> bs_kind bids = Bid \<and> bs_kind asks = Ask"
  by (auto simp: book_new_def split: if_splits option.splits)

lemma sorted_wrt_hd_extreme:
  assumes "side_ordered kind (map bl_price (l # ls))" and "m \<in> set (l # ls)"
  shows "m = l \<or> correctly_ordered kind (bl_price l) (bl_price m)"
  using assms by (auto simp: side_ordered_def)

text \<open>
  Side construction is sound and complete. \<open>from_parts\<close> accepts a side exactly when its levels
  are contiguous from slot 0, its prices strictly improve toward slot 0, all quantities (the
  unpriced market-order quantity included) have one unit, and at most five entries are displayed.
\<close>

theorem side_from_parts_accepts:
  "is_ok (side_from_parts kind moq slots) \<longleftrightarrow>
     valid_side \<lparr>bs_kind = kind, bs_market_order_quantity = moq, bs_slots = slots\<rparr>"
  by (simp add: is_ok_iff side_from_parts_Ok)

text \<open>
  The first level of an accepted side is its best price: the greatest bid, the least ask.
\<close>

theorem best_level_is_extreme:
  assumes "side_with_market_order_quantity kind moq ls = Ok s" and "ls \<noteq> []" and "m \<in> set (side_levels s)"
  shows "hd (side_levels s) = hd ls \<and>
    (if kind = Bid then bl_price m \<le> bl_price (hd ls) else bl_price (hd ls) \<le> bl_price m)"
proof -
  have levels: "side_levels s = ls" using assms(1) by (rule side_with_levels)
  obtain l rest where ls: "ls = l # rest" using assms(2) by (cases ls) auto
  have "valid_side s" and "bs_kind s = kind"
    using assms(1) by (auto simp: side_with_market_order_quantity_def side_from_parts_Ok split: if_splits)
  then have "side_ordered kind (map bl_price (l # rest))"
    using levels ls by (simp add: valid_side_def)
  from sorted_wrt_hd_extreme [OF this, of m] show ?thesis
    using assms(3) levels ls by (cases kind) auto
qed

theorem best_level_is_extreme_witness:
  "\<exists>s. side_with_market_order_quantity Bid None
      [\<lparr>bl_price = 101, bl_quantity = \<lparr>q_value = 1, q_unit = Share\<rparr>\<rparr>,
       \<lparr>bl_price = 100, bl_quantity = \<lparr>q_value = 2, q_unit = Share\<rparr>\<rparr>] = Ok s \<and>
     (\<lparr>bl_price = 100, bl_quantity = \<lparr>q_value = 2, q_unit = Share\<rparr>\<rparr> \<in> set (side_levels s)) \<and>
     (100 :: int) \<le> 101"
proof -
  define b1 where "b1 = \<lparr>bl_price = 101, bl_quantity = \<lparr>q_value = 1, q_unit = Share\<rparr>\<rparr>"
  define b2 where "b2 = \<lparr>bl_price = 100, bl_quantity = \<lparr>q_value = 2, q_unit = Share\<rparr>\<rparr>"
  have "is_ok (side_with_market_order_quantity Bid None [b1, b2])"
    by (simp add: b1_def b2_def side_with_market_order_quantity_def side_from_parts_def side_validate_def
        BOOK_DEPTH_def side_levels_def Let_def eval_nat_numeral)
  then obtain s where s: "side_with_market_order_quantity Bid None [b1, b2] = Ok s"
    by (auto simp: is_ok_iff)
  have mem: "b2 \<in> set (side_levels s)" using side_with_levels(1) [OF s] by simp
  from best_level_is_extreme [OF s _ mem] s mem show ?thesis
    by (auto simp: b1_def b2_def)
qed

end
