(* ===== verification/Signals.thy ===== *)
theory Signals
  imports Quantities
begin

text \<open>
  Provider-neutral auction evidence and market signals (\<open>crates/market-types/src/signal.rs\<close>) and
  the raw TWSE/TPEx status and limit bytes (\<open>annotations.rs\<close>). Evidence is partial knowledge: the
  merge of a round's evidence keeps a field the new record does not mention, replaces one it knows
  and forgets one it invalidates. The theory shows the algebra of merging and where it can leave the
  set of observations the constructor accepts.
\<close>

unbundle bit_operations_syntax

section \<open>Auction evidence\<close>

datatype auction_purpose = Opening | Closing | Periodic | VolatilityInterruption

fun purpose_discriminant :: "auction_purpose \<Rightarrow> nat" where
  "purpose_discriminant Opening = 1"
| "purpose_discriminant Closing = 2"
| "purpose_discriminant Periodic = 3"
| "purpose_discriminant VolatilityInterruption = 4"

definition purpose_from_discriminant :: "nat \<Rightarrow> auction_purpose option" where
  "purpose_from_discriminant n =
     (if n = 1 then Some Opening else if n = 2 then Some Closing else if n = 3 then Some Periodic
      else if n = 4 then Some VolatilityInterruption else None)"

datatype volatility_direction = DirectionDown | DirectionUp

fun direction_discriminant :: "volatility_direction \<Rightarrow> nat" where
  "direction_discriminant DirectionDown = 1"
| "direction_discriminant DirectionUp = 2"

definition direction_from_discriminant :: "nat \<Rightarrow> volatility_direction option" where
  "direction_from_discriminant n =
     (if n = 1 then Some DirectionDown else if n = 2 then Some DirectionUp else None)"

datatype 'a auction_evidence = EvNoObservation | EvKnown 'a | EvUnknown

fun known_value :: "'a auction_evidence \<Rightarrow> 'a option" where
  "known_value (EvKnown v) = Some v"
| "known_value _ = None"

record auction_observation =
  ao_purpose :: "auction_purpose auction_evidence"
  ao_delayed :: "bool auction_evidence"
  ao_disposal :: "bool auction_evidence"
  ao_direction :: "volatility_direction auction_evidence"

text \<open>A known direction belongs to a volatility interruption or to an unknown purpose.\<close>

fun direction_conflict ::
  "auction_purpose auction_evidence \<Rightarrow> volatility_direction auction_evidence \<Rightarrow> bool" where
  "direction_conflict (EvKnown p) (EvKnown d) = (p = Opening \<or> p = Closing \<or> p = Periodic)"
| "direction_conflict _ _ = False"

definition auction_from_parts ::
  "auction_purpose auction_evidence \<Rightarrow> bool auction_evidence \<Rightarrow> bool auction_evidence \<Rightarrow>
   volatility_direction auction_evidence \<Rightarrow> auction_observation option" where
  "auction_from_parts purpose delayed disposal direction =
     (if direction_conflict purpose direction then None
      else Some \<lparr>ao_purpose = purpose, ao_delayed = delayed, ao_disposal = disposal,
                 ao_direction = direction\<rparr>)"

definition auction_new :: "auction_purpose \<Rightarrow> bool \<Rightarrow> bool \<Rightarrow> auction_observation" where
  "auction_new purpose delayed disposal =
     \<lparr>ao_purpose = EvKnown purpose, ao_delayed = EvKnown delayed, ao_disposal = EvKnown disposal,
      ao_direction = EvNoObservation\<rparr>"

definition auction_volatility_interruption_with_evidence ::
  "volatility_direction auction_evidence \<Rightarrow> bool auction_evidence \<Rightarrow> bool auction_evidence \<Rightarrow>
   auction_observation" where
  "auction_volatility_interruption_with_evidence direction delayed disposal =
     \<lparr>ao_purpose = EvKnown VolatilityInterruption, ao_delayed = delayed, ao_disposal = disposal,
      ao_direction = direction\<rparr>"

definition auction_unclassified :: auction_observation where
  "auction_unclassified =
     \<lparr>ao_purpose = EvNoObservation, ao_delayed = EvNoObservation, ao_disposal = EvNoObservation,
      ao_direction = EvNoObservation\<rparr>"

definition auction_unknown_purpose :: auction_observation where
  "auction_unknown_purpose =
     \<lparr>ao_purpose = EvUnknown, ao_delayed = EvNoObservation, ao_disposal = EvNoObservation,
      ao_direction = EvNoObservation\<rparr>"

definition auction_opening_with_evidence ::
  "bool auction_evidence \<Rightarrow> bool auction_evidence \<Rightarrow> auction_observation" where
  "auction_opening_with_evidence delayed disposal =
     \<lparr>ao_purpose = EvKnown Opening, ao_delayed = delayed, ao_disposal = disposal,
      ao_direction = EvNoObservation\<rparr>"

definition auction_closing_with_evidence ::
  "bool auction_evidence \<Rightarrow> bool auction_evidence \<Rightarrow> auction_observation" where
  "auction_closing_with_evidence delayed disposal =
     \<lparr>ao_purpose = EvKnown Closing, ao_delayed = delayed, ao_disposal = disposal,
      ao_direction = EvNoObservation\<rparr>"

definition auction_periodic_with_evidence ::
  "bool auction_evidence \<Rightarrow> bool auction_evidence \<Rightarrow> auction_observation" where
  "auction_periodic_with_evidence delayed disposal =
     \<lparr>ao_purpose = EvKnown Periodic, ao_delayed = delayed, ao_disposal = disposal,
      ao_direction = EvNoObservation\<rparr>"

fun merge_evidence :: "'a auction_evidence \<Rightarrow> 'a auction_evidence \<Rightarrow> 'a auction_evidence" where
  "merge_evidence prior EvNoObservation = prior"
| "merge_evidence prior (EvKnown v) = EvKnown v"
| "merge_evidence prior EvUnknown = EvUnknown"

text \<open>\<open>current.merge(prior)\<close>.\<close>

definition auction_merge :: "auction_observation \<Rightarrow> auction_observation \<Rightarrow> auction_observation" where
  "auction_merge current prior =
     \<lparr>ao_purpose = merge_evidence (ao_purpose prior) (ao_purpose current),
      ao_delayed = merge_evidence (ao_delayed prior) (ao_delayed current),
      ao_disposal = merge_evidence (ao_disposal prior) (ao_disposal current),
      ao_direction = merge_evidence (ao_direction prior) (ao_direction current)\<rparr>"

datatype market_signal =
  SigContinuous | AuctionCollecting auction_observation | AuctionUncross auction_observation | SigClosed

fun signal_discriminant :: "market_signal \<Rightarrow> nat" where
  "signal_discriminant SigContinuous = 1"
| "signal_discriminant (AuctionCollecting ob) = 2"
| "signal_discriminant (AuctionUncross ob) = 3"
| "signal_discriminant SigClosed = 4"

fun signal_auction :: "market_signal \<Rightarrow> auction_observation option" where
  "signal_auction (AuctionCollecting ob) = Some ob"
| "signal_auction (AuctionUncross ob) = Some ob"
| "signal_auction _ = None"

definition signal_from_discriminant :: "nat \<Rightarrow> auction_observation option \<Rightarrow> market_signal option" where
  "signal_from_discriminant n ob =
     (if n = 1 \<and> ob = None then Some SigContinuous
      else if n = 2 then map_option AuctionCollecting ob
      else if n = 3 then map_option AuctionUncross ob
      else if n = 4 \<and> ob = None then Some SigClosed else None)"

section \<open>Quote annotations\<close>

record quote_annotations =
  status_flags_raw :: u8
  limit_flags_raw :: u8

datatype market_annotations =
  AnnNone | TwseQuote quote_annotations | TpexQuote quote_annotations

fun annotations_discriminant :: "market_annotations \<Rightarrow> nat" where
  "annotations_discriminant AnnNone = 0"
| "annotations_discriminant (TwseQuote a) = 1"
| "annotations_discriminant (TpexQuote a) = 2"

datatype matching_method = MethodCallAuction | MethodContinuous

definition status_trial :: "u8 \<Rightarrow> bool" where "status_trial raw \<longleftrightarrow> raw AND 0x80 \<noteq> 0"
definition status_delayed_open :: "u8 \<Rightarrow> bool" where
  "status_delayed_open raw \<longleftrightarrow> status_trial raw \<and> raw AND 0x40 \<noteq> 0"
definition status_delayed_close :: "u8 \<Rightarrow> bool" where
  "status_delayed_close raw \<longleftrightarrow> status_trial raw \<and> raw AND 0x20 \<noteq> 0"
definition status_matching_method :: "u8 \<Rightarrow> matching_method" where
  "status_matching_method raw = (if raw AND 0x10 \<noteq> 0 then MethodContinuous else MethodCallAuction)"
definition status_opening_marker :: "u8 \<Rightarrow> bool" where "status_opening_marker raw \<longleftrightarrow> raw AND 0x08 \<noteq> 0"
definition status_closing_marker :: "u8 \<Rightarrow> bool" where "status_closing_marker raw \<longleftrightarrow> raw AND 0x04 \<noteq> 0"
definition status_reserved_bits :: "u8 \<Rightarrow> u8" where "status_reserved_bits raw = raw AND 0x03"

datatype limit_position = LimitNormal | LowerLimit | UpperLimit | LimitReserved
datatype instant_trend = TrendNormal | VolatilityInterruptionDown | VolatilityInterruptionUp | TrendReserved

definition limit_from_bits :: "u8 \<Rightarrow> limit_position" where
  "limit_from_bits b =
     (if b = 0 then LimitNormal else if b = 1 then LowerLimit else if b = 2 then UpperLimit
      else LimitReserved)"

definition trend_from_bits :: "u8 \<Rightarrow> instant_trend" where
  "trend_from_bits b =
     (if b = 0 then TrendNormal else if b = 1 then VolatilityInterruptionDown
      else if b = 2 then VolatilityInterruptionUp else TrendReserved)"

definition limit_trade :: "u8 \<Rightarrow> limit_position" where
  "limit_trade raw = limit_from_bits (drop_bit 6 raw AND 0x03)"
definition limit_best_bid :: "u8 \<Rightarrow> limit_position" where
  "limit_best_bid raw = limit_from_bits (drop_bit 4 raw AND 0x03)"
definition limit_best_ask :: "u8 \<Rightarrow> limit_position" where
  "limit_best_ask raw = limit_from_bits (drop_bit 2 raw AND 0x03)"
definition limit_instant_trend :: "u8 \<Rightarrow> instant_trend" where
  "limit_instant_trend raw = trend_from_bits (raw AND 0x03)"

section \<open>The algebra of evidence\<close>

lemma merge_evidence_id [simp]: "merge_evidence EvNoObservation e = e"
  by (cases e) auto

lemma merge_evidence_assoc:
  "merge_evidence (merge_evidence a b) c = merge_evidence a (merge_evidence b c)"
  by (cases c) auto

lemma merge_evidence_idem [simp]: "merge_evidence a a = a"
  by (cases a) auto

definition valid_auction :: "auction_observation \<Rightarrow> bool" where
  "valid_auction ob \<longleftrightarrow> \<not> direction_conflict (ao_purpose ob) (ao_direction ob)"

lemma auction_from_parts_Some:
  "auction_from_parts (ao_purpose ob) (ao_delayed ob) (ao_disposal ob) (ao_direction ob) =
     (if valid_auction ob then Some ob else None)"
  by (simp add: auction_from_parts_def valid_auction_def)

lemma auction_from_parts_valid: "auction_from_parts p a b d = Some ob \<Longrightarrow> valid_auction ob"
  by (auto simp: auction_from_parts_def valid_auction_def split: if_splits)

lemma direction_conflict_known:
  "direction_conflict p d \<longleftrightarrow>
     p \<in> {EvKnown Opening, EvKnown Closing, EvKnown Periodic} \<and> known_value d \<noteq> None"
  by (cases p; cases d) auto

lemma constructors_valid:
  "valid_auction (auction_new p de di)"
  "valid_auction (auction_volatility_interruption_with_evidence d e1 e2)"
  "valid_auction auction_unclassified"
  "valid_auction auction_unknown_purpose"
  "valid_auction (auction_opening_with_evidence e1 e2)"
  "valid_auction (auction_closing_with_evidence e1 e2)"
  "valid_auction (auction_periodic_with_evidence e1 e2)"
  by (simp_all add: valid_auction_def direction_conflict_known auction_new_def
      auction_volatility_interruption_with_evidence_def auction_unclassified_def
      auction_unknown_purpose_def auction_opening_with_evidence_def
      auction_closing_with_evidence_def auction_periodic_with_evidence_def)

lemma merge_unclassified [simp]: "auction_merge auction_unclassified prior = prior"
  by (cases prior) (simp add: auction_merge_def auction_unclassified_def)

lemma merge_into_unclassified [simp]: "auction_merge current auction_unclassified = current"
  by (cases current) (simp add: auction_merge_def auction_unclassified_def)

lemma auction_merge_assoc:
  "auction_merge c (auction_merge b a) = auction_merge (auction_merge c b) a"
  by (simp add: auction_merge_def merge_evidence_assoc)

lemma auction_merge_idem [simp]: "auction_merge a a = a"
  by (cases a) (simp add: auction_merge_def)

lemma merge_valid:
  "valid_auction c \<Longrightarrow> valid_auction p \<Longrightarrow>
     (ao_purpose c = EvNoObservation \<longleftrightarrow> ao_direction c = EvNoObservation) \<Longrightarrow> valid_auction (auction_merge c p)"
  by (cases "ao_purpose c"; cases "ao_direction c") (auto simp: valid_auction_def auction_merge_def)

lemma purpose_discriminant_roundtrip [simp]:
  "purpose_from_discriminant (purpose_discriminant p) = Some p"
  by (cases p) (simp_all add: purpose_from_discriminant_def)

lemma purpose_from_discriminant_Some:
  "purpose_from_discriminant n = Some p \<longleftrightarrow> n = purpose_discriminant p"
  by (cases p) (auto simp: purpose_from_discriminant_def)

lemma direction_discriminant_roundtrip [simp]:
  "direction_from_discriminant (direction_discriminant d) = Some d"
  by (cases d) (simp_all add: direction_from_discriminant_def)

lemma direction_from_discriminant_Some:
  "direction_from_discriminant n = Some d \<longleftrightarrow> n = direction_discriminant d"
  by (cases d) (auto simp: direction_from_discriminant_def)

lemma signal_discriminant_roundtrip [simp]:
  "signal_from_discriminant (signal_discriminant s) (signal_auction s) = Some s"
  by (cases s) (simp_all add: signal_from_discriminant_def)

text \<open>
  Merging auction evidence is a monoid action on a round: an unclassified record changes
  nothing, reasserting the same evidence changes nothing, and folding records one by one equals
  merging their combination, so how a provider splits a round's evidence over records is irrelevant.
\<close>

theorem auction_merge_monoid:
  "auction_merge auction_unclassified a = a \<and> auction_merge a auction_unclassified = a \<and>
   auction_merge a a = a \<and>
   auction_merge c (auction_merge b a) = auction_merge (auction_merge c b) a"
  by (simp add: auction_merge_assoc)

text \<open>
  C40: exactly when merging leaves the constructor's domain. For two observations the constructor
  accepts, the merged one is refused by \<open>from_parts\<close> exactly when one record supplies a direction
  without a purpose and the other an opening, closing or periodic purpose without a direction.
\<close>

theorem auction_merge_refused_iff:
  assumes "valid_auction current" and "valid_auction prior"
  shows "\<not> valid_auction (auction_merge current prior) \<longleftrightarrow>
    (let np = {EvKnown Opening, EvKnown Closing, EvKnown Periodic} in
     (ao_purpose current \<in> np \<and> ao_direction current = EvNoObservation \<and>
        known_value (ao_direction prior) \<noteq> None) \<or>
     (ao_purpose current = EvNoObservation \<and> known_value (ao_direction current) \<noteq> None \<and>
        ao_purpose prior \<in> np))"
  using assms unfolding valid_auction_def auction_merge_def direction_conflict_known Let_def
  by (cases "ao_purpose current"; cases "ao_direction current") auto

theorem auction_merge_refused_iff_witness:
  "valid_auction (auction_opening_with_evidence EvNoObservation EvNoObservation) \<and>
   valid_auction (auction_unclassified\<lparr>ao_direction := EvKnown DirectionUp\<rparr>) \<and>
   \<not> valid_auction (auction_merge (auction_opening_with_evidence EvNoObservation EvNoObservation)
       (auction_unclassified\<lparr>ao_direction := EvKnown DirectionUp\<rparr>))"
proof -
  have v: "valid_auction (auction_opening_with_evidence EvNoObservation EvNoObservation)"
    "valid_auction (auction_unclassified\<lparr>ao_direction := EvKnown DirectionUp\<rparr>)"
    by (simp_all add: constructors_valid) (simp add: valid_auction_def auction_unclassified_def)
  show ?thesis
    using v auction_merge_refused_iff [OF v]
    by (simp add: Let_def auction_opening_with_evidence_def auction_unclassified_def)
qed

end
