(* ===== verification/Events.thy ===== *)
theory Events
  imports Book Signals
begin

text \<open>
  The domain events of \<open>crates/market-types/src/event.rs\<close>: the five payloads with their validated
  constructors, the event envelope, and the invariants (\<open>wf_event\<close>) that the Rust types and
  constructors enforce together.
\<close>

section \<open>Model\<close>

definition CANONICAL_EVENT_VERSION :: nat where "CANONICAL_EVENT_VERSION = 9"
definition EVENT_SCHEMA_VERSION :: nat where "EVENT_SCHEMA_VERSION = 9"

datatype event_error =
  InvalidTrades trade_error | EventQuantityUnitMismatch quantity_unit quantity_unit

record quote_snapshot =
  qs_book :: complete_book
  qs_trade :: "observed_trade observation"
  qs_cumulative_volume :: "volume observation"
  qs_annotations :: market_annotations
  qs_market_signal :: "market_signal observation"

record book_snapshot =
  bk_book :: complete_book
  bk_annotations :: market_annotations
  bk_market_signal :: "market_signal observation"

record trade_batch =
  tb_trades :: "observed_trade list"
  tb_trade_order :: trade_batch_ordering
  tb_cumulative_volume :: "volume observation"
  tb_annotations :: market_annotations
  tb_market_signal :: "market_signal observation"

record indicative_auction =
  ia_observation :: auction_observation
  ia_price :: "price observation"
  ia_quantity :: "quantity observation"
  ia_book :: "complete_book observation"
  ia_cumulative_volume :: "volume observation"
  ia_annotations :: market_annotations

record market_status =
  ms_cumulative_volume :: "volume observation"
  ms_annotations :: market_annotations
  ms_market_signal :: "market_signal observation"

datatype event_payload =
    PQuoteSnapshot quote_snapshot
  | PBookSnapshot book_snapshot
  | PTradeBatch trade_batch
  | PIndicativeAuction indicative_auction
  | PMarketStatus market_status

datatype event_kind = KQuoteSnapshot | KBookSnapshot | KTradeBatch | KIndicativeAuction | KMarketStatus

fun kind_discriminant :: "event_kind \<Rightarrow> nat" where
  "kind_discriminant KQuoteSnapshot = 10"
| "kind_discriminant KBookSnapshot = 20"
| "kind_discriminant KTradeBatch = 30"
| "kind_discriminant KIndicativeAuction = 40"
| "kind_discriminant KMarketStatus = 50"

fun payload_kind :: "event_payload \<Rightarrow> event_kind" where
  "payload_kind (PQuoteSnapshot p) = KQuoteSnapshot"
| "payload_kind (PBookSnapshot p) = KBookSnapshot"
| "payload_kind (PTradeBatch p) = KTradeBatch"
| "payload_kind (PIndicativeAuction p) = KIndicativeAuction"
| "payload_kind (PMarketStatus p) = KMarketStatus"

definition payload_discriminant :: "event_payload \<Rightarrow> nat" where
  "payload_discriminant p = kind_discriminant (payload_kind p)"

fun payload_market_signal :: "event_payload \<Rightarrow> market_signal observation" where
  "payload_market_signal (PQuoteSnapshot p) = qs_market_signal p"
| "payload_market_signal (PBookSnapshot p) = bk_market_signal p"
| "payload_market_signal (PTradeBatch p) = tb_market_signal p"
| "payload_market_signal (PIndicativeAuction p) = Set (AuctionCollecting (ia_observation p))"
| "payload_market_signal (PMarketStatus p) = ms_market_signal p"

record domain_event =
  ev_instrument :: instrument_id
  ev_trading_date :: int
  ev_source_format :: source_format_id
  ev_match_time :: int
  ev_source_sequence :: "nat option"
  ev_payload :: event_payload

subsection \<open>Validated constructors\<close>

definition validate_unit ::
  "quantity_unit option \<Rightarrow> quantity_unit \<Rightarrow> (quantity_unit option, event_error) result" where
  "validate_unit expected actual =
     (case expected of
        Some e \<Rightarrow> if e \<noteq> actual then Err (EventQuantityUnitMismatch e actual) else Ok expected
      | None \<Rightarrow> Ok (Some actual))"

definition validate_optional_unit ::
  "quantity_unit option \<Rightarrow> quantity_unit option \<Rightarrow> (quantity_unit option, event_error) result" where
  "validate_optional_unit expected actual =
     (case actual of None \<Rightarrow> Ok expected | Some u \<Rightarrow> validate_unit expected u)"

definition trade_unit :: "observed_trade observation \<Rightarrow> quantity_unit option" where
  "trade_unit ob = map_option (\<lambda>t. q_unit (ot_quantity t)) (as_set ob)"

definition volume_unit :: "volume observation \<Rightarrow> quantity_unit option" where
  "volume_unit ob = map_option v_unit (as_set ob)"

definition validate_snapshot_units ::
  "complete_book \<Rightarrow> observed_trade observation \<Rightarrow> volume observation \<Rightarrow> (unit, event_error) result" where
  "validate_snapshot_units b trade vol =
     rbind (validate_optional_unit (book_quantity_unit b) (trade_unit trade)) (\<lambda>expected.
       rbind (validate_optional_unit expected (volume_unit vol)) (\<lambda>_. Ok ()))"

definition validate_auction_units ::
  "quantity observation \<Rightarrow> complete_book observation \<Rightarrow> volume observation \<Rightarrow> (unit, event_error) result" where
  "validate_auction_units quantity b vol =
     rbind (validate_optional_unit None (map_option q_unit (as_set quantity))) (\<lambda>e1.
       rbind (validate_optional_unit e1 (Option.bind (as_set b) book_quantity_unit)) (\<lambda>e2.
         rbind (validate_optional_unit e2 (volume_unit vol)) (\<lambda>_. Ok ())))"

definition quote_snapshot_new ::
  "complete_book \<Rightarrow> observed_trade observation \<Rightarrow> volume observation \<Rightarrow> market_annotations \<Rightarrow>
   (quote_snapshot, event_error) result" where
  "quote_snapshot_new b trade vol ann =
     rbind (validate_snapshot_units b trade vol) (\<lambda>_.
       Ok \<lparr>qs_book = b, qs_trade = trade, qs_cumulative_volume = vol, qs_annotations = ann,
           qs_market_signal = NoObservation\<rparr>)"

definition book_snapshot_new :: "complete_book \<Rightarrow> market_annotations \<Rightarrow> book_snapshot" where
  "book_snapshot_new b ann = \<lparr>bk_book = b, bk_annotations = ann, bk_market_signal = NoObservation\<rparr>"

definition trade_batch_new ::
  "observed_trade list \<Rightarrow> trade_batch_ordering \<Rightarrow> volume observation \<Rightarrow> market_annotations \<Rightarrow>
   (trade_batch, event_error) result" where
  "trade_batch_new trades order vol ann =
     rbind (map_err InvalidTrades (validate_trade_units trades)) (\<lambda>u.
       case vol of
         Set v \<Rightarrow> if v_unit v \<noteq> u then Err (EventQuantityUnitMismatch u (v_unit v))
                  else Ok \<lparr>tb_trades = trades, tb_trade_order = order, tb_cumulative_volume = vol,
                           tb_annotations = ann, tb_market_signal = NoObservation\<rparr>
       | _ \<Rightarrow> Ok \<lparr>tb_trades = trades, tb_trade_order = order, tb_cumulative_volume = vol,
                  tb_annotations = ann, tb_market_signal = NoObservation\<rparr>)"

definition indicative_auction_new ::
  "auction_observation \<Rightarrow> price observation \<Rightarrow> quantity observation \<Rightarrow> complete_book observation \<Rightarrow>
   volume observation \<Rightarrow> market_annotations \<Rightarrow> (indicative_auction, event_error) result" where
  "indicative_auction_new ob price quantity b vol ann =
     rbind (validate_auction_units quantity b vol) (\<lambda>_.
       Ok \<lparr>ia_observation = ob, ia_price = price, ia_quantity = quantity, ia_book = b,
           ia_cumulative_volume = vol, ia_annotations = ann\<rparr>)"

definition market_status_new :: "volume observation \<Rightarrow> market_annotations \<Rightarrow> market_status" where
  "market_status_new vol ann =
     \<lparr>ms_cumulative_volume = vol, ms_annotations = ann, ms_market_signal = NoObservation\<rparr>"

subsection \<open>Invariants of constructed events\<close>

text \<open>
  The range of representable times and dates, and what each Rust type promises of its values. The
  length bounds are those the canonical encoding needs (\<open>u32\<close> frames).
\<close>

definition MIN_SUPPORTED_UNIX_MICROSECONDS :: int where
  "MIN_SUPPORTED_UNIX_MICROSECONDS = - 62167219200000000"
definition MAX_SUPPORTED_UNIX_MICROSECONDS :: int where
  "MAX_SUPPORTED_UNIX_MICROSECONDS = 253402300799999999"

definition is_utc_iso8601_representable :: "int \<Rightarrow> bool" where
  "is_utc_iso8601_representable t \<longleftrightarrow>
     MIN_SUPPORTED_UNIX_MICROSECONDS \<le> t \<and> t \<le> MAX_SUPPORTED_UNIX_MICROSECONDS"

definition MIN_EPOCH_DAYS :: int where "MIN_EPOCH_DAYS = - 719528"
definition MAX_EPOCH_DAYS :: int where "MAX_EPOCH_DAYS = 2932896"

datatype trading_date_error = DateInvalidFormat | DateInvalidDate | DateOutOfRange

definition trading_date_from_epoch_days :: "int \<Rightarrow> (int, trading_date_error) result" where
  "trading_date_from_epoch_days d =
     (if d < MIN_EPOCH_DAYS \<or> MAX_EPOCH_DAYS < d then Err DateOutOfRange else Ok d)"

fun wf_unknown :: "unknown_value \<Rightarrow> bool" where
  "wf_unknown (UvUnsigned n) = in_u64 n"
| "wf_unknown (UvSigned i) = in_i64 i"
| "wf_unknown (UvDecimal d) = in_i128 d"
| "wf_unknown (UvText s) = (utf8_valid s \<and> in_u32 (length s))"
| "wf_unknown (UvBytes b) = in_u32 (length b)"

fun wf_observation :: "('a \<Rightarrow> bool) \<Rightarrow> 'a observation \<Rightarrow> bool" where
  "wf_observation P NoObservation = True"
| "wf_observation P (Set x) = P x"
| "wf_observation P Clear = True"
| "wf_observation P (Unknown u) = wf_unknown u"

fun wf_signal :: "market_signal \<Rightarrow> bool" where
  "wf_signal (AuctionCollecting ob) = valid_auction ob"
| "wf_signal (AuctionUncross ob) = valid_auction ob"
| "wf_signal _ = True"

fun wf_payload :: "event_payload \<Rightarrow> bool" where
  "wf_payload (PQuoteSnapshot p) =
     (wf_book (qs_book p) \<and> wf_observation wf_trade (qs_trade p) \<and>
      wf_observation wf_volume (qs_cumulative_volume p) \<and> wf_observation wf_signal (qs_market_signal p) \<and>
      is_ok (validate_snapshot_units (qs_book p) (qs_trade p) (qs_cumulative_volume p)))"
| "wf_payload (PBookSnapshot p) =
     (wf_book (bk_book p) \<and> wf_observation wf_signal (bk_market_signal p))"
| "wf_payload (PTradeBatch p) =
     (list_all wf_trade (tb_trades p) \<and> in_u32 (length (tb_trades p)) \<and>
      wf_observation wf_volume (tb_cumulative_volume p) \<and> wf_observation wf_signal (tb_market_signal p) \<and>
      is_ok (trade_batch_new (tb_trades p) (tb_trade_order p) (tb_cumulative_volume p) (tb_annotations p)))"
| "wf_payload (PIndicativeAuction p) =
     (valid_auction (ia_observation p) \<and> wf_observation in_i128 (ia_price p) \<and>
      wf_observation wf_quantity (ia_quantity p) \<and> wf_observation wf_book (ia_book p) \<and>
      wf_observation wf_volume (ia_cumulative_volume p) \<and>
      is_ok (validate_auction_units (ia_quantity p) (ia_book p) (ia_cumulative_volume p)))"
| "wf_payload (PMarketStatus p) =
     (wf_observation wf_volume (ms_cumulative_volume p) \<and> wf_observation wf_signal (ms_market_signal p))"

definition wf_event :: "domain_event \<Rightarrow> bool" where
  "wf_event e \<longleftrightarrow>
     wf_text_id (snd (ev_instrument e)) \<and> in_u32 (length (snd (ev_instrument e))) \<and>
     MIN_EPOCH_DAYS \<le> ev_trading_date e \<and> ev_trading_date e \<le> MAX_EPOCH_DAYS \<and>
     wf_text_id (ev_source_format e) \<and> in_u32 (length (ev_source_format e)) \<and>
     is_utc_iso8601_representable (ev_match_time e) \<and>
     (\<forall>n. ev_source_sequence e = Some n \<longrightarrow> in_u64 n) \<and> wf_payload (ev_payload e)"

lemma validate_unit_Ok:
  "validate_unit expected actual = Ok r \<longleftrightarrow> r = Some actual \<and> (expected = None \<or> expected = Some actual)"
  by (auto simp: validate_unit_def split: option.splits)

lemma validate_optional_unit_Ok:
  "validate_optional_unit e a = Ok r \<longleftrightarrow>
     (case a of None \<Rightarrow> r = e | Some u \<Rightarrow> r = Some u \<and> (e = None \<or> e = Some u))"
  by (auto simp: validate_optional_unit_def validate_unit_Ok split: option.splits)

text \<open>All units present in a list of optional units agree.\<close>

definition units_agree :: "quantity_unit option list \<Rightarrow> bool" where
  "units_agree us \<longleftrightarrow> (\<forall>u v. Some u \<in> set us \<longrightarrow> Some v \<in> set us \<longrightarrow> u = v)"

lemma validate_snapshot_units_Ok:
  "validate_snapshot_units b trade vol = Ok () \<longleftrightarrow>
     units_agree [book_quantity_unit b, trade_unit trade, volume_unit vol]"
  unfolding validate_snapshot_units_def units_agree_def
  by (cases "book_quantity_unit b"; cases "trade_unit trade"; cases "volume_unit vol")
    (simp_all add: validate_optional_unit_Ok, auto)

lemma validate_auction_units_Ok:
  "validate_auction_units q b vol = Ok () \<longleftrightarrow>
     units_agree [map_option q_unit (as_set q), Option.bind (as_set b) book_quantity_unit, volume_unit vol]"
  unfolding validate_auction_units_def units_agree_def
  by (cases "map_option q_unit (as_set q)"; cases "Option.bind (as_set b) book_quantity_unit";
      cases "volume_unit vol") (simp_all add: validate_optional_unit_Ok, auto)

text \<open>
  An event never mixes units. A quote snapshot is constructed exactly when the book, the trade
  and the cumulative volume that are present all carry the same quantity unit, and the constructor
  then stores its arguments unchanged and observes no market signal.
\<close>

theorem quote_snapshot_units_agree:
  "quote_snapshot_new b trade vol ann = Ok p \<longleftrightarrow>
     units_agree [book_quantity_unit b, trade_unit trade, volume_unit vol] \<and>
     p = \<lparr>qs_book = b, qs_trade = trade, qs_cumulative_volume = vol, qs_annotations = ann,
          qs_market_signal = NoObservation\<rparr>"
  by (auto simp: quote_snapshot_new_def validate_snapshot_units_Ok)

end
