(* ===== verification/Calendar.thy ===== *)
theory Calendar
  imports Events
begin

text \<open>
  Calendar dates and instants: \<open>crates/market-types/src/trading_date.rs\<close> and \<open>match_time.rs\<close>. A
  trading date is a signed day count from 1970-01-01, an instant a signed microsecond count; both
  are written and read as ISO-8601 text through the civil-date conversion (400-year eras of 146097
  days, years starting in March). The theory shows that the conversion is a bijection between day
  counts and valid Gregorian dates and that text and counts correspond exactly.
\<close>

section \<open>Civil dates\<close>

definition is_leap_year :: "nat \<Rightarrow> bool" where
  "is_leap_year y \<longleftrightarrow> y mod 4 = 0 \<and> (y mod 100 \<noteq> 0 \<or> y mod 400 = 0)"

definition days_in_month :: "nat \<Rightarrow> nat \<Rightarrow> nat option" where
  "days_in_month y m =
     (if m \<in> {1, 3, 5, 7, 8, 10, 12} then Some 31
      else if m \<in> {4, 6, 9, 11} then Some 30
      else if m = 2 then Some (if is_leap_year y then 29 else 28)
      else None)"

definition validate_date :: "nat \<Rightarrow> nat \<Rightarrow> nat \<Rightarrow> (unit, trading_date_error) result" where
  "validate_date y m d =
     (case days_in_month y m of None \<Rightarrow> Err DateInvalidDate
      | Some n \<Rightarrow> if d = 0 \<or> d > n then Err DateInvalidDate else Ok ())"

definition days_from_civil :: "nat \<Rightarrow> nat \<Rightarrow> nat \<Rightarrow> int" where
  "days_from_civil y m d =
     (let year = int y - of_bool (m \<le> 2);
          era = year div 400;
          year_of_era = year - era * 400;
          shifted_month = int m + (if m > 2 then - 3 else 9);
          day_of_year = (153 * shifted_month + 2) div 5 + int d - 1;
          day_of_era = year_of_era * 365 + year_of_era div 4 - year_of_era div 100 + day_of_year
      in era * 146097 + day_of_era - 719468)"

definition civil_from_days :: "int \<Rightarrow> int \<times> int \<times> int" where
  "civil_from_days epoch_days =
     (let shifted_days = epoch_days + 719468;
          era = shifted_days div 146097;
          day_of_era = shifted_days - era * 146097;
          year_of_era =
            (day_of_era - day_of_era div 1460 + day_of_era div 36524 - day_of_era div 146096) div 365;
          year = year_of_era + era * 400;
          day_of_year = day_of_era - (365 * year_of_era + year_of_era div 4 - year_of_era div 100);
          shifted_month = (5 * day_of_year + 2) div 153;
          day = day_of_year - (153 * shifted_month + 2) div 5 + 1;
          month = shifted_month + (if shifted_month < 10 then 3 else - 9)
      in (year + of_bool (month \<le> 2), month, day))"

section \<open>Text\<close>

definition byte_at :: "string \<Rightarrow> nat \<Rightarrow> char option" where
  "byte_at s i = (if i < length s then Some (s ! i) else None)"

definition parse_digits :: "string \<Rightarrow> nat \<Rightarrow> nat \<Rightarrow> nat option" where
  "parse_digits s start len =
     (if start + len \<le> length s then
        (let digits = take len (drop start s) in
         if list_all is_ascii_digit digits then Some (foldl (\<lambda>v c. v * 10 + digit_val c) 0 digits)
         else None)
      else None)"

text \<open>Rust's zero-padded decimal format: a minus sign counts toward the width.\<close>

definition format_padded :: "nat \<Rightarrow> int \<Rightarrow> string" where
  "format_padded width v =
     (if v < 0 then CHR ''-'' # pad_zero (width - 1) (nat_digits (nat (- v)))
      else pad_zero width (nat_digits (nat v)))"

definition trading_date_parse :: "string \<Rightarrow> (int, trading_date_error) result" where
  "trading_date_parse s =
     (if length s \<noteq> 10 \<or> byte_at s 4 \<noteq> Some (CHR ''-'') \<or> byte_at s 7 \<noteq> Some (CHR ''-'')
      then Err DateInvalidFormat
      else rbind (ok_or (parse_digits s 0 4) DateInvalidFormat) (\<lambda>year.
        rbind (ok_or (parse_digits s 5 2) DateInvalidFormat) (\<lambda>month.
          rbind (ok_or (parse_digits s 8 2) DateInvalidFormat) (\<lambda>day.
            rbind (validate_date year month day) (\<lambda>_.
              trading_date_from_epoch_days (days_from_civil year month day))))))"

definition trading_date_to_string :: "int \<Rightarrow> string" where
  "trading_date_to_string d =
     (let (year, month, day) = civil_from_days d in
      format_padded 4 year @ ''-'' @ format_padded 2 month @ ''-'' @ format_padded 2 day)"

section \<open>Instants\<close>

definition MICROS_PER_SECOND :: int where "MICROS_PER_SECOND = 1000000"
definition SECONDS_PER_DAY :: int where "SECONDS_PER_DAY = 86400"
definition MAX_UTC_OFFSET_MINUTES :: int where "MAX_UTC_OFFSET_MINUTES = 23 * 60 + 59"

datatype utc_offset_error = OffsetOutOfRange
datatype match_time_error =
  MtInvalidFormat | MtInvalidDate | MtInvalidTime | MtInvalidOffset | MtPrecisionLoss | MtOutOfRange

definition utc_offset_new :: "int \<Rightarrow> (int, utc_offset_error) result" where
  "utc_offset_new minutes =
     (if minutes < - MAX_UTC_OFFSET_MINUTES \<or> minutes > MAX_UTC_OFFSET_MINUTES then Err OffsetOutOfRange
      else Ok minutes)"

definition to_iso8601 :: "int \<Rightarrow> int \<Rightarrow> (string, match_time_error) result" where
  "to_iso8601 t offset_minutes =
     (let offset_microseconds = offset_minutes * 60 * MICROS_PER_SECOND in
      rbind (ok_or (checked_i64 (t + offset_microseconds)) MtOutOfRange) (\<lambda>local_microseconds.
        let local_seconds = local_microseconds div MICROS_PER_SECOND;
            microseconds = local_microseconds mod MICROS_PER_SECOND;
            days = local_seconds div SECONDS_PER_DAY;
            seconds = local_seconds mod SECONDS_PER_DAY;
            (year, month, day) = civil_from_days days
        in if \<not> (0 \<le> year \<and> year \<le> 9999) then Err MtOutOfRange
           else let hour = seconds div 3600;
                    minute = (seconds mod 3600) div 60;
                    second = seconds mod 60;
                    sign = (if offset_minutes < 0 then CHR ''-'' else CHR ''+'');
                    absolute_offset = \<bar>offset_minutes\<bar>
                in Ok (format_padded 4 year @ ''-'' @ format_padded 2 month @ ''-'' @ format_padded 2 day @
                       ''T'' @ format_padded 2 hour @ '':'' @ format_padded 2 minute @ '':'' @
                       format_padded 2 second @ ''.'' @ format_padded 6 microseconds @ [sign] @
                       format_padded 2 (absolute_offset div 60) @ '':'' @
                       format_padded 2 (absolute_offset mod 60))))"

definition is_offset_marker :: "char \<Rightarrow> bool" where
  "is_offset_marker c \<longleftrightarrow> c = CHR ''Z'' \<or> c = CHR ''+'' \<or> c = CHR ''-''"

definition parse_offset :: "string \<Rightarrow> (nat \<times> int, match_time_error) result" where
  "parse_offset s =
     (let offset_start = 19 + length (takeWhile (\<lambda>c. \<not> is_offset_marker c) (drop 19 s)) in
      if \<not> offset_start < length s then Err MtInvalidFormat
      else if s ! offset_start = CHR ''Z'' then
        (if offset_start + 1 = length s then Ok (offset_start, 0) else Err MtInvalidFormat)
      else if offset_start + 6 \<noteq> length s \<or> byte_at s (offset_start + 3) \<noteq> Some (CHR '':'')
      then Err MtInvalidOffset
      else rbind (ok_or (parse_digits s (offset_start + 1) 2) MtInvalidOffset) (\<lambda>hours.
        rbind (ok_or (parse_digits s (offset_start + 4) 2) MtInvalidOffset) (\<lambda>minutes.
          if hours > 23 \<or> minutes > 59 then Err MtInvalidOffset
          else let magnitude = int hours * 3600 + int minutes * 60
               in Ok (offset_start, if s ! offset_start = CHR ''-'' then - magnitude else magnitude))))"

definition parse_fraction :: "string \<Rightarrow> nat \<Rightarrow> (int, match_time_error) result" where
  "parse_fraction s fraction_end =
     (if fraction_end = 19 then Ok 0
      else if byte_at s 19 \<noteq> Some (CHR ''.'') \<or> fraction_end = 20 then Err MtInvalidFormat
      else let digits = take (fraction_end - 20) (drop 20 s) in
        if \<not> list_all is_ascii_digit digits then Err MtInvalidFormat
        else if \<exists>c \<in> set (drop 6 digits). c \<noteq> CHR ''0'' then Err MtPrecisionLoss
        else Ok (foldl (\<lambda>v c. v * 10 + int (digit_val c)) 0 (take 6 digits) * 10 ^ (6 - length digits)))"

definition date_error_of :: "trading_date_error \<Rightarrow> match_time_error" where
  "date_error_of e = MtInvalidDate"

definition parse_match_time :: "string \<Rightarrow> (int, match_time_error) result" where
  "parse_match_time s =
     (if length s < 20 \<or> byte_at s 4 \<noteq> Some (CHR ''-'') \<or> byte_at s 7 \<noteq> Some (CHR ''-'') \<or>
         byte_at s 10 \<noteq> Some (CHR ''T'') \<or> byte_at s 13 \<noteq> Some (CHR '':'') \<or> byte_at s 16 \<noteq> Some (CHR '':'')
      then Err MtInvalidFormat
      else rbind (ok_or (parse_digits s 0 4) MtInvalidFormat) (\<lambda>year.
        rbind (ok_or (parse_digits s 5 2) MtInvalidFormat) (\<lambda>month.
        rbind (ok_or (parse_digits s 8 2) MtInvalidFormat) (\<lambda>day.
        rbind (map_err date_error_of (validate_date year month day)) (\<lambda>_.
        rbind (ok_or (parse_digits s 11 2) MtInvalidFormat) (\<lambda>hour.
        rbind (ok_or (parse_digits s 14 2) MtInvalidFormat) (\<lambda>minute.
        rbind (ok_or (parse_digits s 17 2) MtInvalidFormat) (\<lambda>second.
          if hour > 23 \<or> minute > 59 \<or> second > 59 then Err MtInvalidTime
          else rbind (parse_offset s) (\<lambda>(fraction_end, offset_seconds).
            rbind (parse_fraction s fraction_end) (\<lambda>microseconds.
              let epoch_days = days_from_civil year month day in
              rbind (ok_or (Option.bind (Option.bind (Option.bind
                        (checked_i64 (epoch_days * SECONDS_PER_DAY))
                        (\<lambda>v. checked_i64 (v + int hour * 3600)))
                        (\<lambda>v. checked_i64 (v + int minute * 60)))
                        (\<lambda>v. checked_i64 (v + int second))) MtOutOfRange) (\<lambda>local_seconds.
              rbind (ok_or (checked_i64 (local_seconds - offset_seconds)) MtOutOfRange) (\<lambda>utc_seconds.
                ok_or (Option.bind (checked_i64 (utc_seconds * MICROS_PER_SECOND))
                        (\<lambda>v. checked_i64 (v + microseconds))) MtOutOfRange))))))))))))"

section \<open>The civil conversion is a bijection\<close>

text \<open>Days before year \<open>y\<close> of an era, and the year guess of \<open>civil_from_days\<close>.\<close>

definition year_start :: "int \<Rightarrow> int" where
  "year_start y = 365 * y + y div 4 - y div 100"

definition year_guess :: "int \<Rightarrow> int" where
  "year_guess n = n - n div 1460 + n div 36524 - n div 146096"

definition year_end :: "int \<Rightarrow> int" where
  "year_end y = (if y = 399 then 146097 else year_start (y + 1))"

lemma year_guess_table:
  "list_all (\<lambda>y. 365 * y \<le> year_guess (year_start y) \<and> year_guess (year_end y - 1) < 365 * (y + 1)) [0..399]"
  by code_simp

lemma year_guess_step: "year_guess n \<le> year_guess (n + 1)"
proof -
  define k k' where "k = n div 36524" and "k' = (n + 1) div 36524"
  have q: "m div 146096 = m div 36524 div 4" for m :: int
    using zdiv_zmult2_eq [of 4 m 36524] by simp
  have step: "(n + 1) div c \<le> n div c + 1" if "0 < c" for c
    using zdiv_mono1 [of "n + 1" "n + c" c] that by simp
  have "(n + 1) div 1460 \<le> n div 1460 + 1" by (rule step) simp
  moreover have "k \<le> k'" unfolding k_def k'_def by (rule zdiv_mono1) simp_all
  then have "k' = k \<or> k' = k + 1" using step [of 36524] unfolding k_def k'_def by linarith
  then have "k' div 4 - k div 4 \<le> k' - k" by presburger
  ultimately show ?thesis
    unfolding year_guess_def q k_def [symmetric] k'_def [symmetric] by linarith
qed

lemma year_guess_mono: "m \<le> n \<Longrightarrow> year_guess m \<le> year_guess n"
proof (induction "nat (n - m)" arbitrary: n)
  case (Suc k)
  then have "year_guess m \<le> year_guess (n - 1)" by simp
  also have "\<dots> \<le> year_guess n" using year_guess_step [of "n - 1"] by simp
  finally show ?case .
qed simp

lemma year_of_era:
  assumes "0 \<le> y" "y < 400" "year_start y \<le> n" "n < year_end y"
  shows "year_guess n div 365 = y"
proof -
  have "365 * y \<le> year_guess (year_start y)" "year_guess (year_end y - 1) < 365 * (y + 1)"
    using year_guess_table assms(1,2) by (auto simp: list_all_iff)
  moreover have "year_guess (year_start y) \<le> year_guess n" "year_guess n \<le> year_guess (year_end y - 1)"
    using assms(3,4) by (auto intro: year_guess_mono)
  ultimately show ?thesis by (intro int_div_pos_eq [of _ _ _ "year_guess n - 365 * y"]) auto
qed

text \<open>Months of the shifted year: month \<open>m\<close> starts at day \<open>(153 m + 2) / 5\<close>.\<close>

lemma month_of_year:
  fixes mp n :: int
  assumes "(153 * mp + 2) div 5 \<le> n" "n < (153 * (mp + 1) + 2) div 5"
  shows "(5 * n + 2) div 153 = mp"
proof -
  have le: "x \<le> 5 * n + 2" if "(x + 2) div 5 \<le> n" for x using that by presburger
  have lt: "5 * n + 2 < x" if "n < (x + 2) div 5" for x using that by presburger
  have "153 * mp \<le> 5 * n + 2" "5 * n + 2 < 153 * (mp + 1)" using le lt assms by blast+
  then show ?thesis by (intro int_div_pos_eq [of _ _ _ "5 * n + 2 - 153 * mp"]) auto
qed

lemma month_of_year_bounds:
  fixes n :: int
  assumes "0 \<le> n" "n \<le> 365"
  defines "mp \<equiv> (5 * n + 2) div 153"
  shows "0 \<le> mp" "mp \<le> 11" "(153 * mp + 2) div 5 \<le> n" "n < (153 * (mp + 1) + 2) div 5"
proof -
  have le: "(x + 2) div 5 \<le> n" if "x \<le> 5 * n + 2" for x using that by presburger
  have lt: "n < (x + 2) div 5" if "5 * n + 2 < x" for x using that by presburger
  have eq: "153 * mp + (5 * n + 2) mod 153 = 5 * n + 2" by (simp add: mp_def)
  have bound: "0 \<le> (5 * n + 2) mod 153" "(5 * n + 2) mod 153 < 153" by simp_all
  show "(153 * mp + 2) div 5 \<le> n" using eq bound by (intro le) linarith
  show "n < (153 * (mp + 1) + 2) div 5" using eq bound by (intro lt) (simp add: distrib_left)
  show "0 \<le> mp" "mp \<le> 11" using eq bound assms(1,2) by linarith+
qed

lemma year_start_mono: "a \<le> b \<Longrightarrow> year_start a \<le> year_start b"
proof -
  assume "a \<le> b"
  have "b div 100 \<le> (a + (b - a) * 100) div 100" using \<open>a \<le> b\<close> by (intro zdiv_mono1) auto
  also have "\<dots> = a div 100 + (b - a)" by simp
  finally have "b div 100 - a div 100 \<le> b - a" by simp
  moreover have "a div 4 \<le> b div 4" using \<open>a \<le> b\<close> by (intro zdiv_mono1) auto
  ultimately show ?thesis using \<open>a \<le> b\<close> by (simp add: year_start_def)
qed

text \<open>Every day of an era lies in exactly one year.\<close>

lemma era_year_exists:
  assumes "0 \<le> n" "n < 146097"
  obtains y where "0 \<le> y" "y < 400" "year_start y \<le> n" "n < year_end y"
proof -
  have "\<exists>y. 0 \<le> y \<and> y < 400 \<and> year_start y \<le> n \<and> n < year_end y"
    if "0 \<le> k" "k \<le> 399" "n < year_end k" for k
    using that
  proof (induction "nat k" arbitrary: k)
    case 0
    then show ?case using assms(1) by (intro exI [of _ 0]) (simp add: year_start_def)
  next
    case (Suc j)
    show ?case
    proof (cases "year_start k \<le> n")
      case True
      then show ?thesis using Suc.prems by auto
    next
      case False
      then have "n < year_end (k - 1)" using Suc.prems by (simp add: year_end_def)
      then show ?thesis using Suc.hyps(1) [of "k - 1"] Suc.hyps(2) Suc.prems by simp
    qed
  qed
  from this [of 399] show ?thesis using assms that by (auto simp: year_end_def)
qed

text \<open>
  The coordinates of a day: its era, the year of the era, the month counted from March and the day
  of the month counted from zero.
\<close>

definition civil_parts :: "int \<Rightarrow> int \<Rightarrow> int \<Rightarrow> int \<Rightarrow> int \<Rightarrow> bool" where
  "civil_parts n era yoe mp dd \<longleftrightarrow>
     0 \<le> yoe \<and> yoe < 400 \<and> 0 \<le> mp \<and> mp \<le> 11 \<and> 0 \<le> dd \<and>
     (153 * mp + 2) div 5 + dd < (153 * (mp + 1) + 2) div 5 \<and>
     year_start yoe + (153 * mp + 2) div 5 + dd < year_end yoe \<and>
     n = era * 146097 + year_start yoe + (153 * mp + 2) div 5 + dd - 719468"

lemma year_end_table: "list_all (\<lambda>y. year_start y < year_end y \<and> year_end y \<le> year_start y + 366 \<and>
    year_end y \<le> 146097 \<and> year_start y + 365 \<le> year_end y) [0..399]"
  by code_simp

lemma year_end_bounds:
  assumes "0 \<le> y" "y < 400"
  shows "year_end y \<le> year_start y + 366" "year_end y \<le> 146097" "year_start y + 365 \<le> year_end y"
  using year_end_table assms by (auto simp: list_all_iff)

lemma year_start_nonneg: "0 \<le> y \<Longrightarrow> 0 \<le> year_start y"
  using year_start_mono [of 0 y] by (simp add: year_start_def)

lemma civil_parts_exist: "\<exists>era yoe mp dd. civil_parts n era yoe mp dd"
proof -
  define era doe where "era = (n + 719468) div 146097" and "doe = (n + 719468) mod 146097"
  have n: "n = era * 146097 + doe - 719468" unfolding era_def doe_def by (simp add: algebra_simps)
  have "0 \<le> doe" "doe < 146097" by (simp_all add: doe_def)
  then obtain y where y: "0 \<le> y" "y < 400" "year_start y \<le> doe" "doe < year_end y"
    by (rule era_year_exists)
  define doy where "doy = doe - year_start y"
  have "0 \<le> doy" "doy \<le> 365" using y year_end_bounds(1) [OF y(1,2)] by (auto simp: doy_def)
  define mp where "mp = (5 * doy + 2) div 153"
  note mp = month_of_year_bounds [OF \<open>0 \<le> doy\<close> \<open>doy \<le> 365\<close>, folded mp_def]
  have doe: "doe = year_start y + doy" by (simp add: doy_def)
  have "civil_parts n era y mp (doy - (153 * mp + 2) div 5)"
    using mp y n unfolding civil_parts_def doe by simp
  then show ?thesis by blast
qed

lemma civil_parts_from_days:
  assumes "civil_parts n era yoe mp dd"
  shows "civil_from_days n =
    (yoe + era * 400 + of_bool (10 \<le> mp), (if mp < 10 then mp + 3 else mp - 9), dd + 1)"
proof -
  define doy where "doy = (153 * mp + 2) div 5 + dd"
  define doe where "doe = year_start yoe + doy"
  note parts = assms [unfolded civil_parts_def]
  have doy: "0 \<le> doy" using parts by (auto simp: doy_def)
  have doe: "0 \<le> doe" "doe < 146097"
    using parts doy year_start_nonneg [of yoe] year_end_bounds(2) [of yoe] by (auto simp: doe_def doy_def)
  have n: "n + 719468 = era * 146097 + doe" using parts by (simp add: doe_def doy_def)
  have era: "(n + 719468) div 146097 = era" unfolding n using doe by simp
  have yoe: "year_guess doe div 365 = yoe"
    using parts doy by (intro year_of_era) (auto simp: doe_def doy_def)
  have mp: "(5 * doy + 2) div 153 = mp"
    using parts by (intro month_of_year) (auto simp: doy_def)
  have left: "n + 719468 - era * 146097 = doe" using n by simp
  have doy': "doe - (365 * yoe + yoe div 4 - yoe div 100) = doy" by (simp add: doe_def year_start_def)
  show ?thesis
    unfolding civil_from_days_def Let_def era left year_guess_def [symmetric] yoe doy' mp
    using parts by (auto simp: doy_def)
qed

definition is_leap_int :: "int \<Rightarrow> bool" where
  "is_leap_int z \<longleftrightarrow> z mod 4 = 0 \<and> (z mod 100 \<noteq> 0 \<or> z mod 400 = 0)"

lemma is_leap_int_of_nat: "is_leap_year y \<longleftrightarrow> is_leap_int (int y)"
proof -
  have "int y mod int c = 0 \<longleftrightarrow> y mod c = 0" for c by (simp only: zmod_int [symmetric] of_nat_eq_0_iff)
  from this [of 4] this [of 100] this [of 400] show ?thesis
    by (simp only: is_leap_year_def is_leap_int_def of_nat_numeral)
qed

lemma is_leap_int_era: "is_leap_int (z + era * 400) \<longleftrightarrow> is_leap_int z"
proof -
  have "(z + era * 400) mod c = z mod c" if "c dvd 400" for c
    using that by (metis dvd_mult mod_add_right_eq add.right_neutral dvd_imp_mod_0)
  then show ?thesis by (simp add: is_leap_int_def)
qed

lemma year_length_table:
  "list_all (\<lambda>y. year_end y - year_start y = 365 + of_bool (is_leap_int (y + 1))) [0..399]"
  by code_simp

lemma year_length:
  assumes "0 \<le> y" "y < 400"
  shows "year_end y = year_start y + 365 + of_bool (is_leap_int (y + 1 + era * 400))"
proof -
  have "y \<in> set [0..399]" using assms by simp
  with year_length_table have "year_end y - year_start y = 365 + of_bool (is_leap_int (y + 1))"
    unfolding list_all_iff by blast
  then show ?thesis unfolding is_leap_int_era by simp
qed

text \<open>Month lengths in the shifted numbering; only February depends on the year.\<close>

definition month_index :: "nat \<Rightarrow> int" where
  "month_index m = int m + (if m > 2 then - 3 else 9)"

lemma validate_date_Ok:
  "validate_date y m d = Ok () \<longleftrightarrow> (\<exists>n. days_in_month y m = Some n \<and> 1 \<le> d \<and> d \<le> n)"
  by (auto simp: validate_date_def split: option.splits)

lemma days_in_month_cases:
  assumes "days_in_month y m = Some n"
  shows "0 \<le> month_index m \<and> month_index m \<le> 11 \<and> 1 \<le> m \<and> m \<le> 12 \<and>
    (month_index m < 11 \<longrightarrow>
      (153 * month_index m + 2) div 5 + int n = (153 * (month_index m + 1) + 2) div 5) \<and>
    (month_index m = 11 \<longrightarrow> m = 2 \<and> int n = 28 + of_bool (is_leap_int (int y)))"
proof -
  have "m \<in> {1,2,3,4,5,6,7,8,9,10,11,12}"
    using assms by (auto simp: days_in_month_def split: if_splits)
  then consider "m = 1" | "m = 2" | "m = 3" | "m = 4" | "m = 5" | "m = 6" | "m = 7" | "m = 8" | "m = 9"
    | "m = 10" | "m = 11" | "m = 12" by blast
  then show ?thesis
    using assms by cases (simp_all add: days_in_month_def month_index_def is_leap_int_of_nat split: if_splits)
qed

lemma days_in_month_total:
  assumes "0 \<le> mp" "mp \<le> 11"
  shows "\<exists>n. days_in_month y (nat (if mp < 10 then mp + 3 else mp - 9)) = Some n \<and>
    month_index (nat (if mp < 10 then mp + 3 else mp - 9)) = mp"
proof -
  have "mp \<in> {0,1,2,3,4,5,6,7,8,9,10,11}"
    using assms unfolding insert_iff empty_iff by presburger
  then show ?thesis by (auto simp: days_in_month_def month_index_def)
qed

lemma days_from_civil_unfold:
  "days_from_civil y m d =
     (let s = int y - of_bool (m \<le> 2) in
      (s div 400) * 146097 + year_start (s mod 400) + (153 * month_index m + 2) div 5 + (int d - 1) - 719468)"
proof -
  have e: "s - s div 400 * 400 = s mod 400" for s :: int by (simp add: minus_div_mult_eq_mod)
  show ?thesis
    unfolding days_from_civil_def Let_def e year_start_def month_index_def by (simp only: mult.commute)
qed

lemma valid_date_parts:
  assumes "validate_date y m d = Ok ()"
  defines "s \<equiv> int y - of_bool (m \<le> 2)"
  shows "civil_parts (days_from_civil y m d) (s div 400) (s mod 400) (month_index m) (int d - 1)"
proof -
  obtain n where n: "days_in_month y m = Some n" and d: "1 \<le> d" "d \<le> n"
    using assms(1) by (auto simp: validate_date_Ok)
  note mi = days_in_month_cases [OF n]
  have yoe: "0 \<le> s mod 400" "s mod 400 < 400" by simp_all
  have len: "year_end (s mod 400) = year_start (s mod 400) + 365 + of_bool (is_leap_int (s + 1))"
  proof -
    have "s mod 400 + 1 + s div 400 * 400 = s + 1" by simp
    then show ?thesis using year_length [OF yoe, of "s div 400"] by simp
  qed
  define a where "a = (153 * month_index m + 2) div 5"
  have month: "a + (int d - 1) < (153 * (month_index m + 1) + 2) div 5 \<and>
      a + (int d - 1) < 365 + of_bool (is_leap_int (s + 1))"
  proof (cases "month_index m = 11")
    case True
    then have "m = 2" "int n = 28 + of_bool (is_leap_int (int y))" using mi by auto
    then show ?thesis using True d by (cases "is_leap_int (int y)") (simp_all add: a_def s_def)
  next
    case False
    then have eq: "a + int n = (153 * (month_index m + 1) + 2) div 5" using mi by (simp add: a_def)
    moreover have "(153 * (month_index m + 1) + 2) div 5 \<le> (153 * 11 + 2) div 5"
      using mi False by (intro zdiv_mono1) auto
    ultimately show ?thesis using d by auto
  qed
  have "days_from_civil y m d =
      (s div 400) * 146097 + year_start (s mod 400) + a + (int d - 1) - 719468"
    unfolding days_from_civil_unfold by (simp add: Let_def s_def a_def)
  then show ?thesis
    unfolding civil_parts_def a_def [symmetric] using mi yoe month len d by linarith
qed

lemma parts_valid_date:
  assumes "civil_parts n era yoe mp dd" and "0 \<le> yoe + era * 400 + of_bool (10 \<le> mp)"
  defines "y \<equiv> nat (yoe + era * 400 + of_bool (10 \<le> mp))"
    and "m \<equiv> nat (if mp < 10 then mp + 3 else mp - 9)" and "d \<equiv> nat (dd + 1)"
  shows "validate_date y m d = Ok ()" and "days_from_civil y m d = n"
proof -
  note parts = assms(1) [unfolded civil_parts_def]
  obtain k where k: "days_in_month y m = Some k" and mi: "month_index m = mp"
    using days_in_month_total [of mp y] parts by (auto simp: m_def)
  have m2: "m \<le> 2 \<longleftrightarrow> 10 \<le> mp" using parts by (auto simp: m_def)
  have s: "int y - of_bool (m \<le> 2) = yoe + era * 400" using assms(2) by (simp add: m2 y_def)
  have d: "int d = dd + 1" "1 \<le> d" using parts by (auto simp: d_def)
  have "int d \<le> int k"
  proof (cases "mp = 11")
    case True
    then have "int k = 28 + of_bool (is_leap_int (int y))"
      using days_in_month_cases [OF k] mi by simp
    moreover have "int y = yoe + 1 + era * 400" using s True parts m2 by simp
    moreover have "337 + dd < 365 + of_bool (is_leap_int (yoe + 1 + era * 400))"
      using parts True year_length [of yoe era] by simp
    ultimately show ?thesis using d by simp
  next
    case False
    then have "(153 * mp + 2) div 5 + int k = (153 * (mp + 1) + 2) div 5"
      using days_in_month_cases [OF k] mi parts by simp
    then show ?thesis using parts d by linarith
  qed
  then show "validate_date y m d = Ok ()" using k d by (simp add: validate_date_Ok)
  have "(yoe + era * 400) div 400 = era" "(yoe + era * 400) mod 400 = yoe" using parts by auto
  then show "days_from_civil y m d = n"
    unfolding days_from_civil_unfold Let_def s mi using parts d by simp
qed

lemma civil_days_inverse:
  assumes "validate_date y m d = Ok ()"
  shows "civil_from_days (days_from_civil y m d) = (int y, int m, int d)"
proof -
  define s where "s = int y - of_bool (m \<le> 2)"
  obtain k where "days_in_month y m = Some k" using assms by (auto simp: validate_date_Ok)
  note mi = days_in_month_cases [OF this]
  have s: "s mod 400 + s div 400 * 400 = s" by simp
  have m: "10 \<le> month_index m \<longleftrightarrow> m \<le> 2"
    "(if month_index m < 10 then month_index m + 3 else month_index m - 9) = int m"
    using mi by (auto simp: month_index_def)
  show ?thesis
    unfolding civil_parts_from_days [OF valid_date_parts [OF assms]] s_def [symmetric] s m
    by (simp add: s_def)
qed

lemma days_civil_inverse:
  assumes "civil_from_days n = (y, m, d)" and "0 \<le> y"
  shows "validate_date (nat y) (nat m) (nat d) = Ok ()" and "days_from_civil (nat y) (nat m) (nat d) = n"
    and "0 < m" and "0 < d"
proof -
  obtain era yoe mp dd where parts: "civil_parts n era yoe mp dd" using civil_parts_exist by blast
  note eqs = civil_parts_from_days [OF parts, unfolded assms(1)]
  show "validate_date (nat y) (nat m) (nat d) = Ok ()" and "days_from_civil (nat y) (nat m) (nat d) = n"
    using parts_valid_date [OF parts] eqs assms(2) by simp_all
  show "0 < m" and "0 < d" using eqs parts by (auto simp: civil_parts_def)
qed

lemma civil_year_range:
  assumes "civil_from_days n = (y, m, d)"
  shows "0 \<le> y \<and> y \<le> 9999 \<longleftrightarrow> MIN_EPOCH_DAYS \<le> n \<and> n \<le> MAX_EPOCH_DAYS"
proof -
  obtain era yoe mp dd where parts: "civil_parts n era yoe mp dd" using civil_parts_exist by blast
  note p = parts [unfolded civil_parts_def]
  define doe where "doe = year_start yoe + (153 * mp + 2) div 5 + dd"
  have y: "y = yoe + era * 400 + of_bool (10 \<le> mp)"
    using civil_parts_from_days [OF parts] assms by simp
  have n: "n = era * 146097 + doe - 719468" using p by (simp add: doe_def)
  have doe: "0 \<le> doe" "doe < 146097"
    using p year_start_nonneg [of yoe] year_end_bounds(2) [of yoe] by (auto simp: doe_def)
  have last: "146037 \<le> doe \<longleftrightarrow> yoe = 399 \<and> 10 \<le> mp"
  proof (cases "yoe = 399")
    case True
    have start: "year_start 399 = 145731" by (simp add: year_start_def)
    show ?thesis
    proof (cases "10 \<le> mp")
      case True
      then have "(153 * 10 + 2) div 5 \<le> (153 * mp + 2) div 5" by (intro zdiv_mono1) auto
      then show ?thesis using \<open>yoe = 399\<close> True start p by (simp add: doe_def)
    next
      case False
      then have "(153 * (mp + 1) + 2) div 5 \<le> (153 * 10 + 2) div 5" by (intro zdiv_mono1) auto
      then show ?thesis using \<open>yoe = 399\<close> False start p by (simp add: doe_def)
    qed
  next
    case False
    then have "year_end yoe \<le> year_start 399"
      using p by (auto simp: year_end_def intro: year_start_mono)
    then show ?thesis using False p by (simp add: doe_def year_start_def)
  qed
  have lower: "0 \<le> y \<longleftrightarrow> MIN_EPOCH_DAYS \<le> n"
  proof (cases "era = - 1")
    case True
    then show ?thesis using last p y n by (auto simp: MIN_EPOCH_DAYS_def)
  next
    case False
    then consider "0 \<le> era" | "era \<le> - 2" by linarith
    then show ?thesis using doe p y n by cases (auto simp: MIN_EPOCH_DAYS_def)
  qed
  have upper: "y \<le> 9999 \<longleftrightarrow> n \<le> MAX_EPOCH_DAYS"
  proof (cases "era = 24")
    case True
    then show ?thesis using last p y n by (auto simp: MAX_EPOCH_DAYS_def)
  next
    case False
    then consider "era \<le> 23" | "25 \<le> era" by linarith
    then show ?thesis using doe p y n by cases (auto simp: MAX_EPOCH_DAYS_def)
  qed
  from lower upper show ?thesis by simp
qed

section \<open>Fixed-width digit fields\<close>

lemma digit_val_inject:
  "is_ascii_digit c \<Longrightarrow> is_ascii_digit e \<Longrightarrow> digit_val c = digit_val e \<Longrightarrow> c = e"
proof -
  assume "is_ascii_digit c" "is_ascii_digit e" "digit_val c = digit_val e"
  then have "of_char c = (of_char e :: nat)"
    unfolding is_ascii_digit_def digit_val_def Let_def by linarith
  then show ?thesis by (simp only: of_char_eq_iff)
qed

lemma digits_value_inject:
  assumes "list_all is_ascii_digit xs" "list_all is_ascii_digit ys" "length xs = length ys"
    "digits_value xs = digits_value ys"
  shows "xs = ys"
  using assms
proof (induction xs arbitrary: ys)
  case (Cons x xs)
  then obtain y zs where ys: "ys = y # zs" by (cases ys) auto
  have len: "length zs = length xs" using Cons.prems ys by simp
  have small: "digits_value xs < 10 ^ length xs" "digits_value zs < 10 ^ length xs"
    using digits_value_less [of xs] digits_value_less [of zs] Cons.prems ys len by auto
  have eq: "digit_val x * 10 ^ length xs + digits_value xs = digit_val y * 10 ^ length xs + digits_value zs"
    using Cons.prems(4) ys len by (simp add: digits_value_Cons)
  have "digit_val x = digit_val y"
    using arg_cong [OF eq, of "\<lambda>v. v div 10 ^ length xs"] small by simp
  moreover from this eq have "digits_value xs = digits_value zs" by simp
  ultimately show ?case using Cons.IH [of zs] Cons.prems ys digit_val_inject by auto
qed simp

lemma format_padded_field:
  assumes "0 \<le> v" "v < 10 ^ w" "0 < w"
  shows "length (format_padded w v) = w" "list_all is_ascii_digit (format_padded w v)"
    "digits_value (format_padded w v) = nat v"
proof -
  have "nat v < 10 ^ w" using assms(1,2) by (simp add: nat_less_iff)
  then have "length (nat_digits (nat v)) \<le> w" using assms(3) by (rule nat_digits_length)
  then show "length (format_padded w v) = w" using assms(1) by (simp add: format_padded_def pad_zero_length)
  show "list_all is_ascii_digit (format_padded w v)" "digits_value (format_padded w v) = nat v"
    using assms(1)
    by (simp_all add: format_padded_def pad_zero_digits nat_digits_digits pad_zero_value nat_digits_value)
qed

lemma format_padded_of_digits:
  assumes "list_all is_ascii_digit ds" "length ds = n" "0 < n"
  shows "format_padded n (int (digits_value ds)) = ds"
proof (rule digits_value_inject)
  have "int (digits_value ds) < 10 ^ n"
    using digits_value_less [OF assms(1)] assms(2) by (simp flip: of_nat_less_iff)
  note f = format_padded_field [OF of_nat_0_le_iff this assms(3)]
  show "list_all is_ascii_digit (format_padded n (int (digits_value ds)))"
    "length (format_padded n (int (digits_value ds))) = length ds"
    "digits_value (format_padded n (int (digits_value ds))) = digits_value ds"
    using f assms(2) by simp_all
qed (rule assms(1))

lemma parse_digits_unfold:
  "parse_digits s i n =
     (if i + n \<le> length s \<and> list_all is_ascii_digit (take n (drop i s))
      then Some (digits_value (take n (drop i s))) else None)"
  by (simp add: parse_digits_def Let_def digits_value_def)

lemma parse_digits_Some:
  "parse_digits s i n = Some v \<longleftrightarrow>
     i + n \<le> length s \<and> list_all is_ascii_digit (take n (drop i s)) \<and> v = digits_value (take n (drop i s))"
  by (auto simp: parse_digits_def Let_def digits_value_def)

section \<open>Dates as text\<close>

lemma validate_date_bounds: "validate_date y m d = Ok () \<Longrightarrow> m \<le> 12 \<and> d \<le> 31"
  by (auto simp: validate_date_Ok days_in_month_def split: if_splits)

lemma date_fields:
  assumes "civil_from_days n = (y, m, d)" and "0 \<le> y" and "y \<le> 9999"
  shows "0 \<le> m" "m < 10 ^ 2" "0 \<le> d" "d < 10 ^ 2" "y < 10 ^ 4"
  using days_civil_inverse [OF assms(1,2)] validate_date_bounds [of "nat y" "nat m" "nat d"] assms(3) by auto

lemma digit_field_cases:
  "length f = 2 \<Longrightarrow> \<exists>a b. f = [a, b]"
  "length f = 4 \<Longrightarrow> \<exists>a b c d. f = [a, b, c, d]"
  "length f = 6 \<Longrightarrow> \<exists>a b c d e g. f = [a, b, c, d, e, g]"
  by (auto simp: eval_nat_numeral length_Suc_conv)

lemma date_text_parse:
  assumes "validate_date (digits_value A) (digits_value B) (digits_value C) = Ok ()"
    and "length A = 4" "length B = 2" "length C = 2"
    and "list_all is_ascii_digit A" "list_all is_ascii_digit B" "list_all is_ascii_digit C"
  shows "trading_date_parse (A @ ''-'' @ B @ ''-'' @ C) =
    trading_date_from_epoch_days (days_from_civil (digits_value A) (digits_value B) (digits_value C))"
proof -
  obtain a b c d e f g h where "A = [a, b, c, d]" "B = [e, f]" "C = [g, h]"
    using assms(2-4) digit_field_cases by metis
  then show ?thesis
    using assms(1,5-7)
    by (simp add: trading_date_parse_def byte_at_def parse_digits_unfold)
qed

text \<open>
  Trading-date text is exact. A string parses to a day count precisely when the count lies in
  \<open>0000-01-01 ..= 9999-12-31\<close> and the string is the date \<open>Display\<close> prints for it; so parsing and
  printing are inverse bijections between the supported days and their Gregorian \<open>YYYY-MM-DD\<close> texts.
\<close>

theorem trading_date_text_exact:
  "trading_date_parse s = Ok n \<longleftrightarrow>
     MIN_EPOCH_DAYS \<le> n \<and> n \<le> MAX_EPOCH_DAYS \<and> s = trading_date_to_string n"
proof
  assume ok: "trading_date_parse s = Ok n"
  define A B C where "A = take 4 s" and "B = take 2 (drop 5 s)" and "C = take 2 (drop 8 s)"
  have len: "length s = 10" "s ! 4 = CHR ''-''" "s ! 7 = CHR ''-''"
    using ok by (auto simp: trading_date_parse_def byte_at_def split: if_splits)
  have fields: "list_all is_ascii_digit A" "list_all is_ascii_digit B" "list_all is_ascii_digit C"
      "validate_date (digits_value A) (digits_value B) (digits_value C) = Ok ()"
      "trading_date_from_epoch_days (days_from_civil (digits_value A) (digits_value B) (digits_value C)) = Ok n"
    using ok by (auto simp: trading_date_parse_def parse_digits_Some A_def B_def C_def split: if_splits)
  have lens: "length A = 4" "length B = 2" "length C = 2" using len by (simp_all add: A_def B_def C_def)
  have s: "s = A @ ''-'' @ B @ ''-'' @ C"
  proof (rule nth_equalityI)
    show "length s = length (A @ ''-'' @ B @ ''-'' @ C)" using len lens by simp
    show "s ! i = (A @ ''-'' @ B @ ''-'' @ C) ! i" if "i < length s" for i
    proof -
      have "i \<in> {0,1,2,3,4,5,6,7,8,9}"
        using that len(1) unfolding insert_iff empty_iff by presburger
      then show ?thesis using len by (auto simp: A_def B_def C_def nth_append)
    qed
  qed
  have n: "n = days_from_civil (digits_value A) (digits_value B) (digits_value C)"
      and range: "MIN_EPOCH_DAYS \<le> n" "n \<le> MAX_EPOCH_DAYS"
    using fields(5) by (auto simp: trading_date_from_epoch_days_def split: if_splits)
  have "civil_from_days n = (int (digits_value A), int (digits_value B), int (digits_value C))"
    unfolding n using fields(4) by (rule civil_days_inverse)
  moreover have "format_padded 4 (int (digits_value A)) = A" "format_padded 2 (int (digits_value B)) = B"
      "format_padded 2 (int (digits_value C)) = C"
    using fields(1-3) lens by (auto intro!: format_padded_of_digits)
  ultimately have "trading_date_to_string n = s" by (simp add: trading_date_to_string_def s)
  then show "MIN_EPOCH_DAYS \<le> n \<and> n \<le> MAX_EPOCH_DAYS \<and> s = trading_date_to_string n"
    using range by simp
next
  assume *: "MIN_EPOCH_DAYS \<le> n \<and> n \<le> MAX_EPOCH_DAYS \<and> s = trading_date_to_string n"
  obtain y m d where c: "civil_from_days n = (y, m, d)" by (cases "civil_from_days n")
  have y: "0 \<le> y" "y \<le> 9999" using civil_year_range [OF c] * by auto
  note fields = format_padded_field [OF y(1) date_fields(5) [OF c y]]
    format_padded_field [OF date_fields(1,2) [OF c y]] format_padded_field [OF date_fields(3,4) [OF c y]]
  have "s = format_padded 4 y @ ''-'' @ format_padded 2 m @ ''-'' @ format_padded 2 d"
    using * c by (simp add: trading_date_to_string_def)
  then have "trading_date_parse s = trading_date_from_epoch_days (days_from_civil (nat y) (nat m) (nat d))"
    using date_text_parse [of "format_padded 4 y" "format_padded 2 m" "format_padded 2 d"] fields
      days_civil_inverse(1) [OF c y(1)] by simp
  then show "trading_date_parse s = Ok n"
    using * days_civil_inverse(2) [OF c y(1)] by (simp add: trading_date_from_epoch_days_def)
qed

section \<open>Instants as text\<close>

lemma digit_not_marker: "is_ascii_digit c \<Longrightarrow> \<not> is_offset_marker c"
  by (auto simp: is_ascii_digit_def is_offset_marker_def)

lemma foldl_digits_int:
  "foldl (\<lambda>v c. v * 10 + int (digit_val c)) (int a) ds = int (foldl (\<lambda>v c. v * 10 + digit_val c) a ds)"
proof (induction ds arbitrary: a)
  case (Cons d ds)
  show ?case using Cons.IH [of "a * 10 + digit_val d"] by simp
qed simp

text \<open>What the parser computes on text of the shape the formatter prints.\<close>

lemma iso_text_parse:
  assumes lens: "length A = 4" "length B = 2" "length C = 2" "length H = 2" "length M = 2" "length S = 2"
      "length U = 6" "length P = 2" "length Q = 2"
    and digits: "list_all is_ascii_digit (A @ B @ C @ H @ M @ S @ U @ P @ Q)"
    and date: "validate_date (digits_value A) (digits_value B) (digits_value C) = Ok ()"
    and time: "digits_value H \<le> 23" "digits_value M \<le> 59" "digits_value S \<le> 59"
    and off: "digits_value P \<le> 23" "digits_value Q \<le> 59" and sg: "sg = CHR ''-'' \<or> sg = CHR ''+''"
    and days: "MIN_EPOCH_DAYS \<le> days_from_civil (digits_value A) (digits_value B) (digits_value C)"
      "days_from_civil (digits_value A) (digits_value B) (digits_value C) \<le> MAX_EPOCH_DAYS"
  shows "parse_match_time
      (A @ ''-'' @ B @ ''-'' @ C @ ''T'' @ H @ '':'' @ M @ '':'' @ S @ ''.'' @ U @ [sg] @ P @ '':'' @ Q) =
    Ok ((days_from_civil (digits_value A) (digits_value B) (digits_value C) * 86400 +
          int (digits_value H) * 3600 + int (digits_value M) * 60 + int (digits_value S) -
          (if sg = CHR ''-'' then - 1 else 1) * (int (digits_value P) * 3600 + int (digits_value Q) * 60)) * 1000000 +
        int (digits_value U))"
proof -
  define s where "s = A @ ''-'' @ B @ ''-'' @ C @ ''T'' @ H @ '':'' @ M @ '':'' @ S @ ''.'' @ U @ [sg] @ P @ '':'' @ Q"
  obtain a1 a2 a3 a4 b1 b2 c1 c2 h1 h2 m1 m2 s1 s2 where
    f1: "A = [a1, a2, a3, a4]" "B = [b1, b2]" "C = [c1, c2]" "H = [h1, h2]" "M = [m1, m2]" "S = [s1, s2]"
    using lens digit_field_cases by metis
  obtain u1 u2 u3 u4 u5 u6 p1 p2 q1 q2 where
    f2: "U = [u1, u2, u3, u4, u5, u6]" "P = [p1, p2]" "Q = [q1, q2]"
    using lens digit_field_cases by metis
  note fs = f1 f2
  have marker: "is_offset_marker sg" using sg by (auto simp: is_offset_marker_def)
  have nomarker: "\<not> is_offset_marker CHR ''.''" by (simp add: is_offset_marker_def)
  have offset: "parse_offset s = Ok (26, (if sg = CHR ''-'' then - 1 else 1) *
      (int (digits_value P) * 3600 + int (digits_value Q) * 60))"
    using digits sg marker nomarker off unfolding s_def
    by (auto simp: fs parse_offset_def Let_def byte_at_def parse_digits_unfold digit_not_marker)
  have fraction: "parse_fraction s 26 = Ok (int (digits_value U))"
    using digits foldl_digits_int [of 0 U] unfolding s_def
    by (simp add: fs parse_fraction_def byte_at_def digits_value_def)
  define n where "n = days_from_civil (digits_value A) (digits_value B) (digits_value C)"
  define o' where "o' = (if sg = CHR ''-'' then - 1 else 1) * (int (digits_value P) * 3600 + int (digits_value Q) * 60)"
  have o': "- 86400 \<le> o'" "o' \<le> 86400" using off by (auto simp: o'_def)
  have micro: "0 \<le> int (digits_value U)" "int (digits_value U) < 1000000"
    using digits_value_less [of U] digits lens by auto
  have n: "- 719528 \<le> n" "n \<le> 2932896" using days by (simp_all add: n_def MIN_EPOCH_DAYS_def MAX_EPOCH_DAYS_def)
  have sums: "in_i64 (n * SECONDS_PER_DAY)" "in_i64 (n * SECONDS_PER_DAY + int (digits_value H) * 3600)"
    "in_i64 (n * SECONDS_PER_DAY + int (digits_value H) * 3600 + int (digits_value M) * 60)"
    "in_i64 (n * SECONDS_PER_DAY + int (digits_value H) * 3600 + int (digits_value M) * 60 + int (digits_value S))"
    "in_i64 (n * SECONDS_PER_DAY + int (digits_value H) * 3600 + int (digits_value M) * 60 + int (digits_value S) - o')"
    "in_i64 ((n * SECONDS_PER_DAY + int (digits_value H) * 3600 + int (digits_value M) * 60 + int (digits_value S) - o')
       * MICROS_PER_SECOND)"
    "in_i64 ((n * SECONDS_PER_DAY + int (digits_value H) * 3600 + int (digits_value M) * 60 + int (digits_value S) - o')
       * MICROS_PER_SECOND + int (digits_value U))"
    using n time o' micro by (auto simp: in_i64_def SECONDS_PER_DAY_def MICROS_PER_SECOND_def)
  have shape: "\<not> (length s < 20 \<or> byte_at s 4 \<noteq> Some (CHR ''-'') \<or> byte_at s 7 \<noteq> Some (CHR ''-'') \<or>
      byte_at s 10 \<noteq> Some (CHR ''T'') \<or> byte_at s 13 \<noteq> Some (CHR '':'') \<or> byte_at s 16 \<noteq> Some (CHR '':''))"
    unfolding s_def by (simp add: fs byte_at_def)
  have fields: "parse_digits s 0 4 = Some (digits_value A)" "parse_digits s 5 2 = Some (digits_value B)"
    "parse_digits s 8 2 = Some (digits_value C)" "parse_digits s 11 2 = Some (digits_value H)"
    "parse_digits s 14 2 = Some (digits_value M)" "parse_digits s 17 2 = Some (digits_value S)"
    using digits unfolding s_def by (simp_all add: fs parse_digits_unfold)
  have "parse_match_time s = Ok ((n * SECONDS_PER_DAY + int (digits_value H) * 3600 + int (digits_value M) * 60 +
      int (digits_value S) - o') * MICROS_PER_SECOND + int (digits_value U))"
    unfolding parse_match_time_def if_not_P [OF shape] fields
    using date time offset fraction sums
    by (simp add: not_less checked_i64_def Let_def flip: n_def o'_def)
  then show ?thesis unfolding s_def n_def o'_def SECONDS_PER_DAY_def MICROS_PER_SECOND_def .
qed

lemma split_instant:
  fixes t :: int
  defines "ls \<equiv> t div 1000000"
  defines "sec \<equiv> ls mod 86400"
  shows "t = (ls div 86400 * 86400 + sec div 3600 * 3600 + sec mod 3600 div 60 * 60 + sec mod 60) * 1000000 +
      t mod 1000000"
    and "0 \<le> sec div 3600" "sec div 3600 \<le> 23" "0 \<le> sec mod 3600 div 60" "sec mod 3600 div 60 \<le> 59"
    and "0 \<le> sec mod 60" "sec mod 60 \<le> 59"
proof -
  have sec: "0 \<le> sec" "sec < 86400" by (simp_all add: sec_def)
  have "sec mod 3600 mod 60 = sec mod 60" by (rule mod_mod_cancel) simp
  then have "sec div 3600 * 3600 + sec mod 3600 div 60 * 60 + sec mod 60 = sec"
    using div_mult_mod_eq [of sec 3600] div_mult_mod_eq [of "sec mod 3600" 60] by linarith
  then have "ls div 86400 * 86400 + sec div 3600 * 3600 + sec mod 3600 div 60 * 60 + sec mod 60 = ls"
    by (simp add: sec_def add.assoc)
  then show "t = (ls div 86400 * 86400 + sec div 3600 * 3600 + sec mod 3600 div 60 * 60 + sec mod 60) * 1000000 +
      t mod 1000000" by (simp add: ls_def)
  show "0 \<le> sec div 3600" "sec div 3600 \<le> 23" "0 \<le> sec mod 3600 div 60" "sec mod 3600 div 60 \<le> 59"
    "0 \<le> sec mod 60" "sec mod 60 \<le> 59"
    using sec zdiv_mono1 [of sec 86399 3600] zdiv_mono1 [of "sec mod 3600" 3599 60]
      pos_mod_bound [of 3600 sec] pos_mod_bound [of 60 sec]
    by (auto simp: pos_imp_zdiv_nonneg_iff)
qed

lemma iso_fields_parse:
  assumes c: "civil_from_days n = (y, m, d)" and y: "0 \<le> y" "y \<le> 9999"
    and t: "0 \<le> hh" "hh \<le> 23" "0 \<le> mm" "mm \<le> 59" "0 \<le> ss" "ss \<le> 59" "0 \<le> uu" "uu < 10 ^ 6"
    and z: "0 \<le> oh" "oh \<le> 23" "0 \<le> om" "om \<le> 59" and sg: "sg = CHR ''-'' \<or> sg = CHR ''+''"
  shows "parse_match_time (format_padded 4 y @ ''-'' @ format_padded 2 m @ ''-'' @ format_padded 2 d @
      ''T'' @ format_padded 2 hh @ '':'' @ format_padded 2 mm @ '':'' @ format_padded 2 ss @ ''.'' @
      format_padded 6 uu @ [sg] @ format_padded 2 oh @ '':'' @ format_padded 2 om) =
    Ok ((n * 86400 + hh * 3600 + mm * 60 + ss - (if sg = CHR ''-'' then - 1 else 1) * (oh * 3600 + om * 60)) * 1000000 + uu)"
proof -
  note date = days_civil_inverse [OF c y(1)] and df = date_fields [OF c y]
  have range: "MIN_EPOCH_DAYS \<le> n" "n \<le> MAX_EPOCH_DAYS" using civil_year_range [OF c] y by auto
  have le: "hh < 10 ^ 2" "mm < 10 ^ 2" "ss < 10 ^ 2" "oh < 10 ^ 2" "om < 10 ^ 2" using t z by simp_all
  note f = format_padded_field [OF y(1) df(5)] format_padded_field [OF df(1,2)]
    format_padded_field [OF df(3,4)] format_padded_field [OF t(1) le(1)]
    format_padded_field [OF t(3) le(2)] format_padded_field [OF t(5) le(3)]
    format_padded_field [OF t(7,8)] format_padded_field [OF z(1) le(4)] format_padded_field [OF z(3) le(5)]
  define A B C H M S where abc: "A = format_padded 4 y" "B = format_padded 2 m" "C = format_padded 2 d"
    "H = format_padded 2 hh" "M = format_padded 2 mm" "S = format_padded 2 ss"
  define U P Q where upq: "U = format_padded 6 uu" "P = format_padded 2 oh" "Q = format_padded 2 om"
  note f = f [folded abc upq]
  have lens: "length A = 4" "length B = 2" "length C = 2" "length H = 2" "length M = 2" "length S = 2"
      "length U = 6" "length P = 2" "length Q = 2" using f by simp_all
  have digits: "list_all is_ascii_digit (A @ B @ C @ H @ M @ S @ U @ P @ Q)" using f by simp
  have vals: "digits_value A = nat y" "digits_value B = nat m" "digits_value C = nat d"
      "digits_value H = nat hh" "digits_value M = nat mm" "digits_value S = nat ss"
      "digits_value U = nat uu" "digits_value P = nat oh" "digits_value Q = nat om"
    using f by simp_all
  have small: "digits_value H \<le> 23" "digits_value M \<le> 59" "digits_value S \<le> 59" "digits_value P \<le> 23"
      "digits_value Q \<le> 59" unfolding vals using t z by simp_all
  have valid: "validate_date (digits_value A) (digits_value B) (digits_value C) = Ok ()"
    and days: "days_from_civil (digits_value A) (digits_value B) (digits_value C) = n"
    using date by (simp_all add: vals)
  note range' = range [folded days]
  show ?thesis
    unfolding abc [symmetric] upq [symmetric] iso_text_parse [OF lens digits valid small sg range'] days
    unfolding vals using t z by simp
qed

lemma to_iso8601_text:
  fixes t offset :: int
  defines "lm \<equiv> t + offset * 60 * 1000000"
  defines "sec \<equiv> lm div 1000000 mod 86400"
  assumes "civil_from_days (lm div 1000000 div 86400) = (y, m, d)"
  shows "to_iso8601 t offset =
    (if in_i64 lm \<and> 0 \<le> y \<and> y \<le> 9999
     then Ok (format_padded 4 y @ ''-'' @ format_padded 2 m @ ''-'' @ format_padded 2 d @
      ''T'' @ format_padded 2 (sec div 3600) @ '':'' @ format_padded 2 (sec mod 3600 div 60) @ '':'' @
      format_padded 2 (sec mod 60) @ ''.'' @ format_padded 6 (lm mod 1000000) @
      [if offset < 0 then CHR ''-'' else CHR ''+''] @
      format_padded 2 (\<bar>offset\<bar> div 60) @ '':'' @ format_padded 2 (\<bar>offset\<bar> mod 60))
     else Err MtOutOfRange)"
proof (cases "in_i64 lm")
  case True
  have "to_iso8601 t offset = (case civil_from_days (lm div 1000000 div 86400) of (year, month, day) \<Rightarrow>
      if \<not> (0 \<le> year \<and> year \<le> 9999) then Err MtOutOfRange
      else Ok (format_padded 4 year @ ''-'' @ format_padded 2 month @ ''-'' @ format_padded 2 day @
      ''T'' @ format_padded 2 (sec div 3600) @ '':'' @ format_padded 2 (sec mod 3600 div 60) @ '':'' @
      format_padded 2 (sec mod 60) @ ''.'' @ format_padded 6 (lm mod 1000000) @
      [if offset < 0 then CHR ''-'' else CHR ''+''] @
      format_padded 2 (\<bar>offset\<bar> div 60) @ '':'' @ format_padded 2 (\<bar>offset\<bar> mod 60)))"
    using True unfolding to_iso8601_def MICROS_PER_SECOND_def SECONDS_PER_DAY_def Let_def lm_def sec_def
    by (simp only: checked_i64_def if_True ok_or.simps rbind.simps)
  then show ?thesis unfolding assms(3) using True by (simp only: prod.case if_not_P simp_thms) simp
next
  case False
  then show ?thesis
    unfolding to_iso8601_def MICROS_PER_SECOND_def SECONDS_PER_DAY_def Let_def lm_def
    by (simp only: checked_i64_def if_False ok_or.simps rbind.simps simp_thms)
qed

text \<open>
  C36: instants survive their text form. For every \<open>i64\<close> microsecond count and every UTC offset the
  offset type accepts, the ISO-8601 text that \<open>to_iso8601\<close> prints, whenever it prints one, parses back
  to the same instant.
\<close>

theorem iso8601_roundtrip:
  assumes "in_i64 t" and "utc_offset_new offset = Ok offset" and "to_iso8601 t offset = Ok s"
  shows "parse_match_time s = Ok t"
proof -
  define lm where "lm = t + offset * 60 * 1000000"
  define sec where "sec = lm div 1000000 mod 86400"
  obtain y m d where c: "civil_from_days (lm div 1000000 div 86400) = (y, m, d)"
    by (cases "civil_from_days (lm div 1000000 div 86400)")
  note iso = to_iso8601_text [of t offset, folded lm_def, OF c, folded sec_def, unfolded assms(3)]
  have y: "0 \<le> y" "y \<le> 9999" using iso by (auto split: if_splits)
  note parts = split_instant [of lm, folded sec_def]
  have off: "\<bar>offset\<bar> \<le> 1439"
    using assms(2) by (auto simp: utc_offset_new_def MAX_UTC_OFFSET_MINUTES_def split: if_splits)
  have offp: "0 \<le> \<bar>offset\<bar> div 60" "\<bar>offset\<bar> div 60 \<le> 23" "0 \<le> \<bar>offset\<bar> mod 60" "\<bar>offset\<bar> mod 60 \<le> 59"
    using off pos_mod_bound [of 60 "\<bar>offset\<bar>"] zdiv_mono1 [of "\<bar>offset\<bar>" 1439 60]
    by (auto simp: pos_imp_zdiv_nonneg_iff)
  have micro: "0 \<le> lm mod 1000000" "lm mod 1000000 < 10 ^ 6" by simp_all
  define sg where "sg = (if offset < 0 then CHR ''-'' else CHR ''+'')"
  have sg: "sg = CHR ''-'' \<or> sg = CHR ''+''" by (simp add: sg_def)
  have "\<bar>offset\<bar> div 60 * 3600 + \<bar>offset\<bar> mod 60 * 60 = \<bar>offset\<bar> * 60"
    using div_mult_mod_eq [of "\<bar>offset\<bar>" 60] by linarith
  then have sum: "(if sg = CHR ''-'' then - 1 else 1) * (\<bar>offset\<bar> div 60 * 3600 + \<bar>offset\<bar> mod 60 * 60) = offset * 60"
    by (simp add: sg_def)
  have "parse_match_time s = Ok ((lm div 1000000 div 86400 * 86400 + sec div 3600 * 3600 +
      sec mod 3600 div 60 * 60 + sec mod 60 - offset * 60) * 1000000 + lm mod 1000000)"
    using iso iso_fields_parse [OF c y parts(2-7) micro offp sg] y
    unfolding sum sg_def [symmetric] by (simp split: if_splits)
  moreover have "(x - offset * 60) * 1000000 + r = t" if "lm = x * 1000000 + r" for x r
    using that lm_def by (simp add: left_diff_distrib)
  ultimately show ?thesis using parts(1) by metis
qed

theorem iso8601_roundtrip_witness:
  "\<exists>s. to_iso8601 1728000000123456 480 = Ok s \<and> parse_match_time s = Ok 1728000000123456"
proof -
  have c: "civil_from_days ((1728000000123456 + 480 * 60 * 1000000) div 1000000 div 86400) = (2024, 10, 4)"
  proof -
    have "civil_from_days 20000 = (2024, 10, 4)" by code_simp
    then show ?thesis by simp
  qed
  have "\<exists>s. to_iso8601 1728000000123456 480 = Ok s"
    unfolding to_iso8601_text [OF c] by (simp add: in_i64_def)
  then obtain s where s: "to_iso8601 1728000000123456 480 = Ok s" by blast
  moreover have "parse_match_time s = Ok 1728000000123456"
    using iso8601_roundtrip [OF _ _ s]
    by (simp add: in_i64_def utc_offset_new_def MAX_UTC_OFFSET_MINUTES_def)
  ultimately show ?thesis by blast
qed

end
