(* ===== verification/Codec.thy ===== *)
theory Codec
  imports Events
begin

text \<open>
  The canonical event frame: the encoders of \<open>crates/market-types/src/canonical.rs\<close> (and those of
  \<open>signal.rs\<close> and \<open>event.rs\<close>) and the validating \<open>CanonicalParser\<close> of \<open>event.rs\<close>. An encoder that
  appends to a \<open>Vec<u8>\<close> returns the bytes it appends; a parser method consumes a prefix of the
  remaining bytes. Each value type is an instance of the locale \<open>codec\<close>, whose single law says that
  the parser accepts exactly the encodings of well-formed values.
\<close>

section \<open>Encoding\<close>

datatype canonical_encoding_error = LengthOverflow | InvalidMatchTime

type_synonym encoded = "(bytes, canonical_encoding_error) result"

text \<open>Appending one piece after the other; the first error ends the encoding.\<close>

fun append_all :: "encoded list \<Rightarrow> encoded" where
  "append_all [] = Ok []"
| "append_all (m # ms) = rbind m (\<lambda>b. rbind (append_all ms) (\<lambda>bs. Ok (b @ bs)))"

definition push :: "nat \<Rightarrow> encoded" where "push n = Ok [word_of_nat n]"

definition append_length :: "nat \<Rightarrow> encoded" where
  "append_length n = (if in_u32 n then Ok (be_bytes 4 n) else Err LengthOverflow)"

definition append_bytes :: "bytes \<Rightarrow> encoded" where
  "append_bytes b = append_all [append_length (length b), Ok b]"

fun append_option :: "('a \<Rightarrow> encoded) \<Rightarrow> 'a option \<Rightarrow> encoded" where
  "append_option enc None = push 0"
| "append_option enc (Some x) = append_all [push 1, enc x]"

definition append_u64 :: "nat \<Rightarrow> encoded" where "append_u64 n = Ok (be_bytes 8 n)"

definition append_optional_u64 :: "nat option \<Rightarrow> encoded" where
  "append_optional_u64 n = append_option append_u64 n"

definition append_price :: "price \<Rightarrow> encoded" where
  "append_price p = Ok (decimal_to_canonical_bytes p)"

definition append_quantity :: "quantity \<Rightarrow> encoded" where
  "append_quantity q = Ok (quantity_to_canonical_bytes q)"

definition append_volume :: "volume \<Rightarrow> encoded" where
  "append_volume v = Ok (volume_to_canonical_bytes v)"

definition append_level :: "book_level \<Rightarrow> encoded" where
  "append_level l = append_all [append_price (bl_price l), append_quantity (bl_quantity l)]"

definition append_side :: "book_side \<Rightarrow> encoded" where
  "append_side s =
     append_all (append_option append_quantity (bs_market_order_quantity s) #
       map (append_option append_level) (bs_slots s))"

definition append_book :: "complete_book \<Rightarrow> encoded" where
  "append_book b = append_all [append_side (cb_bids b), append_side (cb_asks b)]"

definition append_trade :: "observed_trade \<Rightarrow> encoded" where
  "append_trade t =
     append_all [append_price (ot_price t), append_quantity (ot_quantity t),
       push (trade_kind_discriminant (ot_kind t))]"

fun append_annotations :: "market_annotations \<Rightarrow> encoded" where
  "append_annotations AnnNone = append_all [push (annotations_discriminant AnnNone)]"
| "append_annotations (TwseQuote a) =
     append_all [push (annotations_discriminant (TwseQuote a)), Ok [status_flags_raw a], Ok [limit_flags_raw a]]"
| "append_annotations (TpexQuote a) =
     append_all [push (annotations_discriminant (TpexQuote a)), Ok [status_flags_raw a], Ok [limit_flags_raw a]]"

fun append_unknown_value :: "unknown_value \<Rightarrow> encoded" where
  "append_unknown_value (UvUnsigned n) = Ok (be_bytes 8 n)"
| "append_unknown_value (UvSigned i) = Ok (be_bytes_signed 8 i)"
| "append_unknown_value (UvDecimal d) = Ok (decimal_to_canonical_bytes d)"
| "append_unknown_value (UvText s) = append_bytes (as_bytes s)"
| "append_unknown_value (UvBytes b) = append_bytes b"

definition append_unknown :: "unknown_value \<Rightarrow> encoded" where
  "append_unknown u = append_all [push (unknown_discriminant u), append_unknown_value u]"

fun append_observation :: "('a \<Rightarrow> encoded) \<Rightarrow> 'a observation \<Rightarrow> encoded" where
  "append_observation enc (Set x) = append_all [push 1, enc x]"
| "append_observation enc (Unknown u) = append_all [push 3, append_unknown u]"
| "append_observation enc NoObservation = push 0"
| "append_observation enc Clear = push 2"

fun append_evidence :: "('a \<Rightarrow> nat) \<Rightarrow> 'a auction_evidence \<Rightarrow> encoded" where
  "append_evidence disc EvNoObservation = push 0"
| "append_evidence disc (EvKnown x) = append_all [push 1, push (disc x)]"
| "append_evidence disc EvUnknown = push 2"

definition append_auction_observation :: "auction_observation \<Rightarrow> encoded" where
  "append_auction_observation ob =
     append_all [append_evidence purpose_discriminant (ao_purpose ob),
       append_evidence of_bool (ao_delayed ob), append_evidence of_bool (ao_disposal ob),
       append_evidence direction_discriminant (ao_direction ob)]"

definition append_market_signal :: "market_signal \<Rightarrow> encoded" where
  "append_market_signal s =
     append_all (push (signal_discriminant s) #
       (case signal_auction s of None \<Rightarrow> [] | Some ob \<Rightarrow> [append_auction_observation ob]))"

definition append_indicative_auction :: "indicative_auction \<Rightarrow> encoded" where
  "append_indicative_auction a =
     append_all [append_auction_observation (ia_observation a),
       append_observation append_price (ia_price a), append_observation append_quantity (ia_quantity a),
       append_observation append_book (ia_book a),
       append_observation append_volume (ia_cumulative_volume a), append_annotations (ia_annotations a)]"

fun encode_payload :: "event_payload \<Rightarrow> encoded" where
  "encode_payload (PQuoteSnapshot p) =
     append_all [append_book (qs_book p), append_observation append_trade (qs_trade p),
       append_observation append_volume (qs_cumulative_volume p), append_annotations (qs_annotations p),
       append_observation append_market_signal (qs_market_signal p)]"
| "encode_payload (PBookSnapshot p) =
     append_all [append_book (bk_book p), append_annotations (bk_annotations p),
       append_observation append_market_signal (bk_market_signal p)]"
| "encode_payload (PTradeBatch p) =
     append_all [append_length (length (tb_trades p)), append_all (map append_trade (tb_trades p)),
       push (trade_order_discriminant (tb_trade_order p)),
       append_observation append_volume (tb_cumulative_volume p), append_annotations (tb_annotations p),
       append_observation append_market_signal (tb_market_signal p)]"
| "encode_payload (PIndicativeAuction p) = append_indicative_auction p"
| "encode_payload (PMarketStatus p) =
     append_all [append_observation append_volume (ms_cumulative_volume p),
       append_annotations (ms_annotations p),
       append_observation append_market_signal (ms_market_signal p)]"

definition CANONICAL_MAGIC :: bytes where "CANONICAL_MAGIC = as_bytes ''OSME''"

definition to_canonical_bytes :: "domain_event \<Rightarrow> encoded" where
  "to_canonical_bytes e =
     (if \<not> is_utc_iso8601_representable (ev_match_time e) then Err InvalidMatchTime
      else append_all
        [Ok CANONICAL_MAGIC, Ok (be_bytes 2 CANONICAL_EVENT_VERSION), Ok (be_bytes 2 EVENT_SCHEMA_VERSION),
         push (market_discriminant (fst (ev_instrument e))),
         append_bytes (as_bytes (snd (ev_instrument e))),
         Ok (be_bytes_signed 4 (ev_trading_date e)),
         append_bytes (as_bytes (ev_source_format e)),
         Ok (be_bytes_signed 8 (ev_match_time e)),
         append_optional_u64 (ev_source_sequence e),
         push (payload_discriminant (ev_payload e)),
         encode_payload (ev_payload e)])"

section \<open>Decoding\<close>

datatype canonical_decoding_error =
  Truncated | LengthOutOfBounds | UnsupportedHeader | InvalidUtf8 | InvalidValue | TrailingBytes

type_synonym 'a parser = "bytes \<Rightarrow> ('a \<times> bytes, canonical_decoding_error) result"

definition preturn :: "'a \<Rightarrow> 'a parser" where "preturn x bs = Ok (x, bs)"
definition pfail :: "canonical_decoding_error \<Rightarrow> 'a parser" where "pfail e bs = Err e"
definition pbind :: "'a parser \<Rightarrow> ('a \<Rightarrow> 'b parser) \<Rightarrow> 'b parser" where
  "pbind p f bs = rbind (p bs) (\<lambda>(x, rest). f x rest)"

text \<open>\<open>map_err(|_| InvalidValue)?\<close> and \<open>ok_or(InvalidValue)?\<close>.\<close>

definition pcheck :: "('a, 'e) result \<Rightarrow> 'a parser" where
  "pcheck r = (case r of Ok x \<Rightarrow> preturn x | Err e \<Rightarrow> pfail InvalidValue)"
definition pcheck_option :: "'a option \<Rightarrow> 'a parser" where
  "pcheck_option r = (case r of Some x \<Rightarrow> preturn x | None \<Rightarrow> pfail InvalidValue)"

definition p_take :: "nat \<Rightarrow> bytes parser" where
  "p_take n bs = (if n \<le> length bs then Ok (take n bs, drop n bs) else Err Truncated)"
definition p_u8 :: "u8 parser" where "p_u8 = pbind (p_take 1) (\<lambda>b. preturn (hd b))"
definition p_uint :: "nat \<Rightarrow> nat parser" where
  "p_uint n = pbind (p_take n) (\<lambda>b. preturn (of_be_bytes b))"
definition p_int :: "nat \<Rightarrow> int parser" where
  "p_int n = pbind (p_take n) (\<lambda>b. preturn (of_be_bytes_signed b))"

definition p_u16 :: "nat parser" where "p_u16 = p_uint 2"
definition p_u32 :: "nat parser" where "p_u32 = p_uint 4"
definition p_i32 :: "int parser" where "p_i32 = p_int 4"
definition p_u64 :: "nat parser" where "p_u64 = p_uint 8"
definition p_i64 :: "int parser" where "p_i64 = p_int 8"
definition p_i128 :: "int parser" where "p_i128 = p_int 16"

definition p_bytes :: "bytes parser" where "p_bytes = pbind p_u32 p_take"
definition p_string :: "string parser" where
  "p_string = pbind p_bytes (\<lambda>b. if utf8_valid (str_of_bytes b) then preturn (str_of_bytes b) else pfail InvalidUtf8)"

definition p_option :: "'a parser \<Rightarrow> 'a option parser" where
  "p_option p = pbind p_u8 (\<lambda>w. if w = 0 then preturn None
     else if w = 1 then pbind p (\<lambda>x. preturn (Some x)) else pfail InvalidValue)"

definition p_price :: "price parser" where "p_price = p_i128"
definition p_quantity :: "quantity parser" where
  "p_quantity = pbind p_u8 (\<lambda>w. pbind (pcheck (unit_from_discriminant (unat w))) (\<lambda>u.
     pbind p_u64 (\<lambda>v. pcheck (quantity_new v u))))"
definition p_volume :: "volume parser" where
  "p_volume = pbind p_u8 (\<lambda>w. pbind (pcheck (unit_from_discriminant (unat w))) (\<lambda>u.
     pbind p_u64 (\<lambda>v. preturn \<lparr>v_value = v, v_unit = u\<rparr>)))"

definition p_trade :: "observed_trade parser" where
  "p_trade = pbind p_price (\<lambda>price. pbind p_quantity (\<lambda>quantity. pbind p_u8 (\<lambda>w.
     if w = 0 then preturn \<lparr>ot_price = price, ot_quantity = quantity, ot_kind = Regular\<rparr>
     else if w = 1 then preturn \<lparr>ot_price = price, ot_quantity = quantity, ot_kind = Intermediate\<rparr>
     else pfail InvalidValue)))"

fun p_repeat :: "nat \<Rightarrow> 'a parser \<Rightarrow> 'a list parser" where
  "p_repeat 0 p = preturn []"
| "p_repeat (Suc n) p = pbind p (\<lambda>x. pbind (p_repeat n p) (\<lambda>xs. preturn (x # xs)))"

definition p_level :: "book_level parser" where
  "p_level = pbind p_price (\<lambda>price. pbind p_quantity (\<lambda>quantity.
     preturn \<lparr>bl_price = price, bl_quantity = quantity\<rparr>))"

definition p_book_side :: "book_side_kind \<Rightarrow> book_side parser" where
  "p_book_side kind = pbind (p_option p_quantity) (\<lambda>moq. pbind (p_repeat 5 (p_option p_level)) (\<lambda>slots.
     pcheck (side_from_parts kind moq slots)))"

definition p_book :: "complete_book parser" where
  "p_book = pbind (p_book_side Bid) (\<lambda>bids. pbind (p_book_side Ask) (\<lambda>asks. pcheck (book_new bids asks)))"

definition p_unknown :: "unknown_value parser" where
  "p_unknown = pbind p_u8 (\<lambda>w.
     if w = 1 then pbind p_u64 (\<lambda>v. preturn (UvUnsigned v))
     else if w = 2 then pbind p_i64 (\<lambda>v. preturn (UvSigned v))
     else if w = 3 then pbind p_i128 (\<lambda>v. preturn (UvDecimal v))
     else if w = 4 then pbind p_string (\<lambda>v. preturn (UvText v))
     else if w = 5 then pbind p_bytes (\<lambda>v. preturn (UvBytes v))
     else pfail InvalidValue)"

definition p_observation :: "'a parser \<Rightarrow> 'a observation parser" where
  "p_observation decode = pbind p_u8 (\<lambda>w.
     if w = 0 then preturn NoObservation
     else if w = 1 then pbind decode (\<lambda>x. preturn (Set x))
     else if w = 2 then preturn Clear
     else if w = 3 then pbind p_unknown (\<lambda>u. preturn (Unknown u))
     else pfail InvalidValue)"

definition p_evidence :: "(nat \<Rightarrow> 'a option) \<Rightarrow> 'a auction_evidence parser" where
  "p_evidence from_disc = pbind p_u8 (\<lambda>w.
     if w = 0 then preturn EvNoObservation
     else if w = 1 then pbind p_u8 (\<lambda>d. pbind (pcheck_option (from_disc (unat d))) (\<lambda>x. preturn (EvKnown x)))
     else if w = 2 then preturn EvUnknown
     else pfail InvalidValue)"

definition bool_from_discriminant :: "nat \<Rightarrow> bool option" where
  "bool_from_discriminant n = (if n = 0 then Some False else if n = 1 then Some True else None)"

definition p_auction_purpose :: "auction_purpose auction_evidence parser" where
  "p_auction_purpose = p_evidence purpose_from_discriminant"
definition p_auction_bool :: "bool auction_evidence parser" where
  "p_auction_bool = p_evidence bool_from_discriminant"
definition p_auction_direction :: "volatility_direction auction_evidence parser" where
  "p_auction_direction = p_evidence direction_from_discriminant"

definition p_auction_observation :: "auction_observation parser" where
  "p_auction_observation = pbind p_auction_purpose (\<lambda>purpose. pbind p_auction_bool (\<lambda>delayed.
     pbind p_auction_bool (\<lambda>disposal. pbind p_auction_direction (\<lambda>direction.
       pcheck_option (auction_from_parts purpose delayed disposal direction)))))"

definition p_market_signal :: "market_signal parser" where
  "p_market_signal = pbind p_u8 (\<lambda>w.
     pbind (if w = 2 \<or> w = 3 then pbind p_auction_observation (\<lambda>ob. preturn (Some ob))
            else if w = 1 \<or> w = 4 then preturn None else pfail InvalidValue)
       (\<lambda>ob. pcheck_option (signal_from_discriminant (unat w) ob)))"

definition p_annotations :: "market_annotations parser" where
  "p_annotations = pbind p_u8 (\<lambda>w.
     if w = 0 then preturn AnnNone
     else if w = 1 then pbind p_u8 (\<lambda>a. pbind p_u8 (\<lambda>b.
       preturn (TwseQuote \<lparr>status_flags_raw = a, limit_flags_raw = b\<rparr>)))
     else if w = 2 then pbind p_u8 (\<lambda>a. pbind p_u8 (\<lambda>b.
       preturn (TpexQuote \<lparr>status_flags_raw = a, limit_flags_raw = b\<rparr>)))
     else pfail InvalidValue)"

definition CANONICAL_TRADE_BYTES :: nat where "CANONICAL_TRADE_BYTES = 16 + 9 + 1"
definition MIN_TRADE_BATCH_SUFFIX_BYTES :: nat where "MIN_TRADE_BATCH_SUFFIX_BYTES = 1 + 1 + 1"

definition p_trade_order :: "trade_batch_ordering parser" where
  "p_trade_order = pbind p_u8 (\<lambda>w. if w = 0 then preturn Unspecified
     else if w = 1 then preturn SourceSequencePreserved else pfail InvalidValue)"

definition p_trade_count :: "nat parser" where
  "p_trade_count = pbind p_u32 (\<lambda>count rest.
     if count > (length rest - MIN_TRADE_BATCH_SUFFIX_BYTES) div CANONICAL_TRADE_BYTES
     then Err LengthOutOfBounds else Ok (count, rest))"

definition p_quote_snapshot :: "quote_snapshot parser" where
  "p_quote_snapshot = pbind p_book (\<lambda>b. pbind (p_observation p_trade) (\<lambda>trade.
     pbind (p_observation p_volume) (\<lambda>vol. pbind p_annotations (\<lambda>ann.
       pbind (pcheck (quote_snapshot_new b trade vol ann)) (\<lambda>snapshot.
         pbind (p_observation p_market_signal) (\<lambda>sig.
           preturn (snapshot\<lparr>qs_market_signal := sig\<rparr>)))))))"

definition p_book_snapshot :: "book_snapshot parser" where
  "p_book_snapshot = pbind p_book (\<lambda>b. pbind p_annotations (\<lambda>ann.
     pbind (p_observation p_market_signal) (\<lambda>sig.
       preturn ((book_snapshot_new b ann)\<lparr>bk_market_signal := sig\<rparr>))))"

definition p_trade_batch :: "trade_batch parser" where
  "p_trade_batch = pbind p_trade_count (\<lambda>count. pbind (p_repeat count p_trade) (\<lambda>trades.
     pbind p_trade_order (\<lambda>order. pbind (p_observation p_volume) (\<lambda>vol. pbind p_annotations (\<lambda>ann.
       pbind (pcheck (trade_batch_new trades order vol ann)) (\<lambda>batch.
         pbind (p_observation p_market_signal) (\<lambda>sig.
           preturn (batch\<lparr>tb_market_signal := sig\<rparr>))))))))"

definition p_indicative_auction :: "indicative_auction parser" where
  "p_indicative_auction = pbind p_auction_observation (\<lambda>ob. pbind (p_observation p_price) (\<lambda>price.
     pbind (p_observation p_quantity) (\<lambda>quantity. pbind (p_observation p_book) (\<lambda>b.
       pbind (p_observation p_volume) (\<lambda>vol. pbind p_annotations (\<lambda>ann.
         pcheck (indicative_auction_new ob price quantity b vol ann)))))))"

definition p_market_status :: "market_status parser" where
  "p_market_status = pbind (p_observation p_volume) (\<lambda>vol. pbind p_annotations (\<lambda>ann.
     pbind (p_observation p_market_signal) (\<lambda>sig.
       preturn ((market_status_new vol ann)\<lparr>ms_market_signal := sig\<rparr>))))"

definition p_payload :: "event_payload parser" where
  "p_payload = pbind p_u8 (\<lambda>w.
     if w = 10 then pbind p_quote_snapshot (\<lambda>p. preturn (PQuoteSnapshot p))
     else if w = 20 then pbind p_book_snapshot (\<lambda>p. preturn (PBookSnapshot p))
     else if w = 30 then pbind p_trade_batch (\<lambda>p. preturn (PTradeBatch p))
     else if w = 40 then pbind p_indicative_auction (\<lambda>p. preturn (PIndicativeAuction p))
     else if w = 50 then pbind p_market_status (\<lambda>p. preturn (PMarketStatus p))
     else pfail InvalidValue)"

definition p_header :: "unit parser" where
  "p_header = pbind (p_take 4) (\<lambda>magic. if magic \<noteq> CANONICAL_MAGIC then pfail UnsupportedHeader
     else pbind p_u16 (\<lambda>v. if v \<noteq> CANONICAL_EVENT_VERSION then pfail UnsupportedHeader
       else pbind p_u16 (\<lambda>s. if s \<noteq> EVENT_SCHEMA_VERSION then pfail UnsupportedHeader else preturn ())))"

definition p_match_time :: "int parser" where
  "p_match_time = pbind p_i64 (\<lambda>t. if is_utc_iso8601_representable t then preturn t else pfail InvalidValue)"

definition p_event :: "domain_event parser" where
  "p_event = pbind p_header (\<lambda>_. pbind p_u8 (\<lambda>w. pbind (pcheck (market_from_discriminant (unat w))) (\<lambda>market.
     pbind p_string (\<lambda>s. pbind (pcheck (symbol_new s)) (\<lambda>symbol.
     pbind p_i32 (\<lambda>d. pbind (pcheck (trading_date_from_epoch_days d)) (\<lambda>date.
     pbind p_string (\<lambda>f. pbind (pcheck (source_format_new f)) (\<lambda>format.
     pbind p_match_time (\<lambda>time. pbind (p_option p_u64) (\<lambda>seq. pbind p_payload (\<lambda>payload.
       preturn \<lparr>ev_instrument = (market, symbol), ev_trading_date = date, ev_source_format = format,
         ev_match_time = time, ev_source_sequence = seq, ev_payload = payload\<rparr>))))))))))))"

definition from_canonical_bytes :: "bytes \<Rightarrow> (domain_event, canonical_decoding_error) result" where
  "from_canonical_bytes bs =
     rbind (p_event bs) (\<lambda>(e, rest). if rest \<noteq> [] then Err TrailingBytes else Ok e)"

text \<open>
  \<open>DomainEvent::fingerprint\<close>. The hash function (BLAKE3) is a third-party crate and a parameter.
\<close>

definition event_fingerprint :: "(bytes \<Rightarrow> bytes) \<Rightarrow> domain_event \<Rightarrow> encoded" where
  "event_fingerprint hash e = rbind (to_canonical_bytes e) (\<lambda>b. Ok (hash b))"

section \<open>The codec contract\<close>

text \<open>
  A parser accepts exactly the encodings of well-formed values, whatever bytes follow, and every
  well-formed value has an encoding. Round trips, rejection of non-canonical input and prefix
  freedom follow from this one law.
\<close>

named_theorems parsed \<open>what a successful parse says of its input\<close>
named_theorems parse \<open>running a parser on an encoding\<close>
named_theorems encodes \<open>which bytes an encoder yields\<close>

locale codec =
  fixes wf :: "'a \<Rightarrow> bool" and enc :: "'a \<Rightarrow> encoded" and dec :: "'a parser"
  assumes total [encodes]: "wf x \<Longrightarrow> is_ok (enc x)"
    and accepts [parsed]: "dec bs = Ok (x, rest) \<longleftrightarrow> wf x \<and> (\<exists>p. enc x = Ok p \<and> bs = p @ rest)"
begin

lemma roundtrip: "wf x \<Longrightarrow> enc x = Ok p \<Longrightarrow> dec (p @ rest) = Ok (x, rest)"
  by (auto simp: accepts)

lemma bind_run [parse]: "enc x = Ok p \<Longrightarrow> wf x \<Longrightarrow> pbind dec f (p @ rest) = f x rest"
  by (simp add: pbind_def roundtrip)

lemma prefix_free:
  assumes "wf x" "wf y" "enc x = Ok p" "enc y = Ok q" "p @ r = q @ s"
  shows "x = y \<and> p = q \<and> r = s"
proof -
  have "dec (p @ r) = Ok (x, r)" and "dec (p @ r) = Ok (y, s)"
    using assms accepts by metis+
  then show ?thesis using assms by auto
qed

end

lemma codecI:
  assumes "\<And>x. P x \<Longrightarrow> is_ok (enc x)"
    and "\<And>x p rest. P x \<Longrightarrow> enc x = Ok p \<Longrightarrow> dec (p @ rest) = Ok (x, rest)"
    and "\<And>bs x rest. dec bs = Ok (x, rest) \<Longrightarrow> P x \<and> (\<exists>p. enc x = Ok p \<and> bs = p @ rest)"
  shows "codec P enc dec"
  using assms by unfold_locales blast+


lemma preturn_Ok [parsed]: "preturn x bs = Ok (y, rest) \<longleftrightarrow> x = y \<and> bs = rest"
  by (auto simp: preturn_def)

lemma pfail_Ok [parsed]: "pfail e bs = Ok r \<longleftrightarrow> False"
  by (simp add: pfail_def)

lemma pbind_Ok [parsed]:
  "pbind p f bs = Ok (y, rest) \<longleftrightarrow> (\<exists>x r. p bs = Ok (x, r) \<and> f x r = Ok (y, rest))"
  by (auto simp: pbind_def)

lemma pcheck_Ok [parsed]: "pcheck r bs = Ok (x, rest) \<longleftrightarrow> r = Ok x \<and> bs = rest"
  by (cases r) (auto simp: pcheck_def parsed)

lemma pcheck_option_Ok [parsed]: "pcheck_option r bs = Ok (x, rest) \<longleftrightarrow> r = Some x \<and> bs = rest"
  by (cases r) (auto simp: pcheck_option_def parsed)

lemma if_parser_Ok [parsed]:
  "(if b then p else q) bs = Ok r \<longleftrightarrow> (if b then p bs = Ok r else q bs = Ok r)"
  by simp

lemma p_take_Ok [parsed]: "p_take n bs = Ok (x, rest) \<longleftrightarrow> length x = n \<and> bs = x @ rest"
  by (auto simp: p_take_def min_def)

lemma p_u8_Ok [parsed]: "p_u8 bs = Ok (w, rest) \<longleftrightarrow> bs = w # rest"
  by (auto simp: p_u8_def parsed length_Suc_conv)

lemma p_u8_dispatch [parse]:
  "pbind p_u8 f [] = Err Truncated"
  "pbind p_u8 f (w # bs) = f w bs"
  by (simp_all add: p_u8_def p_take_def pbind_def preturn_def)

lemma p_uint_Ok: "p_uint n bs = Ok (v, rest) \<longleftrightarrow> v < 256 ^ n \<and> bs = be_bytes n v @ rest"
proof
  assume "p_uint n bs = Ok (v, rest)"
  then obtain b where b: "length b = n" "bs = b @ rest" "v = of_be_bytes b"
    by (auto simp: p_uint_def parsed)
  then show "v < 256 ^ n \<and> bs = be_bytes n v @ rest"
    using of_be_bytes_bound [of b] be_bytes_of_be_bytes [of b] by simp
next
  assume "v < 256 ^ n \<and> bs = be_bytes n v @ rest"
  then have "length (be_bytes n v) = n \<and> bs = be_bytes n v @ rest \<and> of_be_bytes (be_bytes n v) = v"
    by (simp add: of_be_bytes_be_bytes)
  then show "p_uint n bs = Ok (v, rest)"
    unfolding p_uint_def pbind_Ok p_take_Ok preturn_Ok by blast
qed

lemma p_int_Ok:
  assumes "0 < n"
  shows "p_int n bs = Ok (v, rest) \<longleftrightarrow>
    - (2 ^ (8 * n - 1)) \<le> v \<and> v < 2 ^ (8 * n - 1) \<and> bs = be_bytes_signed n v @ rest"
proof
  assume "p_int n bs = Ok (v, rest)"
  then obtain b where b: "length b = n" "bs = b @ rest" "v = of_be_bytes_signed b"
    by (auto simp: p_int_def parsed)
  then have "b \<noteq> []" using assms by auto
  then show "- (2 ^ (8 * n - 1)) \<le> v \<and> v < 2 ^ (8 * n - 1) \<and> bs = be_bytes_signed n v @ rest"
    using b of_be_bytes_signed_bound [of b] be_bytes_of_signed [of b] by simp
next
  assume *: "- (2 ^ (8 * n - 1)) \<le> v \<and> v < 2 ^ (8 * n - 1) \<and> bs = be_bytes_signed n v @ rest"
  then have "length (be_bytes_signed n v) = n \<and> bs = be_bytes_signed n v @ rest \<and>
      of_be_bytes_signed (be_bytes_signed n v) = v"
    using assms by (simp add: signed_of_be_bytes)
  then show "p_int n bs = Ok (v, rest)"
    unfolding p_int_def pbind_Ok p_take_Ok preturn_Ok by blast
qed

lemma fixed_width_Ok [parsed]:
  "p_u16 bs = Ok (v, rest) \<longleftrightarrow> v < 2 ^ 16 \<and> bs = be_bytes 2 v @ rest"
  "p_u32 bs = Ok (v, rest) \<longleftrightarrow> in_u32 v \<and> bs = be_bytes 4 v @ rest"
  "p_u64 bs = Ok (v, rest) \<longleftrightarrow> in_u64 v \<and> bs = be_bytes 8 v @ rest"
  "p_i32 bs = Ok (i, rest) \<longleftrightarrow> in_i32 i \<and> bs = be_bytes_signed 4 i @ rest"
  "p_i64 bs = Ok (i, rest) \<longleftrightarrow> in_i64 i \<and> bs = be_bytes_signed 8 i @ rest"
  "p_i128 bs = Ok (i, rest) \<longleftrightarrow> in_i128 i \<and> bs = be_bytes_signed 16 i @ rest"
  by (simp_all add: p_u16_def p_u32_def p_u64_def p_i32_def p_i64_def p_i128_def p_uint_Ok p_int_Ok
      in_u32_def in_u64_def in_i32_def in_i64_def in_i128_def)

lemma append_all_Cons_Ok [encodes]:
  "append_all (m # ms) = Ok p \<longleftrightarrow> (\<exists>b bs. m = Ok b \<and> append_all ms = Ok bs \<and> p = b @ bs)"
  by auto

lemma is_ok_append_all [simp]: "is_ok (append_all ms) \<longleftrightarrow> list_all is_ok ms"
proof (induction ms)
  case (Cons m ms)
  then show ?case by (cases m; cases "append_all ms") auto
qed simp

declare append_all.simps(2) [simp del]

lemma is_ok_push [simp]: "is_ok (push n)"
  by (simp add: push_def)

lemma append_length_Ok [encodes]: "append_length n = Ok p \<longleftrightarrow> in_u32 n \<and> p = be_bytes 4 n"
  by (auto simp: append_length_def)

lemma append_bytes_Ok [encodes]:
  "append_bytes b = Ok p \<longleftrightarrow> in_u32 (length b) \<and> p = be_bytes 4 (length b) @ b"
  by (auto simp: append_bytes_def encodes)

lemma push_Ok [encodes]: "push n = Ok p \<longleftrightarrow> p = [word_of_nat n]"
  by (auto simp: push_def)

lemma p_bytes_Ok [parsed]:
  "p_bytes bs = Ok (b, rest) \<longleftrightarrow> in_u32 (length b) \<and> bs = be_bytes 4 (length b) @ b @ rest"
  by (auto simp: p_bytes_def parsed)

lemma p_string_Ok [parsed]:
  "p_string bs = Ok (s, rest) \<longleftrightarrow>
     utf8_valid s \<and> in_u32 (length s) \<and> bs = be_bytes 4 (length s) @ as_bytes s @ rest"
proof -
  have "p_string bs = Ok (s, rest) \<longleftrightarrow> (\<exists>b. in_u32 (length b) \<and> bs = be_bytes 4 (length b) @ b @ rest \<and>
      utf8_valid (str_of_bytes b) \<and> s = str_of_bytes b)"
    by (auto simp: p_string_def parsed)
  also have "\<dots> \<longleftrightarrow> utf8_valid s \<and> in_u32 (length s) \<and> bs = be_bytes 4 (length s) @ as_bytes s @ rest"
    by (metis as_bytes_of_str str_of_as_bytes length_as_bytes)
  finally show ?thesis .
qed

lemma parse_basic [parse]:
  "preturn x bs = Ok (x, bs)"
  "pcheck (Ok x) = preturn x"
  "pcheck_option (Some x) = preturn x"
  "pbind (preturn x) f = f x"
  "length b = n \<Longrightarrow> pbind (p_take n) g (b @ rest) = g b rest"
  by (auto simp: preturn_def pcheck_def pcheck_option_def pbind_def p_take_def)

lemma pbind_assoc [parse]: "pbind (pbind p f) g = pbind p (\<lambda>x. pbind (f x) g)"
  by (rule ext) (simp add: pbind_def rbind_assoc split_def)

lemma pbind_run: "p bs = Ok (x, rest) \<Longrightarrow> pbind p f bs = f x rest"
  by (simp add: pbind_def)

lemma parse_unsigned [parse]:
  "v < 2 ^ 16 \<Longrightarrow> pbind p_u16 f (be_bytes 2 v @ rest) = f v rest"
  "in_u32 v \<Longrightarrow> pbind p_u32 f (be_bytes 4 v @ rest) = f v rest"
  "in_u64 v \<Longrightarrow> pbind p_u64 f (be_bytes 8 v @ rest) = f v rest"
  by (simp_all add: pbind_run parsed)

lemma parse_signed [parse]:
  "in_i32 i \<Longrightarrow> pbind p_i32 f (be_bytes_signed 4 i @ rest) = f i rest"
  "in_i64 i \<Longrightarrow> pbind p_i64 f (be_bytes_signed 8 i @ rest) = f i rest"
  "in_i128 i \<Longrightarrow> pbind p_i128 f (be_bytes_signed 16 i @ rest) = f i rest"
  by (simp_all add: pbind_run parsed)

lemma parse_text [parse]:
  "in_u32 (length b) \<Longrightarrow> pbind p_bytes f (be_bytes 4 (length b) @ b @ rest) = f b rest"
  "utf8_valid s \<Longrightarrow> in_u32 (length s) \<Longrightarrow>
     pbind p_string g (be_bytes 4 (length s) @ as_bytes s @ rest) = g s rest"
  by (simp_all add: pbind_run parsed)

section \<open>Every value type is a codec\<close>

lemma unat_u8_eq: "n < 256 \<Longrightarrow> unat (w :: u8) = n \<longleftrightarrow> w = word_of_nat n"
  by (auto simp: unat_of_nat simp flip: word_unat_eq_iff)

lemma unit_byte_Ok:
  "unit_from_discriminant (unat (w :: u8)) = Ok u \<longleftrightarrow> w = word_of_nat (unit_discriminant u)"
proof -
  have "unit_discriminant u < 256" using unit_discriminant_less [of u] by simp
  then show ?thesis by (simp add: unit_from_discriminant_Ok unat_u8_eq)
qed

lemma unit_byte [parse]:
  "unit_from_discriminant (unat (word_of_nat (unit_discriminant u) :: u8)) = Ok u"
  by (simp add: unit_byte_Ok)

interpretation price: codec in_i128 append_price p_price
  by unfold_locales (auto simp: append_price_def p_price_def decimal_to_canonical_bytes_def parsed)

interpretation quantity: codec wf_quantity append_quantity p_quantity
proof (rule codecI)
  show "p_quantity (p @ rest) = Ok (x, rest)" if "wf_quantity x" "append_quantity x = Ok p" for x p rest
    using that by (auto simp: p_quantity_def append_quantity_def quantity_to_canonical_bytes_def
        wf_quantity_def quantity_new_def parse)
  show "wf_quantity x \<and> (\<exists>p. append_quantity x = Ok p \<and> bs = p @ rest)"
    if "p_quantity bs = Ok (x, rest)" for bs x rest
    using that by (auto simp: p_quantity_def parsed unit_byte_Ok quantity_new_def wf_quantity_def
        append_quantity_def quantity_to_canonical_bytes_def split: if_splits)
qed (simp add: append_quantity_def)

interpretation volume: codec wf_volume append_volume p_volume
proof (rule codecI)
  show "p_volume (p @ rest) = Ok (x, rest)" if "wf_volume x" "append_volume x = Ok p" for x p rest
    using that by (auto simp: p_volume_def append_volume_def volume_to_canonical_bytes_def wf_volume_def parse)
  show "wf_volume x \<and> (\<exists>p. append_volume x = Ok p \<and> bs = p @ rest)"
    if "p_volume bs = Ok (x, rest)" for bs x rest
    using that by (auto simp: p_volume_def parsed unit_byte_Ok wf_volume_def append_volume_def
        volume_to_canonical_bytes_def)
qed (simp add: append_volume_def)

interpretation u64: codec in_u64 append_u64 p_u64
  by unfold_locales (auto simp: append_u64_def parsed)

context codec
begin

lemma option_codec: "codec (\<lambda>v. \<forall>x. v = Some x \<longrightarrow> wf x) (append_option enc) (p_option dec)"
proof (rule codecI)
  fix v :: "'a option" and p bs rest
  show "is_ok (append_option enc v)" if "\<forall>x. v = Some x \<longrightarrow> wf x"
    using that total by (cases v) auto
  show "p_option dec (p @ rest) = Ok (v, rest)"
    if "\<forall>x. v = Some x \<longrightarrow> wf x" "append_option enc v = Ok p"
    using that by (cases v) (auto simp: p_option_def encodes parse)
  show "(\<forall>x. v = Some x \<longrightarrow> wf x) \<and> (\<exists>p. append_option enc v = Ok p \<and> bs = p @ rest)"
    if "p_option dec bs = Ok (v, rest)"
    using that by (auto simp: p_option_def parsed encodes split: if_splits)
qed

lemma repeat_codec:
  "codec (\<lambda>xs. length xs = n \<and> list_all wf xs) (\<lambda>xs. append_all (map enc xs)) (p_repeat n dec)"
proof (rule codecI)
  show "is_ok (append_all (map enc xs))" if "length xs = n \<and> list_all wf xs" for xs
    using that total by (simp add: list_all_iff)
  show "p_repeat n dec (p @ rest) = Ok (xs, rest)"
    if "length xs = n \<and> list_all wf xs" "append_all (map enc xs) = Ok p" for xs p rest
    using that
  proof (induction xs arbitrary: n p)
    case (Cons x xs)
    then obtain m q r where n: "n = Suc m" "length xs = m" and p: "p = q @ r" "enc x = Ok q"
      "append_all (map enc xs) = Ok r" and wf: "wf x" "list_all wf xs"
      by (auto simp: encodes)
    then have "p_repeat m dec (r @ rest) = Ok (xs, rest)" using Cons.IH [of m r] by simp
    then show ?case using n p wf by (auto simp: pbind_def parse roundtrip)
  qed (auto simp: parse)
  show "(length xs = n \<and> list_all wf xs) \<and> (\<exists>p. append_all (map enc xs) = Ok p \<and> bs = p @ rest)"
    if "p_repeat n dec bs = Ok (xs, rest)" for bs xs rest
    using that
  proof (induction n arbitrary: xs bs)
    case (Suc n)
    then obtain y ys r where "dec bs = Ok (y, r)" "p_repeat n dec r = Ok (ys, rest)" "xs = y # ys"
      by (auto simp: parsed)
    with Suc.IH [of r ys] show ?case by (auto simp: accepts encodes)
  qed (auto simp: parsed)
qed

end

interpretation optional_u64: codec "\<lambda>v. \<forall>x. v = Some x \<longrightarrow> in_u64 x" append_optional_u64 "p_option p_u64"
  unfolding append_optional_u64_def by (rule u64.option_codec)

interpretation optional_quantity: codec "\<lambda>v. \<forall>x. v = Some x \<longrightarrow> wf_quantity x"
  "append_option append_quantity" "p_option p_quantity"
  by (rule quantity.option_codec)

interpretation level: codec wf_level append_level p_level
proof (rule codecI)
  show "p_level (p @ rest) = Ok (x, rest)" if "wf_level x" "append_level x = Ok p" for x p rest
    using that by (auto simp: p_level_def wf_level_def append_level_def encodes parse)
  show "wf_level x \<and> (\<exists>p. append_level x = Ok p \<and> bs = p @ rest)"
    if "p_level bs = Ok (x, rest)" for bs x rest
    using that by (auto simp: p_level_def wf_level_def append_level_def parsed encodes)
qed (simp add: append_level_def wf_level_def encodes)

interpretation slot: codec "\<lambda>v. \<forall>l. v = Some l \<longrightarrow> wf_level l" "append_option append_level" "p_option p_level"
  by (rule level.option_codec)

interpretation slots: codec "\<lambda>xs. length xs = 5 \<and> list_all (\<lambda>v. \<forall>l. v = Some l \<longrightarrow> wf_level l) xs"
  "\<lambda>xs. append_all (map (append_option append_level) xs)" "p_repeat 5 (p_option p_level)"
  by (rule slot.repeat_codec)

lemma wf_side_slots:
  "wf_side kind x \<longleftrightarrow> bs_kind x = kind \<and> valid_side x \<and>
     (\<forall>q. bs_market_order_quantity x = Some q \<longrightarrow> wf_quantity q) \<and>
     length (bs_slots x) = 5 \<and> list_all (\<lambda>v. \<forall>l. v = Some l \<longrightarrow> wf_level l) (bs_slots x)"
  by (auto simp: wf_side_def BOOK_DEPTH_def list_all_iff)

interpretation side: codec "wf_side kind" append_side "p_book_side kind"
proof (rule codecI)
  show "is_ok (append_side x)" if "wf_side kind x" for x
    using that optional_quantity.total [of "bs_market_order_quantity x"] slots.total [of "bs_slots x"]
    by (simp add: append_side_def wf_side_slots)
  show "p_book_side kind (p @ rest) = Ok (x, rest)" if wf: "wf_side kind x" and p: "append_side x = Ok p" for x p rest
  proof -
    obtain a b where p': "p = a @ b" "append_option append_quantity (bs_market_order_quantity x) = Ok a"
      "append_all (map (append_option append_level) (bs_slots x)) = Ok b"
      using p by (auto simp: append_side_def encodes)
    have made: "side_from_parts kind (bs_market_order_quantity x) (bs_slots x) = Ok x"
      using wf by (simp add: side_from_parts_Ok wf_side_slots)
    show ?thesis
      using p' wf by (simp add: p_book_side_def wf_side_slots optional_quantity.bind_run [OF p'(2)]
          slots.bind_run [OF p'(3)] made parse_basic)
  qed
  show "wf_side kind x \<and> (\<exists>p. append_side x = Ok p \<and> bs = p @ rest)"
    if "p_book_side kind bs = Ok (x, rest)" for bs x rest
    using that by (auto simp: p_book_side_def wf_side_slots append_side_def pbind_Ok pcheck_Ok
        optional_quantity.accepts slots.accepts encodes side_from_parts_Ok)
qed

interpretation book: codec wf_book append_book p_book
proof (rule codecI)
  show "is_ok (append_book x)" if "wf_book x" for x
    using that side.total [of Bid "cb_bids x"] side.total [of Ask "cb_asks x"]
    by (simp add: append_book_def wf_book_def)
  show "p_book (p @ rest) = Ok (x, rest)" if "wf_book x" "append_book x = Ok p" for x p rest
    using that by (auto simp: p_book_def wf_book_def append_book_def append_all_Cons_Ok side.bind_run parse_basic)
  show "wf_book x \<and> (\<exists>p. append_book x = Ok p \<and> bs = p @ rest)"
    if "p_book bs = Ok (x, rest)" for bs x rest
    using that
    by (auto simp: p_book_def wf_book_def append_book_def append_all_Cons_Ok pbind_Ok pcheck_Ok side.accepts
        dest: book_new_Ok)
qed

interpretation trade: codec wf_trade append_trade p_trade
proof (rule codecI)
  show "p_trade (p @ rest) = Ok (x, rest)" if "wf_trade x" "append_trade x = Ok p" for x p rest
    using that by (cases "ot_kind x") (auto simp: p_trade_def wf_trade_def append_trade_def encodes parse)
  show "wf_trade x \<and> (\<exists>p. append_trade x = Ok p \<and> bs = p @ rest)"
    if "p_trade bs = Ok (x, rest)" for bs x rest
    using that by (auto simp: p_trade_def wf_trade_def append_trade_def parsed encodes split: if_splits)
qed (simp add: append_trade_def wf_trade_def encodes)

interpretation annotations: codec "\<lambda>_. True" append_annotations p_annotations
proof (rule codecI)
  show "is_ok (append_annotations x)" for x by (cases x) simp_all
  show "p_annotations (p @ rest) = Ok (x, rest)" if "append_annotations x = Ok p" for x p rest
    using that by (cases x) (auto simp: p_annotations_def encodes parse)
  show "True \<and> (\<exists>p. append_annotations x = Ok p \<and> bs = p @ rest)"
    if "p_annotations bs = Ok (x, rest)" for bs x rest
    using that by (auto simp: p_annotations_def parsed encodes split: if_splits)
qed

interpretation unknown: codec wf_unknown append_unknown p_unknown
proof (rule codecI)
  show "is_ok (append_unknown x)" if "wf_unknown x" for x
    using that by (cases x) (simp_all add: append_unknown_def append_bytes_def append_length_def)
  show "p_unknown (p @ rest) = Ok (x, rest)" if "wf_unknown x" "append_unknown x = Ok p" for x p rest
    using that by (cases x)
      (auto simp: p_unknown_def append_unknown_def decimal_to_canonical_bytes_def encodes parse)
  show "wf_unknown x \<and> (\<exists>p. append_unknown x = Ok p \<and> bs = p @ rest)"
    if "p_unknown bs = Ok (x, rest)" for bs x rest
    using that by (auto simp: p_unknown_def append_unknown_def decimal_to_canonical_bytes_def parsed encodes
        split: if_splits)
qed

context codec
begin

lemma observation_codec: "codec (wf_observation wf) (append_observation enc) (p_observation dec)"
proof (rule codecI)
  show "is_ok (append_observation enc v)" if "wf_observation wf v" for v
    using that by (cases v) (simp_all add: encodes)
  show "p_observation dec (p @ rest) = Ok (v, rest)"
    if "wf_observation wf v" "append_observation enc v = Ok p" for v p rest
    using that by (cases v) (auto simp: p_observation_def append_all_Cons_Ok push_Ok parse_basic
        p_u8_dispatch bind_run unknown.bind_run)
  show "wf_observation wf v \<and> (\<exists>p. append_observation enc v = Ok p \<and> bs = p @ rest)"
    if "p_observation dec bs = Ok (v, rest)" for v bs rest
    using that by (auto simp: p_observation_def parsed append_all_Cons_Ok push_Ok split: if_splits)
qed

end

interpretation trade_observation:
  codec "wf_observation wf_trade" "append_observation append_trade" "p_observation p_trade"
  by (rule trade.observation_codec)

interpretation volume_observation:
  codec "wf_observation wf_volume" "append_observation append_volume" "p_observation p_volume"
  by (rule volume.observation_codec)

interpretation price_observation:
  codec "wf_observation in_i128" "append_observation append_price" "p_observation p_price"
  by (rule price.observation_codec)

interpretation quantity_observation:
  codec "wf_observation wf_quantity" "append_observation append_quantity" "p_observation p_quantity"
  by (rule quantity.observation_codec)

interpretation book_observation:
  codec "wf_observation wf_book" "append_observation append_book" "p_observation p_book"
  by (rule book.observation_codec)

text \<open>An enumeration stored as one byte.\<close>

locale byte_enum =
  fixes disc :: "'a \<Rightarrow> nat" and from_disc :: "nat \<Rightarrow> 'a option"
  assumes from_disc: "from_disc n = Some x \<longleftrightarrow> n = disc x"
    and disc_byte: "disc x < 256"
begin

lemma from_disc_byte: "from_disc (unat (w :: u8)) = Some x \<longleftrightarrow> w = word_of_nat (disc x)"
  by (simp add: from_disc unat_u8_eq disc_byte)

lemma from_disc_run [simp]: "from_disc (unat (word_of_nat (disc x) :: u8)) = Some x"
  by (simp add: from_disc_byte)

lemma evidence_codec: "codec (\<lambda>_. True) (append_evidence disc) (p_evidence from_disc)"
proof (rule codecI)
  show "is_ok (append_evidence disc v)" for v by (cases v) simp_all
  show "p_evidence from_disc (p @ rest) = Ok (v, rest)" if "append_evidence disc v = Ok p" for v p rest
    using that by (cases v) (auto simp: p_evidence_def append_all_Cons_Ok push_Ok parse_basic p_u8_dispatch)
  show "True \<and> (\<exists>p. append_evidence disc v = Ok p \<and> bs = p @ rest)"
    if "p_evidence from_disc bs = Ok (v, rest)" for v bs rest
    using that by (auto simp: p_evidence_def parsed append_all_Cons_Ok push_Ok from_disc_byte
        split: if_splits)
qed

end

interpretation purpose: byte_enum purpose_discriminant purpose_from_discriminant
proof
  show "purpose_discriminant x < 256" for x by (cases x) simp_all
qed (rule purpose_from_discriminant_Some)

interpretation direction: byte_enum direction_discriminant direction_from_discriminant
proof
  show "direction_discriminant x < 256" for x by (cases x) simp_all
qed (rule direction_from_discriminant_Some)

interpretation flag: byte_enum "of_bool" bool_from_discriminant
  by unfold_locales (auto simp: bool_from_discriminant_def)

interpretation auction_purpose: codec "\<lambda>_. True" "append_evidence purpose_discriminant" p_auction_purpose
  unfolding p_auction_purpose_def by (rule purpose.evidence_codec)

interpretation auction_direction: codec "\<lambda>_. True" "append_evidence direction_discriminant" p_auction_direction
  unfolding p_auction_direction_def by (rule direction.evidence_codec)

interpretation auction_flag: codec "\<lambda>_. True" "append_evidence of_bool" p_auction_bool
  unfolding p_auction_bool_def by (rule flag.evidence_codec)

lemmas auction_parts = auction_purpose.bind_run auction_direction.bind_run auction_flag.bind_run
lemmas auction_parts_accept = auction_purpose.accepts auction_direction.accepts auction_flag.accepts

interpretation auction: codec valid_auction append_auction_observation p_auction_observation
proof (rule codecI)
  show "is_ok (append_auction_observation x)" if "valid_auction x" for x
    using auction_purpose.total auction_flag.total auction_direction.total
    by (simp add: append_auction_observation_def)
  show "p_auction_observation (p @ rest) = Ok (x, rest)"
    if "valid_auction x" "append_auction_observation x = Ok p" for x p rest
    using that by (auto simp: p_auction_observation_def append_auction_observation_def append_all_Cons_Ok
        auction_parts auction_from_parts_Some parse_basic)
  show "valid_auction x \<and> (\<exists>p. append_auction_observation x = Ok p \<and> bs = p @ rest)"
    if "p_auction_observation bs = Ok (x, rest)" for bs x rest
    using that by (auto simp: p_auction_observation_def append_auction_observation_def pbind_Ok
        pcheck_option_Ok append_all_Cons_Ok auction_parts_accept auction_from_parts_def valid_auction_def
        split: if_splits)
qed

interpretation signal: codec wf_signal append_market_signal p_market_signal
proof (rule codecI)
  show "is_ok (append_market_signal x)" if "wf_signal x" for x
    using that auction.total by (cases x) (simp_all add: append_market_signal_def)
  show "p_market_signal (p @ rest) = Ok (x, rest)" if "wf_signal x" "append_market_signal x = Ok p" for x p rest
    using that by (cases x) (auto simp: p_market_signal_def append_market_signal_def append_all_Cons_Ok
        push_Ok p_u8_dispatch parse_basic pbind_assoc auction.bind_run signal_from_discriminant_def)
  show "wf_signal x \<and> (\<exists>p. append_market_signal x = Ok p \<and> bs = p @ rest)"
    if "p_market_signal bs = Ok (x, rest)" for bs x rest
    using that by (auto simp: p_market_signal_def append_market_signal_def append_all_Cons_Ok push_Ok
        pbind_Ok pfail_Ok preturn_Ok pcheck_option_Ok p_u8_Ok auction.accepts signal_from_discriminant_def
        split: if_splits)
qed

interpretation signal_observation:
  codec "wf_observation wf_signal" "append_observation append_market_signal" "p_observation p_market_signal"
  by (rule signal.observation_codec)

section \<open>Payloads and the event frame\<close>

lemmas field_runs = book.bind_run trade_observation.bind_run volume_observation.bind_run
  price_observation.bind_run quantity_observation.bind_run book_observation.bind_run
  annotations.bind_run signal_observation.bind_run auction.bind_run optional_u64.bind_run
lemmas field_accepts = book.accepts trade_observation.accepts volume_observation.accepts
  price_observation.accepts quantity_observation.accepts book_observation.accepts
  annotations.accepts signal_observation.accepts auction.accepts optional_u64.accepts
lemmas field_totals = book.total trade_observation.total volume_observation.total
  price_observation.total quantity_observation.total book_observation.total
  annotations.total signal_observation.total auction.total optional_u64.total
lemmas sound_simps = pbind_Ok pcheck_Ok preturn_Ok pfail_Ok append_all_Cons_Ok field_accepts

interpretation quote: codec "\<lambda>p. wf_payload (PQuoteSnapshot p)" "\<lambda>p. encode_payload (PQuoteSnapshot p)" p_quote_snapshot
proof (rule codecI)
  show "is_ok (encode_payload (PQuoteSnapshot p))" if "wf_payload (PQuoteSnapshot p)" for p
    using that by (simp add: field_totals)
  show "p_quote_snapshot (b @ rest) = Ok (p, rest)"
    if "wf_payload (PQuoteSnapshot p)" "encode_payload (PQuoteSnapshot p) = Ok b" for p b rest
    using that by (auto simp: p_quote_snapshot_def append_all_Cons_Ok field_runs quote_snapshot_new_def is_ok_iff
        parse_basic)
  show "wf_payload (PQuoteSnapshot p) \<and> (\<exists>b. encode_payload (PQuoteSnapshot p) = Ok b \<and> bs = b @ rest)"
    if "p_quote_snapshot bs = Ok (p, rest)" for p bs rest
    using that by (auto simp: p_quote_snapshot_def sound_simps quote_snapshot_new_def is_ok_iff)
qed

interpretation book_snap: codec "\<lambda>p. wf_payload (PBookSnapshot p)" "\<lambda>p. encode_payload (PBookSnapshot p)" p_book_snapshot
proof (rule codecI)
  show "is_ok (encode_payload (PBookSnapshot p))" if "wf_payload (PBookSnapshot p)" for p
    using that by (simp add: field_totals)
  show "p_book_snapshot (b @ rest) = Ok (p, rest)"
    if "wf_payload (PBookSnapshot p)" "encode_payload (PBookSnapshot p) = Ok b" for p b rest
    using that by (auto simp: p_book_snapshot_def append_all_Cons_Ok field_runs book_snapshot_new_def parse_basic)
  show "wf_payload (PBookSnapshot p) \<and> (\<exists>b. encode_payload (PBookSnapshot p) = Ok b \<and> bs = b @ rest)"
    if "p_book_snapshot bs = Ok (p, rest)" for p bs rest
    using that by (auto simp: p_book_snapshot_def sound_simps book_snapshot_new_def)
qed

interpretation indicative: codec "\<lambda>p. wf_payload (PIndicativeAuction p)"
  "\<lambda>p. encode_payload (PIndicativeAuction p)" p_indicative_auction
proof (rule codecI)
  show "is_ok (encode_payload (PIndicativeAuction p))" if "wf_payload (PIndicativeAuction p)" for p
    using that by (simp add: append_indicative_auction_def field_totals)
  show "p_indicative_auction (b @ rest) = Ok (p, rest)"
    if "wf_payload (PIndicativeAuction p)" "encode_payload (PIndicativeAuction p) = Ok b" for p b rest
    using that by (auto simp: p_indicative_auction_def append_indicative_auction_def append_all_Cons_Ok
        field_runs indicative_auction_new_def is_ok_iff parse_basic)
  show "wf_payload (PIndicativeAuction p) \<and> (\<exists>b. encode_payload (PIndicativeAuction p) = Ok b \<and> bs = b @ rest)"
    if "p_indicative_auction bs = Ok (p, rest)" for p bs rest
    using that by (auto simp: p_indicative_auction_def append_indicative_auction_def sound_simps
        indicative_auction_new_def is_ok_iff)
qed

interpretation status: codec "\<lambda>p. wf_payload (PMarketStatus p)" "\<lambda>p. encode_payload (PMarketStatus p)" p_market_status
proof (rule codecI)
  show "is_ok (encode_payload (PMarketStatus p))" if "wf_payload (PMarketStatus p)" for p
    using that by (simp add: field_totals)
  show "p_market_status (b @ rest) = Ok (p, rest)"
    if "wf_payload (PMarketStatus p)" "encode_payload (PMarketStatus p) = Ok b" for p b rest
    using that by (auto simp: p_market_status_def append_all_Cons_Ok field_runs market_status_new_def parse_basic)
  show "wf_payload (PMarketStatus p) \<and> (\<exists>b. encode_payload (PMarketStatus p) = Ok b \<and> bs = b @ rest)"
    if "p_market_status bs = Ok (p, rest)" for p bs rest
    using that by (auto simp: p_market_status_def sound_simps market_status_new_def)
qed

text \<open>
  The trade batch bounds its count by the bytes that remain before it allocates; the bound never
  refuses an encoding, because a trade takes 26 bytes and the suffix at least three.
\<close>

interpretation trade_order: codec "\<lambda>_. True" "\<lambda>ord. push (trade_order_discriminant ord)" p_trade_order
proof (rule codecI)
  show "p_trade_order (p @ rest) = Ok (x, rest)" if "push (trade_order_discriminant x) = Ok p" for x p rest
    using that by (cases x) (auto simp: p_trade_order_def push_Ok p_u8_dispatch parse_basic)
  show "True \<and> (\<exists>p. push (trade_order_discriminant x) = Ok p \<and> bs = p @ rest)"
    if "p_trade_order bs = Ok (x, rest)" for x bs rest
    using that by (auto simp: p_trade_order_def parsed push_Ok split: if_splits)
qed simp

lemma append_trade_length: "append_trade t = Ok p \<Longrightarrow> length p = CANONICAL_TRADE_BYTES"
  by (auto simp: append_trade_def append_all_Cons_Ok push_Ok append_price_def append_quantity_def
      decimal_to_canonical_bytes_def quantity_to_canonical_bytes_def CANONICAL_TRADE_BYTES_def)

lemma append_trades_length:
  "append_all (map append_trade ts) = Ok p \<Longrightarrow> length p = CANONICAL_TRADE_BYTES * length ts"
  by (induction ts arbitrary: p) (auto simp: append_all_Cons_Ok append_trade_length)

lemma nonempty_encodings:
  "append_observation enc v = Ok p \<Longrightarrow> 1 \<le> length p"
  "append_annotations a = Ok q \<Longrightarrow> 1 \<le> length q"
  by (cases v, auto simp: append_all_Cons_Ok push_Ok, cases a, auto simp: append_all_Cons_Ok push_Ok)

lemma p_trade_count_run:
  assumes "in_u32 n" and "CANONICAL_TRADE_BYTES * n + MIN_TRADE_BATCH_SUFFIX_BYTES \<le> length rest"
  shows "pbind p_trade_count f (be_bytes 4 n @ rest) = f n rest"
proof -
  have "n * CANONICAL_TRADE_BYTES \<le> length rest - MIN_TRADE_BATCH_SUFFIX_BYTES"
    using assms(2) by (simp add: mult.commute)
  then have "\<not> n > (length rest - MIN_TRADE_BATCH_SUFFIX_BYTES) div CANONICAL_TRADE_BYTES"
    by (simp add: not_less less_eq_div_iff_mult_less_eq CANONICAL_TRADE_BYTES_def)
  then show ?thesis
    unfolding p_trade_count_def pbind_assoc parse_unsigned(2) [OF assms(1)] by (simp add: pbind_def)
qed

lemma p_trade_count_Ok:
  "p_trade_count bs = Ok (n, rest) \<Longrightarrow> in_u32 n \<and> bs = be_bytes 4 n @ rest"
  by (auto simp: p_trade_count_def pbind_Ok fixed_width_Ok split: if_splits)

lemmas trades_codec = trade.repeat_codec

lemma p_trade_batch_run:
  assumes wf: "wf_payload (PTradeBatch p)" and enc: "encode_payload (PTradeBatch p) = Ok b"
  shows "p_trade_batch (b @ rest) = Ok (p, rest)"
proof -
  obtain ts orb v a sg where parts: "append_all (map append_trade (tb_trades p)) = Ok ts"
      "push (trade_order_discriminant (tb_trade_order p)) = Ok orb"
      "append_observation append_volume (tb_cumulative_volume p) = Ok v"
      "append_annotations (tb_annotations p) = Ok a"
      "append_observation append_market_signal (tb_market_signal p) = Ok sg"
    and b: "b = be_bytes 4 (length (tb_trades p)) @ ts @ orb @ v @ a @ sg"
    using enc by (auto simp: append_all_Cons_Ok append_length_Ok)
  have "CANONICAL_TRADE_BYTES * length (tb_trades p) + MIN_TRADE_BATCH_SUFFIX_BYTES
      \<le> length (ts @ orb @ v @ a @ sg @ rest)"
    using append_trades_length [OF parts(1)] nonempty_encodings(1) [OF parts(3)]
      nonempty_encodings(2) [OF parts(4)] parts(2)
    by (auto simp: MIN_TRADE_BATCH_SUFFIX_BYTES_def push_Ok)
  note count = p_trade_count_run [OF _ this]
  have trades: "pbind (p_repeat (length (tb_trades p)) p_trade) f (ts @ r) = f (tb_trades p) r"
    for f :: "observed_trade list \<Rightarrow> trade_batch parser" and r
    using codec.bind_run [OF trades_codec parts(1)] wf by simp
  have "trade_batch_new (tb_trades p) (tb_trade_order p) (tb_cumulative_volume p) (tb_annotations p) =
      Ok (p\<lparr>tb_market_signal := NoObservation\<rparr>)"
    using wf by (auto simp: is_ok_iff trade_batch_new_def split: observation.splits if_splits)
  then show ?thesis
    using wf by (simp add: p_trade_batch_def b count trades trade_order.bind_run [OF parts(2)]
        volume_observation.bind_run [OF parts(3)] annotations.bind_run [OF parts(4)]
        signal_observation.bind_run [OF parts(5)] parse_basic)
qed

interpretation batch: codec "\<lambda>p. wf_payload (PTradeBatch p)" "\<lambda>p. encode_payload (PTradeBatch p)" p_trade_batch
proof (rule codecI)
  show "is_ok (encode_payload (PTradeBatch p))" if "wf_payload (PTradeBatch p)" for p
    using that trade.total by (simp add: field_totals append_length_def list_all_iff)
  show "wf_payload (PTradeBatch p) \<and> (\<exists>b. encode_payload (PTradeBatch p) = Ok b \<and> bs = b @ rest)"
    if dec: "p_trade_batch bs = Ok (p, rest)" for p bs rest
  proof -
    obtain n ts r1 orb r2 batch vol ann sg where n: "in_u32 n" "length ts = n" "list_all wf_trade ts"
      and bytes: "bs = be_bytes 4 n @ r1" "append_all (map append_trade ts) = Ok r2"
      and new: "trade_batch_new ts orb vol ann = Ok batch" and p: "p = batch\<lparr>tb_market_signal := sg\<rparr>"
      and wfs: "wf_observation wf_volume vol" "wf_observation wf_signal sg"
      and tail: "\<exists>o1 o2 o3 o4. push (trade_order_discriminant orb) = Ok o1 \<and>
        append_observation append_volume vol = Ok o2 \<and> append_annotations ann = Ok o3 \<and>
        append_observation append_market_signal sg = Ok o4 \<and> r1 = r2 @ o1 @ o2 @ o3 @ o4 @ rest"
      using dec unfolding p_trade_batch_def pbind_Ok codec.accepts [OF trades_codec]
      by (auto dest!: p_trade_count_Ok simp: sound_simps trade_order.accepts)
    have "batch = \<lparr>tb_trades = ts, tb_trade_order = orb, tb_cumulative_volume = vol, tb_annotations = ann,
        tb_market_signal = NoObservation\<rparr>"
      using new by (cases vol) (auto simp: trade_batch_new_def split: if_splits)
    then show ?thesis
      using n bytes new p wfs tail by (auto simp: append_all_Cons_Ok append_length_Ok is_ok_iff)
  qed
qed (rule p_trade_batch_run)

interpretation payload: codec wf_payload
  "\<lambda>p. append_all [push (payload_discriminant p), encode_payload p]" p_payload
proof (rule codecI)
  show "is_ok (append_all [push (payload_discriminant p), encode_payload p])" if "wf_payload p" for p
    using that quote.total book_snap.total batch.total indicative.total status.total
    by (cases p) (simp_all del: wf_payload.simps encode_payload.simps)
  show "p_payload (b @ rest) = Ok (p, rest)"
    if "wf_payload p" "append_all [push (payload_discriminant p), encode_payload p] = Ok b" for p b rest
    using that by (cases p) (auto simp: p_payload_def payload_discriminant_def append_all_Cons_Ok push_Ok
        p_u8_dispatch quote.bind_run book_snap.bind_run batch.bind_run indicative.bind_run status.bind_run
        parse_basic simp del: wf_payload.simps encode_payload.simps)
  show "wf_payload p \<and> (\<exists>b. append_all [push (payload_discriminant p), encode_payload p] = Ok b \<and> bs = b @ rest)"
    if "p_payload bs = Ok (p, rest)" for p bs rest
    using that by (auto simp: p_payload_def payload_discriminant_def append_all_Cons_Ok push_Ok
        p_u8_Ok pbind_Ok preturn_Ok pfail_Ok quote.accepts book_snap.accepts batch.accepts
        indicative.accepts status.accepts
        split: if_splits simp del: wf_payload.simps encode_payload.simps)
qed

subsection \<open>The frame\<close>

lemma supported_ranges:
  "is_utc_iso8601_representable t \<Longrightarrow> in_i64 t"
  "MIN_EPOCH_DAYS \<le> d \<Longrightarrow> d \<le> MAX_EPOCH_DAYS \<Longrightarrow> in_i32 d"
  by (auto simp: is_utc_iso8601_representable_def MIN_SUPPORTED_UNIX_MICROSECONDS_def
      MAX_SUPPORTED_UNIX_MICROSECONDS_def MIN_EPOCH_DAYS_def MAX_EPOCH_DAYS_def range_defs)

definition header_bytes :: bytes where
  "header_bytes = CANONICAL_MAGIC @ be_bytes 2 CANONICAL_EVENT_VERSION @ be_bytes 2 EVENT_SCHEMA_VERSION"

lemma p_header_run [parse]: "pbind p_header f (header_bytes @ rest) = f () rest"
proof -
  have "p_header (header_bytes @ rest) = Ok ((), rest)"
    by (simp add: p_header_def header_bytes_def parse_basic parse_unsigned CANONICAL_MAGIC_def
        CANONICAL_EVENT_VERSION_def EVENT_SCHEMA_VERSION_def)
  then show ?thesis by (simp add: pbind_def)
qed

lemma p_header_Ok [parsed]: "p_header bs = Ok (u, rest) \<longleftrightarrow> bs = header_bytes @ rest"
proof
  assume "p_header bs = Ok (u, rest)"
  then show "bs = header_bytes @ rest"
    by (auto simp: p_header_def header_bytes_def parsed split: if_splits)
next
  assume "bs = header_bytes @ rest"
  then have "pbind p_header preturn bs = preturn () rest" by (simp add: p_header_run)
  then show "p_header bs = Ok (u, rest)" by (auto simp: pbind_Ok preturn_def)
qed

lemma p_match_time_Ok [parsed]:
  "p_match_time bs = Ok (t, rest) \<longleftrightarrow> is_utc_iso8601_representable t \<and> bs = be_bytes_signed 8 t @ rest"
  using supported_ranges(1) [of t]
  by (cases "is_utc_iso8601_representable t") (auto simp: p_match_time_def parsed split: if_splits)

lemma p_match_time_run [parse]:
  "is_utc_iso8601_representable t \<Longrightarrow> pbind p_match_time f (be_bytes_signed 8 t @ rest) = f t rest"
  by (simp add: pbind_run p_match_time_Ok)

lemma market_byte_Ok:
  "market_from_discriminant (unat (w :: u8)) = Ok m \<longleftrightarrow> w = word_of_nat (market_discriminant m)"
proof -
  have "market_discriminant m < 256" using market_discriminant_less [of m] by simp
  then show ?thesis by (simp add: market_from_discriminant_Ok unat_u8_eq)
qed

lemma market_byte [parse]:
  "market_from_discriminant (unat (word_of_nat (market_discriminant m) :: u8)) = Ok m"
  by (simp add: market_byte_Ok)

lemma to_canonical_bytes_Ok:
  "to_canonical_bytes e = Ok b \<longleftrightarrow>
     is_utc_iso8601_representable (ev_match_time e) \<and> in_u32 (length (snd (ev_instrument e))) \<and>
     in_u32 (length (ev_source_format e)) \<and>
     (\<exists>sq pl. append_optional_u64 (ev_source_sequence e) = Ok sq \<and>
        append_all [push (payload_discriminant (ev_payload e)), encode_payload (ev_payload e)] = Ok pl \<and>
        b = header_bytes @ word_of_nat (market_discriminant (fst (ev_instrument e))) #
          be_bytes 4 (length (snd (ev_instrument e))) @ as_bytes (snd (ev_instrument e)) @
          be_bytes_signed 4 (ev_trading_date e) @
          be_bytes 4 (length (ev_source_format e)) @ as_bytes (ev_source_format e) @
          be_bytes_signed 8 (ev_match_time e) @ sq @ pl)"
  by (auto simp: to_canonical_bytes_def header_bytes_def append_all_Cons_Ok append_bytes_Ok push_Ok)

interpretation event: codec wf_event to_canonical_bytes p_event
proof (rule codecI)
  fix e p bs rest
  show "is_ok (to_canonical_bytes e)" if "wf_event e"
  proof -
    have "is_ok (encode_payload (ev_payload e))"
      using that payload.total [of "ev_payload e"] by (simp add: wf_event_def)
    then show ?thesis
      using that optional_u64.total [of "ev_source_sequence e"]
      by (simp add: wf_event_def to_canonical_bytes_def append_bytes_def append_length_def)
  qed
  show "p_event (p @ rest) = Ok (e, rest)" if "wf_event e" "to_canonical_bytes e = Ok p"
    using that unfolding to_canonical_bytes_Ok
    by (cases "ev_instrument e") (auto simp: p_event_def wf_event_def wf_text_id_def parse_basic
        p_header_run p_u8_dispatch market_byte parse_text parse_signed symbol_new_def source_format_new_def
        trading_date_from_epoch_days_def supported_ranges p_match_time_run optional_u64.bind_run
        payload.bind_run)
  show "wf_event e \<and> (\<exists>p. to_canonical_bytes e = Ok p \<and> bs = p @ rest)"
    if "p_event bs = Ok (e, rest)"
    using that unfolding to_canonical_bytes_Ok
    by (auto simp: p_event_def wf_event_def wf_text_id_def pbind_Ok pcheck_Ok preturn_Ok p_header_Ok
        p_u8_Ok market_byte_Ok p_string_Ok fixed_width_Ok symbol_new_def source_format_new_def
        trading_date_from_epoch_days_def p_match_time_Ok optional_u64.accepts
        payload.accepts split: if_splits)
qed

section \<open>Properties of the canonical frame\<close>

text \<open>The smallest useful event, used as the concrete input below.\<close>

definition sample_status_event :: domain_event where
  "sample_status_event =
     \<lparr>ev_instrument = (Twse, ''2330''), ev_trading_date = 20000, ev_source_format = ''STOCK_REALTIME'',
      ev_match_time = 1728000000000000, ev_source_sequence = Some 7,
      ev_payload = PMarketStatus \<lparr>ms_cumulative_volume = Set \<lparr>v_value = 12, v_unit = TradingUnit\<rparr>,
        ms_annotations = AnnNone,
        ms_market_signal = Set (AuctionCollecting (auction_new Opening True False))\<rparr>\<rparr>"

lemma utf8_valid_ascii: "list_all (\<lambda>c. of_char c < (128 :: nat)) s \<Longrightarrow> utf8_valid s"
  by (induction s) auto

lemma sample_status_event_wf: "wf_event sample_status_event"
  by (simp add: sample_status_event_def wf_event_def wf_text_id_def utf8_valid_ascii range_defs
      is_utc_iso8601_representable_def MIN_SUPPORTED_UNIX_MICROSECONDS_def MAX_SUPPORTED_UNIX_MICROSECONDS_def
      MIN_EPOCH_DAYS_def MAX_EPOCH_DAYS_def wf_volume_def constructors_valid)

text \<open>
  C15: the decoder accepts exactly the canonical encodings. \<open>from_canonical_bytes\<close> answers an event
  precisely when the bytes are \<open>to_canonical_bytes\<close> of that event and the event satisfies every
  invariant its types and constructors promise; so a decoded event re-encodes to the very same bytes,
  an encoded event decodes to itself, and no second byte string decodes to the same event.
\<close>

theorem canonical_bytes_exact:
  "from_canonical_bytes bs = Ok e \<longleftrightarrow> wf_event e \<and> to_canonical_bytes e = Ok bs"
proof -
  have "from_canonical_bytes bs = Ok e \<longleftrightarrow> p_event bs = Ok (e, [])"
    by (cases "p_event bs") (auto simp: from_canonical_bytes_def split: if_splits)
  then show ?thesis by (simp add: event.accepts)
qed

text \<open>
  Every well-formed event has a canonical encoding, and the encoding is prefix free: when the
  frames of two well-formed events, each followed by arbitrary bytes, agree, the events, the frames
  and the following bytes agree.
\<close>

theorem canonical_bytes_prefix_free:
  assumes "wf_event e" and "wf_event f"
  shows "\<exists>p q. to_canonical_bytes e = Ok p \<and> to_canonical_bytes f = Ok q \<and>
    (\<forall>r s. p @ r = q @ s \<longrightarrow> e = f \<and> p = q \<and> r = s)"
proof -
  obtain p q where "to_canonical_bytes e = Ok p" and "to_canonical_bytes f = Ok q"
    using event.total assms is_ok_iff by metis
  with event.prefix_free [OF assms this] show ?thesis by blast
qed

theorem canonical_bytes_prefix_free_witness:
  "wf_event sample_status_event \<and> (\<exists>p q. to_canonical_bytes sample_status_event = Ok p \<and>
     to_canonical_bytes (sample_status_event\<lparr>ev_source_sequence := None\<rparr>) = Ok q \<and> p \<noteq> q)"
proof -
  define e where "e = sample_status_event"
  define f where "f = sample_status_event\<lparr>ev_source_sequence := None\<rparr>"
  have "wf_event e" using sample_status_event_wf by (simp add: e_def)
  moreover have "wf_event f" using sample_status_event_wf by (simp add: f_def wf_event_def)
  ultimately obtain p q where "to_canonical_bytes e = Ok p" "to_canonical_bytes f = Ok q"
      and inj: "\<forall>r s. p @ r = q @ s \<longrightarrow> e = f \<and> p = q \<and> r = s"
    using canonical_bytes_prefix_free [of e f] by auto
  moreover have "e \<noteq> f" by (simp add: e_def f_def sample_status_event_def)
  ultimately show ?thesis
    using \<open>wf_event e\<close> unfolding e_def f_def by blast
qed

end
