(* ===== verification/MarketState.thy ===== *)
theory MarketState
  imports Codec "HOL-Library.Multiset"
begin

text \<open>
  The per-instrument market state and the profiles that say which events a market accepts:
  \<open>crates/market-state/src/model.rs\<close> and \<open>profile.rs\<close>. Every observable field of the state carries
  the reference of the event that set it; the reference is also the ordering key of the reducer.
\<close>

section \<open>Applied events\<close>

text \<open>The derived order of \<open>EventKind\<close> is the order of its discriminants.\<close>

instantiation event_kind :: linorder
begin

definition less_eq_event_kind :: "event_kind \<Rightarrow> event_kind \<Rightarrow> bool" where
  "less_eq_event_kind a b \<longleftrightarrow> kind_discriminant a \<le> kind_discriminant b"

definition less_event_kind :: "event_kind \<Rightarrow> event_kind \<Rightarrow> bool" where
  "less_event_kind a b \<longleftrightarrow> kind_discriminant a < kind_discriminant b"

instance
proof
  fix a b c :: event_kind
  show "(a < b) = (a \<le> b \<and> \<not> b \<le> a)" by (auto simp: less_eq_event_kind_def less_event_kind_def)
  show "a \<le> a" by (simp add: less_eq_event_kind_def)
  show "a \<le> b \<Longrightarrow> b \<le> c \<Longrightarrow> a \<le> c" by (simp add: less_eq_event_kind_def)
  show "a \<le> b \<Longrightarrow> b \<le> a \<Longrightarrow> a = b"
    by (cases a; cases b) (simp_all add: less_eq_event_kind_def)
  show "a \<le> b \<or> b \<le> a" by (auto simp: less_eq_event_kind_def)
qed

end

type_synonym session_segment_id = string

definition session_segment_id_new :: "string \<Rightarrow> (session_segment_id, empty_text_error) result" where
  "session_segment_id_new s = (if s = [] then Err EmptyText else Ok s)"

record applied_event_ref =
  ar_match_time :: int
  ar_source_format :: source_format_id
  ar_source_phase :: nat
  ar_event_kind :: event_kind
  ar_source_sequence :: "nat option"
  ar_fingerprint :: bytes

definition source_phase_for_event :: "domain_event \<Rightarrow> nat" where
  "source_phase_for_event e =
     (if fst (ev_instrument e) \<notin> {Twse, Tpex} \<or> ev_source_format e \<noteq> ''STOCK_REALTIME'' then 0
      else case ev_payload e of
          PTradeBatch b \<Rightarrow> 10
        | PQuoteSnapshot s \<Rightarrow> 20
        | PBookSnapshot s \<Rightarrow> 20
        | PMarketStatus s \<Rightarrow> 20
        | PIndicativeAuction a \<Rightarrow> if as_set (ia_book a) \<noteq> None then 20 else 10)"

definition applied_event_ref_from_event ::
  "(bytes \<Rightarrow> bytes) \<Rightarrow> domain_event \<Rightarrow> (applied_event_ref, canonical_encoding_error) result" where
  "applied_event_ref_from_event hash e =
     rbind (event_fingerprint hash e) (\<lambda>fp.
       Ok \<lparr>ar_match_time = ev_match_time e, ar_source_format = ev_source_format e,
           ar_source_phase = source_phase_for_event e, ar_event_kind = payload_kind (ev_payload e),
           ar_source_sequence = ev_source_sequence e, ar_fingerprint = fp\<rparr>)"

section \<open>State fields\<close>

datatype unavailable_reason = ReasonInitial | ReasonCleared applied_event_ref

datatype 'a state_field =
    FieldUnavailable unavailable_reason
  | FieldKnown 'a applied_event_ref
  | FieldUnknown unknown_value applied_event_ref

abbreviation field_initial :: "'a state_field" where
  "field_initial \<equiv> FieldUnavailable ReasonInitial"

abbreviation field_cleared :: "applied_event_ref \<Rightarrow> 'a state_field" where
  "field_cleared r \<equiv> FieldUnavailable (ReasonCleared r)"

fun known :: "'a state_field \<Rightarrow> 'a option" where
  "known (FieldKnown v r) = Some v"
| "known _ = None"

fun observed_at :: "'a state_field \<Rightarrow> applied_event_ref option" where
  "observed_at (FieldKnown v r) = Some r"
| "observed_at (FieldUnknown u r) = Some r"
| "observed_at (FieldUnavailable (ReasonCleared r)) = Some r"
| "observed_at (FieldUnavailable ReasonInitial) = None"

text \<open>An \<open>AuctionState\<close> wraps one auction observation.\<close>

datatype market_phase = PhaseContinuous | PhaseAuction auction_observation | PhaseClosed

datatype trade_observation = TradeSingle observed_trade | TradeMany "observed_trade list" trade_batch_ordering

datatype model_error = EmptyTradeBatch

definition trade_observation_batch ::
  "observed_trade list \<Rightarrow> trade_batch_ordering \<Rightarrow> (trade_observation, model_error) result" where
  "trade_observation_batch ts ord = (if ts = [] then Err EmptyTradeBatch else Ok (TradeMany ts ord))"

fun trade_observation_trades :: "trade_observation \<Rightarrow> observed_trade list" where
  "trade_observation_trades (TradeSingle t) = [t]"
| "trade_observation_trades (TradeMany ts ord) = ts"

section \<open>The state\<close>

record market_state =
  st_instrument :: instrument_id
  st_trading_date :: int
  st_segment :: "session_segment_id option"
  st_book :: "complete_book state_field"
  st_recent_trade :: "trade_observation state_field"
  st_cumulative_volume :: "volume state_field"
  st_indicative_auction :: "indicative_auction state_field"
  st_market_signal :: "market_signal state_field"
  st_phase :: "market_phase state_field"
  st_last_event :: "applied_event_ref option"
  st_version :: nat

definition market_state_new :: "instrument_id \<Rightarrow> int \<Rightarrow> market_state" where
  "market_state_new instrument date =
     \<lparr>st_instrument = instrument, st_trading_date = date, st_segment = None,
      st_book = field_initial, st_recent_trade = field_initial, st_cumulative_volume = field_initial,
      st_indicative_auction = field_initial, st_market_signal = field_initial,
      st_phase = field_initial, st_last_event = None, st_version = 0\<rparr>"

definition reset_observable_fields :: "market_state \<Rightarrow> market_state" where
  "reset_observable_fields s =
     s\<lparr>st_book := field_initial, st_recent_trade := field_initial, st_cumulative_volume := field_initial,
       st_indicative_auction := field_initial, st_market_signal := field_initial, st_phase := field_initial\<rparr>"

definition finish_event :: "market_state \<Rightarrow> applied_event_ref \<Rightarrow> nat \<Rightarrow> market_state" where
  "finish_event s r version = s\<lparr>st_last_event := Some r, st_version := version\<rparr>"

subsection \<open>Views\<close>

definition first_level :: "book_side \<Rightarrow> book_level option" where
  "first_level s = (case side_levels s of [] \<Rightarrow> None | l # _ \<Rightarrow> Some l)"

definition best_bid :: "market_state \<Rightarrow> book_level option" where
  "best_bid s = Option.bind (known (st_book s)) (\<lambda>b. first_level (cb_bids b))"

definition best_ask :: "market_state \<Rightarrow> book_level option" where
  "best_ask s = Option.bind (known (st_book s)) (\<lambda>b. first_level (cb_asks b))"

datatype last_trade_unavailable = LtState unavailable_reason | AmbiguousBatchOrder
datatype last_trade =
  LastKnown observed_trade | LastUnavailable last_trade_unavailable | LastUnknown unknown_value

text \<open>
  \<open>last_trade\<close>: the last trade of a batch is only known when the source order was preserved. The
  \<open>expect\<close> on an empty batch is unreachable, because batches are non-empty.
\<close>

fun view_last_trade :: "trade_observation state_field \<Rightarrow> last_trade" where
  "view_last_trade (FieldUnavailable reason) = LastUnavailable (LtState reason)"
| "view_last_trade (FieldUnknown raw r) = LastUnknown raw"
| "view_last_trade (FieldKnown (TradeSingle t) r) = LastKnown t"
| "view_last_trade (FieldKnown (TradeMany ts SourceSequencePreserved) r) = LastKnown (last ts)"
| "view_last_trade (FieldKnown (TradeMany ts Unspecified) r) = LastUnavailable AmbiguousBatchOrder"

section \<open>Profiles\<close>

datatype cumulative_volume_policy = Unconstrained | NonDecreasingWithinSegment quantity_unit

datatype profile_error =
    EmptySourceRules | EmptyEventKindSet | DuplicateSourceFormat | ZeroBoundaryPolicyVersion
  | MarketMismatch | UnsupportedSourceFormat | UnsupportedEventKind

record source_format_rule =
  sr_source_format :: source_format_id
  sr_kinds :: "event_kind list"

definition source_format_rule_new ::
  "source_format_id \<Rightarrow> event_kind list \<Rightarrow> (source_format_rule, profile_error) result" where
  "source_format_rule_new fmt kinds =
     (let ks = remdups_adj (sort kinds) in
      if ks = [] then Err EmptyEventKindSet else Ok \<lparr>sr_source_format = fmt, sr_kinds = ks\<rparr>)"

record market_state_profile =
  pr_market :: market_id
  pr_source_rules :: "source_format_rule list"
  pr_volume_policy :: cumulative_volume_policy
  pr_boundary_version :: nat

definition profile_new ::
  "market_id \<Rightarrow> source_format_rule list \<Rightarrow> cumulative_volume_policy \<Rightarrow> nat \<Rightarrow>
   (market_state_profile, profile_error) result" where
  "profile_new market rules policy version =
     (if rules = [] then Err EmptySourceRules
      else let sorted_rules = sort_key sr_source_format rules in
        if any_adjacent (\<lambda>a b. sr_source_format a = sr_source_format b) sorted_rules
        then Err DuplicateSourceFormat
        else if version = 0 then Err ZeroBoundaryPolicyVersion
        else Ok \<lparr>pr_market = market, pr_source_rules = sorted_rules, pr_volume_policy = policy,
                 pr_boundary_version = version\<rparr>)"

definition quote_rules :: "string \<Rightarrow> string \<Rightarrow> (source_format_rule list, profile_error) result" where
  "quote_rules realtime snapshot =
     rbind (source_format_rule_new realtime [KQuoteSnapshot, KTradeBatch, KIndicativeAuction, KMarketStatus]) (\<lambda>r.
       rbind (source_format_rule_new snapshot [KQuoteSnapshot, KIndicativeAuction, KMarketStatus]) (\<lambda>s. Ok [r, s]))"

definition twse_regular :: "(market_state_profile, profile_error) result" where
  "twse_regular = rbind (quote_rules ''STOCK_REALTIME'' ''STOCK_SNAPSHOT'') (\<lambda>rs.
     profile_new Twse rs (NonDecreasingWithinSegment TradingUnit) 1)"

definition twse_warrant :: "(market_state_profile, profile_error) result" where
  "twse_warrant = rbind (quote_rules ''WARRANT_REALTIME'' ''WARRANT_SNAPSHOT'') (\<lambda>rs.
     profile_new Twse rs (NonDecreasingWithinSegment TradingUnit) 1)"

definition tpex_quote :: "string \<Rightarrow> string \<Rightarrow> (market_state_profile, profile_error) result" where
  "tpex_quote realtime snapshot = rbind (quote_rules realtime snapshot) (\<lambda>rs.
     profile_new Tpex rs (NonDecreasingWithinSegment TradingUnit) 1)"

definition tpex_regular :: "(market_state_profile, profile_error) result" where
  "tpex_regular = tpex_quote ''STOCK_REALTIME'' ''STOCK_SNAPSHOT''"

definition tpex_warrant :: "(market_state_profile, profile_error) result" where
  "tpex_warrant = tpex_quote ''WARRANT_REALTIME'' ''WARRANT_SNAPSHOT''"

definition taifex_rules :: "(source_format_rule list, profile_error) result" where
  "taifex_rules =
     rbind (source_format_rule_new ''I020'' [KTradeBatch]) (\<lambda>a.
     rbind (source_format_rule_new ''I022'' [KIndicativeAuction]) (\<lambda>b.
     rbind (source_format_rule_new ''I080'' [KBookSnapshot]) (\<lambda>c.
     rbind (source_format_rule_new ''I082'' [KBookSnapshot]) (\<lambda>d. Ok [a, b, c, d]))))"

definition taifex_futures :: "(market_state_profile, profile_error) result" where
  "taifex_futures = rbind taifex_rules (\<lambda>rs. profile_new Taifex rs Unconstrained 1)"

definition taifex_options :: "(market_state_profile, profile_error) result" where
  "taifex_options = rbind taifex_rules (\<lambda>rs. profile_new Taifex rs Unconstrained 1)"

definition validate_event :: "market_state_profile \<Rightarrow> domain_event \<Rightarrow> (unit, profile_error) result" where
  "validate_event p e =
     (if fst (ev_instrument e) \<noteq> pr_market p then Err MarketMismatch
      else case find (\<lambda>r. sr_source_format r = ev_source_format e) (pr_source_rules p) of
        None \<Rightarrow> Err UnsupportedSourceFormat
      | Some rule \<Rightarrow> if payload_kind (ev_payload e) \<notin> set (sr_kinds rule) then Err UnsupportedEventKind
                     else Ok ())"

section \<open>What a profile accepts\<close>

text \<open>The \<open>expect\<close> calls of the built-in profiles never panic.\<close>

lemma builtin_profiles_valid:
  "is_ok twse_regular" "is_ok twse_warrant" "is_ok tpex_regular" "is_ok tpex_warrant"
  "is_ok taifex_futures" "is_ok taifex_options"
  by code_simp+

lemma profile_new_Ok:
  assumes "profile_new market rules policy version = Ok p"
  shows "pr_market p = market" and "mset (pr_source_rules p) = mset rules"
    and "distinct (map sr_source_format (pr_source_rules p))" and "pr_volume_policy p = policy"
    and "pr_boundary_version p = version" and "0 < version"
proof -
  have p: "p = \<lparr>pr_market = market, pr_source_rules = sort_key sr_source_format rules,
      pr_volume_policy = policy, pr_boundary_version = version\<rparr>"
    and adj: "\<not> any_adjacent (\<lambda>a b. sr_source_format a = sr_source_format b) (sort_key sr_source_format rules)"
    and v: "version \<noteq> 0"
    using assms by (auto simp: profile_new_def Let_def split: if_splits)
  show "distinct (map sr_source_format (pr_source_rules p))"
    unfolding p using sorted_no_adjacent_distinct [OF _ adj] by simp
qed (use assms in \<open>auto simp: profile_new_def Let_def split: if_splits\<close>)

lemma find_distinct_key:
  assumes "distinct (map f xs)" and "x \<in> set xs"
  shows "find (\<lambda>y. f y = f x) xs = Some x"
  using assms by (induction xs) (auto simp: image_iff)

lemma find_key_None: "find (\<lambda>y. f y = k) xs = None \<longleftrightarrow> k \<notin> f ` set xs"
  by (induction xs) auto

text \<open>
  A profile accepts an event exactly when the event's market is the profile's and some declared
  source rule names the event's source format and accepts its kind; the order in which the rules were
  given is irrelevant, because duplicate formats are refused.
\<close>

theorem profile_accepts_iff:
  assumes "profile_new market rules policy version = Ok p"
  shows "validate_event p e = Ok () \<longleftrightarrow>
    fst (ev_instrument e) = market \<and>
    (\<exists>r \<in> set rules. sr_source_format r = ev_source_format e \<and> payload_kind (ev_payload e) \<in> set (sr_kinds r))"
proof -
  note facts = profile_new_Ok [OF assms]
  have same: "set (pr_source_rules p) = set rules" using facts(2) by (rule mset_eq_setD)
  have found: "find (\<lambda>y. sr_source_format y = ev_source_format e) (pr_source_rules p) = Some r"
    if "r \<in> set rules" "sr_source_format r = ev_source_format e" for r
    using find_distinct_key [OF facts(3), of r] that same by simp
  show ?thesis
  proof (cases "ev_source_format e \<in> sr_source_format ` set rules")
    case True
    then obtain r where r: "r \<in> set rules" "sr_source_format r = ev_source_format e" by force
    have uniq: "r' = r" if "r' \<in> set rules" "sr_source_format r' = ev_source_format e" for r'
      using found [OF r] found [OF that] by simp
    have "validate_event p e = Ok () \<longleftrightarrow>
        fst (ev_instrument e) = market \<and> payload_kind (ev_payload e) \<in> set (sr_kinds r)"
      unfolding validate_event_def found [OF r] facts(1) by simp
    then show ?thesis using r uniq by blast
  next
    case False
    then have "find (\<lambda>y. sr_source_format y = ev_source_format e) (pr_source_rules p) = None"
      using same by (simp add: find_key_None)
    then have "validate_event p e \<noteq> Ok ()" by (simp add: validate_event_def)
    then show ?thesis using False by force
  qed
qed

theorem profile_accepts_iff_witness:
  "\<exists>p. profile_new Taifex [\<lparr>sr_source_format = ''I080'', sr_kinds = [KBookSnapshot]\<rparr>,
       \<lparr>sr_source_format = ''I020'', sr_kinds = [KTradeBatch]\<rparr>] Unconstrained 1 = Ok p \<and>
     validate_event p sample_status_event \<noteq> Ok ()"
proof -
  define rules where "rules = [\<lparr>sr_source_format = ''I080'', sr_kinds = [KBookSnapshot]\<rparr>,
       \<lparr>sr_source_format = ''I020'', sr_kinds = [KTradeBatch]\<rparr>]"
  have "is_ok (profile_new Taifex rules Unconstrained 1)" unfolding rules_def by code_simp
  then obtain p where p: "profile_new Taifex rules Unconstrained 1 = Ok p" by (auto simp: is_ok_iff)
  have "validate_event p sample_status_event \<noteq> Ok ()"
    using profile_accepts_iff [OF p, of sample_status_event] by (simp add: sample_status_event_def)
  with p show ?thesis by (auto simp: rules_def)
qed

end
