(* ===== verification/Reducer.thy ===== *)
theory Reducer
  imports MarketState
begin

text \<open>
  The market-state reducer of \<open>crates/market-state/src/reducer.rs\<close>: a pure proposal from a state, an
  event and a session context, and its commit. The three values the Rust code updates in place while
  it builds a proposal (the next state, the set of changed fields, the set of warnings) are the record
  \<open>draft\<close>. The hash of the event fingerprint is a parameter. The theory proves what each event does to
  the state, the invariants of every state reachable by accepted events, and that accepted event
  sequences are ordered.
\<close>

section \<open>Model\<close>

datatype segment_boundary_policy = Carry | ResetObservableFields

record reducer_context =
  rc_trading_date :: int
  rc_segment :: session_segment_id
  rc_boundary_policy :: segment_boundary_policy
  rc_boundary_version :: nat

datatype changed_field =
    ChCurrentSegment | ChBook | ChRecentTrade | ChCumulativeVolume | ChIndicativeAuction
  | ChMarketSignal | ChPhase | ChLastEvent

datatype state_warning_code = UnknownRecentTrade | UnknownCumulativeVolume

datatype boundary_action = ActionResetObservableFields

datatype state_transition_error =
    InstrumentMismatch
  | TradingDateMismatch
  | BoundaryPolicyVersionMismatch
  | ProfileRejected profile_error
  | CanonicalEncodingFailed canonical_encoding_error
  | MatchTimeRegression
  | OrderingRegression
  | InvalidTwseRealtimeShape
  | InvalidTpexRealtimeShape
  | CumulativeVolumeRegression nat nat
  | TransitionVolumeUnitMismatch quantity_unit quantity_unit
  | StateVersionOverflow
  | StaleProposal

record transition_receipt =
  tr_instrument :: instrument_id
  tr_previous_version :: nat
  tr_new_version :: nat
  tr_event :: applied_event_ref
  tr_boundary_action :: "boundary_action option"
  tr_changed_fields :: "changed_field list"
  tr_warning_codes :: "state_warning_code list"

record proposed_transition =
  pt_previous_version :: nat
  pt_next_state :: market_state
  pt_receipt :: transition_receipt

record draft =
  dr_state :: market_state
  dr_changed :: "changed_field set"
  dr_warnings :: "state_warning_code set"

text \<open>The iteration order of the two \<open>BTreeSet\<close>s is the derived order of the enumerations.\<close>

definition changed_in_order :: "changed_field set \<Rightarrow> changed_field list" where
  "changed_in_order c =
     filter (\<lambda>f. f \<in> c) [ChCurrentSegment, ChBook, ChRecentTrade, ChCumulativeVolume,
       ChIndicativeAuction, ChMarketSignal, ChPhase, ChLastEvent]"

definition warnings_in_order :: "state_warning_code set \<Rightarrow> state_warning_code list" where
  "warnings_in_order w = filter (\<lambda>f. f \<in> w) [UnknownRecentTrade, UnknownCumulativeVolume]"

definition mark :: "changed_field \<Rightarrow> draft \<Rightarrow> draft" where
  "mark f d = d\<lparr>dr_changed := insert f (dr_changed d)\<rparr>"

definition warn :: "state_warning_code \<Rightarrow> draft \<Rightarrow> draft" where
  "warn w d = d\<lparr>dr_warnings := insert w (dr_warnings d)\<rparr>"

definition update_state :: "(market_state \<Rightarrow> market_state) \<Rightarrow> draft \<Rightarrow> draft" where
  "update_state f d = d\<lparr>dr_state := f (dr_state d)\<rparr>"

subsection \<open>Auction rounds and phases\<close>

definition current_auction_observation :: "market_state \<Rightarrow> auction_observation option" where
  "current_auction_observation s =
     (case known (st_phase s) of
        Some (PhaseAuction ob) \<Rightarrow> Some ob
      | _ \<Rightarrow> map_option ia_observation (known (st_indicative_auction s)))"

definition starts_new_auction :: "auction_observation \<Rightarrow> auction_observation \<Rightarrow> bool" where
  "starts_new_auction previous current \<longleftrightarrow>
     (case (ao_purpose previous, ao_purpose current) of
        (EvKnown p, EvKnown c) \<Rightarrow> p \<noteq> c
      | _ \<Rightarrow> False)"

definition merge_with_current_auction :: "market_state \<Rightarrow> auction_observation \<Rightarrow> auction_observation" where
  "merge_with_current_auction s ob =
     (case current_auction_observation s of
        None \<Rightarrow> ob
      | Some previous \<Rightarrow> if starts_new_auction previous ob then ob else auction_merge ob previous)"

definition next_periodic_auction_round :: "auction_observation \<Rightarrow> auction_observation" where
  "next_periodic_auction_round r = auction_periodic_with_evidence (EvKnown False) (ao_disposal r)"

definition post_market_phase :: "market_signal \<Rightarrow> market_phase option" where
  "post_market_phase sig =
     (case sig of
        SigContinuous \<Rightarrow> Some PhaseContinuous
      | SigClosed \<Rightarrow> Some PhaseClosed
      | AuctionCollecting ob \<Rightarrow> Some (PhaseAuction ob)
      | AuctionUncross ob \<Rightarrow>
          (case ao_purpose ob of
             EvKnown Opening \<Rightarrow> Some PhaseContinuous
           | EvKnown VolatilityInterruption \<Rightarrow> Some PhaseContinuous
           | EvKnown Closing \<Rightarrow> Some PhaseClosed
           | EvKnown Periodic \<Rightarrow> Some (PhaseAuction (next_periodic_auction_round ob))
           | EvNoObservation \<Rightarrow> None
           | EvUnknown \<Rightarrow> None))"

definition clear_indicative_auction :: "applied_event_ref \<Rightarrow> draft \<Rightarrow> draft" where
  "clear_indicative_auction r d =
     (case st_indicative_auction (dr_state d) of
        FieldUnavailable _ \<Rightarrow> d
      | _ \<Rightarrow> mark ChIndicativeAuction (update_state (st_indicative_auction_update (\<lambda>_. field_cleared r)) d))"

definition phase_unavailable_text :: unknown_value where
  "phase_unavailable_text = UvText ''auction purpose unavailable''"

definition merged_signal :: "market_state \<Rightarrow> market_signal \<Rightarrow> market_signal" where
  "merged_signal s sig =
     (case sig of
        AuctionCollecting ob \<Rightarrow> AuctionCollecting (merge_with_current_auction s ob)
      | AuctionUncross ob \<Rightarrow> AuctionUncross (merge_with_current_auction s ob)
      | SigContinuous \<Rightarrow> SigContinuous
      | SigClosed \<Rightarrow> SigClosed)"

fun is_collecting :: "market_signal \<Rightarrow> bool" where
  "is_collecting (AuctionCollecting ob) = True"
| "is_collecting _ = False"

definition phase_field :: "market_signal \<Rightarrow> applied_event_ref \<Rightarrow> market_phase state_field" where
  "phase_field sig r =
     (case post_market_phase sig of
        Some ph \<Rightarrow> FieldKnown ph r
      | None \<Rightarrow> FieldUnknown phase_unavailable_text r)"

definition set_signal_and_phase ::
  "market_signal state_field \<Rightarrow> market_phase state_field \<Rightarrow> draft \<Rightarrow> draft" where
  "set_signal_and_phase sig ph d =
     mark ChPhase (mark ChMarketSignal
       (update_state (\<lambda>s. s\<lparr>st_market_signal := sig, st_phase := ph\<rparr>) d))"

definition apply_market_signal ::
  "market_signal observation \<Rightarrow> applied_event_ref \<Rightarrow> draft \<Rightarrow> draft" where
  "apply_market_signal ob r d =
     (case ob of
        NoObservation \<Rightarrow> d
      | Set sig \<Rightarrow>
          (let signal = merged_signal (dr_state d) sig;
               d1 = (if is_collecting signal then d else clear_indicative_auction r d)
           in set_signal_and_phase (FieldKnown signal r) (phase_field signal r) d1)
      | Clear \<Rightarrow> set_signal_and_phase (field_cleared r) (field_cleared r) d
      | Unknown raw \<Rightarrow> set_signal_and_phase (FieldUnknown raw r) (FieldUnknown raw r) d)"

subsection \<open>Trades and cumulative volume\<close>

definition apply_trade_observation ::
  "observed_trade observation \<Rightarrow> applied_event_ref \<Rightarrow> draft \<Rightarrow> draft" where
  "apply_trade_observation ob r d =
     (case ob of
        NoObservation \<Rightarrow> d
      | Set t \<Rightarrow> mark ChRecentTrade
          (update_state (st_recent_trade_update (\<lambda>_. FieldKnown (TradeSingle t) r)) d)
      | Clear \<Rightarrow> mark ChRecentTrade (update_state (st_recent_trade_update (\<lambda>_. field_cleared r)) d)
      | Unknown raw \<Rightarrow> mark ChRecentTrade (warn UnknownRecentTrade
          (update_state (st_recent_trade_update (\<lambda>_. FieldUnknown raw r)) d)))"

definition validate_volume ::
  "cumulative_volume_policy \<Rightarrow> volume state_field \<Rightarrow> volume \<Rightarrow> bool \<Rightarrow>
   (unit, state_transition_error) result" where
  "validate_volume policy current new compare_previous =
     (case policy of
        Unconstrained \<Rightarrow> Ok ()
      | NonDecreasingWithinSegment u \<Rightarrow>
          if v_unit new \<noteq> u then Err (TransitionVolumeUnitMismatch u (v_unit new))
          else if compare_previous then
            (case current of
               FieldKnown v r \<Rightarrow>
                 if v_unit v \<noteq> u then Err (TransitionVolumeUnitMismatch u (v_unit v))
                 else if v_value new < v_value v
                 then Err (CumulativeVolumeRegression (v_value v) (v_value new))
                 else Ok ()
             | _ \<Rightarrow> Ok ())
          else Ok ())"

definition apply_volume_observation ::
  "cumulative_volume_policy \<Rightarrow> volume observation \<Rightarrow> applied_event_ref \<Rightarrow> bool \<Rightarrow> draft \<Rightarrow>
   (draft, state_transition_error) result" where
  "apply_volume_observation policy ob r compare_previous d =
     (case ob of
        NoObservation \<Rightarrow> Ok d
      | Set v \<Rightarrow>
          rbind (validate_volume policy (st_cumulative_volume (dr_state d)) v compare_previous) (\<lambda>_.
            Ok (mark ChCumulativeVolume
              (update_state (st_cumulative_volume_update (\<lambda>_. FieldKnown v r)) d)))
      | Clear \<Rightarrow> Ok (mark ChCumulativeVolume
          (update_state (st_cumulative_volume_update (\<lambda>_. field_cleared r)) d))
      | Unknown raw \<Rightarrow> Ok (mark ChCumulativeVolume (warn UnknownCumulativeVolume
          (update_state (st_cumulative_volume_update (\<lambda>_. FieldUnknown raw r)) d))))"

subsection \<open>Validation\<close>

definition validate_envelope ::
  "market_state_profile \<Rightarrow> market_state \<Rightarrow> domain_event \<Rightarrow> reducer_context \<Rightarrow>
   (unit, state_transition_error) result" where
  "validate_envelope p s e c =
     (if ev_instrument e \<noteq> st_instrument s then Err InstrumentMismatch
      else if ev_trading_date e \<noteq> st_trading_date s \<or> ev_trading_date e \<noteq> rc_trading_date c
      then Err TradingDateMismatch
      else if rc_boundary_version c \<noteq> pr_boundary_version p then Err BoundaryPolicyVersionMismatch
      else case map_option ar_match_time (st_last_event s) of
        Some last_time \<Rightarrow> if ev_match_time e < last_time then Err MatchTimeRegression else Ok ()
      | None \<Rightarrow> Ok ())"

definition validate_realtime_shape :: "domain_event \<Rightarrow> (unit, state_transition_error) result" where
  "validate_realtime_shape e =
     (if fst (ev_instrument e) = Taifex \<or> ev_source_format e \<noteq> ''STOCK_REALTIME'' then Ok ()
      else let err = (if fst (ev_instrument e) = Twse then InvalidTwseRealtimeShape
                      else InvalidTpexRealtimeShape) in
        case ev_payload e of
          PQuoteSnapshot _ \<Rightarrow> Ok ()
        | PTradeBatch b \<Rightarrow>
            if list_all (\<lambda>t. ot_kind t = Intermediate) (tb_trades b) then Ok () else Err err
        | PIndicativeAuction _ \<Rightarrow> Ok ()
        | PMarketStatus _ \<Rightarrow> Ok ()
        | PBookSnapshot _ \<Rightarrow> Err err)"

text \<open>\<open>compare_within_instrument\<close> is the lexicographic order of this key.\<close>

type_synonym ref_ordering = "int \<times> source_format_id \<times> nat \<times> event_kind \<times> nat option \<times> bytes"

definition ref_key :: "applied_event_ref \<Rightarrow> ref_ordering" where
  "ref_key r = (ar_match_time r, ar_source_format r, ar_source_phase r, ar_event_kind r,
     ar_source_sequence r, ar_fingerprint r)"

subsection \<open>Proposal and commit\<close>

definition enter_segment :: "market_state \<Rightarrow> reducer_context \<Rightarrow> applied_event_ref \<Rightarrow>
  draft \<times> boundary_action option" where
  "enter_segment s c r =
     (let d = \<lparr>dr_state = s, dr_changed = {}, dr_warnings = {}\<rparr> in
      if st_segment s \<noteq> Some (rc_segment c) then
        (let (d1, act) =
           (if st_segment s \<noteq> None \<and> rc_boundary_policy c = ResetObservableFields then
              (update_state reset_observable_fields
                 (d\<lparr>dr_changed := {ChBook, ChRecentTrade, ChCumulativeVolume, ChIndicativeAuction,
                                   ChMarketSignal, ChPhase}\<rparr>), Some ActionResetObservableFields)
            else if rc_boundary_policy c = Carry then (clear_indicative_auction r d, None)
            else (d, None))
         in (mark ChCurrentSegment (update_state (st_segment_update (\<lambda>_. Some (rc_segment c))) d1), act))
      else (d, None))"

definition apply_payload ::
  "cumulative_volume_policy \<Rightarrow> bool \<Rightarrow> applied_event_ref \<Rightarrow> event_payload \<Rightarrow> draft \<Rightarrow>
   (draft, state_transition_error) result" where
  "apply_payload policy compare_previous r payload d =
     (case payload of
        PQuoteSnapshot p \<Rightarrow>
          apply_volume_observation policy (qs_cumulative_volume p) r compare_previous
            (apply_trade_observation (qs_trade p) r
              (mark ChBook (update_state (st_book_update (\<lambda>_. FieldKnown (qs_book p) r)) d)))
      | PBookSnapshot p \<Rightarrow>
          Ok (mark ChBook (update_state (st_book_update (\<lambda>_. FieldKnown (bk_book p) r)) d))
      | PTradeBatch p \<Rightarrow>
          apply_volume_observation policy (tb_cumulative_volume p) r compare_previous
            (mark ChRecentTrade (update_state (st_recent_trade_update
              (\<lambda>_. FieldKnown (TradeMany (tb_trades p) (tb_trade_order p)) r)) d))
      | PIndicativeAuction a \<Rightarrow>
          (let ob = merge_with_current_auction (dr_state d) (ia_observation a) in
           Ok (mark ChIndicativeAuction (update_state (st_indicative_auction_update
             (\<lambda>_. FieldKnown (a\<lparr>ia_observation := ob\<rparr>) r)) d)))
      | PMarketStatus p \<Rightarrow>
          apply_volume_observation policy (ms_cumulative_volume p) r compare_previous d)"

definition propose ::
  "(bytes \<Rightarrow> bytes) \<Rightarrow> market_state_profile \<Rightarrow> market_state \<Rightarrow> domain_event \<Rightarrow> reducer_context \<Rightarrow>
   (proposed_transition, state_transition_error) result" where
  "propose hash p s e c =
     rbind (validate_envelope p s e c) (\<lambda>_.
     rbind (map_err ProfileRejected (validate_event p e)) (\<lambda>_.
     rbind (validate_realtime_shape e) (\<lambda>_.
     rbind (map_err CanonicalEncodingFailed (applied_event_ref_from_event hash e)) (\<lambda>r.
       if (\<exists>previous. st_last_event s = Some previous \<and> ref_key r < ref_key previous)
       then Err OrderingRegression
       else rbind (ok_or (checked_u64 (st_version s + 1)) StateVersionOverflow) (\<lambda>new_version.
         let segment_changed = (st_segment s \<noteq> Some (rc_segment c));
             (d0, action) = enter_segment s c r
         in rbind (apply_payload (pr_volume_policy p) (\<not> segment_changed) r (ev_payload e) d0) (\<lambda>d1.
           let d2 = apply_market_signal (payload_market_signal (ev_payload e)) r d1;
               d3 = mark ChLastEvent (update_state (\<lambda>n. finish_event n r new_version) d2)
           in Ok \<lparr>pt_previous_version = st_version s, pt_next_state = dr_state d3,
                 pt_receipt = \<lparr>tr_instrument = st_instrument s, tr_previous_version = st_version s,
                   tr_new_version = new_version, tr_event = r, tr_boundary_action = action,
                   tr_changed_fields = changed_in_order (dr_changed d3),
                   tr_warning_codes = warnings_in_order (dr_warnings d3)\<rparr>\<rparr>))))))"

definition commit ::
  "market_state \<Rightarrow> proposed_transition \<Rightarrow> (transition_receipt, state_transition_error) result \<times> market_state" where
  "commit s pr =
     (if st_version s \<noteq> pt_previous_version pr \<or> st_instrument s \<noteq> st_instrument (pt_next_state pr) \<or>
         st_trading_date s \<noteq> st_trading_date (pt_next_state pr)
      then (Err StaleProposal, s) else (Ok (pt_receipt pr), pt_next_state pr))"

definition apply_event ::
  "(bytes \<Rightarrow> bytes) \<Rightarrow> market_state_profile \<Rightarrow> market_state \<Rightarrow> domain_event \<Rightarrow> reducer_context \<Rightarrow>
   (transition_receipt, state_transition_error) result \<times> market_state" where
  "apply_event hash p s e c =
     (case propose hash p s e c of Err err \<Rightarrow> (Err err, s) | Ok pr \<Rightarrow> commit s pr)"

section \<open>Frames: what each part of a proposal leaves alone\<close>

lemma dr_state_simps [simp]:
  "dr_state (mark f d) = dr_state d"
  "dr_state (warn w d) = dr_state d"
  "dr_state (update_state g d) = g (dr_state d)"
  by (simp_all add: mark_def warn_def update_state_def)

fun clear_field :: "applied_event_ref \<Rightarrow> 'a state_field \<Rightarrow> 'a state_field" where
  "clear_field r (FieldUnavailable x) = FieldUnavailable x"
| "clear_field r _ = field_cleared r"

lemma clear_indicative_state [simp]:
  "dr_state (clear_indicative_auction r d) =
     (dr_state d)\<lparr>st_indicative_auction := clear_field r (st_indicative_auction (dr_state d))\<rparr>"
  by (cases "st_indicative_auction (dr_state d)") (simp_all add: clear_indicative_auction_def)

text \<open>The identity of the state and its event counter, and the observable fields one by one.\<close>

definition state_core :: "market_state \<Rightarrow> instrument_id \<times> int \<times> session_segment_id option \<times> applied_event_ref option \<times> nat" where
  "state_core s = (st_instrument s, st_trading_date s, st_segment s, st_last_event s, st_version s)"

definition firm :: "market_state \<Rightarrow> complete_book state_field \<times> trade_observation state_field \<times> volume state_field" where
  "firm s = (st_book s, st_recent_trade s, st_cumulative_volume s)"

lemma market_signal_frame [simp]:
  "state_core (dr_state (apply_market_signal ob r d)) = state_core (dr_state d)"
  "firm (dr_state (apply_market_signal ob r d)) = firm (dr_state d)"
  by (cases ob; simp add: apply_market_signal_def set_signal_and_phase_def Let_def state_core_def firm_def)+

text \<open>What an observation makes of a field.\<close>

definition observe :: "applied_event_ref \<Rightarrow> ('a \<Rightarrow> 'b) \<Rightarrow> 'a observation \<Rightarrow> 'b state_field \<Rightarrow> 'b state_field" where
  "observe r f ob old =
     (case ob of NoObservation \<Rightarrow> old | Set v \<Rightarrow> FieldKnown (f v) r | Clear \<Rightarrow> field_cleared r
      | Unknown raw \<Rightarrow> FieldUnknown raw r)"

lemma observe_simps [simp]:
  "observe r f NoObservation old = old" "observe r f (Set v) old = FieldKnown (f v) r"
  "observe r f Clear old = field_cleared r" "observe r f (Unknown raw) old = FieldUnknown raw r"
  by (simp_all add: observe_def)

lemma apply_volume_state:
  assumes "apply_volume_observation policy ob r cmp d = Ok d'"
  shows "dr_state d' =
    (dr_state d)\<lparr>st_cumulative_volume := observe r (\<lambda>v. v) ob (st_cumulative_volume (dr_state d))\<rparr>"
  using assms by (cases ob) (auto simp: apply_volume_observation_def)

lemma apply_trade_state [simp]:
  "dr_state (apply_trade_observation ob r d) =
    (dr_state d)\<lparr>st_recent_trade := observe r TradeSingle ob (st_recent_trade (dr_state d))\<rparr>"
  by (cases ob) (auto simp: apply_trade_observation_def)

text \<open>What a payload writes, field by field.\<close>

definition payload_book :: "applied_event_ref \<Rightarrow> event_payload \<Rightarrow> complete_book state_field \<Rightarrow> complete_book state_field" where
  "payload_book r p old =
     (case p of PQuoteSnapshot q \<Rightarrow> FieldKnown (qs_book q) r | PBookSnapshot q \<Rightarrow> FieldKnown (bk_book q) r
      | _ \<Rightarrow> old)"

definition payload_trade :: "applied_event_ref \<Rightarrow> event_payload \<Rightarrow> trade_observation state_field \<Rightarrow> trade_observation state_field" where
  "payload_trade r p old =
     (case p of PQuoteSnapshot q \<Rightarrow> observe r TradeSingle (qs_trade q) old
      | PTradeBatch b \<Rightarrow> FieldKnown (TradeMany (tb_trades b) (tb_trade_order b)) r
      | _ \<Rightarrow> old)"

definition payload_volume_observation :: "event_payload \<Rightarrow> volume observation" where
  "payload_volume_observation p =
     (case p of PQuoteSnapshot q \<Rightarrow> qs_cumulative_volume q | PTradeBatch b \<Rightarrow> tb_cumulative_volume b
      | PMarketStatus m \<Rightarrow> ms_cumulative_volume m | _ \<Rightarrow> NoObservation)"

definition payload_indicative :: "applied_event_ref \<Rightarrow> event_payload \<Rightarrow> market_state \<Rightarrow> indicative_auction state_field" where
  "payload_indicative r p s =
     (case p of PIndicativeAuction a \<Rightarrow>
        FieldKnown (a\<lparr>ia_observation := merge_with_current_auction s (ia_observation a)\<rparr>) r
      | _ \<Rightarrow> st_indicative_auction s)"

lemma apply_payload_state:
  assumes "apply_payload policy cmp r p d = Ok d'"
  shows "dr_state d' = (let s = dr_state d in
    s\<lparr>st_book := payload_book r p (st_book s), st_recent_trade := payload_trade r p (st_recent_trade s),
      st_cumulative_volume := observe r (\<lambda>v. v) (payload_volume_observation p) (st_cumulative_volume s),
      st_indicative_auction := payload_indicative r p s\<rparr>)"
  using assms
  by (cases p) (auto simp: apply_payload_def Let_def payload_book_def payload_trade_def payload_indicative_def
      payload_volume_observation_def dest!: apply_volume_state)

lemma enter_segment_state:
  "dr_state (fst (enter_segment s c r)) =
     (if st_segment s = Some (rc_segment c) then s
      else (if st_segment s \<noteq> None \<and> rc_boundary_policy c = ResetObservableFields then reset_observable_fields s
            else if rc_boundary_policy c = Carry
            then s\<lparr>st_indicative_auction := clear_field r (st_indicative_auction s)\<rparr> else s)
           \<lparr>st_segment := Some (rc_segment c)\<rparr>)"
  by (auto simp: enter_segment_def Let_def)

lemma enter_segment_core:
  "st_instrument (dr_state (fst (enter_segment s c r))) = st_instrument s"
  "st_trading_date (dr_state (fst (enter_segment s c r))) = st_trading_date s"
  "st_segment (dr_state (fst (enter_segment s c r))) = Some (rc_segment c)"
  "st_last_event (dr_state (fst (enter_segment s c r))) = st_last_event s"
  "st_version (dr_state (fst (enter_segment s c r))) = st_version s"
  by (simp_all add: enter_segment_state reset_observable_fields_def)

lemma apply_payload_core:
  "apply_payload policy cmp r p d = Ok d' \<Longrightarrow> state_core (dr_state d') = state_core (dr_state d)"
  by (drule apply_payload_state) (simp add: state_core_def Let_def)

section \<open>Applying an event\<close>

text \<open>Everything a successful proposal says, with the final state written as a composition.\<close>

definition applied_state ::
  "reducer_context \<Rightarrow> applied_event_ref \<Rightarrow> event_payload \<Rightarrow> draft \<Rightarrow> market_state \<Rightarrow> market_state" where
  "applied_state c r p d1 s =
     finish_event (dr_state (apply_market_signal (payload_market_signal p) r d1)) r (Suc (st_version s))"

lemma propose_OkE:
  assumes "propose hash p s e c = Ok pr"
  obtains r d1 where "applied_event_ref_from_event hash e = Ok r"
    and "validate_envelope p s e c = Ok ()" and "validate_event p e = Ok ()"
    and "validate_realtime_shape e = Ok ()"
    and "\<And>previous. st_last_event s = Some previous \<Longrightarrow> ref_key previous \<le> ref_key r"
    and "in_u64 (Suc (st_version s))"
    and "apply_payload (pr_volume_policy p) (st_segment s = Some (rc_segment c)) r (ev_payload e)
           (fst (enter_segment s c r)) = Ok d1"
    and "pt_previous_version pr = st_version s"
    and "pt_next_state pr = applied_state c r (ev_payload e) d1 s"
    and "tr_event (pt_receipt pr) = r" and "tr_new_version (pt_receipt pr) = Suc (st_version s)"
  using assms
  by (auto simp: propose_def Let_def applied_state_def not_less split_def split: if_splits)

lemma applied_core:
  assumes "apply_payload policy cmp r p (fst (enter_segment s c r)) = Ok d1"
  shows "state_core (applied_state c r p d1 s) =
    (st_instrument s, st_trading_date s, Some (rc_segment c), Some r, Suc (st_version s))"
proof -
  have "state_core (dr_state (apply_market_signal (payload_market_signal p) r d1)) =
      state_core (dr_state (fst (enter_segment s c r)))"
    using apply_payload_core [OF assms] by simp
  also have "\<dots> = (st_instrument s, st_trading_date s, Some (rc_segment c), st_last_event s, st_version s)"
    by (simp add: state_core_def enter_segment_core)
  finally have "state_core (dr_state (apply_market_signal (payload_market_signal p) r d1)) =
      (st_instrument s, st_trading_date s, Some (rc_segment c), st_last_event s, st_version s)" .
  then show ?thesis by (simp add: applied_state_def finish_event_def state_core_def)
qed

lemma apply_event_Err:
  "apply_event hash p s e c = (Err err, s') \<Longrightarrow> s' = s"
  by (auto simp: apply_event_def commit_def split: result.splits if_splits)

lemma apply_event_propose:
  "apply_event hash p s e c =
     (case propose hash p s e c of Err err \<Rightarrow> (Err err, s) | Ok pr \<Rightarrow> (Ok (pt_receipt pr), pt_next_state pr))"
proof (cases "propose hash p s e c")
  case (Ok pr)
  then show ?thesis
  proof (rule propose_OkE)
    fix r d1
    assume pay: "apply_payload (pr_volume_policy p) (st_segment s = Some (rc_segment c)) r (ev_payload e)
           (fst (enter_segment s c r)) = Ok d1" and "pt_previous_version pr = st_version s"
      and "pt_next_state pr = applied_state c r (ev_payload e) d1 s"
    then show ?thesis
      using applied_core [OF pay] Ok by (simp add: apply_event_def commit_def state_core_def)
  qed
qed (simp add: apply_event_def)

lemma apply_event_OkE:
  assumes "apply_event hash p s e c = (Ok rcpt, s')"
  obtains r d1 where "applied_event_ref_from_event hash e = Ok r"
    and "validate_envelope p s e c = Ok ()" and "validate_event p e = Ok ()"
    and "validate_realtime_shape e = Ok ()"
    and "\<And>previous. st_last_event s = Some previous \<Longrightarrow> ref_key previous \<le> ref_key r"
    and "in_u64 (Suc (st_version s))"
    and "apply_payload (pr_volume_policy p) (st_segment s = Some (rc_segment c)) r (ev_payload e)
           (fst (enter_segment s c r)) = Ok d1"
    and "s' = applied_state c r (ev_payload e) d1 s"
    and "tr_event rcpt = r" and "tr_new_version rcpt = Suc (st_version s)"
proof -
  obtain pr where "propose hash p s e c = Ok pr" "rcpt = pt_receipt pr" "s' = pt_next_state pr"
    using assms by (auto simp: apply_event_propose split: result.splits)
  then show ?thesis by (auto elim!: propose_OkE intro: that)
qed

lemma applied_firm:
  assumes "apply_payload policy cmp r p (fst (enter_segment s c r)) = Ok d1"
  defines "s0 \<equiv> dr_state (fst (enter_segment s c r))"
  shows "st_book (applied_state c r p d1 s) = payload_book r p (st_book s0)"
    and "st_recent_trade (applied_state c r p d1 s) = payload_trade r p (st_recent_trade s0)"
    and "st_cumulative_volume (applied_state c r p d1 s) =
      observe r (\<lambda>v. v) (payload_volume_observation p) (st_cumulative_volume s0)"
proof -
  have "firm (applied_state c r p d1 s) = firm (dr_state d1)"
    unfolding applied_state_def finish_event_def
    using market_signal_frame(2) [of "payload_market_signal p" r d1] by (simp add: firm_def)
  then show "st_book (applied_state c r p d1 s) = payload_book r p (st_book s0)"
    and "st_recent_trade (applied_state c r p d1 s) = payload_trade r p (st_recent_trade s0)"
    and "st_cumulative_volume (applied_state c r p d1 s) =
      observe r (\<lambda>v. v) (payload_volume_observation p) (st_cumulative_volume s0)"
    using apply_payload_state [OF assms(1)] by (simp_all add: firm_def Let_def s0_def)
qed

text \<open>The signal, the phase and the indicative auction after an event.\<close>

fun phase_of_signal :: "market_signal state_field \<Rightarrow> market_phase state_field" where
  "phase_of_signal (FieldKnown sig r) = phase_field sig r"
| "phase_of_signal (FieldUnknown raw r) = FieldUnknown raw r"
| "phase_of_signal (FieldUnavailable x) = FieldUnavailable x"

lemma applied_signal:
  assumes "apply_payload policy cmp r p (fst (enter_segment s c r)) = Ok d1"
  defines "s0 \<equiv> dr_state (fst (enter_segment s c r))" and "t \<equiv> applied_state c r p d1 s"
  shows "st_market_signal t =
      (case payload_market_signal p of
         Set sig \<Rightarrow> FieldKnown (merged_signal (dr_state d1) sig) r
       | ob \<Rightarrow> observe r (merged_signal (dr_state d1)) ob (st_market_signal s0))"
    and "st_phase t =
      (case payload_market_signal p of NoObservation \<Rightarrow> st_phase s0 | _ \<Rightarrow> phase_of_signal (st_market_signal t))"
    and "st_indicative_auction t =
      (case payload_market_signal p of
         Set sig \<Rightarrow> (if is_collecting sig then payload_indicative r p s0
                     else clear_field r (payload_indicative r p s0))
       | _ \<Rightarrow> payload_indicative r p s0)"
proof -
  have d1: "st_market_signal (dr_state d1) = st_market_signal s0" "st_phase (dr_state d1) = st_phase s0"
    "st_indicative_auction (dr_state d1) = payload_indicative r p s0"
    using apply_payload_state [OF assms(1)] by (simp_all add: Let_def s0_def)
  have coll: "is_collecting (merged_signal x sig) = is_collecting sig" for x sig
    by (cases sig) (simp_all add: merged_signal_def)
  show "st_market_signal t =
      (case payload_market_signal p of
         Set sig \<Rightarrow> FieldKnown (merged_signal (dr_state d1) sig) r
       | ob \<Rightarrow> observe r (merged_signal (dr_state d1)) ob (st_market_signal s0))"
    and "st_phase t =
      (case payload_market_signal p of NoObservation \<Rightarrow> st_phase s0 | _ \<Rightarrow> phase_of_signal (st_market_signal t))"
    and "st_indicative_auction t =
      (case payload_market_signal p of
         Set sig \<Rightarrow> (if is_collecting sig then payload_indicative r p s0
                     else clear_field r (payload_indicative r p s0))
       | _ \<Rightarrow> payload_indicative r p s0)"
    unfolding t_def applied_state_def finish_event_def
    by (cases "payload_market_signal p";
        simp add: apply_market_signal_def set_signal_and_phase_def Let_def d1 coll)+
qed

section \<open>Invariants of reachable states\<close>

text \<open>States reached from a fresh state by accepted events, in any session contexts.\<close>

inductive reachable :: "(bytes \<Rightarrow> bytes) \<Rightarrow> market_state_profile \<Rightarrow> market_state \<Rightarrow> bool"
  for hash :: "bytes \<Rightarrow> bytes" and p :: market_state_profile where
  init: "reachable hash p (market_state_new instrument date)"
| step: "reachable hash p s \<Longrightarrow> apply_event hash p s e c = (Ok rcpt, s') \<Longrightarrow> reachable hash p s'"

definition field_stamps :: "market_state \<Rightarrow> applied_event_ref option list" where
  "field_stamps s =
     [observed_at (st_book s), observed_at (st_recent_trade s), observed_at (st_cumulative_volume s),
      observed_at (st_indicative_auction s), observed_at (st_market_signal s), observed_at (st_phase s)]"

definition stamps_bounded :: "market_state \<Rightarrow> bool" where
  "stamps_bounded s \<longleftrightarrow> (\<forall>r. Some r \<in> set (field_stamps s) \<longrightarrow>
     (\<exists>l. st_last_event s = Some l \<and> ref_key r \<le> ref_key l))"

definition phase_follows_signal :: "market_state \<Rightarrow> bool" where
  "phase_follows_signal s \<longleftrightarrow> st_phase s = phase_of_signal (st_market_signal s)"

definition no_stale_indicative :: "market_state \<Rightarrow> bool" where
  "no_stale_indicative s \<longleftrightarrow>
     (known (st_phase s) = Some PhaseContinuous \<or> known (st_phase s) = Some PhaseClosed \<longrightarrow>
      known (st_indicative_auction s) = None)"

definition volume_in_policy_unit :: "cumulative_volume_policy \<Rightarrow> market_state \<Rightarrow> bool" where
  "volume_in_policy_unit policy s \<longleftrightarrow>
     (\<forall>u v. policy = NonDecreasingWithinSegment u \<longrightarrow> known (st_cumulative_volume s) = Some v \<longrightarrow> v_unit v = u)"

definition counters_agree :: "market_state \<Rightarrow> bool" where
  "counters_agree s \<longleftrightarrow> in_u64 (st_version s) \<and> (st_version s = 0 \<longleftrightarrow> st_last_event s = None) \<and>
     (st_version s = 0 \<longleftrightarrow> st_segment s = None)"

definition state_invariant :: "cumulative_volume_policy \<Rightarrow> market_state \<Rightarrow> bool" where
  "state_invariant policy s \<longleftrightarrow>
     counters_agree s \<and> stamps_bounded s \<and> phase_follows_signal s \<and> no_stale_indicative s \<and>
     volume_in_policy_unit policy s"

lemma known_clear_field [simp]: "known (clear_field r x) = None"
  by (cases x) simp_all

lemma known_phase_field:
  "known (phase_field sig r) = post_market_phase sig"
  by (simp add: phase_field_def split: option.splits)

lemma observed_phase_field [simp]: "observed_at (phase_field sig r) = Some r"
  by (simp add: phase_field_def split: option.splits)

lemma observed_phase_of_signal [simp]: "observed_at (phase_of_signal f) = observed_at f"
proof (cases f)
  case (FieldUnavailable x)
  then show ?thesis by (cases x) simp_all
qed simp_all

lemma observed_clear_field:
  "observed_at (clear_field r x) = Some q \<Longrightarrow> q = r \<or> observed_at x = Some q"
  by (cases x) auto

lemma observed_observe:
  "observed_at (observe r f ob x) = Some q \<Longrightarrow> q = r \<or> observed_at x = Some q"
  by (cases ob) auto

lemma observed_payload:
  "observed_at (payload_book r p x) = Some q \<Longrightarrow> q = r \<or> observed_at x = Some q"
  "observed_at (payload_trade r p y) = Some q \<Longrightarrow> q = r \<or> observed_at y = Some q"
  "observed_at (payload_indicative r p s) = Some q \<Longrightarrow> q = r \<or> observed_at (st_indicative_auction s) = Some q"
  by (cases p; auto simp: payload_book_def payload_trade_def payload_indicative_def dest: observed_observe)+

lemma entered_fields:
  fixes s :: market_state and c :: reducer_context and r :: applied_event_ref
  defines "s0 \<equiv> dr_state (fst (enter_segment s c r))"
  shows "phase_follows_signal s \<Longrightarrow> phase_follows_signal s0"
    and "no_stale_indicative s \<Longrightarrow> no_stale_indicative s0"
    and "volume_in_policy_unit policy s \<Longrightarrow> volume_in_policy_unit policy s0"
    and "Some q \<in> set (field_stamps s0) \<Longrightarrow> q = r \<or> Some q \<in> set (field_stamps s)"
  unfolding s0_def
  by (auto simp: enter_segment_state reset_observable_fields_def phase_follows_signal_def
      no_stale_indicative_def volume_in_policy_unit_def field_stamps_def split: if_splits
      dest: observed_clear_field [OF sym])

lemma applied_stamps_entered:
  assumes "apply_payload policy cmp r p (fst (enter_segment s c r)) = Ok d1"
    and "Some q \<in> set (field_stamps (applied_state c r p d1 s))"
  shows "q = r \<or> Some q \<in> set (field_stamps (dr_state (fst (enter_segment s c r))))"
proof -
  define s0 where "s0 = dr_state (fst (enter_segment s c r))"
  define t where "t = applied_state c r p d1 s"
  note firm = applied_firm [OF assms(1), folded s0_def t_def]
  note sig = applied_signal [OF assms(1), folded s0_def t_def]
  have "observed_at (st_market_signal t) = Some q \<Longrightarrow> q = r \<or> Some q \<in> set (field_stamps s0)"
    using sig(1) by (cases "payload_market_signal p") (auto simp: field_stamps_def)
  moreover from this have "observed_at (st_phase t) = Some q \<Longrightarrow> q = r \<or> Some q \<in> set (field_stamps s0)"
    using sig(2) by (cases "payload_market_signal p") (auto simp: field_stamps_def)
  moreover have "observed_at (st_indicative_auction t) = Some q \<Longrightarrow> q = r \<or> Some q \<in> set (field_stamps s0)"
    using sig(3) observed_payload(3) [of r p s0 q]
    by (cases "payload_market_signal p") (auto simp: field_stamps_def split: if_splits dest: observed_clear_field)
  moreover have "observed_at (st_book t) = Some q \<Longrightarrow> q = r \<or> Some q \<in> set (field_stamps s0)"
    "observed_at (st_recent_trade t) = Some q \<Longrightarrow> q = r \<or> Some q \<in> set (field_stamps s0)"
    "observed_at (st_cumulative_volume t) = Some q \<Longrightarrow> q = r \<or> Some q \<in> set (field_stamps s0)"
    using firm by (auto simp: field_stamps_def dest: observed_payload observed_observe)
  ultimately have "q = r \<or> Some q \<in> set (field_stamps s0)"
    using assms(2) [folded t_def] unfolding field_stamps_def [of t] by (auto dest!: sym [of "Some q"])
  then show ?thesis by (simp add: s0_def)
qed

lemma applied_stamps:
  assumes "apply_payload policy cmp r p (fst (enter_segment s c r)) = Ok d1"
    and "Some q \<in> set (field_stamps (applied_state c r p d1 s))"
  shows "q = r \<or> Some q \<in> set (field_stamps s)"
  using applied_stamps_entered [OF assms] entered_fields(4) [of q s c r] by blast

lemma signal_step:
  assumes "apply_payload policy cmp r p (fst (enter_segment s c r)) = Ok d1"
    and "phase_follows_signal s"
  shows "phase_follows_signal (applied_state c r p d1 s)"
  using applied_signal(1,2) [OF assms(1)] entered_fields(1) [OF assms(2), of c r]
  unfolding phase_follows_signal_def by (cases "payload_market_signal p") simp_all

lemma indicative_step:
  assumes "apply_payload policy cmp r p (fst (enter_segment s c r)) = Ok d1"
    and "no_stale_indicative s"
  shows "no_stale_indicative (applied_state c r p d1 s)"
proof -
  define t where "t = applied_state c r p d1 s"
  define s0 where "s0 = dr_state (fst (enter_segment s c r))"
  note sig = applied_signal [OF assms(1), folded s0_def t_def]
  have s0: "no_stale_indicative s0" using entered_fields(2) [OF assms(2)] by (simp add: s0_def)
  show "no_stale_indicative t"
  proof (cases "payload_market_signal p")
    case NoObservation
    then have "payload_indicative r p s0 = st_indicative_auction s0"
      by (cases p) (auto simp: payload_indicative_def)
    then show ?thesis using NoObservation sig s0 by (simp add: no_stale_indicative_def)
  next
    case (Set sg)
    show ?thesis
    proof (cases "is_collecting sg")
      case True
      then obtain ob where "merged_signal (dr_state d1) sg = AuctionCollecting ob"
        by (cases sg) (simp_all add: merged_signal_def)
      then show ?thesis
        using Set sig by (simp add: no_stale_indicative_def known_phase_field post_market_phase_def)
    next
      case False
      then show ?thesis using Set sig by (simp add: no_stale_indicative_def)
    qed
  qed (use sig in \<open>auto simp: no_stale_indicative_def\<close>)
qed

lemma validate_volume_unit:
  "validate_volume (NonDecreasingWithinSegment u) f v cmp = Ok () \<Longrightarrow> v_unit v = u"
  by (auto simp: validate_volume_def split: if_splits)

lemma apply_volume_validated:
  "apply_volume_observation policy (Set v) r cmp d = Ok d' \<Longrightarrow>
     validate_volume policy (st_cumulative_volume (dr_state d)) v cmp = Ok ()"
  by (auto simp: apply_volume_observation_def)

lemma payload_volume_validated:
  assumes "apply_payload policy cmp r p d = Ok d'" and "payload_volume_observation p = Set v"
  shows "validate_volume policy (st_cumulative_volume (dr_state d)) v cmp = Ok ()"
  using assms by (cases p) (auto simp: apply_payload_def payload_volume_observation_def dest!: apply_volume_validated)

lemma volume_step:
  assumes "apply_payload policy cmp r p (fst (enter_segment s c r)) = Ok d1"
    and "volume_in_policy_unit policy s"
  shows "volume_in_policy_unit policy (applied_state c r p d1 s)"
proof (cases "payload_volume_observation p")
  case (Set v)
  then show ?thesis
    using applied_firm(3) [OF assms(1)] payload_volume_validated [OF assms(1) Set]
    by (auto simp: volume_in_policy_unit_def dest: validate_volume_unit)
qed (use applied_firm(3) [OF assms(1)] entered_fields(3) [OF assms(2), of c r] in
    \<open>simp_all add: volume_in_policy_unit_def\<close>)

lemma apply_event_invariant:
  assumes "apply_event hash p s e c = (Ok rcpt, s')" and "state_invariant (pr_volume_policy p) s"
  shows "state_invariant (pr_volume_policy p) s'"
  using assms(1)
proof (rule apply_event_OkE)
  fix r d1
  assume ord: "\<And>previous. st_last_event s = Some previous \<Longrightarrow> ref_key previous \<le> ref_key r"
    and ver: "in_u64 (Suc (st_version s))"
    and pay: "apply_payload (pr_volume_policy p) (st_segment s = Some (rc_segment c)) r (ev_payload e)
           (fst (enter_segment s c r)) = Ok d1"
    and s': "s' = applied_state c r (ev_payload e) d1 s"
  note inv = assms(2) [unfolded state_invariant_def]
  have state_core: "st_segment s' = Some (rc_segment c)" "st_last_event s' = Some r" "st_version s' = Suc (st_version s)"
    using applied_core [OF pay] by (simp_all add: s' state_core_def)
  have "stamps_bounded s'"
    unfolding stamps_bounded_def
  proof (intro allI impI)
    fix q
    assume "Some q \<in> set (field_stamps s')"
    then have "q = r \<or> Some q \<in> set (field_stamps s)" using applied_stamps [OF pay] by (simp add: s')
    then have "ref_key q \<le> ref_key r"
      using inv ord by (auto simp: stamps_bounded_def intro: order_trans)
    then show "\<exists>l. st_last_event s' = Some l \<and> ref_key q \<le> ref_key l" using state_core by simp
  qed
  moreover have "counters_agree s'" using state_core ver by (simp add: counters_agree_def)
  ultimately show ?thesis
    using signal_step [OF pay] indicative_step [OF pay] volume_step [OF pay] inv
    by (simp add: state_invariant_def s')
qed

section \<open>Properties of the reducer\<close>

subsection \<open>A concrete run\<close>

definition sample_hash :: "bytes \<Rightarrow> bytes" where "sample_hash b = replicate 32 0"

definition sample_profile :: market_state_profile where
  "sample_profile =
     \<lparr>pr_market = Twse,
      pr_source_rules = [\<lparr>sr_source_format = ''STOCK_REALTIME'',
         sr_kinds = [KQuoteSnapshot, KTradeBatch, KIndicativeAuction, KMarketStatus]\<rparr>,
        \<lparr>sr_source_format = ''STOCK_SNAPSHOT'',
         sr_kinds = [KQuoteSnapshot, KIndicativeAuction, KMarketStatus]\<rparr>],
      pr_volume_policy = NonDecreasingWithinSegment TradingUnit, pr_boundary_version = 1\<rparr>"

lemma sample_profile_builtin: "twse_regular = Ok sample_profile"
  by code_simp

definition sample_context :: "string \<Rightarrow> segment_boundary_policy \<Rightarrow> reducer_context" where
  "sample_context seg policy =
     \<lparr>rc_trading_date = 20000, rc_segment = seg, rc_boundary_policy = policy, rc_boundary_version = 1\<rparr>"

definition sample_indicative_event :: domain_event where
  "sample_indicative_event = sample_status_event\<lparr>ev_match_time := 1728000001000000, ev_source_sequence := Some 8,
     ev_payload := PIndicativeAuction \<lparr>ia_observation = auction_unclassified, ia_price = Set 100,
       ia_quantity = NoObservation, ia_book = NoObservation, ia_cumulative_volume = NoObservation,
       ia_annotations = AnnNone\<rparr>\<rparr>"

definition sample_uncross_event :: domain_event where
  "sample_uncross_event = sample_status_event\<lparr>ev_match_time := 1728000002000000, ev_source_sequence := Some 9,
     ev_payload := PMarketStatus \<lparr>ms_cumulative_volume = Set \<lparr>v_value = 20, v_unit = TradingUnit\<rparr>,
       ms_annotations = AnnNone, ms_market_signal = Set (AuctionUncross (auction_new Periodic True True))\<rparr>\<rparr>"

lemma sample_events_wf: "wf_event sample_indicative_event" "wf_event sample_uncross_event"
  by (auto simp: sample_indicative_event_def sample_uncross_event_def sample_status_event_def wf_event_def
      wf_text_id_def utf8_valid_ascii range_defs is_utc_iso8601_representable_def
      MIN_SUPPORTED_UNIX_MICROSECONDS_def MAX_SUPPORTED_UNIX_MICROSECONDS_def MIN_EPOCH_DAYS_def
      MAX_EPOCH_DAYS_def wf_volume_def constructors_valid is_ok_iff validate_auction_units_def
      validate_optional_unit_def volume_unit_def)

definition sample_state :: market_state where
  "sample_state = market_state_new (Twse, ''2330'') 20000"

lemma ref_exists:
  assumes "wf_event e"
  obtains r where "applied_event_ref_from_event hash e = Ok r" "ar_match_time r = ev_match_time e"
proof -
  obtain b where "to_canonical_bytes e = Ok b" using event.total [OF assms] by (auto simp: is_ok_iff)
  then show ?thesis by (intro that) (auto simp: applied_event_ref_from_event_def event_fingerprint_def)
qed

lemmas sample_run_simps = apply_event_propose propose_def sample_profile_def sample_context_def
  validate_envelope_def validate_event_def validate_realtime_shape_def in_u64_def checked_u64_def Let_def
  split_def enter_segment_def apply_payload_def apply_volume_observation_def validate_volume_def
  finish_event_def apply_market_signal_def set_signal_and_phase_def merged_signal_def
  merge_with_current_auction_def current_auction_observation_def clear_indicative_auction_def

lemma sample_first_step:
  obtains rc1 s1 r1 where "apply_event sample_hash sample_profile sample_state sample_status_event
      (sample_context ''open'' Carry) = (Ok rc1, s1)"
    and "st_version s1 = 1" "st_segment s1 = Some ''open''" "st_instrument s1 = (Twse, ''2330'')"
    and "st_trading_date s1 = 20000" "st_last_event s1 = Some r1" "ar_match_time r1 = 1728000000000000"
    and "st_cumulative_volume s1 = FieldKnown \<lparr>v_value = 12, v_unit = TradingUnit\<rparr> r1"
    and "st_market_signal s1 = FieldKnown (AuctionCollecting (auction_new Opening True False)) r1"
proof -
  obtain r where r: "applied_event_ref_from_event sample_hash sample_status_event = Ok r"
      "ar_match_time r = ev_match_time sample_status_event"
    using ref_exists [OF sample_status_event_wf] .
  have "is_ok (fst (apply_event sample_hash sample_profile sample_state sample_status_event
      (sample_context ''open'' Carry)))"
    using r unfolding sample_status_event_def
    by (simp add: sample_run_simps sample_state_def market_state_new_def)
  then obtain rc s1 where step: "apply_event sample_hash sample_profile sample_state sample_status_event
      (sample_context ''open'' Carry) = (Ok rc, s1)"
    by (metis is_ok_iff prod.collapse)
  from step show ?thesis
  proof (rule apply_event_OkE)
    fix r' d1
    assume "applied_event_ref_from_event sample_hash sample_status_event = Ok r'"
      and pay: "apply_payload (pr_volume_policy sample_profile) (st_segment sample_state =
          Some (rc_segment (sample_context ''open'' Carry))) r' (ev_payload sample_status_event)
          (fst (enter_segment sample_state (sample_context ''open'' Carry) r')) = Ok d1"
      and s1: "s1 = applied_state (sample_context ''open'' Carry) r' (ev_payload sample_status_event) d1 sample_state"
    then have [simp]: "r' = r" using r by simp
    have m: "st_phase (dr_state d1) = field_initial" "st_indicative_auction (dr_state d1) = field_initial"
      using apply_payload_state [OF pay]
      by (simp_all add: Let_def enter_segment_state sample_state_def market_state_new_def sample_context_def
          payload_indicative_def sample_status_event_def)
    show ?thesis
      by (rule that [OF step, of r])
        (use applied_core [OF pay] applied_firm(3) [OF pay] applied_signal(1) [OF pay] r m in
         \<open>simp_all add: s1 state_core_def sample_state_def market_state_new_def sample_context_def
           sample_status_event_def payload_volume_observation_def merged_signal_def
           merge_with_current_auction_def current_auction_observation_def\<close>)
  qed
qed

subsection \<open>One event\<close>

lemma validations_not_stale:
  "validate_envelope p s e c \<noteq> Err StaleProposal"
  "validate_realtime_shape e \<noteq> Err StaleProposal"
  "validate_volume policy f v cmp \<noteq> Err StaleProposal"
proof -
  show "validate_envelope p s e c \<noteq> Err StaleProposal"
    by (simp add: validate_envelope_def split: option.splits)
  show "validate_realtime_shape e \<noteq> Err StaleProposal"
    by (cases "ev_payload e") (simp_all add: validate_realtime_shape_def Let_def)
  show "validate_volume policy f v cmp \<noteq> Err StaleProposal"
    by (cases policy; cases f) (simp_all add: validate_volume_def)
qed

lemma payload_not_stale: "apply_payload policy cmp r pl d \<noteq> Err StaleProposal"
proof -
  have "apply_volume_observation policy ob r cmp d \<noteq> Err StaleProposal" for ob d
    using validations_not_stale(3)
    by (cases ob) (auto simp: apply_volume_observation_def rbind_eq_Err)
  then show ?thesis by (cases pl) (simp_all add: apply_payload_def Let_def)
qed

lemma propose_not_stale: "propose hash p s e c \<noteq> Err StaleProposal"
proof
  assume "propose hash p s e c = Err StaleProposal"
  then show False
    unfolding propose_def Let_def split_def rbind_eq_Err map_err_eq_Err
    using validations_not_stale payload_not_stale
    by (simp add: rbind_eq_Err split: if_splits) blast
qed

text \<open>
  C21: applying an event is all or nothing. A refused event leaves the state as it was, and the refusal
  is never a stale proposal; an accepted one advances the version by exactly one, keeps the instrument
  and the trading date, enters the session segment of its context and records the event as the last one.
\<close>

theorem apply_event_atomic:
  "case apply_event hash p s e c of
     (Err err, s') \<Rightarrow> s' = s \<and> err \<noteq> StaleProposal
   | (Ok rcpt, s') \<Rightarrow>
       st_version s' = st_version s + 1 \<and> tr_new_version rcpt = st_version s' \<and>
       st_instrument s' = st_instrument s \<and> st_trading_date s' = st_trading_date s \<and>
       st_segment s' = Some (rc_segment c) \<and> st_last_event s' = Some (tr_event rcpt) \<and>
       applied_event_ref_from_event hash e = Ok (tr_event rcpt)"
proof (cases "apply_event hash p s e c")
  case (Pair res s')
  show ?thesis
  proof (cases res)
    case (Ok rcpt)
    have "apply_event hash p s e c = (Ok rcpt, s')" using Pair Ok by simp
    then show ?thesis
    proof (rule apply_event_OkE)
      fix r d1
      assume "applied_event_ref_from_event hash e = Ok r"
        and pay: "apply_payload (pr_volume_policy p) (st_segment s = Some (rc_segment c)) r (ev_payload e)
             (fst (enter_segment s c r)) = Ok d1"
        and "s' = applied_state c r (ev_payload e) d1 s" and "tr_event rcpt = r"
        and "tr_new_version rcpt = Suc (st_version s)"
      then show ?thesis using applied_core [OF pay] Pair Ok by (simp add: state_core_def)
    qed
  next
    case (Err err)
    then show ?thesis
      using propose_not_stale [of hash p s e c] Pair Err apply_event_Err [of hash p s e c err s']
      by (auto simp: apply_event_propose split: result.splits)
  qed
qed

text \<open>
  C19: every state reachable by accepted events is consistent: the version counts the events and is
  positive exactly when a last event and a segment exist; no field is stamped by an event later in
  order than the last one; the phase is the one the stored signal determines; a continuous or closed
  phase never coexists with a known indicative auction; a known cumulative volume is in the unit of the
  profile's policy.
\<close>

theorem reachable_state_invariant:
  assumes "reachable hash p s"
  shows "state_invariant (pr_volume_policy p) s"
  using assms
proof (induction rule: reachable.induct)
  case (init instrument date)
  show ?case
    by (simp add: market_state_new_def state_invariant_def counters_agree_def stamps_bounded_def
        field_stamps_def phase_follows_signal_def no_stale_indicative_def volume_in_policy_unit_def in_u64_def)
next
  case (step s e c rcpt s')
  show ?case by (rule apply_event_invariant [OF step.hyps(2) step.IH])
qed

theorem reachable_state_invariant_witness:
  "\<exists>s. reachable sample_hash sample_profile s \<and> st_version s = 1 \<and>
     known (st_phase s) = Some (PhaseAuction (auction_new Opening True False)) \<and>
     state_invariant (NonDecreasingWithinSegment TradingUnit) s"
proof (rule sample_first_step)
  fix rc1 s1 r1
  assume step: "apply_event sample_hash sample_profile sample_state sample_status_event
      (sample_context ''open'' Carry) = (Ok rc1, s1)" and v: "st_version s1 = 1"
    and sig: "st_market_signal s1 = FieldKnown (AuctionCollecting (auction_new Opening True False)) r1"
  have reach: "reachable sample_hash sample_profile s1"
    using reachable.step [OF reachable.init step [unfolded sample_state_def]] .
  have inv: "state_invariant (NonDecreasingWithinSegment TradingUnit) s1"
    using reachable_state_invariant [OF reach] by (simp add: sample_profile_def)
  then have "st_phase s1 = phase_of_signal (st_market_signal s1)"
    by (simp add: state_invariant_def phase_follows_signal_def)
  then have "known (st_phase s1) = Some (PhaseAuction (auction_new Opening True False))"
    by (simp add: sig known_phase_field post_market_phase_def)
  then show ?thesis using reach v inv by blast
qed

lemma merge_again:
  assumes "current_auction_observation s' = Some (merge_with_current_auction s ob)"
  shows "merge_with_current_auction s' ob = merge_with_current_auction s ob"
proof -
  have new: "\<not> starts_new_auction (auction_merge ob q) ob" for q
    by (cases "ao_purpose ob"; cases "ao_purpose q")
      (simp_all add: starts_new_auction_def auction_merge_def)
  have self: "\<not> starts_new_auction ob ob"
    by (cases "ao_purpose ob") (simp_all add: starts_new_auction_def)
  show ?thesis
    using assms new self auction_merge_assoc [of ob ob]
    by (auto simp: merge_with_current_auction_def split: option.splits)
qed

lemma merge_after_indicative:
  assumes "st_phase s' = st_phase s"
    and "known (st_indicative_auction s') = Some (a\<lparr>ia_observation := merge_with_current_auction s ob\<rparr>)"
  shows "merge_with_current_auction s' ob = merge_with_current_auction s ob"
proof (cases "\<exists>p. known (st_phase s) = Some (PhaseAuction p)")
  case True
  then have "current_auction_observation s' = current_auction_observation s"
    using assms(1) by (auto simp: current_auction_observation_def)
  then show ?thesis by (simp add: merge_with_current_auction_def)
next
  case False
  then have "current_auction_observation s' = Some (merge_with_current_auction s ob)"
    using assms by (auto simp: current_auction_observation_def split: option.splits market_phase.splits)
  then show ?thesis by (rule merge_again)
qed

text \<open>
  An indicative auction never touches the firm market. Within a segment it leaves the book, the
  recent trade and the cumulative volume as they are, whatever price, quantity, book or volume it
  carries, and the indicative auction and the phase then hold one and the same merged observation.
\<close>

theorem indicative_auction_isolated:
  assumes "apply_event hash p s e c = (Ok rcpt, s')" and "ev_payload e = PIndicativeAuction a"
    and "st_segment s = Some (rc_segment c)"
  shows "st_book s' = st_book s \<and> st_recent_trade s' = st_recent_trade s \<and>
    st_cumulative_volume s' = st_cumulative_volume s \<and>
    known (st_indicative_auction s') =
      Some (a\<lparr>ia_observation := merge_with_current_auction s (ia_observation a)\<rparr>) \<and>
    known (st_phase s') = Some (PhaseAuction (merge_with_current_auction s (ia_observation a)))"
  using assms(1)
proof (rule apply_event_OkE)
  fix r d1
  assume pay: "apply_payload (pr_volume_policy p) (st_segment s = Some (rc_segment c)) r (ev_payload e)
           (fst (enter_segment s c r)) = Ok d1"
    and s': "s' = applied_state c r (ev_payload e) d1 s"
  have s0: "dr_state (fst (enter_segment s c r)) = s" using assms(3) by (simp add: enter_segment_state)
  note firm = applied_firm [OF pay, unfolded s0, folded s'] and sig = applied_signal [OF pay, unfolded s0, folded s']
  have d1: "st_phase (dr_state d1) = st_phase s" "known (st_indicative_auction (dr_state d1)) =
      Some (a\<lparr>ia_observation := merge_with_current_auction s (ia_observation a)\<rparr>)"
    using apply_payload_state [OF pay] s0 assms(2) by (simp_all add: Let_def payload_indicative_def)
  have "merged_signal (dr_state d1) (AuctionCollecting (ia_observation a)) =
      AuctionCollecting (merge_with_current_auction s (ia_observation a))"
    using merge_after_indicative [OF d1] by (simp add: merged_signal_def)
  then show ?thesis
    using firm sig assms(2)
    by (simp add: payload_book_def payload_trade_def payload_volume_observation_def payload_indicative_def
        known_phase_field post_market_phase_def)
qed

lemma sample_second_step:
  fixes s1 :: market_state
  assumes "st_version s1 = 1" "st_segment s1 = Some ''open''" "st_instrument s1 = (Twse, ''2330'')"
    "st_trading_date s1 = 20000" "st_last_event s1 = Some r1" "ar_match_time r1 = 1728000000000000"
    "st_cumulative_volume s1 = FieldKnown \<lparr>v_value = 12, v_unit = TradingUnit\<rparr> r1"
    and e: "e = sample_indicative_event \<or> e = sample_uncross_event"
  obtains rc2 s2 where "apply_event sample_hash sample_profile s1 e
      (sample_context seg policy) = (Ok rc2, s2)"
proof -
  have "wf_event e" using e sample_events_wf by blast
  then obtain r where r: "applied_event_ref_from_event sample_hash e = Ok r" "ar_match_time r = ev_match_time e"
    by (rule ref_exists)
  have later: "\<not> ref_key r < ref_key r1"
    using e r(2) assms(6)
    by (auto simp: ref_key_def less_prod_def sample_indicative_event_def sample_uncross_event_def)
  have "is_ok (apply_payload (pr_volume_policy sample_profile) (st_segment s1 = Some seg) r (ev_payload e)
      (fst (enter_segment s1 (sample_context seg policy) r)))"
    using e assms(2,7)
    by (auto simp: sample_profile_def sample_indicative_event_def sample_uncross_event_def apply_payload_def
        apply_volume_observation_def validate_volume_def Let_def enter_segment_state sample_context_def
        reset_observable_fields_def)
  then obtain d1 where d1: "apply_payload (pr_volume_policy sample_profile) (st_segment s1 = Some seg) r (ev_payload e)
      (fst (enter_segment s1 (sample_context seg policy) r)) = Ok d1" by (auto simp: is_ok_iff)
  have checks: "validate_envelope sample_profile s1 e (sample_context seg policy) = Ok ()"
    "validate_event sample_profile e = Ok ()" "validate_realtime_shape e = Ok ()"
    using e assms(3-6)
    by (auto simp: validate_envelope_def validate_event_def validate_realtime_shape_def sample_profile_def
        sample_context_def sample_indicative_event_def sample_uncross_event_def sample_status_event_def)
  have "is_ok (propose sample_hash sample_profile s1 e (sample_context seg policy))"
    unfolding propose_def checks r(1)
    using later d1 assms(1,5) by (simp add: Let_def split_def sample_context_def checked_u64_def in_u64_def)
  then show ?thesis by (auto simp: is_ok_iff apply_event_propose intro: that)
qed

theorem indicative_auction_isolated_witness:
  "\<exists>s s' rcpt. apply_event sample_hash sample_profile s sample_indicative_event
      (sample_context ''open'' Carry) = (Ok rcpt, s') \<and>
    st_cumulative_volume s' = st_cumulative_volume s \<and> st_book s' = st_book s"
proof (rule sample_first_step)
  fix rc1 r1 and s1 :: market_state
  assume a: "st_version s1 = 1" "st_segment s1 = Some ''open''" "st_instrument s1 = (Twse, ''2330'')"
    "st_trading_date s1 = 20000" "st_last_event s1 = Some r1" "ar_match_time r1 = 1728000000000000"
    "st_cumulative_volume s1 = FieldKnown \<lparr>v_value = 12, v_unit = TradingUnit\<rparr> r1"
  obtain rc2 s2 where step: "apply_event sample_hash sample_profile s1 sample_indicative_event
      (sample_context ''open'' Carry) = (Ok rc2, s2)"
    using sample_second_step [OF a] by blast
  have "ev_payload sample_indicative_event = PIndicativeAuction \<lparr>ia_observation = auction_unclassified,
       ia_price = Set 100, ia_quantity = NoObservation, ia_book = NoObservation,
       ia_cumulative_volume = NoObservation, ia_annotations = AnnNone\<rparr>"
    by (simp add: sample_indicative_event_def)
  from indicative_auction_isolated [OF step this] a(2) step show ?thesis
    by (auto simp: sample_context_def)
qed

text \<open>
  The uncross of an auction moves the market exactly as its purpose says. Within a segment, with
  the purpose taken from the merged evidence of the round: opening and volatility interruptions open
  continuous trading, a closing auction closes the market, a periodic one starts the next round with
  delay known to be false and the disposal evidence kept, and an unknown purpose leaves the phase
  unknown; the indicative auction of the finished round is gone in every case.
\<close>

theorem uncross_moves_phase:
  assumes "apply_event hash p s e c = (Ok rcpt, s')"
    and "payload_market_signal (ev_payload e) = Set (AuctionUncross ob)"
    and "st_segment s = Some (rc_segment c)"
  shows "(let result = merge_with_current_auction s ob in
    known (st_market_signal s') = Some (AuctionUncross result) \<and>
    known (st_indicative_auction s') = None \<and>
    known (st_phase s') =
      (case ao_purpose result of
         EvKnown Opening \<Rightarrow> Some PhaseContinuous
       | EvKnown VolatilityInterruption \<Rightarrow> Some PhaseContinuous
       | EvKnown Closing \<Rightarrow> Some PhaseClosed
       | EvKnown Periodic \<Rightarrow> Some (PhaseAuction \<lparr>ao_purpose = EvKnown Periodic, ao_delayed = EvKnown False,
             ao_disposal = ao_disposal result, ao_direction = EvNoObservation\<rparr>)
       | _ \<Rightarrow> None))"
  using assms(1)
proof (rule apply_event_OkE)
  fix r d1
  assume pay: "apply_payload (pr_volume_policy p) (st_segment s = Some (rc_segment c)) r (ev_payload e)
           (fst (enter_segment s c r)) = Ok d1"
    and s': "s' = applied_state c r (ev_payload e) d1 s"
  have s0: "dr_state (fst (enter_segment s c r)) = s" using assms(3) by (simp add: enter_segment_state)
  note sig = applied_signal [OF pay, unfolded s0, folded s']
  have "payload_indicative r (ev_payload e) s = st_indicative_auction s"
    using assms(2) by (cases "ev_payload e") (auto simp: payload_indicative_def)
  then have "st_phase (dr_state d1) = st_phase s" "st_indicative_auction (dr_state d1) = st_indicative_auction s"
    using apply_payload_state [OF pay] s0 by (simp_all add: Let_def)
  then have "current_auction_observation (dr_state d1) = current_auction_observation s"
    by (simp only: current_auction_observation_def)
  then have "merged_signal (dr_state d1) (AuctionUncross ob) = AuctionUncross (merge_with_current_auction s ob)"
    by (simp add: merged_signal_def merge_with_current_auction_def)
  then show ?thesis
    using sig assms(2)
    by (simp add: Let_def known_phase_field post_market_phase_def next_periodic_auction_round_def
        auction_periodic_with_evidence_def split: auction_evidence.splits auction_purpose.splits)
qed

theorem uncross_moves_phase_witness:
  "\<exists>s s' rcpt disposal. apply_event sample_hash sample_profile s sample_uncross_event
      (sample_context ''open'' Carry) = (Ok rcpt, s') \<and>
    known (st_phase s') = Some (PhaseAuction \<lparr>ao_purpose = EvKnown Periodic, ao_delayed = EvKnown False,
      ao_disposal = disposal, ao_direction = EvNoObservation\<rparr>)"
proof (rule sample_first_step)
  fix rc1 r1 and s1 :: market_state
  assume a: "st_version s1 = 1" "st_segment s1 = Some ''open''" "st_instrument s1 = (Twse, ''2330'')"
    "st_trading_date s1 = 20000" "st_last_event s1 = Some r1" "ar_match_time r1 = 1728000000000000"
    "st_cumulative_volume s1 = FieldKnown \<lparr>v_value = 12, v_unit = TradingUnit\<rparr> r1"
  obtain rc2 s2 where step: "apply_event sample_hash sample_profile s1 sample_uncross_event
      (sample_context ''open'' Carry) = (Ok rc2, s2)"
    using sample_second_step [OF a] by blast
  have sg: "payload_market_signal (ev_payload sample_uncross_event) = Set (AuctionUncross (auction_new Periodic True True))"
    by (simp add: sample_uncross_event_def)
  have "ao_purpose (merge_with_current_auction s1 (auction_new Periodic True True)) = EvKnown Periodic"
    by (simp add: merge_with_current_auction_def auction_new_def auction_merge_def split: option.splits)
  then show ?thesis
    using uncross_moves_phase [OF step sg] a(2) step by (auto simp: sample_context_def Let_def)
qed

text \<open>
  A boundary that resets leaves nothing behind. When an event enters another segment under the
  reset policy, every observable field of the new state is either still initial or was written by this
  very event, and the cumulative volume is accepted without comparison with the former segment.
\<close>

theorem boundary_reset_forgets:
  assumes "apply_event hash p s e c = (Ok rcpt, s')" and "st_segment s = Some former"
    and "former \<noteq> rc_segment c" and "rc_boundary_policy c = ResetObservableFields"
  shows "\<forall>r. Some r \<in> set (field_stamps s') \<longrightarrow> r = tr_event rcpt"
  using assms(1)
proof (rule apply_event_OkE)
  fix r d1
  assume pay: "apply_payload (pr_volume_policy p) (st_segment s = Some (rc_segment c)) r (ev_payload e)
           (fst (enter_segment s c r)) = Ok d1"
    and s': "s' = applied_state c r (ev_payload e) d1 s" and r: "tr_event rcpt = r"
  have "set (field_stamps (dr_state (fst (enter_segment s c r)))) = {None}"
    using assms(2-4) by (simp add: enter_segment_state reset_observable_fields_def field_stamps_def)
  then show ?thesis using applied_stamps_entered [OF pay] by (auto simp: s' r)
qed

theorem boundary_reset_forgets_witness:
  "\<exists>s s' rcpt. apply_event sample_hash sample_profile s sample_uncross_event
      (sample_context ''night'' ResetObservableFields) = (Ok rcpt, s') \<and>
    st_segment s = Some ''open'' \<and>
    (\<forall>r. Some r \<in> set (field_stamps s') \<longrightarrow> r = tr_event rcpt)"
proof (rule sample_first_step)
  fix rc1 r1 and s1 :: market_state
  assume a: "st_version s1 = 1" "st_segment s1 = Some ''open''" "st_instrument s1 = (Twse, ''2330'')"
    "st_trading_date s1 = 20000" "st_last_event s1 = Some r1" "ar_match_time r1 = 1728000000000000"
    "st_cumulative_volume s1 = FieldKnown \<lparr>v_value = 12, v_unit = TradingUnit\<rparr> r1"
  obtain rc2 s2 where step: "apply_event sample_hash sample_profile s1 sample_uncross_event
      (sample_context ''night'' ResetObservableFields) = (Ok rc2, s2)"
    using sample_second_step [OF a] by blast
  have "\<forall>r. Some r \<in> set (field_stamps s2) \<longrightarrow> r = tr_event rc2"
    using boundary_reset_forgets [OF step a(2)] by (simp add: sample_context_def)
  then show ?thesis using step a(2) by blast
qed

subsection \<open>Sequences of events\<close>

text \<open>Feeding events in order; the first refusal ends the run.\<close>

fun run_events ::
  "(bytes \<Rightarrow> bytes) \<Rightarrow> market_state_profile \<Rightarrow> market_state \<Rightarrow> (domain_event \<times> reducer_context) list \<Rightarrow>
   (market_state, state_transition_error) result" where
  "run_events hash p s [] = Ok s"
| "run_events hash p s ((e, c) # es) =
     (case apply_event hash p s e c of
        (Err err, _) \<Rightarrow> Err err
      | (Ok _, s') \<Rightarrow> run_events hash p s' es)"

lemma run_events_Cons_Ok:
  "run_events hash p s ((e, c) # es) = Ok t \<longleftrightarrow>
     (\<exists>rcpt s'. apply_event hash p s e c = (Ok rcpt, s') \<and> run_events hash p s' es = Ok t)"
  by (auto split: prod.splits result.splits)

lemma apply_event_order:
  assumes "apply_event hash p s e c = (Ok rcpt, s')"
  shows "st_version s' = Suc (st_version s)"
    and "applied_event_ref_from_event hash e = Ok (tr_event rcpt)" and "st_last_event s' = Some (tr_event rcpt)"
    and "st_last_event s = Some l \<Longrightarrow> ref_key l \<le> ref_key (tr_event rcpt)"
  using assms by (auto elim!: apply_event_OkE dest: applied_core simp: state_core_def)

text \<open>
  Accepted sequences are ordered. When a run of events succeeds, every event has a reference, the
  references are non-decreasing in the reducer's order (time, source format, source phase, kind,
  sequence, fingerprint) starting from the last event of the initial state, the match times are
  non-decreasing, and the version grows by the number of events.
\<close>

theorem accepted_events_ordered:
  assumes "run_events hash p s es = Ok t"
  shows "\<exists>rs. map (\<lambda>(e, c). applied_event_ref_from_event hash e) es = map Ok rs \<and>
    sorted (map ref_key ((case st_last_event s of None \<Rightarrow> [] | Some l \<Rightarrow> [l]) @ rs)) \<and>
    sorted (map (\<lambda>(e, c). ev_match_time e) es) \<and>
    st_version t = st_version s + length es"
  using assms
proof (induction es arbitrary: s)
  case Nil
  then show ?case by (simp split: option.splits)
next
  case (Cons ec es)
  obtain e c where ec: "ec = (e, c)" by (cases ec)
  obtain rcpt s' where step: "apply_event hash p s e c = (Ok rcpt, s')" and rest: "run_events hash p s' es = Ok t"
    using Cons.prems by (auto simp: ec run_events_Cons_Ok simp del: run_events.simps)
  note ord = apply_event_order [OF step]
  obtain rs where rs: "map (\<lambda>(e, c). applied_event_ref_from_event hash e) es = map Ok rs"
    and sorted: "sorted (map ref_key (tr_event rcpt # rs))" and ver: "st_version t = st_version s' + length es"
    using Cons.IH [OF rest] ord(3) by auto
  have refs: "map (\<lambda>(e, c). applied_event_ref_from_event hash e) (ec # es) = map Ok (tr_event rcpt # rs)"
    using rs ord(2) by (simp add: ec)
  have times: "map (\<lambda>(e, c). ev_match_time e) (ec # es) = map ar_match_time (tr_event rcpt # rs)"
  proof -
    have "ar_match_time r = ev_match_time e'" if "applied_event_ref_from_event hash e' = Ok r" for e' r
      using that by (auto simp: applied_event_ref_from_event_def)
    then have "map Ok xs = map (\<lambda>(e, c). applied_event_ref_from_event hash e) ys \<Longrightarrow>
        map (\<lambda>(e, c). ev_match_time e) ys = map ar_match_time xs" for xs ys
      by (induction xs arbitrary: ys) (auto simp: Cons_eq_map_conv)
    with refs show ?thesis by metis
  qed
  have "sorted (map ref_key xs) \<Longrightarrow> sorted (map ar_match_time xs)" for xs
    by (induction xs) (auto simp: ref_key_def less_eq_prod_def)
  then have "sorted (map (\<lambda>(e, c). ev_match_time e) (ec # es))" unfolding times using sorted by blast
  moreover have "sorted (map ref_key ((case st_last_event s of None \<Rightarrow> [] | Some l \<Rightarrow> [l]) @ tr_event rcpt # rs))"
    using sorted ord(4) by (cases "st_last_event s") (auto intro: order_trans)
  ultimately show ?case
    using refs ver ord(1) by (intro exI [of _ "tr_event rcpt # rs"]) simp
qed

theorem accepted_events_ordered_witness:
  "\<exists>t. run_events sample_hash sample_profile sample_state
      [(sample_status_event, sample_context ''open'' Carry),
       (sample_uncross_event, sample_context ''open'' Carry)] = Ok t \<and> st_version t = 2"
proof (rule sample_first_step)
  fix rc1 r1 and s1 :: market_state
  assume one: "apply_event sample_hash sample_profile sample_state sample_status_event
      (sample_context ''open'' Carry) = (Ok rc1, s1)" and
    a: "st_version s1 = 1" "st_segment s1 = Some ''open''" "st_instrument s1 = (Twse, ''2330'')"
    "st_trading_date s1 = 20000" "st_last_event s1 = Some r1" "ar_match_time r1 = 1728000000000000"
    "st_cumulative_volume s1 = FieldKnown \<lparr>v_value = 12, v_unit = TradingUnit\<rparr> r1"
  obtain rc2 s2 where "apply_event sample_hash sample_profile s1 sample_uncross_event
      (sample_context ''open'' Carry) = (Ok rc2, s2)"
    using sample_second_step [OF a] by blast
  with one have run: "run_events sample_hash sample_profile sample_state
      [(sample_status_event, sample_context ''open'' Carry),
       (sample_uncross_event, sample_context ''open'' Carry)] = Ok s2" by simp
  then show ?thesis
    using accepted_events_ordered [OF run] by (auto simp: sample_state_def market_state_new_def)
qed

text \<open>
  Cumulative volume never falls within a segment. Under a non-decreasing policy, along a run of
  events that stay in the segment and neither clear the volume nor report it unknown, a known volume
  stays known and its value never decreases.
\<close>

theorem cumulative_volume_monotone:
  assumes "pr_volume_policy p = NonDecreasingWithinSegment u" and "run_events hash p s es = Ok t"
    and "st_segment s = Some sg" and "\<forall>(e, c) \<in> set es. rc_segment c = sg \<and>
      (case payload_volume_observation (ev_payload e) of Clear \<Rightarrow> False | Unknown _ \<Rightarrow> False | _ \<Rightarrow> True)"
    and "known (st_cumulative_volume s) = Some v"
  shows "\<exists>w. known (st_cumulative_volume t) = Some w \<and> v_value v \<le> v_value w"
  using assms(2-5)
proof (induction es arbitrary: s v)
  case (Cons ec es)
  obtain e c where ec: "ec = (e, c)" by (cases ec)
  obtain rcpt s' where step: "apply_event hash p s e c = (Ok rcpt, s')" and rest: "run_events hash p s' es = Ok t"
    using Cons.prems(1) by (auto simp: ec run_events_Cons_Ok simp del: run_events.simps)
  have sg: "rc_segment c = sg" and ob: "payload_volume_observation (ev_payload e) = NoObservation \<or>
      (\<exists>w. payload_volume_observation (ev_payload e) = Set w)"
    using Cons.prems(3) by (auto simp: ec split: observation.splits)
  from step obtain w where w: "st_segment s' = Some sg" "known (st_cumulative_volume s') = Some w" "v_value v \<le> v_value w"
  proof (rule apply_event_OkE)
    fix r d1
    assume pay: "apply_payload (pr_volume_policy p) (st_segment s = Some (rc_segment c)) r (ev_payload e)
           (fst (enter_segment s c r)) = Ok d1"
      and s': "s' = applied_state c r (ev_payload e) d1 s"
    have s0: "dr_state (fst (enter_segment s c r)) = s" using Cons.prems(2) sg by (simp add: enter_segment_state)
    have vol: "st_cumulative_volume s' =
        observe r (\<lambda>v. v) (payload_volume_observation (ev_payload e)) (st_cumulative_volume s)"
      using applied_firm(3) [OF pay] s0 by (simp add: s')
    have seg: "st_segment s' = Some sg" using applied_core [OF pay] sg by (simp add: s' state_core_def)
    from ob show ?thesis
    proof
      assume "payload_volume_observation (ev_payload e) = NoObservation"
      then show ?thesis using that [of v] vol Cons.prems(4) seg by simp
    next
      assume "\<exists>w. payload_volume_observation (ev_payload e) = Set w"
      then obtain w where w: "payload_volume_observation (ev_payload e) = Set w" by blast
      obtain q where "st_cumulative_volume s = FieldKnown v q"
        using Cons.prems(4) by (cases "st_cumulative_volume s") auto
      then have "v_value v \<le> v_value w"
        using payload_volume_validated [OF pay w] s0 Cons.prems(2) sg
        by (auto simp: validate_volume_def assms(1) split: if_splits)
      then show ?thesis using that [of w] vol w seg by simp
    qed
  qed
  have "\<exists>x. known (st_cumulative_volume t) = Some x \<and> v_value w \<le> v_value x"
    using Cons.IH [OF rest w(1) _ w(2)] Cons.prems(3) by simp
  then show ?case using w(3) by (auto intro: order_trans)
qed simp

theorem cumulative_volume_monotone_witness:
  "\<exists>s t. run_events sample_hash sample_profile s [(sample_uncross_event, sample_context ''open'' Carry)] = Ok t \<and>
    (\<exists>v w. known (st_cumulative_volume s) = Some v \<and> known (st_cumulative_volume t) = Some w \<and>
      v_value v = 12 \<and> 12 \<le> v_value w)"
proof (rule sample_first_step)
  fix rc1 r1 and s1 :: market_state
  assume a: "st_version s1 = 1" "st_segment s1 = Some ''open''" "st_instrument s1 = (Twse, ''2330'')"
    "st_trading_date s1 = 20000" "st_last_event s1 = Some r1" "ar_match_time r1 = 1728000000000000"
    "st_cumulative_volume s1 = FieldKnown \<lparr>v_value = 12, v_unit = TradingUnit\<rparr> r1"
  obtain rc2 s2 where "apply_event sample_hash sample_profile s1 sample_uncross_event
      (sample_context ''open'' Carry) = (Ok rc2, s2)"
    using sample_second_step [OF a] by blast
  then have run: "run_events sample_hash sample_profile s1
      [(sample_uncross_event, sample_context ''open'' Carry)] = Ok s2" by simp
  have "\<exists>w. known (st_cumulative_volume s2) = Some w \<and> v_value \<lparr>v_value = 12, v_unit = TradingUnit\<rparr> \<le> v_value w"
    by (rule cumulative_volume_monotone [OF _ run a(2), where u = TradingUnit])
      (simp_all add: a(7) sample_profile_def sample_context_def sample_uncross_event_def payload_volume_observation_def)
  then show ?thesis using run a(7) by fastforce
qed

end
