(* ===== verification/StateCanonical.thy ===== *)
theory StateCanonical
  imports Reducer
begin

text \<open>
  Canonical bytes of a market state and of a final state set (\<open>crates/market-state/src/canonical.rs\<close>).
  The source has no decoder for these; what matters is that the checksum over them identifies the
  states. The theory shows that the encoding of a state is injective on well-formed states and that a
  final state set is encoded independently of the order in which the states are given, so that equal
  bytes mean equal sets of states and conversely.
\<close>

section \<open>Encoding\<close>

definition CANONICAL_MARKET_STATE_VERSION :: nat where "CANONICAL_MARKET_STATE_VERSION = 7"
definition MARKET_STATE_VERSION :: nat where "MARKET_STATE_VERSION = 7"
definition CANONICAL_FINAL_STATE_SET_VERSION :: nat where "CANONICAL_FINAL_STATE_SET_VERSION = 7"

definition append_instrument :: "instrument_id \<Rightarrow> encoded" where
  "append_instrument i = append_all [push (market_discriminant (fst i)), append_bytes (as_bytes (snd i))]"

definition append_event_ref :: "applied_event_ref \<Rightarrow> encoded" where
  "append_event_ref r =
     append_all [Ok (be_bytes_signed 8 (ar_match_time r)), append_bytes (as_bytes (ar_source_format r)),
       push (ar_source_phase r), push (kind_discriminant (ar_event_kind r)),
       append_optional_u64 (ar_source_sequence r), Ok (ar_fingerprint r)]"

fun append_state_field :: "('a \<Rightarrow> encoded) \<Rightarrow> 'a state_field \<Rightarrow> encoded" where
  "append_state_field enc (FieldUnavailable ReasonInitial) = push 0"
| "append_state_field enc (FieldUnavailable (ReasonCleared r)) = append_all [push 1, append_event_ref r]"
| "append_state_field enc (FieldKnown v r) = append_all [push 2, append_event_ref r, enc v]"
| "append_state_field enc (FieldUnknown raw r) = append_all [push 3, append_event_ref r, append_unknown raw]"

fun append_phase :: "market_phase \<Rightarrow> encoded" where
  "append_phase PhaseContinuous = push 1"
| "append_phase (PhaseAuction ob) = append_all [push 2, append_auction_observation ob]"
| "append_phase PhaseClosed = push 3"

fun append_trade_observation :: "trade_observation \<Rightarrow> encoded" where
  "append_trade_observation (TradeSingle t) = append_all [push 1, append_trade t]"
| "append_trade_observation (TradeMany ts ord) =
     append_all [push 2, push (trade_order_discriminant ord), append_length (length ts),
       append_all (map append_trade ts)]"

definition append_segment :: "session_segment_id \<Rightarrow> encoded" where
  "append_segment seg = append_bytes (as_bytes seg)"

definition state_to_canonical_bytes :: "market_state \<Rightarrow> encoded" where
  "state_to_canonical_bytes s =
     append_all [Ok (as_bytes ''OSMS''), Ok (be_bytes 2 CANONICAL_MARKET_STATE_VERSION),
       Ok (be_bytes 2 MARKET_STATE_VERSION), append_instrument (st_instrument s),
       Ok (be_bytes_signed 4 (st_trading_date s)), append_option append_segment (st_segment s),
       Ok (be_bytes 8 (st_version s)),
       append_state_field append_book (st_book s),
       append_state_field append_trade_observation (st_recent_trade s),
       append_state_field append_volume (st_cumulative_volume s),
       append_state_field append_indicative_auction (st_indicative_auction s),
       append_state_field append_market_signal (st_market_signal s),
       append_state_field append_phase (st_phase s),
       append_option append_event_ref (st_last_event s)]"

definition state_fingerprint :: "(bytes \<Rightarrow> bytes) \<Rightarrow> market_state \<Rightarrow> encoded" where
  "state_fingerprint hash s = rbind (state_to_canonical_bytes s) (\<lambda>b. Ok (hash b))"

datatype final_state_encoding_error = FinalCanonical canonical_encoding_error | FinalDuplicateInstrument

definition append_framed_state :: "market_state \<Rightarrow> encoded" where
  "append_framed_state s =
     rbind (state_to_canonical_bytes s) (\<lambda>b. append_all [append_length (length b), Ok b])"

definition canonical_final_state_set ::
  "market_state list \<Rightarrow> (bytes, final_state_encoding_error) result" where
  "canonical_final_state_set states =
     (let sorted_states = sort_key st_instrument states in
      if any_adjacent (\<lambda>a b. st_instrument a = st_instrument b) sorted_states
      then Err FinalDuplicateInstrument
      else map_err FinalCanonical
        (append_all (Ok (as_bytes ''OSMF'') # Ok (be_bytes 2 CANONICAL_FINAL_STATE_SET_VERSION) #
           append_length (length sorted_states) # map append_framed_state sorted_states)))"

definition final_state_checksum ::
  "(bytes \<Rightarrow> bytes) \<Rightarrow> market_state list \<Rightarrow> (bytes, final_state_encoding_error) result" where
  "final_state_checksum hash states = rbind (canonical_final_state_set states) (\<lambda>b. Ok (hash b))"

section \<open>Prefix codes\<close>

text \<open>
  Encodings that identify the value whatever bytes follow. Every codec is one; sequences, options and
  state fields of prefix codes are again prefix codes.
\<close>

locale prefix_code =
  fixes good :: "'a \<Rightarrow> bool" and enc :: "'a \<Rightarrow> encoded"
  assumes peel: "enc x = Ok p \<Longrightarrow> enc y = Ok q \<Longrightarrow> good x \<Longrightarrow> good y \<Longrightarrow> p @ r = q @ s \<Longrightarrow> x = y \<and> r = s"

sublocale codec \<subseteq> prefix_code wf enc
  by unfold_locales (metis prefix_free)

context prefix_code
begin

lemma option_prefix: "prefix_code (\<lambda>v. \<forall>x. v = Some x \<longrightarrow> good x) (append_option enc)"
proof
  fix v w :: "'a option" and p q r s
  assume a: "append_option enc v = Ok p" "append_option enc w = Ok q" "\<forall>x. v = Some x \<longrightarrow> good x"
    "\<forall>x. w = Some x \<longrightarrow> good x" "p @ r = q @ s"
  show "v = w \<and> r = s"
  proof (cases "\<exists>x y. v = Some x \<and> w = Some y")
    case True
    then obtain x y b c where "v = Some x" "w = Some y" "enc x = Ok b" "enc y = Ok c" "b @ r = c @ s"
      using a(1,2,5) by (auto simp: append_all_Cons_Ok push_Ok)
    then show ?thesis using peel [of x b y c r s] a(3,4) by simp
  next
    case False
    then show ?thesis using a(1,2,5) by (cases v; cases w) (simp_all add: append_all_Cons_Ok push_Ok, auto)
  qed
qed

lemma repeat_prefix:
  assumes "append_all (map enc xs) = Ok p" "append_all (map enc ys) = Ok q" "list_all good xs" "list_all good ys"
    "length xs = length ys" "p @ r = q @ s"
  shows "xs = ys \<and> r = s"
  using assms
proof (induction xs arbitrary: ys p q)
  case (Cons x xs)
  then obtain y zs where ys: "ys = y # zs" by (cases ys) auto
  obtain a b a' b' where e: "enc x = Ok a" "append_all (map enc xs) = Ok b" "p = a @ b"
      "enc y = Ok a'" "append_all (map enc zs) = Ok b'" "q = a' @ b'"
    using Cons.prems(1,2) ys by (auto simp: append_all_Cons_Ok)
  have "x = y \<and> b @ r = b' @ s" using peel [OF e(1,4)] Cons.prems ys e by simp
  then show ?case using Cons.IH [OF e(2,5)] Cons.prems ys by auto
qed auto

end

lemma fixed_bytes_peel:
  "length a = length b \<Longrightarrow> a @ r = b @ s \<longleftrightarrow> a = b \<and> r = s"
  by simp

lemma be_bytes_inject: "be_bytes n x = be_bytes n y \<Longrightarrow> x < 256 ^ n \<Longrightarrow> y < 256 ^ n \<Longrightarrow> x = y"
  by (metis of_be_bytes_be_bytes)

lemma framed_bytes_peel:
  assumes "append_bytes a = Ok p" "append_bytes b = Ok q" "p @ r = q @ s"
  shows "a = b \<and> r = s"
proof -
  have e: "length a < 256 ^ 4" "length b < 256 ^ 4"
      "be_bytes 4 (length a) @ a @ r = be_bytes 4 (length b) @ b @ s"
    using assms by (auto simp: append_bytes_Ok in_u32_def)
  then have "be_bytes 4 (length a) = be_bytes 4 (length b)" and rest: "a @ r = b @ s"
    using fixed_bytes_peel [of "be_bytes 4 (length a)" "be_bytes 4 (length b)"] by simp_all
  then have "length a = length b" using be_bytes_inject e(1,2) by blast
  then show ?thesis using rest by simp
qed

text \<open>Two encoded pieces that can be compared in front of arbitrary bytes.\<close>

definition peelable :: "encoded \<Rightarrow> encoded \<Rightarrow> bool" where
  "peelable m n \<longleftrightarrow> (\<forall>p q r s. m = Ok p \<longrightarrow> n = Ok q \<longrightarrow> p @ r = q @ s \<longrightarrow> m = n \<and> r = s)"

lemma peelable_fixed: "length a = length b \<Longrightarrow> peelable (Ok a) (Ok b)"
  by (auto simp: peelable_def)

lemma peelable_push: "peelable (push m) (push n)"
  by (auto simp: peelable_def push_def)

lemma peelable_bytes: "peelable (append_bytes a) (append_bytes b)"
  unfolding peelable_def using framed_bytes_peel by blast

lemma append_all_peel:
  assumes "list_all2 peelable ms ns" "append_all ms = Ok p" "append_all ns = Ok q" "p @ r = q @ s"
  shows "ms = ns \<and> r = s"
  using assms
proof (induction ms ns arbitrary: p q rule: list_all2_induct)
  case (Cons m ms n ns)
  obtain a b a' b' where e: "m = Ok a" "append_all ms = Ok b" "p = a @ b" "n = Ok a'" "append_all ns = Ok b'" "q = a' @ b'"
    using Cons.prems(1,2) by (auto simp: append_all_Cons_Ok)
  have "a @ (b @ r) = a' @ (b' @ s)" using Cons.prems(3) e by simp
  then have "m = n \<and> b @ r = b' @ s" using Cons.hyps(1) e unfolding peelable_def by blast
  then show ?case using Cons.IH [OF e(2,5)] by simp
qed simp

context prefix_code
begin

lemma peelable: "good x \<Longrightarrow> good y \<Longrightarrow> peelable (enc x) (enc y)"
  unfolding peelable_def using peel by blast

lemma inject: "enc x = enc y \<Longrightarrow> is_ok (enc x) \<Longrightarrow> good x \<Longrightarrow> good y \<Longrightarrow> x = y"
  by (metis peel is_ok_iff)

end

lemma prefix_codeI:
  assumes "\<And>x y p q r s. f x = Ok p \<Longrightarrow> f y = Ok q \<Longrightarrow> P x \<Longrightarrow> P y \<Longrightarrow> p @ r = q @ s \<Longrightarrow> x = y \<and> r = s"
  shows "prefix_code P f"
  using assms by unfold_locales blast

section \<open>State parts are prefix codes\<close>

text \<open>
  Auction observations are not required to satisfy the constructor's direction rule here: the reducer
  stores merged observations, which may break it.
\<close>

interpretation any_auction: prefix_code "\<lambda>_. True" append_auction_observation
proof (rule prefix_codeI)
  fix x y p q r s
  assume e: "append_auction_observation x = Ok p" "append_auction_observation y = Ok q" "p @ r = q @ s"
  have "append_evidence purpose_discriminant (ao_purpose x) = append_evidence purpose_discriminant (ao_purpose y) \<and>
      append_evidence of_bool (ao_delayed x) = append_evidence of_bool (ao_delayed y) \<and>
      append_evidence of_bool (ao_disposal x) = append_evidence of_bool (ao_disposal y) \<and>
      append_evidence direction_discriminant (ao_direction x) = append_evidence direction_discriminant (ao_direction y) \<and> r = s"
    using append_all_peel [OF _ e [unfolded append_auction_observation_def]]
      auction_purpose.peelable auction_flag.peelable auction_direction.peelable by simp
  moreover have "is_ok (append_evidence d v)" for d and v :: "'b auction_evidence" by (cases v) simp_all
  ultimately have "ao_purpose x = ao_purpose y" "ao_delayed x = ao_delayed y" "ao_disposal x = ao_disposal y"
      "ao_direction x = ao_direction y" "r = s"
    using auction_purpose.inject auction_flag.inject auction_direction.inject by blast+
  then show "x = y \<and> r = s" by simp
qed

interpretation any_signal: prefix_code "\<lambda>_. True" append_market_signal
proof (rule prefix_codeI)
  fix x y p q r s
  assume e: "append_market_signal x = Ok p" "append_market_signal y = Ok q" "p @ r = q @ s"
  consider (col) a b where "x = AuctionCollecting a" "y = AuctionCollecting b"
    | (unc) a b where "x = AuctionUncross a" "y = AuctionUncross b"
    | (other) "signal_auction x = None \<or> signal_auction y = None \<or> signal_discriminant x \<noteq> signal_discriminant y"
    by (cases x; cases y) auto
  then show "x = y \<and> r = s"
  proof cases
    case col
    then obtain t u where "append_auction_observation a = Ok t" "append_auction_observation b = Ok u" "t @ r = u @ s"
      using e by (auto simp: append_market_signal_def append_all_Cons_Ok push_Ok)
    from any_auction.peel [OF this(1,2) _ _ this(3)] col show ?thesis by blast
  next
    case unc
    then obtain t u where "append_auction_observation a = Ok t" "append_auction_observation b = Ok u" "t @ r = u @ s"
      using e by (auto simp: append_market_signal_def append_all_Cons_Ok push_Ok)
    from any_auction.peel [OF this(1,2) _ _ this(3)] unc show ?thesis by blast
  next
    case other
    then show ?thesis
      using e by (cases x; cases y) (auto simp: append_market_signal_def append_all_Cons_Ok push_Ok)
  qed
qed

interpretation phase: prefix_code "\<lambda>_. True" append_phase
proof (rule prefix_codeI)
  fix x y p q r s
  assume e: "append_phase x = Ok p" "append_phase y = Ok q" "p @ r = q @ s"
  show "x = y \<and> r = s"
  proof (cases "\<exists>a b. x = PhaseAuction a \<and> y = PhaseAuction b")
    case True
    then obtain a b t u where "x = PhaseAuction a" "y = PhaseAuction b"
        "append_auction_observation a = Ok t" "append_auction_observation b = Ok u" "t @ r = u @ s"
      using e by (auto simp: append_all_Cons_Ok push_Ok)
    with any_auction.peel [OF this(3,4) _ _ this(5)] show ?thesis by blast
  next
    case False
    then show ?thesis using e by (cases x; cases y) (auto simp: append_all_Cons_Ok push_Ok)
  qed
qed

definition good_ref :: "applied_event_ref \<Rightarrow> bool" where
  "good_ref r \<longleftrightarrow> in_i64 (ar_match_time r) \<and> ar_source_phase r < 256 \<and>
     (\<forall>n. ar_source_sequence r = Some n \<longrightarrow> in_u64 n) \<and> length (ar_fingerprint r) = 32"

lemma push_inject: "push m = push n \<Longrightarrow> m < 256 \<Longrightarrow> n < 256 \<Longrightarrow> m = n"
  by (metis push_def result.inject(1) list.inject unat_u8_eq)

lemma be_bytes_signed_inject:
  assumes "be_bytes_signed 8 a = be_bytes_signed 8 b" "in_i64 a" "in_i64 b"
  shows "a = b"
proof -
  have "of_be_bytes_signed (be_bytes_signed 8 a) = a" "of_be_bytes_signed (be_bytes_signed 8 b) = b"
    using assms(2,3) by (simp_all add: signed_of_be_bytes in_i64_def)
  then show ?thesis using assms(1) by metis
qed

lemma append_bytes_inject: "append_bytes a = append_bytes b \<Longrightarrow> is_ok (append_bytes a) \<Longrightarrow> a = b"
  by (metis framed_bytes_peel is_ok_iff)

lemma append_all_oks: "append_all ms = Ok p \<Longrightarrow> list_all is_ok ms"
  by (metis is_ok_append_all is_ok_iff)

interpretation event_ref: prefix_code good_ref append_event_ref
proof (rule prefix_codeI)
  fix x y p q r s
  assume e: "append_event_ref x = Ok p" "append_event_ref y = Ok q" "p @ r = q @ s"
    and good: "good_ref x" "good_ref y"
  have eqs: "be_bytes_signed 8 (ar_match_time x) = be_bytes_signed 8 (ar_match_time y)"
      "append_bytes (as_bytes (ar_source_format x)) = append_bytes (as_bytes (ar_source_format y))"
      "push (ar_source_phase x) = push (ar_source_phase y)"
      "push (kind_discriminant (ar_event_kind x)) = push (kind_discriminant (ar_event_kind y))"
      "append_optional_u64 (ar_source_sequence x) = append_optional_u64 (ar_source_sequence y)"
      "ar_fingerprint x = ar_fingerprint y" "r = s"
    using append_all_peel [OF _ e [unfolded append_event_ref_def]] good
    by (simp_all add: peelable_fixed peelable_push peelable_bytes optional_u64.peelable good_ref_def)
  have "is_ok (append_bytes (as_bytes (ar_source_format x)))" "is_ok (append_optional_u64 (ar_source_sequence x))"
    using append_all_oks [OF e(1) [unfolded append_event_ref_def]] by simp_all
  then have "as_bytes (ar_source_format x) = as_bytes (ar_source_format y)"
      "ar_source_sequence x = ar_source_sequence y"
    using append_bytes_inject [OF eqs(2)] optional_u64.inject [OF eqs(5)] good by (auto simp: good_ref_def)
  moreover have "kind_discriminant (ar_event_kind x) = kind_discriminant (ar_event_kind y)"
    using push_inject [OF eqs(4)] by (cases "ar_event_kind x"; cases "ar_event_kind y") simp_all
  then have "ar_event_kind x = ar_event_kind y"
    by (cases "ar_event_kind x"; cases "ar_event_kind y") simp_all
  ultimately show "x = y \<and> r = s"
    using eqs good be_bytes_signed_inject [OF eqs(1)] push_inject [OF eqs(3)] by (simp add: good_ref_def)
qed

fun field_tag :: "'a state_field \<Rightarrow> nat" where
  "field_tag (FieldUnavailable ReasonInitial) = 0"
| "field_tag (FieldUnavailable (ReasonCleared r)) = 1"
| "field_tag (FieldKnown v r) = 2"
| "field_tag (FieldUnknown raw r) = 3"

lemma append_state_field_tag:
  "append_state_field enc f = Ok p \<Longrightarrow> \<exists>t. p = word_of_nat (field_tag f) # t"
  by (cases "(enc, f)" rule: append_state_field.cases) (auto simp: append_all_Cons_Ok push_Ok)

lemma field_tag_byte:
  "(word_of_nat (field_tag f) :: u8) = word_of_nat (field_tag g) \<Longrightarrow> field_tag f = field_tag g"
proof -
  have "field_tag h < 4" for h :: "'c state_field" by (cases h rule: field_tag.cases) simp_all
  note this [of f] this [of g]
  then have "unat (word_of_nat (field_tag f) :: u8) = field_tag f" "unat (word_of_nat (field_tag g) :: u8) = field_tag g"
    by (simp_all add: unat_of_nat)
  then show "(word_of_nat (field_tag f) :: u8) = word_of_nat (field_tag g) \<Longrightarrow> ?thesis" by metis
qed

definition good_field :: "('a \<Rightarrow> bool) \<Rightarrow> 'a state_field \<Rightarrow> bool" where
  "good_field good f \<longleftrightarrow> (\<forall>r. observed_at f = Some r \<longrightarrow> good_ref r) \<and> (\<forall>v. known f = Some v \<longrightarrow> good v) \<and>
      (\<forall>raw r. f = FieldUnknown raw r \<longrightarrow> wf_unknown raw)"

context prefix_code
begin

lemma state_field_prefix: "prefix_code (good_field good) (append_state_field enc)"
proof (rule prefix_codeI)
  fix f g :: "'a state_field" and p q u v
  assume e: "append_state_field enc f = Ok p" "append_state_field enc g = Ok q" "p @ u = q @ v"
    and good: "good_field good f" "good_field good g"
  have "field_tag f = field_tag g"
    using append_state_field_tag [OF e(1)] append_state_field_tag [OF e(2)] e(3) field_tag_byte by fastforce
  then consider (initial) "f = field_initial" "g = field_initial"
    | (cleared) a b where "f = field_cleared a" "g = field_cleared b"
    | (known) x y a b where "f = FieldKnown x a" "g = FieldKnown y b"
    | (unknown) x y a b where "f = FieldUnknown x a" "g = FieldUnknown y b"
    by (cases f rule: field_tag.cases; cases g rule: field_tag.cases) auto
  then show "f = g \<and> u = v"
  proof cases
    case initial
    then show ?thesis using e by (simp add: push_Ok)
  next
    case cleared
    then obtain t t' where t: "append_event_ref a = Ok t" "append_event_ref b = Ok t'" "t @ u = t' @ v"
      using e by (auto simp: append_all_Cons_Ok push_Ok)
    then show ?thesis using event_ref.peel [OF t(1,2) _ _ t(3)] good cleared by (simp add: good_field_def)
  next
    case known
    then obtain t t' w w' where t: "append_event_ref a = Ok t" "append_event_ref b = Ok t'"
        "enc x = Ok w" "enc y = Ok w'" "t @ (w @ u) = t' @ (w' @ v)"
      using e by (auto simp: append_all_Cons_Ok push_Ok)
    then have "a = b" "w @ u = w' @ v"
      using event_ref.peel [OF t(1,2) _ _ t(5)] good known by (simp_all add: good_field_def)
    then show ?thesis using peel [OF t(3,4) _ _ \<open>w @ u = w' @ v\<close>] good known by (simp add: good_field_def)
  next
    case unknown
    then obtain t t' w w' where t: "append_event_ref a = Ok t" "append_event_ref b = Ok t'"
        "append_unknown x = Ok w" "append_unknown y = Ok w'" "t @ (w @ u) = t' @ (w' @ v)"
      using e by (auto simp: append_all_Cons_Ok push_Ok)
    then have "a = b" "w @ u = w' @ v"
      using event_ref.peel [OF t(1,2) _ _ t(5)] good unknown by (simp_all add: good_field_def)
    then show ?thesis
      using unknown.peel [OF t(3,4) _ _ \<open>w @ u = w' @ v\<close>] good unknown by (simp add: good_field_def)
  qed
qed

end

definition good_trades :: "trade_observation \<Rightarrow> bool" where
  "good_trades t \<longleftrightarrow> list_all wf_trade (trade_observation_trades t)"

lemma append_length_inject: "append_length m = append_length n \<Longrightarrow> append_length m = Ok p \<Longrightarrow> m = n"
proof -
  assume "append_length m = append_length n" "append_length m = Ok p"
  then have "be_bytes 4 m = be_bytes 4 n" "m < 256 ^ 4" "n < 256 ^ 4"
    by (auto simp: append_length_def in_u32_def split: if_splits)
  then show "m = n" by (rule be_bytes_inject)
qed

lemma peelable_length: "peelable (append_length m) (append_length n)"
  by (auto simp: peelable_def append_length_def)

interpretation trade_obs: prefix_code good_trades append_trade_observation
proof (rule prefix_codeI)
  fix x y p q r s
  assume e: "append_trade_observation x = Ok p" "append_trade_observation y = Ok q" "p @ r = q @ s"
    and good: "good_trades x" "good_trades y"
  consider (single) a b where "x = TradeSingle a" "y = TradeSingle b"
    | (many) ts ord us ord' where "x = TradeMany ts ord" "y = TradeMany us ord'"
    | (mixed) "False"
    using e by (cases x; cases y) (auto simp: append_all_Cons_Ok push_Ok)
  then show "x = y \<and> r = s"
  proof cases
    case single
    then obtain t t' where t: "append_trade a = Ok t" "append_trade b = Ok t'" "t @ r = t' @ s"
      using e by (auto simp: append_all_Cons_Ok push_Ok)
    then show ?thesis using trade.peel [OF t(1,2) _ _ t(3)] good single by (simp add: good_trades_def)
  next
    case many
    then obtain o1 o2 l l' t t' where
      t: "push (trade_order_discriminant ord) = Ok o1" "push (trade_order_discriminant ord') = Ok o2"
        "append_length (length ts) = Ok l" "append_length (length us) = Ok l'"
        "append_all (map append_trade ts) = Ok t" "append_all (map append_trade us) = Ok t'"
        "o1 @ (l @ (t @ r)) = o2 @ (l' @ (t' @ s))"
      using e by (auto simp: append_all_Cons_Ok push_Ok)
    have o: "ord = ord'" and "l @ (t @ r) = l' @ (t' @ s)" using trade_order.peel [OF t(1,2) _ _ t(7)] by simp_all
    then have "append_length (length ts) = append_length (length us)" and rest: "t @ r = t' @ s"
      using peelable_length [of "length ts" "length us"] t(3,4) unfolding peelable_def by blast+
    then have "length ts = length us" using append_length_inject t(3) by blast
    then have "ts = us \<and> r = s"
      using trade.repeat_prefix [OF t(5,6) _ _ _ rest] good many by (simp add: good_trades_def)
    then show ?thesis using many o by simp
  qed simp
qed

definition good_indicative :: "indicative_auction \<Rightarrow> bool" where
  "good_indicative a \<longleftrightarrow> wf_observation in_i128 (ia_price a) \<and> wf_observation wf_quantity (ia_quantity a) \<and>
     wf_observation wf_book (ia_book a) \<and> wf_observation wf_volume (ia_cumulative_volume a)"

interpretation any_indicative: prefix_code good_indicative append_indicative_auction
proof (rule prefix_codeI)
  fix x y p q r s
  assume e: "append_indicative_auction x = Ok p" "append_indicative_auction y = Ok q" "p @ r = q @ s"
    and good: "good_indicative x" "good_indicative y"
  note parts = append_all_peel [OF _ e [unfolded append_indicative_auction_def]]
  have eqs: "append_auction_observation (ia_observation x) = append_auction_observation (ia_observation y)"
      "append_observation append_price (ia_price x) = append_observation append_price (ia_price y)"
      "append_observation append_quantity (ia_quantity x) = append_observation append_quantity (ia_quantity y)"
      "append_observation append_book (ia_book x) = append_observation append_book (ia_book y)"
      "append_observation append_volume (ia_cumulative_volume x) = append_observation append_volume (ia_cumulative_volume y)"
      "append_annotations (ia_annotations x) = append_annotations (ia_annotations y)" "r = s"
    using parts good by (simp_all add: any_auction.peelable price_observation.peelable quantity_observation.peelable
        book_observation.peelable volume_observation.peelable annotations.peelable good_indicative_def)
  note oks = append_all_oks [OF e(1) [unfolded append_indicative_auction_def], simplified]
  have "ia_observation x = ia_observation y" "ia_annotations x = ia_annotations y"
    using any_auction.inject [OF eqs(1)] annotations.inject [OF eqs(6)] oks by auto
  moreover have "ia_price x = ia_price y" "ia_quantity x = ia_quantity y" "ia_book x = ia_book y"
      "ia_cumulative_volume x = ia_cumulative_volume y"
    using price_observation.inject [OF eqs(2)] quantity_observation.inject [OF eqs(3)]
      book_observation.inject [OF eqs(4)] volume_observation.inject [OF eqs(5)] oks good
    by (auto simp: good_indicative_def)
  ultimately show "x = y \<and> r = s" using eqs(7) by simp
qed

interpretation segment: prefix_code "\<lambda>_. True" append_segment
proof (rule prefix_codeI)
  fix x y p q r s
  assume "append_segment x = Ok p" "append_segment y = Ok q" "p @ r = q @ s"
  from framed_bytes_peel [OF this [unfolded append_segment_def]] show "x = y \<and> r = s" by simp
qed

interpretation optional_segment: prefix_code "\<lambda>v. \<forall>x. v = Some x \<longrightarrow> True" "append_option append_segment"
  by (rule segment.option_prefix)

interpretation optional_ref: prefix_code "\<lambda>v. \<forall>x. v = Some x \<longrightarrow> good_ref x" "append_option append_event_ref"
  by (rule event_ref.option_prefix)

interpretation book_field: prefix_code "good_field wf_book" "append_state_field append_book"
  by (rule book.state_field_prefix)

interpretation trade_field: prefix_code "good_field good_trades" "append_state_field append_trade_observation"
  by (rule trade_obs.state_field_prefix)

interpretation volume_field: prefix_code "good_field wf_volume" "append_state_field append_volume"
  by (rule volume.state_field_prefix)

interpretation indicative_field: prefix_code "good_field good_indicative" "append_state_field append_indicative_auction"
  by (rule any_indicative.state_field_prefix)

interpretation signal_field: prefix_code "good_field (\<lambda>_. True)" "append_state_field append_market_signal"
  by (rule any_signal.state_field_prefix)

interpretation phase_field: prefix_code "good_field (\<lambda>_. True)" "append_state_field append_phase"
  by (rule phase.state_field_prefix)

section \<open>States and final state sets\<close>

definition wf_state :: "market_state \<Rightarrow> bool" where
  "wf_state s \<longleftrightarrow> in_i32 (st_trading_date s) \<and> in_u64 (st_version s) \<and>
     good_field wf_book (st_book s) \<and> good_field good_trades (st_recent_trade s) \<and>
     good_field wf_volume (st_cumulative_volume s) \<and> good_field good_indicative (st_indicative_auction s) \<and>
     good_field (\<lambda>_. True) (st_market_signal s) \<and> good_field (\<lambda>_. True) (st_phase s) \<and>
     (\<forall>r. st_last_event s = Some r \<longrightarrow> good_ref r)"

interpretation instrument: prefix_code "\<lambda>_. True" append_instrument
proof (rule prefix_codeI)
  fix x y :: instrument_id and p q r s
  assume e: "append_instrument x = Ok p" "append_instrument y = Ok q" "p @ r = q @ s"
  have eqs: "push (market_discriminant (fst x)) = push (market_discriminant (fst y))"
      "append_bytes (as_bytes (snd x)) = append_bytes (as_bytes (snd y))" "r = s"
    using append_all_peel [OF _ e [unfolded append_instrument_def]] by (simp_all add: peelable_push peelable_bytes)
  have "market_discriminant (fst x) = market_discriminant (fst y)"
    using push_inject [OF eqs(1)] market_discriminant_less [of "fst x"] market_discriminant_less [of "fst y"] by simp
  then have "fst x = fst y" by (cases "fst x"; cases "fst y") simp_all
  moreover have "snd x = snd y"
    using append_bytes_inject [OF eqs(2)] append_all_oks [OF e(1) [unfolded append_instrument_def]] by simp
  ultimately show "x = y \<and> r = s" using eqs(3) by (simp add: prod_eq_iff)
qed

interpretation state: prefix_code wf_state state_to_canonical_bytes
proof (rule prefix_codeI)
  fix x y p q r s
  assume e: "state_to_canonical_bytes x = Ok p" "state_to_canonical_bytes y = Ok q" "p @ r = q @ s"
    and wf: "wf_state x" "wf_state y"
  note parts = append_all_peel [OF _ e [unfolded state_to_canonical_bytes_def]]
  have eqs: "append_instrument (st_instrument x) = append_instrument (st_instrument y)"
      "be_bytes_signed 4 (st_trading_date x) = be_bytes_signed 4 (st_trading_date y)"
      "append_option append_segment (st_segment x) = append_option append_segment (st_segment y)"
      "be_bytes 8 (st_version x) = be_bytes 8 (st_version y)"
      "append_state_field append_book (st_book x) = append_state_field append_book (st_book y)"
      "append_state_field append_trade_observation (st_recent_trade x) = append_state_field append_trade_observation (st_recent_trade y)"
      "append_state_field append_volume (st_cumulative_volume x) = append_state_field append_volume (st_cumulative_volume y)"
      "append_state_field append_indicative_auction (st_indicative_auction x) = append_state_field append_indicative_auction (st_indicative_auction y)"
      "append_state_field append_market_signal (st_market_signal x) = append_state_field append_market_signal (st_market_signal y)"
      "append_state_field append_phase (st_phase x) = append_state_field append_phase (st_phase y)"
      "append_option append_event_ref (st_last_event x) = append_option append_event_ref (st_last_event y)" "r = s"
    using parts wf by (simp_all add: peelable_fixed instrument.peelable optional_segment.peelable book_field.peelable
        trade_field.peelable volume_field.peelable indicative_field.peelable signal_field.peelable
        phase_field.peelable optional_ref.peelable wf_state_def)
  note oks = append_all_oks [OF e(1) [unfolded state_to_canonical_bytes_def], simplified]
  have "st_instrument x = st_instrument y" "st_segment x = st_segment y" "st_last_event x = st_last_event y"
    using instrument.inject [OF eqs(1)] optional_segment.inject [OF eqs(3)] optional_ref.inject [OF eqs(11)] oks wf
    by (simp_all add: wf_state_def)
  moreover have "st_book x = st_book y" "st_recent_trade x = st_recent_trade y"
      "st_cumulative_volume x = st_cumulative_volume y"
    using book_field.inject [OF eqs(5)] trade_field.inject [OF eqs(6)] volume_field.inject [OF eqs(7)] oks wf
    by (simp_all add: wf_state_def)
  moreover have "st_indicative_auction x = st_indicative_auction y" "st_market_signal x = st_market_signal y"
      "st_phase x = st_phase y"
    using indicative_field.inject [OF eqs(8)] signal_field.inject [OF eqs(9)] phase_field.inject [OF eqs(10)] oks wf
    by (simp_all add: wf_state_def)
  moreover have "of_be_bytes_signed (be_bytes_signed 4 (st_trading_date z)) = st_trading_date z"
      "of_be_bytes (be_bytes 8 (st_version z)) = st_version z" if "wf_state z" for z
    using that by (simp_all add: wf_state_def in_i32_def in_u64_def signed_of_be_bytes of_be_bytes_be_bytes)
  then have "st_trading_date x = st_trading_date y" "st_version x = st_version y"
    using wf eqs(2,4) by metis+
  ultimately show "x = y \<and> r = s" using eqs(12) by simp
qed

interpretation framed: prefix_code wf_state append_framed_state
proof (rule prefix_codeI)
  fix x y p q r s
  assume e: "append_framed_state x = Ok p" "append_framed_state y = Ok q" "p @ r = q @ s"
    and wf: "wf_state x" "wf_state y"
  obtain a b where ab: "state_to_canonical_bytes x = Ok a" "append_bytes a = Ok p"
      "state_to_canonical_bytes y = Ok b" "append_bytes b = Ok q"
    using e(1,2) by (auto simp: append_framed_state_def append_bytes_def)
  have "a = b \<and> r = s" using framed_bytes_peel [OF ab(2,4) e(3)] .
  then show "x = y \<and> r = s" using state.inject [of x y] ab wf by simp
qed

lemma sort_key_unique:
  assumes "mset xs = mset ys" and "distinct (map f xs)"
  shows "sort_key f xs = sort_key f ys"
proof (rule properties_for_sort_key)
  show "mset (sort_key f ys) = mset xs" using assms(1) by simp
  show "filter (\<lambda>x. f k = f x) (sort_key f ys) = filter (\<lambda>x. f k = f x) xs" if "k \<in> set (sort_key f ys)" for k
  proof -
    have one: "filter (\<lambda>x. f k = f x) zs = [k]" if "distinct (map f zs)" "k \<in> set zs" for zs
      using that by (induction zs) (auto simp: filter_empty_conv image_iff)
    have "k \<in> set ys" using that by simp
    moreover have "set xs = set ys" using assms(1) by (rule mset_eq_setD)
    moreover have "distinct (map f (sort_key f ys))"
    proof -
      have "mset (map f (sort_key f ys)) = mset (map f xs)" using assms(1) by simp
      then show ?thesis using assms(2) mset_eq_imp_distinct_iff by blast
    qed
    ultimately show ?thesis using one [of xs] one [of "sort_key f ys"] assms(2) by simp
  qed
qed (simp add: sorted_sort_key)

lemma final_set_duplicates:
  "any_adjacent (\<lambda>a b. f a = f b) (sort_key f xs) \<longleftrightarrow> \<not> distinct (map f xs)"
proof -
  have "mset (map f (sort_key f xs)) = mset (map f xs)" by simp
  then have "distinct (map f (sort_key f xs)) \<longleftrightarrow> distinct (map f xs)" by (rule mset_eq_imp_distinct_iff)
  then show ?thesis
    using sorted_no_adjacent_distinct [of f "sort_key f xs"] distinct_no_adjacent [of f "sort_key f xs"] by auto
qed

lemma is_ok_map_err [simp]: "is_ok (map_err f m) \<longleftrightarrow> is_ok m"
  by (cases m) simp_all

lemma is_ok_final_state_set:
  "is_ok (canonical_final_state_set xs) \<longleftrightarrow>
     distinct (map st_instrument xs) \<and> in_u32 (length xs) \<and> list_all (\<lambda>s. is_ok (append_framed_state s)) xs"
  by (simp add: canonical_final_state_set_def Let_def final_set_duplicates append_length_def list_all_iff)

text \<open>
  C38: a final state set's bytes identify it. For two lists of well-formed states that encode, the
  bytes agree exactly when one list is a permutation of the other: the order of the states does not
  matter and no two different sets of states share an encoding (so equal checksums mean equal final
  states, up to collisions of the hash).
\<close>

theorem final_state_set_exact:
  assumes "canonical_final_state_set xs = Ok p" and "canonical_final_state_set ys = Ok q"
    and "list_all wf_state xs" and "list_all wf_state ys"
  shows "p = q \<longleftrightarrow> mset xs = mset ys"
proof
  define sx sy where "sx = sort_key st_instrument xs" and "sy = sort_key st_instrument ys"
  assume "p = q"
  have e: "append_all (Ok (as_bytes ''OSMF'') # Ok (be_bytes 2 CANONICAL_FINAL_STATE_SET_VERSION) #
           append_length (length sx) # map append_framed_state sx) = Ok p"
      "append_all (Ok (as_bytes ''OSMF'') # Ok (be_bytes 2 CANONICAL_FINAL_STATE_SET_VERSION) #
           append_length (length sy) # map append_framed_state sy) = Ok q"
    using assms(1,2) by (auto simp: canonical_final_state_set_def sx_def sy_def Let_def split: if_splits)
  obtain l b l' b' where parts: "append_length (length sx) = Ok l" "append_all (map append_framed_state sx) = Ok b"
      "append_length (length sy) = Ok l'" "append_all (map append_framed_state sy) = Ok b'" "l @ b = l' @ b'"
    using e \<open>p = q\<close> by (auto simp: append_all_Cons_Ok)
  have "append_length (length sx) = append_length (length sy) \<and> b = b'"
    using peelable_length [of "length sx" "length sy"] parts(1,3,5) unfolding peelable_def by blast
  moreover from this have "length sx = length sy" using append_length_inject parts(1) by blast
  moreover have "list_all wf_state sx" "list_all wf_state sy"
    using assms(3,4) by (simp_all add: sx_def sy_def list_all_iff)
  ultimately have "sx = sy" using framed.repeat_prefix [OF parts(2,4), of "[]" "[]"] by simp
  then show "mset xs = mset ys" unfolding sx_def sy_def by (metis mset_sort)
next
  assume "mset xs = mset ys"
  moreover have "distinct (map st_instrument xs)"
    using assms(1) by (auto simp: canonical_final_state_set_def Let_def final_set_duplicates split: if_splits)
  ultimately have "sort_key st_instrument xs = sort_key st_instrument ys" by (rule sort_key_unique)
  then have "canonical_final_state_set xs = canonical_final_state_set ys"
    by (simp add: canonical_final_state_set_def)
  then show "p = q" using assms(1,2) by simp
qed

theorem final_state_set_exact_witness:
  "\<exists>p. canonical_final_state_set
      [market_state_new (Twse, ''2330'') 20000, market_state_new (Tpex, ''6488'') 20000] = Ok p \<and>
    canonical_final_state_set
      [market_state_new (Tpex, ''6488'') 20000, market_state_new (Twse, ''2330'') 20000] = Ok p"
proof -
  define a b where "a = market_state_new (Twse, ''2330'') 20000" and "b = market_state_new (Tpex, ''6488'') 20000"
  have wf: "list_all wf_state [a, b]" "list_all wf_state [b, a]"
    by (simp_all add: a_def b_def wf_state_def market_state_new_def good_field_def range_defs)
  have ok: "is_ok (append_framed_state a)" "is_ok (append_framed_state b)"
    by (simp_all add: a_def b_def append_framed_state_def state_to_canonical_bytes_def market_state_new_def
        append_all.simps append_instrument_def append_bytes_def append_length_def push_def in_u32_def)
  have "is_ok (canonical_final_state_set [a, b])" "is_ok (canonical_final_state_set [b, a])"
    using ok by (simp_all add: is_ok_final_state_set in_u32_def a_def b_def market_state_new_def)
  then obtain p q where p: "canonical_final_state_set [a, b] = Ok p" and q: "canonical_final_state_set [b, a] = Ok q"
    by (auto simp: is_ok_iff)
  from final_state_set_exact [OF p q wf] p q show ?thesis by (auto simp: a_def b_def)
qed

end
