(* ===== verification/OrdMap.thy ===== *)
theory OrdMap
  imports Prelude "HOL-Library.Multiset"
begin

text \<open>
  Rust's \<open>BTreeMap\<close> as the crates use it: a finite map iterated in ascending key order. The model is
  the list of its entries in that order; \<open>bm_insert\<close>, \<open>bm_remove\<close> and \<open>bm_get\<close> are the methods
  \<open>insert\<close>, \<open>remove\<close> and \<open>get\<close>, \<open>bm_collect\<close> is \<open>collect\<close> of an iterator of pairs and
  \<open>bm_values\<close> is \<open>values\<close>. The locale \<open>ordered_map\<close> states what clients rely on.
\<close>

type_synonym ('k, 'v) bmap = "('k \<times> 'v) list"

definition bm_get :: "('k, 'v) bmap \<Rightarrow> 'k \<Rightarrow> 'v option" where
  "bm_get m k = map_of m k"

fun bm_insert :: "'k :: linorder \<Rightarrow> 'v \<Rightarrow> ('k, 'v) bmap \<Rightarrow> ('k, 'v) bmap" where
  "bm_insert k v [] = [(k, v)]"
| "bm_insert k v (e # m) =
     (if k < fst e then (k, v) # e # m
      else if k = fst e then (k, v) # m
      else e # bm_insert k v m)"

definition bm_remove :: "'k \<Rightarrow> ('k, 'v) bmap \<Rightarrow> ('k, 'v) bmap" where
  "bm_remove k m = filter (\<lambda>e. fst e \<noteq> k) m"

definition bm_collect :: "('k :: linorder \<times> 'v) list \<Rightarrow> ('k, 'v) bmap" where
  "bm_collect xs = fold (\<lambda>(k, v). bm_insert k v) xs []"

abbreviation bm_keys :: "('k, 'v) bmap \<Rightarrow> 'k list" where
  "bm_keys m \<equiv> map fst m"

abbreviation bm_values :: "('k, 'v) bmap \<Rightarrow> 'v list" where
  "bm_values m \<equiv> map snd m"

definition bm_inv :: "('k :: linorder, 'v) bmap \<Rightarrow> bool" where
  "bm_inv m \<longleftrightarrow> sorted_wrt (<) (map fst m)"

section \<open>The contract of an ordered map\<close>

locale ordered_map =
  fixes inv :: "'m \<Rightarrow> bool" and entries :: "'m \<Rightarrow> ('k :: linorder \<times> 'v) list"
    and get :: "'m \<Rightarrow> 'k \<Rightarrow> 'v option" and insert :: "'k \<Rightarrow> 'v \<Rightarrow> 'm \<Rightarrow> 'm" and remove :: "'k \<Rightarrow> 'm \<Rightarrow> 'm"
    and empty :: 'm
  assumes inv_empty: "inv empty" and get_empty: "get empty k = None"
    and inv_insert: "inv m \<Longrightarrow> inv (insert k v m)"
    and inv_remove: "inv m \<Longrightarrow> inv (remove k m)"
    and get_insert: "get (insert k v m) j = (if j = k then Some v else get m j)"
    and get_remove: "get (remove k m) j = (if j = k then None else get m j)"
    and entries_ascending: "inv m \<Longrightarrow> sorted_wrt (<) (map fst (entries m))"
    and get_entries: "get m k = map_of (entries m) k"
begin

lemma inv_collect: "inv m \<Longrightarrow> inv (fold (\<lambda>(k, v). insert k v) xs m)"
  by (induction xs arbitrary: m) (auto simp: inv_insert)

lemma get_collect:
  "get (fold (\<lambda>(k, v). insert k v) xs m) k = (case map_of (rev xs) k of None \<Rightarrow> get m k | Some v \<Rightarrow> Some v)"
  by (induction xs arbitrary: m) (auto simp: get_insert map_add_def split: option.splits)

lemma keys_distinct: "inv m \<Longrightarrow> distinct (map fst (entries m))"
  using entries_ascending strict_sorted_iff by auto

lemma ext_entries:
  assumes "inv m" "inv n" "\<And>k. get m k = get n k"
  shows "entries m = entries n"
proof -
  have "map_of (entries m) = map_of (entries n)"
    using assms(3) by (auto simp: get_entries fun_eq_iff)
  then have eq: "set (entries m) = set (entries n)"
    using map_of_inject_set keys_distinct assms(1,2) by blast
  have d: "distinct (map fst (entries m))" "distinct (map fst (entries n))"
    using keys_distinct assms(1,2) by blast+
  have s: "sorted (map fst (entries m))" "sorted (map fst (entries n))"
    using entries_ascending assms(1,2) strict_sorted_imp_sorted by blast+
  have "inj_on fst (set (entries m) \<union> set (entries n))" using d(1) eq by (simp add: distinct_map)
  then show ?thesis by (rule map_sorted_distinct_set_unique) (use s d eq in \<open>simp_all add: distinct_map\<close>)
qed

end

interpretation bm: ordered_map bm_inv "\<lambda>m. m" bm_get bm_insert bm_remove "[]"
proof
  fix m :: "('a, 'b) bmap" and k j :: 'a and v :: 'b
  have set: "fst ` set (bm_insert k v m) = insert k (fst ` set m)"
    by (induction m) auto
  show "bm_inv m \<Longrightarrow> bm_inv (bm_insert k v m)"
  proof (induction m)
    case (Cons e m)
    have "fst ` set (bm_insert k v m) = insert k (fst ` set m)" by (induction m) auto
    then have keys: "set (map fst (bm_insert k v m)) = insert k (set (map fst m))" by simp
    show ?case using Cons keys by (auto simp: bm_inv_def simp del: set_map)
  qed (simp add: bm_inv_def)
  show "bm_get (bm_insert k v m) j = (if j = k then Some v else bm_get m j)"
    by (induction m) (auto simp: bm_get_def)
  show "bm_get (bm_remove k m) j = (if j = k then None else bm_get m j)"
    by (induction m) (auto simp: bm_get_def bm_remove_def)
  show "bm_inv m \<Longrightarrow> bm_inv (bm_remove k m)"
    by (induction m) (auto simp: bm_inv_def bm_remove_def)
qed (auto simp: bm_inv_def bm_get_def)

lemma bm_inv_collect [simp]: "bm_inv (bm_collect xs)"
  using bm.inv_collect [OF bm.inv_empty] by (simp add: bm_collect_def)

lemma bm_get_collect: "bm_get (bm_collect xs) k = map_of (rev xs) k"
  by (simp add: bm_collect_def bm.get_collect bm.get_empty split: option.splits)

lemma bm_get_insert [simp]: "bm_get (bm_insert k v m) j = (if j = k then Some v else bm_get m j)"
  by (rule bm.get_insert)

lemma bm_get_Some_in: "bm_get m k = Some v \<Longrightarrow> (k, v) \<in> set m"
  by (simp add: bm_get_def map_of_SomeD)

lemma bm_get_iff: "bm_inv m \<Longrightarrow> bm_get m k = Some v \<longleftrightarrow> (k, v) \<in> set m"
  using bm.keys_distinct [of m] by (auto simp: bm_get_def)

lemma bm_insert_all: "list_all P (bm_values m) \<Longrightarrow> P v \<Longrightarrow> list_all P (bm_values (bm_insert k v m))"
  by (induction m) auto

lemma bm_insert_new_sum:
  fixes f :: "'v \<Rightarrow> int"
  shows "bm_get m k = None \<Longrightarrow>
    sum_list (map f (bm_values (bm_insert k v m))) = sum_list (map f (bm_values m)) + f v"
  by (induction m) (auto simp: bm_get_def split: if_splits)

lemma bm_insert_old_sum:
  fixes f :: "'v \<Rightarrow> int"
  assumes "bm_inv m" and "bm_get m k = Some e"
  shows "sum_list (map f (bm_values (bm_insert k v m))) = sum_list (map f (bm_values m)) - f e + f v"
  using assms
proof (induction m)
  case (Cons x m)
  have "bm_get m k = None" if "k < fst x"
    using Cons.prems(1) that by (auto simp: bm_get_def bm_inv_def map_of_eq_None_iff)
  then show ?case using Cons by (auto simp: bm_get_def bm_inv_def split: if_splits)
qed (simp add: bm_get_def)

end
