(* ===== verification/Ordering.thy ===== *)
theory Ordering
  imports StateCanonical OrdMap
begin

text \<open>
  The deterministic event order of \<open>crates/replay-engine/src/ordering.rs\<close> and the event stream
  checksum of \<open>checksum.rs\<close>. The ordering key is compared field by field, so it is the tuple of its
  fields under the lexicographic order. \<open>order_events\<close> uses Rust's \<open>sort_unstable_by\<close>, which may
  permute events with equal keys: the sort is a parameter, and the locale \<open>unstable_sort\<close> states the
  only two things the standard library promises of it. The result is shown not to depend on it.
\<close>

section \<open>Model\<close>

definition ORDERING_RULE_VERSION :: nat where "ORDERING_RULE_VERSION = 4"

datatype ordering_key = OrderingKey
  (ok_match_time: int) (ok_market_rank: nat) (ok_symbol: symbol) (ok_source_format: source_format_id)
  (ok_source_phase_rank: nat) (ok_event_kind_rank: nat) (ok_source_sequence: "nat option")
  (ok_event_fingerprint: bytes)

text \<open>The derived order compares the fields in their order of declaration.\<close>

definition key_fields ::
  "ordering_key \<Rightarrow> int \<times> nat \<times> symbol \<times> source_format_id \<times> nat \<times> nat \<times> nat option \<times> bytes" where
  "key_fields k = (ok_match_time k, ok_market_rank k, ok_symbol k, ok_source_format k, ok_source_phase_rank k,
     ok_event_kind_rank k, ok_source_sequence k, ok_event_fingerprint k)"

lemma key_fields_inject: "key_fields k = key_fields l \<longleftrightarrow> k = l"
  by (cases k; cases l) (simp add: key_fields_def)

instantiation ordering_key :: linorder
begin

definition less_eq_ordering_key :: "ordering_key \<Rightarrow> ordering_key \<Rightarrow> bool" where
  "less_eq_ordering_key k l \<longleftrightarrow> key_fields k \<le> key_fields l"

definition less_ordering_key :: "ordering_key \<Rightarrow> ordering_key \<Rightarrow> bool" where
  "less_ordering_key k l \<longleftrightarrow> key_fields k < key_fields l"

instance
proof
  fix k l m :: ordering_key
  show "k < l \<longleftrightarrow> k \<le> l \<and> \<not> l \<le> k" unfolding less_eq_ordering_key_def less_ordering_key_def by (rule less_le_not_le)
  show "k \<le> k" unfolding less_eq_ordering_key_def by (rule order_refl)
  show "k \<le> l \<Longrightarrow> l \<le> m \<Longrightarrow> k \<le> m" unfolding less_eq_ordering_key_def by (rule order_trans)
  show "k \<le> l \<Longrightarrow> l \<le> k \<Longrightarrow> k = l"
    unfolding less_eq_ordering_key_def using key_fields_inject by (metis order_antisym)
  show "k \<le> l \<or> l \<le> k" unfolding less_eq_ordering_key_def by (rule linear)
qed

end

datatype ordering_error =
    OrderingCanonicalEncoding canonical_encoding_error
  | OrderingInvalidTwseRealtimeShape
  | OrderingInvalidTpexRealtimeShape
  | OrderingFingerprintCollision

definition realtime_phase_rank :: "ordering_error \<Rightarrow> domain_event \<Rightarrow> (nat, ordering_error) result" where
  "realtime_phase_rank invalid_shape e =
     (if ev_source_format e \<noteq> ''STOCK_REALTIME'' then Ok 0
      else case ev_payload e of
        PQuoteSnapshot _ \<Rightarrow> Ok 20
      | PMarketStatus _ \<Rightarrow> Ok 20
      | PTradeBatch b \<Rightarrow>
          if tb_trades b \<noteq> [] \<and> list_all (\<lambda>t. ot_kind t = Intermediate) (tb_trades b) then Ok 10
          else Err invalid_shape
      | PIndicativeAuction a \<Rightarrow> Ok (if as_set (ia_book a) \<noteq> None then 20 else 10)
      | PBookSnapshot _ \<Rightarrow> Err invalid_shape)"

definition source_phase_rank :: "domain_event \<Rightarrow> (nat, ordering_error) result" where
  "source_phase_rank e =
     (case fst (ev_instrument e) of
        Twse \<Rightarrow> realtime_phase_rank OrderingInvalidTwseRealtimeShape e
      | Tpex \<Rightarrow> realtime_phase_rank OrderingInvalidTpexRealtimeShape e
      | Taifex \<Rightarrow> Ok 0)"

definition for_event_with_fingerprint :: "domain_event \<Rightarrow> bytes \<Rightarrow> (ordering_key, ordering_error) result" where
  "for_event_with_fingerprint e fingerprint =
     rbind (source_phase_rank e) (\<lambda>rank.
       Ok (OrderingKey (ev_match_time e) (market_discriminant (fst (ev_instrument e))) (snd (ev_instrument e))
           (ev_source_format e) rank (payload_discriminant (ev_payload e)) (ev_source_sequence e) fingerprint))"

definition for_event_and_canonical ::
  "(bytes \<Rightarrow> bytes) \<Rightarrow> domain_event \<Rightarrow> (ordering_key \<times> bytes, ordering_error) result" where
  "for_event_and_canonical hash e =
     rbind (map_err OrderingCanonicalEncoding (to_canonical_bytes e)) (\<lambda>canonical.
       rbind (for_event_with_fingerprint e (hash canonical)) (\<lambda>key. Ok (key, canonical)))"

definition for_event :: "(bytes \<Rightarrow> bytes) \<Rightarrow> domain_event \<Rightarrow> (ordering_key, ordering_error) result" where
  "for_event hash e = rbind (for_event_and_canonical hash e) (\<lambda>kc. Ok (fst kc))"

record prepared_order_event =
  po_event :: domain_event
  po_key :: ordering_key
  po_canonical :: bytes

definition prepared_order_event_new ::
  "(bytes \<Rightarrow> bytes) \<Rightarrow> domain_event \<Rightarrow> (prepared_order_event, ordering_error) result" where
  "prepared_order_event_new hash e =
     rbind (for_event_and_canonical hash e) (\<lambda>(key, canonical).
       Ok \<lparr>po_event = e, po_key = key, po_canonical = canonical\<rparr>)"

definition keys_collide :: "prepared_order_event \<Rightarrow> prepared_order_event \<Rightarrow> bool" where
  "keys_collide a b \<longleftrightarrow> po_key a = po_key b \<and> po_canonical a \<noteq> po_canonical b"

definition order_events ::
  "(prepared_order_event list \<Rightarrow> prepared_order_event list) \<Rightarrow> (bytes \<Rightarrow> bytes) \<Rightarrow> domain_event list \<Rightarrow>
   (domain_event list, ordering_error) result" where
  "order_events sort_unstable hash events =
     rbind (rmap (prepared_order_event_new hash) events) (\<lambda>prepared.
       let es = sort_unstable prepared in
       if any_adjacent keys_collide es then Err OrderingFingerprintCollision
       else Ok (map po_event es))"

subsection \<open>The event stream checksum\<close>

text \<open>
  The incremental hasher is its input so far: BLAKE3 hashes the concatenation of the updates.
\<close>

definition CANONICAL_REPLAY_EVENT_STREAM_VERSION :: nat where
  "CANONICAL_REPLAY_EVENT_STREAM_VERSION = 1"

record replay_event_stream_hasher =
  sh_input :: bytes
  sh_event_count :: nat

definition hasher_new :: replay_event_stream_hasher where
  "hasher_new =
     \<lparr>sh_input = as_bytes ''OSRS'' @ be_bytes 2 CANONICAL_REPLAY_EVENT_STREAM_VERSION @
        be_bytes 2 EVENT_SCHEMA_VERSION @ be_bytes 2 CANONICAL_EVENT_VERSION @ be_bytes 2 ORDERING_RULE_VERSION,
      sh_event_count = 0\<rparr>"

definition prepare_canonical :: "bytes \<Rightarrow> (bytes \<times> nat, canonical_encoding_error) result" where
  "prepare_canonical canonical =
     (if in_u32 (length canonical) then Ok (canonical, length canonical) else Err LengthOverflow)"

definition append_prepared :: "bytes \<times> nat \<Rightarrow> replay_event_stream_hasher \<Rightarrow> replay_event_stream_hasher" where
  "append_prepared r h =
     \<lparr>sh_input = sh_input h @ [1] @ be_bytes 4 (snd r) @ fst r, sh_event_count = sh_event_count h + 1\<rparr>"

definition stream_checksum_input :: "replay_event_stream_hasher \<Rightarrow> bytes" where
  "stream_checksum_input h = sh_input h @ [0] @ be_bytes 8 (sh_event_count h)"

definition stream_checksum :: "(bytes \<Rightarrow> bytes) \<Rightarrow> replay_event_stream_hasher \<Rightarrow> bytes" where
  "stream_checksum hash h = hash (stream_checksum_input h)"

section \<open>Unstable sorting by key\<close>

locale unstable_sort =
  fixes key :: "'a \<Rightarrow> 'k :: linorder" and srt :: "'a list \<Rightarrow> 'a list"
  assumes sort_permutes: "mset (srt xs) = mset xs" and sort_sorts: "sorted (map key (srt xs))"
begin

lemma set_srt: "set (srt xs) = set xs"
  by (rule mset_eq_setD) (rule sort_permutes)

text \<open>
  Elements with equal keys are neighbours up to elements of the same key, so a relation that only
  relates equal keys and whose complement is transitive there holds somewhere exactly when it holds
  between neighbours.
\<close>

lemma adjacent_iff:
  assumes "\<And>a b. R a b \<longleftrightarrow> key a = key b \<and> f a \<noteq> f b"
  shows "any_adjacent R (srt xs) \<longleftrightarrow> (\<exists>a \<in> set xs. \<exists>b \<in> set xs. R a b)"
proof -
  have "any_adjacent R ys \<longleftrightarrow> (\<exists>a \<in> set ys. \<exists>b \<in> set ys. R a b)" if "sorted (map key ys)" for ys
    using that
  proof (induction ys)
    case (Cons a ys)
    show ?case
    proof (cases ys)
      case Nil
      then show ?thesis using assms by simp
    next
      case (Cons b zs)
      have least: "key b \<le> key c" if "c \<in> set ys" for c using Cons.prems Cons that by auto
      have up: "key a \<le> key b" using Cons.prems Cons by simp
      have IH: "any_adjacent R ys \<longleftrightarrow> (\<exists>a \<in> set ys. \<exists>b \<in> set ys. R a b)" using Cons.IH Cons.prems by simp
      have "R a b \<or> (\<exists>x \<in> set ys. \<exists>y \<in> set ys. R x y)" if "c \<in> set ys" "R a c \<or> R c a" for c
      proof -
        have "key b = key a" "key c = key a" "f c \<noteq> f a" using that least [OF that(1)] up assms by auto
        then have "R a b \<or> R b c" using assms by auto
        then show ?thesis using that(1) Cons by auto
      qed
      moreover have "\<not> R a a" using assms by simp
      moreover have "(\<exists>x \<in> set (a # ys). \<exists>y \<in> set (a # ys). R x y) \<longleftrightarrow>
          R a a \<or> (\<exists>c \<in> set ys. R a c \<or> R c a) \<or> (\<exists>x \<in> set ys. \<exists>y \<in> set ys. R x y)"
        unfolding list.set by blast
      moreover have "b \<in> set ys" "any_adjacent R (a # ys) \<longleftrightarrow> R a b \<or> any_adjacent R ys" using Cons by simp_all
      ultimately show ?thesis using IH by blast
    qed
  qed simp
  then show ?thesis using sort_sorts set_srt by simp
qed

lemma srt_unique:
  assumes "mset xs = mset ys" "inj_on key (set xs)" "sorted (map key zs)" "mset zs = mset ys"
  shows "srt xs = zs"
proof -
  have "mset (map key zs) = mset (map key (srt xs))" using assms(1,4) sort_permutes [of xs] by simp
  then have "map key (srt xs) = map key zs"
    using sort_sorts assms(3) properties_for_sort by metis
  moreover have "set zs = set xs" using assms(1,4) by (metis mset_eq_setD)
  ultimately show ?thesis using assms(2) set_srt by (metis map_inj_on sup.idem)
qed

end

interpretation by_key: unstable_sort f "sort_key f"
  for f :: "'a \<Rightarrow> 'k :: linorder"
  by unfold_locales simp_all

section \<open>The order of events\<close>

lemma for_event_and_canonical_Ok:
  "for_event_and_canonical hash e = Ok (k, c) \<longleftrightarrow>
     to_canonical_bytes e = Ok c \<and> for_event_with_fingerprint e (hash c) = Ok k"
  unfolding for_event_and_canonical_def rbind_eq_Ok map_err_eq_Ok result.inject prod.inject by blast

lemma prepared_new_Ok:
  "prepared_order_event_new hash e = Ok p \<longleftrightarrow>
     po_event p = e \<and> for_event_and_canonical hash e = Ok (po_key p, po_canonical p)"
  by (cases p) (auto simp: prepared_order_event_new_def)

lemma order_events_Ok:
  assumes "unstable_sort po_key srt"
  shows "order_events srt hash es = Ok os \<longleftrightarrow>
    (\<exists>ps. rmap (prepared_order_event_new hash) es = Ok ps \<and> os = map po_event (srt ps) \<and>
       (\<forall>a \<in> set ps. \<forall>b \<in> set ps. po_key a = po_key b \<longrightarrow> po_canonical a = po_canonical b))"
proof -
  have "any_adjacent keys_collide (srt ps) \<longleftrightarrow> (\<exists>a \<in> set ps. \<exists>b \<in> set ps. keys_collide a b)" for ps
    using unstable_sort.adjacent_iff [OF assms, of keys_collide po_canonical] keys_collide_def by blast
  then have step: "(let es = srt ps in if any_adjacent keys_collide es then Err OrderingFingerprintCollision
        else Ok (map po_event es)) = Ok os \<longleftrightarrow>
      os = map po_event (srt ps) \<and> \<not> (\<exists>a \<in> set ps. \<exists>b \<in> set ps. keys_collide a b)" for ps
    unfolding Let_def by (metis result.distinct(1) result.inject(1))
  show ?thesis unfolding order_events_def rbind_eq_Ok step keys_collide_def by blast
qed

text \<open>Well-formed events that were prepared are determined by their canonical bytes.\<close>

lemma prepared_determined:
  assumes "prepared_order_event_new hash (po_event a) = Ok a" "prepared_order_event_new hash (po_event b) = Ok b"
    "po_canonical a = po_canonical b" "wf_event (po_event a)" "wf_event (po_event b)"
  shows "a = b"
proof -
  have "to_canonical_bytes (po_event a) = Ok (po_canonical a)" "to_canonical_bytes (po_event b) = Ok (po_canonical a)"
    using assms(1-3) unfolding prepared_new_Ok for_event_and_canonical_Ok by simp_all
  then have "po_event a = po_event b" using event.prefix_free [OF assms(4,5), of _ _ "[]" "[]"] by blast
  then show ?thesis using assms(1,2) by (metis result.inject(1))
qed

lemma rmap_map: "rmap f xs = Ok zs \<Longrightarrow> zs = map (\<lambda>x. case f x of Ok y \<Rightarrow> y) xs"
  by (auto simp: rmap_eq_Ok list_all2_conv_all_nth intro!: nth_equalityI)

lemma rmap_mset:
  assumes "mset xs = mset ys" "rmap f xs = Ok zs"
  obtains ws where "rmap f ys = Ok ws" "mset ws = mset zs"
proof -
  have "list_all (\<lambda>x. is_ok (f x)) ys"
    using assms is_ok_rmap [of f xs] mset_eq_setD [OF assms(1)] by (simp add: is_ok_iff list_all_iff)
  then obtain ws where ws: "rmap f ys = Ok ws" using is_ok_rmap [of f ys] by (auto simp: is_ok_iff)
  then have "mset ws = mset zs" using rmap_map [OF ws] rmap_map [OF assms(2)] assms(1) by simp
  then show ?thesis using that ws by blast
qed

lemma rmap_prepared:
  assumes "rmap (prepared_order_event_new hash) es = Ok ps"
  shows "map po_event ps = es" and "p \<in> set ps \<Longrightarrow> prepared_order_event_new hash (po_event p) = Ok p"
proof -
  have a: "list_all2 (\<lambda>e p. prepared_order_event_new hash e = Ok p) es ps"
    using assms by (simp add: rmap_eq_Ok)
  then show "map po_event ps = es" by (induction rule: list_all2_induct) (auto simp: prepared_new_Ok)
  show "prepared_order_event_new hash (po_event p) = Ok p" if "p \<in> set ps"
    using a that by (induction rule: list_all2_induct) (auto simp: prepared_new_Ok)
qed

lemma order_events_permuted:
  assumes "unstable_sort po_key srt" and "unstable_sort po_key srt'"
    and "mset es = mset es'" and "list_all wf_event es"
    and "order_events srt hash es = Ok os"
  shows "order_events srt' hash es' = Ok os"
proof -
  obtain ps where ps: "rmap (prepared_order_event_new hash) es = Ok ps" "os = map po_event (srt ps)"
      "\<forall>a \<in> set ps. \<forall>b \<in> set ps. po_key a = po_key b \<longrightarrow> po_canonical a = po_canonical b"
    using assms(5) unfolding order_events_Ok [OF assms(1)] by blast
  obtain ps' where ps': "rmap (prepared_order_event_new hash) es' = Ok ps'" "mset ps' = mset ps"
    using rmap_mset [OF assms(3) ps(1)] by blast
  note sets = mset_eq_setD [OF ps'(2)] unstable_sort.set_srt [OF assms(1)]
  have wf: "wf_event (po_event p)" if "p \<in> set ps" for p
    using assms(4) rmap_prepared(1) [OF ps(1)] that by (auto simp: list_all_iff)
  have "inj_on po_key (set ps)"
    by (rule inj_onI) (metis prepared_determined rmap_prepared(2) [OF ps(1)] ps(3) wf)
  then have "srt' ps' = srt ps"
    using unstable_sort.srt_unique [OF assms(2) refl] unstable_sort.sort_sorts [OF assms(1)] ps'(2)
      unstable_sort.sort_permutes [OF assms(1)] sets by metis
  then show ?thesis
    unfolding order_events_Ok [OF assms(2)] using ps(2,3) ps'(1) sets(1) by metis
qed

lemma order_events_sorted:
  assumes "unstable_sort po_key srt" and "order_events srt hash es = Ok os"
  shows "mset os = mset es" and "\<exists>keys. map (for_event hash) os = map Ok keys \<and> sorted keys"
proof -
  obtain ps where ps: "rmap (prepared_order_event_new hash) es = Ok ps" "os = map po_event (srt ps)"
    using assms(2) unfolding order_events_Ok [OF assms(1)] by blast
  show "mset os = mset es"
    using ps(2) rmap_prepared(1) [OF ps(1)] unstable_sort.sort_permutes [OF assms(1), of ps]
    by (metis mset_map)
  have "for_event hash (po_event p) = Ok (po_key p)" if "p \<in> set (srt ps)" for p
    using rmap_prepared(2) [OF ps(1)] that unstable_sort.set_srt [OF assms(1)]
    by (simp add: prepared_new_Ok for_event_def)
  then have "map (for_event hash) os = map Ok (map po_key (srt ps))" unfolding ps(2) by simp
  then show "\<exists>keys. map (for_event hash) os = map Ok keys \<and> sorted keys"
    using unstable_sort.sort_sorts [OF assms(1)] by blast
qed

text \<open>A permutation that is already ascending is the ordering.\<close>

lemma order_events_ascending:
  assumes "unstable_sort po_key srt" and "order_events srt hash es = Ok os" and "list_all wf_event es"
    and "mset es' = mset es" and "map (for_event hash) es' = map Ok keys" and "sorted keys"
  shows "es' = os"
proof -
  obtain ps where ps: "rmap (prepared_order_event_new hash) es = Ok ps"
      "\<forall>a \<in> set ps. \<forall>b \<in> set ps. po_key a = po_key b \<longrightarrow> po_canonical a = po_canonical b"
    using assms(2) unfolding order_events_Ok [OF assms(1)] by blast
  obtain ps' where ps': "rmap (prepared_order_event_new hash) es' = Ok ps'" "mset ps' = mset ps"
    using rmap_mset [OF assms(4) [symmetric] ps(1)] by blast
  note events = rmap_prepared(1) [OF ps'(1)]
  have "for_event hash (po_event p) = Ok (po_key p)" if "p \<in> set ps'" for p
    using rmap_prepared(2) [OF ps'(1) that] by (simp add: prepared_new_Ok for_event_def)
  then have "map (for_event hash) es' = map Ok (map po_key ps')" using events by auto
  then have "map po_key ps' = keys" using assms(5) by (metis list.inj_map_strong result.inject(1))
  then have "sort_key po_key ps' = ps'" using assms(6) by (simp add: sort_key_id_if_sorted)
  then have "order_events (sort_key po_key) hash es' = Ok es'"
    unfolding order_events_Ok [OF by_key.unstable_sort_axioms]
    using ps'(1) events ps(2) mset_eq_setD [OF ps'(2)] by metis
  moreover have "order_events (sort_key po_key) hash es' = Ok os"
    using order_events_permuted [OF assms(1) by_key.unstable_sort_axioms assms(4) [symmetric] assms(3,2)] .
  ultimately show ?thesis by simp
qed

text \<open>
  C16: the order of events is deterministic. Whatever permutation of the same events comes in and
  whatever unstable sort the standard library uses, a successful ordering gives the same list; it is
  a permutation of the input, ascending in the ordering key.
\<close>

theorem order_events_deterministic:
  assumes "unstable_sort po_key srt" and "unstable_sort po_key srt'"
    and "mset es = mset es'" and "list_all wf_event es"
    and "order_events srt hash es = Ok os"
  shows "order_events srt' hash es' = Ok os \<and> mset os = mset es \<and>
    (\<exists>keys. map (for_event hash) os = map Ok keys \<and> sorted keys)"
  using order_events_permuted [OF assms] order_events_sorted [OF assms(1,5)] by blast

theorem order_events_deterministic_witness:
  "\<exists>os. order_events (sort_key po_key) sample_hash [sample_status_event, sample_uncross_event] = Ok os \<and>
     order_events (sort_key po_key) sample_hash [sample_uncross_event, sample_status_event] = Ok os"
proof -
  define a b where "a = sample_status_event" and "b = sample_uncross_event"
  note defs = a_def b_def sample_status_event_def sample_uncross_event_def
  have wf: "list_all wf_event [a, b]"
    using sample_status_event_wf sample_events_wf by (simp add: a_def b_def)
  have prepared: "\<exists>p. prepared_order_event_new sample_hash e = Ok p \<and> ok_match_time (po_key p) = ev_match_time e"
    if "e \<in> {a, b}" for e
  proof -
    have "wf_event e" using that wf by auto
    then obtain c where "to_canonical_bytes e = Ok c" using event.total [of e] by (auto simp: is_ok_iff)
    moreover have "source_phase_rank e = Ok 20"
      using that by (auto simp: defs source_phase_rank_def realtime_phase_rank_def)
    ultimately show ?thesis
      by (simp add: prepared_order_event_new_def for_event_and_canonical_def for_event_with_fingerprint_def)
  qed
  obtain p q where pq: "prepared_order_event_new sample_hash a = Ok p" "prepared_order_event_new sample_hash b = Ok q"
      "ok_match_time (po_key p) = ev_match_time a" "ok_match_time (po_key q) = ev_match_time b"
    using prepared [of a] prepared [of b] by auto
  then have "po_key p \<noteq> po_key q" by (auto simp: defs)
  then have "order_events (sort_key po_key) sample_hash [a, b] = Ok (map po_event (sort_key po_key [p, q]))"
    using pq unfolding order_events_Ok [OF by_key.unstable_sort_axioms] by auto
  from order_events_deterministic [OF by_key.unstable_sort_axioms by_key.unstable_sort_axioms _ wf this, of "[b, a]"] this
  show ?thesis unfolding a_def b_def by auto
qed

subsection \<open>Agreement with the reducer's order\<close>

text \<open>
  The reducer compares the events of one instrument by \<open>ref_key\<close>; the replay order refines it.
\<close>

lemma source_phase_rank_Ok: "source_phase_rank e = Ok n \<Longrightarrow> n = source_phase_for_event e"
  by (auto simp: source_phase_rank_def realtime_phase_rank_def source_phase_for_event_def
      split: market_id.splits event_payload.splits if_splits)

lemma payload_discriminant_mono: "payload_discriminant p = kind_discriminant (payload_kind p)"
  by (simp add: payload_discriminant_def)

lemma key_order_refines_ref_order:
  assumes "for_event_and_canonical hash e = Ok (k, c)" "for_event_and_canonical hash f = Ok (l, d)"
    "applied_event_ref_from_event hash e = Ok r" "applied_event_ref_from_event hash f = Ok s"
    "ev_instrument e = ev_instrument f"
  shows "k \<le> l \<longleftrightarrow> ref_key r \<le> ref_key s"
proof -
  have k: "key_fields k = (ev_match_time e, market_discriminant (fst (ev_instrument e)), snd (ev_instrument e),
      ev_source_format e, source_phase_for_event e, kind_discriminant (payload_kind (ev_payload e)),
      ev_source_sequence e, hash c)" "to_canonical_bytes e = Ok c"
    using assms(1) by (auto simp: for_event_and_canonical_Ok for_event_with_fingerprint_def key_fields_def
        payload_discriminant_mono dest: source_phase_rank_Ok)
  have l: "key_fields l = (ev_match_time f, market_discriminant (fst (ev_instrument f)), snd (ev_instrument f),
      ev_source_format f, source_phase_for_event f, kind_discriminant (payload_kind (ev_payload f)),
      ev_source_sequence f, hash d)" "to_canonical_bytes f = Ok d"
    using assms(2) by (auto simp: for_event_and_canonical_Ok for_event_with_fingerprint_def key_fields_def
        payload_discriminant_mono dest: source_phase_rank_Ok)
  have "ref_key r = (ev_match_time e, ev_source_format e, source_phase_for_event e, payload_kind (ev_payload e),
      ev_source_sequence e, hash c)"
    using assms(3) k(2) by (auto simp: ref_key_def applied_event_ref_from_event_def event_fingerprint_def)
  moreover have "ref_key s = (ev_match_time f, ev_source_format f, source_phase_for_event f,
      payload_kind (ev_payload f), ev_source_sequence f, hash d)"
    using assms(4) l(2) by (auto simp: ref_key_def applied_event_ref_from_event_def event_fingerprint_def)
  moreover have "a \<le> b \<longleftrightarrow> kind_discriminant a \<le> kind_discriminant b" "a < b \<longleftrightarrow> kind_discriminant a < kind_discriminant b"
    for a b :: event_kind by (simp_all add: less_eq_event_kind_def less_event_kind_def)
  ultimately show ?thesis
    unfolding less_eq_ordering_key_def k(1) l(1) using assms(5) by (simp add: less_eq_prod_simp)
qed

section \<open>The stream checksum\<close>

text \<open>The hasher after a sequence of events.\<close>

definition hash_event ::
  "replay_event_stream_hasher \<Rightarrow> domain_event \<Rightarrow> (replay_event_stream_hasher, canonical_encoding_error) result" where
  "hash_event h e = rbind (to_canonical_bytes e) (\<lambda>c. rbind (prepare_canonical c) (\<lambda>r. Ok (append_prepared r h)))"

definition hash_events :: "domain_event list \<Rightarrow> (replay_event_stream_hasher, canonical_encoding_error) result" where
  "hash_events es = rfold hash_event hasher_new es"

text \<open>One record of the stream: the byte 1, the length of the event and the event.\<close>

definition append_record :: "domain_event \<Rightarrow> encoded" where
  "append_record e = rbind (to_canonical_bytes e) (\<lambda>c. append_all [push 1, append_bytes c])"

lemma append_record_Ok:
  "append_record e = Ok p \<longleftrightarrow> (\<exists>c q. to_canonical_bytes e = Ok c \<and> append_bytes c = Ok q \<and> p = 1 # q)"
  by (auto simp: append_record_def append_all_Cons_Ok push_Ok)

interpretation stream_record: prefix_code wf_event append_record
proof (rule prefix_codeI)
  fix x y p q r s
  assume a: "append_record x = Ok p" "append_record y = Ok q" "wf_event x" "wf_event y" "p @ r = q @ s"
  then obtain c d p' q' where e: "to_canonical_bytes x = Ok c" "to_canonical_bytes y = Ok d"
      "append_bytes c = Ok p'" "append_bytes d = Ok q'" "p' @ r = q' @ s"
    by (auto simp: append_record_Ok)
  then have "c = d \<and> r = s" using framed_bytes_peel by blast
  then show "x = y \<and> r = s" using event.prefix_free [OF a(3,4), of c d "[]" "[]"] e by simp
qed

lemma records_unique:
  assumes "append_all (map append_record xs) = Ok p" "append_all (map append_record ys) = Ok q"
    "list_all wf_event xs" "list_all wf_event ys" "p @ 0 # r = q @ 0 # s"
  shows "xs = ys"
  using assms
proof (induction xs arbitrary: ys p q)
  case Nil
  then show ?case by (cases ys) (auto simp: append_all_Cons_Ok append_record_Ok)
next
  case (Cons x xs)
  obtain a b where x: "append_record x = Ok a" "append_all (map append_record xs) = Ok b" "p = a @ b"
    using Cons.prems(1) by (auto simp: append_all_Cons_Ok)
  then have "hd (p @ 0 # r) = 1" by (auto simp: append_record_Ok)
  then obtain y zs where ys: "ys = y # zs" using Cons.prems(2,5) by (cases ys) auto
  obtain a' b' where y: "append_record y = Ok a'" "append_all (map append_record zs) = Ok b'" "q = a' @ b'"
    using Cons.prems(2) ys by (auto simp: append_all_Cons_Ok)
  have "x = y \<and> b @ 0 # r = b' @ 0 # s"
    using stream_record.peel [OF x(1) y(1)] Cons.prems(3-5) x(3) y(3) ys by simp
  then show ?case using Cons.IH [OF x(2) y(2)] Cons.prems(3,4) ys by simp
qed

lemma hash_event_Ok:
  "hash_event h e = Ok h' \<longleftrightarrow> (\<exists>p. append_record e = Ok p \<and>
     h' = \<lparr>sh_input = sh_input h @ p, sh_event_count = Suc (sh_event_count h)\<rparr>)"
  by (auto simp: hash_event_def append_record_Ok prepare_canonical_def append_prepared_def append_bytes_Ok split: if_splits)

lemma hash_events_Ok:
  "rfold hash_event h es = Ok h' \<Longrightarrow> \<exists>p. append_all (map append_record es) = Ok p \<and>
     sh_input h' = sh_input h @ p \<and> sh_event_count h' = sh_event_count h + length es"
proof (induction es arbitrary: h)
  case (Cons e es)
  obtain p where p: "append_record e = Ok p"
      "rfold hash_event \<lparr>sh_input = sh_input h @ p, sh_event_count = Suc (sh_event_count h)\<rparr> es = Ok h'"
    using Cons.prems by (auto simp: hash_event_Ok)
  from Cons.IH [OF p(2)] show ?case using p(1) by (auto simp: append_all_Cons_Ok)
qed simp

text \<open>
  C37: the input of the event stream checksum identifies the processed events. Two sequences of
  well-formed events feed the hash the same bytes exactly when they are the same sequence, whatever
  their lengths; so equal checksums mean equal runs up to collisions of the hash.
\<close>

theorem stream_checksum_exact:
  assumes "hash_events es = Ok h" and "hash_events es' = Ok h'"
    and "list_all wf_event es" and "list_all wf_event es'"
  shows "stream_checksum_input h = stream_checksum_input h' \<longleftrightarrow> es = es'"
proof
  assume eq: "stream_checksum_input h = stream_checksum_input h'"
  obtain p where p: "append_all (map append_record es) = Ok p" "sh_input h = sh_input hasher_new @ p"
    using hash_events_Ok assms(1) unfolding hash_events_def by blast
  obtain q where q: "append_all (map append_record es') = Ok q" "sh_input h' = sh_input hasher_new @ q"
    using hash_events_Ok assms(2) unfolding hash_events_def by blast
  have "p @ 0 # be_bytes 8 (sh_event_count h) = q @ 0 # be_bytes 8 (sh_event_count h')"
    using eq p(2) q(2) by (simp add: stream_checksum_input_def)
  then show "es = es'" using records_unique [OF p(1) q(1) assms(3,4)] by blast
next
  assume "es = es'"
  then show "stream_checksum_input h = stream_checksum_input h'" using assms(1,2) by simp
qed

lemma hash_events_total:
  assumes "list_all (\<lambda>e. is_ok (append_record e)) es"
  shows "is_ok (hash_events es)"
proof -
  have "is_ok (rfold hash_event h es)" for h
    using assms by (induction es arbitrary: h) (auto simp: is_ok_iff hash_event_Ok)
  then show ?thesis by (simp add: hash_events_def)
qed

lemma sample_record_ok: "is_ok (append_record sample_status_event)"
  by (simp add: append_record_def to_canonical_bytes_def sample_status_event_def append_bytes_def append_length_def
      append_all.simps push_def append_volume_def append_market_signal_def append_auction_observation_def
      auction_new_def append_optional_u64_def append_u64_def in_u32_def CANONICAL_MAGIC_def volume_to_canonical_bytes_def
      is_utc_iso8601_representable_def MIN_SUPPORTED_UNIX_MICROSECONDS_def MAX_SUPPORTED_UNIX_MICROSECONDS_def)

theorem stream_checksum_exact_witness:
  "\<exists>h h'. hash_events [sample_status_event, sample_status_event] = Ok h \<and>
     hash_events [sample_status_event] = Ok h' \<and> stream_checksum_input h \<noteq> stream_checksum_input h'"
proof -
  note sample_record_ok
  then obtain h h' where "hash_events [sample_status_event, sample_status_event] = Ok h"
      "hash_events [sample_status_event] = Ok h'"
    using hash_events_total [of "[sample_status_event, sample_status_event]"]
      hash_events_total [of "[sample_status_event]"] by (auto simp: is_ok_iff)
  then show ?thesis using stream_checksum_exact sample_status_event_wf by fastforce
qed

end
