(* ===== verification/ReplayPlan.thy ===== *)
theory ReplayPlan
  imports Ordering
begin

text \<open>
  The replay plan of \<open>crates/replay-engine/src/plan.rs\<close>: the frozen stream bindings of a run and the
  identity hashed over them. A \<open>[u8; 32]\<close> is a byte list whose length \<open>wf_binding\<close> fixes. The
  canonical input of the hash is a definition of its own, so that what the identity distinguishes can
  be stated without assuming anything of the hash.
\<close>

section \<open>Model\<close>

definition REPLAY_PLAN_VERSION :: nat where "REPLAY_PLAN_VERSION = 1"

record replay_stream_binding =
  rb_descriptor_id :: bytes
  rb_instrument :: instrument_id
  rb_trading_date :: int
  rb_source_revision_identity :: bytes
  rb_cache_identity :: bytes

record replay_plan =
  rp_upstream_plan_identity :: bytes
  rp_bindings :: "replay_stream_binding list"
  rp_identity :: bytes

datatype replay_plan_error =
    EmptyBindings
  | SingleBindingRequired nat
  | DuplicateLogicalStream
  | PlanCanonicalLength

definition append_binding :: "replay_stream_binding \<Rightarrow> encoded" where
  "append_binding b =
     append_all [Ok (rb_descriptor_id b), push (market_discriminant (fst (rb_instrument b))),
       append_bytes (as_bytes (snd (rb_instrument b))), Ok (be_bytes_signed 4 (rb_trading_date b)),
       Ok (rb_source_revision_identity b), Ok (rb_cache_identity b)]"

definition plan_prefix :: "bytes \<Rightarrow> encoded list" where
  "plan_prefix upstream = [Ok (as_bytes ''OSRP''), Ok (be_bytes 2 REPLAY_PLAN_VERSION), Ok upstream]"

definition plan_single_canonical :: "bytes \<Rightarrow> replay_stream_binding \<Rightarrow> (bytes, replay_plan_error) result" where
  "plan_single_canonical upstream b =
     map_err (\<lambda>_. PlanCanonicalLength) (append_all (plan_prefix upstream @ [append_binding b]))"

definition build_single ::
  "(bytes \<Rightarrow> bytes) \<Rightarrow> bytes \<Rightarrow> replay_stream_binding \<Rightarrow> (replay_plan, replay_plan_error) result" where
  "build_single hash upstream b =
     rbind (plan_single_canonical upstream b) (\<lambda>canonical.
       Ok \<lparr>rp_upstream_plan_identity = upstream, rp_bindings = [b], rp_identity = hash canonical\<rparr>)"

definition replay_plan_new ::
  "(bytes \<Rightarrow> bytes) \<Rightarrow> bytes \<Rightarrow> replay_stream_binding list \<Rightarrow> (replay_plan, replay_plan_error) result" where
  "replay_plan_new hash upstream bindings =
     (case bindings of
        [] \<Rightarrow> Err EmptyBindings
      | [b] \<Rightarrow> build_single hash upstream b
      | _ \<Rightarrow> Err (SingleBindingRequired (length bindings)))"

definition binding_key :: "replay_stream_binding \<Rightarrow> (instrument_id \<times> int) \<times> bytes \<times> bytes" where
  "binding_key b = ((rb_instrument b, rb_trading_date b), rb_descriptor_id b, rb_cache_identity b)"

definition logical_stream :: "replay_stream_binding \<Rightarrow> instrument_id \<times> int" where
  "logical_stream b = (rb_instrument b, rb_trading_date b)"

definition plan_multi_canonical ::
  "bytes \<Rightarrow> replay_stream_binding list \<Rightarrow> (replay_stream_binding list \<times> bytes, replay_plan_error) result" where
  "plan_multi_canonical upstream bindings =
     (let bs = sort_key binding_key bindings in
      if any_adjacent (\<lambda>a b. logical_stream a = logical_stream b) bs then Err DuplicateLogicalStream
      else rbind (map_err (\<lambda>_. PlanCanonicalLength)
             (append_all (plan_prefix upstream @ append_length (length bs) # map append_binding bs)))
             (\<lambda>canonical. Ok (bs, canonical)))"

definition build_multi ::
  "(bytes \<Rightarrow> bytes) \<Rightarrow> bytes \<Rightarrow> replay_stream_binding list \<Rightarrow> (replay_plan, replay_plan_error) result" where
  "build_multi hash upstream bindings =
     rbind (plan_multi_canonical upstream bindings) (\<lambda>(bs, canonical).
       Ok \<lparr>rp_upstream_plan_identity = upstream, rp_bindings = bs, rp_identity = hash canonical\<rparr>)"

definition replay_plan_new_multi ::
  "(bytes \<Rightarrow> bytes) \<Rightarrow> bytes \<Rightarrow> replay_stream_binding list \<Rightarrow> (replay_plan, replay_plan_error) result" where
  "replay_plan_new_multi hash upstream bindings =
     (if bindings = [] then Err EmptyBindings else build_multi hash upstream bindings)"

section \<open>Bindings are a prefix code\<close>

definition wf_binding :: "replay_stream_binding \<Rightarrow> bool" where
  "wf_binding b \<longleftrightarrow> length (rb_descriptor_id b) = 32 \<and> length (rb_source_revision_identity b) = 32 \<and>
     length (rb_cache_identity b) = 32 \<and> in_i32 (rb_trading_date b)"

interpretation plan_binding: prefix_code wf_binding append_binding
proof (rule prefix_codeI)
  fix x y p q r s
  assume a: "append_binding x = Ok p" "append_binding y = Ok q" "wf_binding x" "wf_binding y" "p @ r = q @ s"
  have eqs: "rb_descriptor_id x = rb_descriptor_id y"
      "push (market_discriminant (fst (rb_instrument x))) = push (market_discriminant (fst (rb_instrument y)))"
      "append_bytes (as_bytes (snd (rb_instrument x))) = append_bytes (as_bytes (snd (rb_instrument y)))"
      "be_bytes_signed 4 (rb_trading_date x) = be_bytes_signed 4 (rb_trading_date y)"
      "rb_source_revision_identity x = rb_source_revision_identity y"
      "rb_cache_identity x = rb_cache_identity y" "r = s"
    using append_all_peel [OF _ a(1,2,5) [unfolded append_binding_def]] a(3,4)
    by (simp_all add: peelable_fixed peelable_push peelable_bytes wf_binding_def)
  have "market_discriminant (fst (rb_instrument x)) = market_discriminant (fst (rb_instrument y))"
    using push_inject [OF eqs(2)] market_discriminant_less [of "fst (rb_instrument x)"]
      market_discriminant_less [of "fst (rb_instrument y)"] by simp
  then have "fst (rb_instrument x) = fst (rb_instrument y)"
    by (cases "fst (rb_instrument x)"; cases "fst (rb_instrument y)") simp_all
  moreover have "snd (rb_instrument x) = snd (rb_instrument y)"
    using append_bytes_inject [OF eqs(3)] append_all_oks [OF a(1) [unfolded append_binding_def]] by simp
  moreover have "of_be_bytes_signed (be_bytes_signed 4 (rb_trading_date z)) = rb_trading_date z"
    if "wf_binding z" for z
    using that by (simp add: wf_binding_def signed_of_be_bytes in_i32_def)
  then have "rb_trading_date x = rb_trading_date y" using eqs(4) a(3,4) by metis
  ultimately show "x = y \<and> r = s" using eqs by (simp add: prod_eq_iff replay_stream_binding.equality)
qed

section \<open>Plan identities\<close>

lemma logical_stream_sorted:
  assumes "sorted (map binding_key bs)"
  shows "sorted (map logical_stream bs)"
  using assms by (induction bs) (auto simp: binding_key_def logical_stream_def less_eq_prod_simp)

lemma logical_duplicates:
  "any_adjacent (\<lambda>a b. logical_stream a = logical_stream b) (sort_key binding_key bs) \<longleftrightarrow>
     \<not> distinct (map logical_stream bs)"
proof -
  let ?s = "sort_key binding_key bs"
  have "mset (map logical_stream ?s) = mset (map logical_stream bs)" by simp
  then have "distinct (map logical_stream ?s) \<longleftrightarrow> distinct (map logical_stream bs)" by (rule mset_eq_imp_distinct_iff)
  moreover have "sorted (map logical_stream ?s)" by (rule logical_stream_sorted) simp
  ultimately show ?thesis
    using sorted_no_adjacent_distinct [of logical_stream ?s] distinct_no_adjacent [of logical_stream ?s] by auto
qed

lemma plan_multi_canonical_Ok:
  "plan_multi_canonical upstream bs = Ok (cs, p) \<longleftrightarrow>
     distinct (map logical_stream bs) \<and> cs = sort_key binding_key bs \<and>
     append_all (plan_prefix upstream @ append_length (length cs) # map append_binding cs) = Ok p"
  by (auto simp: plan_multi_canonical_def Let_def logical_duplicates)

text \<open>
  A multi-stream plan's identity is taken over bytes that identify the plan. Two lists of bindings
  give the same canonical bytes exactly when the upstream identity is the same and the bindings are the
  same up to their order, and then the plans hold the bindings in one and the same order.
\<close>

theorem plan_identity_exact:
  assumes "plan_multi_canonical up bs = Ok (cs, p)" and "plan_multi_canonical up' bs' = Ok (cs', q)"
    and "length up = 32" and "length up' = 32" and "list_all wf_binding bs" and "list_all wf_binding bs'"
  shows "(p = q \<longleftrightarrow> up = up' \<and> mset bs = mset bs') \<and> (p = q \<longrightarrow> cs = cs')"
proof -
  note ok = assms(1,2) [unfolded plan_multi_canonical_Ok]
  have parts: "up = up' \<and> cs = cs'" if "p = q"
  proof -
    obtain l b where e: "append_length (length cs) = Ok l" "append_all (map append_binding cs) = Ok b"
        "p = as_bytes ''OSRP'' @ be_bytes 2 REPLAY_PLAN_VERSION @ up @ l @ b"
      using ok by (auto simp: plan_prefix_def append_all_Cons_Ok)
    obtain l' b' where e': "append_length (length cs') = Ok l'" "append_all (map append_binding cs') = Ok b'"
        "q = as_bytes ''OSRP'' @ be_bytes 2 REPLAY_PLAN_VERSION @ up' @ l' @ b'"
      using ok by (auto simp: plan_prefix_def append_all_Cons_Ok)
    have "up @ l @ b = up' @ l' @ b'" using e(3) e'(3) that by simp
    then have "up = up' \<and> l @ b = l' @ b'" using assms(3,4) by simp
    moreover from this have len: "append_length (length cs) = append_length (length cs') \<and> b = b'"
      using peelable_length [of "length cs" "length cs'"] e(1) e'(1) unfolding peelable_def by blast
    moreover have "length cs = length cs'" using append_length_inject len e(1) by blast
    moreover have "list_all wf_binding cs" "list_all wf_binding cs'"
      using ok assms(5,6) by (simp_all add: list_all_iff)
    ultimately show ?thesis using plan_binding.repeat_prefix [OF e(2) e'(2), of "[]" "[]"] by simp
  qed
  have "mset bs = mset bs'" if "cs = cs'" using ok that by (metis mset_sort)
  moreover have "cs = cs'" if "mset bs = mset bs'"
  proof -
    have "distinct (map binding_key bs)"
      using ok by (auto simp: distinct_map inj_on_def binding_key_def logical_stream_def)
    then show ?thesis using sort_key_unique [OF that] ok by simp
  qed
  moreover have "p = q" if "up = up'" "cs = cs'" using ok that by (metis result.inject(1))
  ultimately show ?thesis using parts by blast
qed

theorem plan_identity_exact_witness:
  "\<exists>b c cs p. b \<noteq> c \<and> plan_multi_canonical (replicate 32 0) [b, c] = Ok (cs, p) \<and>
     plan_multi_canonical (replicate 32 0) [c, b] = Ok (cs, p)"
proof -
  define b :: replay_stream_binding where "b =
    \<lparr>rb_descriptor_id = replicate 32 1, rb_instrument = (Twse, ''2330''), rb_trading_date = 20000,
     rb_source_revision_identity = replicate 32 2, rb_cache_identity = replicate 32 3\<rparr>"
  define c where "c = b\<lparr>rb_instrument := (Tpex, ''6488'')\<rparr>"
  have wf: "list_all wf_binding [b, c]" "list_all wf_binding [c, b]"
    by (simp_all add: b_def c_def wf_binding_def in_i32_def)
  have ok: "list_all (\<lambda>x. is_ok (append_binding x)) xs" if "xs = [b, c] \<or> xs = [c, b]" for xs
    using that by (auto simp: append_binding_def b_def c_def append_bytes_def append_length_def in_u32_def)
  have "\<exists>cs p. plan_multi_canonical (replicate 32 0) xs = Ok (cs, p)" if "xs = [b, c] \<or> xs = [c, b]" for xs
  proof -
    have "is_ok (append_all (plan_prefix (replicate 32 0) @ append_length (length (sort_key binding_key xs)) #
        map append_binding (sort_key binding_key xs)))"
      using ok [OF that] that by (auto simp: plan_prefix_def list_all_iff append_length_def in_u32_def)
    moreover have "distinct (map logical_stream xs)" using that by (auto simp: b_def c_def logical_stream_def)
    ultimately show ?thesis unfolding plan_multi_canonical_Ok is_ok_iff by blast
  qed
  from this [of "[b, c]"] this [of "[c, b]"] obtain cs p cs' q where e: "plan_multi_canonical (replicate 32 0) [b, c] = Ok (cs, p)"
      "plan_multi_canonical (replicate 32 0) [c, b] = Ok (cs', q)" by blast
  have "p = q \<and> cs = cs'"
    using plan_identity_exact [OF e _ _ wf] by auto
  moreover have "b \<noteq> c" by (simp add: b_def c_def)
  ultimately show ?thesis using e by blast
qed

end
