(* ===== verification/Orders.thy ===== *)
theory Orders
  imports ReplayPlan
begin

text \<open>
  The order vocabulary of \<open>crates/strategy-api/src/orders.rs\<close>: order intents, scheduled requests,
  fill feedback, and their canonical bytes. Order and fill identities are the hash of such bytes, so
  what matters is that the bytes identify the request; that is shown with the prefix codes of
  \<open>StateCanonical\<close>. \<open>OrderId\<close> and \<open>FillId\<close> are 32 bytes; a correlation identifier is a non-empty
  string of at most 128 bytes.
\<close>

section \<open>Model\<close>

definition ORDER_INTENT_VERSION :: nat where "ORDER_INTENT_VERSION = 1"
definition SCHEDULED_ORDER_REQUEST_VERSION :: nat where "SCHEDULED_ORDER_REQUEST_VERSION = 1"
definition EXECUTION_FILL_FEEDBACK_VERSION :: nat where "EXECUTION_FILL_FEEDBACK_VERSION = 1"

datatype order_side = Buy | Sell

fun order_side_discriminant :: "order_side \<Rightarrow> nat" where
  "order_side_discriminant Buy = 1"
| "order_side_discriminant Sell = 2"

datatype order_type = Market | Limit price

datatype time_in_force = Day

fun time_in_force_discriminant :: "time_in_force \<Rightarrow> nat" where
  "time_in_force_discriminant Day = 1"

record order_intent =
  oi_instrument :: instrument_id
  oi_side :: order_side
  oi_quantity :: quantity
  oi_order_type :: order_type

fun append_order_type :: "order_type \<Rightarrow> encoded" where
  "append_order_type Market = push 1"
| "append_order_type (Limit p) = append_all [push 2, append_price p]"

definition intent_to_canonical_bytes :: "order_intent \<Rightarrow> encoded" where
  "intent_to_canonical_bytes oi =
     append_all [Ok (as_bytes ''OSOI''), Ok (be_bytes 2 ORDER_INTENT_VERSION),
       push (market_discriminant (fst (oi_instrument oi))), append_bytes (as_bytes (snd (oi_instrument oi))),
       push (order_side_discriminant (oi_side oi)), append_quantity (oi_quantity oi),
       append_order_type (oi_order_type oi), push (time_in_force_discriminant Day)]"

type_synonym client_order_id = string
type_synonym order_batch_id = string

definition MAX_CORRELATION_ID_BYTES :: nat where "MAX_CORRELATION_ID_BYTES = 128"

datatype order_correlation_id_error = CorrelationEmpty | CorrelationTooLong

definition validate_correlation_id :: "string \<Rightarrow> (unit, order_correlation_id_error) result" where
  "validate_correlation_id s =
     (if s = [] then Err CorrelationEmpty
      else if length s > MAX_CORRELATION_ID_BYTES then Err CorrelationTooLong else Ok ())"

definition client_order_id_new :: "string \<Rightarrow> (client_order_id, order_correlation_id_error) result" where
  "client_order_id_new s = rbind (validate_correlation_id s) (\<lambda>_. Ok s)"

definition order_batch_id_new :: "string \<Rightarrow> (order_batch_id, order_correlation_id_error) result" where
  "order_batch_id_new s = rbind (validate_correlation_id s) (\<lambda>_. Ok s)"

datatype scheduled_execution_policy =
    VisibleDepthAtActivationV1
  | VisibleDepthUntilExpiryV1
  | AuctionCrossAtFirstMatchV1
  | SettlementAtActivationV1

fun policy_discriminant :: "scheduled_execution_policy \<Rightarrow> nat" where
  "policy_discriminant VisibleDepthAtActivationV1 = 1"
| "policy_discriminant VisibleDepthUntilExpiryV1 = 2"
| "policy_discriminant AuctionCrossAtFirstMatchV1 = 3"
| "policy_discriminant SettlementAtActivationV1 = 4"

record scheduled_order_request =
  sr_client_order_id :: client_order_id
  sr_batch_id :: "order_batch_id option"
  sr_activate_at :: int
  sr_expire_at :: "int option"
  sr_intent :: order_intent
  sr_execution_policy :: scheduled_execution_policy

datatype scheduled_order_request_error = InvalidActiveWindow

definition scheduled_order_request_new ::
  "client_order_id \<Rightarrow> order_batch_id option \<Rightarrow> int \<Rightarrow> int option \<Rightarrow> order_intent \<Rightarrow> scheduled_execution_policy \<Rightarrow>
   (scheduled_order_request, scheduled_order_request_error) result" where
  "scheduled_order_request_new client batch activate_at expire_at intent policy =
     (if (case expire_at of None \<Rightarrow> False | Some t \<Rightarrow> t \<le> activate_at) then Err InvalidActiveWindow
      else Ok \<lparr>sr_client_order_id = client, sr_batch_id = batch, sr_activate_at = activate_at,
               sr_expire_at = expire_at, sr_intent = intent, sr_execution_policy = policy\<rparr>)"

definition append_time :: "int \<Rightarrow> encoded" where
  "append_time t = Ok (be_bytes_signed 8 t)"

definition request_to_canonical_bytes :: "scheduled_order_request \<Rightarrow> encoded" where
  "request_to_canonical_bytes r =
     append_all [Ok (as_bytes ''OSSR''), Ok (be_bytes 2 SCHEDULED_ORDER_REQUEST_VERSION),
       append_bytes (as_bytes (sr_client_order_id r)),
       append_option (\<lambda>b. append_bytes (as_bytes b)) (sr_batch_id r),
       append_time (sr_activate_at r), append_option append_time (sr_expire_at r),
       push (policy_discriminant (sr_execution_policy r)),
       rbind (intent_to_canonical_bytes (sr_intent r)) append_bytes]"

type_synonym order_id = bytes
type_synonym fill_id = bytes

record execution_fill_feedback =
  ef_fill_id :: fill_id
  ef_order_id :: order_id
  ef_client_order_id :: client_order_id
  ef_batch_id :: "order_batch_id option"
  ef_instrument :: instrument_id
  ef_activation_time :: int
  ef_fill_time :: int
  ef_side :: order_side
  ef_level_index :: nat
  ef_price :: price
  ef_quantity :: quantity
  ef_cumulative_filled :: quantity
  ef_remaining :: "quantity option"

datatype execution_fill_feedback_error =
    InvalidLevelIndex | FillBeforeActivation | FillQuantityUnitMismatch | InvalidCumulativeQuantity

definition execution_fill_feedback_new ::
  "execution_fill_feedback \<Rightarrow> (execution_fill_feedback, execution_fill_feedback_error) result" where
  "execution_fill_feedback_new f =
     (if \<not> (1 \<le> ef_level_index f \<and> ef_level_index f \<le> 5) then Err InvalidLevelIndex
      else if ef_fill_time f < ef_activation_time f then Err FillBeforeActivation
      else if q_unit (ef_quantity f) \<noteq> q_unit (ef_cumulative_filled f) \<or>
              (case ef_remaining f of None \<Rightarrow> False | Some r \<Rightarrow> q_unit r \<noteq> q_unit (ef_quantity f))
      then Err FillQuantityUnitMismatch
      else if q_value (ef_cumulative_filled f) < q_value (ef_quantity f) then Err InvalidCumulativeQuantity
      else Ok f)"

definition fill_feedback_to_canonical_bytes :: "execution_fill_feedback \<Rightarrow> encoded" where
  "fill_feedback_to_canonical_bytes f =
     append_all [Ok (as_bytes ''OSEF''), Ok (be_bytes 2 EXECUTION_FILL_FEEDBACK_VERSION),
       Ok (ef_fill_id f), Ok (ef_order_id f), append_bytes (as_bytes (ef_client_order_id f)),
       append_option (\<lambda>b. append_bytes (as_bytes b)) (ef_batch_id f),
       push (market_discriminant (fst (ef_instrument f))), append_bytes (as_bytes (snd (ef_instrument f))),
       append_time (ef_activation_time f), append_time (ef_fill_time f),
       push (order_side_discriminant (ef_side f)), push (ef_level_index f),
       append_price (ef_price f), append_quantity (ef_quantity f), append_quantity (ef_cumulative_filled f),
       append_option append_quantity (ef_remaining f)]"

datatype rejection_reason =
    InstrumentOutsideUniverseRejection
  | QuantityUnitMismatchRejection
  | NewOrderEntryBlockedRejection
  | UnsupportedOrderTypeRejection
  | PriceNotAllowedByInstrumentProfile

datatype cancellation_reason =
  EndOfRun | SegmentEnd | VolatilityInterruptionCancel | Expired | Replaced | StrategyCancelled

datatype execution_failure_reason =
    MissingVisibleDepth | StaleVisibleDepth | MatchingDisabled | NewOrderEntryBlockedFailure
  | InsufficientVisibleDepth | PriceNotMarketable

datatype order_feedback =
    Accepted order_id
  | Activated order_id
  | Rejected rejection_reason
  | PartiallyFilledFeedback order_id quantity quantity
  | FilledFeedback order_id quantity
  | CancelledFeedback order_id cancellation_reason
  | ExecutionFailed order_id execution_failure_reason "quantity option" quantity
  | MatchAttempted order_id "quantity option" quantity

section \<open>Requests are a prefix code\<close>

definition wf_order_type :: "order_type \<Rightarrow> bool" where
  "wf_order_type t \<longleftrightarrow> (\<forall>p. t = Limit p \<longrightarrow> in_i128 p)"

definition wf_intent :: "order_intent \<Rightarrow> bool" where
  "wf_intent oi \<longleftrightarrow> wf_quantity (oi_quantity oi) \<and> wf_order_type (oi_order_type oi)"

definition wf_request :: "scheduled_order_request \<Rightarrow> bool" where
  "wf_request r \<longleftrightarrow> in_i64 (sr_activate_at r) \<and> (\<forall>t. sr_expire_at r = Some t \<longrightarrow> in_i64 t) \<and> wf_intent (sr_intent r)"

interpretation order_kind: prefix_code wf_order_type append_order_type
proof (rule prefix_codeI)
  fix x y p q r s
  assume a: "append_order_type x = Ok p" "append_order_type y = Ok q" "wf_order_type x" "wf_order_type y" "p @ r = q @ s"
  show "x = y \<and> r = s"
  proof (cases "\<exists>l m. x = Limit l \<and> y = Limit m")
    case True
    then obtain l m b c where lm: "x = Limit l" "y = Limit m" "append_price l = Ok b" "append_price m = Ok c" "b @ r = c @ s"
      using a(1,2,5) by (auto simp: append_all_Cons_Ok push_Ok)
    then show ?thesis using price.peel [OF lm(3,4)] a(3,4) by (simp add: wf_order_type_def)
  next
    case False
    then show ?thesis using a(1,2,5) by (cases x; cases y) (auto simp: append_all_Cons_Ok push_Ok)
  qed
qed

lemma order_side_inject: "push (order_side_discriminant a) = push (order_side_discriminant b) \<Longrightarrow> a = b"
  by (cases a; cases b) (auto simp: push_def)

lemma market_push_inject: "push (market_discriminant a) = push (market_discriminant b) \<Longrightarrow> a = b"
  by (cases a; cases b) (auto simp: push_def)

lemma policy_inject: "push (policy_discriminant a) = push (policy_discriminant b) \<Longrightarrow> a = b"
  by (cases a; cases b) (auto simp: push_def)

interpretation intent: prefix_code wf_intent intent_to_canonical_bytes
proof (rule prefix_codeI)
  fix x y p q r s
  assume a: "intent_to_canonical_bytes x = Ok p" "intent_to_canonical_bytes y = Ok q" "wf_intent x" "wf_intent y"
    "p @ r = q @ s"
  have eqs: "push (market_discriminant (fst (oi_instrument x))) = push (market_discriminant (fst (oi_instrument y)))"
      "append_bytes (as_bytes (snd (oi_instrument x))) = append_bytes (as_bytes (snd (oi_instrument y)))"
      "push (order_side_discriminant (oi_side x)) = push (order_side_discriminant (oi_side y))"
      "append_quantity (oi_quantity x) = append_quantity (oi_quantity y)"
      "append_order_type (oi_order_type x) = append_order_type (oi_order_type y)" "r = s"
    using append_all_peel [OF _ a(1,2,5) [unfolded intent_to_canonical_bytes_def]] a(3,4)
    by (simp_all add: peelable_fixed peelable_push peelable_bytes quantity.peelable order_kind.peelable wf_intent_def)
  note ok = append_all_oks [OF a(1) [unfolded intent_to_canonical_bytes_def], simplified]
  have "oi_instrument x = oi_instrument y"
    using market_push_inject [OF eqs(1)] append_bytes_inject [OF eqs(2)] ok by (simp add: prod_eq_iff)
  moreover have "oi_quantity x = oi_quantity y" using quantity.inject [OF eqs(4)] ok a(3,4) by (simp add: wf_intent_def)
  moreover have "oi_order_type x = oi_order_type y"
    using order_kind.inject [OF eqs(5)] ok a(3,4) by (simp add: wf_intent_def)
  ultimately show "x = y \<and> r = s" using order_side_inject [OF eqs(3)] eqs(6) by simp
qed

interpretation text_code: prefix_code "\<lambda>_. True" "\<lambda>b. append_bytes (as_bytes b)"
proof (rule prefix_codeI)
  fix x y :: string and p q r s
  assume "append_bytes (as_bytes x) = Ok p" "append_bytes (as_bytes y) = Ok q" "p @ r = q @ s"
  then have "as_bytes x = as_bytes y \<and> r = s" by (rule framed_bytes_peel)
  then show "x = y \<and> r = s" by simp
qed

interpretation time_code: prefix_code in_i64 append_time
proof (rule prefix_codeI)
  fix x y p q r s
  assume a: "append_time x = Ok p" "append_time y = Ok q" "in_i64 x" "in_i64 y" "p @ r = q @ s"
  then have "be_bytes_signed 8 x @ r = be_bytes_signed 8 y @ s" by (simp add: append_time_def)
  then have "be_bytes_signed 8 x = be_bytes_signed 8 y \<and> r = s"
    using fixed_bytes_peel [of "be_bytes_signed 8 x" "be_bytes_signed 8 y" r s] length_be_bytes_signed by metis
  then show "x = y \<and> r = s" using be_bytes_signed_inject a(3,4) by blast
qed

interpretation optional_text: prefix_code "\<lambda>v. \<forall>x. v = Some x \<longrightarrow> True" "append_option (\<lambda>b. append_bytes (as_bytes b))"
  by (rule text_code.option_prefix)

interpretation optional_time: prefix_code "\<lambda>v. \<forall>t. v = Some t \<longrightarrow> in_i64 t" "append_option append_time"
  by (rule time_code.option_prefix)

interpretation framed_intent: prefix_code wf_intent "\<lambda>i. rbind (intent_to_canonical_bytes i) append_bytes"
proof (rule prefix_codeI)
  fix x y p q r s
  assume a: "rbind (intent_to_canonical_bytes x) append_bytes = Ok p" "rbind (intent_to_canonical_bytes y) append_bytes = Ok q"
    "wf_intent x" "wf_intent y" "p @ r = q @ s"
  then obtain b c where e: "intent_to_canonical_bytes x = Ok b" "intent_to_canonical_bytes y = Ok c"
      "append_bytes b = Ok p" "append_bytes c = Ok q" by auto
  then have "b = c \<and> r = s" using framed_bytes_peel a(5) by blast
  then show "x = y \<and> r = s" using intent.peel [OF e(1,2) a(3,4), of "[]" "[]"] by simp
qed

lemma request_exact:
  assumes a: "request_to_canonical_bytes x = Ok p" "request_to_canonical_bytes y = Ok q" "wf_request x" "wf_request y"
    "p @ r = q @ s"
  shows "x = y \<and> r = s"
proof -
  have eqs: "append_bytes (as_bytes (sr_client_order_id x)) = append_bytes (as_bytes (sr_client_order_id y))"
      "append_option (\<lambda>b. append_bytes (as_bytes b)) (sr_batch_id x) = append_option (\<lambda>b. append_bytes (as_bytes b)) (sr_batch_id y)"
      "append_time (sr_activate_at x) = append_time (sr_activate_at y)"
      "append_option append_time (sr_expire_at x) = append_option append_time (sr_expire_at y)"
      "push (policy_discriminant (sr_execution_policy x)) = push (policy_discriminant (sr_execution_policy y))"
      "rbind (intent_to_canonical_bytes (sr_intent x)) append_bytes = rbind (intent_to_canonical_bytes (sr_intent y)) append_bytes"
      "r = s"
    using append_all_peel [OF _ a(1,2,5) [unfolded request_to_canonical_bytes_def]] a(3,4)
    by (simp_all add: peelable_fixed peelable_push peelable_bytes optional_text.peelable time_code.peelable
        optional_time.peelable framed_intent.peelable wf_request_def)
  note ok = append_all_oks [OF a(1) [unfolded request_to_canonical_bytes_def], simplified]
  have "sr_client_order_id x = sr_client_order_id y" using append_bytes_inject [OF eqs(1)] ok by simp
  moreover have "sr_batch_id x = sr_batch_id y" using optional_text.inject [OF eqs(2)] ok by simp
  moreover have "sr_activate_at x = sr_activate_at y" using time_code.inject [OF eqs(3)] ok a(3,4) by (simp add: wf_request_def)
  moreover have "sr_expire_at x = sr_expire_at y" using optional_time.inject [OF eqs(4)] ok a(3,4) by (simp add: wf_request_def)
  moreover have "sr_intent x = sr_intent y" using framed_intent.inject [OF eqs(6)] ok a(3,4) by (simp add: wf_request_def)
  ultimately show ?thesis using policy_inject [OF eqs(5)] eqs(7) by simp
qed

text \<open>
  The canonical bytes of a scheduled order request identify it. No two different requests with
  machine-sized fields share an encoding, nor is one encoding a prefix of another, so the bytes an
  order identity is hashed over name exactly one request.
\<close>

theorem request_bytes_exact:
  assumes "request_to_canonical_bytes x = Ok p" and "request_to_canonical_bytes y = Ok q"
    and "wf_request x" and "wf_request y"
  shows "p @ r = q @ s \<longleftrightarrow> x = y \<and> r = s"
  using request_exact [OF assms] assms(1,2) by auto

theorem request_bytes_exact_witness:
  "\<exists>x y p q. request_to_canonical_bytes x = Ok p \<and> request_to_canonical_bytes y = Ok q \<and>
     sr_expire_at x = None \<and> sr_expire_at y = Some 0 \<and> p \<noteq> q"
proof -
  define i :: order_intent where "i = \<lparr>oi_instrument = (Twse, ''2330''), oi_side = Buy,
    oi_quantity = \<lparr>q_value = 3, q_unit = TradingUnit\<rparr>, oi_order_type = Limit 100\<rparr>"
  define x :: scheduled_order_request where "x = \<lparr>sr_client_order_id = ''c'', sr_batch_id = Some ''b'',
    sr_activate_at = -1, sr_expire_at = None, sr_intent = i, sr_execution_policy = VisibleDepthAtActivationV1\<rparr>"
  define y where "y = x\<lparr>sr_expire_at := Some 0\<rparr>"
  have wf: "wf_request x" "wf_request y"
    by (simp_all add: x_def y_def i_def wf_request_def wf_intent_def wf_quantity_def wf_order_type_def range_defs)
  have "is_ok (request_to_canonical_bytes x)" "is_ok (request_to_canonical_bytes y)"
    by (simp_all add: x_def y_def i_def request_to_canonical_bytes_def intent_to_canonical_bytes_def append_bytes_def
        append_length_def append_all.simps push_def append_quantity_def append_price_def append_time_def
        quantity_to_canonical_bytes_def decimal_to_canonical_bytes_def in_u32_def)
  then obtain p q where pq: "request_to_canonical_bytes x = Ok p" "request_to_canonical_bytes y = Ok q"
    by (auto simp: is_ok_iff)
  have "p \<noteq> q" using request_bytes_exact [OF pq wf, of "[]" "[]"] by (auto simp: x_def y_def)
  then show ?thesis using pq by (intro exI [of _ x] exI [of _ y]) (auto simp: x_def y_def)
qed

end
