(* ===== verification/Depth.thy ===== *)
theory Depth
  imports Orders OrdMap
begin

text \<open>
  Execution against displayed depth: \<open>crates/execution-sim/src/depth.rs\<close>. A sweep walks the levels of
  one side of a book from the best, within a depth and price limit, and takes what is displayed and not
  yet consumed; \<open>execute_atomic_depth\<close> sweeps several legs against staged copies and commits only when
  every leg fills completely. The lemmas characterise the allocation level by level and show that no
  displayed quantity is used twice and that an incomplete or failed execution changes nothing. The
  consumption arrays have \<open>BOOK_DEPTH\<close> entries.
\<close>

section \<open>Model\<close>

record level_fill =
  lf_level_index :: nat
  lf_price :: price
  lf_quantity :: quantity

record depth_sweep_result =
  sw_fills :: "level_fill list"
  sw_requested :: quantity
  sw_filled_value :: nat

record consumable_depth =
  cd_book :: complete_book
  cd_consumed_bids :: "nat list"
  cd_consumed_asks :: "nat list"

datatype depth_sweep_error =
    InvalidDepthLevels nat
  | DepthInvalidAdversePriceDelta
  | ConsumedQuantityExceedsDisplayed nat
  | DepthQuantityUnitMismatch quantity_unit quantity_unit
  | DepthQuantityOverflow

definition consumable_depth_new :: "complete_book \<Rightarrow> consumable_depth" where
  "consumable_depth_new book =
     \<lparr>cd_book = book, cd_consumed_bids = replicate BOOK_DEPTH 0, cd_consumed_asks = replicate BOOK_DEPTH 0\<rparr>"

definition consumable_depth_replace :: "consumable_depth \<Rightarrow> complete_book \<Rightarrow> consumable_depth" where
  "consumable_depth_replace cd book =
     cd\<lparr>cd_book := book, cd_consumed_bids := replicate BOOK_DEPTH 0, cd_consumed_asks := replicate BOOK_DEPTH 0\<rparr>"

definition apply_adverse_price :: "price \<Rightarrow> order_side \<Rightarrow> decimal \<Rightarrow> (price, depth_sweep_error) result" where
  "apply_adverse_price p side delta =
     map_err (\<lambda>_. DepthInvalidAdversePriceDelta)
       (case side of Buy \<Rightarrow> decimal_checked_add p delta | Sell \<Rightarrow> decimal_checked_sub p delta)"

definition is_marketable :: "price \<Rightarrow> order_side \<Rightarrow> order_type \<Rightarrow> bool" where
  "is_marketable p side ot \<longleftrightarrow>
     (case ot of Market \<Rightarrow> True
      | Limit limit_price \<Rightarrow> (case side of Buy \<Rightarrow> p \<le> limit_price | Sell \<Rightarrow> limit_price \<le> p))"

text \<open>The levels an order of a side trades against, best first.\<close>

definition opposite_levels :: "complete_book \<Rightarrow> order_side \<Rightarrow> book_level list" where
  "opposite_levels book side = side_levels (case side of Buy \<Rightarrow> cb_asks book | Sell \<Rightarrow> cb_bids book)"

fun sweep_levels ::
  "order_side \<Rightarrow> order_type \<Rightarrow> decimal \<Rightarrow> quantity_unit \<Rightarrow> nat list \<Rightarrow> nat \<Rightarrow> nat \<Rightarrow> book_level list \<Rightarrow>
   (level_fill list \<times> nat, depth_sweep_error) result" where
  "sweep_levels side ot delta un consumed index remaining [] = Ok ([], remaining)"
| "sweep_levels side ot delta un consumed index remaining (level # levels) =
     (if remaining = 0 then Ok ([], remaining)
      else rbind (apply_adverse_price (bl_price level) side delta) (\<lambda>p.
        if \<not> is_marketable p side ot then Ok ([], remaining)
        else rbind (ok_or (checked_sub_nat (q_value (bl_quantity level)) (consumed ! index))
                      (ConsumedQuantityExceedsDisplayed (index + 1))) (\<lambda>available.
          if available = 0 then sweep_levels side ot delta un consumed (index + 1) remaining levels
          else let fill_value = min remaining available in
            rbind (sweep_levels side ot delta un consumed (index + 1) (remaining - fill_value) levels)
              (\<lambda>(fills, r). Ok (\<lparr>lf_level_index = index + 1, lf_price = p,
                                 lf_quantity = \<lparr>q_value = fill_value, q_unit = un\<rparr>\<rparr> # fills, r)))))"

definition sweep_marketable_depth_with_consumed ::
  "complete_book \<Rightarrow> order_side \<Rightarrow> quantity \<Rightarrow> nat \<Rightarrow> order_type \<Rightarrow> decimal \<Rightarrow> nat list \<Rightarrow>
   (depth_sweep_result, depth_sweep_error) result" where
  "sweep_marketable_depth_with_consumed book side requested depth_levels ot delta consumed =
     (if \<not> (1 \<le> depth_levels \<and> depth_levels \<le> BOOK_DEPTH) then Err (InvalidDepthLevels depth_levels)
      else if delta < 0 then Err DepthInvalidAdversePriceDelta
      else if \<exists>actual. book_quantity_unit book = Some actual \<and> actual \<noteq> q_unit requested
      then Err (DepthQuantityUnitMismatch (q_unit requested) (the (book_quantity_unit book)))
      else rbind (sweep_levels side ot delta (q_unit requested) consumed 0 (q_value requested)
                    (take depth_levels (opposite_levels book side))) (\<lambda>(fills, remaining).
             Ok \<lparr>sw_fills = fills, sw_requested = requested,
                 sw_filled_value = q_value requested - remaining\<rparr>))"

definition sweep_marketable_depth ::
  "complete_book \<Rightarrow> order_side \<Rightarrow> quantity \<Rightarrow> nat \<Rightarrow> order_type \<Rightarrow> decimal \<Rightarrow>
   (depth_sweep_result, depth_sweep_error) result" where
  "sweep_marketable_depth book side requested depth_levels ot delta =
     sweep_marketable_depth_with_consumed book side requested depth_levels ot delta (replicate BOOK_DEPTH 0)"

definition sweep_visible_depth ::
  "complete_book \<Rightarrow> order_side \<Rightarrow> quantity \<Rightarrow> nat \<Rightarrow> (depth_sweep_result, depth_sweep_error) result" where
  "sweep_visible_depth book side requested depth_levels =
     sweep_marketable_depth book side requested depth_levels Market 0"

definition sweep_filled :: "depth_sweep_result \<Rightarrow> quantity option" where
  "sweep_filled s =
     (case quantity_new (sw_filled_value s) (q_unit (sw_requested s)) of Ok q \<Rightarrow> Some q | Err e \<Rightarrow> None)"

definition sweep_remaining :: "depth_sweep_result \<Rightarrow> quantity option" where
  "sweep_remaining s =
     (case quantity_new (q_value (sw_requested s) - sw_filled_value s) (q_unit (sw_requested s)) of
        Ok q \<Rightarrow> Some q | Err e \<Rightarrow> None)"

definition sweep_is_complete :: "depth_sweep_result \<Rightarrow> bool" where
  "sweep_is_complete s \<longleftrightarrow> sw_filled_value s = q_value (sw_requested s)"

definition consumed_side :: "order_side \<Rightarrow> consumable_depth \<Rightarrow> nat list" where
  "consumed_side side cd = (case side of Buy \<Rightarrow> cd_consumed_asks cd | Sell \<Rightarrow> cd_consumed_bids cd)"

definition with_consumed_side :: "order_side \<Rightarrow> nat list \<Rightarrow> consumable_depth \<Rightarrow> consumable_depth" where
  "with_consumed_side side c cd =
     (case side of Buy \<Rightarrow> cd\<lparr>cd_consumed_asks := c\<rparr> | Sell \<Rightarrow> cd\<lparr>cd_consumed_bids := c\<rparr>)"

definition depth_preview ::
  "consumable_depth \<Rightarrow> order_side \<Rightarrow> quantity \<Rightarrow> nat \<Rightarrow> (depth_sweep_result, depth_sweep_error) result" where
  "depth_preview cd side requested depth_levels =
     sweep_marketable_depth_with_consumed (cd_book cd) side requested depth_levels Market 0 (consumed_side side cd)"

definition consume_level :: "nat list \<Rightarrow> level_fill \<Rightarrow> (nat list, depth_sweep_error) result" where
  "consume_level consumed f =
     (let index = lf_level_index f - 1 in
      rbind (ok_or (checked_u64 (consumed ! index + q_value (lf_quantity f))) DepthQuantityOverflow) (\<lambda>v.
        Ok (consumed[index := v])))"

definition depth_apply ::
  "consumable_depth \<Rightarrow> order_side \<Rightarrow> depth_sweep_result \<Rightarrow> (consumable_depth, depth_sweep_error) result" where
  "depth_apply cd side sweep =
     rbind (rfold consume_level (consumed_side side cd) (sw_fills sweep)) (\<lambda>c. Ok (with_consumed_side side c cd))"

record atomic_depth_leg =
  al_instrument :: instrument_id
  al_side :: order_side

record atomic_depth_fill =
  af_leg :: atomic_depth_leg
  af_sweep :: depth_sweep_result

type_synonym depth_books = "(instrument_id, consumable_depth) bmap"

fun stage_books :: "depth_books \<Rightarrow> depth_books \<Rightarrow> atomic_depth_leg list \<Rightarrow> depth_books option" where
  "stage_books books staged [] = Some staged"
| "stage_books books staged (leg # legs) =
     (case bm_get books (al_instrument leg) of
        None \<Rightarrow> None
      | Some book \<Rightarrow>
          stage_books books
            (if bm_get staged (al_instrument leg) = None then bm_insert (al_instrument leg) book staged else staged)
            legs)"

fun sweep_legs ::
  "quantity \<Rightarrow> nat \<Rightarrow> depth_books \<Rightarrow> atomic_depth_leg list \<Rightarrow>
   ((depth_books \<times> atomic_depth_fill list) option, depth_sweep_error) result" where
  "sweep_legs requested depth_levels staged [] = Ok (Some (staged, []))"
| "sweep_legs requested depth_levels staged (leg # legs) =
     (case bm_get staged (al_instrument leg) of
        None \<Rightarrow> Ok None
      | Some book \<Rightarrow>
          rbind (depth_preview book (al_side leg) requested depth_levels) (\<lambda>sweep.
            if \<not> sweep_is_complete sweep then Ok None
            else rbind (depth_apply book (al_side leg) sweep) (\<lambda>book'.
              rbind (sweep_legs requested depth_levels (bm_insert (al_instrument leg) book' staged) legs) (\<lambda>rest.
                Ok (map_option (\<lambda>(st, fills). (st, \<lparr>af_leg = leg, af_sweep = sweep\<rparr> # fills)) rest)))))"

definition execute_atomic_depth ::
  "depth_books \<Rightarrow> atomic_depth_leg list \<Rightarrow> quantity \<Rightarrow> nat \<Rightarrow>
   depth_books \<times> (atomic_depth_fill list option, depth_sweep_error) result" where
  "execute_atomic_depth books legs requested depth_levels =
     (case stage_books books [] legs of
        None \<Rightarrow> (books, Ok None)
      | Some staged \<Rightarrow>
          (case sweep_legs requested depth_levels staged legs of
             Err e \<Rightarrow> (books, Err e)
           | Ok None \<Rightarrow> (books, Ok None)
           | Ok (Some (st, fills)) \<Rightarrow> (fold (\<lambda>(i, b). bm_insert i b) st books, Ok (Some fills))))"

section \<open>The allocation of a sweep\<close>

text \<open>The price a level trades at, and the levels an order may reach.\<close>

definition adverse_price :: "order_side \<Rightarrow> decimal \<Rightarrow> price \<Rightarrow> price" where
  "adverse_price side delta p = (case side of Buy \<Rightarrow> p + delta | Sell \<Rightarrow> p - delta)"

definition reachable_levels :: "order_side \<Rightarrow> order_type \<Rightarrow> decimal \<Rightarrow> book_level list \<Rightarrow> book_level list" where
  "reachable_levels side ot delta levels =
     takeWhile (\<lambda>l. is_marketable (adverse_price side delta (bl_price l)) side ot) levels"

text \<open>What the first \<open>k\<close> levels still offer, and what the fills take from them.\<close>

definition offered :: "nat list \<Rightarrow> nat \<Rightarrow> book_level list \<Rightarrow> nat \<Rightarrow> nat" where
  "offered consumed index levels k =
     (\<Sum>i<k. q_value (bl_quantity (levels ! i)) - consumed ! (index + i))"

definition taken_upto :: "nat \<Rightarrow> level_fill list \<Rightarrow> nat" where
  "taken_upto k fills = (\<Sum>f \<leftarrow> filter (\<lambda>f. lf_level_index f \<le> k) fills. q_value (lf_quantity f))"

lemma apply_adverse_price_Ok: "apply_adverse_price p side delta = Ok x \<Longrightarrow> x = adverse_price side delta p"
  by (auto simp: apply_adverse_price_def adverse_price_def decimal_checked_add_def decimal_checked_sub_def
      split: order_side.splits)

lemma offered_Suc_Cons:
  "offered consumed index (l # ls) (Suc k) =
     (q_value (bl_quantity l) - consumed ! index) + offered consumed (Suc index) ls k"
  unfolding offered_def sum.lessThan_Suc_shift by simp

lemma min_take_rest: "min n a + min (n - min n a) b = min n (a + b :: nat)"
  unfolding min_def by auto

lemma sweep_levels_spec:
  assumes "sweep_levels side ot delta un consumed index remaining levels = Ok (fills, r)"
  shows "r + (\<Sum>f \<leftarrow> fills. q_value (lf_quantity f)) = remaining \<and>
    (\<forall>k \<le> length (reachable_levels side ot delta levels).
       taken_upto (index + k) fills = min remaining (offered consumed index (reachable_levels side ot delta levels) k)) \<and>
    (\<forall>f \<in> set fills. 0 < q_value (lf_quantity f) \<and> q_unit (lf_quantity f) = un \<and> index < lf_level_index f \<and>
       lf_level_index f \<le> index + length (reachable_levels side ot delta levels) \<and>
       lf_price f = adverse_price side delta
         (bl_price (reachable_levels side ot delta levels ! (lf_level_index f - Suc index)))) \<and>
    sorted_wrt (<) (map lf_level_index fills)"
  using assms
proof (induction levels arbitrary: index remaining fills r)
  case Nil
  then show ?case by (simp add: reachable_levels_def offered_def taken_upto_def)
next
  case (Cons l ls)
  let ?ms = "reachable_levels side ot delta ls"
  consider (finished) "remaining = 0" "fills = []" "r = 0"
    | (stop) "fills = []" "r = remaining" "reachable_levels side ot delta (l # ls) = []"
    | (skip) "0 < remaining" "reachable_levels side ot delta (l # ls) = l # ?ms"
        "q_value (bl_quantity l) = consumed ! index"
        "sweep_levels side ot delta un consumed (Suc index) remaining ls = Ok (fills, r)"
    | (fill) v fs where "0 < remaining" "reachable_levels side ot delta (l # ls) = l # ?ms"
        "v = min remaining (q_value (bl_quantity l) - consumed ! index)" "0 < v"
        "sweep_levels side ot delta un consumed (Suc index) (remaining - v) ls = Ok (fs, r)"
        "fills = \<lparr>lf_level_index = Suc index, lf_price = adverse_price side delta (bl_price l),
                  lf_quantity = \<lparr>q_value = v, q_unit = un\<rparr>\<rparr> # fs"
    using Cons.prems
    by (cases "is_marketable (adverse_price side delta (bl_price l)) side ot")
      (auto simp: reachable_levels_def Let_def dest: apply_adverse_price_Ok split: if_splits)
  then show ?case
  proof cases
    case finished
    then show ?thesis by (simp add: taken_upto_def)
  next
    case stop
    then show ?thesis by (simp add: offered_def taken_upto_def)
  next
    case skip
    note ih = Cons.IH [OF skip(4)]
    have "taken_upto (index + k) fills = min remaining (offered consumed index (l # ?ms) k)" if "k \<le> Suc (length ?ms)" for k
    proof (cases k)
      case 0
      have "filter (\<lambda>f. lf_level_index f \<le> index) fills = []" using ih by (auto simp: filter_empty_conv)
      then show ?thesis by (simp add: 0 offered_def taken_upto_def)
    next
      case (Suc j)
      then show ?thesis using ih that skip(3) by (simp add: offered_Suc_Cons)
    qed
    then show ?thesis using ih skip(2) by (auto simp: nth_Cons' Suc_diff_Suc)
  next
    case (fill v fs)
    note ih = Cons.IH [OF fill(5)]
    have "taken_upto (index + k) fills = min remaining (offered consumed index (l # ?ms) k)" if "k \<le> Suc (length ?ms)" for k
    proof (cases k)
      case 0
      have "filter (\<lambda>f. lf_level_index f \<le> index) fs = []" using ih by (auto simp: filter_empty_conv)
      then show ?thesis by (simp add: 0 offered_def taken_upto_def fill(6))
    next
      case (Suc j)
      have "taken_upto (Suc index + j) fs = min (remaining - v) (offered consumed (Suc index) ?ms j)"
        using ih that Suc by simp
      moreover have "taken_upto (index + k) fills = v + taken_upto (Suc index + j) fs"
        by (simp add: taken_upto_def fill(6) Suc)
      ultimately have "taken_upto (index + k) fills = v + min (remaining - v) (offered consumed (Suc index) ?ms j)" by simp
      then show ?thesis unfolding fill(3) min_take_rest Suc offered_Suc_Cons .
    qed
    then show ?thesis using ih fill(2,3,4,6) by (auto simp: nth_Cons' Suc_diff_Suc)
  qed
qed

lemma sweep_Ok:
  assumes "sweep_marketable_depth_with_consumed book side requested n ot delta consumed = Ok s"
  obtains r where "sweep_levels side ot delta (q_unit requested) consumed 0 (q_value requested)
      (take n (opposite_levels book side)) = Ok (sw_fills s, r)"
    and "sw_requested s = requested" and "sw_filled_value s = q_value requested - r"
    and "1 \<le> n" and "n \<le> BOOK_DEPTH" and "0 \<le> delta"
  using assms by (auto simp: sweep_marketable_depth_with_consumed_def split: if_splits)

text \<open>
  C26: a sweep allocates greedily and exactly. After a sweep that succeeds, the quantity taken from the
  first \<open>k\<close> reachable levels is, for every \<open>k\<close>, the smaller of the order and what those levels display
  beyond what was consumed before: better levels are exhausted first, no level gives more than it has
  left, and the order is filled completely if and only if the reachable depth suffices. Every fill is positive, at
  its level's price moved against the order by the adverse delta, within the limit price, and each level
  is used at most once.
\<close>

theorem depth_sweep_greedy:
  assumes "sweep_marketable_depth_with_consumed book side requested n ot delta consumed = Ok s"
    and "levels = takeWhile (\<lambda>l. is_marketable (adverse_price side delta (bl_price l)) side ot)
           (take n (opposite_levels book side))"
  shows "(\<forall>k \<le> length levels.
       (\<Sum>f \<leftarrow> filter (\<lambda>f. lf_level_index f \<le> k) (sw_fills s). q_value (lf_quantity f)) =
         min (q_value requested) (\<Sum>i<k. q_value (bl_quantity (levels ! i)) - consumed ! i)) \<and>
    sw_filled_value s =
      min (q_value requested) (\<Sum>i<length levels. q_value (bl_quantity (levels ! i)) - consumed ! i) \<and>
    (\<forall>f \<in> set (sw_fills s). 0 < q_value (lf_quantity f) \<and> q_unit (lf_quantity f) = q_unit requested \<and>
       1 \<le> lf_level_index f \<and> lf_level_index f \<le> length levels \<and>
       lf_price f = adverse_price side delta (bl_price (levels ! (lf_level_index f - 1))) \<and>
       is_marketable (lf_price f) side ot) \<and>
    distinct (map lf_level_index (sw_fills s))"
proof -
  obtain r where r: "sweep_levels side ot delta (q_unit requested) consumed 0 (q_value requested)
      (take n (opposite_levels book side)) = Ok (sw_fills s, r)" and filled: "sw_filled_value s = q_value requested - r"
    using assms(1) by (rule sweep_Ok)
  have levels: "reachable_levels side ot delta (take n (opposite_levels book side)) = levels"
    by (simp add: assms(2) reachable_levels_def)
  note spec = sweep_levels_spec [OF r, unfolded levels, simplified]
  have "filter (\<lambda>f. lf_level_index f \<le> length levels) (sw_fills s) = sw_fills s"
    using spec by (simp add: filter_id_conv)
  then have "(\<Sum>f \<leftarrow> sw_fills s. q_value (lf_quantity f)) =
      min (q_value requested) (\<Sum>i<length levels. q_value (bl_quantity (levels ! i)) - consumed ! i)"
    using spec by (auto simp: taken_upto_def offered_def)
  then have "sw_filled_value s =
      min (q_value requested) (\<Sum>i<length levels. q_value (bl_quantity (levels ! i)) - consumed ! i)"
    using spec filled by (metis add_diff_cancel_left')
  moreover have "is_marketable (adverse_price side delta (bl_price (levels ! i))) side ot" if "i < length levels" for i
    using that nth_mem [OF that] unfolding assms(2) by (metis (no_types, lifting) set_takeWhileD)
  moreover have "distinct (map lf_level_index (sw_fills s))" using spec by (simp add: strict_sorted_iff)
  ultimately show ?thesis using spec by (auto simp: taken_upto_def offered_def)
qed

definition sample_book :: complete_book where
  "sample_book =
     \<lparr>cb_bids = \<lparr>bs_kind = Bid, bs_market_order_quantity = None, bs_slots = [None, None, None, None, None]\<rparr>,
      cb_asks = \<lparr>bs_kind = Ask, bs_market_order_quantity = None,
        bs_slots = [Some \<lparr>bl_price = 10, bl_quantity = \<lparr>q_value = 3, q_unit = Share\<rparr>\<rparr>,
                    Some \<lparr>bl_price = 11, bl_quantity = \<lparr>q_value = 5, q_unit = Share\<rparr>\<rparr>, None, None, None]\<rparr>\<rparr>"

lemmas depth_eval = sample_book_def sweep_marketable_depth_with_consumed_def opposite_levels_def side_levels_def
  apply_adverse_price_def is_marketable_def BOOK_DEPTH_def book_quantity_unit_def side_quantity_unit_def
  decimal_checked_add_def checked_i128_def in_i128_def checked_sub_nat_def Let_def

lemma sample_sweep:
  "sweep_marketable_depth_with_consumed sample_book Buy \<lparr>q_value = 4, q_unit = Share\<rparr> 5 Market 1 [1, 0, 0, 0, 0] =
     Ok \<lparr>sw_fills =
       [\<lparr>lf_level_index = 1, lf_price = 11, lf_quantity = \<lparr>q_value = 2, q_unit = Share\<rparr>\<rparr>,
        \<lparr>lf_level_index = 2, lf_price = 12, lf_quantity = \<lparr>q_value = 2, q_unit = Share\<rparr>\<rparr>],
       sw_requested = \<lparr>q_value = 4, q_unit = Share\<rparr>, sw_filled_value = 4\<rparr>"
  by (simp add: depth_eval)

theorem depth_sweep_greedy_witness:
  "\<exists>s. sweep_marketable_depth_with_consumed sample_book Buy \<lparr>q_value = 4, q_unit = Share\<rparr> 5 Market 1 [1, 0, 0, 0, 0] = Ok s \<and>
     sw_filled_value s = 4 \<and> distinct (map lf_level_index (sw_fills s))"
  using sample_sweep depth_sweep_greedy [OF sample_sweep refl] by auto

section \<open>Consumption\<close>

text \<open>No more is consumed of a level than it displays.\<close>

definition depth_inv :: "consumable_depth \<Rightarrow> bool" where
  "depth_inv cd \<longleftrightarrow> (\<forall>side. length (consumed_side side cd) = BOOK_DEPTH \<and>
     length (opposite_levels (cd_book cd) side) \<le> BOOK_DEPTH \<and>
     (\<forall>i < length (opposite_levels (cd_book cd) side).
        consumed_side side cd ! i \<le> q_value (bl_quantity (opposite_levels (cd_book cd) side ! i))))"

lemma consumed_side_with [simp]:
  "consumed_side side (with_consumed_side side' c cd) = (if side = side' then c else consumed_side side cd)"
  "cd_book (with_consumed_side side' c cd) = cd_book cd"
  by (cases side; cases side'; simp add: consumed_side_def with_consumed_side_def)+

text \<open>A list of fills on distinct levels adds to each level its own quantity.\<close>

lemma consume_levels:
  assumes "rfold consume_level c fills = Ok c'" and "distinct (map lf_level_index fills)"
    and "\<forall>f \<in> set fills. 1 \<le> lf_level_index f \<and> lf_level_index f \<le> length c"
  shows "length c' = length c \<and>
    (\<forall>i < length c. c' ! i = c ! i + (\<Sum>f \<leftarrow> filter (\<lambda>f. lf_level_index f = Suc i) fills. q_value (lf_quantity f))) \<and>
    sum_list c' = sum_list c + (\<Sum>f \<leftarrow> fills. q_value (lf_quantity f))"
  using assms
proof (induction fills arbitrary: c)
  case (Cons f fills)
  let ?i = "lf_level_index f - 1"
  let ?c = "c[?i := c ! ?i + q_value (lf_quantity f)]"
  have i: "?i < length c" "lf_level_index f = Suc ?i" using Cons.prems(3) by auto
  have rest: "rfold consume_level ?c fills = Ok c'"
    using Cons.prems(1) by (auto simp: consume_level_def [of c f] Let_def)
  note ih = Cons.IH [OF rest]
  have none: "filter (\<lambda>g. lf_level_index g = lf_level_index f) fills = []"
    using Cons.prems(2) by (simp add: filter_empty_conv) (metis image_eqI)
  have "sum_list ?c = sum_list c + q_value (lf_quantity f)"
    using i(1) sum_list_update [OF i(1), of "c ! ?i + q_value (lf_quantity f)"] by (simp add: member_le_sum_list)
  moreover have "c' ! j = c ! j + (\<Sum>g \<leftarrow> filter (\<lambda>g. lf_level_index g = Suc j) (f # fills). q_value (lf_quantity g))"
    if "j < length c" for j
  proof (cases "j = ?i")
    case True
    then have "filter (\<lambda>g. lf_level_index g = Suc j) fills = []" using none i(2) by simp
    then show ?thesis using ih Cons.prems that True i by simp
  next
    case False
    then show ?thesis using ih Cons.prems that i by auto
  qed
  ultimately show ?case using ih Cons.prems by simp
qed simp

lemma taken_upto_Suc:
  "taken_upto (Suc i) fills = taken_upto i fills + (\<Sum>f \<leftarrow> filter (\<lambda>f. lf_level_index f = Suc i) fills. q_value (lf_quantity f))"
  unfolding taken_upto_def by (induction fills) auto

lemma reachable_prefix:
  "reachable_levels side ot delta (take n ls) = take (length (reachable_levels side ot delta (take n ls))) ls"
  unfolding reachable_levels_def
  by (metis (no_types, lifting) append_eq_conv_conj append_take_drop_id takeWhile_dropWhile_id append_assoc)

text \<open>
  What a sweep takes of a level is at most what is left of it; the level's fills stay within the depth of
  the book.
\<close>

lemma sweep_fills_bounded:
  assumes sw: "sweep_marketable_depth_with_consumed book side requested n ot delta c = Ok sw"
    and depth: "length (opposite_levels book side) \<le> BOOK_DEPTH"
  shows "distinct (map lf_level_index (sw_fills sw))"
    and "\<And>f. f \<in> set (sw_fills sw) \<Longrightarrow> 1 \<le> lf_level_index f \<and> lf_level_index f \<le> length (opposite_levels book side) \<and>
      lf_level_index f \<le> BOOK_DEPTH \<and> 0 < q_value (lf_quantity f) \<and> q_unit (lf_quantity f) = q_unit requested"
    and "\<And>i. i < length (opposite_levels book side) \<Longrightarrow>
      (\<Sum>f \<leftarrow> filter (\<lambda>f. lf_level_index f = Suc i) (sw_fills sw). q_value (lf_quantity f)) \<le>
        q_value (bl_quantity (opposite_levels book side ! i)) - c ! i"
    and "(\<Sum>f \<leftarrow> sw_fills sw. q_value (lf_quantity f)) = sw_filled_value sw"
    and "sw_requested sw = requested" and "sw_filled_value sw \<le> q_value requested"
proof -
  define ls where "ls = opposite_levels book side"
  define ms where "ms = reachable_levels side ot delta (take n ls)"
  obtain r where r: "sweep_levels side ot delta (q_unit requested) c 0 (q_value requested) (take n ls) = Ok (sw_fills sw, r)"
    and req: "sw_requested sw = requested" "sw_filled_value sw = q_value requested - r"
    using sw unfolding ls_def by (rule sweep_Ok)
  note spec = sweep_levels_spec [OF r, folded ms_def, simplified]
  have ms: "ms = take (length ms) ls" unfolding ms_def by (rule reachable_prefix)
  have len: "length ms \<le> length ls" using ms by (metis length_take min.cobounded1)
  show "distinct (map lf_level_index (sw_fills sw))" using spec by (simp add: strict_sorted_iff)
  show "1 \<le> lf_level_index f \<and> lf_level_index f \<le> length (opposite_levels book side) \<and>
      lf_level_index f \<le> BOOK_DEPTH \<and> 0 < q_value (lf_quantity f) \<and> q_unit (lf_quantity f) = q_unit requested"
    if "f \<in> set (sw_fills sw)" for f
    using spec that len depth unfolding ls_def [symmetric] by fastforce
  show "sw_requested sw = requested" "sw_filled_value sw \<le> q_value requested" using req by simp_all
  show "(\<Sum>f \<leftarrow> sw_fills sw. q_value (lf_quantity f)) = sw_filled_value sw" using spec req(2) by (metis add_diff_cancel_left')
  show "(\<Sum>f \<leftarrow> filter (\<lambda>f. lf_level_index f = Suc i) (sw_fills sw). q_value (lf_quantity f)) \<le>
      q_value (bl_quantity (opposite_levels book side ! i)) - c ! i" if i: "i < length (opposite_levels book side)" for i
  proof (cases "i < length ms")
    case True
    have "taken_upto (Suc i) (sw_fills sw) = min (q_value requested) (offered c 0 ms (Suc i))"
      "taken_upto i (sw_fills sw) = min (q_value requested) (offered c 0 ms i)" using spec True by auto
    moreover have "offered c 0 ms (Suc i) = offered c 0 ms i + (q_value (bl_quantity (ms ! i)) - c ! i)"
      by (simp add: offered_def)
    moreover have "ms ! i = ls ! i" using True ms by (metis nth_take)
    moreover have "min (q_value requested) (x + y) \<le> min (q_value requested) x + y" for x y by simp
    ultimately have "taken_upto (Suc i) (sw_fills sw) \<le>
        taken_upto i (sw_fills sw) + (q_value (bl_quantity (ls ! i)) - c ! i)" by metis
    then show ?thesis using taken_upto_Suc [of i "sw_fills sw"] by (simp add: ls_def)
  next
    case False
    then have "filter (\<lambda>f. lf_level_index f = Suc i) (sw_fills sw) = []" using spec by (auto simp: filter_empty_conv)
    then show ?thesis by simp
  qed
qed

lemma sweep_fills_marketable:
  assumes "sweep_marketable_depth_with_consumed book side requested n ot delta c = Ok sw" and "f \<in> set (sw_fills sw)"
  shows "is_marketable (lf_price f) side ot"
proof -
  let ?ms = "reachable_levels side ot delta (take n (opposite_levels book side))"
  obtain r where "sweep_levels side ot delta (q_unit requested) c 0 (q_value requested) (take n (opposite_levels book side)) =
      Ok (sw_fills sw, r)" using assms(1) by (rule sweep_Ok)
  then have "lf_level_index f \<le> length ?ms" "0 < lf_level_index f"
      "lf_price f = adverse_price side delta (bl_price (?ms ! (lf_level_index f - Suc 0)))"
    using sweep_levels_spec assms(2) by fastforce+
  moreover have "is_marketable (adverse_price side delta (bl_price (?ms ! i))) side ot" if "i < length ?ms" for i
    using nth_mem [OF that] unfolding reachable_levels_def by (metis (no_types, lifting) set_takeWhileD)
  ultimately show ?thesis by simp
qed

text \<open>So consuming the fills of a sweep never takes a level beyond what it displays.\<close>

lemma sweep_consumption:
  assumes sw: "sweep_marketable_depth_with_consumed book side requested n ot delta c = Ok sw"
    and depth: "length (opposite_levels book side) \<le> BOOK_DEPTH" and len: "length c = BOOK_DEPTH"
    and below: "\<forall>i < length (opposite_levels book side). c ! i \<le> q_value (bl_quantity (opposite_levels book side ! i))"
    and c': "rfold consume_level c (sw_fills sw) = Ok c'"
  shows "length c' = BOOK_DEPTH" and "sum_list c' = sum_list c + sw_filled_value sw"
    and "\<forall>i < length (opposite_levels book side). c' ! i \<le> q_value (bl_quantity (opposite_levels book side ! i))"
proof -
  note fills = sweep_fills_bounded [OF sw depth]
  have "\<forall>f \<in> set (sw_fills sw). 1 \<le> lf_level_index f \<and> lf_level_index f \<le> length c" using fills(2) len by auto
  note con = consume_levels [OF c' fills(1) this]
  show "length c' = BOOK_DEPTH" "sum_list c' = sum_list c + sw_filled_value sw" using con len fills(4) by simp_all
  show "\<forall>i < length (opposite_levels book side). c' ! i \<le> q_value (bl_quantity (opposite_levels book side ! i))"
  proof (intro allI impI)
    fix i
    assume i: "i < length (opposite_levels book side)"
    then have "c' ! i = c ! i + (\<Sum>f \<leftarrow> filter (\<lambda>f. lf_level_index f = Suc i) (sw_fills sw). q_value (lf_quantity f))"
      using con len depth by simp
    then show "c' ! i \<le> q_value (bl_quantity (opposite_levels book side ! i))"
      using fills(3) [OF i] below [rule_format, OF i] by linarith
  qed
qed

lemma preview_apply:
  assumes inv: "depth_inv cd" and p: "depth_preview cd side requested n = Ok sw" and complete: "sweep_is_complete sw"
    and a: "depth_apply cd side sw = Ok cd'"
  shows "depth_inv cd' \<and> cd_book cd' = cd_book cd \<and> sw_filled_value sw = q_value requested \<and>
    (\<forall>s. sum_list (consumed_side s cd') = sum_list (consumed_side s cd) + (if s = side then q_value requested else 0))"
proof -
  obtain c' where c': "rfold consume_level (consumed_side side cd) (sw_fills sw) = Ok c'" and cd': "cd' = with_consumed_side side c' cd"
    using a by (auto simp: depth_apply_def)
  have len: "length (consumed_side side cd) = BOOK_DEPTH" and depth: "length (opposite_levels (cd_book cd) side) \<le> BOOK_DEPTH"
    and below: "\<forall>i < length (opposite_levels (cd_book cd) side).
      consumed_side side cd ! i \<le> q_value (bl_quantity (opposite_levels (cd_book cd) side ! i))"
    using inv by (auto simp: depth_inv_def)
  note con = sweep_consumption [OF p [unfolded depth_preview_def] depth len below c']
  have full: "sw_filled_value sw = q_value requested"
    using complete sweep_fills_bounded(5) [OF p [unfolded depth_preview_def] depth] by (simp add: sweep_is_complete_def)
  have "depth_inv cd'" using inv con unfolding depth_inv_def by (simp add: cd' split: if_splits)
  then show ?thesis using con full by (simp add: cd')
qed

section \<open>Atomic execution\<close>

lemma stage_books_get:
  assumes "stage_books books staged legs = Some st"
    and "\<forall>i cd. bm_get staged i = Some cd \<longrightarrow> bm_get books i = Some cd" and "bm_inv staged"
  shows "bm_inv st \<and> (\<forall>i cd. bm_get st i = Some cd \<longrightarrow> bm_get books i = Some cd)"
  using assms
proof (induction legs arbitrary: staged)
  case (Cons leg legs)
  obtain book where b: "bm_get books (al_instrument leg) = Some book"
    using Cons.prems(1) by (auto split: option.splits)
  let ?st = "if bm_get staged (al_instrument leg) = None then bm_insert (al_instrument leg) book staged else staged"
  have "stage_books books ?st legs = Some st" using Cons.prems(1) b by simp
  moreover have "\<forall>i cd. bm_get ?st i = Some cd \<longrightarrow> bm_get books i = Some cd" using Cons.prems(2) b by auto
  moreover have "bm_inv ?st" using Cons.prems(3) bm.inv_insert [OF Cons.prems(3)] by simp
  ultimately show ?case by (rule Cons.IH)
qed simp

definition leg_count :: "instrument_id \<Rightarrow> order_side \<Rightarrow> atomic_depth_leg list \<Rightarrow> nat" where
  "leg_count i side legs = length (filter (\<lambda>l. al_instrument l = i \<and> al_side l = side) legs)"

text \<open>How a book changes while legs are swept: only its consumption grows, by what the legs take.\<close>

definition swept :: "quantity \<Rightarrow> atomic_depth_leg list \<Rightarrow> instrument_id \<Rightarrow> consumable_depth \<Rightarrow> consumable_depth \<Rightarrow> bool" where
  "swept requested legs i cd cd' \<longleftrightarrow> depth_inv cd' \<and> cd_book cd' = cd_book cd \<and>
     (\<forall>side. sum_list (consumed_side side cd') = sum_list (consumed_side side cd) + q_value requested * leg_count i side legs)"

lemma sweep_legs_spec:
  assumes "sweep_legs requested n staged legs = Ok (Some (st, fills))" and "bm_inv staged"
    and "\<forall>i cd. bm_get staged i = Some cd \<longrightarrow> depth_inv cd"
  shows "bm_inv st \<and> map af_leg fills = legs \<and>
    (\<forall>f \<in> set fills. sw_filled_value (af_sweep f) = q_value requested) \<and>
    (\<forall>i \<in> al_instrument ` set legs. bm_get staged i \<noteq> None) \<and>
    (\<forall>i. case bm_get staged i of None \<Rightarrow> bm_get st i = None
          | Some cd \<Rightarrow> \<exists>cd'. bm_get st i = Some cd' \<and> swept requested legs i cd cd')"
  using assms
proof (induction legs arbitrary: staged fills)
  case Nil
  then show ?case by (auto simp: swept_def leg_count_def split: option.splits)
next
  case (Cons leg legs)
  let ?i = "al_instrument leg"
  obtain book sw book' fs where b: "bm_get staged ?i = Some book"
    and p: "depth_preview book (al_side leg) requested n = Ok sw" and complete: "sweep_is_complete sw"
    and a: "depth_apply book (al_side leg) sw = Ok book'"
    and rest: "sweep_legs requested n (bm_insert ?i book' staged) legs = Ok (Some (st, fs))"
    and fills: "fills = \<lparr>af_leg = leg, af_sweep = sw\<rparr> # fs"
    using Cons.prems(1) by (auto split: option.splits if_splits)
  have inv: "depth_inv book" using Cons.prems(3) b by blast
  note step = preview_apply [OF inv p complete a]
  have ih: "bm_inv st \<and> map af_leg fs = legs \<and>
    (\<forall>f \<in> set fs. sw_filled_value (af_sweep f) = q_value requested) \<and>
    (\<forall>i \<in> al_instrument ` set legs. bm_get (bm_insert ?i book' staged) i \<noteq> None) \<and>
    (\<forall>i. case bm_get (bm_insert ?i book' staged) i of None \<Rightarrow> bm_get st i = None
          | Some cd \<Rightarrow> \<exists>cd'. bm_get st i = Some cd' \<and> swept requested legs i cd cd')"
    using Cons.prems(2,3) step by (intro Cons.IH [OF rest]) (auto simp: bm.inv_insert)
  have "case bm_get staged i of None \<Rightarrow> bm_get st i = None
      | Some cd \<Rightarrow> \<exists>cd'. bm_get st i = Some cd' \<and> swept requested (leg # legs) i cd cd'" for i
  proof (cases "i = ?i")
    case True
    have "case bm_get (bm_insert ?i book' staged) i of None \<Rightarrow> bm_get st i = None
          | Some cd \<Rightarrow> \<exists>cd'. bm_get st i = Some cd' \<and> swept requested legs i cd cd'" using ih by blast
    then obtain cd' where "bm_get st i = Some cd'" "swept requested legs i book' cd'" using True by auto
    then show ?thesis using step b True by (auto simp: swept_def leg_count_def)
  next
    case False
    then have "swept requested (leg # legs) i cd cd' = swept requested legs i cd cd'" for cd cd'
      by (simp add: swept_def leg_count_def)
    moreover have "case bm_get (bm_insert ?i book' staged) i of None \<Rightarrow> bm_get st i = None
          | Some cd \<Rightarrow> \<exists>cd'. bm_get st i = Some cd' \<and> swept requested legs i cd cd'" using ih by blast
    ultimately show ?thesis using False by (simp split: option.splits)
  qed
  moreover have "\<forall>i \<in> al_instrument ` set (leg # legs). bm_get staged i \<noteq> None"
    using ih b by (auto split: if_splits)
  ultimately show ?case using ih step fills by simp
qed

lemma map_of_rev_distinct: "distinct (map fst xs) \<Longrightarrow> map_of (rev xs) = map_of xs"
  by (subst map_of_inject_set) (simp_all flip: rev_map)

text \<open>
  C27: atomic depth execution is all or nothing. When a leg's book is missing, a leg cannot be filled
  completely or a sweep fails, every book is left as it was. Otherwise each leg is filled with exactly
  the requested quantity, each book keeps its snapshot, its consumption grows on each side by the requested
  quantity per leg on that side (nothing where there is no leg), and no level is ever consumed beyond
  what it displays.
\<close>

theorem atomic_depth_all_or_nothing:
  assumes "execute_atomic_depth books legs requested n = (books', res)"
    and "\<forall>i cd. bm_get books i = Some cd \<longrightarrow> depth_inv cd"
  shows "case res of
      Ok (Some fills) \<Rightarrow> map af_leg fills = legs \<and>
        (\<forall>f \<in> set fills. sw_filled_value (af_sweep f) = q_value requested) \<and>
        (\<forall>i cd. bm_get books i = Some cd \<longrightarrow> (\<exists>cd'. bm_get books' i = Some cd' \<and> depth_inv cd' \<and>
           cd_book cd' = cd_book cd \<and>
           (\<forall>side. sum_list (consumed_side side cd') = sum_list (consumed_side side cd) +
              q_value requested * length (filter (\<lambda>l. al_instrument l = i \<and> al_side l = side) legs))))
    | _ \<Rightarrow> books' = books"
proof (cases "\<exists>fills. res = Ok (Some fills)")
  case False
  then show ?thesis using assms(1)
    by (auto simp: execute_atomic_depth_def split: option.splits result.splits)
next
  case True
  then obtain fills where res: "res = Ok (Some fills)" by blast
  then obtain staged st where stage: "stage_books books [] legs = Some staged"
    and sweep: "sweep_legs requested n staged legs = Ok (Some (st, fills))"
    and books': "books' = fold (\<lambda>(i, b). bm_insert i b) st books"
    using assms(1) by (auto simp: execute_atomic_depth_def split: option.splits result.splits)
  have staged: "bm_inv staged" "\<forall>i cd. bm_get staged i = Some cd \<longrightarrow> bm_get books i = Some cd"
    using stage_books_get [OF stage] by (simp_all add: bm.inv_empty bm.get_empty)
  note sp0 = sweep_legs_spec [OF sweep staged(1)]
  have sp: "bm_inv st \<and> map af_leg fills = legs \<and>
    (\<forall>f \<in> set fills. sw_filled_value (af_sweep f) = q_value requested) \<and>
    (\<forall>i \<in> al_instrument ` set legs. bm_get staged i \<noteq> None) \<and>
    (\<forall>i. case bm_get staged i of None \<Rightarrow> bm_get st i = None
          | Some cd \<Rightarrow> \<exists>cd'. bm_get st i = Some cd' \<and> swept requested legs i cd cd')"
    using sp0 staged(2) assms(2) by blast
  have get: "bm_get books' i = (case bm_get st i of None \<Rightarrow> bm_get books i | Some b \<Rightarrow> Some b)" for i
    unfolding books' bm.get_collect using bm.keys_distinct [of st] sp by (simp add: map_of_rev_distinct bm_get_def)
  have "\<exists>cd'. bm_get books' i = Some cd' \<and> swept requested legs i cd cd'" if cd: "bm_get books i = Some cd" for i cd
  proof (cases "bm_get staged i")
    case None
    have "case bm_get staged i of None \<Rightarrow> bm_get st i = None
          | Some cd \<Rightarrow> \<exists>cd'. bm_get st i = Some cd' \<and> swept requested legs i cd cd'" using sp by blast
    then have "bm_get st i = None" "i \<notin> al_instrument ` set legs" using sp None by auto
    then have "leg_count i side legs = 0" for side by (auto simp: leg_count_def filter_empty_conv)
    moreover have "depth_inv cd" using assms(2) cd by blast
    ultimately show ?thesis using get [of i] cd \<open>bm_get st i = None\<close> by (simp add: swept_def)
  next
    case (Some x)
    then have "bm_get books i = Some x" using staged(2) by blast
    then have "x = cd" using cd by simp
    moreover have "case bm_get staged i of None \<Rightarrow> bm_get st i = None
          | Some cd \<Rightarrow> \<exists>cd'. bm_get st i = Some cd' \<and> swept requested legs i cd cd'" using sp by blast
    ultimately obtain cd' where "bm_get st i = Some cd'" "swept requested legs i cd cd'" using Some by auto
    then show ?thesis using get by simp
  qed
  then show ?thesis using sp unfolding res swept_def leg_count_def by simp
qed

theorem atomic_depth_all_or_nothing_witness:
  "\<exists>books' fills. execute_atomic_depth [((Twse, ''2330''), consumable_depth_new sample_book)]
       [\<lparr>al_instrument = (Twse, ''2330''), al_side = Buy\<rparr>] \<lparr>q_value = 4, q_unit = Share\<rparr> 5 = (books', Ok (Some fills)) \<and>
     (\<exists>cd'. bm_get books' (Twse, ''2330'') = Some cd' \<and> depth_inv cd' \<and> sum_list (consumed_side Buy cd') = 4)"
proof -
  let ?books = "[((Twse, ''2330''), consumable_depth_new sample_book)]"
  let ?legs = "[\<lparr>al_instrument = (Twse, ''2330''), al_side = Buy\<rparr>]"
  have "\<exists>books' fills. execute_atomic_depth ?books ?legs \<lparr>q_value = 4, q_unit = Share\<rparr> 5 = (books', Ok (Some fills))"
    by (simp add: execute_atomic_depth_def bm_get_def depth_preview_def depth_apply_def consumable_depth_new_def
        consumed_side_def with_consumed_side_def sweep_is_complete_def consume_level_def checked_u64_def in_u64_def depth_eval)
  then obtain books' fills where
    e: "execute_atomic_depth ?books ?legs \<lparr>q_value = 4, q_unit = Share\<rparr> 5 = (books', Ok (Some fills))" by blast
  have "depth_inv (consumable_depth_new sample_book)"
    unfolding depth_inv_def
  proof
    fix side
    show "length (consumed_side side (consumable_depth_new sample_book)) = BOOK_DEPTH \<and>
      length (opposite_levels (cd_book (consumable_depth_new sample_book)) side) \<le> BOOK_DEPTH \<and>
      (\<forall>i < length (opposite_levels (cd_book (consumable_depth_new sample_book)) side).
        consumed_side side (consumable_depth_new sample_book) ! i \<le>
          q_value (bl_quantity (opposite_levels (cd_book (consumable_depth_new sample_book)) side ! i)))"
      by (cases side) (auto simp: consumed_side_def consumable_depth_new_def opposite_levels_def side_levels_def
          sample_book_def BOOK_DEPTH_def nth_Cons' less_Suc_eq)
  qed
  then have inv: "\<forall>i cd. bm_get ?books i = Some cd \<longrightarrow> depth_inv cd" by (simp add: bm_get_def)
  have get: "bm_get ?books (Twse, ''2330'') = Some (consumable_depth_new sample_book)" by (simp add: bm_get_def)
  have "sum_list (consumed_side Buy (consumable_depth_new sample_book)) = 0"
    by (simp add: consumed_side_def consumable_depth_new_def)
  then show ?thesis using e get atomic_depth_all_or_nothing [OF e inv] by fastforce
qed

end
