(* ===== verification/Replay.thy ===== *)
theory Replay
  imports ReplayPlan
begin

text \<open>
  The replay core of \<open>crates/replay-engine/src/engine.rs\<close>. The state is the record \<open>replay_core\<close>
  with the fields of \<open>ReplayCore\<close>; every \<open>&mut self\<close> operation returns its result and the core after
  it. An event stream (\<open>stream.rs\<close>) is the list of answers its \<open>next_event\<close> calls give before the
  final \<open>Ok(None)\<close>; streams that never end are outside the model. A stream factory is a function that
  passes its own state along, and so is the callback of the merge.

  The binary heap of the merge holds pairs of a key and a stream index under \<open>Reverse\<close>; popping it
  gives the least pair, so the model keeps the pairs in ascending order.
\<close>

section \<open>Model\<close>

datatype replay_error =
    EmptyUniverse
  | DuplicateInstrument
  | ReducerConfigurationMismatch
  | InvalidContextSchedule
  | EventOutsideContextSchedule instrument_id int
  | StateTradingDateMismatch
  | ReplayAlreadyStarted
  | InstrumentOutsideUniverse
  | ReplayOrdering ordering_error
  | ReplayCanonicalEncoding canonical_encoding_error
  | GlobalOrderingRegression
  | EventFingerprintCollision
  | EventOrdinalOverflow
  | ReplayStateTransition state_transition_error
  | ReplayFinalStateEncoding final_state_encoding_error
  | PlanOutsideUniverse
  | PlanTradingDateMismatch
  | StreamOpen string
  | StreamFailed string
  | CallbackFailed string
  | MergeHeadMissing \<comment> \<open>the panic of \<open>expect("selected merge head is present")\<close>\<close>

subsection \<open>Context windows and the clock\<close>

record replay_context_window =
  cw_start :: int
  cw_end_exclusive :: int
  cw_context :: reducer_context

datatype replay_context_window_error = InvalidRange

definition replay_context_window_new ::
  "int \<Rightarrow> int \<Rightarrow> reducer_context \<Rightarrow> (replay_context_window, replay_context_window_error) result" where
  "replay_context_window_new start end_exclusive ctxt =
     (if start \<ge> end_exclusive then Err InvalidRange
      else Ok \<lparr>cw_start = start, cw_end_exclusive = end_exclusive, cw_context = ctxt\<rparr>)"

datatype replay_clock = Unstarted | At int nat

fun event_ordinal :: "replay_clock \<Rightarrow> nat" where
  "event_ordinal Unstarted = 0"
| "event_ordinal (At t n) = n"

fun clock_match_time :: "replay_clock \<Rightarrow> int option" where
  "clock_match_time Unstarted = None"
| "clock_match_time (At t n) = Some t"

record event_occurrence =
  eo_run_event_ordinal :: nat
  eo_ordering_key :: ordering_key
  eo_event_fingerprint :: bytes
  eo_instrument_state_version :: nat

record core_commit =
  cc_occurrence :: event_occurrence
  cc_transition :: transition_receipt

record replay_core =
  co_states :: "(instrument_id, market_state) bmap"
  co_reducers :: "(instrument_id, market_state_profile) bmap"
  co_reducer_contexts :: "(instrument_id, reducer_context) bmap"
  co_reducer_context_windows :: "(instrument_id, replay_context_window list) bmap"
  co_clock :: replay_clock
  co_last_ordering_key :: "ordering_key option"
  co_last_canonical_event :: "bytes option"
  co_event_stream :: replay_event_stream_hasher
  co_first_match_time :: "int option"

subsection \<open>Construction\<close>

definition insert_state ::
  "(instrument_id, market_state) bmap \<Rightarrow> market_state \<Rightarrow> ((instrument_id, market_state) bmap, replay_error) result" where
  "insert_state m s =
     (if bm_get m (st_instrument s) \<noteq> None then Err DuplicateInstrument
      else Ok (bm_insert (st_instrument s) s m))"

definition insert_schedule ::
  "instrument_id list \<Rightarrow> (instrument_id, replay_context_window list) bmap \<Rightarrow>
   instrument_id \<times> replay_context_window list \<Rightarrow>
   ((instrument_id, replay_context_window list) bmap, replay_error) result" where
  "insert_schedule universe m schedule =
     (let instrument = fst schedule; windows = sort_key cw_start (snd schedule) in
      if instrument \<notin> set universe then Err ReducerConfigurationMismatch
      else if any_adjacent (\<lambda>a b. cw_end_exclusive a > cw_start b) windows then Err InvalidContextSchedule
      else if bm_get m instrument \<noteq> None then Err InvalidContextSchedule
      else Ok (bm_insert instrument windows m))"

definition replay_core_new_multi_with_schedules ::
  "market_state list \<Rightarrow> (instrument_id \<times> market_state_profile) list \<Rightarrow>
   (instrument_id \<times> reducer_context) list \<Rightarrow> (instrument_id \<times> replay_context_window list) list \<Rightarrow>
   (replay_core, replay_error) result" where
  "replay_core_new_multi_with_schedules states reducers contexts schedules =
     (if states = [] then Err EmptyUniverse
      else rbind (rfold insert_state [] states) (\<lambda>by_instrument.
        let reducer_map = bm_collect reducers; context_map = bm_collect contexts in
        if length reducer_map \<noteq> length by_instrument \<or> length reducers \<noteq> length reducer_map \<or>
           length context_map \<noteq> length by_instrument \<or> length contexts \<noteq> length context_map \<or>
           list_ex (\<lambda>i. bm_get reducer_map i = None \<or> bm_get context_map i = None) (bm_keys by_instrument)
        then Err ReducerConfigurationMismatch
        else if list_ex (\<lambda>(i, s). case bm_get context_map i of
               None \<Rightarrow> True | Some c \<Rightarrow> rc_trading_date c \<noteq> st_trading_date s) by_instrument
        then Err StateTradingDateMismatch
        else rbind (rfold (insert_schedule (bm_keys by_instrument)) [] schedules) (\<lambda>windows.
          Ok \<lparr>co_states = by_instrument, co_reducers = reducer_map, co_reducer_contexts = context_map,
              co_reducer_context_windows = windows, co_clock = Unstarted, co_last_ordering_key = None,
              co_last_canonical_event = None, co_event_stream = hasher_new, co_first_match_time = None\<rparr>)))"

definition replay_core_new_multi ::
  "market_state list \<Rightarrow> (instrument_id \<times> market_state_profile) list \<Rightarrow>
   (instrument_id \<times> reducer_context) list \<Rightarrow> (replay_core, replay_error) result" where
  "replay_core_new_multi states reducers contexts =
     replay_core_new_multi_with_schedules states reducers contexts []"

definition replay_core_new ::
  "market_state list \<Rightarrow> market_state_profile \<Rightarrow> reducer_context \<Rightarrow> (replay_core, replay_error) result" where
  "replay_core_new states reducer ctxt =
     replay_core_new_multi states (map (\<lambda>s. (st_instrument s, reducer)) states)
       (map (\<lambda>s. (st_instrument s, ctxt)) states)"

definition fork_unstarted :: "replay_core \<Rightarrow> (replay_core, replay_error) result" where
  "fork_unstarted core =
     (if co_clock core \<noteq> Unstarted then Err ReplayAlreadyStarted
      else replay_core_new_multi_with_schedules (bm_values (co_states core)) (co_reducers core)
             (co_reducer_contexts core) (co_reducer_context_windows core))"

subsection \<open>Applying one event\<close>

definition validate_global_order :: "replay_core \<Rightarrow> ordering_key \<Rightarrow> bytes \<Rightarrow> (unit, replay_error) result" where
  "validate_global_order core current canonical =
     (case co_last_ordering_key core of
        None \<Rightarrow> Ok ()
      | Some previous \<Rightarrow>
          if current < previous then Err GlobalOrderingRegression
          else if current = previous \<and> co_last_canonical_event core \<noteq> Some canonical
          then Err EventFingerprintCollision
          else Ok ())"

definition context_for_event :: "replay_core \<Rightarrow> instrument_id \<Rightarrow> int \<Rightarrow> reducer_context option" where
  "context_for_event core instrument t =
     (case bm_get (co_reducer_context_windows core) instrument of
        Some windows \<Rightarrow> map_option cw_context (find (\<lambda>w. cw_start w \<le> t \<and> t < cw_end_exclusive w) windows)
      | None \<Rightarrow> bm_get (co_reducer_contexts core) instrument)"

definition transition_base :: "market_state \<Rightarrow> domain_event \<Rightarrow> market_state" where
  "transition_base state e =
     (if st_trading_date state = ev_trading_date e then state
      else market_state_new (ev_instrument e) (ev_trading_date e))"

definition commit_event ::
  "replay_core \<Rightarrow> domain_event \<Rightarrow> ordering_key \<Rightarrow> bytes \<times> nat \<Rightarrow> nat \<Rightarrow> market_state \<Rightarrow> replay_core" where
  "commit_event core e key record next_ordinal state =
     core\<lparr>co_states := bm_insert (ev_instrument e) state (co_states core),
          co_event_stream := append_prepared record (co_event_stream core),
          co_clock := At (ev_match_time e) next_ordinal,
          co_first_match_time := (case co_first_match_time core of None \<Rightarrow> Some (ev_match_time e) | Some t \<Rightarrow> Some t),
          co_last_ordering_key := Some key,
          co_last_canonical_event := Some (fst record)\<rparr>"

definition prepare_transition ::
  "(bytes \<Rightarrow> bytes) \<Rightarrow> replay_core \<Rightarrow> domain_event \<Rightarrow> ordering_key \<Rightarrow> bytes \<Rightarrow>
   ((bytes \<times> nat) \<times> nat \<times> transition_receipt \<times> market_state, replay_error) result" where
  "prepare_transition hash core e key canonical =
     rbind (map_err ReplayCanonicalEncoding (prepare_canonical canonical)) (\<lambda>record.
     rbind (validate_global_order core key (fst record)) (\<lambda>_.
     rbind (ok_or (bm_get (co_states core) (ev_instrument e)) InstrumentOutsideUniverse) (\<lambda>state.
     rbind (ok_or (checked_u64 (event_ordinal (co_clock core) + 1)) EventOrdinalOverflow) (\<lambda>next_ordinal.
     rbind (ok_or (context_for_event core (ev_instrument e) (ev_match_time e))
              (EventOutsideContextSchedule (ev_instrument e) (ev_match_time e))) (\<lambda>ctxt.
     rbind (ok_or (bm_get (co_reducers core) (ev_instrument e)) ReducerConfigurationMismatch) (\<lambda>reducer.
       case apply_event hash reducer (transition_base state e) e ctxt of
         (Err err, _) \<Rightarrow> Err (ReplayStateTransition err)
       | (Ok receipt, state') \<Rightarrow> Ok (record, next_ordinal, receipt, state')))))))"

definition apply_prepared_ordered ::
  "(bytes \<Rightarrow> bytes) \<Rightarrow> replay_core \<Rightarrow> domain_event \<Rightarrow> ordering_key \<Rightarrow> bytes \<Rightarrow>
   (core_commit, replay_error) result \<times> replay_core" where
  "apply_prepared_ordered hash core e key canonical =
     (case prepare_transition hash core e key canonical of
        Err err \<Rightarrow> (Err err, core)
      | Ok (record, next_ordinal, receipt, state) \<Rightarrow>
          (Ok \<lparr>cc_occurrence = \<lparr>eo_run_event_ordinal = next_ordinal, eo_ordering_key = key,
                 eo_event_fingerprint = ok_event_fingerprint key, eo_instrument_state_version = tr_new_version receipt\<rparr>,
               cc_transition = receipt\<rparr>,
           commit_event core e key record next_ordinal state))"

definition apply_ordered ::
  "(bytes \<Rightarrow> bytes) \<Rightarrow> replay_core \<Rightarrow> domain_event \<Rightarrow> (core_commit, replay_error) result \<times> replay_core" where
  "apply_ordered hash core e =
     (case for_event_and_canonical hash e of
        Err err \<Rightarrow> (Err (ReplayOrdering err), core)
      | Ok (key, canonical) \<Rightarrow> apply_prepared_ordered hash core e key canonical)"

subsection \<open>Replaying sequences and streams\<close>

fun apply_all :: "(bytes \<Rightarrow> bytes) \<Rightarrow> replay_core \<Rightarrow> domain_event list \<Rightarrow> (unit, replay_error) result \<times> replay_core" where
  "apply_all hash core [] = (Ok (), core)"
| "apply_all hash core (e # es) =
     (case apply_ordered hash core e of
        (Err err, core') \<Rightarrow> (Err err, core')
      | (Ok _, core') \<Rightarrow> apply_all hash core' es)"

definition replay ::
  "(prepared_order_event list \<Rightarrow> prepared_order_event list) \<Rightarrow> (bytes \<Rightarrow> bytes) \<Rightarrow> domain_event list \<Rightarrow> replay_core \<Rightarrow>
   (unit, replay_error) result \<times> replay_core" where
  "replay sort_unstable hash events core =
     (case order_events sort_unstable hash events of
        Err err \<Rightarrow> (Err (ReplayOrdering err), core)
      | Ok ordered \<Rightarrow> apply_all hash core ordered)"

type_synonym event_stream = "(domain_event, string) result list"

fun next_event :: "event_stream \<Rightarrow> (domain_event option, string) result \<times> event_stream" where
  "next_event [] = (Ok None, [])"
| "next_event (Ok e # s) = (Ok (Some e), s)"
| "next_event (Err m # s) = (Err m, s)"

fun replay_stream ::
  "(bytes \<Rightarrow> bytes) \<Rightarrow> event_stream \<Rightarrow> replay_core \<Rightarrow> (unit, replay_error) result \<times> replay_core" where
  "replay_stream hash [] core = (Ok (), core)"
| "replay_stream hash (Err m # s) core = (Err (StreamFailed m), core)"
| "replay_stream hash (Ok e # s) core =
     (case apply_ordered hash core e of
        (Err err, core') \<Rightarrow> (Err err, core')
      | (Ok _, core') \<Rightarrow> replay_stream hash s core')"

type_synonym 'f stream_factory = "replay_stream_binding \<Rightarrow> 'f \<Rightarrow> (event_stream, string) result \<times> 'f"

definition replay_frozen ::
  "(bytes \<Rightarrow> bytes) \<Rightarrow> 'f stream_factory \<Rightarrow> replay_plan \<Rightarrow> 'f \<Rightarrow> replay_core \<Rightarrow>
   (unit, replay_error) result \<times> replay_core" where
  "replay_frozen hash factory plan f core =
     (let binding = hd (rp_bindings plan) in
      case bm_get (co_states core) (rb_instrument binding) of
        None \<Rightarrow> (Err PlanOutsideUniverse, core)
      | Some state \<Rightarrow>
          if st_trading_date state \<noteq> rb_trading_date binding then (Err PlanTradingDateMismatch, core)
          else case fst (factory binding f) of
            Err m \<Rightarrow> (Err (StreamOpen m), core)
          | Ok stream \<Rightarrow> replay_stream hash stream core)"

subsection \<open>The merge of several streams\<close>

definition has_scheduled_trading_date :: "replay_core \<Rightarrow> instrument_id \<Rightarrow> int \<Rightarrow> bool" where
  "has_scheduled_trading_date core instrument date =
     (case bm_get (co_reducer_context_windows core) instrument of
        None \<Rightarrow> False
      | Some windows \<Rightarrow> list_ex (\<lambda>w. rc_trading_date (cw_context w) = date) windows)"

definition check_binding :: "replay_core \<Rightarrow> replay_stream_binding \<Rightarrow> (unit, replay_error) result" where
  "check_binding core b =
     rbind (ok_or (bm_get (co_states core) (rb_instrument b)) PlanOutsideUniverse) (\<lambda>state.
       if st_trading_date state \<noteq> rb_trading_date b \<and>
          \<not> has_scheduled_trading_date core (rb_instrument b) (rb_trading_date b)
       then Err PlanTradingDateMismatch else Ok ())"

fun open_streams ::
  "replay_core \<Rightarrow> 'f stream_factory \<Rightarrow> replay_stream_binding list \<Rightarrow> 'f \<Rightarrow> (event_stream list, replay_error) result" where
  "open_streams core factory [] f = Ok []"
| "open_streams core factory (b # bs) f =
     rbind (check_binding core b) (\<lambda>_.
       rbind (map_err StreamOpen (fst (factory b f))) (\<lambda>s.
         rbind (open_streams core factory bs (snd (factory b f))) (\<lambda>ss. Ok (s # ss))))"

type_synonym merge_head = "(domain_event \<times> bytes) option"

fun prime_heads ::
  "(bytes \<Rightarrow> bytes) \<Rightarrow> nat \<Rightarrow> event_stream list \<Rightarrow>
   (event_stream list \<times> merge_head list \<times> (ordering_key \<times> nat) list, replay_error) result" where
  "prime_heads hash index [] = Ok ([], [], [])"
| "prime_heads hash index (s # ss) =
     (case next_event s of
        (Err m, _) \<Rightarrow> Err (StreamFailed m)
      | (Ok None, s') \<Rightarrow>
          rbind (prime_heads hash (Suc index) ss) (\<lambda>(streams, heads, pending).
            Ok (s' # streams, None # heads, pending))
      | (Ok (Some e), s') \<Rightarrow>
          rbind (map_err ReplayOrdering (for_event_and_canonical hash e)) (\<lambda>(key, canonical).
            rbind (prime_heads hash (Suc index) ss) (\<lambda>(streams, heads, pending).
              Ok (s' # streams, Some (e, canonical) # heads, insort (key, index) pending))))"

type_synonym 'c replay_callback =
  "replay_core \<Rightarrow> domain_event \<Rightarrow> core_commit \<Rightarrow> 'c \<Rightarrow> (unit, string) result \<times> replay_core \<times> 'c"

lemma consumed_length:
  assumes "i < length streams" "streams ! i = x # s"
  shows "sum_list (map length (streams[i := s])) < sum_list (map length streams)"
proof -
  have "length (streams ! i) \<le> sum_list (map length streams)"
    using assms(1) elem_le_sum_list [of i "map length streams"] by simp
  then show ?thesis using assms by (simp add: map_update sum_list_update)
qed

function merge_loop ::
  "(bytes \<Rightarrow> bytes) \<Rightarrow> 'c replay_callback \<Rightarrow> event_stream list \<Rightarrow> merge_head list \<Rightarrow> (ordering_key \<times> nat) list \<Rightarrow>
   replay_core \<Rightarrow> 'c \<Rightarrow> (unit, replay_error) result \<times> replay_core \<times> 'c" where
  "merge_loop hash callback streams heads [] core c = (Ok (), core, c)"
| "merge_loop hash callback streams heads ((key, i) # pending) core c =
     (if i \<ge> length streams \<or> i \<ge> length heads then (Err MergeHeadMissing, core, c)
      else case heads ! i of
        None \<Rightarrow> (Err MergeHeadMissing, core, c)
      | Some (e, canonical) \<Rightarrow>
          (case apply_prepared_ordered hash core e key canonical of
             (Err err, core') \<Rightarrow> (Err err, core', c)
           | (Ok committed, core') \<Rightarrow>
               (case callback core' e committed c of
                  (Err m, core'', c') \<Rightarrow> (Err (CallbackFailed m), core'', c')
                | (Ok _, core'', c') \<Rightarrow>
                    (case streams ! i of
                       [] \<Rightarrow> merge_loop hash callback streams (heads[i := None]) pending core'' c'
                     | Err m # s \<Rightarrow> (Err (StreamFailed m), core'', c')
                     | Ok next # s \<Rightarrow>
                         (case for_event_and_canonical hash next of
                            Err err \<Rightarrow> (Err (ReplayOrdering err), core'', c')
                          | Ok (key', canonical') \<Rightarrow>
                              merge_loop hash callback (streams[i := s]) (heads[i := Some (next, canonical')])
                                (insort (key', i) pending) core'' c')))))"
  by pat_completeness auto

termination
  by (relation "measure (\<lambda>(hash, callback, streams, heads, pending, core, c).
      sum_list (map length streams) + length pending)") (auto simp: not_le intro: consumed_length)

definition replay_frozen_multi_with ::
  "(bytes \<Rightarrow> bytes) \<Rightarrow> 'f stream_factory \<Rightarrow> 'c replay_callback \<Rightarrow> replay_plan \<Rightarrow> 'f \<Rightarrow> replay_core \<Rightarrow> 'c \<Rightarrow>
   (unit, replay_error) result \<times> replay_core \<times> 'c" where
  "replay_frozen_multi_with hash factory callback plan f core c =
     (case rbind (open_streams core factory (rp_bindings plan) f) (prime_heads hash 0) of
        Err err \<Rightarrow> (Err err, core, c)
      | Ok (streams, heads, pending) \<Rightarrow> merge_loop hash callback streams heads pending core c)"

definition replay_frozen_multi ::
  "(bytes \<Rightarrow> bytes) \<Rightarrow> 'f stream_factory \<Rightarrow> replay_plan \<Rightarrow> 'f \<Rightarrow> replay_core \<Rightarrow>
   (unit, replay_error) result \<times> replay_core" where
  "replay_frozen_multi hash factory plan f core =
     (case replay_frozen_multi_with hash factory (\<lambda>core e commit c. (Ok (), core, c)) plan f core () of
        (r, core', _) \<Rightarrow> (r, core'))"

subsection \<open>Completion\<close>

record replay_summary =
  su_event_count :: nat
  su_first_match_time :: "int option"
  su_last_match_time :: "int option"
  su_event_checksum :: bytes
  su_final_state_checksum :: bytes

definition complete_replay ::
  "(bytes \<Rightarrow> bytes) \<Rightarrow> replay_core \<Rightarrow> ((instrument_id, market_state) bmap \<times> replay_summary, replay_error) result" where
  "complete_replay hash core =
     rbind (map_err ReplayFinalStateEncoding (final_state_checksum hash (bm_values (co_states core)))) (\<lambda>final.
       Ok (co_states core,
         \<lparr>su_event_count = sh_event_count (co_event_stream core), su_first_match_time = co_first_match_time core,
          su_last_match_time = clock_match_time (co_clock core), su_event_checksum = stream_checksum hash (co_event_stream core),
          su_final_state_checksum = final\<rparr>))"

section \<open>One event\<close>

lemma prepare_transition_OkE:
  assumes "prepare_transition hash core e key canonical = Ok (rcd, n, receipt, s')"
  obtains s ctxt p where "rcd = (canonical, length canonical)" "in_u32 (length canonical)"
    and "validate_global_order core key canonical = Ok ()"
    and "bm_get (co_states core) (ev_instrument e) = Some s"
    and "n = Suc (event_ordinal (co_clock core))" "in_u64 n"
    and "context_for_event core (ev_instrument e) (ev_match_time e) = Some ctxt"
    and "bm_get (co_reducers core) (ev_instrument e) = Some p"
    and "apply_event hash p (transition_base s e) e ctxt = (Ok receipt, s')"
proof -
  have step: "(case x of (Err err, _) \<Rightarrow> Err (g err) | (Ok t, st) \<Rightarrow> Ok (a, m, t, st)) = Ok (rcd, n, receipt, s') \<longleftrightarrow>
      x = (Ok receipt, s') \<and> a = rcd \<and> m = n" for x :: "(transition_receipt, state_transition_error) result \<times> market_state"
    and g :: "state_transition_error \<Rightarrow> replay_error" and a m
    by (cases x; cases "fst x") auto
  show ?thesis
    using assms that unfolding prepare_transition_def rbind_eq_Ok step ok_or_eq_Ok map_err_eq_Ok
    by (auto simp: prepare_canonical_def split: if_splits)
qed

lemma prepare_transition_refused:
  assumes "prepare_transition hash core e key canonical = Err (ReplayStateTransition err)"
  obtains s p ctxt s' where "bm_get (co_states core) (ev_instrument e) = Some s"
    and "validate_global_order core key canonical = Ok ()"
    and "apply_event hash p (transition_base s e) e ctxt = (Err err, s')"
proof -
  have step: "(case x of (Err er, _) \<Rightarrow> Err (ReplayStateTransition er) | (Ok t, st) \<Rightarrow> Ok (a, m, t, st)) =
      Err (ReplayStateTransition err) \<longleftrightarrow> fst x = Err err"
    for x :: "(transition_receipt, state_transition_error) result \<times> market_state" and a :: "bytes \<times> nat" and m :: nat
    by (cases x; cases "fst x") auto
  have order: "validate_global_order core k c \<noteq> Err (ReplayStateTransition err)" for k c
    by (auto simp: validate_global_order_def split: option.splits)
  from assms obtain s p ctxt where "bm_get (co_states core) (ev_instrument e) = Some s"
      "validate_global_order core key canonical = Ok ()" "fst (apply_event hash p (transition_base s e) e ctxt) = Err err"
    unfolding prepare_transition_def rbind_eq_Err step map_err_eq_Err
    by (auto simp: prepare_canonical_def order split: if_splits)
  then show ?thesis using that by (metis prod.collapse)
qed

lemma apply_prepared_Ok:
  "apply_prepared_ordered hash core e key canonical = (Ok cm, core') \<longleftrightarrow>
     (\<exists>rcd n receipt s. prepare_transition hash core e key canonical = Ok (rcd, n, receipt, s) \<and>
        core' = commit_event core e key rcd n s \<and>
        cm = \<lparr>cc_occurrence = \<lparr>eo_run_event_ordinal = n, eo_ordering_key = key,
                 eo_event_fingerprint = ok_event_fingerprint key, eo_instrument_state_version = tr_new_version receipt\<rparr>,
               cc_transition = receipt\<rparr>)"
  by (auto simp: apply_prepared_ordered_def split: result.splits)

lemma apply_prepared_Err:
  "apply_prepared_ordered hash core e key canonical = (Err err, core') \<longleftrightarrow>
     prepare_transition hash core e key canonical = Err err \<and> core' = core"
  by (auto simp: apply_prepared_ordered_def split: result.splits)

lemma apply_ordered_Ok:
  "apply_ordered hash core e = (Ok cm, core') \<longleftrightarrow>
     (\<exists>key canonical. for_event_and_canonical hash e = Ok (key, canonical) \<and>
        apply_prepared_ordered hash core e key canonical = (Ok cm, core'))"
  by (auto simp: apply_ordered_def split: result.splits prod.splits)

lemma apply_ordered_Err:
  assumes "apply_ordered hash core e = (Err err, core')"
  shows "core' = core"
  using assms by (auto simp: apply_ordered_def apply_prepared_Err split: result.splits)

text \<open>
  Applying an event is atomic. A failure leaves the core exactly as it was; a success changes the
  state of the event's instrument only, keeps the configuration, and advances the ordinal of the clock
  and the count of hashed events by one.
\<close>

theorem apply_ordered_atomic:
  "case apply_ordered hash core e of
     (Err err, core') \<Rightarrow> core' = core
   | (Ok cm, core') \<Rightarrow>
       bm_get (co_states core') = (bm_get (co_states core))(ev_instrument e := bm_get (co_states core') (ev_instrument e)) \<and>
       co_reducers core' = co_reducers core \<and> co_reducer_contexts core' = co_reducer_contexts core \<and>
       co_reducer_context_windows core' = co_reducer_context_windows core \<and>
       event_ordinal (co_clock core') = event_ordinal (co_clock core) + 1 \<and>
       sh_event_count (co_event_stream core') = sh_event_count (co_event_stream core) + 1"
proof (cases "apply_ordered hash core e")
  case (Pair r core')
  show ?thesis
  proof (cases r)
    case (Err err)
    then show ?thesis using apply_ordered_Err Pair by fastforce
  next
    case (Ok cm)
    then obtain key canonical rcd n receipt s where
        pt: "prepare_transition hash core e key canonical = Ok (rcd, n, receipt, s)"
        and core': "core' = commit_event core e key rcd n s"
      using Pair by (auto simp: apply_ordered_Ok apply_prepared_Ok)
    have "n = Suc (event_ordinal (co_clock core))" using pt by (rule prepare_transition_OkE)
    then show ?thesis using Pair Ok by (auto simp: core' commit_event_def append_prepared_def fun_eq_iff)
  qed
qed

section \<open>Histories\<close>

definition unstarted_core :: "replay_core \<Rightarrow> bool" where
  "unstarted_core core \<longleftrightarrow> co_clock core = Unstarted \<and> co_last_ordering_key core = None \<and>
     co_event_stream core = hasher_new \<and> co_first_match_time core = None"

lemma new_unstarted:
  "replay_core_new_multi_with_schedules states reducers contexts schedules = Ok core \<Longrightarrow> unstarted_core core"
  by (auto simp: replay_core_new_multi_with_schedules_def Let_def unstarted_core_def split: if_splits)

lemma apply_all_snoc:
  "apply_all hash core (es @ [e]) = (Ok u, core'') \<longleftrightarrow>
     (\<exists>core' cm. apply_all hash core es = (Ok (), core') \<and> apply_ordered hash core' e = (Ok cm, core''))"
  by (induction es arbitrary: core) (auto split: prod.splits result.splits)

lemma apply_ordered_effect:
  assumes "apply_ordered hash core e = (Ok cm, core')"
  obtains key canonical s where "for_event_and_canonical hash e = Ok (key, canonical)"
    and "validate_global_order core key canonical = Ok ()"
    and "hash_event (co_event_stream core) e = Ok (co_event_stream core')"
    and "co_clock core' = At (ev_match_time e) (Suc (event_ordinal (co_clock core)))"
    and "co_last_ordering_key core' = Some key"
    and "co_first_match_time core' = (case co_first_match_time core of None \<Rightarrow> Some (ev_match_time e) | Some t \<Rightarrow> Some t)"
    and "co_states core' = bm_insert (ev_instrument e) s (co_states core)"
proof -
  obtain key canonical rcd n receipt s where k: "for_event_and_canonical hash e = Ok (key, canonical)"
      and pt: "prepare_transition hash core e key canonical = Ok (rcd, n, receipt, s)"
      and core': "core' = commit_event core e key rcd n s"
    using assms by (auto simp: apply_ordered_Ok apply_prepared_Ok)
  from pt show ?thesis
  proof (rule prepare_transition_OkE)
    assume a: "rcd = (canonical, length canonical)" "in_u32 (length canonical)"
      "validate_global_order core key canonical = Ok ()" "n = Suc (event_ordinal (co_clock core))"
    have "hash_event (co_event_stream core) e = Ok (co_event_stream core')"
      using k a by (simp add: hash_event_def for_event_and_canonical_Ok prepare_canonical_def core' commit_event_def)
    then show ?thesis using that k a by (simp add: core' commit_event_def)
  qed
qed

lemma global_order_Ok: "validate_global_order core key c = Ok () \<Longrightarrow> co_last_ordering_key core = Some l \<Longrightarrow> l \<le> key"
  by (auto simp: validate_global_order_def split: if_splits)

definition history_agrees :: "(bytes \<Rightarrow> bytes) \<Rightarrow> domain_event list \<Rightarrow> replay_core \<Rightarrow> bool" where
  "history_agrees hash es core \<longleftrightarrow>
     hash_events es = Ok (co_event_stream core) \<and> event_ordinal (co_clock core) = length es \<and>
     clock_match_time (co_clock core) = (if es = [] then None else Some (ev_match_time (last es))) \<and>
     co_first_match_time core = (if es = [] then None else Some (ev_match_time (hd es))) \<and>
     (\<exists>keys. map (for_event hash) es = map Ok keys \<and> sorted keys \<and>
        co_last_ordering_key core = (if keys = [] then None else Some (last keys)))"

lemma sorted_snoc: "sorted (xs @ [x]) \<longleftrightarrow> sorted xs \<and> (xs = [] \<or> last xs \<le> x)"
proof -
  have "\<forall>y \<in> set xs. y \<le> last xs" if "sorted xs"
    using that by (induction xs rule: rev_induct) (auto simp: sorted_append)
  then show ?thesis by (cases "xs = []") (auto simp: sorted_append intro: order_trans)
qed

lemma history_agrees_apply_all:
  assumes "unstarted_core core0" and "apply_all hash core0 es = (Ok (), core)"
  shows "history_agrees hash es core"
  using assms(2)
proof (induction es arbitrary: core rule: rev_induct)
  case Nil
  then show ?case using assms(1) by (simp add: unstarted_core_def history_agrees_def hash_events_def)
next
  case (snoc e es)
  obtain core' cm where step: "apply_all hash core0 es = (Ok (), core')" "apply_ordered hash core' e = (Ok cm, core)"
    using snoc.prems by (auto simp: apply_all_snoc)
  have IH: "history_agrees hash es core'" using snoc.IH step(1) by blast
  from step(2) show ?case
  proof (rule apply_ordered_effect)
    fix key canonical s
    assume e: "for_event_and_canonical hash e = Ok (key, canonical)" "validate_global_order core' key canonical = Ok ()"
        "hash_event (co_event_stream core') e = Ok (co_event_stream core)"
        "co_clock core = At (ev_match_time e) (Suc (event_ordinal (co_clock core')))"
        "co_last_ordering_key core = Some key"
        "co_first_match_time core = (case co_first_match_time core' of None \<Rightarrow> Some (ev_match_time e) | Some t \<Rightarrow> Some t)"
    obtain keys where keys: "map (for_event hash) es = map Ok keys" "sorted keys"
        "co_last_ordering_key core' = (if keys = [] then None else Some (last keys))"
      using IH by (auto simp: history_agrees_def)
    have "map (for_event hash) (es @ [e]) = map Ok (keys @ [key])"
      using keys(1) e(1) by (simp add: for_event_def)
    moreover have "sorted (keys @ [key])"
      using keys global_order_Ok [OF e(2)] by (auto simp: sorted_snoc split: if_splits)
    ultimately have "\<exists>ks. map (for_event hash) (es @ [e]) = map Ok ks \<and> sorted ks \<and>
        co_last_ordering_key core = (if ks = [] then None else Some (last ks))"
      using e(5) by (intro exI [of _ "keys @ [key]"]) simp
    moreover have "hash_events (es @ [e]) = Ok (co_event_stream core)"
      using IH e(3) by (simp add: history_agrees_def hash_events_def rfold_append)
    ultimately show ?case using IH e(4,6) by (auto simp: history_agrees_def hd_append)
  qed
qed

text \<open>
  C22: a completed replay reports exactly what it processed. When a fresh core applies a sequence of
  events without failure, the summary counts them, names the first and the last match time, its event
  checksum is the hash of the encoding of that very sequence, and the sequence was ascending in the
  ordering key.
\<close>

theorem replay_summary_exact:
  assumes "replay_core_new_multi_with_schedules states reducers contexts schedules = Ok core0"
    and "apply_all hash core0 es = (Ok (), core)"
  shows "\<exists>h keys. hash_events es = Ok h \<and> map (for_event hash) es = map Ok keys \<and> sorted keys \<and>
    complete_replay hash core =
      rbind (map_err ReplayFinalStateEncoding (final_state_checksum hash (bm_values (co_states core)))) (\<lambda>final.
        Ok (co_states core,
          \<lparr>su_event_count = length es,
           su_first_match_time = (if es = [] then None else Some (ev_match_time (hd es))),
           su_last_match_time = (if es = [] then None else Some (ev_match_time (last es))),
           su_event_checksum = stream_checksum hash h, su_final_state_checksum = final\<rparr>))"
proof -
  have h: "history_agrees hash es core" using history_agrees_apply_all new_unstarted assms by blast
  then have e: "hash_events es = Ok (co_event_stream core)" by (simp add: history_agrees_def)
  then have "sh_event_count (co_event_stream core) = length es"
    using hash_events_Ok [of hasher_new es] by (auto simp: hash_events_def hasher_new_def)
  then have "complete_replay hash core =
      rbind (map_err ReplayFinalStateEncoding (final_state_checksum hash (bm_values (co_states core)))) (\<lambda>final.
        Ok (co_states core,
          \<lparr>su_event_count = length es,
           su_first_match_time = (if es = [] then None else Some (ev_match_time (hd es))),
           su_last_match_time = (if es = [] then None else Some (ev_match_time (last es))),
           su_event_checksum = stream_checksum hash (co_event_stream core), su_final_state_checksum = final\<rparr>))"
    using h unfolding complete_replay_def history_agrees_def by (simp cong: rbind_cong)
  then show ?thesis using e h unfolding history_agrees_def by blast
qed

definition sample_core :: replay_core where
  "sample_core =
     \<lparr>co_states = [((Twse, ''2330''), sample_state)], co_reducers = [((Twse, ''2330''), sample_profile)],
      co_reducer_contexts = [((Twse, ''2330''), sample_context ''open'' Carry)],
      co_reducer_context_windows = [], co_clock = Unstarted, co_last_ordering_key = None,
      co_last_canonical_event = None, co_event_stream = hasher_new, co_first_match_time = None\<rparr>"

lemma sample_core_new:
  "replay_core_new_multi_with_schedules [sample_state] [((Twse, ''2330''), sample_profile)]
     [((Twse, ''2330''), sample_context ''open'' Carry)] [] = Ok sample_core"
  by (simp add: replay_core_new_multi_with_schedules_def insert_state_def bm_get_def bm_collect_def sample_core_def
      sample_state_def market_state_new_def sample_context_def)

lemma sample_core_step:
  obtains core where "apply_all sample_hash sample_core [sample_status_event] = (Ok (), core)"
proof (rule sample_first_step)
  fix rc1 s1
  assume step: "apply_event sample_hash sample_profile sample_state sample_status_event (sample_context ''open'' Carry) =
      (Ok rc1, s1)"
  obtain c q where c: "to_canonical_bytes sample_status_event = Ok c" "append_bytes c = Ok q"
    using sample_record_ok by (auto simp: is_ok_iff append_record_Ok)
  have "source_phase_rank sample_status_event = Ok 20"
    by (simp add: sample_status_event_def source_phase_rank_def realtime_phase_rank_def)
  then obtain k where k: "for_event_and_canonical sample_hash sample_status_event = Ok (k, c)"
    using c(1) by (simp add: for_event_and_canonical_Ok for_event_with_fingerprint_def)
  have base: "transition_base sample_state sample_status_event = sample_state"
    by (simp add: transition_base_def sample_state_def market_state_new_def sample_status_event_def)
  have inst: "ev_instrument sample_status_event = (Twse, ''2330'')" by (simp add: sample_status_event_def)
  have "prepare_transition sample_hash sample_core sample_status_event k c = Ok ((c, length c), 1, rc1, s1)"
    using c(2) step base
    by (simp add: prepare_transition_def prepare_canonical_def append_bytes_Ok validate_global_order_def inst
        sample_core_def bm_get_def context_for_event_def checked_u64_def in_u64_def)
  then show ?thesis using that k by (simp add: apply_ordered_def apply_prepared_ordered_def)
qed

theorem replay_summary_exact_witness:
  "\<exists>core h. apply_all sample_hash sample_core [sample_status_event] = (Ok (), core) \<and>
     hash_events [sample_status_event] = Ok h"
proof (rule sample_core_step)
  fix core
  assume step: "apply_all sample_hash sample_core [sample_status_event] = (Ok (), core)"
  from replay_summary_exact [OF sample_core_new step] step show ?thesis by blast
qed

section \<open>The replay order satisfies the reducer\<close>

lemma apply_event_order_errors:
  assumes "apply_event hash p s e c = (Err err, s')" and "st_instrument s = ev_instrument e"
  shows "err \<noteq> InstrumentMismatch" and "err \<noteq> StaleProposal"
    and "err = MatchTimeRegression \<Longrightarrow> \<exists>q. st_last_event s = Some q \<and> ev_match_time e < ar_match_time q"
    and "err = OrderingRegression \<Longrightarrow>
      \<exists>r q. applied_event_ref_from_event hash e = Ok r \<and> st_last_event s = Some q \<and> ref_key r < ref_key q"
proof -
  have volume: "apply_volume_observation policy ob r b d = Err x \<Longrightarrow>
      x \<notin> {InstrumentMismatch, StaleProposal, MatchTimeRegression, OrderingRegression}" for policy ob r b d x
    by (auto simp: apply_volume_observation_def validate_volume_def
        split: observation.splits cumulative_volume_policy.splits state_field.splits if_splits)
  have payload: "apply_payload policy b r pl d = Err x \<Longrightarrow>
      x \<notin> {InstrumentMismatch, StaleProposal, MatchTimeRegression, OrderingRegression}" for policy b r pl d x
    by (cases pl) (auto simp: apply_payload_def dest!: volume)
  have shape: "validate_realtime_shape e = Err x \<Longrightarrow> x \<in> {InvalidTwseRealtimeShape, InvalidTpexRealtimeShape}" for x
    by (auto simp: validate_realtime_shape_def Let_def split: if_splits event_payload.splits)
  have "propose hash p s e c = Err err" using assms(1) by (auto simp: apply_event_propose split: result.splits)
  then consider (envelope) "validate_envelope p s e c = Err err"
    | (profile) x where "err = ProfileRejected x" | (shape) "validate_realtime_shape e = Err err"
    | (canonical) x where "err = CanonicalEncodingFailed x"
    | (order) r q where "err = OrderingRegression" "applied_event_ref_from_event hash e = Ok r"
        "st_last_event s = Some q" "ref_key r < ref_key q"
    | (version) "err = StateVersionOverflow"
    | (payload) b r d where "apply_payload (pr_volume_policy p) b r (ev_payload e) d = Err err"
    unfolding propose_def rbind_eq_Err map_err_eq_Err
    by (auto simp: Let_def split_def rbind_eq_Err split: if_splits)
  then show "err \<noteq> InstrumentMismatch" and "err \<noteq> StaleProposal"
    and "err = MatchTimeRegression \<Longrightarrow> \<exists>q. st_last_event s = Some q \<and> ev_match_time e < ar_match_time q"
    and "err = OrderingRegression \<Longrightarrow>
      \<exists>r q. applied_event_ref_from_event hash e = Ok r \<and> st_last_event s = Some q \<and> ref_key r < ref_key q"
    using assms(2) payload shape by (cases; fastforce simp: validate_envelope_def split: if_splits option.splits)+
qed

definition last_events_ordered :: "(bytes \<Rightarrow> bytes) \<Rightarrow> replay_core \<Rightarrow> bool" where
  "last_events_ordered hash core \<longleftrightarrow>
     (\<forall>i s. bm_get (co_states core) i = Some s \<longrightarrow> st_instrument s = i \<and>
        (\<forall>q. st_last_event s = Some q \<longrightarrow> (\<exists>e k c l. for_event_and_canonical hash e = Ok (k, c) \<and>
           applied_event_ref_from_event hash e = Ok q \<and> ev_instrument e = i \<and>
           co_last_ordering_key core = Some l \<and> k \<le> l)))"

lemma transition_base_instrument:
  "st_instrument s = ev_instrument e \<Longrightarrow> st_instrument (transition_base s e) = ev_instrument e"
  by (simp add: transition_base_def market_state_new_def)

lemma transition_base_last:
  "st_last_event (transition_base s e) = Some q \<Longrightarrow> st_last_event s = Some q"
  by (auto simp: transition_base_def market_state_new_def split: if_splits)

lemma apply_event_instrument: "apply_event hash p s e c = (Ok rcpt, s') \<Longrightarrow> st_instrument s' = st_instrument s"
  by (auto elim!: apply_event_OkE dest!: applied_core simp: state_core_def)

lemma apply_ordered_last_events:
  assumes "last_events_ordered hash core" and "apply_ordered hash core e = (Ok cm, core')"
  shows "last_events_ordered hash core'"
proof -
  obtain key canonical rcd n receipt s' where k: "for_event_and_canonical hash e = Ok (key, canonical)"
      and pt: "prepare_transition hash core e key canonical = Ok (rcd, n, receipt, s')"
      and core': "core' = commit_event core e key rcd n s'"
    using assms(2) by (auto simp: apply_ordered_Ok apply_prepared_Ok)
  from pt show ?thesis
  proof (rule prepare_transition_OkE)
    fix s ctxt p
    assume ord: "validate_global_order core key canonical = Ok ()"
      and s: "bm_get (co_states core) (ev_instrument e) = Some s"
      and ap: "apply_event hash p (transition_base s e) e ctxt = (Ok receipt, s')"
    have "st_instrument s = ev_instrument e" using assms(1) s unfolding last_events_ordered_def by blast
    then have inst: "st_instrument s' = ev_instrument e"
      using apply_event_instrument [OF ap] transition_base_instrument by simp
    have up: "l \<le> key" if "co_last_ordering_key core = Some l" for l using global_order_Ok [OF ord that] .
    show ?thesis unfolding last_events_ordered_def
    proof (intro allI impI conjI)
      fix i t assume t: "bm_get (co_states core') i = Some t"
      show "st_instrument t = i"
      proof (cases "i = ev_instrument e")
        case True
        then show ?thesis using t inst by (simp add: core' commit_event_def)
      next
        case False
        then have "bm_get (co_states core) i = Some t" using t by (simp add: core' commit_event_def)
        then show ?thesis using assms(1) unfolding last_events_ordered_def by blast
      qed
      fix q assume q: "st_last_event t = Some q"
      show "\<exists>e' k c l. for_event_and_canonical hash e' = Ok (k, c) \<and> applied_event_ref_from_event hash e' = Ok q \<and>
          ev_instrument e' = i \<and> co_last_ordering_key core' = Some l \<and> k \<le> l"
      proof (cases "i = ev_instrument e")
        case True
        then have "t = s'" using t by (simp add: core' commit_event_def)
        then have "applied_event_ref_from_event hash e = Ok q" using apply_event_order(2,3) [OF ap] q by simp
        then show ?thesis using k True by (auto simp: core' commit_event_def)
      next
        case False
        then have "bm_get (co_states core) i = Some t" using t by (simp add: core' commit_event_def)
        then obtain e' k' c l where "for_event_and_canonical hash e' = Ok (k', c)"
            "applied_event_ref_from_event hash e' = Ok q" "ev_instrument e' = i"
            "co_last_ordering_key core = Some l" "k' \<le> l"
          using assms(1) q unfolding last_events_ordered_def by blast
        moreover from this have "k' \<le> key" using up by (meson order_trans)
        moreover have "co_last_ordering_key core' = Some key" by (simp add: core' commit_event_def)
        ultimately show ?thesis by blast
      qed
    qed
  qed
qed

lemma apply_all_last_events:
  "last_events_ordered hash core \<Longrightarrow> apply_all hash core es = (Ok (), core') \<Longrightarrow> last_events_ordered hash core'"
proof (induction es arbitrary: core)
  case (Cons e es)
  then obtain cm core1 where "apply_ordered hash core e = (Ok cm, core1)" "apply_all hash core1 es = (Ok (), core')"
    by (auto split: prod.splits result.splits)
  then show ?case using Cons.IH apply_ordered_last_events Cons.prems(1) by blast
qed simp

lemma new_core_states:
  assumes "replay_core_new_multi_with_schedules states reducers contexts schedules = Ok core"
  shows "rfold insert_state [] states = Ok (co_states core)"
  using assms by (auto simp: replay_core_new_multi_with_schedules_def Let_def split: if_splits)

lemma insert_states_from:
  assumes "rfold insert_state m states = Ok m'" "bm_get m' i = Some s"
  shows "bm_get m i = Some s \<or> (s \<in> set states \<and> st_instrument s = i)"
  using assms
proof (induction states arbitrary: m)
  case (Cons x states)
  then obtain m1 where "insert_state m x = Ok m1" "rfold insert_state m1 states = Ok m'" by auto
  moreover from this have "m1 = bm_insert (st_instrument x) x m" by (auto simp: insert_state_def split: if_splits)
  ultimately show ?case using Cons.IH [of m1] Cons.prems(2) by (auto split: if_splits)
qed simp

text \<open>
  C23: the replay order satisfies the reducers. A core built over fresh states and fed through
  \<open>apply_ordered\<close> never has an event refused by the instrument's reducer for its order, its time, its
  instrument or a stale proposal: the global ordering key refines the order each reducer checks.
\<close>

theorem ordered_replay_never_regresses:
  assumes "replay_core_new_multi_with_schedules states reducers contexts schedules = Ok core0"
    and "list_all (\<lambda>s. st_last_event s = None) states"
    and "apply_all hash core0 es = (Ok (), core)"
    and "apply_ordered hash core e = (Err (ReplayStateTransition err), core')"
  shows "err \<notin> {OrderingRegression, MatchTimeRegression, InstrumentMismatch, StaleProposal}"
proof -
  have "last_events_ordered hash core0"
    unfolding last_events_ordered_def
    using insert_states_from [OF new_core_states [OF assms(1)]] assms(2) by (fastforce simp: list_all_iff bm_get_def)
  then have inv: "last_events_ordered hash core" using apply_all_last_events assms(3) by blast
  obtain key canonical where k: "for_event_and_canonical hash e = Ok (key, canonical)"
      and pt: "prepare_transition hash core e key canonical = Err (ReplayStateTransition err)"
    using assms(4) by (auto simp: apply_ordered_def apply_prepared_Err split: result.splits)
  obtain s p ctxt s' where s: "bm_get (co_states core) (ev_instrument e) = Some s"
      and ord: "validate_global_order core key canonical = Ok ()"
      and ap: "apply_event hash p (transition_base s e) e ctxt = (Err err, s')"
    using pt by (rule prepare_transition_refused)
  have inst: "st_instrument (transition_base s e) = ev_instrument e"
    using inv s transition_base_instrument unfolding last_events_ordered_def by blast
  note errors = apply_event_order_errors [OF ap inst]
  have ordered: "ref_key q \<le> ref_key r \<and> ar_match_time q \<le> ev_match_time e"
    if "st_last_event (transition_base s e) = Some q" "applied_event_ref_from_event hash e = Ok r" for q r
  proof -
    note last = transition_base_last [OF that(1)]
    obtain e' k' c l where e': "for_event_and_canonical hash e' = Ok (k', c)"
        "applied_event_ref_from_event hash e' = Ok q" "ev_instrument e' = ev_instrument e"
        "co_last_ordering_key core = Some l" "k' \<le> l"
      using inv s last unfolding last_events_ordered_def by blast
    then have "k' \<le> key" using global_order_Ok [OF ord] by (meson order_trans)
    then have "ref_key q \<le> ref_key r" using key_order_refines_ref_order [OF e'(1) k e'(2) that(2) e'(3)] by blast
    moreover from this have "ar_match_time q \<le> ar_match_time r" by (auto simp: ref_key_def less_eq_prod_simp)
    moreover have "ar_match_time r = ev_match_time e"
      using that(2) by (auto simp: applied_event_ref_from_event_def)
    ultimately show ?thesis by simp
  qed
  obtain r where "applied_event_ref_from_event hash e = Ok r"
    using k by (auto simp: for_event_and_canonical_Ok applied_event_ref_from_event_def event_fingerprint_def)
  then show ?thesis using errors ordered by (auto simp: not_le [symmetric])
qed

lemma prepared_context:
  assumes "is_ok (append_record e)" "source_phase_rank e = Ok n"
  obtains k c where "for_event_and_canonical hash e = Ok (k, c)" "in_u32 (length c)" "ok_match_time k = ev_match_time e"
proof -
  obtain c q where "to_canonical_bytes e = Ok c" "append_bytes c = Ok q"
    using assms(1) by (auto simp: is_ok_iff append_record_Ok)
  then show ?thesis
    using assms(2) that by (auto simp: for_event_and_canonical_Ok for_event_with_fingerprint_def append_bytes_Ok)
qed

theorem ordered_replay_never_regresses_witness:
  "\<exists>err. apply_ordered sample_hash sample_core (sample_status_event\<lparr>ev_source_format := ''OTHER''\<rparr>) =
       (Err (ReplayStateTransition err), sample_core) \<and>
     err \<notin> {OrderingRegression, MatchTimeRegression, InstrumentMismatch, StaleProposal}"
proof -
  define e where "e = sample_status_event\<lparr>ev_source_format := ''OTHER''\<rparr>"
  have "is_ok (append_record e)"
    by (simp add: append_record_def to_canonical_bytes_def e_def sample_status_event_def append_bytes_def append_length_def
        append_all.simps push_def append_volume_def append_market_signal_def append_auction_observation_def
        auction_new_def append_optional_u64_def append_u64_def in_u32_def CANONICAL_MAGIC_def volume_to_canonical_bytes_def
        is_utc_iso8601_representable_def MIN_SUPPORTED_UNIX_MICROSECONDS_def MAX_SUPPORTED_UNIX_MICROSECONDS_def)
  moreover have "source_phase_rank e = Ok 0"
    by (simp add: e_def sample_status_event_def source_phase_rank_def realtime_phase_rank_def)
  ultimately obtain k c where k: "for_event_and_canonical sample_hash e = Ok (k, c)" "in_u32 (length c)"
    by (rule prepared_context)
  have inst: "ev_instrument e = (Twse, ''2330'')" by (simp add: e_def sample_status_event_def)
  obtain err where "apply_event sample_hash sample_profile (transition_base sample_state e) e (sample_context ''open'' Carry) =
      (Err err, transition_base sample_state e)"
    by (simp add: apply_event_propose propose_def transition_base_def sample_state_def market_state_new_def e_def
        sample_status_event_def validate_envelope_def validate_event_def sample_context_def sample_profile_def)
  then have "prepare_transition sample_hash sample_core e k c = Err (ReplayStateTransition err)"
    using k(2) by (simp add: prepare_transition_def prepare_canonical_def validate_global_order_def inst
        sample_core_def bm_get_def context_for_event_def checked_u64_def in_u64_def)
  then have refused: "apply_ordered sample_hash sample_core e = (Err (ReplayStateTransition err), sample_core)"
    using k(1) by (simp add: apply_ordered_def apply_prepared_ordered_def)
  moreover have "err \<notin> {OrderingRegression, MatchTimeRegression, InstrumentMismatch, StaleProposal}"
    using ordered_replay_never_regresses [OF sample_core_new _ _ refused, of "[]"]
    by (simp add: sample_state_def market_state_new_def)
  ultimately show ?thesis unfolding e_def by blast
qed

end
