(* ===== verification/Trading.thy ===== *)
theory Trading
  imports Replay Orders
begin

text \<open>
  The trading context a strategy sees with each event: \<open>crates/strategy-api/src/context.rs\<close>. A session
  segment gives the phase of a match time; the evaluator checks that event, occurrence, state and
  segment belong together and derives from the event's signal, or from the state's phase when the event
  carries none, whether matching is enabled and whether new orders may be entered. The lemmas show that
  the checks hold for every event the replay core commits, and that order entry is never open while
  matching is not enabled or the session cools down.
\<close>

section \<open>Model\<close>

definition WARM_UP_MICROSECONDS :: int where "WARM_UP_MICROSECONDS = 5 * 60 * 1000000"

datatype session_kind = Regular | AfterHours

datatype session_phase = WarmUp | Active | CoolDown

record session_segment =
  sg_id :: session_segment_id
  sg_kind :: session_kind
  sg_trading_date :: int
  sg_open :: int
  sg_close :: int

datatype context_error =
    InvalidSessionWindow
  | SessionWindowOverflow
  | OutsideReplayWindow
  | ContextTradingDateMismatch
  | ContextInstrumentMismatch
  | SegmentMismatch
  | StateVersionMismatch
  | MissingAppliedEvent
  | EventIdentityMismatch

definition session_segment_new ::
  "session_segment_id \<Rightarrow> session_kind \<Rightarrow> int \<Rightarrow> int \<Rightarrow> int \<Rightarrow> (session_segment, context_error) result" where
  "session_segment_new segment kind date open_time close_time =
     (if open_time \<ge> close_time then Err InvalidSessionWindow
      else rbind (ok_or (checked_i64 (open_time - WARM_UP_MICROSECONDS)) SessionWindowOverflow) (\<lambda>_.
           rbind (ok_or (checked_i64 (close_time + WARM_UP_MICROSECONDS)) SessionWindowOverflow) (\<lambda>_.
             Ok \<lparr>sg_id = segment, sg_kind = kind, sg_trading_date = date, sg_open = open_time,
                 sg_close = close_time\<rparr>)))"

definition segment_phase :: "session_segment \<Rightarrow> int \<Rightarrow> (session_phase, context_error) result" where
  "segment_phase sg match_time =
     rbind (ok_or (checked_i64 (sg_open sg - WARM_UP_MICROSECONDS)) SessionWindowOverflow) (\<lambda>replay_start.
     rbind (ok_or (checked_i64 (sg_close sg + WARM_UP_MICROSECONDS)) SessionWindowOverflow) (\<lambda>replay_end.
       if match_time < replay_start \<or> match_time \<ge> replay_end then Err OutsideReplayWindow
       else if match_time < sg_open sg then Ok WarmUp
       else if match_time \<le> sg_close sg then Ok Active
       else Ok CoolDown))"

record session_callback_context =
  sc_segment_id :: session_segment_id
  sc_session_kind :: session_kind
  sc_phase :: session_phase

datatype order_restriction_reason = PreOpenLimitOrdersOnly | AuctionCollectingRestriction

datatype order_block_reason = CoolDownBlock | ClosingResult

datatype new_order_entry =
    Allowed
  | Restricted order_restriction_reason
  | Blocked order_block_reason
  | EntryUnknown

datatype matching_state = Enabled matching_method | MatchingClosed | MatchingUnknown

definition equity_indicative_from_event :: "domain_event \<Rightarrow> indicative_auction option" where
  "equity_indicative_from_event e =
     (if fst (ev_instrument e) \<notin> {Twse, Tpex} then None
      else case ev_payload e of PIndicativeAuction auction \<Rightarrow> Some auction | _ \<Rightarrow> None)"

record trading_context =
  tc_event_fingerprint :: bytes
  tc_instrument_state_version :: nat
  tc_session :: session_callback_context
  tc_new_order_entry :: new_order_entry
  tc_matching :: matching_state
  tc_auction :: "auction_observation option"
  tc_market_signal :: "market_signal option"
  tc_market_rule_name :: string
  tc_market_rule_version :: nat

fun matching_for_signal ::
  "market_signal observation \<Rightarrow> market_phase state_field \<Rightarrow> matching_state \<times> auction_observation option" where
  "matching_for_signal (Set SigContinuous) state_phase = (Enabled MethodContinuous, None)"
| "matching_for_signal (Set (AuctionCollecting ob)) state_phase = (Enabled MethodCallAuction, Some ob)"
| "matching_for_signal (Set (AuctionUncross ob)) state_phase = (Enabled MethodCallAuction, Some ob)"
| "matching_for_signal (Set SigClosed) state_phase = (MatchingClosed, None)"
| "matching_for_signal NoObservation state_phase =
     (case known state_phase of
        Some PhaseContinuous \<Rightarrow> (Enabled MethodContinuous, None)
      | Some (PhaseAuction ob) \<Rightarrow> (Enabled MethodCallAuction, Some ob)
      | Some PhaseClosed \<Rightarrow> (MatchingClosed, None)
      | None \<Rightarrow> (MatchingUnknown, None))"
| "matching_for_signal Clear state_phase = (MatchingUnknown, None)"
| "matching_for_signal (Unknown u) state_phase = (MatchingUnknown, None)"

definition collecting_entry :: "auction_observation \<Rightarrow> new_order_entry" where
  "collecting_entry ob =
     (if ao_purpose ob = EvKnown Opening then Restricted PreOpenLimitOrdersOnly
      else Restricted AuctionCollectingRestriction)"

definition uncross_entry :: "auction_observation \<Rightarrow> new_order_entry" where
  "uncross_entry ob =
     (case ao_purpose ob of
        EvKnown Closing \<Rightarrow> Blocked ClosingResult
      | EvKnown Periodic \<Rightarrow> Restricted AuctionCollectingRestriction
      | EvKnown Opening \<Rightarrow> Allowed
      | EvKnown VolatilityInterruption \<Rightarrow> Allowed
      | EvNoObservation \<Rightarrow> EntryUnknown
      | EvUnknown \<Rightarrow> EntryUnknown)"

definition order_entry_for_signal ::
  "market_signal observation \<Rightarrow> matching_state \<Rightarrow> auction_observation option \<Rightarrow> session_phase \<Rightarrow> new_order_entry" where
  "order_entry_for_signal signal matching auction phase =
     (if phase = CoolDown then Blocked CoolDownBlock
      else case signal of
        Set (AuctionCollecting ob) \<Rightarrow> collecting_entry ob
      | Set (AuctionUncross ob) \<Rightarrow> uncross_entry ob
      | Set SigClosed \<Rightarrow> Blocked ClosingResult
      | Set SigContinuous \<Rightarrow> Allowed
      | NoObservation \<Rightarrow>
          (case auction of
             Some ob \<Rightarrow> collecting_entry ob
           | None \<Rightarrow> (case matching of MatchingClosed \<Rightarrow> Blocked ClosingResult
                       | Enabled method \<Rightarrow> Allowed | MatchingUnknown \<Rightarrow> EntryUnknown))
      | Clear \<Rightarrow> EntryUnknown
      | Unknown u \<Rightarrow> EntryUnknown)"

definition validate_event_state ::
  "domain_event \<Rightarrow> event_occurrence \<Rightarrow> market_state \<Rightarrow> session_segment \<Rightarrow> (unit, context_error) result" where
  "validate_event_state e occ st sg =
     (if ev_trading_date e \<noteq> sg_trading_date sg \<or> st_trading_date st \<noteq> sg_trading_date sg
      then Err ContextTradingDateMismatch
      else if ev_instrument e \<noteq> st_instrument st then Err ContextInstrumentMismatch
      else if st_segment st \<noteq> Some (sg_id sg) then Err SegmentMismatch
      else if eo_instrument_state_version occ \<noteq> st_version st then Err StateVersionMismatch
      else rbind (ok_or (st_last_event st) MissingAppliedEvent) (\<lambda>last.
        if ar_fingerprint last \<noteq> eo_event_fingerprint occ \<or> ar_match_time last \<noteq> ev_match_time e
        then Err EventIdentityMismatch else Ok ()))"

definition evaluate_context ::
  "domain_event \<Rightarrow> event_occurrence \<Rightarrow> market_state \<Rightarrow> session_segment \<Rightarrow> (trading_context, context_error) result" where
  "evaluate_context e occ st sg =
     rbind (validate_event_state e occ st sg) (\<lambda>_.
     rbind (segment_phase sg (ev_match_time e)) (\<lambda>phase.
       let session = \<lparr>sc_segment_id = sg_id sg, sc_session_kind = sg_kind sg, sc_phase = phase\<rparr>;
           signal = payload_market_signal (ev_payload e);
           (matching, auction) = matching_for_signal signal (st_phase st);
           entry = order_entry_for_signal signal matching auction phase
       in Ok \<lparr>tc_event_fingerprint = eo_event_fingerprint occ,
              tc_instrument_state_version = eo_instrument_state_version occ, tc_session = session,
              tc_new_order_entry = entry, tc_matching = matching, tc_auction = auction,
              tc_market_signal = as_set signal, tc_market_rule_name = ''market.signal'',
              tc_market_rule_version = 3\<rparr>))"

section \<open>Contexts of committed events\<close>

lemma segment_window:
  assumes "session_segment_new segment kind date opens closes = Ok sg"
  shows "sg_id sg = segment" "sg_trading_date sg = date" "sg_open sg = opens" "sg_close sg = closes" "opens < closes"
    "checked_i64 (opens - WARM_UP_MICROSECONDS) = Some (opens - WARM_UP_MICROSECONDS)"
    "checked_i64 (closes + WARM_UP_MICROSECONDS) = Some (closes + WARM_UP_MICROSECONDS)"
  using assms by (auto simp: session_segment_new_def checked_i64_def split: if_splits)

lemma segment_phase_eq:
  assumes "session_segment_new segment kind date opens closes = Ok sg"
  shows "segment_phase sg t =
    (if opens - WARM_UP_MICROSECONDS \<le> t \<and> t < closes + WARM_UP_MICROSECONDS
     then Ok (if t < opens then WarmUp else if t \<le> closes then Active else CoolDown)
     else Err OutsideReplayWindow)"
  using segment_window [OF assms] by (simp add: segment_phase_def checked_i64_def)

lemma committed_event_matches:
  assumes commit: "apply_ordered hash core e = (Ok cm, core')"
    and ctxt: "context_for_event core (ev_instrument e) (ev_match_time e) = Some c"
    and segment: "rc_segment c = sg_id sg" "rc_trading_date c = sg_trading_date sg"
  obtains st where "bm_get (co_states core') (ev_instrument e) = Some st"
    and "validate_event_state e (cc_occurrence cm) st sg = Ok ()"
proof -
  obtain key canonical rcd n receipt s where k: "for_event_and_canonical hash e = Ok (key, canonical)"
      and pt: "prepare_transition hash core e key canonical = Ok (rcd, n, receipt, s)"
      and core': "core' = commit_event core e key rcd n s"
      and cm: "cc_occurrence cm = \<lparr>eo_run_event_ordinal = n, eo_ordering_key = key,
        eo_event_fingerprint = ok_event_fingerprint key, eo_instrument_state_version = tr_new_version receipt\<rparr>"
    using commit by (auto simp: apply_ordered_Ok apply_prepared_Ok)
  from pt obtain s0 p where app: "apply_event hash p s0 e c = (Ok receipt, s)"
    using ctxt by (metis option.inject prepare_transition_OkE)
  from app show ?thesis
  proof (rule apply_event_OkE)
    fix r d1
    assume r: "applied_event_ref_from_event hash e = Ok r" and env: "validate_envelope p s0 e c = Ok ()"
      and pay: "apply_payload (pr_volume_policy p) (st_segment s0 = Some (rc_segment c)) r (ev_payload e)
           (fst (enter_segment s0 c r)) = Ok d1"
      and s: "s = applied_state c r (ev_payload e) d1 s0"
      and rcpt: "tr_new_version receipt = Suc (st_version s0)"
    have state: "st_instrument s = st_instrument s0" "st_trading_date s = st_trading_date s0"
        "st_segment s = Some (rc_segment c)" "st_last_event s = Some r" "st_version s = Suc (st_version s0)"
      using applied_core [OF pay] s by (simp_all add: state_core_def)
    have same: "ev_instrument e = st_instrument s0" "ev_trading_date e = st_trading_date s0"
        "ev_trading_date e = rc_trading_date c"
      using env by (auto simp: validate_envelope_def split: if_splits)
    have "ar_fingerprint r = ok_event_fingerprint key" "ar_match_time r = ev_match_time e"
      using r k by (auto simp: applied_event_ref_from_event_def event_fingerprint_def for_event_and_canonical_Ok for_event_with_fingerprint_def)
    then have "validate_event_state e (cc_occurrence cm) s sg = Ok ()"
      using state same segment cm rcpt by (simp add: validate_event_state_def)
    moreover have "bm_get (co_states core') (ev_instrument e) = Some s"
      by (simp add: core' commit_event_def)
    ultimately show ?thesis using that by blast
  qed
qed

text \<open>Order entry is open only while matching is.\<close>

definition entry_open :: "new_order_entry \<Rightarrow> bool" where
  "entry_open entry \<longleftrightarrow> entry = Allowed \<or> (\<exists>r. entry = Restricted r)"

lemma entry_open_simps [simp]:
  "entry_open Allowed" "entry_open (Restricted r)" "\<not> entry_open (Blocked b)" "\<not> entry_open EntryUnknown"
  by (simp_all add: entry_open_def)

lemma entry_open_matching:
  assumes "matching_for_signal signal state_phase = (matching, auction)"
    and "entry_open (order_entry_for_signal signal matching auction phase)"
  shows "phase \<noteq> CoolDown" and "\<exists>method. matching = Enabled method"
proof -
  show "phase \<noteq> CoolDown" using assms(2) by (auto simp: order_entry_for_signal_def)
  show "\<exists>method. matching = Enabled method"
    using assms by (cases "(signal, state_phase)" rule: matching_for_signal.cases)
      (auto simp: order_entry_for_signal_def split: if_splits option.splits market_phase.splits matching_state.splits)
qed

lemma evaluate_context_entry:
  assumes "evaluate_context e occ st sg = Ok tc" and "entry_open (tc_new_order_entry tc)"
  shows "sc_phase (tc_session tc) \<noteq> CoolDown" and "\<exists>method. tc_matching tc = Enabled method"
  using assms entry_open_matching
  by (cases "matching_for_signal (payload_market_signal (ev_payload e)) (st_phase st)";
      fastforce simp: evaluate_context_def Let_def)+

lemma evaluate_context_phase:
  "evaluate_context e occ st sg = Ok tc \<Longrightarrow> segment_phase sg (ev_match_time e) = Ok (sc_phase (tc_session tc))"
  by (cases "matching_for_signal (payload_market_signal (ev_payload e)) (st_phase st)")
    (auto simp: evaluate_context_def Let_def)

text \<open>
  C33: the trading context of a committed event. When the replay core commits an event under a context
  of the session segment, the evaluator accepts the new state and the occurrence of the commit: it never
  reports a mismatch, and returns a context exactly when the match time lies in the replay window, from
  five minutes before the open up to, and excluding, five minutes after the close. In that context order
  entry is open only while matching is enabled and not after the close; at the close itself it still may be.
\<close>

theorem trading_context_of_commit:
  assumes segment: "session_segment_new segment kind date opens closes = Ok sg"
    and commit: "apply_ordered hash core e = (Ok cm, core')"
    and ctxt: "context_for_event core (ev_instrument e) (ev_match_time e) = Some ctxt"
    and same: "rc_segment ctxt = segment" "rc_trading_date ctxt = date"
  shows "\<exists>st. bm_get (co_states core') (ev_instrument e) = Some st \<and>
    (if opens - WARM_UP_MICROSECONDS \<le> ev_match_time e \<and> ev_match_time e < closes + WARM_UP_MICROSECONDS
         then \<exists>tc. evaluate_context e (cc_occurrence cm) st sg = Ok tc \<and>
                (entry_open (tc_new_order_entry tc) \<longrightarrow>
                   ev_match_time e \<le> closes \<and> (\<exists>method. tc_matching tc = Enabled method))
         else evaluate_context e (cc_occurrence cm) st sg = Err OutsideReplayWindow)"
proof (rule committed_event_matches [OF commit ctxt])
  show "rc_segment ctxt = sg_id sg" "rc_trading_date ctxt = sg_trading_date sg"
    using same segment_window [OF segment] by simp_all
next
  fix st
  assume st: "bm_get (co_states core') (ev_instrument e) = Some st"
    and ok: "validate_event_state e (cc_occurrence cm) st sg = Ok ()"
  have phase: "segment_phase sg (ev_match_time e) =
      (if opens - WARM_UP_MICROSECONDS \<le> ev_match_time e \<and> ev_match_time e < closes + WARM_UP_MICROSECONDS
       then Ok (if ev_match_time e < opens then WarmUp else if ev_match_time e \<le> closes then Active else CoolDown)
       else Err OutsideReplayWindow)"
    by (rule segment_phase_eq [OF segment])
  show ?thesis
  proof (cases "opens - WARM_UP_MICROSECONDS \<le> ev_match_time e \<and> ev_match_time e < closes + WARM_UP_MICROSECONDS")
    case True
    then obtain tc where tc: "evaluate_context e (cc_occurrence cm) st sg = Ok tc"
      using ok phase
      by (cases "matching_for_signal (payload_market_signal (ev_payload e)) (st_phase st)")
        (auto simp: evaluate_context_def Let_def)
    have "ev_match_time e \<le> closes \<and> (\<exists>method. tc_matching tc = Enabled method)" if "entry_open (tc_new_order_entry tc)"
      using evaluate_context_entry [OF tc that] evaluate_context_phase [OF tc] phase True
        segment_window(5) [OF segment] by (auto split: if_splits)
    then show ?thesis using st True tc by auto
  next
    case False
    then have "segment_phase sg (ev_match_time e) = Err OutsideReplayWindow" unfolding phase by (rule if_not_P)
    then have "evaluate_context e (cc_occurrence cm) st sg = Err OutsideReplayWindow"
      using ok by (simp add: evaluate_context_def)
    then show ?thesis using st False by auto
  qed
qed

text \<open>A session from eight minutes before the sample event to the next day.\<close>

definition sample_segment :: session_segment where
  "sample_segment =
     \<lparr>sg_id = ''open'', sg_kind = Regular, sg_trading_date = 20000, sg_open = 1727999520000000,
      sg_close = 1728086400000000\<rparr>"

lemma sample_segment_new:
  "session_segment_new ''open'' Regular 20000 1727999520000000 1728086400000000 = Ok sample_segment"
  by (simp add: session_segment_new_def sample_segment_def checked_i64_def in_i64_def WARM_UP_MICROSECONDS_def)

theorem trading_context_of_commit_witness:
  "\<exists>cm core st tc. apply_ordered sample_hash sample_core sample_status_event = (Ok cm, core) \<and>
     bm_get (co_states core) (Twse, ''2330'') = Some st \<and>
     evaluate_context sample_status_event (cc_occurrence cm) st sample_segment = Ok tc"
proof -
  obtain cm core where step: "apply_ordered sample_hash sample_core sample_status_event = (Ok cm, core)"
    by (rule sample_core_step) (auto split: prod.splits result.splits)
  have ctxt: "context_for_event sample_core (ev_instrument sample_status_event) (ev_match_time sample_status_event) =
      Some (sample_context ''open'' Carry)"
    by (simp add: context_for_event_def sample_core_def bm_get_def sample_status_event_def)
  show ?thesis
    using trading_context_of_commit [OF sample_segment_new step ctxt] step
    by (auto simp: sample_context_def sample_status_event_def WARM_UP_MICROSECONDS_def)
qed

end
