(* ===== verification/Session.thy ===== *)
theory Session
  imports Calendar Trading
begin

text \<open>
  Session plans of \<open>crates/run-planner/src/session.rs\<close>: which trading sessions an instrument has on a
  date and when they open and close. The windows are built by parsing local times at the exchange's
  offset, and the evening session of a date opens on the business day before it, found by a loop over
  dates. The lemmas show that the loop ends with the latest earlier weekday, that the windows are those
  of the profile to the microsecond, and that they are the replay windows the strategy interface expects.
  BLAKE3 is the parameter \<open>hash\<close>.
\<close>

section \<open>Model\<close>

definition SESSION_CALENDAR_VERSION :: nat where "SESSION_CALENDAR_VERSION = 1"
definition SESSION_PROFILE_VERSION :: nat where "SESSION_PROFILE_VERSION = 2"
definition SESSION_WINDOW_POLICY_VERSION :: nat where "SESSION_WINDOW_POLICY_VERSION = 1"
definition REPLAY_MARGIN_MICROSECONDS :: int where "REPLAY_MARGIN_MICROSECONDS = 5 * 60 * 1000000"

datatype session_profile_id =
    TwseRegular
  | TaifexIndexFutures
  | TaifexStockFutures
  | TaifexStockFuturesRegularOnly
  | TpexRegular
  | TaifexIndexOptions
  | TaifexCalendarSpreadRegularOnly

fun profile_id_discriminant :: "session_profile_id \<Rightarrow> nat" where
  "profile_id_discriminant TwseRegular = 1"
| "profile_id_discriminant TaifexIndexFutures = 2"
| "profile_id_discriminant TaifexStockFutures = 3"
| "profile_id_discriminant TaifexStockFuturesRegularOnly = 4"
| "profile_id_discriminant TpexRegular = 5"
| "profile_id_discriminant TaifexIndexOptions = 6"
| "profile_id_discriminant TaifexCalendarSpreadRegularOnly = 7"

fun session_kind_discriminant :: "session_kind \<Rightarrow> nat" where
  "session_kind_discriminant Regular = 1"
| "session_kind_discriminant AfterHours = 2"

datatype session_plan_error =
    EmptySessions
  | NonBusinessTradingDate int
  | UnsupportedMarket market_id
  | UnsupportedInstrument instrument_id
  | SessionProfileRequired instrument_id
  | SessionNotSupported session_profile_id session_kind
  | InvalidTimestamp match_time_error
  | CalendarOverflow
  | WindowOverflow
  | CanonicalLengthOverflow

definition supports_contract ::
  "session_profile_id \<Rightarrow> market_id \<Rightarrow> instrument_class \<Rightarrow> contract_shape option \<Rightarrow> bool" where
  "supports_contract profile market cls shape \<longleftrightarrow>
     (case profile of
        TwseRegular \<Rightarrow> market = Twse \<and> cls \<in> {Equity, Warrant} \<and> shape = None
      | TpexRegular \<Rightarrow> market = Tpex \<and> cls \<in> {Equity, Warrant} \<and> shape = None
      | TaifexIndexFutures \<Rightarrow> market = Taifex \<and> cls = Future \<and> shape = Some Outright
      | TaifexStockFutures \<Rightarrow> market = Taifex \<and> cls = Future \<and> shape = Some Outright
      | TaifexStockFuturesRegularOnly \<Rightarrow> market = Taifex \<and> cls = Future \<and> shape = Some Outright
      | TaifexCalendarSpreadRegularOnly \<Rightarrow> market = Taifex \<and> cls = Future \<and> shape = Some CalendarSpread
      | TaifexIndexOptions \<Rightarrow> market = Taifex \<and> cls = OptionClass \<and> shape = None)"

definition profile_for_instrument_class ::
  "instrument_id \<Rightarrow> instrument_class \<Rightarrow> (session_profile_id, session_plan_error) result" where
  "profile_for_instrument_class instrument cls =
     (case fst instrument of
        Twse \<Rightarrow> (if cls \<in> {Equity, Warrant} then Ok TwseRegular else Err (UnsupportedInstrument instrument))
      | Tpex \<Rightarrow> (if cls \<in> {Equity, Warrant} then Ok TpexRegular else Err (UnsupportedInstrument instrument))
      | Taifex \<Rightarrow> (case cls of
            OptionClass \<Rightarrow> Ok TaifexIndexOptions
          | Future \<Rightarrow> Err (SessionProfileRequired instrument)
          | _ \<Rightarrow> Err (UnsupportedInstrument instrument)))"

definition profile_for_instrument :: "instrument_id \<Rightarrow> (session_profile_id, session_plan_error) result" where
  "profile_for_instrument instrument =
     profile_for_instrument_class instrument
       (case fst instrument of Twse \<Rightarrow> Equity | Tpex \<Rightarrow> Equity | Taifex \<Rightarrow> Future)"

definition profile_allows :: "session_profile_id \<Rightarrow> session_kind \<Rightarrow> bool" where
  "profile_allows profile kind \<longleftrightarrow>
     (if profile \<in> {TwseRegular, TpexRegular, TaifexStockFuturesRegularOnly, TaifexCalendarSpreadRegularOnly}
      then kind = Regular else True)"

record session_window =
  sw_kind :: session_kind
  sw_trading_date :: int
  sw_open :: int
  sw_close :: int
  sw_replay_start :: int
  sw_replay_end_exclusive :: int

definition is_weekend :: "int \<Rightarrow> bool" where
  "is_weekend date \<longleftrightarrow> (date + 4) mod 7 = 0 \<or> (date + 4) mod 7 = 6"

definition checked_i32 :: "int \<Rightarrow> int option" where
  "checked_i32 x = (if in_i32 x then Some x else None)"

function previous_business_loop :: "int \<Rightarrow> (int, session_plan_error) result" where
  "previous_business_loop epoch_days =
     (case trading_date_from_epoch_days epoch_days of
        Err err \<Rightarrow> Err CalendarOverflow
      | Ok candidate \<Rightarrow>
          if \<not> is_weekend candidate then Ok candidate
          else (case checked_i32 (epoch_days - 1) of
                  None \<Rightarrow> Err CalendarOverflow
                | Some earlier \<Rightarrow> previous_business_loop earlier))"
  by pat_completeness auto

text \<open>The loop ends at the latest below the earliest supported date.\<close>

termination previous_business_loop
  by (relation "measure (\<lambda>d. nat (d - MIN_EPOCH_DAYS + 1))")
    (auto simp: checked_i32_def trading_date_from_epoch_days_def split: if_splits)

declare previous_business_loop.simps [simp del]

definition previous_business_date :: "int \<Rightarrow> (int, session_plan_error) result" where
  "previous_business_date date =
     rbind (ok_or (checked_i32 (date - 1)) CalendarOverflow) previous_business_loop"

definition parse_local_time :: "int \<Rightarrow> string \<Rightarrow> (int, session_plan_error) result" where
  "parse_local_time date time =
     map_err InvalidTimestamp (parse_match_time (trading_date_to_string date @ ''T'' @ time @ ''+08:00''))"

definition session_times ::
  "session_profile_id \<Rightarrow> session_kind \<Rightarrow> int \<Rightarrow> (int \<times> string \<times> int \<times> string, session_plan_error) result" where
  "session_times profile kind date =
     (case (profile, kind) of
        (TwseRegular, Regular) \<Rightarrow> Ok (date, ''09:00:00'', date, ''13:30:00'')
      | (TpexRegular, Regular) \<Rightarrow> Ok (date, ''09:00:00'', date, ''13:30:00'')
      | (_, Regular) \<Rightarrow> Ok (date, ''08:45:00'', date, ''13:45:00'')
      | (TaifexIndexFutures, AfterHours) \<Rightarrow>
          rbind (previous_business_date date) (\<lambda>p. Ok (p, ''15:00:00'', date, ''05:00:00''))
      | (TaifexIndexOptions, AfterHours) \<Rightarrow>
          rbind (previous_business_date date) (\<lambda>p. Ok (p, ''15:00:00'', date, ''05:00:00''))
      | (TaifexStockFutures, AfterHours) \<Rightarrow>
          rbind (previous_business_date date) (\<lambda>p. Ok (p, ''17:25:00'', date, ''05:00:00''))
      | _ \<Rightarrow> Err (SessionNotSupported profile kind))"

definition build_window ::
  "session_profile_id \<Rightarrow> session_kind \<Rightarrow> int \<Rightarrow> (session_window, session_plan_error) result" where
  "build_window profile kind date =
     rbind (session_times profile kind date) (\<lambda>(open_date, open_time, close_date, close_time).
     rbind (parse_local_time open_date open_time) (\<lambda>opens.
     rbind (parse_local_time close_date close_time) (\<lambda>closes.
     rbind (ok_or (checked_i64 (opens - REPLAY_MARGIN_MICROSECONDS)) WindowOverflow) (\<lambda>replay_start.
     rbind (ok_or (checked_i64 (closes + REPLAY_MARGIN_MICROSECONDS)) WindowOverflow) (\<lambda>replay_end.
       Ok \<lparr>sw_kind = kind, sw_trading_date = date, sw_open = opens, sw_close = closes,
           sw_replay_start = replay_start, sw_replay_end_exclusive = replay_end\<rparr>)))))"

definition append_window :: "session_window \<Rightarrow> encoded" where
  "append_window w =
     append_all [push (session_kind_discriminant (sw_kind w)), Ok (be_bytes_signed 8 (sw_open w)),
       Ok (be_bytes_signed 8 (sw_close w)), Ok (be_bytes_signed 8 (sw_replay_start w)),
       Ok (be_bytes_signed 8 (sw_replay_end_exclusive w))]"

definition session_canonical_bytes ::
  "instrument_id \<Rightarrow> int \<Rightarrow> session_profile_id \<Rightarrow> session_window list \<Rightarrow> (bytes, session_plan_error) result" where
  "session_canonical_bytes instrument date profile windows =
     map_err (\<lambda>_. CanonicalLengthOverflow)
       (append_all ([Ok (as_bytes ''OSSESSION01''), Ok (be_bytes 2 SESSION_CALENDAR_VERSION),
          Ok (be_bytes 2 SESSION_PROFILE_VERSION), Ok (be_bytes 2 SESSION_WINDOW_POLICY_VERSION),
          push (market_discriminant (fst instrument)), append_bytes (as_bytes (snd instrument)),
          Ok (be_bytes_signed 4 date), push (profile_id_discriminant profile), append_length (length windows)] @
          map append_window windows))"

record session_plan =
  pn_instrument :: instrument_id
  pn_trading_date :: int
  pn_profile :: session_profile_id
  pn_calendar_version :: nat
  pn_profile_version :: nat
  pn_window_policy_version :: nat
  pn_windows :: "session_window list"
  pn_identity :: bytes

definition session_plan_with_profile ::
  "(bytes \<Rightarrow> bytes) \<Rightarrow> instrument_id \<Rightarrow> int \<Rightarrow> session_profile_id \<Rightarrow> session_kind list \<Rightarrow>
   (session_plan, session_plan_error) result" where
  "session_plan_with_profile hash instrument date profile session_kinds =
     (if is_weekend date then Err (NonBusinessTradingDate date)
      else let kinds = remdups_adj (sort_key session_kind_discriminant session_kinds) in
        if kinds = [] then Err EmptySessions
        else case find (\<lambda>kind. \<not> profile_allows profile kind) kinds of
          Some kind \<Rightarrow> Err (SessionNotSupported profile kind)
        | None \<Rightarrow>
            rbind (rmap (\<lambda>kind. build_window profile kind date) kinds) (\<lambda>windows.
            rbind (session_canonical_bytes instrument date profile windows) (\<lambda>canonical.
              Ok \<lparr>pn_instrument = instrument, pn_trading_date = date, pn_profile = profile,
                  pn_calendar_version = SESSION_CALENDAR_VERSION, pn_profile_version = SESSION_PROFILE_VERSION,
                  pn_window_policy_version = SESSION_WINDOW_POLICY_VERSION, pn_windows = windows,
                  pn_identity = hash canonical\<rparr>)))"

definition session_plan_for_instrument ::
  "(bytes \<Rightarrow> bytes) \<Rightarrow> instrument_id \<Rightarrow> int \<Rightarrow> session_kind list \<Rightarrow> (session_plan, session_plan_error) result" where
  "session_plan_for_instrument hash instrument date session_kinds =
     rbind (profile_for_instrument instrument) (\<lambda>profile.
       session_plan_with_profile hash instrument date profile session_kinds)"

definition session_plan_for_instrument_class ::
  "(bytes \<Rightarrow> bytes) \<Rightarrow> instrument_id \<Rightarrow> instrument_class \<Rightarrow> int \<Rightarrow> session_kind list \<Rightarrow>
   (session_plan, session_plan_error) result" where
  "session_plan_for_instrument_class hash instrument cls date session_kinds =
     rbind (profile_for_instrument_class instrument cls) (\<lambda>profile.
       session_plan_with_profile hash instrument date profile session_kinds)"

definition plan_window :: "session_plan \<Rightarrow> session_kind \<Rightarrow> session_window option" where
  "plan_window plan kind = find (\<lambda>w. sw_kind w = kind) (pn_windows plan)"

section \<open>The previous business day\<close>

definition latest_weekday :: "int \<Rightarrow> int" where
  "latest_weekday d = (if (d + 4) mod 7 = 6 then d - 1 else if (d + 4) mod 7 = 0 then d - 2 else d)"

lemma weekday_pred: "(x - 1 :: int) mod 7 = (if x mod 7 = 0 then 6 else x mod 7 - 1)"
  by (simp add: mod_diff_left_eq [of x 7 1, symmetric] zmod_minus1)

lemma weekday_before: "(d - 1 + 4 :: int) mod 7 = (if (d + 4) mod 7 = 0 then 6 else (d + 4) mod 7 - 1)"
  using weekday_pred [of "d + 4"] by (simp add: algebra_simps)

lemma weekday_before2: "(d + 4 :: int) mod 7 = 0 \<Longrightarrow> (d - 2 + 4) mod 7 = 5"
  using weekday_before [of d] weekday_before [of "d - 1"] by simp

lemma latest_weekday_spec:
  "latest_weekday d \<le> d" "\<not> is_weekend (latest_weekday d)" "latest_weekday d < e \<Longrightarrow> e \<le> d \<Longrightarrow> is_weekend e"
proof -
  show "latest_weekday d \<le> d" by (simp add: latest_weekday_def)
  show "\<not> is_weekend (latest_weekday d)"
    using weekday_before [of d] weekday_before2 [of d] by (auto simp: latest_weekday_def is_weekend_def)
  show "is_weekend e" if "latest_weekday d < e" "e \<le> d"
  proof -
    have "e = d \<or> (e = d - 1 \<and> (d + 4) mod 7 = 0)" and "is_weekend d"
      using that by (auto simp: latest_weekday_def is_weekend_def split: if_splits)
    then show ?thesis using weekday_before [of d] by (auto simp: is_weekend_def)
  qed
qed

lemma latest_weekday_step: "is_weekend d \<Longrightarrow> latest_weekday (d - 1) = latest_weekday d"
  using weekday_before [of d] by (auto simp: latest_weekday_def is_weekend_def)

lemma previous_business_loop_eq:
  assumes "d \<le> MAX_EPOCH_DAYS"
  shows "previous_business_loop d =
    (if MIN_EPOCH_DAYS \<le> latest_weekday d then Ok (latest_weekday d) else Err CalendarOverflow)"
  using assms
proof (induction d rule: previous_business_loop.induct)
  case (1 d)
  show ?case
  proof (cases "MIN_EPOCH_DAYS \<le> d \<and> is_weekend d")
    case True
    have i32: "checked_i32 (d - 1) = Some (d - 1)"
      using True 1(2) by (simp add: checked_i32_def in_i32_def MIN_EPOCH_DAYS_def MAX_EPOCH_DAYS_def)
    have date: "trading_date_from_epoch_days d = Ok d"
      using True 1(2) by (simp add: trading_date_from_epoch_days_def)
    have same: "latest_weekday (d - 1) = latest_weekday d"
      using True by (simp add: latest_weekday_step)
    have "previous_business_loop d = previous_business_loop (d - 1)"
      by (subst previous_business_loop.simps) (use date True i32 in simp)
    then show ?thesis using 1(1) [OF date _ i32] True 1(2) same by simp
  next
    case False
    then show ?thesis
      using 1(2) latest_weekday_spec(1) [of d]
      by (subst previous_business_loop.simps)
        (auto simp: trading_date_from_epoch_days_def latest_weekday_def is_weekend_def)
  qed
qed

lemma previous_business_date_eq:
  assumes "MIN_EPOCH_DAYS \<le> d" "d \<le> MAX_EPOCH_DAYS"
  shows "previous_business_date d =
    (if MIN_EPOCH_DAYS \<le> latest_weekday (d - 1) then Ok (latest_weekday (d - 1)) else Err CalendarOverflow)"
  using assms previous_business_loop_eq [of "d - 1"]
  by (simp add: previous_business_date_def checked_i32_def in_i32_def MIN_EPOCH_DAYS_def MAX_EPOCH_DAYS_def)

section \<open>Local times\<close>

lemma second_text_parse:
  assumes lens: "length A = 4" "length B = 2" "length C = 2" "length H = 2" "length M = 2" "length S = 2"
    and digits: "list_all is_ascii_digit (A @ B @ C @ H @ M @ S)"
    and date: "validate_date (digits_value A) (digits_value B) (digits_value C) = Ok ()"
    and time: "digits_value H \<le> 23" "digits_value M \<le> 59" "digits_value S \<le> 59"
    and days: "MIN_EPOCH_DAYS \<le> n" "n \<le> MAX_EPOCH_DAYS"
      "n = days_from_civil (digits_value A) (digits_value B) (digits_value C)"
  shows "parse_match_time (A @ ''-'' @ B @ ''-'' @ C @ ''T'' @ H @ '':'' @ M @ '':'' @ S @ ''+08:00'') =
    Ok ((n * 86400 + int (digits_value H) * 3600 + int (digits_value M) * 60 + int (digits_value S) - 28800) * 1000000)"
proof -
  define s where "s = A @ ''-'' @ B @ ''-'' @ C @ ''T'' @ H @ '':'' @ M @ '':'' @ S @ ''+08:00''"
  obtain a1 a2 a3 a4 b1 b2 c1 c2 h1 h2 m1 m2 s1 s2 where
    fs: "A = [a1, a2, a3, a4]" "B = [b1, b2]" "C = [c1, c2]" "H = [h1, h2]" "M = [m1, m2]" "S = [s1, s2]"
    using lens digit_field_cases by metis
  have offset: "parse_offset s = Ok (19, 28800)"
    unfolding s_def by (simp add: fs parse_offset_def Let_def byte_at_def parse_digits_unfold is_offset_marker_def
        is_ascii_digit_def digits_value_def digit_val_def)
  have shape: "\<not> (length s < 20 \<or> byte_at s 4 \<noteq> Some (CHR ''-'') \<or> byte_at s 7 \<noteq> Some (CHR ''-'') \<or>
      byte_at s 10 \<noteq> Some (CHR ''T'') \<or> byte_at s 13 \<noteq> Some (CHR '':'') \<or> byte_at s 16 \<noteq> Some (CHR '':''))"
    unfolding s_def by (simp add: fs byte_at_def)
  have fields: "parse_digits s 0 4 = Some (digits_value A)" "parse_digits s 5 2 = Some (digits_value B)"
    "parse_digits s 8 2 = Some (digits_value C)" "parse_digits s 11 2 = Some (digits_value H)"
    "parse_digits s 14 2 = Some (digits_value M)" "parse_digits s 17 2 = Some (digits_value S)"
    using digits unfolding s_def by (simp_all add: fs parse_digits_unfold)
  have sums: "in_i64 (n * 86400)" "in_i64 (n * 86400 + int (digits_value H) * 3600)"
    "in_i64 (n * 86400 + int (digits_value H) * 3600 + int (digits_value M) * 60)"
    "in_i64 (n * 86400 + int (digits_value H) * 3600 + int (digits_value M) * 60 + int (digits_value S))"
    "in_i64 (n * 86400 + int (digits_value H) * 3600 + int (digits_value M) * 60 + int (digits_value S) - 28800)"
    "in_i64 ((n * 86400 + int (digits_value H) * 3600 + int (digits_value M) * 60 + int (digits_value S) - 28800) * 1000000)"
    using days(1,2) time by (auto simp: in_i64_def MIN_EPOCH_DAYS_def MAX_EPOCH_DAYS_def)
  have "parse_match_time s = Ok ((n * 86400 + int (digits_value H) * 3600 + int (digits_value M) * 60 +
      int (digits_value S) - 28800) * 1000000)"
    unfolding parse_match_time_def if_not_P [OF shape] fields
    using date time offset sums
    by (simp add: not_less checked_i64_def Let_def parse_fraction_def SECONDS_PER_DAY_def MICROS_PER_SECOND_def
        flip: days(3))
  then show ?thesis unfolding s_def .
qed

lemma parse_local_time_eq:
  assumes "MIN_EPOCH_DAYS \<le> n" "n \<le> MAX_EPOCH_DAYS"
    and "length H = 2" "length M = 2" "length S = 2" "list_all is_ascii_digit (H @ M @ S)"
    and "digits_value H \<le> 23" "digits_value M \<le> 59" "digits_value S \<le> 59"
  shows "parse_local_time n (H @ '':'' @ M @ '':'' @ S) =
    Ok ((n * 86400 + int (digits_value H) * 3600 + int (digits_value M) * 60 + int (digits_value S) - 28800) * 1000000)"
proof -
  obtain y m d where c: "civil_from_days n = (y, m, d)" by (cases "civil_from_days n")
  have y: "0 \<le> y" "y \<le> 9999" using civil_year_range [OF c] assms(1,2) by auto
  note fields = format_padded_field [OF y(1) date_fields(5) [OF c y]]
    format_padded_field [OF date_fields(1,2) [OF c y]] format_padded_field [OF date_fields(3,4) [OF c y]]
  note lens = fields(1,4,7) and digits = fields(2,5,8) and vals = fields(3,6,9)
  have "parse_match_time (format_padded 4 y @ ''-'' @ format_padded 2 m @ ''-'' @ format_padded 2 d @ ''T'' @ H @ '':'' @ M @
      '':'' @ S @ ''+08:00'') =
    Ok ((n * 86400 + int (digits_value H) * 3600 + int (digits_value M) * 60 + int (digits_value S) - 28800) * 1000000)"
    by (rule second_text_parse [OF lens assms(3-5) _ _ assms(7-9,1,2)])
      (use digits assms(6) vals days_civil_inverse(1,2) [OF c y(1)] in simp_all)
  then show ?thesis by (simp add: parse_local_time_def trading_date_to_string_def c)
qed

lemma clock_digits:
  "digits_value ''00'' = 0" "digits_value ''05'' = 5" "digits_value ''08'' = 8" "digits_value ''09'' = 9" "digits_value ''13'' = 13"
  "digits_value ''15'' = 15" "digits_value ''17'' = 17" "digits_value ''25'' = 25" "digits_value ''30'' = 30" "digits_value ''45'' = 45"
  by code_simp+

lemma clock_chars:
  "is_ascii_digit (CHR ''0'')" "is_ascii_digit (CHR ''1'')" "is_ascii_digit (CHR ''2'')" "is_ascii_digit (CHR ''3'')" "is_ascii_digit (CHR ''4'')"
  "is_ascii_digit (CHR ''5'')" "is_ascii_digit (CHR ''6'')" "is_ascii_digit (CHR ''7'')" "is_ascii_digit (CHR ''8'')" "is_ascii_digit (CHR ''9'')"
  by code_simp+

lemma session_clock:
  assumes "MIN_EPOCH_DAYS \<le> n" "n \<le> MAX_EPOCH_DAYS"
  shows "parse_local_time n ''09:00:00'' = Ok ((n * 86400 + 3600) * 1000000)"
    "parse_local_time n ''13:30:00'' = Ok ((n * 86400 + 19800) * 1000000)"
    "parse_local_time n ''08:45:00'' = Ok ((n * 86400 + 2700) * 1000000)"
    "parse_local_time n ''13:45:00'' = Ok ((n * 86400 + 20700) * 1000000)"
    "parse_local_time n ''15:00:00'' = Ok ((n * 86400 + 25200) * 1000000)"
    "parse_local_time n ''17:25:00'' = Ok ((n * 86400 + 33900) * 1000000)"
    "parse_local_time n ''05:00:00'' = Ok ((n * 86400 - 10800) * 1000000)"
proof -
  show "parse_local_time n ''09:00:00'' = Ok ((n * 86400 + 3600) * 1000000)"
    using parse_local_time_eq [OF assms, of "''09''" "''00''" "''00''"]
    by (simp add: clock_digits clock_chars)
  show "parse_local_time n ''13:30:00'' = Ok ((n * 86400 + 19800) * 1000000)"
    using parse_local_time_eq [OF assms, of "''13''" "''30''" "''00''"]
    by (simp add: clock_digits clock_chars)
  show "parse_local_time n ''08:45:00'' = Ok ((n * 86400 + 2700) * 1000000)"
    using parse_local_time_eq [OF assms, of "''08''" "''45''" "''00''"]
    by (simp add: clock_digits clock_chars)
  show "parse_local_time n ''13:45:00'' = Ok ((n * 86400 + 20700) * 1000000)"
    using parse_local_time_eq [OF assms, of "''13''" "''45''" "''00''"]
    by (simp add: clock_digits clock_chars)
  show "parse_local_time n ''15:00:00'' = Ok ((n * 86400 + 25200) * 1000000)"
    using parse_local_time_eq [OF assms, of "''15''" "''00''" "''00''"]
    by (simp add: clock_digits clock_chars)
  show "parse_local_time n ''17:25:00'' = Ok ((n * 86400 + 33900) * 1000000)"
    using parse_local_time_eq [OF assms, of "''17''" "''25''" "''00''"]
    by (simp add: clock_digits clock_chars)
  show "parse_local_time n ''05:00:00'' = Ok ((n * 86400 - 10800) * 1000000)"
    using parse_local_time_eq [OF assms, of "''05''" "''00''" "''00''"]
    by (simp add: clock_digits clock_chars)
qed

section \<open>Windows\<close>

text \<open>The exchange's hours, as seconds of a local day eight hours ahead of UTC.\<close>

definition local_micros :: "int \<Rightarrow> int \<Rightarrow> int" where
  "local_micros day seconds = (day * 86400 + seconds - 8 * 3600) * 1000000"

definition opening_second :: "session_profile_id \<Rightarrow> session_kind \<Rightarrow> int" where
  "opening_second profile kind =
     (case kind of
        Regular \<Rightarrow> if profile \<in> {TwseRegular, TpexRegular} then 9 * 3600 else 8 * 3600 + 45 * 60
      | AfterHours \<Rightarrow> if profile = TaifexStockFutures then 17 * 3600 + 25 * 60 else 15 * 3600)"

definition closing_second :: "session_profile_id \<Rightarrow> session_kind \<Rightarrow> int" where
  "closing_second profile kind =
     (case kind of
        Regular \<Rightarrow> if profile \<in> {TwseRegular, TpexRegular} then 13 * 3600 + 30 * 60 else 13 * 3600 + 45 * 60
      | AfterHours \<Rightarrow> 5 * 3600)"

text \<open>The evening session opens on the last weekday before the trading date.\<close>

definition opening_day :: "session_kind \<Rightarrow> int \<Rightarrow> int" where
  "opening_day kind date = (case kind of Regular \<Rightarrow> date | AfterHours \<Rightarrow> latest_weekday (date - 1))"

definition expected_window :: "session_profile_id \<Rightarrow> session_kind \<Rightarrow> int \<Rightarrow> session_window" where
  "expected_window profile kind date =
     (let opens = local_micros (opening_day kind date) (opening_second profile kind);
          closes = local_micros date (closing_second profile kind)
      in \<lparr>sw_kind = kind, sw_trading_date = date, sw_open = opens, sw_close = closes,
          sw_replay_start = opens - 300000000, sw_replay_end_exclusive = closes + 300000000\<rparr>)"

lemma latest_weekday_bounds: "d - 2 \<le> latest_weekday d" "latest_weekday d \<le> d"
  by (simp_all add: latest_weekday_def)

lemma margin_fits:
  assumes "MIN_EPOCH_DAYS - 3 \<le> n" "n \<le> MAX_EPOCH_DAYS" "- 100000 \<le> sec" "sec \<le> 100000"
  shows "in_i64 ((n * 86400 + sec) * 1000000 + 300000000)" "in_i64 ((n * 86400 + sec) * 1000000 - 300000000)"
  using assms by (auto simp: in_i64_def MIN_EPOCH_DAYS_def MAX_EPOCH_DAYS_def)

lemma build_window_times:
  assumes "MIN_EPOCH_DAYS \<le> od" "od \<le> MAX_EPOCH_DAYS" "MIN_EPOCH_DAYS \<le> cd" "cd \<le> MAX_EPOCH_DAYS"
    and times: "session_times profile kind date = Ok (od, ot, cd, ct)"
    and ot: "parse_local_time od ot = Ok ((od * 86400 + os) * 1000000)" "- 100000 \<le> os" "os \<le> 100000"
    and ct: "parse_local_time cd ct = Ok ((cd * 86400 + cs) * 1000000)" "- 100000 \<le> cs" "cs \<le> 100000"
  shows "build_window profile kind date = Ok \<lparr>sw_kind = kind, sw_trading_date = date,
      sw_open = (od * 86400 + os) * 1000000, sw_close = (cd * 86400 + cs) * 1000000,
      sw_replay_start = (od * 86400 + os) * 1000000 - 300000000,
      sw_replay_end_exclusive = (cd * 86400 + cs) * 1000000 + 300000000\<rparr>"
  using margin_fits [of od os] margin_fits [of cd cs] assms
  by (simp add: build_window_def checked_i64_def REPLAY_MARGIN_MICROSECONDS_def)

lemma build_window_eq:
  assumes range: "MIN_EPOCH_DAYS \<le> date" "date \<le> MAX_EPOCH_DAYS" and allowed: "profile_allows profile kind"
  shows "build_window profile kind date =
    (if MIN_EPOCH_DAYS \<le> opening_day kind date then Ok (expected_window profile kind date) else Err CalendarOverflow)"
proof (cases kind)
  case Regular
  note w = build_window_times [OF range range _ session_clock(1) [OF range] _ _ session_clock(2) [OF range], of profile kind date]
    build_window_times [OF range range _ session_clock(3) [OF range] _ _ session_clock(4) [OF range], of profile kind date]
  show ?thesis
    using w Regular range
    by (cases profile) (simp_all add: session_times_def expected_window_def local_micros_def opening_day_def opening_second_def
        closing_second_def Let_def)
next
  case AfterHours
  let ?p = "latest_weekday (date - 1)"
  show ?thesis
  proof (cases "MIN_EPOCH_DAYS \<le> ?p")
    case True
    have p: "MIN_EPOCH_DAYS \<le> ?p" "?p \<le> MAX_EPOCH_DAYS" using True range latest_weekday_bounds(2) [of "date - 1"] by auto
    note w = build_window_times [OF p range _ session_clock(5) [OF p] _ _ session_clock(7) [OF range, unfolded diff_conv_add_uminus [of _ 10800]], of profile kind date]
      build_window_times [OF p range _ session_clock(6) [OF p] _ _ session_clock(7) [OF range, unfolded diff_conv_add_uminus [of _ 10800]], of profile kind date]
    show ?thesis
      using w AfterHours True allowed previous_business_date_eq [OF range]
      by (cases profile) (simp_all add: session_times_def expected_window_def local_micros_def opening_day_def opening_second_def
          closing_second_def profile_allows_def Let_def)
  next
    case False
    then show ?thesis
      using AfterHours allowed previous_business_date_eq [OF range]
      by (cases profile) (simp_all add: build_window_def session_times_def opening_day_def profile_allows_def)
  qed
qed

lemma sorted_kinds:
  "remdups_adj (sort_key session_kind_discriminant kinds) = filter (\<lambda>k. k \<in> set kinds) [Regular, AfterHours]"
proof -
  let ?ks = "sort_key session_kind_discriminant kinds"
  have inj: "session_kind_discriminant a = session_kind_discriminant b \<longleftrightarrow> a = b" for a b by (cases a; cases b) simp_all
  have shape: "\<exists>m n. ks = replicate m Regular @ replicate n AfterHours"
    if "sorted (map session_kind_discriminant ks)" for ks
    using that
  proof (induction ks)
    case (Cons k ks)
    then obtain m n where ks: "ks = replicate m Regular @ replicate n AfterHours" by auto
    show ?case
    proof (cases k)
      case Regular
      then show ?thesis using ks by (metis append_Cons replicate_Suc)
    next
      case AfterHours
      then have "m = 0" using Cons.prems ks by (cases m) auto
      then show ?thesis using ks AfterHours by (metis append_Nil replicate_0 replicate_Suc)
    qed
  qed auto
  obtain m n where ks: "?ks = replicate m Regular @ replicate n AfterHours"
    using shape [of ?ks] sorted_sort_key by blast
  have "set kinds = set (replicate m Regular @ replicate n AfterHours)" using ks by (metis set_sort)
  moreover have "remdups_adj (replicate m Regular @ replicate n AfterHours) =
      (if m = 0 then [] else [Regular]) @ (if n = 0 then [] else [AfterHours])" for m n
  proof (induction m)
    case 0
    show ?case by (induction n) (auto simp: remdups_adj_Cons split: list.splits if_splits)
  next
    case (Suc m)
    then show ?case by (auto simp: remdups_adj_Cons split: list.splits if_splits)
  qed
  ultimately show ?thesis unfolding ks by auto
qed

lemma plan_windows:
  assumes "MIN_EPOCH_DAYS \<le> date" "date \<le> MAX_EPOCH_DAYS" "\<forall>k \<in> set kinds. profile_allows profile k"
  shows "rmap (\<lambda>kind. build_window profile kind date) kinds = Ok ws \<longleftrightarrow>
    (\<forall>k \<in> set kinds. MIN_EPOCH_DAYS \<le> opening_day k date) \<and> ws = map (\<lambda>k. expected_window profile k date) kinds"
  using assms(3) build_window_eq [OF assms(1,2)]
  by (induction kinds arbitrary: ws) auto

lemma session_bytes_fit:
  "is_ok (session_canonical_bytes instrument date profile ws) \<longleftrightarrow>
     in_u32 (length (snd instrument)) \<and> in_u32 (length ws)"
  by (auto simp: session_canonical_bytes_def is_ok_map_err is_ok_append_all append_window_def append_bytes_def append_length_def
      push_def as_bytes_def list_all_iff)

lemma find_SomeD: "find P xs = Some x \<Longrightarrow> x \<in> set xs \<and> P x"
  by (metis find_Some_iff nth_mem)

abbreviation requested_kinds :: "session_kind list \<Rightarrow> session_kind list" where
  "requested_kinds kinds \<equiv> filter (\<lambda>k. k \<in> set kinds) [Regular, AfterHours]"

lemma requested_kinds_set: "set (requested_kinds kinds) = set kinds" "requested_kinds kinds = [] \<longleftrightarrow> kinds = []"
proof -
  have "k \<in> set [Regular, AfterHours]" for k by (cases k) simp_all
  then show eq: "set (requested_kinds kinds) = set kinds" unfolding set_filter by blast
  show "requested_kinds kinds = [] \<longleftrightarrow> kinds = []" unfolding set_empty [symmetric] eq ..
qed

lemma session_plan_Ok:
  assumes range: "MIN_EPOCH_DAYS \<le> date" "date \<le> MAX_EPOCH_DAYS"
  shows "session_plan_with_profile hash instrument date profile kinds = Ok plan \<longleftrightarrow>
      \<not> is_weekend date \<and> kinds \<noteq> [] \<and> (\<forall>k \<in> set kinds. profile_allows profile k) \<and>
      (AfterHours \<in> set kinds \<longrightarrow> MIN_EPOCH_DAYS \<le> latest_weekday (date - 1)) \<and>
      (\<exists>canonical. session_canonical_bytes instrument date profile
           (map (\<lambda>k. expected_window profile k date) (requested_kinds kinds)) = Ok canonical \<and>
         plan = \<lparr>pn_instrument = instrument, pn_trading_date = date, pn_profile = profile,
            pn_calendar_version = SESSION_CALENDAR_VERSION, pn_profile_version = SESSION_PROFILE_VERSION,
            pn_window_policy_version = SESSION_WINDOW_POLICY_VERSION,
            pn_windows = map (\<lambda>k. expected_window profile k date) (requested_kinds kinds), pn_identity = hash canonical\<rparr>)"
proof (cases "find (\<lambda>kind. \<not> profile_allows profile kind) (requested_kinds kinds)")
  case None
  then have allowed: "\<forall>k \<in> set (requested_kinds kinds). profile_allows profile k" unfolding find_None_iff by blast
  have days: "(\<forall>k \<in> set (requested_kinds kinds). MIN_EPOCH_DAYS \<le> opening_day k date) \<longleftrightarrow>
      (AfterHours \<in> set kinds \<longrightarrow> MIN_EPOCH_DAYS \<le> latest_weekday (date - 1))"
    using range by (auto simp: opening_day_def)
  show ?thesis
    unfolding session_plan_with_profile_def sorted_kinds Let_def requested_kinds_set(2) None
    using plan_windows [OF range allowed, unfolded days] allowed unfolding requested_kinds_set(1) by auto
next
  case (Some k)
  then have "k \<in> set kinds" "\<not> profile_allows profile k" using find_SomeD [OF Some] unfolding requested_kinds_set(1) by blast+
  then show ?thesis unfolding session_plan_with_profile_def sorted_kinds Let_def requested_kinds_set(2) Some by auto
qed

lemma expected_window_segment:
  assumes range: "MIN_EPOCH_DAYS \<le> date" "date \<le> MAX_EPOCH_DAYS" and w: "w = expected_window profile k date"
  shows "is_ok (session_segment_new segment (sw_kind w) date (sw_open w) (sw_close w))"
    and "sw_replay_start w = sw_open w - WARM_UP_MICROSECONDS"
    and "sw_replay_end_exclusive w = sw_close w + WARM_UP_MICROSECONDS"
  using latest_weekday_bounds [of "date - 1"] range
  by (cases k; auto simp: w expected_window_def Let_def session_segment_new_def WARM_UP_MICROSECONDS_def local_micros_def
      opening_day_def opening_second_def closing_second_def checked_i64_def in_i64_def MIN_EPOCH_DAYS_def MAX_EPOCH_DAYS_def is_ok_iff)+

text \<open>
  C32: session plans are exact and always found. For a supported trading date the plan exists exactly when
  the date is a weekday, at least one session kind is requested, the profile offers all of them, the
  calendar still has a weekday before the date when an evening session is requested, and the symbol's
  length fits. Its windows are then the requested kinds, regular first; each opens and closes at the
  hours of its profile, the evening session on the latest weekday before the date; each is a session
  segment of the strategy interface with the same five minutes of margin; and the replay windows do not
  overlap.
\<close>

theorem session_plan_exact:
  assumes range: "MIN_EPOCH_DAYS \<le> date" "date \<le> MAX_EPOCH_DAYS"
  shows "(is_ok (session_plan_with_profile hash instrument date profile kinds) \<longleftrightarrow>
      \<not> is_weekend date \<and> kinds \<noteq> [] \<and> (\<forall>k \<in> set kinds. profile_allows profile k) \<and>
      (AfterHours \<in> set kinds \<longrightarrow> MIN_EPOCH_DAYS \<le> latest_weekday (date - 1)) \<and> in_u32 (length (snd instrument))) \<and>
    (\<forall>plan. session_plan_with_profile hash instrument date profile kinds = Ok plan \<longrightarrow>
       pn_windows plan = map (\<lambda>k. expected_window profile k date) (filter (\<lambda>k. k \<in> set kinds) [Regular, AfterHours]) \<and>
       (\<forall>w \<in> set (pn_windows plan).
          is_ok (session_segment_new segment (sw_kind w) date (sw_open w) (sw_close w)) \<and>
          sw_replay_start w = sw_open w - WARM_UP_MICROSECONDS \<and>
          sw_replay_end_exclusive w = sw_close w + WARM_UP_MICROSECONDS) \<and>
       (\<forall>v \<in> set (pn_windows plan). \<forall>w \<in> set (pn_windows plan). v \<noteq> w \<longrightarrow>
          sw_replay_end_exclusive v < sw_replay_start w \<or> sw_replay_end_exclusive w < sw_replay_start v))"
proof (intro conjI allI impI)
  have "in_u32 (length (requested_kinds kinds))" by (simp add: in_u32_def)
  then have "is_ok (session_canonical_bytes instrument date profile
      (map (\<lambda>k. expected_window profile k date) (requested_kinds kinds))) \<longleftrightarrow> in_u32 (length (snd instrument))"
    by (simp add: session_bytes_fit)
  then show "is_ok (session_plan_with_profile hash instrument date profile kinds) \<longleftrightarrow>
      \<not> is_weekend date \<and> kinds \<noteq> [] \<and> (\<forall>k \<in> set kinds. profile_allows profile k) \<and>
      (AfterHours \<in> set kinds \<longrightarrow> MIN_EPOCH_DAYS \<le> latest_weekday (date - 1)) \<and> in_u32 (length (snd instrument))"
    unfolding is_ok_iff session_plan_Ok [OF range] by auto
next
  fix plan
  assume "session_plan_with_profile hash instrument date profile kinds = Ok plan"
  then show ws: "pn_windows plan = map (\<lambda>k. expected_window profile k date) (requested_kinds kinds)"
    unfolding session_plan_Ok [OF range] by auto
  show "\<forall>w \<in> set (pn_windows plan).
      is_ok (session_segment_new segment (sw_kind w) date (sw_open w) (sw_close w)) \<and>
      sw_replay_start w = sw_open w - WARM_UP_MICROSECONDS \<and>
      sw_replay_end_exclusive w = sw_close w + WARM_UP_MICROSECONDS"
  proof
    fix w
    assume "w \<in> set (pn_windows plan)"
    then obtain k where w: "w = expected_window profile k date" unfolding ws by auto
    show "is_ok (session_segment_new segment (sw_kind w) date (sw_open w) (sw_close w)) \<and>
      sw_replay_start w = sw_open w - WARM_UP_MICROSECONDS \<and>
      sw_replay_end_exclusive w = sw_close w + WARM_UP_MICROSECONDS"
      by (intro conjI expected_window_segment [OF range w])
  qed
  have apart: "sw_replay_end_exclusive (expected_window profile AfterHours date) <
      sw_replay_start (expected_window profile Regular date)"
    by (simp add: expected_window_def local_micros_def opening_day_def opening_second_def closing_second_def Let_def)
  show "\<forall>v \<in> set (pn_windows plan). \<forall>w \<in> set (pn_windows plan). v \<noteq> w \<longrightarrow>
      sw_replay_end_exclusive v < sw_replay_start w \<or> sw_replay_end_exclusive w < sw_replay_start v"
    unfolding ws using apart by (auto split: if_splits)
qed

text \<open>Monday 2026-07-27: the evening session opened on the Friday before, day 20658.\<close>

theorem session_plan_exact_witness:
  "\<exists>plan. session_plan_with_profile sample_hash (Taifex, ''TXFH6'') 20661 TaifexIndexFutures [AfterHours, Regular] = Ok plan \<and>
     map sw_kind (pn_windows plan) = [Regular, AfterHours] \<and>
     map sw_open (pn_windows plan) = [local_micros 20661 31500, local_micros 20658 54000]"
proof -
  have "MIN_EPOCH_DAYS \<le> 20661" "20661 \<le> MAX_EPOCH_DAYS" by (simp_all add: MIN_EPOCH_DAYS_def MAX_EPOCH_DAYS_def)
  note exact = session_plan_exact [OF this, of sample_hash "(Taifex, ''TXFH6'')" TaifexIndexFutures "[AfterHours, Regular]" "''day''"]
  have "is_ok (session_plan_with_profile sample_hash (Taifex, ''TXFH6'') 20661 TaifexIndexFutures [AfterHours, Regular])"
    using exact by (simp add: is_weekend_def profile_allows_def latest_weekday_def MIN_EPOCH_DAYS_def in_u32_def)
  then obtain plan where plan: "session_plan_with_profile sample_hash (Taifex, ''TXFH6'') 20661 TaifexIndexFutures [AfterHours, Regular] = Ok plan"
    by (auto simp: is_ok_iff)
  have "pn_windows plan = [expected_window TaifexIndexFutures Regular 20661, expected_window TaifexIndexFutures AfterHours 20661]"
    using exact plan by auto
  then show ?thesis
    using plan by (simp add: expected_window_def Let_def opening_day_def opening_second_def latest_weekday_def)
qed

end
