(* ===== verification/Charges.thy ===== *)
theory Charges
  imports Orders
begin

text \<open>
  The exact-decimal arithmetic of \<open>crates/execution-sim/src/accounting.rs\<close>: the product of two
  decimals through reduced fractions, the rounding division, and the fee and tax charge of a fill.
  A decimal is its \<open>i128\<close> atoms; a multiplication that leaves the range is an \<open>Overflow\<close> error, and
  the one unchecked product of the source (\<open>remainder.abs() * 2\<close>) wraps, as it does in a release
  build. The reduced forms are shown to compute the unreduced ones: \<open>multiply_decimal_atoms\<close> returns
  the exact product whenever it is representable, and a charge is the doubly rounded product of
  amount and rate.
\<close>

section \<open>Model\<close>

datatype accounting_model = EquityV1 | FuturesV1 | OptionsV1

record instrument_economics =
  ec_units_per_trading_unit :: nat
  ec_multiplier :: decimal
  ec_provenance :: string

datatype charge_sides = ChargeBuy | ChargeSell | ChargeBoth
datatype rounding_policy = RoundDown | RoundHalfUp | RoundUp
datatype charge_basis = NotionalRate | FixedPerUnit

record charge_model =
  cm_basis :: charge_basis
  cm_rate :: decimal
  cm_sides :: charge_sides
  cm_minimum :: decimal
  cm_precision :: nat
  cm_rounding :: rounding_policy

type_synonym cash_charge_identity = bytes

datatype accounting_error =
    InvalidModel
  | InvalidPriceForInstrument
  | AccOverflow
  | AccPrecisionLoss
  | MissingCostBasis
  | Reconciliation
  | EmptyUniverse
  | DuplicateInstrument instrument_id
  | UnknownInstrument instrument_id
  | AccQuantityUnitMismatch quantity_unit quantity_unit
  | AccountingModelMismatch instrument_id
  | MissingFinalMark instrument_id
  | InvalidTradingDate
  | InvalidCashCharge
  | DuplicateCashCharge cash_charge_identity

definition acc_add :: "decimal \<Rightarrow> decimal \<Rightarrow> (decimal, accounting_error) result" where
  "acc_add a b = map_err (\<lambda>_. AccOverflow) (decimal_checked_add a b)"

definition acc_sub :: "decimal \<Rightarrow> decimal \<Rightarrow> (decimal, accounting_error) result" where
  "acc_sub a b = map_err (\<lambda>_. AccOverflow) (decimal_checked_sub a b)"

definition acc_neg :: "decimal \<Rightarrow> (decimal, accounting_error) result" where
  "acc_neg a = map_err (\<lambda>_. AccOverflow) (decimal_checked_neg a)"

text \<open>The checked \<open>i128\<close> operations, with overflow as the error they are mapped to.\<close>

definition acc_i128 :: "int \<Rightarrow> (int, accounting_error) result" where
  "acc_i128 x = ok_or (checked_i128 x) AccOverflow"

function gcd_loop :: "nat \<Rightarrow> nat \<Rightarrow> nat" where
  "gcd_loop left right = (if right = 0 then left else gcd_loop right (left mod right))"
  by pat_completeness auto
termination
  by (relation "measure snd") auto

declare gcd_loop.simps [simp del]

text \<open>
  The reduction both products share: each factor is divided by its common divisor with what is left
  of the scale factor.
\<close>

definition reduce_product :: "int \<Rightarrow> int \<Rightarrow> int \<times> int \<times> int" where
  "reduce_product left right =
     (let denominator = DECIMAL_SCALE_FACTOR;
          first = u128_as_i128 (gcd_loop (nat \<bar>left\<bar>) (nat denominator));
          left' = tdiv left first;
          denominator' = tdiv denominator first;
          second = u128_as_i128 (gcd_loop (nat \<bar>right\<bar>) (nat denominator'))
      in (left', tdiv right second, tdiv denominator' second))"

definition multiply_decimal_atoms :: "int \<Rightarrow> int \<Rightarrow> (int, accounting_error) result" where
  "multiply_decimal_atoms left right =
     (let (left', right', denominator) = reduce_product left right
      in rbind (acc_i128 (left' * right')) (\<lambda>product.
           if trem product denominator \<noteq> 0 then Err AccPrecisionLoss
           else Ok (tdiv product denominator)))"

definition scale_by_quantity :: "decimal \<Rightarrow> nat \<Rightarrow> instrument_economics \<Rightarrow> (decimal, accounting_error) result" where
  "scale_by_quantity v quantity ec =
     rbind (acc_i128 (int quantity)) (\<lambda>q.
       rbind (multiply_decimal_atoms v (ec_multiplier ec)) (\<lambda>scaled.
         rbind (acc_i128 (scaled * q)) (\<lambda>p. acc_i128 (p * int (ec_units_per_trading_unit ec)))))"

definition wrap_i128 :: "int \<Rightarrow> int" where
  "wrap_i128 x = (x + 2 ^ 127) mod 2 ^ 128 - 2 ^ 127"

definition divide_round :: "int \<Rightarrow> int \<Rightarrow> rounding_policy \<Rightarrow> (int, accounting_error) result" where
  "divide_round numerator denominator policy =
     (let quotient = tdiv numerator denominator;
          remainder = trem numerator denominator
      in if remainder = 0 then Ok quotient
         else case policy of
             RoundDown \<Rightarrow> Ok quotient
           | RoundUp \<Rightarrow> acc_i128 (quotient + 1)
           | RoundHalfUp \<Rightarrow>
               (if \<bar>denominator\<bar> \<le> wrap_i128 (\<bar>remainder\<bar> * 2) then acc_i128 (quotient + 1)
                else Ok quotient))"

fun charge_applies :: "charge_sides \<Rightarrow> order_side \<Rightarrow> bool" where
  "charge_applies ChargeBoth _ = True"
| "charge_applies ChargeBuy Buy = True"
| "charge_applies ChargeSell Sell = True"
| "charge_applies _ _ = False"

text \<open>
  The amount a charge is a share of: the size of the notional, or the quantity as a decimal.
\<close>

definition charge_amount :: "decimal \<Rightarrow> nat \<Rightarrow> charge_basis \<Rightarrow> int" where
  "charge_amount notional quantity basis =
     (case basis of NotionalRate \<Rightarrow> \<bar>notional\<bar> | FixedPerUnit \<Rightarrow> int quantity * DECIMAL_SCALE_FACTOR)"

text \<open>
  \<open>18 - model.precision\<close> is a \<open>u8\<close> subtraction; callers have checked that the precision is at most
  18.
\<close>

definition charge_quantum :: "charge_model \<Rightarrow> int" where
  "charge_quantum m = 10 ^ nat ((18 - int (cm_precision m)) mod 256)"

definition charge :: "decimal \<Rightarrow> nat \<Rightarrow> order_side \<Rightarrow> charge_model \<Rightarrow> (decimal, accounting_error) result" where
  "charge notional quantity side m =
     (if \<not> charge_applies (cm_sides m) side then Ok 0
      else rbind (acc_i128 (charge_amount notional quantity (cm_basis m))) (\<lambda>left.
        let (left', right', denominator) = reduce_product left (cm_rate m) in
        rbind (acc_i128 (left' * right')) (\<lambda>product.
        rbind (divide_round product denominator (cm_rounding m)) (\<lambda>raw.
        rbind (acc_i128 (charge_quantum m)) (\<lambda>quantum.
        rbind (divide_round raw quantum (cm_rounding m)) (\<lambda>units.
        rbind (acc_i128 (units * quantum)) (\<lambda>rounded.
          Ok (max rounded (cm_minimum m)))))))))"

definition validate_models ::
  "instrument_economics \<Rightarrow> charge_model \<Rightarrow> charge_model \<Rightarrow> (unit, accounting_error) result" where
  "validate_models ec fee tax =
     (if ec_units_per_trading_unit ec = 0 \<or> ec_multiplier ec \<le> 0 \<or> ec_provenance ec = [] \<or>
         cm_rate fee < 0 \<or> cm_minimum fee < 0 \<or> cm_rate tax < 0 \<or> cm_minimum tax < 0 \<or>
         18 < cm_precision fee \<or> 18 < cm_precision tax
      then Err InvalidModel else Ok ())"

definition assess_fill_charge ::
  "price \<Rightarrow> quantity \<Rightarrow> order_side \<Rightarrow> instrument_economics \<Rightarrow> charge_model \<Rightarrow>
   (decimal, accounting_error) result" where
  "assess_fill_charge p quantity side ec m =
     rbind (validate_models ec m m) (\<lambda>_.
       rbind (scale_by_quantity p (q_value quantity) ec) (\<lambda>notional.
         charge notional (q_value quantity) side m))"

section \<open>Checked arithmetic\<close>

lemma acc_i128_Ok [simp]: "acc_i128 x = Ok y \<longleftrightarrow> in_i128 x \<and> y = x"
  by (auto simp: acc_i128_def)

lemma acc_add_Ok [simp]: "acc_add a b = Ok c \<longleftrightarrow> in_i128 (a + b) \<and> c = a + b"
  by (auto simp: acc_add_def decimal_checked_add_def)

lemma acc_sub_Ok [simp]: "acc_sub a b = Ok c \<longleftrightarrow> in_i128 (a - b) \<and> c = a - b"
  by (auto simp: acc_sub_def decimal_checked_sub_def)

lemma acc_neg_Ok [simp]: "acc_neg a = Ok c \<longleftrightarrow> in_i128 (- a) \<and> c = - a"
  by (auto simp: acc_neg_def decimal_checked_neg_def)

lemma acc_Err:
  "acc_i128 x = Err e \<longleftrightarrow> \<not> in_i128 x \<and> e = AccOverflow"
  "acc_add a b = Err e \<longleftrightarrow> \<not> in_i128 (a + b) \<and> e = AccOverflow"
  "acc_sub a b = Err e \<longleftrightarrow> \<not> in_i128 (a - b) \<and> e = AccOverflow"
  by (auto simp: acc_i128_def acc_add_def acc_sub_def decimal_checked_add_def decimal_checked_sub_def
      map_err_eq_Err)

lemma validate_models_Ok:
  "validate_models ec fee tax = Ok () \<longleftrightarrow>
     0 < ec_units_per_trading_unit ec \<and> 0 < ec_multiplier ec \<and> ec_provenance ec \<noteq> [] \<and>
     0 \<le> cm_rate fee \<and> 0 \<le> cm_minimum fee \<and> cm_precision fee \<le> 18 \<and>
     0 \<le> cm_rate tax \<and> 0 \<le> cm_minimum tax \<and> cm_precision tax \<le> 18"
  by (auto simp: validate_models_def)

section \<open>Reduced products\<close>

lemma gcd_loop_gcd: "gcd_loop a b = gcd a b"
proof (induction a b rule: gcd_loop.induct)
  case (1 a b)
  then show ?case by (simp add: gcd_loop.simps [of a b] gcd_non_0_nat)
qed

lemma gcd_loop_int: "0 < d \<Longrightarrow> int (gcd_loop (nat \<bar>x\<bar>) (nat d)) = gcd x d"
  by (simp add: gcd_loop_gcd flip: gcd_int_int_eq)

lemma DECIMAL_SCALE_FACTOR_pos [simp]: "0 < DECIMAL_SCALE_FACTOR"
  by (simp add: DECIMAL_SCALE_FACTOR_def)

lemma gcd_cast:
  assumes "0 < d" and "d \<le> DECIMAL_SCALE_FACTOR"
  shows "u128_as_i128 (gcd_loop (nat \<bar>x\<bar>) (nat d)) = gcd x d"
proof -
  have le: "gcd x d \<le> d" using assms(1) by (simp add: zdvd_imp_le)
  have "d < 2 ^ 127" using assms(2) by (simp add: DECIMAL_SCALE_FACTOR_def)
  then have "int (gcd_loop (nat \<bar>x\<bar>) (nat d)) < 2 ^ 127"
    using le assms(1) gcd_loop_int [of d x] by linarith
  then have "gcd_loop (nat \<bar>x\<bar>) (nat d) < 2 ^ 127" by (simp flip: of_nat_less_iff)
  then show ?thesis using assms gcd_loop_int [of d x] by simp
qed

lemma tdiv_exact: "b \<noteq> 0 \<Longrightarrow> a = b * k \<Longrightarrow> tdiv a b = k"
  using tdiv_dvd [of b a] by simp

text \<open>The reduced fraction is the fraction \<open>left * right / 10^18\<close> in lowest terms.\<close>

lemma reduce_product_fraction:
  assumes "reduce_product left right = (l, r, d)"
  shows "0 < d" and "l * r * DECIMAL_SCALE_FACTOR = left * right * d"
    and "coprime (l * r) d" and "\<bar>l\<bar> \<le> \<bar>left\<bar>" and "\<bar>r\<bar> \<le> \<bar>right\<bar>" and "d \<le> DECIMAL_SCALE_FACTOR"
    and "0 \<le> left \<Longrightarrow> 0 \<le> l" and "0 \<le> right \<Longrightarrow> 0 \<le> r"
proof -
  define D where "D = DECIMAL_SCALE_FACTOR"
  define g where "g = gcd left D"
  have D: "0 < D" by (simp add: D_def)
  then have g: "0 < g" by (simp add: g_def)
  obtain l1 d1 where l1: "left = g * l1" and d1: "D = g * d1" and c1: "coprime l1 d1"
    using gcd_coprime_exists [of left D] g unfolding g_def by (auto simp: mult.commute)
  have d1p: "0 < d1" using D d1 g by (metis zero_less_mult_pos)
  have d1le: "d1 \<le> D" using d1p g d1 by simp
  define h where "h = gcd right d1"
  have h: "0 < h" using d1p by (simp add: h_def)
  obtain r1 d2 where r1: "right = h * r1" and d2: "d1 = h * d2" and c2: "coprime r1 d2"
    using gcd_coprime_exists [of right d1] h unfolding h_def by (auto simp: mult.commute)
  have "reduce_product left right = (l1, r1, d2)"
    using gcd_cast [of D left] gcd_cast [of d1 right] D d1p d1le g h
      tdiv_exact [OF _ l1] tdiv_exact [OF _ d1] tdiv_exact [OF _ r1] tdiv_exact [OF _ d2]
    by (simp add: reduce_product_def Let_def flip: D_def g_def h_def)
  then have eq: "l = l1" "r = r1" "d = d2" using assms by simp_all
  show dp: "0 < d" using d1p d2 h by (simp add: eq zero_less_mult_iff)
  show "l * r * DECIMAL_SCALE_FACTOR = left * right * d"
    by (simp add: eq l1 r1 d1 d2 flip: D_def)
  show "coprime (l * r) d" using c1 c2 by (simp add: eq d2)
  show "\<bar>l\<bar> \<le> \<bar>left\<bar>" "\<bar>r\<bar> \<le> \<bar>right\<bar>"
    using g h mult_right_mono [of 1 g "\<bar>l1\<bar>"] mult_right_mono [of 1 h "\<bar>r1\<bar>"]
    by (simp_all add: eq l1 r1 abs_mult)
  show "d \<le> DECIMAL_SCALE_FACTOR"
  proof -
    have "1 * d2 \<le> h * d2" using h dp by (intro mult_right_mono) (simp_all add: eq)
    then show ?thesis using d1le d2 by (simp add: eq flip: D_def)
  qed
  show "0 \<le> left \<Longrightarrow> 0 \<le> l" "0 \<le> right \<Longrightarrow> 0 \<le> r"
    using g h by (simp_all add: eq l1 r1 zero_le_mult_iff)
qed

lemma reduced_lowest_terms:
  assumes "reduce_product left right = (l, r, d)"
  shows "l * r = left * right div gcd (left * right) DECIMAL_SCALE_FACTOR"
proof -
  note f = reduce_product_fraction [OF assms]
  have "d dvd l * r * DECIMAL_SCALE_FACTOR" using f(2) by simp
  then have "d dvd DECIMAL_SCALE_FACTOR" using f(3) by (simp add: coprime_commute coprime_dvd_mult_right_iff)
  then obtain k where k: "DECIMAL_SCALE_FACTOR = d * k" by blast
  have kp: "0 < k" using f(1) k DECIMAL_SCALE_FACTOR_pos by (metis zero_less_mult_pos)
  have prod: "left * right = k * (l * r)" using f(1,2) by (simp add: k mult.commute mult.left_commute)
  have "gcd (k * (l * r)) (k * d) = k * gcd (l * r) d" using kp by (simp add: gcd_mult_left)
  then have "gcd (left * right) DECIMAL_SCALE_FACTOR = k"
    using f(3) by (simp add: prod k coprime_iff_gcd_eq_1 mult.commute)
  then show ?thesis using kp by (simp add: prod)
qed

lemma multiply_exact:
  "multiply_decimal_atoms left right = Ok p \<longleftrightarrow>
     p * DECIMAL_SCALE_FACTOR = left * right \<and> in_i128 p"
proof -
  obtain l r d where red: "reduce_product left right = (l, r, d)" by (cases "reduce_product left right")
  note f = reduce_product_fraction [OF red]
  have "multiply_decimal_atoms left right = Ok p \<longleftrightarrow> in_i128 (l * r) \<and> d dvd l * r \<and> p = tdiv (l * r) d"
    by (auto simp: multiply_decimal_atoms_def red trem_eq_0_iff)
  also have "\<dots> \<longleftrightarrow> d = 1 \<and> in_i128 p \<and> p = l * r"
  proof
    assume *: "in_i128 (l * r) \<and> d dvd l * r \<and> p = tdiv (l * r) d"
    then have "is_unit d" using f(3) coprime_absorb_right by blast
    then have "d = 1" using f(1) by simp
    with * show "d = 1 \<and> in_i128 p \<and> p = l * r" by (simp add: tdiv_exact)
  qed (auto simp: tdiv_exact)
  also have "\<dots> \<longleftrightarrow> p * DECIMAL_SCALE_FACTOR = left * right \<and> in_i128 p"
  proof
    assume "p * DECIMAL_SCALE_FACTOR = left * right \<and> in_i128 p"
    moreover from this have "l * r * DECIMAL_SCALE_FACTOR = p * d * DECIMAL_SCALE_FACTOR"
      using f(2) by (simp add: algebra_simps)
    then have "l * r = p * d" using DECIMAL_SCALE_FACTOR_pos by auto
    moreover from this have "is_unit d" using f(3) coprime_absorb_right [of d "l * r"] by simp
    then have "d = 1" using f(1) by simp
    ultimately show "d = 1 \<and> in_i128 p \<and> p = l * r" by simp
  qed (use f(2) in auto)
  finally show ?thesis .
qed

text \<open>
  Products of decimals are exact and complete. \<open>multiply_decimal_atoms\<close> returns \<open>p\<close> exactly when
  \<open>p\<close> atoms are the product of the two decimals and fit the \<open>i128\<close> range: the reduction by common
  divisors never rounds, never refuses a representable product, and an intermediate product never
  overflows when the result is representable.
\<close>

theorem multiply_decimal_atoms_exact:
  "multiply_decimal_atoms left right = Ok p \<longleftrightarrow>
     p * DECIMAL_SCALE_FACTOR = left * right \<and> in_i128 p"
  by (rule multiply_exact)

section \<open>Rounding\<close>

text \<open>The rounded quotient of a non-negative number, as a function on the integers.\<close>

definition round_ratio :: "rounding_policy \<Rightarrow> int \<Rightarrow> int \<Rightarrow> int" where
  "round_ratio policy n d =
     (case policy of RoundDown \<Rightarrow> n div d | RoundUp \<Rightarrow> - ((- n) div d) | RoundHalfUp \<Rightarrow> (2 * n + d) div (2 * d))"

lemma round_ratio_scale: "0 < k \<Longrightarrow> round_ratio policy (k * n) (k * d) = round_ratio policy n d"
  by (cases policy) (simp_all add: round_ratio_def div_mult_mult1 flip: mult_minus_right
      distrib_left mult.left_commute [of k 2])

lemma ceiling_quotient:
  assumes "0 < d" and "n mod d \<noteq> 0"
  shows "- ((- n) div d) = n div d + (1 :: int)"
  using assms by (simp add: zdiv_zminus1_eq_if)

lemma half_up_quotient:
  assumes "0 < (d :: int)"
  shows "(2 * n + d) div (2 * d) = n div d + (if d \<le> 2 * (n mod d) then 1 else 0)"
proof -
  have r: "0 \<le> n mod d" "n mod d < d" using assms by simp_all
  have "2 * n + d = (2 * (n mod d) + d) + n div d * (2 * d)"
    using arg_cong [OF div_mult_mod_eq [of n d], of "\<lambda>x. 2 * x"] by (simp only: algebra_simps)
  then have "(2 * n + d) div (2 * d) = (2 * (n mod d) + d) div (2 * d) + n div d"
    using assms by (simp only: div_mult_self3) simp
  moreover have "(2 * (n mod d) + d) div (2 * d) = (if d \<le> 2 * (n mod d) then 1 else 0)"
    using r by (auto intro: div_pos_pos_trivial int_div_pos_eq [where r = "2 * (n mod d) - d"])
  ultimately show ?thesis by simp
qed

lemma round_ratio_quotient:
  assumes "0 < d"
  shows "round_ratio policy n d = n div d \<or> n mod d \<noteq> 0 \<and> round_ratio policy n d = n div d + 1"
  using assms ceiling_quotient [of d n] half_up_quotient [of d n]
  by (cases policy) (auto simp: round_ratio_def zdiv_zminus1_eq_if)

lemma round_ratio_bounds:
  assumes "0 \<le> n" and "0 < d"
  shows "0 \<le> round_ratio policy n d" and "round_ratio policy n d \<le> n"
    and "n - d < round_ratio policy n d * d" and "round_ratio policy n d * d < n + d"
proof -
  have nd: "n = n div d * d + n mod d" and r: "0 \<le> n mod d" "n mod d < d" and q: "0 \<le> n div d"
    using assms by (simp_all add: pos_imp_zdiv_nonneg_iff)
  show "0 \<le> round_ratio policy n d" using round_ratio_quotient [OF assms(2), of policy n] q by auto
  define qd where "qd = n div d * d"
  have "round_ratio policy n d * d = qd \<or> n mod d \<noteq> 0 \<and> round_ratio policy n d * d = qd + d"
    using round_ratio_quotient [OF assms(2), of policy n] by (auto simp: qd_def distrib_right)
  then show "n - d < round_ratio policy n d * d" "round_ratio policy n d * d < n + d"
    using nd r unfolding qd_def [symmetric] by auto
  have le: "n div d \<le> n" using assms zdiv_mono2 [of n 1 d] by simp
  have "n div d < n" if "n mod d \<noteq> 0"
  proof -
    have "d \<noteq> 1" using that by auto
    then have "2 \<le> d" using assms(2) by simp
    then have "n div d * 2 \<le> n div d * d" using q by (intro mult_left_mono)
    then show ?thesis using nd r that q by linarith
  qed
  then show "round_ratio policy n d \<le> n" using round_ratio_quotient [OF assms(2), of policy n] le by auto
qed

lemma wrap_i128_id: "in_i128 x \<Longrightarrow> wrap_i128 x = x"
  by (simp add: wrap_i128_def in_i128_def)

lemma divide_round_nonneg:
  assumes "0 \<le> n" and "in_i128 n" and "0 < d" and "d \<le> 2 ^ 126"
  shows "divide_round n d policy = Ok (round_ratio policy n d)"
proof -
  have t: "tdiv n d = n div d" "trem n d = n mod d"
    using assms by (simp_all add: tdiv_nonneg trem_nonneg)
  have r: "0 \<le> n mod d" "n mod d < d" using assms(3) by simp_all
  then have "\<bar>trem n d\<bar> * 2 < 2 ^ 127" using assms(4) by (simp add: t)
  then have w: "wrap_i128 (\<bar>trem n d\<bar> * 2) = 2 * (n mod d)"
    using r by (subst wrap_i128_id) (simp_all add: in_i128_def t)
  have "in_i128 (n div d + 1)" if "n mod d \<noteq> 0"
    using round_ratio_bounds(1,2) [OF assms(1,3), of RoundUp] assms(2) that assms(3)
    by (simp add: round_ratio_def ceiling_quotient in_i128_def)
  then show ?thesis
    using r assms(3) w ceiling_quotient [of d n] half_up_quotient [OF assms(3), of n]
    by (cases policy) (auto simp: divide_round_def round_ratio_def t acc_i128_def checked_i128_def
        Let_def zdiv_zminus1_eq_if)
qed

text \<open>
  On a negative numerator the quotient is truncated towards zero and then moved up by one, so the
  result of \<open>HalfUp\<close> is two above the nearest integer whenever the fraction reaches one half.
\<close>

lemma divide_round_negative:
  assumes "0 < n" and "in_i128 n" and "0 < d" and "d \<le> 2 ^ 126" and "d \<le> 2 * (n mod d)"
  shows "divide_round (- n) d RoundHalfUp = Ok (2 - round_ratio RoundHalfUp n d)"
proof -
  have r: "0 < n mod d" "n mod d < d" using assms(3,5) pos_mod_bound [of d n] by linarith+
  have t: "tdiv (- n) d = - (n div d)" using assms(1,3) by (simp add: tdiv_def)
  have m: "trem (- n) d = - (n mod d)" using minus_mult_div_eq_mod [of n d] by (simp add: trem_def t)
  have "wrap_i128 (\<bar>trem (- n) d\<bar> * 2) = n mod d * 2"
    using r assms(4) by (subst wrap_i128_id) (simp_all add: in_i128_def m)
  moreover have "0 \<le> n div d" "n div d \<le> n"
    using assms(1,3) zdiv_mono2 [of n 1 d] by (simp_all add: pos_imp_zdiv_nonneg_iff)
  then have "in_i128 (1 - n div d)" using assms(2) by (auto simp: in_i128_def)
  ultimately show ?thesis
    using r assms(3,5) half_up_quotient [OF assms(3), of n]
    by (simp add: divide_round_def round_ratio_def t m acc_i128_def checked_i128_def mult.commute)
qed

text \<open>What a charge is meant to be: the share of the amount, rounded to an atom and then to the quantum.\<close>

definition charge_reference :: "int \<Rightarrow> charge_model \<Rightarrow> decimal" where
  "charge_reference amount m =
     max (round_ratio (cm_rounding m)
            (round_ratio (cm_rounding m) (amount * cm_rate m) (10 ^ 18)) (10 ^ (18 - cm_precision m))
          * 10 ^ (18 - cm_precision m))
       (cm_minimum m)"

lemma charge_quantum_precision: "cm_precision m \<le> 18 \<Longrightarrow> charge_quantum m = 10 ^ (18 - cm_precision m)"
  by (simp add: charge_quantum_def nat_diff_distrib of_nat_diff mod_pos_pos_trivial)

lemma quantum_bounds: "(0 :: int) < 10 ^ (18 - p)" "(10 :: int) ^ (18 - p) \<le> 10 ^ 18"
  by (simp, rule power_increasing) simp_all

text \<open>The reduction by common divisors does not change the rounded share.\<close>

lemma reduced_share:
  assumes "reduce_product amount rate = (l, r, d)" and "0 \<le> amount" and "0 \<le> rate" and "in_i128 (l * r)"
  shows "divide_round (l * r) d policy = Ok (round_ratio policy (amount * rate) (10 ^ 18))"
proof -
  note f = reduce_product_fraction [OF assms(1)]
  have d: "0 < d" "d \<le> 2 ^ 126" using f(1,6) by (simp_all add: DECIMAL_SCALE_FACTOR_def)
  have "divide_round (l * r) d policy = Ok (round_ratio policy (l * r) d)"
    using f(7,8) assms d by (intro divide_round_nonneg) simp_all
  also have "round_ratio policy (l * r) d =
      round_ratio policy (DECIMAL_SCALE_FACTOR * (l * r)) (DECIMAL_SCALE_FACTOR * d)"
    by (simp add: round_ratio_scale)
  also have "\<dots> = round_ratio policy (d * (amount * rate)) (d * DECIMAL_SCALE_FACTOR)"
    using f(2) by (simp add: mult.commute mult.left_commute)
  also have "\<dots> = round_ratio policy (amount * rate) DECIMAL_SCALE_FACTOR"
    using d by (simp add: round_ratio_scale)
  finally show ?thesis by (simp add: DECIMAL_SCALE_FACTOR_def)
qed

lemma charge_amount_nonneg: "0 \<le> charge_amount notional quantity basis"
  by (cases basis) (simp_all add: charge_amount_def DECIMAL_SCALE_FACTOR_def)

lemma charge_rounds:
  assumes "charge_applies (cm_sides m) side" and "0 \<le> cm_rate m" and "cm_precision m \<le> 18"
    and amount: "amount = charge_amount notional quantity (cm_basis m)"
    and red: "reduce_product amount (cm_rate m) = (l, r, d)"
    and raw: "raw = round_ratio (cm_rounding m) (amount * cm_rate m) (10 ^ 18)"
  shows "charge notional quantity side m = Ok c \<longleftrightarrow>
    in_i128 amount \<and> in_i128 (l * r) \<and> c = charge_reference amount m \<and>
    in_i128 (round_ratio (cm_rounding m) raw (10 ^ (18 - cm_precision m)) * 10 ^ (18 - cm_precision m))"
proof -
  define quantum :: int where "quantum = 10 ^ (18 - cm_precision m)"
  have q: "0 < quantum" "quantum \<le> 2 ^ 126" "in_i128 quantum"
    using quantum_bounds [of "cm_precision m"] by (simp_all add: in_i128_def flip: quantum_def)
  have cq: "charge_quantum m = quantum" using assms(3) by (simp add: quantum_def charge_quantum_precision)
  have pos: "0 \<le> amount" using amount charge_amount_nonneg by simp
  have raw0: "0 \<le> raw" using pos assms(2) by (simp add: raw round_ratio_bounds)
  have share: "divide_round (l * r) d (cm_rounding m) = Ok raw" if "in_i128 (l * r)"
    using reduced_share [OF red pos assms(2) that] by (simp add: raw)
  have "in_i128 raw" if "in_i128 (l * r)"
  proof -
    have "raw \<le> l * r"
      using share [OF that] divide_round_nonneg [OF _ that, of d "cm_rounding m"]
        reduce_product_fraction [OF red] pos assms(2) round_ratio_bounds(2) [of "l * r" d "cm_rounding m"]
      by (simp add: DECIMAL_SCALE_FACTOR_def)
    then show ?thesis using raw0 that by (simp add: in_i128_def)
  qed
  then have "divide_round raw quantum (cm_rounding m) = Ok (round_ratio (cm_rounding m) raw quantum)"
    if "in_i128 (l * r)" using that raw0 q by (intro divide_round_nonneg) simp_all
  then show ?thesis
    using assms(1) share q unfolding charge_reference_def raw [symmetric] quantum_def [symmetric]
    by (auto simp: charge_def cq red simp flip: amount)
qed

text \<open>
  C31: a charge is the rounded share of its amount. For a model that \<open>validate_models\<close> accepts, the
  charge computed through reduced fractions is, when it succeeds, the one of the unreduced
  reference: amount times rate rounded to an atom and then to the configured precision, at least the
  minimum, and nothing on a side the model does not charge. It succeeds whenever the numerator of
  amount times rate in lowest terms stays below \<open>2^126\<close>.
\<close>

theorem charge_equals_reference:
  assumes "validate_models ec m m = Ok ()" and "amount = charge_amount notional quantity (cm_basis m)"
  shows "(charge notional quantity side m = Ok c \<longrightarrow>
      c = (if charge_applies (cm_sides m) side then charge_reference amount m else 0)) \<and>
    (in_i128 amount \<and> amount * cm_rate m div gcd (amount * cm_rate m) DECIMAL_SCALE_FACTOR < 2 ^ 126 \<longrightarrow>
      is_ok (charge notional quantity side m))"
proof (cases "charge_applies (cm_sides m) side")
  case True
  obtain l r d where red: "reduce_product amount (cm_rate m) = (l, r, d)"
    by (cases "reduce_product amount (cm_rate m)")
  have rate: "0 \<le> cm_rate m" and prec: "cm_precision m \<le> 18" using assms(1) by (simp_all add: validate_models_Ok)
  note rounds = charge_rounds [OF True rate prec assms(2) red refl]
  have pos: "0 \<le> amount" using assms(2) charge_amount_nonneg by simp
  have "is_ok (charge notional quantity side m)" if "in_i128 amount" and small: "l * r < 2 ^ 126"
  proof -
    note f = reduce_product_fraction [OF red]
    have d: "0 < d" "d \<le> 2 ^ 126" using f(1,6) by (simp_all add: DECIMAL_SCALE_FACTOR_def)
    have lr0: "0 \<le> l * r" using f(7,8) pos rate by simp
    then have lr: "0 \<le> l * r" "in_i128 (l * r)" using small by (simp_all add: in_i128_def)
    define raw where "raw = round_ratio (cm_rounding m) (amount * cm_rate m) (10 ^ 18)"
    define quantum :: int where "quantum = 10 ^ (18 - cm_precision m)"
    have q: "0 < quantum" "quantum \<le> 10 ^ 18" using quantum_bounds by (simp_all add: quantum_def)
    have raw: "0 \<le> raw" "raw \<le> l * r"
      using reduced_share [OF red pos rate lr(2), of "cm_rounding m"]
        divide_round_nonneg [OF lr d, of "cm_rounding m"]
        round_ratio_bounds(1,2) [OF lr(1) d(1), of "cm_rounding m"] by (simp_all add: raw_def)
    have "0 \<le> round_ratio (cm_rounding m) raw quantum * quantum"
      "round_ratio (cm_rounding m) raw quantum * quantum < 2 ^ 127"
      using round_ratio_bounds(1,4) [OF raw(1) q(1), of "cm_rounding m"] q raw(2) small by simp_all
    then have "in_i128 (round_ratio (cm_rounding m) raw quantum * quantum)" by (simp add: in_i128_def)
    then show ?thesis using rounds [folded raw_def quantum_def] that(1) lr by (simp add: is_ok_iff)
  qed
  then show ?thesis using rounds True reduced_lowest_terms [OF red] by simp
qed (simp add: charge_def)

theorem charge_equals_reference_witness:
  "charge (- 100000000000000000000000) 100 Sell
     \<lparr>cm_basis = NotionalRate, cm_rate = 1425000000000000, cm_sides = ChargeBoth,
       cm_minimum = 20000000000000000000, cm_precision = 0, cm_rounding = RoundHalfUp\<rparr> =
   Ok 143000000000000000000"
proof -
  define m where "m = \<lparr>cm_basis = NotionalRate, cm_rate = 1425000000000000, cm_sides = ChargeBoth,
       cm_minimum = 20000000000000000000, cm_precision = 0, cm_rounding = RoundHalfUp\<rparr>"
  define ec where "ec = \<lparr>ec_units_per_trading_unit = 1, ec_multiplier = 1, ec_provenance = ''x''\<rparr>"
  have v: "validate_models ec m m = Ok ()" by (simp add: validate_models_Ok ec_def m_def)
  have a: "100000000000000000000000 = charge_amount (- 100000000000000000000000) 100 (cm_basis m)"
    by (simp add: m_def charge_amount_def)
  note th = charge_equals_reference [OF v a, of Sell]
  have "is_ok (charge (- 100000000000000000000000) 100 Sell m)"
  proof -
    have "gcd (100000000000000000000000 * cm_rate m) DECIMAL_SCALE_FACTOR = DECIMAL_SCALE_FACTOR"
      by (simp add: m_def DECIMAL_SCALE_FACTOR_def gcd_proj2_iff)
    then show ?thesis using th [of 0] by (simp add: m_def in_i128_def DECIMAL_SCALE_FACTOR_def)
  qed
  then obtain c where c: "charge (- 100000000000000000000000) 100 Sell m = Ok c" by (auto simp: is_ok_iff)
  have "c = 143000000000000000000" using th [of c] c by (simp add: m_def charge_reference_def round_ratio_def)
  then show ?thesis using c by (simp add: m_def)
qed

end
