(* ===== verification/Ledger.thy ===== *)
theory Ledger
  imports Charges
begin

text \<open>
  The single-instrument ledger of \<open>crates/execution-sim/src/accounting.rs\<close> and the fill records of
  \<open>crates/execution-sim/src/lib.rs\<close>. \<open>Ledger::apply_fill\<close> computes every new field before it assigns
  the first one, so an error leaves the ledger as it was and the model returns the new ledger only on
  success. The lemmas give the position transition, the identity between cash, realised profit, charges
  and open cost basis, the day-trade pool, and what \<open>reconcile\<close> accepts.
\<close>

section \<open>Model\<close>

datatype fill_trigger = MarketEvent nat | Control nat

record fill_record =
  fr_order_id :: order_id
  fr_trigger :: fill_trigger
  fr_match_time :: int
  fr_side :: order_side
  fr_price :: price
  fr_quantity :: quantity

definition fill_from_market_event ::
  "order_id \<Rightarrow> nat \<Rightarrow> int \<Rightarrow> order_side \<Rightarrow> price \<Rightarrow> quantity \<Rightarrow> fill_record" where
  "fill_from_market_event oid ordinal t side p q =
     \<lparr>fr_order_id = oid, fr_trigger = MarketEvent ordinal, fr_match_time = t, fr_side = side, fr_price = p,
      fr_quantity = q\<rparr>"

definition fill_from_control ::
  "order_id \<Rightarrow> nat \<Rightarrow> int \<Rightarrow> order_side \<Rightarrow> price \<Rightarrow> quantity \<Rightarrow> fill_record" where
  "fill_from_control oid control_sequence t side p q =
     \<lparr>fr_order_id = oid, fr_trigger = Control control_sequence, fr_match_time = t, fr_side = side, fr_price = p,
      fr_quantity = q\<rparr>"

record day_trade_tax_model =
  dt_ordinary :: charge_model
  dt_day_trade :: charge_model
  dt_timezone_offset_minutes :: int
  dt_valid_through :: int
  dt_eligible :: bool
  dt_eligible_dates :: "int list option"
  dt_provenance :: string

definition day_trade_tax_new ::
  "charge_model \<Rightarrow> charge_model \<Rightarrow> int \<Rightarrow> int \<Rightarrow> bool \<Rightarrow> string \<Rightarrow> (day_trade_tax_model, accounting_error) result" where
  "day_trade_tax_new ordinary day_trade offset valid_through eligible provenance =
     (if provenance = [] \<or> cm_basis ordinary \<noteq> NotionalRate \<or> cm_basis day_trade \<noteq> NotionalRate \<or>
         cm_sides ordinary \<noteq> ChargeSell \<or> cm_sides day_trade \<noteq> ChargeSell \<or>
         cm_rate ordinary < cm_rate day_trade \<or> cm_rate ordinary < 0 \<or> cm_rate day_trade < 0 \<or>
         cm_minimum ordinary < 0 \<or> cm_minimum day_trade < 0 \<or>
         18 < cm_precision ordinary \<or> 18 < cm_precision day_trade \<or>
         \<not> (- 1439 \<le> offset \<and> offset \<le> 1439)
      then Err InvalidModel
      else Ok \<lparr>dt_ordinary = ordinary, dt_day_trade = day_trade, dt_timezone_offset_minutes = offset,
               dt_valid_through = valid_through, dt_eligible = eligible, dt_eligible_dates = None,
               dt_provenance = provenance\<rparr>)"

text \<open>The dates pass through a \<open>BTreeSet\<close>: sorted, without repetitions.\<close>

definition day_trade_tax_new_for_dates ::
  "charge_model \<Rightarrow> charge_model \<Rightarrow> int \<Rightarrow> int \<Rightarrow> int list \<Rightarrow> string \<Rightarrow> (day_trade_tax_model, accounting_error) result" where
  "day_trade_tax_new_for_dates ordinary day_trade offset valid_through dates provenance =
     rbind (day_trade_tax_new ordinary day_trade offset valid_through False provenance) (\<lambda>m.
       Ok (m\<lparr>dt_eligible_dates := Some (sorted_list_of_set (set dates))\<rparr>))"

text \<open>\<open>binary_search\<close> on the sorted dates finds a date exactly when it is among them.\<close>

definition is_eligible :: "day_trade_tax_model \<Rightarrow> int \<Rightarrow> bool" where
  "is_eligible m date \<longleftrightarrow>
     dt_eligible m \<or> (case dt_eligible_dates m of None \<Rightarrow> False | Some dates \<Rightarrow> date \<in> set dates)"

record fill_cost_record =
  fc_order_id :: order_id
  fc_fee :: decimal
  fc_tax :: decimal

record day_trade_buy =
  db_date :: int
  db_remaining :: nat

record day_trade_sell =
  ds_date :: int
  ds_price :: decimal
  ds_quantity :: nat
  ds_matched :: nat
  ds_assessed_tax :: decimal

record ledger =
  ld_initial_cash :: decimal
  ld_cash :: decimal
  ld_position :: int
  ld_cost_basis_atoms :: int
  ld_average_cost :: "decimal option"
  ld_realized_pnl :: decimal
  ld_total_fee :: decimal
  ld_total_tax :: decimal
  ld_fills :: "fill_record list"
  ld_fill_costs :: "fill_cost_record list"
  ld_economics :: instrument_economics
  ld_fee :: charge_model
  ld_tax :: charge_model
  ld_accounting_model :: accounting_model
  ld_day_trade_tax :: "day_trade_tax_model option"
  ld_day_trade_buys :: "day_trade_buy list"
  ld_day_trade_sells :: "day_trade_sell list"

definition ledger_new_with_model ::
  "decimal \<Rightarrow> instrument_economics \<Rightarrow> charge_model \<Rightarrow> charge_model \<Rightarrow> accounting_model \<Rightarrow> ledger" where
  "ledger_new_with_model initial_cash economics fee tax model =
     \<lparr>ld_initial_cash = initial_cash, ld_cash = initial_cash, ld_position = 0, ld_cost_basis_atoms = 0,
      ld_average_cost = None, ld_realized_pnl = 0, ld_total_fee = 0, ld_total_tax = 0, ld_fills = [],
      ld_fill_costs = [], ld_economics = economics, ld_fee = fee, ld_tax = tax,
      ld_accounting_model = model, ld_day_trade_tax = None, ld_day_trade_buys = [],
      ld_day_trade_sells = []\<rparr>"

definition ledger_new :: "decimal \<Rightarrow> instrument_economics \<Rightarrow> charge_model \<Rightarrow> charge_model \<Rightarrow> ledger" where
  "ledger_new initial_cash economics fee tax = ledger_new_with_model initial_cash economics fee tax EquityV1"

definition ledger_with_day_trade_tax :: "day_trade_tax_model \<Rightarrow> ledger \<Rightarrow> ledger" where
  "ledger_with_day_trade_tax m l = l\<lparr>ld_tax := dt_ordinary m, ld_day_trade_tax := Some m\<rparr>"

definition with_optional_day_trade_tax :: "day_trade_tax_model option \<Rightarrow> ledger \<Rightarrow> ledger" where
  "with_optional_day_trade_tax m l = l\<lparr>ld_day_trade_tax := m\<rparr>"

definition MICROS_PER_MINUTE :: int where "MICROS_PER_MINUTE = 60 * 1000000"
definition MICROS_PER_DAY :: int where "MICROS_PER_DAY = 24 * 60 * MICROS_PER_MINUTE"

definition fill_trading_date :: "int \<Rightarrow> int \<Rightarrow> (int, accounting_error) result" where
  "fill_trading_date match_time offset_minutes =
     rbind (ok_or (checked_i64 (offset_minutes * MICROS_PER_MINUTE)) InvalidTradingDate) (\<lambda>offset.
       rbind (ok_or (checked_i64 (match_time + offset)) InvalidTradingDate) (\<lambda>local.
         let epoch_days = local div MICROS_PER_DAY in
         if \<not> in_i32 epoch_days then Err InvalidTradingDate
         else map_err (\<lambda>_. InvalidTradingDate) (trading_date_from_epoch_days epoch_days)))"

definition split_sell_tax ::
  "decimal \<Rightarrow> nat \<Rightarrow> nat \<Rightarrow> instrument_economics \<Rightarrow> day_trade_tax_model \<Rightarrow> (decimal, accounting_error) result" where
  "split_sell_tax p quantity day_trade_quantity ec m =
     rbind (ok_or (checked_sub_nat quantity day_trade_quantity) AccOverflow) (\<lambda>ordinary_quantity.
     rbind (if day_trade_quantity = 0 then Ok 0
            else rbind (scale_by_quantity p day_trade_quantity ec) (\<lambda>n.
                   charge n day_trade_quantity Sell (dt_day_trade m))) (\<lambda>day_trade_tax.
     rbind (if ordinary_quantity = 0 then Ok 0
            else rbind (scale_by_quantity p ordinary_quantity ec) (\<lambda>n.
                   charge n ordinary_quantity Sell (dt_ordinary m))) (\<lambda>ordinary_tax.
       acc_add day_trade_tax ordinary_tax)))"

text \<open>
  The two matching loops of \<open>tax_for_fill\<close>: a buy is matched against the unmatched part of the day's
  earlier sells, whose tax is reassessed; a sell uses up the day's unmatched buys.
\<close>

fun match_sells ::
  "instrument_economics \<Rightarrow> day_trade_tax_model \<Rightarrow> int \<Rightarrow> nat \<Rightarrow> decimal \<Rightarrow> day_trade_sell list \<Rightarrow>
   (nat \<times> decimal \<times> day_trade_sell list, accounting_error) result" where
  "match_sells ec m date remaining adjustment [] = Ok (remaining, adjustment, [])"
| "match_sells ec m date remaining adjustment (s # ss) =
     (if ds_date s = date \<and> ds_matched s < ds_quantity s then
        if remaining = 0 then Ok (remaining, adjustment, s # ss)
        else let matched = min remaining (ds_quantity s - ds_matched s) in
          rbind (split_sell_tax (ds_price s) (ds_quantity s) (ds_matched s + matched) ec m) (\<lambda>assessed.
          rbind (acc_sub assessed (ds_assessed_tax s)) (\<lambda>difference.
          rbind (acc_add adjustment difference) (\<lambda>adjustment'.
          rbind (match_sells ec m date (remaining - matched) adjustment' ss) (\<lambda>(r, a, ss').
            Ok (r, a, s\<lparr>ds_matched := ds_matched s + matched, ds_assessed_tax := assessed\<rparr> # ss')))))
      else rbind (match_sells ec m date remaining adjustment ss) (\<lambda>(r, a, ss'). Ok (r, a, s # ss')))"

fun match_buys :: "int \<Rightarrow> nat \<Rightarrow> day_trade_buy list \<Rightarrow> nat \<times> day_trade_buy list" where
  "match_buys date remaining [] = (remaining, [])"
| "match_buys date remaining (b # bs) =
     (if db_date b = date \<and> 0 < db_remaining b then
        if remaining = 0 then (remaining, b # bs)
        else let matched = min remaining (db_remaining b);
                 (r, bs') = match_buys date (remaining - matched) bs
             in (r, b\<lparr>db_remaining := db_remaining b - matched\<rparr> # bs')
      else let (r, bs') = match_buys date remaining bs in (r, b # bs'))"

record tax_assessment =
  ta_tax :: decimal
  ta_buys :: "day_trade_buy list"
  ta_sells :: "day_trade_sell list"

definition tax_for_fill ::
  "ledger \<Rightarrow> fill_record \<Rightarrow> decimal \<Rightarrow> day_trade_buy list \<Rightarrow> day_trade_sell list \<Rightarrow>
   (tax_assessment, accounting_error) result" where
  "tax_for_fill l f notional buys sells =
     (let q = q_value (fr_quantity f) in
      case ld_day_trade_tax l of
        None \<Rightarrow> rbind (charge notional q (fr_side f) (ld_tax l)) (\<lambda>t.
                  Ok \<lparr>ta_tax = t, ta_buys = buys, ta_sells = sells\<rparr>)
      | Some m \<Rightarrow>
          rbind (fill_trading_date (fr_match_time f) (dt_timezone_offset_minutes m)) (\<lambda>date.
            if \<not> is_eligible m date \<or> dt_valid_through m < date then
              rbind (charge notional q (fr_side f) (dt_ordinary m)) (\<lambda>t.
                Ok \<lparr>ta_tax = t, ta_buys = buys, ta_sells = sells\<rparr>)
            else case fr_side f of
              Buy \<Rightarrow>
                rbind (match_sells (ld_economics l) m date q 0 sells) (\<lambda>(remaining, adjustment, sells').
                  Ok \<lparr>ta_tax = adjustment,
                      ta_buys = (if 0 < remaining then buys @ [\<lparr>db_date = date, db_remaining = remaining\<rparr>]
                                 else buys),
                      ta_sells = sells'\<rparr>)
            | Sell \<Rightarrow>
                (let (remaining, buys') = match_buys date q buys; matched = q - remaining in
                 rbind (split_sell_tax (fr_price f) q matched (ld_economics l) m) (\<lambda>assessed.
                   Ok \<lparr>ta_tax = assessed, ta_buys = buys',
                       ta_sells =
                         (if 0 < remaining
                          then sells @ [\<lparr>ds_date = date, ds_price = fr_price f, ds_quantity = q,
                                         ds_matched = matched, ds_assessed_tax = assessed\<rparr>]
                          else sells)\<rparr>))))"

definition unsigned_abs_as_i128 :: "int \<Rightarrow> int" where
  "unsigned_abs_as_i128 x = u128_as_i128 (nat \<bar>x\<bar>)"

definition average_cost :: "int \<Rightarrow> int \<Rightarrow> (decimal option, accounting_error) result" where
  "average_cost cost_basis_atoms position =
     (if position = 0 then Ok None
      else rbind (acc_i128 \<bar>position\<bar>) (\<lambda>divisor.
        rbind (divide_round cost_basis_atoms divisor RoundHalfUp) (\<lambda>v. Ok (Some v))))"

record position_transition =
  pt_position :: int
  pt_cost_basis :: int
  pt_average_cost :: "decimal option"
  pt_realized :: decimal

definition transition_position ::
  "int \<Rightarrow> int \<Rightarrow> int \<Rightarrow> decimal \<Rightarrow> instrument_economics \<Rightarrow> (position_transition, accounting_error) result" where
  "transition_position position cost_basis delta p ec =
     rbind (acc_i128 (position + delta)) (\<lambda>next_position.
      if position = 0 \<or> sgn position = sgn delta then
        rbind (acc_i128 (p * unsigned_abs_as_i128 delta)) (\<lambda>added_value.
        rbind (acc_i128 (cost_basis + added_value)) (\<lambda>next_basis.
        rbind (average_cost next_basis next_position) (\<lambda>avg.
          Ok \<lparr>pt_position = next_position, pt_cost_basis = next_basis, pt_average_cost = avg, pt_realized = 0\<rparr>)))
      else
        rbind (acc_i128 \<bar>position\<bar>) (\<lambda>position_size.
        rbind (acc_i128 (min \<bar>position\<bar> \<bar>delta\<bar>)) (\<lambda>closed.
        rbind (if closed = position_size then Ok cost_basis
               else rbind (acc_i128 (cost_basis * closed)) (\<lambda>n. divide_round n position_size RoundHalfUp))
          (\<lambda>allocated.
        rbind (acc_i128 (p * closed)) (\<lambda>closed_value.
        rbind (acc_i128 (if 0 < position then closed_value - allocated else allocated - closed_value))
          (\<lambda>difference.
        rbind (scale_by_quantity difference 1 ec) (\<lambda>realized.
        rbind (if next_position = 0 then Ok 0
               else if sgn next_position \<noteq> sgn position
               then acc_i128 (p * unsigned_abs_as_i128 next_position)
               else acc_i128 (cost_basis - allocated)) (\<lambda>next_basis.
        rbind (average_cost next_basis next_position) (\<lambda>avg.
          Ok \<lparr>pt_position = next_position, pt_cost_basis = next_basis, pt_average_cost = avg,
              pt_realized = realized\<rparr>)))))))))"

definition fill_notional :: "fill_record \<Rightarrow> instrument_economics \<Rightarrow> (decimal, accounting_error) result" where
  "fill_notional f ec = scale_by_quantity (fr_price f) (q_value (fr_quantity f)) ec"

definition ledger_models_valid :: "ledger \<Rightarrow> (unit, accounting_error) result" where
  "ledger_models_valid l =
     rbind (validate_models (ld_economics l) (ld_fee l) (ld_tax l)) (\<lambda>_.
       case ld_day_trade_tax l of None \<Rightarrow> Ok ()
       | Some m \<Rightarrow> rbind (validate_models (ld_economics l) (ld_fee l) (dt_day_trade m)) (\<lambda>_.
           if ld_accounting_model l \<noteq> EquityV1 then Err InvalidModel else Ok ()))"

definition cash_delta ::
  "accounting_model \<Rightarrow> order_side \<Rightarrow> decimal \<Rightarrow> decimal \<Rightarrow> decimal \<Rightarrow> decimal \<Rightarrow> (decimal, accounting_error) result" where
  "cash_delta model side notional fee tax realized =
     (if model = FuturesV1 then rbind (acc_sub realized fee) (\<lambda>x. acc_sub x tax)
      else case side of
        Buy \<Rightarrow> rbind (acc_add notional fee) (\<lambda>x. rbind (acc_add x tax) acc_neg)
      | Sell \<Rightarrow> rbind (acc_sub notional fee) (\<lambda>x. acc_sub x tax))"

definition signed_quantity :: "fill_record \<Rightarrow> int" where
  "signed_quantity f =
     (case fr_side f of Buy \<Rightarrow> int (q_value (fr_quantity f)) | Sell \<Rightarrow> - int (q_value (fr_quantity f)))"

definition ledger_apply_fill :: "ledger \<Rightarrow> fill_record \<Rightarrow> (ledger, accounting_error) result" where
  "ledger_apply_fill l f =
     rbind (ledger_models_valid l) (\<lambda>_.
     rbind (fill_notional f (ld_economics l)) (\<lambda>notional.
     rbind (charge notional (q_value (fr_quantity f)) (fr_side f) (ld_fee l)) (\<lambda>fee.
     rbind (tax_for_fill l f notional (ld_day_trade_buys l) (ld_day_trade_sells l)) (\<lambda>ta.
     rbind (transition_position (ld_position l) (ld_cost_basis_atoms l) (signed_quantity f) (fr_price f)
              (ld_economics l)) (\<lambda>pt.
     rbind (cash_delta (ld_accounting_model l) (fr_side f) notional fee (ta_tax ta) (pt_realized pt)) (\<lambda>delta.
     rbind (acc_add (ld_cash l) delta) (\<lambda>next_cash.
     rbind (acc_add (ld_total_fee l) fee) (\<lambda>next_fee.
     rbind (acc_add (ld_total_tax l) (ta_tax ta)) (\<lambda>next_tax.
     rbind (acc_add (ld_realized_pnl l) (pt_realized pt)) (\<lambda>next_realized.
       Ok (l\<lparr>ld_cash := next_cash, ld_position := pt_position pt, ld_cost_basis_atoms := pt_cost_basis pt,
             ld_average_cost := pt_average_cost pt, ld_realized_pnl := next_realized,
             ld_total_fee := next_fee, ld_total_tax := next_tax,
             ld_day_trade_buys := ta_buys ta, ld_day_trade_sells := ta_sells ta,
             ld_fill_costs := ld_fill_costs l @
               [\<lparr>fc_order_id = fr_order_id f, fc_fee = fee, fc_tax = ta_tax ta\<rparr>],
             ld_fills := ld_fills l @ [f]\<rparr>)))))))))))"

definition rebuild_base :: "ledger \<Rightarrow> ledger" where
  "rebuild_base l =
     with_optional_day_trade_tax (ld_day_trade_tax l)
       (ledger_new_with_model (ld_initial_cash l) (ld_economics l) (ld_fee l) (ld_tax l) (ld_accounting_model l))"

definition ledger_reconcile :: "ledger \<Rightarrow> (unit, accounting_error) result" where
  "ledger_reconcile l =
     rbind (rfold ledger_apply_fill (rebuild_base l) (ld_fills l)) (\<lambda>r.
       if ld_cash r \<noteq> ld_cash l \<or> ld_position r \<noteq> ld_position l \<or>
          ld_cost_basis_atoms r \<noteq> ld_cost_basis_atoms l \<or> ld_average_cost r \<noteq> ld_average_cost l \<or>
          ld_realized_pnl r \<noteq> ld_realized_pnl l \<or> ld_total_fee r \<noteq> ld_total_fee l \<or>
          ld_total_tax r \<noteq> ld_total_tax l \<or> ld_day_trade_buys r \<noteq> ld_day_trade_buys l \<or>
          ld_day_trade_sells r \<noteq> ld_day_trade_sells l \<or> ld_fill_costs r \<noteq> ld_fill_costs l
       then Err Reconciliation else Ok ())"

record performance_summary =
  pf_initial_cash :: decimal
  pf_final_cash :: decimal
  pf_position :: int
  pf_realized_pnl :: decimal
  pf_unrealized_pnl :: "decimal option"
  pf_total_fee :: decimal
  pf_total_tax :: decimal
  pf_fill_count :: nat

definition unrealized_pnl :: "ledger \<Rightarrow> decimal option \<Rightarrow> (decimal option, accounting_error) result" where
  "unrealized_pnl l final_mark =
     (if ld_position l = 0 then Ok (Some 0)
      else case final_mark of
        Some m \<Rightarrow>
          rbind (acc_i128 (m * unsigned_abs_as_i128 (ld_position l))) (\<lambda>marked_value.
          rbind (acc_i128 (if 0 < ld_position l then marked_value - ld_cost_basis_atoms l
                           else ld_cost_basis_atoms l - marked_value)) (\<lambda>difference.
          rbind (scale_by_quantity difference 1 (ld_economics l)) (\<lambda>v. Ok (Some v))))
      | None \<Rightarrow> Ok None)"

definition ledger_performance :: "ledger \<Rightarrow> decimal option \<Rightarrow> (performance_summary, accounting_error) result" where
  "ledger_performance l final_mark =
     rbind (unrealized_pnl l final_mark) (\<lambda>u.
       Ok \<lparr>pf_initial_cash = ld_initial_cash l, pf_final_cash = ld_cash l, pf_position = ld_position l,
           pf_realized_pnl = ld_realized_pnl l, pf_unrealized_pnl = u, pf_total_fee = ld_total_fee l,
           pf_total_tax = ld_total_tax l, pf_fill_count = length (ld_fills l)\<rparr>)"

section \<open>One fill\<close>

text \<open>What an accepted fill does to the ledger, with the intermediate results it computes.\<close>

lemma ledger_apply_fillE:
  assumes "ledger_apply_fill l f = Ok l'"
  obtains notional fee ta pt delta where "fill_notional f (ld_economics l) = Ok notional"
    and "charge notional (q_value (fr_quantity f)) (fr_side f) (ld_fee l) = Ok fee"
    and "tax_for_fill l f notional (ld_day_trade_buys l) (ld_day_trade_sells l) = Ok ta"
    and "transition_position (ld_position l) (ld_cost_basis_atoms l) (signed_quantity f) (fr_price f)
          (ld_economics l) = Ok pt"
    and "cash_delta (ld_accounting_model l) (fr_side f) notional fee (ta_tax ta) (pt_realized pt) = Ok delta"
    and "in_i128 (ld_cash l + delta)"
    and "l' = l\<lparr>ld_cash := ld_cash l + delta, ld_position := pt_position pt,
               ld_cost_basis_atoms := pt_cost_basis pt, ld_average_cost := pt_average_cost pt,
               ld_realized_pnl := ld_realized_pnl l + pt_realized pt,
               ld_total_fee := ld_total_fee l + fee, ld_total_tax := ld_total_tax l + ta_tax ta,
               ld_day_trade_buys := ta_buys ta, ld_day_trade_sells := ta_sells ta,
               ld_fill_costs := ld_fill_costs l @
                 [\<lparr>fc_order_id = fr_order_id f, fc_fee = fee, fc_tax = ta_tax ta\<rparr>],
               ld_fills := ld_fills l @ [f]\<rparr>"
proof -
  note eqs = assms [unfolded ledger_apply_fill_def rbind_eq_Ok acc_add_Ok result.inject]
  show thesis using eqs by (elim exE conjE) (rule that, (assumption | (hypsubst, rule refl))+)
qed

lemma apply_fill_frame:
  assumes "ledger_apply_fill l f = Ok l'"
  shows "rebuild_base l' = rebuild_base l" and "ld_fills l' = ld_fills l @ [f]"
    and "ld_economics l' = ld_economics l" and "ld_accounting_model l' = ld_accounting_model l"
    and "ld_initial_cash l' = ld_initial_cash l" and "ld_day_trade_tax l' = ld_day_trade_tax l"
proof -
  obtain c p b a r fe t bu se fc where l': "l' = l\<lparr>ld_cash := c, ld_position := p, ld_cost_basis_atoms := b,
    ld_average_cost := a, ld_realized_pnl := r, ld_total_fee := fe, ld_total_tax := t,
    ld_day_trade_buys := bu, ld_day_trade_sells := se, ld_fill_costs := fc, ld_fills := ld_fills l @ [f]\<rparr>"
    using assms by (rule ledger_apply_fillE) blast
  show "rebuild_base l' = rebuild_base l" "ld_fills l' = ld_fills l @ [f]"
    "ld_economics l' = ld_economics l" "ld_accounting_model l' = ld_accounting_model l"
    "ld_initial_cash l' = ld_initial_cash l" "ld_day_trade_tax l' = ld_day_trade_tax l"
    by (simp_all add: l' rebuild_base_def)
qed

lemma apply_fills_frame:
  "rfold ledger_apply_fill l fs = Ok l' \<Longrightarrow>
     rebuild_base l' = rebuild_base l \<and> ld_fills l' = ld_fills l @ fs \<and> ld_economics l' = ld_economics l \<and>
     ld_accounting_model l' = ld_accounting_model l \<and> ld_initial_cash l' = ld_initial_cash l \<and>
     ld_day_trade_tax l' = ld_day_trade_tax l"
proof (induction fs arbitrary: l)
  case (Cons f fs)
  obtain l1 where "ledger_apply_fill l f = Ok l1" and "rfold ledger_apply_fill l1 fs = Ok l'"
    using Cons.prems by auto
  then show ?case using Cons.IH [of l1] apply_fill_frame [of l f l1] by simp
qed simp

lemma rebuild_base_fields [simp]:
  "ld_fills (rebuild_base l) = []" "ld_fill_costs (rebuild_base l) = []" "ld_position (rebuild_base l) = 0"
  "ld_cost_basis_atoms (rebuild_base l) = 0" "ld_cash (rebuild_base l) = ld_initial_cash l"
  "ld_realized_pnl (rebuild_base l) = 0" "ld_total_fee (rebuild_base l) = 0" "ld_total_tax (rebuild_base l) = 0"
  "ld_economics (rebuild_base l) = ld_economics l" "ld_accounting_model (rebuild_base l) = ld_accounting_model l"
  "ld_initial_cash (rebuild_base l) = ld_initial_cash l" "ld_day_trade_tax (rebuild_base l) = ld_day_trade_tax l"
  "ld_day_trade_buys (rebuild_base l) = []" "ld_day_trade_sells (rebuild_base l) = []"
  by (simp_all add: rebuild_base_def with_optional_day_trade_tax_def ledger_new_with_model_def)

lemma rebuild_base_config:
  "rebuild_base r = rebuild_base l \<Longrightarrow>
     ld_initial_cash r = ld_initial_cash l \<and> ld_economics r = ld_economics l \<and> ld_fee r = ld_fee l \<and>
     ld_tax r = ld_tax l \<and> ld_accounting_model r = ld_accounting_model l \<and>
     ld_day_trade_tax r = ld_day_trade_tax l"
  by (simp add: rebuild_base_def with_optional_day_trade_tax_def ledger_new_with_model_def)

lemma rebuild_base_idem [simp]: "rebuild_base (rebuild_base l) = rebuild_base l"
  by (simp add: rebuild_base_def with_optional_day_trade_tax_def ledger_new_with_model_def)

lemma ledger_reconcile_iff:
  "ledger_reconcile l = Ok () \<longleftrightarrow> (\<exists>fs. rfold ledger_apply_fill (rebuild_base l) fs = Ok l)"
proof
  assume "ledger_reconcile l = Ok ()"
  then obtain r where r: "rfold ledger_apply_fill (rebuild_base l) (ld_fills l) = Ok r"
    and same: "ld_cash r = ld_cash l" "ld_position r = ld_position l"
      "ld_cost_basis_atoms r = ld_cost_basis_atoms l" "ld_average_cost r = ld_average_cost l"
      "ld_realized_pnl r = ld_realized_pnl l" "ld_total_fee r = ld_total_fee l"
      "ld_total_tax r = ld_total_tax l" "ld_day_trade_buys r = ld_day_trade_buys l"
      "ld_day_trade_sells r = ld_day_trade_sells l" "ld_fill_costs r = ld_fill_costs l"
    by (auto simp: ledger_reconcile_def split: if_splits)
  have "r = l"
    using same apply_fills_frame [OF r] rebuild_base_config [of r l] by (intro ledger.equality) simp_all
  then show "\<exists>fs. rfold ledger_apply_fill (rebuild_base l) fs = Ok l" using r by blast
next
  assume "\<exists>fs. rfold ledger_apply_fill (rebuild_base l) fs = Ok l"
  then obtain fs where fs: "rfold ledger_apply_fill (rebuild_base l) fs = Ok l" by blast
  then have "ld_fills l = fs" using apply_fills_frame [OF fs] by simp
  then show "ledger_reconcile l = Ok ()" using fs by (simp add: ledger_reconcile_def)
qed

text \<open>
  C2: reconciliation is exact. \<open>Ledger::reconcile\<close> accepts a ledger exactly when some sequence of
  fills, applied one by one to the empty ledger of the same configuration, produces it. So a ledger
  kept by \<open>apply_fill\<close> always reconciles, and a ledger in which any balance, position, average cost,
  charge, cost record or day-trade pool was altered never does.
\<close>

theorem reconcile_exact:
  "ledger_reconcile l = Ok () \<longleftrightarrow> (\<exists>fs. rfold ledger_apply_fill (rebuild_base l) fs = Ok l)"
  by (rule ledger_reconcile_iff)

section \<open>Position and cost basis\<close>

lemma scale_by_quantity_exact:
  assumes "scale_by_quantity v q ec = Ok r"
  shows "r * DECIMAL_SCALE_FACTOR = v * int q * ec_multiplier ec * int (ec_units_per_trading_unit ec)"
    and "int q < 2 ^ 127" and "in_i128 r"
proof -
  obtain scaled where m: "multiply_decimal_atoms v (ec_multiplier ec) = Ok scaled" and q: "in_i128 (int q)"
    and r: "r = scaled * int q * int (ec_units_per_trading_unit ec)" "in_i128 r"
    using assms by (auto simp: scale_by_quantity_def)
  have "r * DECIMAL_SCALE_FACTOR = scaled * DECIMAL_SCALE_FACTOR * (int q * int (ec_units_per_trading_unit ec))"
    by (simp add: r)
  also have "\<dots> = v * ec_multiplier ec * (int q * int (ec_units_per_trading_unit ec))"
    using m unfolding multiply_exact by simp
  finally show "r * DECIMAL_SCALE_FACTOR = v * int q * ec_multiplier ec * int (ec_units_per_trading_unit ec)"
    by (simp add: mult.assoc mult.left_commute)
  show "int q < 2 ^ 127" using q by (simp add: in_i128_def)
  show "in_i128 r" by (rule r)
qed

lemma unsigned_abs_as_i128_small [simp]: "\<bar>x\<bar> < 2 ^ 127 \<Longrightarrow> unsigned_abs_as_i128 x = \<bar>x\<bar>"
  by (simp add: unsigned_abs_as_i128_def u128_as_i128_def nat_less_iff)

lemma average_cost_Ok_range: "average_cost b p = Ok a \<Longrightarrow> \<bar>p\<bar> < 2 ^ 127"
  by (auto simp: average_cost_def in_i128_def split: if_splits)

lemma transition_closeE:
  assumes "transition_position position cost_basis delta p ec = Ok t" and "\<not> (position = 0 \<or> sgn position = sgn delta)"
  obtains allocated difference realized next_basis avg where
    "(if min \<bar>position\<bar> \<bar>delta\<bar> = \<bar>position\<bar> then Ok cost_basis
      else rbind (acc_i128 (cost_basis * min \<bar>position\<bar> \<bar>delta\<bar>)) (\<lambda>n. divide_round n \<bar>position\<bar> RoundHalfUp)) =
       Ok allocated"
    and "difference = (if 0 < position then p * min \<bar>position\<bar> \<bar>delta\<bar> - allocated
           else allocated - p * min \<bar>position\<bar> \<bar>delta\<bar>)"
    and "scale_by_quantity difference 1 ec = Ok realized"
    and "(if position + delta = 0 then Ok 0 else if sgn (position + delta) \<noteq> sgn position
       then acc_i128 (p * unsigned_abs_as_i128 (position + delta)) else acc_i128 (cost_basis - allocated)) = Ok next_basis"
    and "average_cost next_basis (position + delta) = Ok avg"
    and "t = \<lparr>pt_position = position + delta, pt_cost_basis = next_basis, pt_average_cost = avg,
              pt_realized = realized\<rparr>"
proof -
  note eqs = assms(1) [unfolded transition_position_def if_not_P [OF assms(2)] rbind_eq_Ok acc_i128_Ok result.inject]
  show thesis using eqs by (elim exE conjE) (hypsubst, rule that, (assumption | rule refl)+)
qed

text \<open>
  The transition of a position, seen on the signed cost basis \<open>sgn position * cost_basis\<close>: it moves by
  the signed value of the fill plus the profit realised, whatever the rounding of the allocated part.
\<close>

lemma transition_position_value:
  assumes ok: "transition_position position cost_basis delta p ec = Ok t" and flat: "position = 0 \<Longrightarrow> cost_basis = 0"
    and delta: "\<bar>delta\<bar> < 2 ^ 127"
  obtains raw where "pt_realized t * DECIMAL_SCALE_FACTOR = raw * ec_multiplier ec * int (ec_units_per_trading_unit ec)"
    and "sgn (pt_position t) * pt_cost_basis t = sgn position * cost_basis + p * delta + raw"
    and "pt_position t = position + delta" and "pt_position t = 0 \<Longrightarrow> pt_cost_basis t = 0"
proof (cases "position = 0 \<or> sgn position = sgn delta")
  case True
  then have t: "pt_position t = position + delta" "pt_cost_basis t = cost_basis + p * \<bar>delta\<bar>" "pt_realized t = 0"
    using ok delta by (auto simp: transition_position_def)
  have s: "sgn (position + delta) = sgn delta" using True by (auto simp: sgn_if split: if_splits)
  have "sgn delta * cost_basis = sgn position * cost_basis" using True flat by auto
  then have "sgn (pt_position t) * pt_cost_basis t = sgn position * cost_basis + p * delta"
    by (simp add: t s distrib_left mult.left_commute [of "sgn delta"] sgn_mult_abs)
  moreover have "pt_position t = 0 \<Longrightarrow> pt_cost_basis t = 0"
    using True flat by (auto simp: t sgn_if split: if_splits)
  ultimately show thesis using that [of 0] by (simp add: t)
next
  case False
  define closed where "closed = min \<bar>position\<bar> \<bar>delta\<bar>"
  from ok False obtain allocated difference realized next_basis avg where
    alloc0: "(if closed = \<bar>position\<bar> then Ok cost_basis
           else rbind (acc_i128 (cost_basis * closed)) (\<lambda>n. divide_round n \<bar>position\<bar> RoundHalfUp)) = Ok allocated" and
    diff: "difference = (if 0 < position then p * closed - allocated else allocated - p * closed)" and
    scale: "scale_by_quantity difference 1 ec = Ok realized" and
    basis: "(if position + delta = 0 then Ok 0 else if sgn (position + delta) \<noteq> sgn position
       then acc_i128 (p * unsigned_abs_as_i128 (position + delta)) else acc_i128 (cost_basis - allocated)) = Ok next_basis"
    and avg: "average_cost next_basis (position + delta) = Ok avg"
    and t0: "t = \<lparr>pt_position = position + delta, pt_cost_basis = next_basis, pt_average_cost = avg,
              pt_realized = realized\<rparr>"
    unfolding closed_def by (rule transition_closeE)
  have alloc: "closed = \<bar>position\<bar> \<Longrightarrow> allocated = cost_basis" using alloc0 by simp
  have t: "pt_position t = position + delta" "pt_cost_basis t = next_basis" "pt_realized t = realized"
    by (simp_all add: t0)
  have range: "\<bar>position + delta\<bar> < 2 ^ 127" using avg by (rule average_cost_Ok_range)
  have nb: "next_basis = (if position + delta = 0 then 0 else if sgn (position + delta) \<noteq> sgn position
       then p * \<bar>position + delta\<bar> else cost_basis - allocated)"
    using basis range by (auto split: if_splits)
  have signs: "0 < position \<and> delta \<le> 0 \<or> position < 0 \<and> 0 \<le> delta"
    using False by (auto simp: sgn_if split: if_splits)
  have "sgn (position + delta) * next_basis = sgn position * cost_basis + p * delta + difference"
  proof (cases "\<bar>delta\<bar> < \<bar>position\<bar>")
    case True
    then show ?thesis using signs
      by (auto simp: nb diff closed_def sgn_if min_def algebra_simps split: if_splits)
  next
    case False
    then have "closed = \<bar>position\<bar>" "allocated = cost_basis" using alloc by (auto simp: closed_def)
    moreover have ?thesis if "delta = - position"
      using calculation signs by (auto simp: nb diff sgn_if that)
    ultimately show ?thesis using signs False
      by (cases "position + delta = 0") (auto simp: nb diff sgn_if algebra_simps split: if_splits)
  qed
  moreover have "realized * DECIMAL_SCALE_FACTOR = difference * ec_multiplier ec * int (ec_units_per_trading_unit ec)"
    using scale_by_quantity_exact(1) [OF scale] by simp
  ultimately show thesis using that [of difference] nb by (simp add: t)
qed

section \<open>Cash, profit and charges\<close>

text \<open>
  Cash left after charges, against what the position cost: the invariant of every ledger reached by
  fills.
\<close>

definition book_identity :: "ledger \<Rightarrow> bool" where
  "book_identity l \<longleftrightarrow>
     (ld_initial_cash l + ld_realized_pnl l - ld_total_fee l - ld_total_tax l - ld_cash l) * DECIMAL_SCALE_FACTOR =
       (if ld_accounting_model l = FuturesV1 then 0
        else sgn (ld_position l) * ld_cost_basis_atoms l * ec_multiplier (ld_economics l)
               * int (ec_units_per_trading_unit (ld_economics l))) \<and>
     ld_total_fee l = sum_list (map fc_fee (ld_fill_costs l)) \<and>
     ld_total_tax l = sum_list (map fc_tax (ld_fill_costs l)) \<and>
     ld_position l = sum_list (map signed_quantity (ld_fills l)) \<and>
     (ld_position l = 0 \<longrightarrow> ld_cost_basis_atoms l = 0)"

lemma cash_delta_Ok:
  "cash_delta model side notional fee tax realized = Ok d \<Longrightarrow>
     d = (if model = FuturesV1 then realized else case side of Buy \<Rightarrow> - notional | Sell \<Rightarrow> notional) - fee - tax"
  by (auto simp: cash_delta_def split: if_splits order_side.splits)

lemma apply_fill_book_identity:
  assumes ok: "ledger_apply_fill l f = Ok l'" and inv: "book_identity l"
  shows "book_identity l'"
  using ok
proof (rule ledger_apply_fillE)
  fix notional fee ta pt delta
  assume notional: "fill_notional f (ld_economics l) = Ok notional"
    and pt: "transition_position (ld_position l) (ld_cost_basis_atoms l) (signed_quantity f) (fr_price f)
          (ld_economics l) = Ok pt"
    and cash: "cash_delta (ld_accounting_model l) (fr_side f) notional fee (ta_tax ta) (pt_realized pt) = Ok delta"
    and l': "l' = l\<lparr>ld_cash := ld_cash l + delta, ld_position := pt_position pt,
               ld_cost_basis_atoms := pt_cost_basis pt, ld_average_cost := pt_average_cost pt,
               ld_realized_pnl := ld_realized_pnl l + pt_realized pt,
               ld_total_fee := ld_total_fee l + fee, ld_total_tax := ld_total_tax l + ta_tax ta,
               ld_day_trade_buys := ta_buys ta, ld_day_trade_sells := ta_sells ta,
               ld_fill_costs := ld_fill_costs l @
                 [\<lparr>fc_order_id = fr_order_id f, fc_fee = fee, fc_tax = ta_tax ta\<rparr>],
               ld_fills := ld_fills l @ [f]\<rparr>"
  define S where "S = DECIMAL_SCALE_FACTOR"
  define k where "k = ec_multiplier (ld_economics l) * int (ec_units_per_trading_unit (ld_economics l))"
  note nq = scale_by_quantity_exact [OF notional [unfolded fill_notional_def]]
  have q: "\<bar>signed_quantity f\<bar> < 2 ^ 127" using nq(2) by (simp add: signed_quantity_def split: order_side.splits)
  obtain raw where raw: "pt_realized pt * S = raw * k"
    "sgn (pt_position pt) * pt_cost_basis pt =
       sgn (ld_position l) * ld_cost_basis_atoms l + fr_price f * signed_quantity f + raw"
    "pt_position pt = ld_position l + signed_quantity f" "pt_position pt = 0 \<Longrightarrow> pt_cost_basis pt = 0"
  proof (rule transition_position_value [OF pt _ q])
    show "ld_position l = 0 \<Longrightarrow> ld_cost_basis_atoms l = 0" using inv by (simp add: book_identity_def)
  qed (simp add: that S_def k_def mult.assoc)
  have n: "(case fr_side f of Buy \<Rightarrow> notional | Sell \<Rightarrow> - notional) * S = fr_price f * signed_quantity f * k"
    using nq(1) by (simp add: signed_quantity_def S_def k_def mult.assoc split: order_side.splits)
  have old: "(ld_initial_cash l + ld_realized_pnl l - ld_total_fee l - ld_total_tax l - ld_cash l) * S =
      (if ld_accounting_model l = FuturesV1 then 0 else sgn (ld_position l) * ld_cost_basis_atoms l * k)"
    using inv unfolding book_identity_def S_def k_def mult.assoc by (rule conjunct1)
  have "(ld_initial_cash l + (ld_realized_pnl l + pt_realized pt) - (ld_total_fee l + fee) -
        (ld_total_tax l + ta_tax ta) - (ld_cash l + delta)) * S =
      (ld_initial_cash l + ld_realized_pnl l - ld_total_fee l - ld_total_tax l - ld_cash l) * S +
      (if ld_accounting_model l = FuturesV1 then 0
       else pt_realized pt * S + (case fr_side f of Buy \<Rightarrow> notional | Sell \<Rightarrow> - notional) * S)"
    unfolding cash_delta_Ok [OF cash] by (simp add: algebra_simps split: order_side.splits)
  also have "\<dots> = (if ld_accounting_model l = FuturesV1 then 0 else sgn (pt_position pt) * pt_cost_basis pt * k)"
    unfolding old n raw(1,2) by (simp add: algebra_simps)
  finally show ?thesis
    using inv raw(3,4) by (simp add: book_identity_def l' S_def k_def mult.assoc)
qed

lemma reachable_book_identity:
  assumes "rfold ledger_apply_fill (rebuild_base l0) fs = Ok l"
  shows "book_identity l"
  using assms by (rule rfold_invariant) (simp_all add: book_identity_def [of "rebuild_base l0"] apply_fill_book_identity)

text \<open>
  C20: no money appears or disappears. In every ledger reached from an empty one by fills, the cash
  spent beyond realised profit, fees and taxes is exactly the signed cost basis of the open position
  (times multiplier and units) under premium-paid accounting, and exactly zero for futures; the fee
  and tax totals are the sums of the recorded costs and the position is the signed sum of the fills.
  The rounding of an allocated cost basis therefore never leaks value, and a flat ledger satisfies
  \<open>cash = initial cash + realised profit - fees - taxes\<close>.
\<close>

theorem ledger_cash_identity:
  assumes "rfold ledger_apply_fill (rebuild_base l0) fs = Ok l"
  shows "(ld_initial_cash l0 + ld_realized_pnl l - ld_total_fee l - ld_total_tax l - ld_cash l) * DECIMAL_SCALE_FACTOR =
       (if ld_accounting_model l0 = FuturesV1 then 0
        else sgn (ld_position l) * ld_cost_basis_atoms l * ec_multiplier (ld_economics l0)
               * int (ec_units_per_trading_unit (ld_economics l0))) \<and>
     ld_total_fee l = sum_list (map fc_fee (ld_fill_costs l)) \<and>
     ld_total_tax l = sum_list (map fc_tax (ld_fill_costs l)) \<and>
     ld_position l = sum_list (map signed_quantity fs)"
proof -
  note frame = apply_fills_frame [OF assms]
  have "ld_initial_cash l = ld_initial_cash l0" "ld_accounting_model l = ld_accounting_model l0"
    "ld_economics l = ld_economics l0" "ld_fills l = fs" using frame by simp_all
  note eqs = this
  have "book_identity l" using assms by (rule reachable_book_identity)
  then show ?thesis unfolding book_identity_def eqs by (elim conjE) (intro conjI, assumption+)
qed

section \<open>The day-trade pool\<close>

text \<open>
  The open sells of a date are those not yet fully matched by buys of the date, the open buys those
  with a remaining quantity. The pool is matched as far as possible, and the tax on record of each sell
  is the one its matched quantity calls for.
\<close>

definition open_buy :: "int \<Rightarrow> day_trade_buy \<Rightarrow> bool" where
  "open_buy date b \<longleftrightarrow> db_date b = date \<and> 0 < db_remaining b"

definition open_sell :: "int \<Rightarrow> day_trade_sell \<Rightarrow> bool" where
  "open_sell date s \<longleftrightarrow> ds_date s = date \<and> ds_matched s < ds_quantity s"

definition sell_assessed :: "instrument_economics \<Rightarrow> day_trade_tax_model \<Rightarrow> day_trade_sell \<Rightarrow> bool" where
  "sell_assessed ec m s \<longleftrightarrow> ds_matched s \<le> ds_quantity s \<and>
     split_sell_tax (ds_price s) (ds_quantity s) (ds_matched s) ec m = Ok (ds_assessed_tax s)"

definition pool_inv ::
  "instrument_economics \<Rightarrow> day_trade_tax_model \<Rightarrow> day_trade_buy list \<Rightarrow> day_trade_sell list \<Rightarrow> bool" where
  "pool_inv ec m buys sells \<longleftrightarrow>
     list_all (sell_assessed ec m) sells \<and>
     (\<forall>date. \<not> ((\<exists>b \<in> set buys. open_buy date b) \<and> (\<exists>s \<in> set sells. open_sell date s)))"

lemma match_sells_pool:
  assumes "match_sells ec m date remaining adjustment ss = Ok (r, a, ss')" and "list_all (sell_assessed ec m) ss"
  shows "list_all (sell_assessed ec m) ss' \<and> r \<le> remaining \<and>
    (0 < r \<longrightarrow> (\<forall>s \<in> set ss'. \<not> open_sell date s)) \<and>
    (\<forall>date' s'. s' \<in> set ss' \<longrightarrow> open_sell date' s' \<longrightarrow> (\<exists>s \<in> set ss. open_sell date' s))"
  using assms
proof (induction ec m date remaining adjustment ss arbitrary: r a ss' rule: match_sells.induct)
  case (1 ec m date remaining adjustment)
  then show ?case by simp
next
  case (2 ec m date remaining adjustment s ss)
  define k where "k = min remaining (ds_quantity s - ds_matched s)"
  consider "open_sell date s" "remaining = 0" | "open_sell date s" "remaining \<noteq> 0" | "\<not> open_sell date s" by blast
  then show ?case
  proof cases
    case 1
    then show ?thesis using 2 by (auto simp: open_sell_def)
  next
    case open': 2
    have c: "(ds_date s = date \<and> ds_matched s < ds_quantity s) = True" using open' by (simp add: open_sell_def)
    from "2.prems"(1) open'(2) obtain assessed a' rest where
      t: "split_sell_tax (ds_price s) (ds_quantity s) (ds_matched s + k) ec m = Ok assessed" and
      d: "acc_sub assessed (ds_assessed_tax s) = Ok (assessed - ds_assessed_tax s)" and
      a': "acc_add adjustment (assessed - ds_assessed_tax s) = Ok a'" and
      rest: "match_sells ec m date (remaining - k) a' ss = Ok (r, a, rest)" and
      ss': "ss' = s\<lparr>ds_matched := ds_matched s + k, ds_assessed_tax := assessed\<rparr> # rest"
      by (auto simp: c Let_def simp flip: k_def)
    have ih: "list_all (sell_assessed ec m) rest \<and> r \<le> remaining - k \<and>
      (0 < r \<longrightarrow> (\<forall>s \<in> set rest. \<not> open_sell date s)) \<and>
      (\<forall>date' s'. s' \<in> set rest \<longrightarrow> open_sell date' s' \<longrightarrow> (\<exists>s \<in> set ss. open_sell date' s))"
      using "2.IH"(1) [unfolded c, OF TrueI open'(2) refl] t d a' rest "2.prems"(2) unfolding k_def by simp
    have k: "k \<le> ds_quantity s - ds_matched s" "0 < r \<Longrightarrow> k = ds_quantity s - ds_matched s"
      using ih by (auto simp: k_def)
    have "sell_assessed ec m (s\<lparr>ds_matched := ds_matched s + k, ds_assessed_tax := assessed\<rparr>)"
      using k(1) t open'(1) by (auto simp: sell_assessed_def open_sell_def)
    then show ?thesis
      using ih k open'(1) by (auto simp: ss' open_sell_def)
  next
    case closed: 3
    then have c: "(ds_date s = date \<and> ds_matched s < ds_quantity s) = False" by (simp add: open_sell_def)
    from "2.prems"(1) obtain rest where rest: "match_sells ec m date remaining adjustment ss = Ok (r, a, rest)"
      and ss': "ss' = s # rest" by (auto simp: c)
    show ?thesis using "2.IH"(2) [unfolded c, OF _ rest] "2.prems"(2) closed by (auto simp: ss')
  qed
qed

lemma match_buys_pool:
  assumes "match_buys date remaining bs = (r, bs')"
  shows "r \<le> remaining \<and> (0 < r \<longrightarrow> (\<forall>b \<in> set bs'. \<not> open_buy date b)) \<and>
    (\<forall>date' b'. b' \<in> set bs' \<longrightarrow> open_buy date' b' \<longrightarrow> (\<exists>b \<in> set bs. open_buy date' b))"
  using assms
proof (induction date remaining bs arbitrary: r bs' rule: match_buys.induct)
  case (2 date remaining b bs)
  define k where "k = min remaining (db_remaining b)"
  consider "open_buy date b" "remaining = 0" | "open_buy date b" "remaining \<noteq> 0" | "\<not> open_buy date b" by blast
  then show ?case
  proof cases
    case open': 2
    have c: "(db_date b = date \<and> 0 < db_remaining b) = True" using open' by (simp add: open_buy_def)
    obtain rest where rest: "match_buys date (remaining - k) bs = (r, rest)"
      and bs': "bs' = b\<lparr>db_remaining := db_remaining b - k\<rparr> # rest"
      using "2.prems" open' by (auto simp: c Let_def split: prod.splits simp flip: k_def)
    have "r \<le> remaining - k \<and> (0 < r \<longrightarrow> (\<forall>b \<in> set rest. \<not> open_buy date b)) \<and>
      (\<forall>date' b'. b' \<in> set rest \<longrightarrow> open_buy date' b' \<longrightarrow> (\<exists>b \<in> set bs. open_buy date' b))"
      using "2.IH"(1) [unfolded c, OF TrueI open'(2) refl] rest unfolding k_def by simp
    then show ?thesis using open'(1) by (auto simp: bs' open_buy_def k_def)
  next
    case closed: 3
    then have c: "(db_date b = date \<and> 0 < db_remaining b) = False" by (simp add: open_buy_def)
    obtain rest where rest: "match_buys date remaining bs = (r, rest)" and bs': "bs' = b # rest"
      using "2.prems" by (auto simp: c split: prod.splits)
    show ?thesis using "2.IH"(2) [unfolded c, OF _ rest] closed by (auto simp: bs')
  qed (use "2.prems" in \<open>auto simp: open_buy_def\<close>)
qed simp

lemma pool_inv_cong:
  assumes "pool_inv ec m buys sells" and "list_all (sell_assessed ec m) sells'"
    and "\<And>date. \<exists>b \<in> set buys'. open_buy date b \<Longrightarrow> \<exists>s \<in> set sells'. open_sell date s \<Longrightarrow>
      (\<exists>b \<in> set buys. open_buy date b) \<and> (\<exists>s \<in> set sells. open_sell date s)"
  shows "pool_inv ec m buys' sells'"
  using assms unfolding pool_inv_def by blast

lemma buy_keeps_pool:
  assumes inv: "pool_inv ec m buys sells" and ok: "match_sells ec m date q 0 sells = Ok (r, a, sells')"
  shows "pool_inv ec m (if 0 < r then buys @ [\<lparr>db_date = date, db_remaining = r\<rparr>] else buys) sells'"
proof -
  have pool: "list_all (sell_assessed ec m) sells' \<and> r \<le> q \<and>
    (0 < r \<longrightarrow> (\<forall>s \<in> set sells'. \<not> open_sell date s)) \<and>
    (\<forall>date' s'. s' \<in> set sells' \<longrightarrow> open_sell date' s' \<longrightarrow> (\<exists>s \<in> set sells. open_sell date' s))"
    using ok inv by (intro match_sells_pool) (simp_all add: pool_inv_def)
  show ?thesis using inv
    by (rule pool_inv_cong) (use pool in \<open>auto simp: open_buy_def split: if_splits\<close>)
qed

lemma sell_keeps_pool:
  assumes inv: "pool_inv ec m buys sells" and ok: "match_buys date q buys = (r, buys')"
    and tax: "split_sell_tax p q (q - r) ec m = Ok t"
  shows "pool_inv ec m buys' (if 0 < r then sells @ [\<lparr>ds_date = date, ds_price = p, ds_quantity = q,
      ds_matched = q - r, ds_assessed_tax = t\<rparr>] else sells)"
  using inv
proof (rule pool_inv_cong)
  show "list_all (sell_assessed ec m) (if 0 < r then sells @ [\<lparr>ds_date = date, ds_price = p, ds_quantity = q,
      ds_matched = q - r, ds_assessed_tax = t\<rparr>] else sells)"
    using inv tax by (simp add: pool_inv_def sell_assessed_def [of ec m "\<lparr>ds_date = _, ds_price = _, ds_quantity = _,
      ds_matched = _, ds_assessed_tax = _\<rparr>"])
qed (use match_buys_pool [OF ok] in \<open>auto simp: open_sell_def split: if_splits\<close>)

lemma tax_for_fill_pool:
  assumes "tax_for_fill l f notional buys sells = Ok ta" and "ld_day_trade_tax l = Some m"
    and "pool_inv (ld_economics l) m buys sells"
  shows "pool_inv (ld_economics l) m (ta_buys ta) (ta_sells ta)"
proof -
  obtain date where date: "fill_trading_date (fr_match_time f) (dt_timezone_offset_minutes m) = Ok date"
    using assms(1,2) by (auto simp: tax_for_fill_def Let_def)
  show ?thesis
  proof (cases "\<not> is_eligible m date \<or> dt_valid_through m < date")
    case True
    then show ?thesis using assms date by (auto simp: tax_for_fill_def Let_def)
  next
    case False
    show ?thesis
    proof (cases "fr_side f")
      case Buy
      with assms date False obtain r a sells' where
        "match_sells (ld_economics l) m date (q_value (fr_quantity f)) 0 sells = Ok (r, a, sells')"
        and "ta = \<lparr>ta_tax = a, ta_buys = (if 0 < r then buys @ [\<lparr>db_date = date, db_remaining = r\<rparr>] else buys),
               ta_sells = sells'\<rparr>"
        by (auto simp: tax_for_fill_def Let_def)
      then show ?thesis using buy_keeps_pool [OF assms(3)] by simp
    next
      case Sell
      obtain r buys' where mb: "match_buys date (q_value (fr_quantity f)) buys = (r, buys')" by fastforce
      with assms date False Sell obtain t where
        "split_sell_tax (fr_price f) (q_value (fr_quantity f)) (q_value (fr_quantity f) - r) (ld_economics l) m = Ok t"
        and "ta = \<lparr>ta_tax = t, ta_buys = buys', ta_sells = (if 0 < r
          then sells @ [\<lparr>ds_date = date, ds_price = fr_price f, ds_quantity = q_value (fr_quantity f),
                         ds_matched = q_value (fr_quantity f) - r, ds_assessed_tax = t\<rparr>] else sells)\<rparr>"
        by (auto simp: tax_for_fill_def Let_def)
      then show ?thesis using sell_keeps_pool [OF assms(3) mb] by simp
    qed
  qed
qed

lemma apply_fill_pool:
  assumes "ledger_apply_fill l f = Ok l'" and "ld_day_trade_tax l = Some m"
    and "pool_inv (ld_economics l) m (ld_day_trade_buys l) (ld_day_trade_sells l)"
  shows "pool_inv (ld_economics l') m (ld_day_trade_buys l') (ld_day_trade_sells l')"
  using assms(1)
proof (rule ledger_apply_fillE)
  fix notional fee ta pt delta
  assume tax: "tax_for_fill l f notional (ld_day_trade_buys l) (ld_day_trade_sells l) = Ok ta"
    and l': "l' = l\<lparr>ld_cash := ld_cash l + delta, ld_position := pt_position pt,
               ld_cost_basis_atoms := pt_cost_basis pt, ld_average_cost := pt_average_cost pt,
               ld_realized_pnl := ld_realized_pnl l + pt_realized pt,
               ld_total_fee := ld_total_fee l + fee, ld_total_tax := ld_total_tax l + ta_tax ta,
               ld_day_trade_buys := ta_buys ta, ld_day_trade_sells := ta_sells ta,
               ld_fill_costs := ld_fill_costs l @
                 [\<lparr>fc_order_id = fr_order_id f, fc_fee = fee, fc_tax = ta_tax ta\<rparr>],
               ld_fills := ld_fills l @ [f]\<rparr>"
  show ?thesis using tax_for_fill_pool [OF tax assms(2,3)] by (simp add: l')
qed

text \<open>
  The day-trade pool is always fully matched and correctly taxed. In a ledger with a day-trade
  tax model, after any fills, no date has both an open buy and an open sell, no sell is matched
  beyond its quantity, and the tax on record for every pooled sell is the split of its price and
  quantity into the matched part at the day-trade rate and the rest at the ordinary rate.
\<close>

theorem day_trade_pool_matched:
  assumes "rfold ledger_apply_fill (rebuild_base l0) fs = Ok l" and "ld_day_trade_tax l0 = Some m"
  shows "(\<forall>s \<in> set (ld_day_trade_sells l). ds_matched s \<le> ds_quantity s \<and>
      split_sell_tax (ds_price s) (ds_quantity s) (ds_matched s) (ld_economics l0) m = Ok (ds_assessed_tax s)) \<and>
    \<not> (\<exists>b \<in> set (ld_day_trade_buys l). \<exists>s \<in> set (ld_day_trade_sells l).
        db_date b = ds_date s \<and> 0 < db_remaining b \<and> ds_matched s < ds_quantity s)"
proof -
  define P where "P l' \<longleftrightarrow> ld_day_trade_tax l' = Some m \<and> ld_economics l' = ld_economics l0 \<and>
    pool_inv (ld_economics l') m (ld_day_trade_buys l') (ld_day_trade_sells l')" for l' :: ledger
  have "P l"
  proof (rule rfold_invariant [OF assms(1)])
    show "P (rebuild_base l0)" using assms(2) by (simp add: P_def pool_inv_def)
    show "P s'" if "P s" "f \<in> set fs" "ledger_apply_fill s f = Ok s'" for s f s'
      using that(1) apply_fill_frame(3,6) [OF that(3)] apply_fill_pool [OF that(3)] by (auto simp: P_def)
  qed
  then show ?thesis
    by (fastforce simp: P_def pool_inv_def list_all_iff sell_assessed_def open_buy_def open_sell_def)
qed

section \<open>A sample ledger\<close>

definition sample_fee :: charge_model where
  "sample_fee = \<lparr>cm_basis = NotionalRate, cm_rate = 1000000000000000, cm_sides = ChargeBoth,
     cm_minimum = 0, cm_precision = 0, cm_rounding = RoundUp\<rparr>"

definition sample_tax :: "decimal \<Rightarrow> charge_model" where
  "sample_tax rate = \<lparr>cm_basis = NotionalRate, cm_rate = rate, cm_sides = ChargeSell,
     cm_minimum = 0, cm_precision = 0, cm_rounding = RoundDown\<rparr>"

definition sample_day_trade :: day_trade_tax_model where
  "sample_day_trade = \<lparr>dt_ordinary = sample_tax 3000000000000000, dt_day_trade = sample_tax 1500000000000000,
     dt_timezone_offset_minutes = 480, dt_valid_through = 20000, dt_eligible = True, dt_eligible_dates = None,
     dt_provenance = ''p''\<rparr>"

definition sample_ledger :: ledger where
  "sample_ledger = ledger_with_day_trade_tax sample_day_trade
     (ledger_new 5000000000000000000000
       \<lparr>ec_units_per_trading_unit = 1000, ec_multiplier = 1000000000000000000, ec_provenance = ''p''\<rparr>
       sample_fee (sample_tax 0))"

definition sample_fill :: "order_side \<Rightarrow> price \<Rightarrow> nat \<Rightarrow> fill_record" where
  "sample_fill side p q = fill_from_market_event [] 0 0 side p \<lparr>q_value = q, q_unit = TradingUnit\<rparr>"

lemma gcd_loop_0: "gcd_loop a 0 = a"
  by (simp add: gcd_loop.simps)

lemma gcd_loop_numeral: "gcd_loop a (numeral b) = gcd_loop (numeral b) (a mod numeral b)"
  by (subst gcd_loop.simps) simp

lemma gcd_loop_Suc_0: "gcd_loop a (Suc 0) = Suc 0"
  by (simp add: gcd_loop_gcd)

text \<open>Evaluation binds one result at a time: the continuation waits until its argument is a value.\<close>

lemma rbind_weak_cong: "m = m' \<Longrightarrow> rbind m f = rbind m' f"
  by simp

lemma sample_ledger_fields:
  "ld_cash sample_ledger = 5000000000000000000000" "ld_position sample_ledger = 0"
  "ld_cost_basis_atoms sample_ledger = 0" "ld_realized_pnl sample_ledger = 0" "ld_total_fee sample_ledger = 0"
  "ld_total_tax sample_ledger = 0" "ld_day_trade_buys sample_ledger = []" "ld_day_trade_sells sample_ledger = []"
  "ld_economics sample_ledger = \<lparr>ec_units_per_trading_unit = 1000, ec_multiplier = 1000000000000000000, ec_provenance = ''p''\<rparr>"
  "ld_fee sample_ledger = sample_fee" "ld_tax sample_ledger = dt_ordinary sample_day_trade"
  "ld_day_trade_tax sample_ledger = Some sample_day_trade" "ld_accounting_model sample_ledger = EquityV1"
  by (simp_all add: sample_ledger_def ledger_with_day_trade_tax_def ledger_new_def ledger_new_with_model_def)

lemmas ledger_eval = sample_day_trade_def sample_tax_def sample_fee_def sample_ledger_fields
  sample_fill_def fill_from_market_event_def
  ledger_apply_fill_def ledger_models_valid_def validate_models_def fill_notional_def scale_by_quantity_def
  multiply_decimal_atoms_def [unfolded Let_def] reduce_product_def [unfolded Let_def] gcd_loop_0 gcd_loop_Suc_0
  gcd_loop_numeral tdiv_def trem_def u128_as_i128_def
  acc_i128_def acc_add_def acc_sub_def acc_neg_def decimal_checked_add_def decimal_checked_sub_def
  decimal_checked_neg_def in_i128_def checked_i128_def charge_def [unfolded Let_def] charge_amount_def
  charge_quantum_def divide_round_def [unfolded Let_def] tax_for_fill_def [unfolded Let_def]
  fill_trading_date_def [unfolded Let_def] MICROS_PER_MINUTE_def MICROS_PER_DAY_def
  trading_date_from_epoch_days_def in_i32_def in_i64_def checked_i64_def is_eligible_def split_sell_tax_def
  checked_sub_nat_def signed_quantity_def transition_position_def unsigned_abs_as_i128_def average_cost_def
  cash_delta_def DECIMAL_SCALE_FACTOR_def MIN_EPOCH_DAYS_def MAX_EPOCH_DAYS_def Let_def

abbreviation sample_fills :: "fill_record list" where
  "sample_fills \<equiv> [sample_fill Sell 20000000000000000000 2, sample_fill Buy 19000000000000000000 1]"

lemma sample_run:
  "\<exists>l. rfold ledger_apply_fill (rebuild_base sample_ledger) sample_fills = Ok l \<and> ld_position l = - 1 \<and>
     map ds_matched (ld_day_trade_sells l) = [1]"
proof -
  have base: "rebuild_base sample_ledger = sample_ledger"
    by (simp add: rebuild_base_def sample_ledger_def ledger_with_day_trade_tax_def ledger_new_def
        ledger_new_with_model_def with_optional_day_trade_tax_def)
  show ?thesis unfolding base by (simp add: ledger_eval cong: rbind_weak_cong)
qed

theorem ledger_cash_identity_witness:
  "\<exists>l. rfold ledger_apply_fill (rebuild_base sample_ledger) sample_fills = Ok l \<and>
     (5000000000000000000000 + ld_realized_pnl l - ld_total_fee l - ld_total_tax l - ld_cash l) * DECIMAL_SCALE_FACTOR =
       - ld_cost_basis_atoms l * 1000000000000000000 * 1000"
proof -
  obtain l where l: "rfold ledger_apply_fill (rebuild_base sample_ledger) sample_fills = Ok l" "ld_position l = - 1"
    using sample_run by blast
  have init: "ld_initial_cash sample_ledger = 5000000000000000000000"
    by (simp add: sample_ledger_def ledger_with_day_trade_tax_def ledger_new_def ledger_new_with_model_def)
  have "(5000000000000000000000 + ld_realized_pnl l - ld_total_fee l - ld_total_tax l - ld_cash l) * DECIMAL_SCALE_FACTOR =
       - ld_cost_basis_atoms l * 1000000000000000000 * 1000"
    using conjunct1 [OF ledger_cash_identity [OF l(1)]]
    by (simp add: sample_ledger_fields init l(2))
  then show ?thesis using l(1) by blast
qed

theorem day_trade_pool_matched_witness:
  "\<exists>l. rfold ledger_apply_fill (rebuild_base sample_ledger) sample_fills = Ok l \<and>
     map ds_matched (ld_day_trade_sells l) = [1] \<and>
     (\<forall>s \<in> set (ld_day_trade_sells l).
       split_sell_tax (ds_price s) (ds_quantity s) (ds_matched s) (ld_economics sample_ledger) sample_day_trade =
         Ok (ds_assessed_tax s))"
proof -
  from sample_run obtain l where l: "rfold ledger_apply_fill (rebuild_base sample_ledger) sample_fills = Ok l"
    and m: "map ds_matched (ld_day_trade_sells l) = [1]" by (elim exE conjE)
  note th = conjunct1 [OF day_trade_pool_matched [OF l sample_ledger_fields(12)]]
  show ?thesis by (intro exI [of _ l] conjI l m ballI) (use th in blast)
qed

end
