(* ===== verification/MultiLedger.thy ===== *)
theory MultiLedger
  imports Ledger
begin

text \<open>
  The shared-cash ledger over several instruments of \<open>crates/execution-sim/src/accounting.rs\<close>:
  \<open>MultiLedger\<close>, its cash charges and its performance summary. As in the single ledger, every
  operation computes its new fields before it assigns them, so the model returns the new ledger only on
  success. Reachable ledgers are those built by \<open>MultiLedger::new\<close> and changed by fills and cash charges
  in any order; their cash is the initial cash plus the cash of each instrument less the charges, and
  marking every position to market gives the initial cash plus all profit less all costs.
\<close>

section \<open>Model\<close>

record instrument_ledger_config =
  lc_instrument :: instrument_id
  lc_quantity_unit :: quantity_unit
  lc_model :: accounting_model
  lc_price_policy :: price_policy
  lc_economics :: instrument_economics
  lc_fee :: charge_model
  lc_tax :: charge_model
  lc_day_trade_tax :: "day_trade_tax_model option"

definition ledger_config_new ::
  "instrument_id \<Rightarrow> quantity_unit \<Rightarrow> accounting_model \<Rightarrow> instrument_economics \<Rightarrow> charge_model \<Rightarrow> charge_model \<Rightarrow>
   instrument_ledger_config" where
  "ledger_config_new i u model ec fee tax =
     \<lparr>lc_instrument = i, lc_quantity_unit = u, lc_model = model, lc_price_policy = PositiveOnly,
      lc_economics = ec, lc_fee = fee, lc_tax = tax, lc_day_trade_tax = None\<rparr>"

definition config_with_day_trade_tax ::
  "day_trade_tax_model \<Rightarrow> instrument_ledger_config \<Rightarrow> instrument_ledger_config" where
  "config_with_day_trade_tax m c = c\<lparr>lc_tax := dt_ordinary m, lc_day_trade_tax := Some m\<rparr>"

definition config_with_price_policy ::
  "price_policy \<Rightarrow> instrument_ledger_config \<Rightarrow> instrument_ledger_config" where
  "config_with_price_policy p c = c\<lparr>lc_price_policy := p\<rparr>"

record instrument_ledger =
  il_quantity_unit :: quantity_unit
  il_model :: accounting_model
  il_price_policy :: price_policy
  il_ledger :: ledger

record cash_charge_record =
  cc_identity :: cash_charge_identity
  cc_at :: int
  cc_amount :: decimal
  cc_category :: string
  cc_reference :: string

record multi_ledger =
  ml_initial_cash :: decimal
  ml_cash :: decimal
  ml_ledgers :: "(instrument_id, instrument_ledger) bmap"
  ml_cash_charges :: "cash_charge_record list"
  ml_cash_charge_identities :: "cash_charge_identity set"

text \<open>
  \<open>text.trim().is_empty()\<close>: the UTF-8 text consists of \<open>White_Space\<close> characters only (the ASCII ones,
  U+0085, U+00A0, U+1680, U+2000 to U+200A, U+2028, U+2029, U+202F, U+205F and U+3000).
\<close>

fun is_blank_bytes :: "nat list \<Rightarrow> bool" where
  "is_blank_bytes [] = True"
| "is_blank_bytes (a # rest) =
     (if 9 \<le> a \<and> a \<le> 13 \<or> a = 32 then is_blank_bytes rest
      else case rest of
        [] \<Rightarrow> False
      | b # rest1 \<Rightarrow>
          (if a = 194 \<and> (b = 133 \<or> b = 160) then is_blank_bytes rest1
           else case rest1 of
             [] \<Rightarrow> False
           | c # rest2 \<Rightarrow>
               (a = 225 \<and> b = 154 \<and> c = 128 \<or>
                a = 226 \<and> b = 128 \<and> (128 \<le> c \<and> c \<le> 138 \<or> c = 168 \<or> c = 169 \<or> c = 175) \<or>
                a = 226 \<and> b = 129 \<and> c = 159 \<or> a = 227 \<and> b = 128 \<and> c = 128) \<and>
               is_blank_bytes rest2))"

definition trim_is_empty :: "string \<Rightarrow> bool" where
  "trim_is_empty s = is_blank_bytes (map of_char s)"

definition cash_charge_invalid :: "cash_charge_record \<Rightarrow> bool" where
  "cash_charge_invalid c \<longleftrightarrow> cc_amount c < 0 \<or> trim_is_empty (cc_category c) \<or> trim_is_empty (cc_reference c)"

definition cash_charge_new ::
  "cash_charge_identity \<Rightarrow> int \<Rightarrow> decimal \<Rightarrow> string \<Rightarrow> string \<Rightarrow> (cash_charge_record, accounting_error) result" where
  "cash_charge_new identity at_time amount category reference =
     (let c = \<lparr>cc_identity = identity, cc_at = at_time, cc_amount = amount, cc_category = category,
               cc_reference = reference\<rparr>
      in if cash_charge_invalid c then Err InvalidCashCharge else Ok c)"

fun model_matches_market :: "instrument_id \<Rightarrow> accounting_model \<Rightarrow> bool" where
  "model_matches_market (Taifex, s) model = (model = FuturesV1 \<or> model = OptionsV1)"
| "model_matches_market (Twse, s) model = (model = EquityV1)"
| "model_matches_market (Tpex, s) model = (model = EquityV1)"

definition fresh_entry :: "instrument_ledger_config \<Rightarrow> instrument_ledger" where
  "fresh_entry c =
     \<lparr>il_quantity_unit = lc_quantity_unit c, il_model = lc_model c, il_price_policy = lc_price_policy c,
      il_ledger = with_optional_day_trade_tax (lc_day_trade_tax c)
        (ledger_new_with_model 0 (lc_economics c) (lc_fee c) (lc_tax c) (lc_model c))\<rparr>"

definition add_ledger_config ::
  "(instrument_id, instrument_ledger) bmap \<Rightarrow> instrument_ledger_config \<Rightarrow>
   ((instrument_id, instrument_ledger) bmap, accounting_error) result" where
  "add_ledger_config ledgers c =
     (if \<not> model_matches_market (lc_instrument c) (lc_model c) \<or> lc_quantity_unit c = SourceUnit \<or>
         (lc_day_trade_tax c \<noteq> None \<and> lc_model c \<noteq> EquityV1)
      then Err (AccountingModelMismatch (lc_instrument c))
      else rbind (validate_models (lc_economics c) (lc_fee c) (lc_tax c)) (\<lambda>_.
        rbind (case lc_day_trade_tax c of None \<Rightarrow> Ok ()
               | Some d \<Rightarrow> validate_models (lc_economics c) (lc_fee c) (dt_day_trade d)) (\<lambda>_.
        if bm_get ledgers (lc_instrument c) \<noteq> None then Err (DuplicateInstrument (lc_instrument c))
        else Ok (bm_insert (lc_instrument c) (fresh_entry c) ledgers))))"

definition multi_ledger_new ::
  "decimal \<Rightarrow> instrument_ledger_config list \<Rightarrow> (multi_ledger, accounting_error) result" where
  "multi_ledger_new initial_cash configs =
     (if initial_cash < 0 then Err InvalidModel
      else rbind (rfold add_ledger_config [] configs) (\<lambda>ledgers.
        if ledgers = [] then Err EmptyUniverse
        else Ok \<lparr>ml_initial_cash = initial_cash, ml_cash = initial_cash, ml_ledgers = ledgers,
                 ml_cash_charges = [], ml_cash_charge_identities = {}\<rparr>))"

definition charge_cash ::
  "cash_charge_identity set \<times> decimal \<Rightarrow> cash_charge_record \<Rightarrow>
   (cash_charge_identity set \<times> decimal, accounting_error) result" where
  "charge_cash st c =
     (if cash_charge_invalid c then Err InvalidCashCharge
      else if cc_identity c \<in> fst st then Err (DuplicateCashCharge (cc_identity c))
      else rbind (acc_sub (snd st) (cc_amount c)) (\<lambda>cash. Ok (insert (cc_identity c) (fst st), cash)))"

definition apply_cash_charges ::
  "multi_ledger \<Rightarrow> cash_charge_record list \<Rightarrow> (multi_ledger, accounting_error) result" where
  "apply_cash_charges m charges =
     rbind (rfold charge_cash (ml_cash_charge_identities m, ml_cash m) charges) (\<lambda>(identities, next_cash).
       Ok (m\<lparr>ml_cash := next_cash, ml_cash_charge_identities := identities,
             ml_cash_charges := ml_cash_charges m @ charges\<rparr>))"

definition multi_apply_fill ::
  "multi_ledger \<Rightarrow> instrument_id \<Rightarrow> fill_record \<Rightarrow> (multi_ledger, accounting_error) result" where
  "multi_apply_fill m i f =
     rbind (ok_or (bm_get (ml_ledgers m) i) (UnknownInstrument i)) (\<lambda>entry.
       if q_unit (fr_quantity f) \<noteq> il_quantity_unit entry
       then Err (AccQuantityUnitMismatch (il_quantity_unit entry) (q_unit (fr_quantity f)))
       else if \<not> policy_accepts (il_price_policy entry) (fr_price f) then Err InvalidPriceForInstrument
       else rbind (ledger_apply_fill (il_ledger entry) f) (\<lambda>next_ledger.
            rbind (acc_sub (ld_cash next_ledger) (ld_cash (il_ledger entry))) (\<lambda>delta.
            rbind (acc_add (ml_cash m) delta) (\<lambda>next_cash.
              Ok (m\<lparr>ml_ledgers := bm_insert i (entry\<lparr>il_ledger := next_ledger\<rparr>) (ml_ledgers m),
                    ml_cash := next_cash\<rparr>)))))"

definition reconcile_entry :: "decimal \<Rightarrow> instrument_ledger \<Rightarrow> (decimal, accounting_error) result" where
  "reconcile_entry cash entry =
     (if ld_accounting_model (il_ledger entry) \<noteq> il_model entry then Err Reconciliation
      else rbind (ledger_reconcile (il_ledger entry)) (\<lambda>_. acc_add cash (ld_cash (il_ledger entry))))"

definition reconcile_charge ::
  "cash_charge_identity set \<times> decimal \<Rightarrow> cash_charge_record \<Rightarrow>
   (cash_charge_identity set \<times> decimal, accounting_error) result" where
  "reconcile_charge st c =
     (if cc_identity c \<in> fst st then Err Reconciliation
      else rbind (acc_sub (snd st) (cc_amount c)) (\<lambda>cash. Ok (insert (cc_identity c) (fst st), cash)))"

definition multi_reconcile :: "multi_ledger \<Rightarrow> (unit, accounting_error) result" where
  "multi_reconcile m =
     rbind (rfold reconcile_entry (ml_initial_cash m) (bm_values (ml_ledgers m))) (\<lambda>rebuilt_cash.
     rbind (rfold reconcile_charge ({}, rebuilt_cash) (ml_cash_charges m)) (\<lambda>(identities, cash).
       if identities \<noteq> ml_cash_charge_identities m then Err Reconciliation
       else if cash \<noteq> ml_cash m then Err Reconciliation else Ok ()))"

record instrument_performance =
  ip_instrument :: instrument_id
  ip_quantity_unit :: quantity_unit
  ip_accounting_model :: accounting_model
  ip_economics :: instrument_economics
  ip_average_cost :: "decimal option"
  ip_summary :: performance_summary

record multi_performance_summary =
  mp_initial_cash :: decimal
  mp_final_cash :: decimal
  mp_realized_pnl :: decimal
  mp_unrealized_pnl :: decimal
  mp_total_fee :: decimal
  mp_total_tax :: decimal
  mp_total_cash_charges :: decimal
  mp_fill_count :: nat
  mp_instruments :: "instrument_performance list"

definition add_instrument_performance ::
  "(instrument_id, decimal option) bmap \<Rightarrow> multi_performance_summary \<Rightarrow> instrument_id \<times> instrument_ledger \<Rightarrow>
   (multi_performance_summary, accounting_error) result" where
  "add_instrument_performance final_marks acc ie =
     (let i = fst ie; entry = snd ie; l = il_ledger entry in
      rbind (ledger_performance l (Option.bind (bm_get final_marks i) (\<lambda>x. x))) (\<lambda>summary.
      if ld_position l \<noteq> 0 \<and> pf_unrealized_pnl summary = None then Err (MissingFinalMark i)
      else rbind (acc_add (mp_realized_pnl acc) (pf_realized_pnl summary)) (\<lambda>realized.
        rbind (acc_add (mp_unrealized_pnl acc) (case pf_unrealized_pnl summary of None \<Rightarrow> 0 | Some u \<Rightarrow> u)) (\<lambda>unrealized.
        rbind (acc_add (mp_total_fee acc) (pf_total_fee summary)) (\<lambda>fee.
        rbind (acc_add (mp_total_tax acc) (pf_total_tax summary)) (\<lambda>tax.
        rbind (ok_or (checked_u64 (mp_fill_count acc + pf_fill_count summary)) AccOverflow) (\<lambda>count.
          Ok (acc\<lparr>mp_realized_pnl := realized, mp_unrealized_pnl := unrealized, mp_total_fee := fee,
                  mp_total_tax := tax, mp_fill_count := count,
                  mp_instruments := mp_instruments acc @
                    [\<lparr>ip_instrument = i, ip_quantity_unit = il_quantity_unit entry,
                      ip_accounting_model = il_model entry, ip_economics = ld_economics l,
                      ip_average_cost = ld_average_cost l, ip_summary = summary\<rparr>]\<rparr>))))))))"

definition multi_performance ::
  "multi_ledger \<Rightarrow> (instrument_id, decimal option) bmap \<Rightarrow> (multi_performance_summary, accounting_error) result" where
  "multi_performance m final_marks =
     rbind (rfold (\<lambda>total c. acc_add total (cc_amount c)) 0 (ml_cash_charges m)) (\<lambda>total_cash_charges.
       rfold (add_instrument_performance final_marks)
         \<lparr>mp_initial_cash = ml_initial_cash m, mp_final_cash = ml_cash m, mp_realized_pnl = 0,
          mp_unrealized_pnl = 0, mp_total_fee = 0, mp_total_tax = 0,
          mp_total_cash_charges = total_cash_charges, mp_fill_count = 0, mp_instruments = []\<rparr>
         (ml_ledgers m))"

definition mark_to_market_adjustment ::
  "multi_ledger \<Rightarrow> instrument_id \<Rightarrow> decimal \<Rightarrow> (decimal, accounting_error) result" where
  "mark_to_market_adjustment m i mk =
     rbind (ok_or (bm_get (ml_ledgers m) i) (UnknownInstrument i)) (\<lambda>entry.
       let l = il_ledger entry; position = ld_position l in
       if \<not> policy_accepts (il_price_policy entry) mk then Err InvalidPriceForInstrument
       else if position = 0 then Ok 0
       else if il_model entry = FuturesV1 then
         rbind (ledger_performance l (Some mk)) (\<lambda>s. ok_or (pf_unrealized_pnl s) (MissingFinalMark i))
       else rbind (acc_i128 (mk * unsigned_abs_as_i128 position)) (\<lambda>marked_atoms.
            rbind (scale_by_quantity marked_atoms 1 (ld_economics l)) (\<lambda>marked_value.
              if 0 < position then Ok marked_value else acc_neg marked_value)))"

text \<open>The ledgers a run can build: from \<open>new\<close>, by fills and cash charges.\<close>

inductive multi_reachable :: "multi_ledger \<Rightarrow> bool" where
  fresh: "multi_ledger_new cash configs = Ok m \<Longrightarrow> multi_reachable m"
| fill: "multi_reachable m \<Longrightarrow> multi_apply_fill m i f = Ok m' \<Longrightarrow> multi_reachable m'"
| charges: "multi_reachable m \<Longrightarrow> apply_cash_charges m cs = Ok m' \<Longrightarrow> multi_reachable m'"

section \<open>The invariant of reachable ledgers\<close>

definition entry_ok :: "instrument_ledger \<Rightarrow> bool" where
  "entry_ok e \<longleftrightarrow> ld_accounting_model (il_ledger e) = il_model e \<and> ledger_reconcile (il_ledger e) = Ok () \<and>
     book_identity (il_ledger e) \<and> ld_initial_cash (il_ledger e) = 0"

definition entry_cash :: "instrument_ledger \<Rightarrow> decimal" where
  "entry_cash e = ld_cash (il_ledger e)"

definition multi_inv :: "multi_ledger \<Rightarrow> bool" where
  "multi_inv m \<longleftrightarrow> bm_inv (ml_ledgers m) \<and> list_all entry_ok (bm_values (ml_ledgers m)) \<and>
     ml_cash m = ml_initial_cash m + sum_list (map entry_cash (bm_values (ml_ledgers m)))
       - sum_list (map cc_amount (ml_cash_charges m)) \<and>
     ml_cash_charge_identities m = set (map cc_identity (ml_cash_charges m)) \<and>
     distinct (map cc_identity (ml_cash_charges m))"

lemma fresh_entry_ok: "entry_ok (fresh_entry c)" "entry_cash (fresh_entry c) = 0"
proof -
  define e where "e = fresh_entry c"
  have base: "rebuild_base (il_ledger e) = il_ledger e"
    by (simp add: e_def fresh_entry_def rebuild_base_def with_optional_day_trade_tax_def ledger_new_with_model_def)
  then have "rfold ledger_apply_fill (rebuild_base (il_ledger e)) [] = Ok (il_ledger e)" by simp
  then have "ledger_reconcile (il_ledger e) = Ok ()" unfolding ledger_reconcile_iff by blast
  moreover have "book_identity (il_ledger e)" by (subst base [symmetric]) (simp add: book_identity_def)
  ultimately show "entry_ok (fresh_entry c)" "entry_cash (fresh_entry c) = 0"
    unfolding e_def
    by (simp_all add: entry_ok_def entry_cash_def fresh_entry_def with_optional_day_trade_tax_def ledger_new_with_model_def)
qed

lemma add_ledger_config_ok:
  assumes "add_ledger_config ledgers c = Ok ledgers'"
    and "bm_inv ledgers" "list_all entry_ok (bm_values ledgers)" "sum_list (map entry_cash (bm_values ledgers)) = 0"
  shows "bm_inv ledgers' \<and> list_all entry_ok (bm_values ledgers') \<and> sum_list (map entry_cash (bm_values ledgers')) = 0"
proof -
  have new: "bm_get ledgers (lc_instrument c) = None"
    and l': "ledgers' = bm_insert (lc_instrument c) (fresh_entry c) ledgers"
    using assms(1) by (auto simp: add_ledger_config_def split: if_splits)
  have "list_all entry_ok (bm_values ledgers')"
    unfolding l' using assms(3) fresh_entry_ok(1) by (rule bm_insert_all)
  moreover have "sum_list (map entry_cash (bm_values ledgers')) = 0"
    using bm_insert_new_sum [OF new, of entry_cash "fresh_entry c"] fresh_entry_ok assms(4) by (simp add: l')
  moreover have "bm_inv ledgers'" unfolding l' using assms(2) by (rule bm.inv_insert)
  ultimately show ?thesis by blast
qed

lemma new_multi_inv:
  assumes "multi_ledger_new cash configs = Ok m"
  shows "multi_inv m"
proof -
  obtain ledgers where r: "rfold add_ledger_config [] configs = Ok ledgers"
    and m: "m = \<lparr>ml_initial_cash = cash, ml_cash = cash, ml_ledgers = ledgers,
                 ml_cash_charges = [], ml_cash_charge_identities = {}\<rparr>"
    using assms by (auto simp: multi_ledger_new_def split: if_splits)
  have "bm_inv ledgers \<and> list_all entry_ok (bm_values ledgers) \<and> sum_list (map entry_cash (bm_values ledgers)) = 0"
    using r by (rule rfold_invariant) (simp add: bm.inv_empty, blast dest: add_ledger_config_ok)
  then show ?thesis by (simp add: multi_inv_def m)
qed

text \<open>The two loops over charges agree: what one accepted the other accepts, up to the cash it starts from.\<close>

lemma charge_cash_Ok:
  assumes "rfold charge_cash (ids, cash) cs = Ok (ids', cash')"
  shows "cash' = cash - sum_list (map cc_amount cs) \<and> ids' = ids \<union> set (map cc_identity cs) \<and>
    distinct (map cc_identity cs) \<and> ids \<inter> set (map cc_identity cs) = {} \<and>
    list_all (\<lambda>c. \<not> cash_charge_invalid c) cs"
  using assms
proof (induction cs arbitrary: ids cash)
  case (Cons c cs)
  have "rfold charge_cash (insert (cc_identity c) ids, cash - cc_amount c) cs = Ok (ids', cash')"
    and "cc_identity c \<notin> ids" and "\<not> cash_charge_invalid c"
    using Cons.prems by (auto simp: charge_cash_def [of "(ids, cash)" c] split: if_splits)
  then show ?case using Cons.IH by fastforce
qed simp

lemma charges_multi_inv:
  assumes "multi_inv m" and "apply_cash_charges m cs = Ok m'"
  shows "multi_inv m'"
proof -
  obtain ids cash where r: "rfold charge_cash (ml_cash_charge_identities m, ml_cash m) cs = Ok (ids, cash)"
    and m': "m' = m\<lparr>ml_cash := cash, ml_cash_charge_identities := ids, ml_cash_charges := ml_cash_charges m @ cs\<rparr>"
    using assms(2) by (auto simp: apply_cash_charges_def)
  show ?thesis using charge_cash_Ok [OF r] assms(1) by (auto simp: multi_inv_def m')
qed

lemma multi_apply_fillE:
  assumes "multi_apply_fill m i f = Ok m'"
  obtains entry l' where "bm_get (ml_ledgers m) i = Some entry" and "ledger_apply_fill (il_ledger entry) f = Ok l'"
    and "q_unit (fr_quantity f) = il_quantity_unit entry" and "policy_accepts (il_price_policy entry) (fr_price f)"
    and "m' = m\<lparr>ml_ledgers := bm_insert i (entry\<lparr>il_ledger := l'\<rparr>) (ml_ledgers m),
                ml_cash := ml_cash m + (ld_cash l' - ld_cash (il_ledger entry))\<rparr>"
  using assms by (auto simp: multi_apply_fill_def split: if_splits)

lemma fill_entry_ok:
  assumes "entry_ok e" and "ledger_apply_fill (il_ledger e) f = Ok l'"
  shows "entry_ok (e\<lparr>il_ledger := l'\<rparr>)"
proof -
  note frame = apply_fill_frame [OF assms(2)]
  obtain fs where "rfold ledger_apply_fill (rebuild_base (il_ledger e)) fs = Ok (il_ledger e)"
    using assms(1) by (auto simp: entry_ok_def ledger_reconcile_iff)
  then have "rfold ledger_apply_fill (rebuild_base l') (fs @ [f]) = Ok l'"
    using assms(2) by (simp add: rfold_append frame(1))
  then have "ledger_reconcile l' = Ok ()" unfolding ledger_reconcile_iff by blast
  then show ?thesis
    using assms(1) frame apply_fill_book_identity [OF assms(2)] by (simp add: entry_ok_def)
qed

lemma fill_multi_inv:
  assumes "multi_inv m" and "multi_apply_fill m i f = Ok m'"
  shows "multi_inv m'"
  using assms(2)
proof (rule multi_apply_fillE)
  fix entry l'
  assume e: "bm_get (ml_ledgers m) i = Some entry" and l': "ledger_apply_fill (il_ledger entry) f = Ok l'"
    and m': "m' = m\<lparr>ml_ledgers := bm_insert i (entry\<lparr>il_ledger := l'\<rparr>) (ml_ledgers m),
                ml_cash := ml_cash m + (ld_cash l' - ld_cash (il_ledger entry))\<rparr>"
  have inv: "bm_inv (ml_ledgers m)" and all: "list_all entry_ok (bm_values (ml_ledgers m))"
    using assms(1) by (simp_all add: multi_inv_def)
  have "entry_ok entry" using bm_get_Some_in [OF e] all by (force simp: list_all_iff)
  then have new: "entry_ok (entry\<lparr>il_ledger := l'\<rparr>)" using l' by (rule fill_entry_ok)
  have "list_all entry_ok (bm_values (ml_ledgers m'))"
    using bm_insert_all [OF all new] by (simp add: m')
  moreover have "sum_list (map entry_cash (bm_values (ml_ledgers m'))) =
      sum_list (map entry_cash (bm_values (ml_ledgers m))) - ld_cash (il_ledger entry) + ld_cash l'"
    using bm_insert_old_sum [OF inv e, of entry_cash "entry\<lparr>il_ledger := l'\<rparr>"] by (simp add: m' entry_cash_def)
  moreover have "bm_inv (ml_ledgers m')" using bm.inv_insert [OF inv] by (simp add: m')
  ultimately show ?thesis using assms(1) by (simp add: multi_inv_def m')
qed

lemma reachable_multi_inv: "multi_reachable m \<Longrightarrow> multi_inv m"
  by (induction rule: multi_reachable.induct) (auto intro: new_multi_inv fill_multi_inv charges_multi_inv)

section \<open>Reconciliation\<close>

lemma reconcile_entries:
  "list_all entry_ok es \<Longrightarrow>
     rfold reconcile_entry c es = Ok (c + sum_list (map entry_cash es)) \<or> rfold reconcile_entry c es = Err AccOverflow"
proof (induction es arbitrary: c)
  case (Cons e es)
  have e: "entry_ok e" and es: "list_all entry_ok es" using Cons.prems by simp_all
  have step: "reconcile_entry c e = acc_add c (entry_cash e)"
    using e by (simp add: reconcile_entry_def entry_ok_def entry_cash_def)
  show ?case
  proof (cases "acc_add c (entry_cash e)")
    case (Ok x)
    then have x: "x = c + entry_cash e" by simp
    have "rfold reconcile_entry c (e # es) = rfold reconcile_entry x es" by (simp only: rfold.simps step Ok rbind.simps)
    then show ?thesis using Cons.IH [OF es, of x] unfolding x by (simp add: add.assoc)
  next
    case (Err x)
    then have "x = AccOverflow" by (simp add: acc_Err)
    then show ?thesis using Err by (simp only: rfold.simps step rbind.simps simp_thms)
  qed
qed simp

lemma reconcile_charges:
  "distinct (map cc_identity cs) \<Longrightarrow> ids \<inter> set (map cc_identity cs) = {} \<Longrightarrow>
     rfold reconcile_charge (ids, c) cs = Ok (ids \<union> set (map cc_identity cs), c - sum_list (map cc_amount cs)) \<or>
     rfold reconcile_charge (ids, c) cs = Err AccOverflow"
proof (induction cs arbitrary: ids c)
  case (Cons x cs)
  have prem: "distinct (map cc_identity cs)" "insert (cc_identity x) ids \<inter> set (map cc_identity cs) = {}"
    and new: "cc_identity x \<notin> ids" using Cons.prems by auto
  show ?case
  proof (cases "acc_sub c (cc_amount x)")
    case (Ok y)
    then have y: "y = c - cc_amount x" by simp
    have "rfold reconcile_charge (ids, c) (x # cs) = rfold reconcile_charge (insert (cc_identity x) ids, y) cs"
      using new by (simp only: rfold.simps reconcile_charge_def [of "(ids, c)" x] fst_conv snd_conv Ok rbind.simps if_False)
    then show ?thesis using Cons.IH [OF prem, of y] by (simp add: y diff_diff_add insert_is_Un [symmetric])
  next
    case (Err e)
    then have "e = AccOverflow" by (simp add: acc_Err)
    then show ?thesis using new Err
      by (simp only: rfold.simps reconcile_charge_def [of "(ids, c)" x] fst_conv snd_conv rbind.simps if_False simp_thms)
  qed
qed simp

text \<open>
  C18: shared cash is conserved. In every reachable multi-instrument ledger, cash equals the initial
  cash plus the cash movements of all instruments less all cash charges; no charge identity occurs
  twice; and \<open>MultiLedger::reconcile\<close> never reports a discrepancy: it succeeds, or an intermediate sum
  leaves the \<open>i128\<close> range.
\<close>

theorem multi_ledger_cash_conserved:
  assumes "multi_reachable m"
  shows "ml_cash m = ml_initial_cash m + (\<Sum>e \<leftarrow> bm_values (ml_ledgers m). ld_cash (il_ledger e))
       - (\<Sum>c \<leftarrow> ml_cash_charges m. cc_amount c) \<and>
     distinct (map cc_identity (ml_cash_charges m)) \<and>
     (multi_reconcile m = Ok () \<or> multi_reconcile m = Err AccOverflow)"
proof -
  have inv: "multi_inv m" using assms by (rule reachable_multi_inv)
  have cash: "ml_cash m = ml_initial_cash m + sum_list (map entry_cash (bm_values (ml_ledgers m)))
       - sum_list (map cc_amount (ml_cash_charges m))"
    and ids: "ml_cash_charge_identities m = set (map cc_identity (ml_cash_charges m))"
    and dist: "distinct (map cc_identity (ml_cash_charges m))"
    and ok: "list_all entry_ok (bm_values (ml_ledgers m))"
    using inv unfolding multi_inv_def by blast+
  have "multi_reconcile m = Ok () \<or> multi_reconcile m = Err AccOverflow"
  proof (cases "rfold reconcile_entry (ml_initial_cash m) (bm_values (ml_ledgers m))")
    case (Ok x)
    then have x: "x = ml_initial_cash m + sum_list (map entry_cash (bm_values (ml_ledgers m)))"
      using reconcile_entries [OF ok, of "ml_initial_cash m"] by simp
    show ?thesis using reconcile_charges [OF dist, of "{}" x] ids cash
      by (auto simp: multi_reconcile_def Ok x)
  next
    case (Err e)
    then show ?thesis using reconcile_entries [OF ok, of "ml_initial_cash m"] by (simp add: multi_reconcile_def)
  qed
  then show ?thesis using cash dist by (simp add: entry_cash_def comp_def)
qed

section \<open>Marking to market\<close>

lemma unrealized_value:
  assumes "unrealized_pnl l (Some mk) = Ok (Some u)" and "ld_position l \<noteq> 0"
  shows "u * DECIMAL_SCALE_FACTOR = sgn (ld_position l) * (mk * unsigned_abs_as_i128 (ld_position l) - ld_cost_basis_atoms l)
    * ec_multiplier (ld_economics l) * int (ec_units_per_trading_unit (ld_economics l))"
proof -
  define d where "d = (if 0 < ld_position l then mk * unsigned_abs_as_i128 (ld_position l) - ld_cost_basis_atoms l
    else ld_cost_basis_atoms l - mk * unsigned_abs_as_i128 (ld_position l))"
  have "scale_by_quantity d 1 (ld_economics l) = Ok u"
    using assms by (auto simp: unrealized_pnl_def d_def)
  moreover have "d = sgn (ld_position l) * (mk * unsigned_abs_as_i128 (ld_position l) - ld_cost_basis_atoms l)"
    using assms(2) by (auto simp: d_def sgn_if)
  ultimately show ?thesis using scale_by_quantity_exact(1) [of d 1 "ld_economics l" u] by simp
qed

lemma marked_entry:
  assumes ok: "entry_ok e" and e: "bm_get (ml_ledgers m) i = Some e"
    and a: "mark_to_market_adjustment m i mk = Ok a" and u: "unrealized_pnl (il_ledger e) (Some mk) = Ok (Some u)"
  shows "ld_cash (il_ledger e) + a =
    ld_realized_pnl (il_ledger e) + u - ld_total_fee (il_ledger e) - ld_total_tax (il_ledger e)"
proof -
  define l where "l = il_ledger e"
  define k where "k = ec_multiplier (ld_economics l) * int (ec_units_per_trading_unit (ld_economics l))"
  define v where "v = unsigned_abs_as_i128 (ld_position l)"
  have book: "(ld_realized_pnl l - ld_total_fee l - ld_total_tax l - ld_cash l) * DECIMAL_SCALE_FACTOR =
       (if il_model e = FuturesV1 then 0 else sgn (ld_position l) * ld_cost_basis_atoms l * k)"
  proof -
    have "book_identity l" "ld_accounting_model l = il_model e" "ld_initial_cash l = 0"
      using ok by (simp_all add: entry_ok_def l_def)
    note b = conjunct1 [OF this(1) [unfolded book_identity_def mult.assoc]]
    show ?thesis using b \<open>ld_accounting_model l = il_model e\<close> \<open>ld_initial_cash l = 0\<close> by (simp add: k_def mult.assoc)
  qed
  have diff: "(a - u) * DECIMAL_SCALE_FACTOR =
      (if il_model e = FuturesV1 then 0 else sgn (ld_position l) * ld_cost_basis_atoms l * k)"
  proof (cases "ld_position l = 0")
    case True
    then show ?thesis using a u e
      by (simp add: mark_to_market_adjustment_def unrealized_pnl_def Let_def split: if_splits flip: l_def)
  next
    case pos: False
    show ?thesis
    proof (cases "il_model e = FuturesV1")
      case True
      then show ?thesis using a u e pos
        by (simp add: mark_to_market_adjustment_def ledger_performance_def Let_def split: if_splits flip: l_def)
    next
      case False
      then obtain w where w: "scale_by_quantity (mk * v) 1 (ld_economics l) = Ok w"
        and a': "a = (if 0 < ld_position l then w else - w)"
        using a e pos by (auto simp: mark_to_market_adjustment_def Let_def v_def split: if_splits simp flip: l_def)
      have "a * DECIMAL_SCALE_FACTOR = sgn (ld_position l) * (mk * v) * k"
        using scale_by_quantity_exact(1) [OF w] pos by (auto simp: a' sgn_if k_def)
      moreover have "u * DECIMAL_SCALE_FACTOR = sgn (ld_position l) * (mk * v - ld_cost_basis_atoms l) * k"
        using unrealized_value [OF u [folded l_def] pos] by (simp add: v_def k_def mult.assoc)
      ultimately show ?thesis using False by (simp add: algebra_simps)
    qed
  qed
  have "(a - u) * DECIMAL_SCALE_FACTOR =
      (ld_realized_pnl l - ld_total_fee l - ld_total_tax l - ld_cash l) * DECIMAL_SCALE_FACTOR"
    unfolding book diff ..
  then have "a - u = ld_realized_pnl l - ld_total_fee l - ld_total_tax l - ld_cash l"
    using DECIMAL_SCALE_FACTOR_pos by auto
  then show ?thesis unfolding l_def by simp
qed

definition the_mark :: "(instrument_id, decimal option) bmap \<Rightarrow> instrument_id \<Rightarrow> decimal option" where
  "the_mark marks i = Option.bind (bm_get marks i) (\<lambda>x. x)"

definition unrealized_of :: "(instrument_id, decimal option) bmap \<Rightarrow> instrument_id \<times> instrument_ledger \<Rightarrow> decimal \<Rightarrow> bool" where
  "unrealized_of marks ie u \<longleftrightarrow> unrealized_pnl (il_ledger (snd ie)) (the_mark marks (fst ie)) = Ok (Some u)"

lemma add_instrument_performanceE:
  assumes "add_instrument_performance marks acc ie = Ok acc'"
  obtains u where "unrealized_of marks ie u"
    and "mp_realized_pnl acc' = mp_realized_pnl acc + ld_realized_pnl (il_ledger (snd ie))"
    and "mp_unrealized_pnl acc' = mp_unrealized_pnl acc + u"
    and "mp_total_fee acc' = mp_total_fee acc + ld_total_fee (il_ledger (snd ie))"
    and "mp_total_tax acc' = mp_total_tax acc + ld_total_tax (il_ledger (snd ie))"
    and "mp_initial_cash acc' = mp_initial_cash acc" "mp_final_cash acc' = mp_final_cash acc"
      "mp_total_cash_charges acc' = mp_total_cash_charges acc"
proof -
  define l where "l = il_ledger (snd ie)"
  obtain su where su: "ledger_performance l (the_mark marks (fst ie)) = Ok su"
    using assms by (auto simp: add_instrument_performance_def Let_def the_mark_def simp flip: l_def)
  have "\<not> (ld_position l \<noteq> 0 \<and> pf_unrealized_pnl su = None)"
    using assms su unfolding add_instrument_performance_def Let_def l_def [symmetric] the_mark_def [symmetric]
    by (auto split: if_splits)
  moreover have "pf_unrealized_pnl su = Some 0" if "ld_position l = 0"
    using su that by (auto simp: ledger_performance_def unrealized_pnl_def)
  ultimately have "pf_unrealized_pnl su \<noteq> None" by auto
  then obtain u where u: "pf_unrealized_pnl su = Some u" by blast
  have fields: "unrealized_pnl l (the_mark marks (fst ie)) = Ok (Some u)" "pf_realized_pnl su = ld_realized_pnl l"
    "pf_total_fee su = ld_total_fee l" "pf_total_tax su = ld_total_tax l"
    using su u by (auto simp: ledger_performance_def)
  show thesis
    using that [of u] assms fields su u
    unfolding unrealized_of_def add_instrument_performance_def Let_def l_def [symmetric] the_mark_def [symmetric]
    by (auto split: if_splits)
qed

lemma performance_totals:
  assumes "rfold (add_instrument_performance marks) acc es = Ok s"
  obtains us where "list_all2 (unrealized_of marks) es us"
    and "mp_realized_pnl s = mp_realized_pnl acc + (\<Sum>ie \<leftarrow> es. ld_realized_pnl (il_ledger (snd ie)))"
    and "mp_unrealized_pnl s = mp_unrealized_pnl acc + sum_list us"
    and "mp_total_fee s = mp_total_fee acc + (\<Sum>ie \<leftarrow> es. ld_total_fee (il_ledger (snd ie)))"
    and "mp_total_tax s = mp_total_tax acc + (\<Sum>ie \<leftarrow> es. ld_total_tax (il_ledger (snd ie)))"
    and "mp_initial_cash s = mp_initial_cash acc" "mp_final_cash s = mp_final_cash acc"
      "mp_total_cash_charges s = mp_total_cash_charges acc"
  using assms
proof (induction es arbitrary: acc thesis)
  case Nil
  show ?case using Nil.prems(2) by (intro Nil.prems(1) [of "[]"]) simp_all
next
  case (Cons e es)
  obtain acc' where step: "add_instrument_performance marks acc e = Ok acc'"
    and rest: "rfold (add_instrument_performance marks) acc' es = Ok s" using Cons.prems(2) by auto
  from step obtain u where u: "unrealized_of marks e u"
    "mp_realized_pnl acc' = mp_realized_pnl acc + ld_realized_pnl (il_ledger (snd e))"
    "mp_unrealized_pnl acc' = mp_unrealized_pnl acc + u"
    "mp_total_fee acc' = mp_total_fee acc + ld_total_fee (il_ledger (snd e))"
    "mp_total_tax acc' = mp_total_tax acc + ld_total_tax (il_ledger (snd e))"
    "mp_initial_cash acc' = mp_initial_cash acc" "mp_final_cash acc' = mp_final_cash acc"
    "mp_total_cash_charges acc' = mp_total_cash_charges acc" by (rule add_instrument_performanceE)
  show ?case
  proof (rule Cons.IH [OF _ rest])
    fix us
    assume "list_all2 (unrealized_of marks) es us"
      "mp_realized_pnl s = mp_realized_pnl acc' + (\<Sum>ie \<leftarrow> es. ld_realized_pnl (il_ledger (snd ie)))"
      "mp_unrealized_pnl s = mp_unrealized_pnl acc' + sum_list us"
      "mp_total_fee s = mp_total_fee acc' + (\<Sum>ie \<leftarrow> es. ld_total_fee (il_ledger (snd ie)))"
      "mp_total_tax s = mp_total_tax acc' + (\<Sum>ie \<leftarrow> es. ld_total_tax (il_ledger (snd ie)))"
      "mp_initial_cash s = mp_initial_cash acc'" "mp_final_cash s = mp_final_cash acc'"
      "mp_total_cash_charges s = mp_total_cash_charges acc'"
    then show ?case using u by (intro Cons.prems(1) [of "u # us"]) simp_all
  qed
qed

lemma charge_total: "rfold (\<lambda>total c. acc_add total (cc_amount c)) t cs = Ok x \<Longrightarrow> x = t + sum_list (map cc_amount cs)"
proof (induction cs arbitrary: t)
  case (Cons c cs)
  have "rfold (\<lambda>total c. acc_add total (cc_amount c)) (t + cc_amount c) cs = Ok x" using Cons.prems by auto
  then have "x = t + cc_amount c + sum_list (map cc_amount cs)" by (rule Cons.IH)
  then show ?case by simp
qed simp

definition marked_by :: "multi_ledger \<Rightarrow> (instrument_id, decimal option) bmap \<Rightarrow> instrument_id \<times> instrument_ledger \<Rightarrow> decimal \<Rightarrow> bool" where
  "marked_by m marks ie a \<longleftrightarrow>
     (\<exists>mk. bm_get marks (fst ie) = Some (Some mk) \<and> mark_to_market_adjustment m (fst ie) mk = Ok a)"

lemma marked_sum:
  assumes "list_all2 (unrealized_of marks) es us" and "list_all2 (marked_by m marks) es as"
    and "\<And>ie. ie \<in> set es \<Longrightarrow> entry_ok (snd ie) \<and> bm_get (ml_ledgers m) (fst ie) = Some (snd ie)"
  shows "(\<Sum>ie \<leftarrow> es. entry_cash (snd ie)) + sum_list as = (\<Sum>ie \<leftarrow> es. ld_realized_pnl (il_ledger (snd ie)))
    + sum_list us - (\<Sum>ie \<leftarrow> es. ld_total_fee (il_ledger (snd ie))) - (\<Sum>ie \<leftarrow> es. ld_total_tax (il_ledger (snd ie)))"
  using assms
proof (induction es arbitrary: us as)
  case (Cons e es)
  obtain u us' a as' where us: "us = u # us'" "as = a # as'" "unrealized_of marks e u" "marked_by m marks e a"
    "list_all2 (unrealized_of marks) es us'" "list_all2 (marked_by m marks) es as'"
    using Cons.prems(1,2) by (auto simp: list_all2_Cons1)
  have "entry_cash (snd e) + a = ld_realized_pnl (il_ledger (snd e)) + u - ld_total_fee (il_ledger (snd e))
      - ld_total_tax (il_ledger (snd e))"
    using us(3,4) Cons.prems(3) [of e] marked_entry [of "snd e" m "fst e"]
    by (auto simp: entry_cash_def unrealized_of_def marked_by_def the_mark_def)
  then show ?case using Cons.IH [OF us(5,6)] Cons.prems(3) us(1,2) by simp
qed simp

text \<open>
  C30: equity is what was put in plus profit less costs. When a reachable multi-instrument ledger is
  valued at final marks, its shared cash plus the mark-to-market adjustments of all instruments equals
  the initial cash plus realised and unrealised profit less fees, taxes and cash charges, for every mix of
  equity, option and futures accounting and for long, short and flat positions.
\<close>

theorem marked_equity_identity:
  assumes "multi_reachable m" and "multi_performance m marks = Ok s"
    and "list_all2 (\<lambda>ie a. \<exists>mk. bm_get marks (fst ie) = Some (Some mk) \<and>
           mark_to_market_adjustment m (fst ie) mk = Ok a) (ml_ledgers m) adjustments"
  shows "mp_final_cash s + sum_list adjustments =
    mp_initial_cash s + mp_realized_pnl s + mp_unrealized_pnl s - mp_total_fee s - mp_total_tax s
      - mp_total_cash_charges s"
proof -
  have inv: "multi_inv m" using assms(1) by (rule reachable_multi_inv)
  define es where "es = ml_ledgers m"
  have ok: "entry_ok (snd ie) \<and> bm_get (ml_ledgers m) (fst ie) = Some (snd ie)" if "ie \<in> set es" for ie
    using inv that by (auto simp: multi_inv_def list_all_iff bm_get_iff es_def)
  obtain total where total: "rfold (\<lambda>total c. acc_add total (cc_amount c)) 0 (ml_cash_charges m) = Ok total"
    and perf: "rfold (add_instrument_performance marks)
         \<lparr>mp_initial_cash = ml_initial_cash m, mp_final_cash = ml_cash m, mp_realized_pnl = 0,
          mp_unrealized_pnl = 0, mp_total_fee = 0, mp_total_tax = 0,
          mp_total_cash_charges = total, mp_fill_count = 0, mp_instruments = []\<rparr> es = Ok s"
    using assms(2) by (auto simp: multi_performance_def es_def)
  obtain us where us: "list_all2 (unrealized_of marks) es us"
    "mp_realized_pnl s = (\<Sum>ie \<leftarrow> es. ld_realized_pnl (il_ledger (snd ie)))" "mp_unrealized_pnl s = sum_list us"
    "mp_total_fee s = (\<Sum>ie \<leftarrow> es. ld_total_fee (il_ledger (snd ie)))"
    "mp_total_tax s = (\<Sum>ie \<leftarrow> es. ld_total_tax (il_ledger (snd ie)))"
    "mp_initial_cash s = ml_initial_cash m" "mp_final_cash s = ml_cash m" "mp_total_cash_charges s = total"
    using perf by (rule performance_totals) simp
  have "list_all2 (marked_by m marks) es adjustments"
    using assms(3) unfolding es_def by (rule list_all2_mono) (simp add: marked_by_def)
  note sums = marked_sum [OF us(1) this ok]
  have "ml_cash m = ml_initial_cash m + (\<Sum>ie \<leftarrow> es. entry_cash (snd ie)) - total"
    using inv charge_total [OF total] by (simp add: multi_inv_def es_def comp_def)
  then show ?thesis using sums us by simp
qed

section \<open>A sample run\<close>

definition sample_config :: instrument_ledger_config where
  "sample_config = ledger_config_new (Twse, ''2330'') TradingUnit EquityV1
     \<lparr>ec_units_per_trading_unit = 1000, ec_multiplier = 1000000000000000000, ec_provenance = ''p''\<rparr>
     sample_fee (sample_tax 3000000000000000)"

definition sample_multi :: "(multi_ledger, accounting_error) result" where
  "sample_multi =
     rbind (multi_ledger_new 5000000000000000000000 [sample_config]) (\<lambda>m0.
     rbind (multi_apply_fill m0 (Twse, ''2330'') (sample_fill Sell 20000000000000000000 2)) (\<lambda>m1.
       apply_cash_charges m1 [\<lparr>cc_identity = [], cc_at = 0, cc_amount = 5, cc_category = ''a'', cc_reference = ''b''\<rparr>]))"

lemma sample_multi_reachable: "sample_multi = Ok m \<Longrightarrow> multi_reachable m"
  unfolding sample_multi_def rbind_eq_Ok
  by (elim exE conjE) (rule multi_reachable.charges [OF multi_reachable.fill [OF multi_reachable.fresh]])

lemmas multi_eval = sample_multi_def sample_config_def ledger_config_new_def multi_ledger_new_def add_ledger_config_def
  fresh_entry_def with_optional_day_trade_tax_def ledger_new_with_model_def multi_apply_fill_def policy_accepts_def
  apply_cash_charges_def charge_cash_def cash_charge_invalid_def trim_is_empty_def bm_get_def
  multi_performance_def add_instrument_performance_def [unfolded Let_def] ledger_performance_def unrealized_pnl_def
  mark_to_market_adjustment_def [unfolded Let_def] checked_u64_def in_u64_def

lemma sample_multi_run:
  "\<exists>m. sample_multi = Ok m \<and> bm_keys (ml_ledgers m) = [(Twse, ''2330'')] \<and>
     is_ok (multi_performance m [((Twse, ''2330''), Some 19000000000000000000)]) \<and>
     is_ok (mark_to_market_adjustment m (Twse, ''2330'') 19000000000000000000)"
  by (simp add: multi_eval ledger_eval cong: rbind_weak_cong)

theorem multi_ledger_cash_conserved_witness:
  "\<exists>m. sample_multi = Ok m \<and> multi_reachable m \<and>
     ml_cash m = ml_initial_cash m + (\<Sum>e \<leftarrow> bm_values (ml_ledgers m). ld_cash (il_ledger e))
       - (\<Sum>c \<leftarrow> ml_cash_charges m. cc_amount c)"
proof -
  obtain m where m: "sample_multi = Ok m" using sample_multi_run by (elim exE conjE)
  note r = sample_multi_reachable [OF m]
  show ?thesis by (intro exI [of _ m] conjI m r conjunct1 [OF multi_ledger_cash_conserved [OF r]])
qed

theorem marked_equity_identity_witness:
  "\<exists>m s a. multi_reachable m \<and> multi_performance m [((Twse, ''2330''), Some 19000000000000000000)] = Ok s \<and>
     mark_to_market_adjustment m (Twse, ''2330'') 19000000000000000000 = Ok a \<and>
     mp_final_cash s + a = mp_initial_cash s + mp_realized_pnl s + mp_unrealized_pnl s - mp_total_fee s
       - mp_total_tax s - mp_total_cash_charges s"
proof -
  let ?marks = "[((Twse, ''2330''), Some 19000000000000000000)]"
  obtain m where m: "sample_multi = Ok m" and keys: "bm_keys (ml_ledgers m) = [(Twse, ''2330'')]"
    and p: "is_ok (multi_performance m ?marks)"
    and a: "is_ok (mark_to_market_adjustment m (Twse, ''2330'') 19000000000000000000)"
    using sample_multi_run by (elim exE conjE)
  obtain s where s: "multi_performance m ?marks = Ok s" using p unfolding is_ok_iff by blast
  obtain a where a: "mark_to_market_adjustment m (Twse, ''2330'') 19000000000000000000 = Ok a"
    using a unfolding is_ok_iff by blast
  note r = sample_multi_reachable [OF m]
  obtain e where e: "ml_ledgers m = [((Twse, ''2330''), e)]" using keys by auto
  have "list_all2 (\<lambda>ie a. \<exists>mk. bm_get ?marks (fst ie) = Some (Some mk) \<and>
           mark_to_market_adjustment m (fst ie) mk = Ok a) (ml_ledgers m) [a]"
    unfolding e using a by (simp add: bm_get_def)
  note th = marked_equity_identity [OF r s this]
  then have "mp_final_cash s + a = mp_initial_cash s + mp_realized_pnl s + mp_unrealized_pnl s - mp_total_fee s
       - mp_total_tax s - mp_total_cash_charges s" by simp
  then show ?thesis using r s a by blast
qed

end
