(* ===== verification/StrategyOutput.thy ===== *)
theory StrategyOutput
  imports Trading MultiLedger
begin

text \<open>
  What a strategy declares and emits: \<open>identity.rs\<close>, \<open>timer.rs\<close> and \<open>output.rs\<close> of \<open>crates/strategy-api/src\<close>, with the
  execution errors of \<open>strategy.rs\<close>. A sink collects what one callback emits, refusing what the execution
  mode does not offer; its indicators and cash charges become output records numbered from one. The lemmas
  show that the numbering of a callback is consecutive and agrees with the numbers the runner books the
  charges under, and that the canonical bytes of an output identify it.
\<close>

section \<open>Model\<close>

subsection \<open>Identities and declarations\<close>

datatype declaration_error =
    EmptyStrategyId
  | EmptyStrategyVersion
  | EmptyBinaryIdentityAlgorithm
  | EmptyBinaryIdentityDigest
  | DeclarationEmptyUniverse
  | EmptySessions

record binary_identity =
  bi_algorithm :: string
  bi_digest :: bytes

definition binary_identity_new :: "string \<Rightarrow> bytes \<Rightarrow> (binary_identity, declaration_error) result" where
  "binary_identity_new algorithm digest =
     (if algorithm = [] then Err EmptyBinaryIdentityAlgorithm
      else if digest = [] then Err EmptyBinaryIdentityDigest
      else Ok \<lparr>bi_algorithm = algorithm, bi_digest = digest\<rparr>)"

record strategy_identity =
  id_strategy_id :: string
  id_strategy_version :: string
  id_binary_identity :: binary_identity

definition strategy_identity_new ::
  "string \<Rightarrow> string \<Rightarrow> binary_identity \<Rightarrow> (strategy_identity, declaration_error) result" where
  "strategy_identity_new strategy_id strategy_version binary =
     (if strategy_id = [] then Err EmptyStrategyId
      else if strategy_version = [] then Err EmptyStrategyVersion
      else Ok \<lparr>id_strategy_id = strategy_id, id_strategy_version = strategy_version, id_binary_identity = binary\<rparr>)"

definition empty_params_checksum :: "(bytes \<Rightarrow> bytes) \<Rightarrow> bytes" where
  "empty_params_checksum hash = hash (as_bytes ''OSSP'' @ be_bytes 2 1 @ be_bytes 4 0)"

text \<open>The derived order of \<open>SessionKind\<close> is the order of its variants.\<close>

fun session_kind_discriminant :: "session_kind \<Rightarrow> nat" where
  "session_kind_discriminant Regular = 1"
| "session_kind_discriminant AfterHours = 2"

lemma session_kind_discriminant_inject [simp]: "session_kind_discriminant a = session_kind_discriminant b \<longleftrightarrow> a = b"
  by (cases a; cases b) simp_all

instantiation session_kind :: linorder
begin

definition less_eq_session_kind :: "session_kind \<Rightarrow> session_kind \<Rightarrow> bool" where
  "a \<le> b \<longleftrightarrow> session_kind_discriminant a \<le> session_kind_discriminant b"

definition less_session_kind :: "session_kind \<Rightarrow> session_kind \<Rightarrow> bool" where
  "a < b \<longleftrightarrow> session_kind_discriminant a < session_kind_discriminant b"

instance
  by standard (auto simp: less_eq_session_kind_def less_session_kind_def)

end

record strategy_declaration =
  sl_universe :: "instrument_id list"
  sl_sessions :: "session_kind list"

text \<open>Both lists come out of ordered sets.\<close>

definition strategy_declaration_new ::
  "instrument_id list \<Rightarrow> session_kind list \<Rightarrow> (strategy_declaration, declaration_error) result" where
  "strategy_declaration_new universe sessions =
     (if universe = [] then Err DeclarationEmptyUniverse
      else if sessions = [] then Err EmptySessions
      else Ok \<lparr>sl_universe = sort (remdups universe), sl_sessions = sort (remdups sessions)\<rparr>)"

subsection \<open>Timers\<close>

datatype strategy_timer_error = TimerEmptyId | TimerIdTooLong | TimerCapabilityUnavailable | FireBeforeDecision

type_synonym strategy_timer_id = string

definition strategy_timer_id_new :: "string \<Rightarrow> (strategy_timer_id, strategy_timer_error) result" where
  "strategy_timer_id_new v =
     (if v = [] then Err TimerEmptyId else if length v > 128 then Err TimerIdTooLong else Ok v)"

record strategy_timer_request =
  tq_timer_id :: strategy_timer_id
  tq_fire_at :: int

subsection \<open>Execution errors\<close>

record strategy_execution_error =
  ee_message :: string
  ee_capability_unavailable :: bool

definition strategy_execution_error_new :: "string \<Rightarrow> strategy_execution_error" where
  "strategy_execution_error_new message = \<lparr>ee_message = message, ee_capability_unavailable = False\<rparr>"

fun timer_error_message :: "strategy_timer_error \<Rightarrow> string" where
  "timer_error_message TimerEmptyId = ''strategy timer identifier must not be empty''"
| "timer_error_message TimerIdTooLong = ''strategy timer identifier exceeds 128 UTF-8 bytes''"
| "timer_error_message TimerCapabilityUnavailable = ''strategy timer capability is unavailable in this execution mode''"
| "timer_error_message FireBeforeDecision = ''strategy timer is earlier than the current decision time''"

definition error_of_timer :: "strategy_timer_error \<Rightarrow> strategy_execution_error" where
  "error_of_timer err =
     \<lparr>ee_message = timer_error_message err, ee_capability_unavailable = (err = TimerCapabilityUnavailable)\<rparr>"

datatype order_intent_error = OrderIntentError

datatype scheduled_order_capability_error = ScheduledOrderCapabilityError

definition error_of_order_intent :: "order_intent_error \<Rightarrow> strategy_execution_error" where
  "error_of_order_intent err =
     \<lparr>ee_message = ''order intent capability is unavailable in this execution mode'', ee_capability_unavailable = True\<rparr>"

definition error_of_scheduled_order :: "scheduled_order_capability_error \<Rightarrow> strategy_execution_error" where
  "error_of_scheduled_order err =
     \<lparr>ee_message = ''scheduled order capability is unavailable in this execution mode'', ee_capability_unavailable = True\<rparr>"

subsection \<open>Output records\<close>

datatype strategy_output_error =
    EmptyIndicatorName
  | OutputInvalidCashCharge
  | CashChargeCapabilityUnavailable
  | OutputSequenceOverflow
  | RecordCountOverflow
  | OutputCanonical canonical_encoding_error

record cash_charge_request =
  cq_amount :: decimal
  cq_category :: string
  cq_reference :: string

definition cash_charge_request_new ::
  "decimal \<Rightarrow> string \<Rightarrow> string \<Rightarrow> (cash_charge_request, strategy_output_error) result" where
  "cash_charge_request_new amount category reference =
     (if amount < 0 \<or> trim_is_empty category \<or> trim_is_empty reference then Err OutputInvalidCashCharge
      else Ok \<lparr>cq_amount = amount, cq_category = category, cq_reference = reference\<rparr>)"

definition CANONICAL_STRATEGY_OUTPUT_VERSION :: nat where "CANONICAL_STRATEGY_OUTPUT_VERSION = 3"

datatype indicator_value =
    IndicatorBool bool
  | IndicatorSigned int
  | IndicatorUnsigned nat
  | IndicatorDecimal decimal
  | IndicatorText string

fun append_indicator_value :: "indicator_value \<Rightarrow> encoded" where
  "append_indicator_value (IndicatorBool b) = append_all [push 1, push (of_bool b)]"
| "append_indicator_value (IndicatorSigned v) = append_all [push 2, Ok (be_bytes_signed 8 v)]"
| "append_indicator_value (IndicatorUnsigned v) = append_all [push 3, Ok (be_bytes 8 v)]"
| "append_indicator_value (IndicatorDecimal v) = append_all [push 4, Ok (decimal_to_canonical_bytes v)]"
| "append_indicator_value (IndicatorText v) = append_all [push 5, append_bytes (as_bytes v)]"

datatype strategy_output_record =
    EventIndicator nat bytes nat nat string indicator_value
  | FinalizeIndicator nat string indicator_value
  | ControlIndicator nat int nat string indicator_value
  | EventCashCharge nat bytes nat nat decimal string string
  | ControlCashCharge nat int nat decimal string string

fun append_output_record :: "strategy_output_record \<Rightarrow> encoded" where
  "append_output_record (EventIndicator run_event_ordinal fingerprint version sequence name v) =
     append_all [push 1, Ok (be_bytes 8 run_event_ordinal), Ok fingerprint, Ok (be_bytes 8 version),
       Ok (be_bytes 4 sequence), append_bytes (as_bytes name), append_indicator_value v]"
| "append_output_record (FinalizeIndicator sequence name v) =
     append_all [push 2, Ok (be_bytes 4 sequence), append_bytes (as_bytes name), append_indicator_value v]"
| "append_output_record (ControlIndicator control_sequence control_time sequence name v) =
     append_all [push 3, Ok (be_bytes 8 control_sequence), Ok (be_bytes_signed 8 control_time),
       Ok (be_bytes 4 sequence), append_bytes (as_bytes name), append_indicator_value v]"
| "append_output_record (EventCashCharge run_event_ordinal fingerprint version sequence amount category reference) =
     append_all [push 4, Ok (be_bytes 8 run_event_ordinal), Ok fingerprint, Ok (be_bytes 8 version),
       Ok (be_bytes 4 sequence), Ok (decimal_to_canonical_bytes amount), append_bytes (as_bytes category),
       append_bytes (as_bytes reference)]"
| "append_output_record (ControlCashCharge control_sequence control_time sequence amount category reference) =
     append_all [push 5, Ok (be_bytes 8 control_sequence), Ok (be_bytes_signed 8 control_time),
       Ok (be_bytes 4 sequence), Ok (decimal_to_canonical_bytes amount), append_bytes (as_bytes category),
       append_bytes (as_bytes reference)]"

subsection \<open>The sink of a callback\<close>

record strategy_output_sink =
  sk_pending :: "(string \<times> indicator_value) list"
  sk_intents :: "order_intent list"
  sk_scheduled_orders :: "scheduled_order_request list"
  sk_timers :: "strategy_timer_request list"
  sk_cash_charges :: "cash_charge_request list"
  sk_order_intents_enabled :: bool
  sk_scheduled_orders_enabled :: bool

definition sink_new :: strategy_output_sink where
  "sink_new =
     \<lparr>sk_pending = [], sk_intents = [], sk_scheduled_orders = [], sk_timers = [], sk_cash_charges = [],
      sk_order_intents_enabled = False, sk_scheduled_orders_enabled = False\<rparr>"

definition sink_with_order_intents :: strategy_output_sink where
  "sink_with_order_intents =
     \<lparr>sk_pending = [], sk_intents = [], sk_scheduled_orders = [], sk_timers = [], sk_cash_charges = [],
      sk_order_intents_enabled = True, sk_scheduled_orders_enabled = False\<rparr>"

definition sink_with_scheduled_orders :: strategy_output_sink where
  "sink_with_scheduled_orders =
     \<lparr>sk_pending = [], sk_intents = [], sk_scheduled_orders = [], sk_timers = [], sk_cash_charges = [],
      sk_order_intents_enabled = False, sk_scheduled_orders_enabled = True\<rparr>"

definition emit_order_intent ::
  "strategy_output_sink \<Rightarrow> order_intent \<Rightarrow> (unit, order_intent_error) result \<times> strategy_output_sink" where
  "emit_order_intent k intent =
     (if \<not> sk_order_intents_enabled k then (Err OrderIntentError, k)
      else (Ok (), k\<lparr>sk_intents := sk_intents k @ [intent]\<rparr>))"

definition take_intents :: "strategy_output_sink \<Rightarrow> order_intent list \<times> strategy_output_sink" where
  "take_intents k = (sk_intents k, k\<lparr>sk_intents := []\<rparr>)"

definition emit_scheduled_order ::
  "strategy_output_sink \<Rightarrow> scheduled_order_request \<Rightarrow>
   (unit, scheduled_order_capability_error) result \<times> strategy_output_sink" where
  "emit_scheduled_order k request =
     (if \<not> sk_scheduled_orders_enabled k then (Err ScheduledOrderCapabilityError, k)
      else (Ok (), k\<lparr>sk_scheduled_orders := sk_scheduled_orders k @ [request]\<rparr>))"

definition take_scheduled_orders :: "strategy_output_sink \<Rightarrow> scheduled_order_request list \<times> strategy_output_sink" where
  "take_scheduled_orders k = (sk_scheduled_orders k, k\<lparr>sk_scheduled_orders := []\<rparr>)"

definition emit_timer ::
  "strategy_output_sink \<Rightarrow> strategy_timer_request \<Rightarrow> (unit, strategy_timer_error) result \<times> strategy_output_sink" where
  "emit_timer k request =
     (if \<not> sk_scheduled_orders_enabled k then (Err TimerCapabilityUnavailable, k)
      else (Ok (), k\<lparr>sk_timers := sk_timers k @ [request]\<rparr>))"

definition take_timers :: "strategy_output_sink \<Rightarrow> strategy_timer_request list \<times> strategy_output_sink" where
  "take_timers k = (sk_timers k, k\<lparr>sk_timers := []\<rparr>)"

definition emit_cash_charge ::
  "strategy_output_sink \<Rightarrow> cash_charge_request \<Rightarrow> (unit, strategy_output_error) result \<times> strategy_output_sink" where
  "emit_cash_charge k request =
     (if \<not> sk_scheduled_orders_enabled k then (Err CashChargeCapabilityUnavailable, k)
      else (Ok (), k\<lparr>sk_cash_charges := sk_cash_charges k @ [request]\<rparr>))"

definition take_cash_charges :: "strategy_output_sink \<Rightarrow> cash_charge_request list \<times> strategy_output_sink" where
  "take_cash_charges k = (sk_cash_charges k, k\<lparr>sk_cash_charges := []\<rparr>)"

definition emit_indicator ::
  "strategy_output_sink \<Rightarrow> string \<Rightarrow> indicator_value \<Rightarrow> (unit, strategy_output_error) result \<times> strategy_output_sink" where
  "emit_indicator k name v =
     (if name = [] then (Err EmptyIndicatorName, k) else (Ok (), k\<lparr>sk_pending := sk_pending k @ [(name, v)]\<rparr>))"

text \<open>The numbering loop: items after \<open>n\<close> others get the numbers from \<open>n + 1\<close>, each at most a u32.\<close>

fun number_records :: "(nat \<Rightarrow> 'a \<Rightarrow> 'b) \<Rightarrow> nat \<Rightarrow> 'a list \<Rightarrow> ('b list, strategy_output_error) result" where
  "number_records mk n [] = Ok []"
| "number_records mk n (x # xs) =
     (if in_u32 (n + 1) then rbind (number_records mk (n + 1) xs) (\<lambda>rs. Ok (mk (n + 1) x # rs))
      else Err OutputSequenceOverflow)"

definition charges_with_sequences ::
  "strategy_output_sink \<Rightarrow> ((nat \<times> cash_charge_request) list, strategy_output_error) result" where
  "charges_with_sequences k = number_records Pair (length (sk_pending k)) (sk_cash_charges k)"

definition into_event_records ::
  "strategy_output_sink \<Rightarrow> event_occurrence \<Rightarrow> (strategy_output_record list, strategy_output_error) result" where
  "into_event_records k occ =
     rbind (number_records (\<lambda>sequence (name, v). EventIndicator (eo_run_event_ordinal occ) (eo_event_fingerprint occ)
              (eo_instrument_state_version occ) sequence name v) 0 (sk_pending k)) (\<lambda>records.
     rbind (number_records (\<lambda>sequence c. EventCashCharge (eo_run_event_ordinal occ) (eo_event_fingerprint occ)
              (eo_instrument_state_version occ) sequence (cq_amount c) (cq_category c) (cq_reference c))
              (length records) (sk_cash_charges k)) (\<lambda>charges.
       Ok (records @ charges)))"

definition into_finalize_records :: "strategy_output_sink \<Rightarrow> (strategy_output_record list, strategy_output_error) result" where
  "into_finalize_records k = number_records (\<lambda>sequence (name, v). FinalizeIndicator sequence name v) 0 (sk_pending k)"

definition into_control_records ::
  "strategy_output_sink \<Rightarrow> nat \<Rightarrow> int \<Rightarrow> (strategy_output_record list, strategy_output_error) result" where
  "into_control_records k control_sequence control_time =
     rbind (number_records (\<lambda>sequence (name, v). ControlIndicator control_sequence control_time sequence name v)
              0 (sk_pending k)) (\<lambda>records.
     rbind (number_records (\<lambda>sequence c. ControlCashCharge control_sequence control_time sequence
              (cq_amount c) (cq_category c) (cq_reference c)) (length records) (sk_cash_charges k)) (\<lambda>charges.
       Ok (records @ charges)))"

subsection \<open>The output of a run\<close>

record strategy_output =
  out_identity :: strategy_identity
  out_params_checksum :: bytes
  out_records :: "strategy_output_record list"

definition strategy_output_new :: "strategy_identity \<Rightarrow> bytes \<Rightarrow> strategy_output" where
  "strategy_output_new identity checksum = \<lparr>out_identity = identity, out_params_checksum = checksum, out_records = []\<rparr>"

definition output_extend :: "strategy_output \<Rightarrow> strategy_output_record list \<Rightarrow> strategy_output" where
  "output_extend out records = out\<lparr>out_records := out_records out @ records\<rparr>"

definition output_to_canonical_bytes :: "strategy_output \<Rightarrow> (bytes, strategy_output_error) result" where
  "output_to_canonical_bytes out =
     (let identity = out_identity out in
      rbind (map_err OutputCanonical (append_all [Ok (as_bytes ''OSSO''), Ok (be_bytes 2 CANONICAL_STRATEGY_OUTPUT_VERSION),
        append_bytes (as_bytes (id_strategy_id identity)), append_bytes (as_bytes (id_strategy_version identity)),
        append_bytes (as_bytes (bi_algorithm (id_binary_identity identity))),
        append_bytes (bi_digest (id_binary_identity identity)), Ok (out_params_checksum out)])) (\<lambda>header.
      rbind (ok_or (checked_u64 (length (out_records out))) RecordCountOverflow) (\<lambda>count.
      rbind (map_err OutputCanonical (append_all (map append_output_record (out_records out)))) (\<lambda>records.
        Ok (header @ be_bytes 8 count @ records)))))"

definition output_checksum :: "(bytes \<Rightarrow> bytes) \<Rightarrow> strategy_output \<Rightarrow> (bytes, strategy_output_error) result" where
  "output_checksum hash out = rbind (output_to_canonical_bytes out) (\<lambda>b. Ok (hash b))"

section \<open>The numbering of a callback's records\<close>

lemma number_records_Ok:
  "number_records mk n xs = Ok rs \<longleftrightarrow>
     (xs = [] \<or> in_u32 (n + length xs)) \<and> rs = map2 mk [Suc n..<Suc (n + length xs)] xs"
proof (induction xs arbitrary: n rs)
  case (Cons x xs)
  have "[Suc n..<Suc (n + length (x # xs))] = Suc n # [Suc (Suc n)..<Suc (Suc n + length xs)]"
    by (simp add: upt_conv_Cons del: upt_Suc)
  moreover have "in_u32 (n + 1)" if "in_u32 (n + length (x # xs))" using that by (simp add: in_u32_def)
  ultimately show ?case using Cons [of "Suc n"] by (auto simp: in_u32_def simp del: upt_Suc)
qed auto

fun record_sequence :: "strategy_output_record \<Rightarrow> nat" where
  "record_sequence (EventIndicator n f v sequence name val) = sequence"
| "record_sequence (FinalizeIndicator sequence name val) = sequence"
| "record_sequence (ControlIndicator c t sequence name val) = sequence"
| "record_sequence (EventCashCharge n f v sequence amount category reference) = sequence"
| "record_sequence (ControlCashCharge c t sequence amount category reference) = sequence"

fun record_charge :: "strategy_output_record \<Rightarrow> (nat \<times> cash_charge_request) option" where
  "record_charge (EventCashCharge n f v sequence amount category reference) =
     Some (sequence, \<lparr>cq_amount = amount, cq_category = category, cq_reference = reference\<rparr>)"
| "record_charge (ControlCashCharge c t sequence amount category reference) =
     Some (sequence, \<lparr>cq_amount = amount, cq_category = category, cq_reference = reference\<rparr>)"
| "record_charge _ = None"

lemma map2_fst: "length xs = length ys \<Longrightarrow> (\<And>n y. f (g n y) = n) \<Longrightarrow> map f (map2 g xs ys) = xs"
  by (induction xs ys rule: list_induct2) simp_all

lemma map_filter_append: "List.map_filter f (xs @ ys) = List.map_filter f xs @ List.map_filter f ys"
  by (simp add: List.map_filter_def)

text \<open>Indicators first, then charges, numbered through: what both record builders have in common.\<close>

lemma numbered_through:
  assumes r: "rbind (number_records ind 0 xs) (\<lambda>records. rbind (number_records chg (length records) cs) (\<lambda>more. Ok (records @ more))) = Ok recs"
    and seq: "\<And>n x. record_sequence (ind n x) = n" "\<And>n c. record_sequence (chg n c) = n"
    and charge: "\<And>n x. record_charge (ind n x) = None" "\<And>n c. record_charge (chg n c) = Some (n, c)"
  shows "map record_sequence recs = [1..<Suc (length xs + length cs)] \<and>
    number_records Pair (length xs) cs = Ok (List.map_filter record_charge recs)"
proof -
  obtain a b where a: "number_records ind 0 xs = Ok a" and b: "number_records chg (length a) cs = Ok b" and recs: "recs = a @ b"
    using r by auto
  have a': "a = map2 ind [1..<Suc (length xs)] xs" using a by (simp add: number_records_Ok)
  then have len: "length a = length xs" by (simp del: upt_Suc)
  have b': "b = map2 chg [Suc (length xs)..<Suc (length xs + length cs)] cs" and fits: "cs = [] \<or> in_u32 (length xs + length cs)"
    using b len by (simp_all add: number_records_Ok)
  have "map record_sequence a = [1..<Suc (length xs)]" unfolding a' by (rule map2_fst) (simp_all add: seq del: upt_Suc)
  moreover have "map record_sequence b = [Suc (length xs)..<Suc (length xs + length cs)]"
    unfolding b' by (rule map2_fst) (simp_all add: seq del: upt_Suc)
  moreover have "[1..<Suc (length xs)] @ [Suc (length xs)..<Suc (length xs + length cs)] = [1..<Suc (length xs + length cs)]"
    using upt_add_eq_append [of 1 "Suc (length xs)" "length cs"] by simp
  moreover have "List.map_filter record_charge a = []"
    using charge(1) by (auto simp: a' List.map_filter_def filter_empty_conv)
  moreover have "List.map_filter record_charge b = zip [Suc (length xs)..<Suc (length xs + length cs)] cs"
    using charge(2) by (simp add: b' List.map_filter_def comp_def case_prod_beta del: upt_Suc)
  ultimately show ?thesis
    using fits by (simp add: recs map_filter_append number_records_Ok case_prod_beta del: upt_Suc)
qed

text \<open>
  The records of a callback are its indicators and then its cash charges, numbered consecutively from
  one, and the numbers under which the runner books the charges are the numbers of their records, for
  callbacks on events and on controls.
\<close>

theorem callback_records_numbered:
  "(\<forall>recs. into_event_records k occ = Ok recs \<longrightarrow>
      map record_sequence recs = [1..<Suc (length (sk_pending k) + length (sk_cash_charges k))] \<and>
      charges_with_sequences k = Ok (List.map_filter record_charge recs)) \<and>
   (\<forall>recs. into_control_records k control_sequence control_time = Ok recs \<longrightarrow>
      map record_sequence recs = [1..<Suc (length (sk_pending k) + length (sk_cash_charges k))] \<and>
      charges_with_sequences k = Ok (List.map_filter record_charge recs))"
proof (intro conjI allI impI)
  fix recs
  assume "into_event_records k occ = Ok recs"
  from numbered_through [OF this [unfolded into_event_records_def]]
  show "map record_sequence recs = [1..<Suc (length (sk_pending k) + length (sk_cash_charges k))]"
    "charges_with_sequences k = Ok (List.map_filter record_charge recs)"
    by (simp_all add: charges_with_sequences_def case_prod_beta)
next
  fix recs
  assume "into_control_records k control_sequence control_time = Ok recs"
  from numbered_through [OF this [unfolded into_control_records_def]]
  show "map record_sequence recs = [1..<Suc (length (sk_pending k) + length (sk_cash_charges k))]"
    "charges_with_sequences k = Ok (List.map_filter record_charge recs)"
    by (simp_all add: charges_with_sequences_def case_prod_beta)
qed

text \<open>Two charges after one indicator are numbered two and three.\<close>

theorem callback_records_numbered_witness:
  "\<exists>recs. into_control_records (sink_with_scheduled_orders\<lparr>sk_pending := [(''spread'', IndicatorUnsigned 7)],
       sk_cash_charges := [\<lparr>cq_amount = 5, cq_category = ''fee'', cq_reference = ''a''\<rparr>,
         \<lparr>cq_amount = 6, cq_category = ''fee'', cq_reference = ''b''\<rparr>]\<rparr>) 4 1000 = Ok recs \<and>
     map record_sequence recs = [1, 2, 3]"
proof -
  define k where "k = sink_with_scheduled_orders\<lparr>sk_pending := [(''spread'', IndicatorUnsigned 7)],
    sk_cash_charges := [\<lparr>cq_amount = 5, cq_category = ''fee'', cq_reference = ''a''\<rparr>,
      \<lparr>cq_amount = 6, cq_category = ''fee'', cq_reference = ''b''\<rparr>]\<rparr>"
  obtain recs where recs: "into_control_records k 4 1000 = Ok recs"
    by (simp add: k_def into_control_records_def in_u32_def)
  moreover have "length (sk_pending k) + length (sk_cash_charges k) = 3" by (simp add: k_def)
  ultimately have "map record_sequence recs = [1..<Suc 3]"
    using callback_records_numbered [of k undefined 4 1000] by metis
  then show ?thesis using recs by (auto simp: k_def upt_rec)
qed

section \<open>The bytes of an output identify it\<close>

fun wf_indicator_value :: "indicator_value \<Rightarrow> bool" where
  "wf_indicator_value (IndicatorSigned v) \<longleftrightarrow> in_i64 v"
| "wf_indicator_value (IndicatorUnsigned v) \<longleftrightarrow> in_u64 v"
| "wf_indicator_value (IndicatorDecimal v) \<longleftrightarrow> in_i128 v"
| "wf_indicator_value _ \<longleftrightarrow> True"

fun wf_record :: "strategy_output_record \<Rightarrow> bool" where
  "wf_record (EventIndicator n f v sequence name val) \<longleftrightarrow>
     in_u64 n \<and> length f = 32 \<and> in_u64 v \<and> in_u32 sequence \<and> wf_indicator_value val"
| "wf_record (FinalizeIndicator sequence name val) \<longleftrightarrow> in_u32 sequence \<and> wf_indicator_value val"
| "wf_record (ControlIndicator c t sequence name val) \<longleftrightarrow> in_u64 c \<and> in_i64 t \<and> in_u32 sequence \<and> wf_indicator_value val"
| "wf_record (EventCashCharge n f v sequence amount category reference) \<longleftrightarrow>
     in_u64 n \<and> length f = 32 \<and> in_u64 v \<and> in_u32 sequence \<and> in_i128 amount"
| "wf_record (ControlCashCharge c t sequence amount category reference) \<longleftrightarrow>
     in_u64 c \<and> in_i64 t \<and> in_u32 sequence \<and> in_i128 amount"

definition wf_output :: "strategy_output \<Rightarrow> bool" where
  "wf_output out \<longleftrightarrow> length (out_params_checksum out) = 32 \<and> list_all wf_record (out_records out)"

lemma number_bytes_inject:
  "be_bytes 8 a = be_bytes 8 b \<Longrightarrow> in_u64 a \<Longrightarrow> in_u64 b \<Longrightarrow> a = b"
  "be_bytes 4 c = be_bytes 4 d \<Longrightarrow> in_u32 c \<Longrightarrow> in_u32 d \<Longrightarrow> c = d"
  using be_bytes_inject [of 8 a b] be_bytes_inject [of 4 c d] by (simp_all add: in_u64_def in_u32_def pow256)

lemma decimal_bytes_inject:
  "decimal_to_canonical_bytes a = decimal_to_canonical_bytes b \<Longrightarrow> in_i128 a \<Longrightarrow> in_i128 b \<Longrightarrow> a = b"
  using price.inject [of a b] by (simp add: append_price_def)

lemma length_decimal_bytes [simp]: "length (decimal_to_canonical_bytes a) = 16"
  by (simp add: decimal_to_canonical_bytes_def)

lemma text_bytes_inject: "append_bytes (as_bytes a) = append_bytes (as_bytes b) \<Longrightarrow> is_ok (append_bytes (as_bytes b)) \<Longrightarrow> a = b"
  using append_bytes_inject by (metis as_bytes_inject)

lemma tag_of_append_all: "append_all (push m # ms) = Ok p \<Longrightarrow> \<exists>q. append_all ms = Ok q \<and> p = word_of_nat m # q"
  by (auto simp: append_all_Cons_Ok push_Ok)

lemmas output_injects = number_bytes_inject be_bytes_signed_inject decimal_bytes_inject text_bytes_inject

lemma indicator_code: "prefix_code wf_indicator_value append_indicator_value"
proof (rule prefix_codeI)
  fix x y p q r s
  assume e: "append_indicator_value x = Ok p" "append_indicator_value y = Ok q" "wf_indicator_value x" "wf_indicator_value y"
    "p @ r = q @ s"
  show "x = y \<and> r = s"
  proof (cases x)
    case (IndicatorBool a)
    then obtain b where y: "y = IndicatorBool b" using e(1,2,5) by (cases y) (auto dest!: tag_of_append_all)
    show ?thesis using e IndicatorBool y by (auto simp: append_all_Cons_Ok push_Ok)
  next
    case (IndicatorSigned a)
    then obtain b where y: "y = IndicatorSigned b" using e(1,2,5) by (cases y) (auto dest!: tag_of_append_all)
    show ?thesis using e IndicatorSigned y by (auto simp: append_all_Cons_Ok push_Ok be_bytes_signed_inject)
  next
    case (IndicatorUnsigned a)
    then obtain b where y: "y = IndicatorUnsigned b" using e(1,2,5) by (cases y) (auto dest!: tag_of_append_all)
    show ?thesis using e IndicatorUnsigned y by (auto simp: append_all_Cons_Ok push_Ok number_bytes_inject)
  next
    case (IndicatorDecimal a)
    then obtain b where y: "y = IndicatorDecimal b" using e(1,2,5) by (cases y) (auto dest!: tag_of_append_all)
    show ?thesis using e IndicatorDecimal y by (auto simp: append_all_Cons_Ok push_Ok decimal_bytes_inject)
  next
    case (IndicatorText a)
    then obtain b where y: "y = IndicatorText b" using e(1,2,5) by (cases y) (auto dest!: tag_of_append_all)
    then obtain t u where "append_bytes (as_bytes a) = Ok t" "append_bytes (as_bytes b) = Ok u" "t @ r = u @ s"
      using e IndicatorText by (auto simp: append_all_Cons_Ok push_Ok)
    then show ?thesis using text_code.peel [of a t b u r s] IndicatorText y by simp
  qed
qed

interpretation indicator: prefix_code wf_indicator_value append_indicator_value
  by (rule indicator_code)

lemma record_code: "prefix_code wf_record append_output_record"
proof (rule prefix_codeI)
  fix x y p q r s
  assume e: "append_output_record x = Ok p" "append_output_record y = Ok q" "wf_record x" "wf_record y" "p @ r = q @ s"
  note peel = append_all_peel [OF _ _ _ e(5)] append_all_oks
  note facts = peelable_fixed peelable_push peelable_bytes indicator.peelable
  show "x = y \<and> r = s"
  proof (cases x)
    case (EventIndicator n f v sequence name val)
    then obtain n' f' v' sequence' name' val' where y: "y = EventIndicator n' f' v' sequence' name' val'"
      using e(1,2,5) by (cases y) (auto dest!: tag_of_append_all)
    note x = EventIndicator
    show ?thesis
      using peel(1) [OF _ e(1,2) [unfolded x y append_output_record.simps]] peel(2) [OF e(1) [unfolded x append_output_record.simps]]
        e(3,4) indicator.inject [of val val'] by (auto simp: x y facts dest: output_injects)
  next
    case (FinalizeIndicator sequence name val)
    then obtain sequence' name' val' where y: "y = FinalizeIndicator sequence' name' val'"
      using e(1,2,5) by (cases y) (auto dest!: tag_of_append_all)
    note x = FinalizeIndicator
    show ?thesis
      using peel(1) [OF _ e(1,2) [unfolded x y append_output_record.simps]] peel(2) [OF e(1) [unfolded x append_output_record.simps]]
        e(3,4) indicator.inject [of val val'] by (auto simp: x y facts dest: output_injects)
  next
    case (ControlIndicator c t sequence name val)
    then obtain c' t' sequence' name' val' where y: "y = ControlIndicator c' t' sequence' name' val'"
      using e(1,2,5) by (cases y) (auto dest!: tag_of_append_all)
    note x = ControlIndicator
    show ?thesis
      using peel(1) [OF _ e(1,2) [unfolded x y append_output_record.simps]] peel(2) [OF e(1) [unfolded x append_output_record.simps]]
        e(3,4) indicator.inject [of val val'] by (auto simp: x y facts dest: output_injects)
  next
    case (EventCashCharge n f v sequence amount category reference)
    then obtain n' f' v' sequence' amount' category' reference'
      where y: "y = EventCashCharge n' f' v' sequence' amount' category' reference'"
      using e(1,2,5) by (cases y) (auto dest!: tag_of_append_all)
    note x = EventCashCharge
    show ?thesis
      using peel(1) [OF _ e(1,2) [unfolded x y append_output_record.simps]] peel(2) [OF e(1) [unfolded x append_output_record.simps]]
        e(3,4) by (auto simp: x y facts dest: output_injects)
  next
    case (ControlCashCharge c t sequence amount category reference)
    then obtain c' t' sequence' amount' category' reference'
      where y: "y = ControlCashCharge c' t' sequence' amount' category' reference'"
      using e(1,2,5) by (cases y) (auto dest!: tag_of_append_all)
    note x = ControlCashCharge
    show ?thesis
      using peel(1) [OF _ e(1,2) [unfolded x y append_output_record.simps]] peel(2) [OF e(1) [unfolded x append_output_record.simps]]
        e(3,4) by (auto simp: x y facts dest: output_injects)
  qed
qed

interpretation output_record: prefix_code wf_record append_output_record
  by (rule record_code)

text \<open>
  C39: the canonical bytes of a strategy output identify it. Two outputs with machine-sized fields have the
  same bytes exactly when they have the same strategy identity, the same parameter checksum and the same
  records in the same order, so equal output checksums mean equal outputs, up to collisions of the hash.
\<close>

theorem strategy_output_bytes_exact:
  assumes "output_to_canonical_bytes x = Ok p" and "output_to_canonical_bytes y = Ok q" and "wf_output x" and "wf_output y"
  shows "p = q \<longleftrightarrow> x = y"
proof
  assume "p = q"
  let ?header = "\<lambda>out. [Ok (as_bytes ''OSSO''), Ok (be_bytes 2 CANONICAL_STRATEGY_OUTPUT_VERSION),
    append_bytes (as_bytes (id_strategy_id (out_identity out))), append_bytes (as_bytes (id_strategy_version (out_identity out))),
    append_bytes (as_bytes (bi_algorithm (id_binary_identity (out_identity out)))),
    append_bytes (bi_digest (id_binary_identity (out_identity out))), Ok (out_params_checksum out)]"
  obtain h b where x: "append_all (?header x) = Ok h" "in_u64 (length (out_records x))"
      "append_all (map append_output_record (out_records x)) = Ok b" "p = h @ be_bytes 8 (length (out_records x)) @ b"
    using assms(1) unfolding output_to_canonical_bytes_def Let_def by auto
  obtain h' b' where y: "append_all (?header y) = Ok h'" "in_u64 (length (out_records y))"
      "append_all (map append_output_record (out_records y)) = Ok b'" "q = h' @ be_bytes 8 (length (out_records y)) @ b'"
    using assms(2) unfolding output_to_canonical_bytes_def Let_def by auto
  have eqs: "?header x = ?header y" "be_bytes 8 (length (out_records x)) @ b = be_bytes 8 (length (out_records y)) @ b'"
    using append_all_peel [OF _ x(1) y(1), of "be_bytes 8 (length (out_records x)) @ b" "be_bytes 8 (length (out_records y)) @ b'"]
      x(4) y(4) \<open>p = q\<close> assms(3,4) by (simp_all add: peelable_fixed peelable_bytes wf_output_def)
  have "length (out_records x) = length (out_records y)" "b = b'"
    using eqs(2) number_bytes_inject(1) x(2) y(2) by simp_all
  then have "out_records x = out_records y"
    using output_record.repeat_prefix [OF x(3) y(3), of "[]" "[]"] assms(3,4) by (simp add: wf_output_def)
  moreover have "out_identity x = out_identity y" "out_params_checksum x = out_params_checksum y"
    using eqs(1) append_all_oks [OF y(1)] append_bytes_inject
    by (auto intro!: strategy_identity.equality binary_identity.equality dest: text_bytes_inject append_bytes_inject)
  ultimately show "x = y" by simp
next
  assume "x = y"
  then show "p = q" using assms(1,2) by simp
qed

definition sample_identity :: strategy_identity where
  "sample_identity =
     \<lparr>id_strategy_id = ''demo'', id_strategy_version = ''1'', id_binary_identity = \<lparr>bi_algorithm = ''blake3'', bi_digest = [7]\<rparr>\<rparr>"

definition sample_output :: "nat \<Rightarrow> strategy_output" where
  "sample_output n =
     \<lparr>out_identity = sample_identity, out_params_checksum = replicate 32 0,
      out_records = [FinalizeIndicator 1 ''count'' (IndicatorUnsigned n)]\<rparr>"

theorem strategy_output_bytes_exact_witness:
  "\<exists>p q. output_to_canonical_bytes (sample_output 1) = Ok p \<and> output_to_canonical_bytes (sample_output 2) = Ok q \<and> p \<noteq> q"
proof -
  have wf: "wf_output (sample_output 1)" "wf_output (sample_output 2)"
    by (simp_all add: wf_output_def sample_output_def in_u32_def in_u64_def)
  have ok: "is_ok (output_to_canonical_bytes (sample_output n))" for n
    by (simp add: output_to_canonical_bytes_def sample_output_def sample_identity_def append_all.simps append_bytes_def
        append_length_def push_def in_u32_def checked_u64_def in_u64_def Let_def)
  obtain p q where pq: "output_to_canonical_bytes (sample_output 1) = Ok p" "output_to_canonical_bytes (sample_output 2) = Ok q"
    using ok [of 1] ok [of 2] unfolding is_ok_iff by blast
  have "p \<noteq> q" using strategy_output_bytes_exact [OF pq wf] by (simp add: sample_output_def)
  then show ?thesis using pq by blast
qed

end
