(* ===== verification/StrategyRun.thy ===== *)
theory StrategyRun
  imports StrategyOutput "HOL-Library.Sublist"
begin

text \<open>
  Running a strategy over a replay: the contexts and the trait of \<open>strategy.rs\<close> and the loop of \<open>runner.rs\<close> in
  \<open>crates/strategy-api/src\<close>. A strategy is code outside the repository: it is a record of functions on a
  state of its own, each of which may return, fail or panic, and fill the sink it is given in any way. The
  lemmas show that whatever the strategy does, a completed run reports the replay of the events and nothing
  else, and a failed run reports exactly the prefix it processed.
\<close>

section \<open>Model\<close>

record strategy_event_context =
  ec_occurrence :: event_occurrence
  ec_event :: domain_event
  ec_market_state :: market_state
  ec_market_states :: "(instrument_id, market_state) bmap"
  ec_trading :: trading_context
  ec_session :: session_callback_context
  ec_decision_time :: int

definition event_context_visible ::
  "event_occurrence \<Rightarrow> domain_event \<Rightarrow> market_state \<Rightarrow> (instrument_id, market_state) bmap \<Rightarrow> trading_context \<Rightarrow> int \<Rightarrow>
   strategy_event_context" where
  "event_context_visible occ e state states trading decision_time =
     \<lparr>ec_occurrence = occ, ec_event = e, ec_market_state = state, ec_market_states = states, ec_trading = trading,
      ec_session = tc_session trading, ec_decision_time = decision_time\<rparr>"

definition event_context ::
  "event_occurrence \<Rightarrow> domain_event \<Rightarrow> market_state \<Rightarrow> (instrument_id, market_state) bmap \<Rightarrow> trading_context \<Rightarrow>
   strategy_event_context" where
  "event_context occ e state states trading = event_context_visible occ e state states trading (ev_match_time e)"

record strategy_feedback_context =
  fx_feedback :: "order_feedback list"
  fx_execution_fills :: "execution_fill_feedback list"

record strategy_timer_context =
  tx_timer_id :: strategy_timer_id
  tx_fire_at :: int
  tx_current_equity :: decimal

record strategy_finalize_context =
  zc_clock :: replay_clock
  zc_states :: "market_state list"

text \<open>How a callback ends: it returns, fails with an error, or panics.\<close>

datatype callback_end = Returned | Failed strategy_execution_error | PanickedCallback

record 's strategy =
  sy_identity :: "'s \<Rightarrow> strategy_identity"
  sy_params_checksum :: "'s \<Rightarrow> bytes"
  sy_declaration :: "'s \<Rightarrow> strategy_declaration"
  sy_initialize :: "strategy_declaration \<Rightarrow> 's \<Rightarrow> callback_end \<times> 's"
  sy_on_event :: "strategy_event_context \<Rightarrow> strategy_output_sink \<Rightarrow> 's \<Rightarrow> callback_end \<times> strategy_output_sink \<times> 's"
  sy_on_feedback :: "strategy_feedback_context \<Rightarrow> strategy_output_sink \<Rightarrow> 's \<Rightarrow> callback_end \<times> strategy_output_sink \<times> 's"
  sy_on_timer :: "strategy_timer_context \<Rightarrow> strategy_output_sink \<Rightarrow> 's \<Rightarrow> callback_end \<times> strategy_output_sink \<times> 's"
  sy_finalize :: "strategy_finalize_context \<Rightarrow> strategy_output_sink \<Rightarrow> 's \<Rightarrow> callback_end \<times> strategy_output_sink \<times> 's"

datatype strategy_run_error_category =
    RunInvalidParameters
  | RunDeclaration
  | RunInitialization
  | RunCallback
  | RunFinalize
  | RunStrategyPanic
  | RunCapabilityUnavailable
  | RunReplay
  | RunContext
  | RunOutputEncoding

text \<open>A failure's message carries the error it was made from.\<close>

datatype run_message =
    TextMessage string
  | OrderingMessage ordering_error
  | ReplayMessage replay_error
  | ContextMessage context_error
  | OutputMessage strategy_output_error

record failed_occurrence =
  fo_run_event_ordinal :: nat
  fo_event_fingerprint :: bytes
  fo_instrument_state_version :: nat

definition failed_occurrence_of :: "event_occurrence \<Rightarrow> failed_occurrence" where
  "failed_occurrence_of occ =
     \<lparr>fo_run_event_ordinal = eo_run_event_ordinal occ, fo_event_fingerprint = eo_event_fingerprint occ,
      fo_instrument_state_version = eo_instrument_state_version occ\<rparr>"

record failed_strategy_run =
  fl_category :: strategy_run_error_category
  fl_message :: run_message
  fl_occurrence :: "failed_occurrence option"
  fl_processed_event_count :: nat
  fl_processed_prefix_checksum :: bytes
  fl_committed_output_count :: nat

text \<open>The runner's own \<open>expect\<close> calls are the other way a run can end.\<close>

datatype strategy_run_error = StrategyRunFailed failed_strategy_run | RunPanicked

record completed_strategy_run =
  cr_replay :: "(instrument_id, market_state) bmap \<times> replay_summary"
  cr_strategy_output :: strategy_output
  cr_callback_count :: nat

definition run_failure ::
  "(bytes \<Rightarrow> bytes) \<Rightarrow> replay_core \<Rightarrow> strategy_output \<Rightarrow> strategy_run_error_category \<Rightarrow> run_message \<Rightarrow>
   event_occurrence option \<Rightarrow> strategy_run_error" where
  "run_failure hash core out category message occ =
     StrategyRunFailed \<lparr>fl_category = category, fl_message = message, fl_occurrence = map_option failed_occurrence_of occ,
       fl_processed_event_count = event_ordinal (co_clock core),
       fl_processed_prefix_checksum = stream_checksum hash (co_event_stream core),
       fl_committed_output_count = length (out_records out)\<rparr>"

definition failure_after_complete_error ::
  "strategy_output \<Rightarrow> nat \<Rightarrow> bytes \<Rightarrow> replay_error \<Rightarrow> strategy_run_error" where
  "failure_after_complete_error out processed checksum err =
     StrategyRunFailed \<lparr>fl_category = RunReplay, fl_message = ReplayMessage err, fl_occurrence = None,
       fl_processed_event_count = processed, fl_processed_prefix_checksum = checksum,
       fl_committed_output_count = length (out_records out)\<rparr>"

definition invoke_strategy ::
  "strategy_run_error_category \<Rightarrow> callback_end \<Rightarrow> (unit, strategy_run_error_category \<times> run_message) result" where
  "invoke_strategy category ended =
     (case ended of
        Returned \<Rightarrow> Ok ()
      | Failed err \<Rightarrow> Err (if ee_capability_unavailable err then RunCapabilityUnavailable else category,
                         TextMessage (ee_message err))
      | PanickedCallback \<Rightarrow> Err (RunStrategyPanic, TextMessage ''strategy panicked''))"

definition validate_declaration ::
  "replay_core \<Rightarrow> session_segment \<Rightarrow> strategy_declaration \<Rightarrow> (unit, string) result" where
  "validate_declaration core segment declaration =
     (if sl_universe declaration \<noteq> map st_instrument (bm_values (co_states core))
      then Err ''strategy declaration and replay universe differ''
      else if sg_kind segment \<notin> set (sl_sessions declaration)
      then Err ''strategy declaration does not include the replay session kind''
      else Ok ())"

text \<open>One turn of the event loop: apply, evaluate the context, call the strategy, commit its records.\<close>

definition run_event ::
  "(bytes \<Rightarrow> bytes) \<Rightarrow> 's strategy \<Rightarrow> session_segment \<Rightarrow> replay_core \<times> 's \<times> strategy_output \<times> nat \<Rightarrow> domain_event \<Rightarrow>
   (replay_core \<times> 's \<times> strategy_output \<times> nat, strategy_run_error) result" where
  "run_event hash strategy segment st e =
     (let (core0, s, out, calls) = st in
      case apply_ordered hash core0 e of
        (Err err, core) \<Rightarrow> Err (run_failure hash core out RunReplay (ReplayMessage err) None)
      | (Ok cm, core) \<Rightarrow>
          let occ = cc_occurrence cm in
          (case bm_get (co_states core) (ev_instrument e) of
             None \<Rightarrow> Err RunPanicked
           | Some state \<Rightarrow>
               (case evaluate_context e occ state segment of
                  Err err \<Rightarrow> Err (run_failure hash core out RunContext (ContextMessage err) (Some occ))
                | Ok trading \<Rightarrow>
                    (case sy_on_event strategy (event_context occ e state (co_states core) trading) sink_new s of
                       (ended, sink, s') \<Rightarrow>
                         (case invoke_strategy RunCallback ended of
                            Err (category, message) \<Rightarrow> Err (run_failure hash core out category message (Some occ))
                          | Ok u \<Rightarrow>
                              (case into_event_records sink occ of
                                 Err err \<Rightarrow> Err (run_failure hash core out RunOutputEncoding (OutputMessage err) (Some occ))
                               | Ok records \<Rightarrow>
                                   (case checked_u64 (calls + 1) of
                                      None \<Rightarrow> Err RunPanicked
                                    | Some calls' \<Rightarrow> Ok (core, s', output_extend out records, calls'))))))))"

definition finish_run ::
  "(bytes \<Rightarrow> bytes) \<Rightarrow> 's strategy \<Rightarrow> replay_core \<times> 's \<times> strategy_output \<times> nat \<Rightarrow>
   (completed_strategy_run, strategy_run_error) result" where
  "finish_run hash strategy st =
     (let (core, s, out, calls) = st in
      case sy_finalize strategy \<lparr>zc_clock = co_clock core, zc_states = bm_values (co_states core)\<rparr> sink_new s of
        (ended, sink, s') \<Rightarrow>
          (case invoke_strategy RunFinalize ended of
             Err (category, message) \<Rightarrow> Err (run_failure hash core out category message None)
           | Ok u \<Rightarrow>
               (case into_finalize_records sink of
                  Err err \<Rightarrow> Err (run_failure hash core out RunOutputEncoding (OutputMessage err) None)
                | Ok records \<Rightarrow>
                    let out' = output_extend out records in
                    (case complete_replay hash core of
                       Err err \<Rightarrow> Err (failure_after_complete_error out' calls (stream_checksum hash (co_event_stream core)) err)
                     | Ok replayed \<Rightarrow>
                         Ok \<lparr>cr_replay = replayed, cr_strategy_output = out', cr_callback_count = calls\<rparr>))))"

definition run_strategy ::
  "(prepared_order_event list \<Rightarrow> prepared_order_event list) \<Rightarrow> (bytes \<Rightarrow> bytes) \<Rightarrow> 's strategy \<Rightarrow> replay_core \<Rightarrow> 's \<Rightarrow>
   session_segment \<Rightarrow> domain_event list \<Rightarrow> (completed_strategy_run, strategy_run_error) result" where
  "run_strategy sort_unstable hash strategy core s segment events =
     (let out = strategy_output_new (sy_identity strategy s) (sy_params_checksum strategy s);
          declaration = sy_declaration strategy s
      in case validate_declaration core segment declaration of
           Err message \<Rightarrow> Err (run_failure hash core out RunDeclaration (TextMessage message) None)
         | Ok u \<Rightarrow>
             (case order_events sort_unstable hash events of
                Err err \<Rightarrow> Err (run_failure hash core out RunReplay (OrderingMessage err) None)
              | Ok ordered \<Rightarrow>
                  (case sy_initialize strategy declaration s of
                     (ended, s') \<Rightarrow>
                       (case invoke_strategy RunInitialization ended of
                          Err (category, message) \<Rightarrow> Err (run_failure hash core out category message None)
                        | Ok u' \<Rightarrow>
                            rbind (rfold (run_event hash strategy segment) (core, s', out, 0) ordered)
                              (finish_run hash strategy)))))"

section \<open>What a run reports\<close>

definition consecutive :: "strategy_output_record list \<Rightarrow> bool" where
  "consecutive records \<longleftrightarrow> map record_sequence records = [1..<Suc (length records)]"

lemma into_event_records_consecutive:
  assumes "into_event_records k occ = Ok records"
  shows "consecutive records"
proof -
  from numbered_through [OF assms [unfolded into_event_records_def]]
  have seq: "map record_sequence records = [1..<Suc (length (sk_pending k) + length (sk_cash_charges k))]"
    by (simp add: case_prod_beta)
  then have "length records = length (sk_pending k) + length (sk_cash_charges k)"
    by (metis length_map length_upt diff_Suc_1)
  then show ?thesis using seq unfolding consecutive_def by simp
qed

lemma into_finalize_records_consecutive:
  assumes "into_finalize_records k = Ok records"
  shows "consecutive records"
proof -
  have r: "records = map2 (\<lambda>sequence (name, v). FinalizeIndicator sequence name v) [1..<Suc (length (sk_pending k))] (sk_pending k)"
    using assms by (simp add: into_finalize_records_def number_records_Ok del: upt_Suc)
  have "map record_sequence records = [1..<Suc (length (sk_pending k))]"
    unfolding r by (rule map2_fst) (auto simp del: upt_Suc)
  moreover have "length records = length (sk_pending k)" by (simp add: r del: upt_Suc)
  ultimately show ?thesis unfolding consecutive_def by simp
qed

lemma apply_ordered_state:
  assumes "apply_ordered hash core e = (Ok cm, core')"
  shows "\<exists>state. bm_get (co_states core') (ev_instrument e) = Some state"
    and "in_u64 (Suc (event_ordinal (co_clock core)))"
    and "event_ordinal (co_clock core') = Suc (event_ordinal (co_clock core))"
proof -
  obtain key canonical rcd n receipt s where pt: "prepare_transition hash core e key canonical = Ok (rcd, n, receipt, s)"
      and core': "core' = commit_event core e key rcd n s"
    using assms by (auto simp: apply_ordered_Ok apply_prepared_Ok)
  from pt have n: "n = Suc (event_ordinal (co_clock core))" "in_u64 n" by (auto elim: prepare_transition_OkE)
  show "\<exists>state. bm_get (co_states core') (ev_instrument e) = Some state" by (simp add: core' commit_event_def)
  show "in_u64 (Suc (event_ordinal (co_clock core)))" "event_ordinal (co_clock core') = Suc (event_ordinal (co_clock core))"
    using n by (simp_all add: core' commit_event_def)
qed

lemma apply_ordered_Err_core: "apply_ordered hash core e = (Err err, core') \<Longrightarrow> core' = core"
  by (auto simp: apply_ordered_def apply_prepared_ordered_def split: result.splits prod.splits)

text \<open>What a failure tells about the replay: the core it was made from.\<close>

definition reports_core :: "(bytes \<Rightarrow> bytes) \<Rightarrow> replay_core \<Rightarrow> failed_strategy_run \<Rightarrow> bool" where
  "reports_core hash core f \<longleftrightarrow>
     fl_processed_event_count f = event_ordinal (co_clock core) \<and>
     fl_processed_prefix_checksum f = stream_checksum hash (co_event_stream core)"

lemma run_failure_reports: "\<exists>f. run_failure hash core out category message occ = StrategyRunFailed f \<and> reports_core hash core f"
  by (simp add: run_failure_def reports_core_def)

lemma run_event_Ok:
  assumes "run_event hash strategy segment (core0, s, out, calls) e = Ok st"
  shows "\<exists>cm core s' records. apply_ordered hash core0 e = (Ok cm, core) \<and> consecutive records \<and>
    st = (core, s', output_extend out records, Suc calls)"
proof -
  obtain r core where p: "apply_ordered hash core0 e = (r, core)" by (rule prod.exhaust)
  obtain cm where r: "r = Ok cm" using assms p by (cases r) (auto simp: run_event_def Let_def)
  obtain state where state: "bm_get (co_states core) (ev_instrument e) = Some state"
    using apply_ordered_state(1) p r by blast
  obtain trading where t: "evaluate_context e (cc_occurrence cm) state segment = Ok trading"
    using assms p r state by (cases "evaluate_context e (cc_occurrence cm) state segment") (auto simp: run_event_def Let_def)
  obtain ended sink s' where ev: "sy_on_event strategy (event_context (cc_occurrence cm) e state (co_states core) trading) sink_new s =
      (ended, sink, s')" by (rule prod_cases3)
  obtain records where rec: "into_event_records sink (cc_occurrence cm) = Ok records"
    using assms p r state t ev by (auto simp: run_event_def Let_def split: result.splits)
  then have "st = (core, s', output_extend out records, Suc calls)"
    using assms p r state t ev by (auto simp: run_event_def Let_def split: result.splits option.splits)
  then show ?thesis using p r into_event_records_consecutive [OF rec] by blast
qed

lemma run_event_Err:
  assumes "run_event hash strategy segment (core0, s, out, calls) e = Err err" and "calls \<le> event_ordinal (co_clock core0)"
  shows "\<exists>f. err = StrategyRunFailed f \<and> (reports_core hash core0 f \<or>
    (\<exists>cm core. apply_ordered hash core0 e = (Ok cm, core) \<and> reports_core hash core f))"
proof -
  obtain r core where p: "apply_ordered hash core0 e = (r, core)" by (rule prod.exhaust)
  show ?thesis
  proof (cases r)
    case (Err er)
    then have "core = core0" using apply_ordered_Err_core p by blast
    then show ?thesis using assms(1) p Err run_failure_reports by (fastforce simp: run_event_def Let_def)
  next
    case (Ok cm)
    obtain state where state: "bm_get (co_states core) (ev_instrument e) = Some state"
      using apply_ordered_state(1) p Ok by blast
    have "in_u64 (Suc calls)" using apply_ordered_state(2) [OF p [unfolded Ok]] assms(2) by (simp add: in_u64_def)
    then obtain category message occ where "err = run_failure hash core out category message occ"
      using assms(1) p Ok state
      by (auto simp: run_event_def Let_def checked_u64_def split: result.splits prod.splits)
    then show ?thesis using run_failure_reports p Ok by metis
  qed
qed

lemma run_events_Ok:
  assumes "rfold (run_event hash strategy segment) (core0, s, out, calls) es = Ok (core, s', out', calls')"
  shows "apply_all hash core0 es = (Ok (), core) \<and> calls' = calls + length es \<and>
    (\<exists>blocks. length blocks = length es \<and> list_all consecutive blocks \<and>
       out' = output_extend out (concat blocks))"
  using assms
proof (induction es arbitrary: core0 s out calls)
  case Nil
  then show ?case by (auto simp: output_extend_def)
next
  case (Cons e es)
  then obtain st where st: "run_event hash strategy segment (core0, s, out, calls) e = Ok st"
      and rest: "rfold (run_event hash strategy segment) st es = Ok (core, s', out', calls')" by auto
  obtain cm core1 s1 records where one: "apply_ordered hash core0 e = (Ok cm, core1)" "consecutive records"
      "st = (core1, s1, output_extend out records, Suc calls)"
    using run_event_Ok [OF st] by blast
  obtain blocks where IH: "apply_all hash core1 es = (Ok (), core)" "calls' = Suc calls + length es"
      "length blocks = length es" "list_all consecutive blocks" "out' = output_extend (output_extend out records) (concat blocks)"
    using Cons.IH [OF rest [unfolded one(3)]] by blast
  have "out' = output_extend out (concat (records # blocks))" by (simp add: IH(5) output_extend_def)
  then show ?case using one IH by (intro conjI exI [of _ "records # blocks"]) (simp_all del: upt_Suc)
qed

lemma run_events_Err:
  assumes "rfold (run_event hash strategy segment) (core0, s, out, calls) es = Err err"
    and "calls \<le> event_ordinal (co_clock core0)"
  shows "\<exists>f processed core. err = StrategyRunFailed f \<and> prefix processed es \<and>
    apply_all hash core0 processed = (Ok (), core) \<and> reports_core hash core f"
  using assms
proof (induction es arbitrary: core0 s out calls)
  case (Cons e es)
  show ?case
  proof (cases "run_event hash strategy segment (core0, s, out, calls) e")
    case (Err er)
    then have "er = err" using Cons.prems(1) by simp
    then obtain f where f: "err = StrategyRunFailed f" "reports_core hash core0 f \<or>
        (\<exists>cm core. apply_ordered hash core0 e = (Ok cm, core) \<and> reports_core hash core f)"
      using run_event_Err [OF Err Cons.prems(2)] by blast
    then show ?thesis
    proof (elim disjE exE conjE)
      assume "reports_core hash core0 f"
      then show ?thesis using f(1) by (intro exI [of _ f] exI [of _ "[]"] exI [of _ core0]) simp
    next
      fix cm core
      assume "apply_ordered hash core0 e = (Ok cm, core)" "reports_core hash core f"
      then show ?thesis using f(1) by (intro exI [of _ f] exI [of _ "[e]"] exI [of _ core]) simp
    qed
  next
    case (Ok st)
    obtain cm core1 s1 records where one: "apply_ordered hash core0 e = (Ok cm, core1)"
        "st = (core1, s1, output_extend out records, Suc calls)"
      using run_event_Ok [OF Ok] by blast
    have "Suc calls \<le> event_ordinal (co_clock core1)" using apply_ordered_state(3) [OF one(1)] Cons.prems(2) by simp
    then obtain f processed core where "err = StrategyRunFailed f" "prefix processed es"
        "apply_all hash core1 processed = (Ok (), core)" "reports_core hash core f"
      using Cons.IH [of core1 s1 "output_extend out records" "Suc calls"] Cons.prems(1) Ok one(2) by auto
    then show ?thesis using one(1) by (intro exI [of _ f] exI [of _ "e # processed"] exI [of _ core]) simp
  qed
qed simp

lemma run_strategy_cases:
  assumes "run_strategy srt hash strategy core s segment events = r"
  shows "(\<exists>f. r = Err (StrategyRunFailed f) \<and> reports_core hash core f) \<or>
    (\<exists>ordered s' out. order_events srt hash events = Ok ordered \<and> out_records out = [] \<and>
       r = rbind (rfold (run_event hash strategy segment) (core, s', out, 0) ordered) (finish_run hash strategy))"
proof -
  let ?out = "strategy_output_new (sy_identity strategy s) (sy_params_checksum strategy s)"
  let ?decl = "sy_declaration strategy s"
  obtain ended s' where init: "sy_initialize strategy ?decl s = (ended, s')" by (rule prod.exhaust)
  note fails = run_failure_reports [of hash core ?out] and def = run_strategy_def Let_def
  show ?thesis
  proof (cases "validate_declaration core segment ?decl")
    case (Err message)
    then show ?thesis using assms fails [of RunDeclaration "TextMessage message" None] by (auto simp: def)
  next
    case valid: (Ok u)
    show ?thesis
    proof (cases "order_events srt hash events")
      case (Err err)
      then show ?thesis using assms valid fails [of RunReplay "OrderingMessage err" None] by (auto simp: def)
    next
      case ordered: (Ok ordered)
      show ?thesis
      proof (cases "invoke_strategy RunInitialization ended")
        case (Err cm)
        then show ?thesis using assms valid ordered init fails [of "fst cm" "snd cm" None] by (auto simp: def case_prod_beta)
      next
        case (Ok u')
        then have "r = rbind (rfold (run_event hash strategy segment) (core, s', ?out, 0) ordered) (finish_run hash strategy)"
          using assms valid ordered init by (simp add: def)
        moreover have "out_records ?out = []" by (simp add: strategy_output_new_def)
        ultimately show ?thesis using ordered by blast
      qed
    qed
  qed
qed

text \<open>
  C13: a strategy cannot influence the replay. Whatever its callbacks do, a run that completes reports the
  states and the summary that replaying the same events without a strategy gives, calls the strategy once
  for each event, and its output is one block of consecutively numbered records for each event, in replay
  order, and a last one for the finalization.
\<close>

theorem strategy_run_replays_exactly:
  assumes "unstable_sort po_key srt" and "run_strategy srt hash strategy core s segment events = Ok run"
  shows "(\<exists>core'. replay srt hash events core = (Ok (), core') \<and> complete_replay hash core' = Ok (cr_replay run)) \<and>
    cr_callback_count run = length events \<and>
    (\<exists>blocks. length blocks = Suc (length events) \<and> list_all consecutive blocks \<and>
       out_records (cr_strategy_output run) = concat blocks)"
proof -
  obtain ordered s' out where ordered: "order_events srt hash events = Ok ordered" and out: "out_records out = []"
      and run: "rbind (rfold (run_event hash strategy segment) (core, s', out, 0) ordered) (finish_run hash strategy) = Ok run"
    using run_strategy_cases [OF assms(2)] by (metis result.distinct(1))
  obtain core' s'' out' calls where fold: "rfold (run_event hash strategy segment) (core, s', out, 0) ordered = Ok (core', s'', out', calls)"
      and fin: "finish_run hash strategy (core', s'', out', calls) = Ok run"
    using run by auto
  obtain blocks where loop: "apply_all hash core ordered = (Ok (), core')" "calls = length ordered"
      "length blocks = length ordered" "list_all consecutive blocks" "out' = output_extend out (concat blocks)"
    using run_events_Ok [OF fold] by auto
  obtain ended sink s3 where z: "sy_finalize strategy \<lparr>zc_clock = co_clock core', zc_states = bm_values (co_states core')\<rparr> sink_new s'' =
      (ended, sink, s3)" by (rule prod_cases3)
  obtain records where rec: "into_finalize_records sink = Ok records"
    using fin z by (auto simp: finish_run_def split: result.splits)
  have finished: "complete_replay hash core' = Ok (cr_replay run)" "cr_strategy_output run = output_extend out' records"
      "cr_callback_count run = calls"
    using fin z rec by (auto simp: finish_run_def Let_def split: result.splits)
  have len: "length ordered = length events" using order_events_sorted(1) [OF assms(1) ordered] by (metis size_mset)
  have "out_records (cr_strategy_output run) = concat (blocks @ [records])"
    using finished(2) loop(5) out by (simp add: output_extend_def)
  moreover have "list_all consecutive (blocks @ [records])"
    using loop(4) into_finalize_records_consecutive [OF rec] by (simp del: upt_Suc)
  moreover have "length (blocks @ [records]) = Suc (length events)" using loop(3) len by simp
  ultimately have "\<exists>blocks. length blocks = Suc (length events) \<and> list_all consecutive blocks \<and>
      out_records (cr_strategy_output run) = concat blocks" by blast
  moreover have "replay srt hash events core = (Ok (), core')" using loop(1) ordered by (simp add: replay_def)
  ultimately show ?thesis using finished(1,3) loop(2) len by auto
qed

text \<open>
  C14: a run that fails never does so by a panic of the runner itself, and its failure names exactly what was
  processed: the reported count is the length of a prefix of the ordered events, and the reported checksum
  is that of the very sequence of events in this prefix.
\<close>

theorem strategy_failure_reports_prefix:
  assumes "replay_core_new_multi_with_schedules states reducers contexts schedules = Ok core"
    and "run_strategy srt hash strategy core s segment events = Err err"
  shows "\<exists>f processed h. err = StrategyRunFailed f \<and>
    (processed = [] \<or> (\<exists>ordered. order_events srt hash events = Ok ordered \<and> prefix processed ordered)) \<and>
    hash_events processed = Ok h \<and> fl_processed_event_count f = length processed \<and>
    fl_processed_prefix_checksum f = stream_checksum hash h"
proof -
  have fresh: "unstarted_core core" using new_unstarted [OF assms(1)] .
  then have zero: "event_ordinal (co_clock core) = 0" by (simp add: unstarted_core_def)
  have "\<exists>f processed core'. err = StrategyRunFailed f \<and> apply_all hash core processed = (Ok (), core') \<and> reports_core hash core' f \<and>
      (processed = [] \<or> (\<exists>ordered. order_events srt hash events = Ok ordered \<and> prefix processed ordered))"
    using run_strategy_cases [OF assms(2)]
  proof (elim disjE exE conjE)
    fix f
    assume "Err err = (Err (StrategyRunFailed f) :: (completed_strategy_run, strategy_run_error) result)" "reports_core hash core f"
    then show ?thesis by (intro exI [of _ f] exI [of _ "[]"] exI [of _ core]) simp
  next
    fix ordered s' out
    assume ordered: "order_events srt hash events = Ok ordered"
      and r: "Err err = rbind (rfold (run_event hash strategy segment) (core, s', out, 0) ordered) (finish_run hash strategy)"
    show ?thesis
    proof (cases "rfold (run_event hash strategy segment) (core, s', out, 0) ordered")
      case (Err er)
      then show ?thesis using run_events_Err [OF Err] r ordered by auto
    next
      case (Ok st)
      obtain core' s'' out' calls where st: "st = (core', s'', out', calls)" by (cases st)
      have loop: "apply_all hash core ordered = (Ok (), core')" "calls = length ordered"
        using run_events_Ok [OF Ok [unfolded st]] by simp_all
      have "event_ordinal (co_clock core') = length ordered"
        using history_agrees_apply_all [OF fresh loop(1)] by (simp add: history_agrees_def)
      then have "\<exists>f. err = StrategyRunFailed f \<and> reports_core hash core' f"
        using r Ok st loop(2) run_failure_reports
        by (fastforce simp: finish_run_def Let_def failure_after_complete_error_def reports_core_def split: result.splits prod.splits)
      then show ?thesis using loop(1) ordered by blast
    qed
  qed
  then obtain f processed core' where f: "err = StrategyRunFailed f" "apply_all hash core processed = (Ok (), core')"
      "reports_core hash core' f"
      "processed = [] \<or> (\<exists>ordered. order_events srt hash events = Ok ordered \<and> prefix processed ordered)"
    by blast
  have "history_agrees hash processed core'" by (rule history_agrees_apply_all [OF fresh f(2)])
  then show ?thesis using f unfolding history_agrees_def reports_core_def by metis
qed

section \<open>A strategy that counts events\<close>

definition counting_strategy :: "callback_end \<Rightarrow> nat strategy" where
  "counting_strategy ended =
     \<lparr>sy_identity = (\<lambda>n. sample_identity), sy_params_checksum = (\<lambda>n. replicate 32 0),
      sy_declaration = (\<lambda>n. \<lparr>sl_universe = [(Twse, ''2330'')], sl_sessions = [Regular]\<rparr>),
      sy_initialize = (\<lambda>declaration n. (Returned, n)),
      sy_on_event = (\<lambda>c k n. (ended, k, n + 1)),
      sy_on_feedback = (\<lambda>c k n. (Returned, k, n)),
      sy_on_timer = (\<lambda>c k n. (Returned, k, n)),
      sy_finalize = (\<lambda>c k n. (Returned, snd (emit_indicator k ''events'' (IndicatorUnsigned n)), n))\<rparr>"

lemma counting_declared: "validate_declaration sample_core sample_segment (sy_declaration (counting_strategy ended) n) = Ok ()"
  by (simp add: counting_strategy_def validate_declaration_def sample_core_def sample_state_def
      market_state_new_def sample_segment_def)

lemma counting_completes: "\<exists>run. run_strategy (sort_key po_key) sample_hash (counting_strategy Returned) sample_core 0 sample_segment [] = Ok run"
proof -
  have "is_ok (append_framed_state sample_state)"
    by (simp add: sample_state_def append_framed_state_def state_to_canonical_bytes_def market_state_new_def
        append_all.simps append_instrument_def append_bytes_def append_length_def push_def in_u32_def)
  then have "is_ok (canonical_final_state_set [sample_state])" by (simp add: is_ok_final_state_set in_u32_def)
  then obtain r where "complete_replay sample_hash sample_core = Ok r"
    by (auto simp: is_ok_iff complete_replay_def final_state_checksum_def sample_core_def)
  then show ?thesis
    using counting_declared [of Returned 0]
    by (simp add: run_strategy_def Let_def order_events_def counting_strategy_def invoke_strategy_def finish_run_def
        emit_indicator_def into_finalize_records_def sink_new_def in_u32_def)
qed

theorem strategy_run_replays_exactly_witness:
  "\<exists>run. run_strategy (sort_key po_key) sample_hash (counting_strategy Returned) sample_core 0 sample_segment [] = Ok run \<and>
     (\<exists>core'. replay (sort_key po_key) sample_hash [] sample_core = (Ok (), core') \<and>
        complete_replay sample_hash core' = Ok (cr_replay run))"
proof -
  obtain run where run: "run_strategy (sort_key po_key) sample_hash (counting_strategy Returned) sample_core 0 sample_segment [] = Ok run"
    using counting_completes by blast
  with strategy_run_replays_exactly [OF by_key.unstable_sort_axioms run] show ?thesis by blast
qed

lemma sample_commit:
  obtains cm core st tc where "apply_ordered sample_hash sample_core sample_status_event = (Ok cm, core)"
    and "bm_get (co_states core) (ev_instrument sample_status_event) = Some st"
    and "evaluate_context sample_status_event (cc_occurrence cm) st sample_segment = Ok tc"
proof -
  obtain cm core where step: "apply_ordered sample_hash sample_core sample_status_event = (Ok cm, core)"
    by (rule sample_core_step) (auto split: prod.splits result.splits)
  have ctxt: "context_for_event sample_core (ev_instrument sample_status_event) (ev_match_time sample_status_event) =
      Some (sample_context ''open'' Carry)"
    by (simp add: context_for_event_def sample_core_def bm_get_def sample_status_event_def)
  show ?thesis
  proof (rule committed_event_matches [OF step ctxt, of sample_segment])
    fix st
    assume st: "bm_get (co_states core) (ev_instrument sample_status_event) = Some st"
      "validate_event_state sample_status_event (cc_occurrence cm) st sample_segment = Ok ()"
    have "is_ok (segment_phase sample_segment (ev_match_time sample_status_event))"
      unfolding segment_phase_eq [OF sample_segment_new] by (simp add: WARM_UP_MICROSECONDS_def sample_status_event_def)
    then obtain tc where "evaluate_context sample_status_event (cc_occurrence cm) st sample_segment = Ok tc"
      using st(2)
      by (cases "matching_for_signal (payload_market_signal (ev_payload sample_status_event)) (st_phase st)")
        (auto simp: evaluate_context_def Let_def is_ok_iff)
    then show ?thesis using that step st(1) by blast
  qed (simp_all add: sample_context_def sample_segment_def)
qed

lemma sample_ordered: "order_events (sort_key po_key) sample_hash [sample_status_event] = Ok [sample_status_event]"
proof -
  obtain c where "to_canonical_bytes sample_status_event = Ok c" using sample_record_ok by (auto simp: is_ok_iff append_record_Ok)
  moreover have "source_phase_rank sample_status_event = Ok 20"
    by (simp add: sample_status_event_def source_phase_rank_def realtime_phase_rank_def)
  ultimately show ?thesis
    by (simp add: order_events_def prepared_order_event_new_def for_event_and_canonical_def for_event_with_fingerprint_def Let_def)
qed

text \<open>A strategy that panics on the first event: the failure reports one processed event.\<close>

theorem strategy_failure_reports_prefix_witness:
  "\<exists>f h. run_strategy (sort_key po_key) sample_hash (counting_strategy PanickedCallback) sample_core 0 sample_segment
       [sample_status_event] = Err (StrategyRunFailed f) \<and> fl_processed_event_count f = 1 \<and>
     hash_events [sample_status_event] = Ok h \<and> fl_processed_prefix_checksum f = stream_checksum sample_hash h"
proof (rule sample_commit)
  fix cm core st tc
  assume commit: "apply_ordered sample_hash sample_core sample_status_event = (Ok cm, core)"
    "bm_get (co_states core) (ev_instrument sample_status_event) = Some st"
    "evaluate_context sample_status_event (cc_occurrence cm) st sample_segment = Ok tc"
  have one: "event_ordinal (co_clock core) = 1"
    using apply_ordered_state(3) [OF commit(1)] by (simp add: sample_core_def)
  define r where "r = run_strategy (sort_key po_key) sample_hash (counting_strategy PanickedCallback) sample_core 0 sample_segment
    [sample_status_event]"
  obtain f where r: "r = Err (StrategyRunFailed f)" "fl_processed_event_count f = 1"
    using counting_declared [of PanickedCallback 0] commit sample_ordered one
    by (simp add: r_def run_strategy_def Let_def counting_strategy_def invoke_strategy_def run_event_def run_failure_def)
  obtain processed h where p: "processed = [] \<or> (\<exists>ordered. order_events (sort_key po_key) sample_hash [sample_status_event] = Ok ordered \<and>
      prefix processed ordered)" "hash_events processed = Ok h" "fl_processed_event_count f = length processed"
      "fl_processed_prefix_checksum f = stream_checksum sample_hash h"
    using strategy_failure_reports_prefix [OF sample_core_new r(1) [unfolded r_def]] by auto
  have "length processed = 1" using p(3) r(2) by simp
  then have "processed = [sample_status_event]" using p(1) sample_ordered by (auto simp: prefix_Cons)
  then show ?thesis using r p unfolding r_def by blast
qed

end
