(* ===== verification/ReplayMerge.thy ===== *)
theory ReplayMerge
  imports Replay
begin

text \<open>
  The streaming merge of \<open>replay_frozen_multi\<close> against the in-memory \<open>replay\<close>. A merge state stands
  for a list of lanes, the events each stream still has to deliver; one turn of the loop takes the
  first event of the lane with the least key. When every stream is ascending, the merge delivers the
  events in the order \<open>order_events\<close> gives, so both ways of replaying end in the same core with the
  same result.
\<close>

section \<open>Lanes\<close>

definition event_key :: "(bytes \<Rightarrow> bytes) \<Rightarrow> domain_event \<Rightarrow> ordering_key" where
  "event_key hash e = (case for_event_and_canonical hash e of Ok kc \<Rightarrow> fst kc)"

definition event_canonical :: "(bytes \<Rightarrow> bytes) \<Rightarrow> domain_event \<Rightarrow> bytes" where
  "event_canonical hash e = (case for_event_and_canonical hash e of Ok kc \<Rightarrow> snd kc)"

definition keyed :: "(bytes \<Rightarrow> bytes) \<Rightarrow> domain_event \<Rightarrow> bool" where
  "keyed hash e \<longleftrightarrow> is_ok (for_event_and_canonical hash e)"

lemma keyed_Ok: "keyed hash e \<Longrightarrow> for_event_and_canonical hash e = Ok (event_key hash e, event_canonical hash e)"
  by (auto simp: keyed_def is_ok_iff event_key_def event_canonical_def)

lemma keyed_for_event: "keyed hash e \<Longrightarrow> for_event hash e = Ok (event_key hash e)"
  by (simp add: for_event_def keyed_Ok)

definition lane_head :: "(bytes \<Rightarrow> bytes) \<Rightarrow> domain_event list \<Rightarrow> merge_head" where
  "lane_head hash lane = (case lane of [] \<Rightarrow> None | e # es \<Rightarrow> Some (e, event_canonical hash e))"

definition lane_stream :: "domain_event list \<Rightarrow> event_stream" where
  "lane_stream lane = map Ok (tl lane)"

definition lane_pending :: "(bytes \<Rightarrow> bytes) \<Rightarrow> nat \<Rightarrow> domain_event list list \<Rightarrow> (ordering_key \<times> nat) set" where
  "lane_pending hash n lanes = {(event_key hash (hd (lanes ! j)), n + j) | j. j < length lanes \<and> lanes ! j \<noteq> []}"

text \<open>The pending heap of lanes: ascending, without repetitions, one entry per lane that is not empty.\<close>

definition pending_of :: "(bytes \<Rightarrow> bytes) \<Rightarrow> nat \<Rightarrow> domain_event list list \<Rightarrow> (ordering_key \<times> nat) list \<Rightarrow> bool" where
  "pending_of hash n lanes pending \<longleftrightarrow> sorted pending \<and> distinct pending \<and> set pending = lane_pending hash n lanes"

lemma lane_pending_Nil: "lane_pending hash n [] = {}"
  by (auto simp: lane_pending_def)

lemma lane_pending_Cons:
  "lane_pending hash n (lane # lanes) =
     (if lane = [] then {} else {(event_key hash (hd lane), n)}) \<union> lane_pending hash (Suc n) lanes"
proof -
  have "{(event_key hash (hd ((lane # lanes) ! j)), n + j) | j. j < length (lane # lanes) \<and> (lane # lanes) ! j \<noteq> []} =
      (if lane = [] then {} else {(event_key hash (hd lane), n)}) \<union>
      {(event_key hash (hd (lanes ! j)), Suc n + j) | j. j < length lanes \<and> lanes ! j \<noteq> []}" (is "?l = ?r")
  proof
    show "?l \<subseteq> ?r"
    proof
      fix x assume "x \<in> ?l"
      then obtain j where j: "x = (event_key hash (hd ((lane # lanes) ! j)), n + j)" "j < length (lane # lanes)"
          "(lane # lanes) ! j \<noteq> []" by blast
      then show "x \<in> ?r" by (cases j) auto
    qed
    show "?r \<subseteq> ?l"
    proof
      fix x assume x: "x \<in> ?r"
      show "x \<in> ?l"
      proof (cases "x \<in> (if lane = [] then {} else {(event_key hash (hd lane), n)})")
        case True
        then show ?thesis by (auto split: if_splits intro: exI [of _ 0])
      next
        case False
        then obtain j where "x = (event_key hash (hd (lanes ! j)), Suc n + j)" "j < length lanes" "lanes ! j \<noteq> []"
          using x by blast
        then show ?thesis by (auto intro!: exI [of _ "Suc j"])
      qed
    qed
  qed
  then show ?thesis by (simp add: lane_pending_def)
qed

lemma lane_pending_index: "(k, i) \<in> lane_pending hash n lanes \<Longrightarrow> n \<le> i"
  by (auto simp: lane_pending_def)

lemma lane_pending_iff:
  "(k, j) \<in> lane_pending hash 0 lanes \<longleftrightarrow> j < length lanes \<and> lanes ! j \<noteq> [] \<and> k = event_key hash (hd (lanes ! j))"
  by (auto simp: lane_pending_def)

lemma lane_pending_update:
  assumes "i < length lanes" "lanes ! i = e # es"
  shows "lane_pending hash 0 (lanes[i := es]) =
    (lane_pending hash 0 lanes - {(event_key hash e, i)}) \<union> (if es = [] then {} else {(event_key hash (hd es), i)})"
proof (rule set_eqI)
  fix x :: "ordering_key \<times> nat"
  obtain k j where x: "x = (k, j)" by (cases x)
  show "x \<in> lane_pending hash 0 (lanes[i := es]) \<longleftrightarrow> x \<in>
    (lane_pending hash 0 lanes - {(event_key hash e, i)}) \<union> (if es = [] then {} else {(event_key hash (hd es), i)})"
    using assms unfolding x by (cases "j = i") (simp_all add: lane_pending_iff)
qed

lemma mset_concat_update:
  "i < length lanes \<Longrightarrow> lanes ! i = e # es \<Longrightarrow> mset (concat lanes) = add_mset e (mset (concat (lanes[i := es])))"
proof (induction lanes arbitrary: i)
  case (Cons lane lanes)
  then show ?case by (cases i) auto
qed simp

section \<open>Priming\<close>

lemma prime_heads_lanes:
  assumes "\<forall>e \<in> set (concat lanes). keyed hash e"
  shows "\<exists>pending. prime_heads hash n (map (map Ok) lanes) =
      Ok (map lane_stream lanes, map (lane_head hash) lanes, pending) \<and> pending_of hash n lanes pending"
  using assms
proof (induction lanes arbitrary: n)
  case Nil
  then show ?case by (simp add: pending_of_def lane_pending_Nil)
next
  case (Cons lane lanes)
  obtain pending where IH: "prime_heads hash (Suc n) (map (map Ok) lanes) =
      Ok (map lane_stream lanes, map (lane_head hash) lanes, pending)" "pending_of hash (Suc n) lanes pending"
    using Cons.IH [of "Suc n"] Cons.prems by auto
  show ?case
  proof (cases lane)
    case Nil
    then show ?thesis using IH by (simp add: lane_stream_def lane_head_def pending_of_def lane_pending_Cons)
  next
    case (Cons e es)
    have k: "for_event_and_canonical hash e = Ok (event_key hash e, event_canonical hash e)"
      using keyed_Ok Cons.prems Cons by auto
    have fresh: "(event_key hash e, n) \<notin> set pending"
      using IH(2) lane_pending_index [of _ n hash "Suc n" lanes] by (auto simp: pending_of_def)
    have "pending_of hash n (lane # lanes) (insort (event_key hash e, n) pending)"
      using IH(2) fresh Cons
      by (simp add: pending_of_def lane_pending_Cons sorted_insort set_insort_key distinct_insort)
    then show ?thesis using IH(1) k Cons by (simp add: lane_stream_def lane_head_def)
  qed
qed

section \<open>The loop\<close>

abbreviation no_callback :: "unit replay_callback" where
  "no_callback \<equiv> \<lambda>core e commit c. (Ok (), core, c)"

definition ascending :: "(bytes \<Rightarrow> bytes) \<Rightarrow> domain_event list \<Rightarrow> bool" where
  "ascending hash es \<longleftrightarrow> sorted (map (event_key hash) es)"

text \<open>One turn of the loop with no callback.\<close>

lemma merge_loop_turn:
  assumes "i < length lanes" "lanes ! i = e # es" "for_event_and_canonical hash e = Ok (key, event_canonical hash e)"
    "\<forall>x \<in> set (concat lanes). keyed hash x"
  shows "merge_loop hash no_callback (map lane_stream lanes) (map (lane_head hash) lanes) ((key, i) # pending) core c =
    (case apply_ordered hash core e of
       (Err err, core') \<Rightarrow> (Err err, core', c)
     | (Ok _, core') \<Rightarrow> merge_loop hash no_callback (map lane_stream (lanes[i := es])) (map (lane_head hash) (lanes[i := es]))
         (if es = [] then pending else insort (event_key hash (hd es), i) pending) core' c)"
proof -
  have at: "map (lane_head hash) lanes ! i = Some (e, event_canonical hash e)" "map lane_stream lanes ! i = map Ok es"
      "\<not> (i \<ge> length (map lane_stream lanes) \<or> i \<ge> length (map (lane_head hash) lanes))"
    using assms(1,2) by (simp_all add: lane_head_def lane_stream_def)
  have upd: "map lane_stream (lanes[i := es]) = (map lane_stream lanes)[i := lane_stream es]"
      "map (lane_head hash) (lanes[i := es]) = (map (lane_head hash) lanes)[i := lane_head hash es]"
    by (simp_all add: map_update)
  have ordered: "apply_ordered hash core e = apply_prepared_ordered hash core e key (event_canonical hash e)"
    using assms(3) by (simp add: apply_ordered_def)
  show ?thesis
  proof (cases es)
    case Nil
    then have "(map lane_stream lanes)[i := lane_stream es] = map lane_stream lanes"
      using at(2) assms(1) by (metis lane_stream_def list.sel(2) list.simps(8) list_update_id)
    then show ?thesis
      unfolding merge_loop.simps(2) upd ordered if_not_P [OF at(3)] at(1,2) using Nil
      by (simp add: lane_head_def split: prod.splits result.splits)
  next
    case (Cons x xs)
    have "lanes ! i \<in> set lanes" using assms(1) by simp
    moreover have "x \<in> set (lanes ! i)" using assms(2) Cons by simp
    ultimately have "x \<in> set (concat lanes)" unfolding set_concat by blast
    then have "for_event_and_canonical hash x = Ok (event_key hash x, event_canonical hash x)"
      using assms(4) keyed_Ok by blast
    then show ?thesis
      unfolding merge_loop.simps(2) upd ordered if_not_P [OF at(3)] at(1,2) using Cons
      by (simp add: lane_head_def lane_stream_def split: prod.splits result.splits)
  qed
qed

lemma pending_turn:
  assumes "pending_of hash 0 lanes ((key, i) # pending)" "i < length lanes" "lanes ! i = e # es" "key = event_key hash e"
  shows "pending_of hash 0 (lanes[i := es]) (if es = [] then pending else insort (event_key hash (hd es), i) pending)"
proof -
  have set: "set pending = lane_pending hash 0 lanes - {(event_key hash e, i)}"
    using assms(1,4) by (auto simp: pending_of_def)
  have fresh: "(k, i) \<notin> set pending" for k
    using set assms(3) by (auto simp: lane_pending_def)
  show ?thesis
    using assms(1) set fresh lane_pending_update [OF assms(2,3), of hash]
    by (simp add: pending_of_def sorted_insort set_insort_key distinct_insort)
qed

lemma least_head:
  assumes "pending_of hash 0 lanes ((key, i) # pending)" "\<forall>lane \<in> set lanes. ascending hash lane"
    "e \<in> set (concat lanes)"
  shows "key \<le> event_key hash e"
proof -
  obtain lane where "lane \<in> set lanes" "e \<in> set lane" using assms(3) by auto
  then obtain j where j: "j < length lanes" "e \<in> set (lanes ! j)" by (metis in_set_conv_nth)
  then have "(event_key hash (hd (lanes ! j)), j) \<in> set ((key, i) # pending)"
    using assms(1) by (auto simp: pending_of_def lane_pending_def)
  then have "(key, i) \<le> (event_key hash (hd (lanes ! j)), j)" using assms(1) by (auto simp: pending_of_def)
  then have "key \<le> event_key hash (hd (lanes ! j))" by (auto simp: less_eq_prod_simp)
  also have "\<dots> \<le> event_key hash e"
    using assms(2) j by (cases "lanes ! j") (auto simp: ascending_def dest!: nth_mem)
  finally show ?thesis .
qed

lemma merge_loop_sequence:
  assumes "pending_of hash 0 lanes pending" "\<forall>e \<in> set (concat lanes). keyed hash e"
  shows "\<exists>es. mset es = mset (concat lanes) \<and> ((\<forall>lane \<in> set lanes. ascending hash lane) \<longrightarrow> ascending hash es) \<and>
    (case merge_loop hash no_callback (map lane_stream lanes) (map (lane_head hash) lanes) pending core c of
       (r, core', c') \<Rightarrow> (r, core')) = apply_all hash core es"
  using assms
proof (induction "length (concat lanes)" arbitrary: lanes pending core)
  case 0
  then have "lane_pending hash 0 lanes = {}" by (auto simp: lane_pending_def)
  then have "pending = []" using "0.prems"(1) by (simp add: pending_of_def)
  then show ?case using "0.hyps" by (intro exI [of _ "[]"]) (auto simp: ascending_def)
next
  case (Suc n)
  show ?case
  proof (cases pending)
    case Nil
    then have "lane_pending hash 0 lanes = {}" using Suc.prems(1) by (simp add: pending_of_def)
    then have "\<forall>j < length lanes. lanes ! j = []" by (auto simp: lane_pending_def)
    then have "concat lanes = []" by (auto simp: in_set_conv_nth)
    then have "Suc n = 0" using Suc.hyps(2) by (simp only: list.size(3))
    then show ?thesis by simp
  next
    case (Cons ki rest)
    obtain key i where ki: "ki = (key, i)" by (cases ki)
    have "(key, i) \<in> lane_pending hash 0 lanes" using Suc.prems(1) Cons ki by (auto simp: pending_of_def)
    then obtain e es where i: "i < length lanes" "lanes ! i = e # es" "key = event_key hash e"
      by (auto simp: lane_pending_def neq_Nil_conv)
    have m: "mset (concat lanes) = add_mset e (mset (concat (lanes[i := es])))" using mset_concat_update [OF i(1,2)] .
    have k: "for_event_and_canonical hash e = Ok (key, event_canonical hash e)"
      using keyed_Ok Suc.prems(2) i m by (metis set_mset_mset union_single_eq_member)
    have sub: "set (concat (lanes[i := es])) \<subseteq> set (concat lanes)"
      using arg_cong [OF m, of set_mset] by auto
    have least: "key \<le> event_key hash x" if "x \<in> set (concat lanes)" "\<forall>lane \<in> set lanes. ascending hash lane" for x
      using least_head [of hash lanes key i rest x] Suc.prems(1) that Cons ki by simp
    note turn = merge_loop_turn [OF i(1,2) k Suc.prems(2), of rest core c]
    have asc: "\<forall>lane \<in> set (lanes[i := es]). ascending hash lane" if "\<forall>lane \<in> set lanes. ascending hash lane"
    proof
      fix lane assume "lane \<in> set (lanes[i := es])"
      then have "lane = es \<or> lane \<in> set lanes" using set_update_subset_insert by fastforce
      moreover have "ascending hash (lanes ! i)" using that i(1) nth_mem by blast
      then have "ascending hash es" using i(2) by (simp add: ascending_def)
      ultimately show "ascending hash lane" using that by blast
    qed
    have extend: "\<exists>es. mset es = mset (concat lanes) \<and> ((\<forall>lane \<in> set lanes. ascending hash lane) \<longrightarrow> ascending hash es) \<and>
        r = apply_all hash core es"
      if "mset tl_es = mset (concat (lanes[i := es]))"
        "(\<forall>lane \<in> set lanes. ascending hash lane) \<longrightarrow> ascending hash tl_es" "r = apply_all hash core (e # tl_es)" for tl_es r
    proof (intro exI [of _ "e # tl_es"] conjI impI)
      assume a: "\<forall>lane \<in> set lanes. ascending hash lane"
      have "set tl_es \<subseteq> set (concat lanes)" using sub mset_eq_setD [OF that(1)] by simp
      then show "ascending hash (e # tl_es)" using that(2) a least i(3) by (auto simp: ascending_def)
    qed (use that m in auto)
    show ?thesis
    proof (cases "apply_ordered hash core e")
      case (Pair r core')
      show ?thesis
      proof (cases r)
        case (Err err)
        show ?thesis
          by (rule extend [of "sort_key (event_key hash) (concat (lanes[i := es]))"])
            (use Pair Err turn Cons ki in \<open>simp_all add: ascending_def\<close>)
      next
        case (Ok cm)
        have "n = length (concat (lanes[i := es]))"
          using Suc.hyps(2) m by (metis Suc_inject size_add_mset size_mset)
        moreover have "\<forall>x \<in> set (concat (lanes[i := es])). keyed hash x" using sub Suc.prems(2) by blast
        moreover have "pending_of hash 0 (lanes[i := es]) (if es = [] then rest else insort (event_key hash (hd es), i) rest)"
          using pending_turn [of hash lanes key i rest e es] Suc.prems(1) i Cons ki by simp
        ultimately
        obtain tl_es where "mset tl_es = mset (concat (lanes[i := es]))"
            "(\<forall>lane \<in> set (lanes[i := es]). ascending hash lane) \<longrightarrow> ascending hash tl_es"
            "(case merge_loop hash no_callback (map lane_stream (lanes[i := es])) (map (lane_head hash) (lanes[i := es]))
               (if es = [] then rest else insort (event_key hash (hd es), i) rest) core' c of (r, core', c') \<Rightarrow> (r, core')) =
             apply_all hash core' tl_es"
          using Suc.hyps(1) by blast
        then show ?thesis
          by (intro extend [of tl_es]) (use asc Pair Ok turn Cons ki in simp_all)
      qed
    qed
  qed
qed

section \<open>Merging is rebuilding\<close>

lemma open_streams_deliver:
  assumes "\<forall>b \<in> set bs. check_binding core b = Ok ()" "\<forall>b \<in> set bs. \<forall>f. factory b f = (Ok (map Ok (delivers b)), f)"
  shows "open_streams core factory bs f = Ok (map (map Ok) (map delivers bs))"
  using assms by (induction bs arbitrary: f) auto

lemma ascending_keys:
  assumes "map (for_event hash) es = map Ok keys" "sorted keys"
  shows "ascending hash es \<and> (\<forall>e \<in> set es. keyed hash e)"
proof -
  have "list_all2 (\<lambda>e k. for_event hash e = Ok k) es keys"
    using assms(1) by (simp add: list_all2_conv_all_nth list_eq_iff_nth_eq)
  then have "map (event_key hash) es = keys \<and> (\<forall>e \<in> set es. keyed hash e)"
    by (induction rule: list_all2_induct) (auto simp: for_event_def event_key_def keyed_def)
  then show ?thesis using assms(2) by (auto simp: ascending_def)
qed

text \<open>
  C1: the streaming merge is equivalent to the in-memory rebuild. When a plan's bindings are admitted
  and each of its streams delivers well-formed events in ascending key order, replaying the plan by
  merging the streams gives the same result and the same core as ordering all the events in memory and
  replaying them, failures in the middle of the run included.
\<close>

theorem frozen_multi_equals_rebuild:
  assumes "unstable_sort po_key srt"
    and "\<forall>b \<in> set (rp_bindings plan). check_binding core b = Ok ()"
    and "\<forall>b \<in> set (rp_bindings plan). \<forall>f. factory b f = (Ok (map Ok (delivers b)), f)"
    and "\<forall>b \<in> set (rp_bindings plan). list_all wf_event (delivers b) \<and>
      (\<exists>keys. map (for_event hash) (delivers b) = map Ok keys \<and> sorted keys)"
    and "order_events srt hash (concat (map delivers (rp_bindings plan))) = Ok ordered"
  shows "replay_frozen_multi hash factory plan f core =
    replay srt hash (concat (map delivers (rp_bindings plan))) core"
proof -
  define lanes where "lanes = map delivers (rp_bindings plan)"
  have lanes: "\<forall>lane \<in> set lanes. ascending hash lane" "\<forall>e \<in> set (concat lanes). keyed hash e" "list_all wf_event (concat lanes)"
    using assms(4) ascending_keys by (fastforce simp: lanes_def list_all_iff)+
  obtain pending where prime: "prime_heads hash 0 (map (map Ok) lanes) =
      Ok (map lane_stream lanes, map (lane_head hash) lanes, pending)" "pending_of hash 0 lanes pending"
    using prime_heads_lanes [OF lanes(2)] by blast
  obtain es where es: "mset es = mset (concat lanes)" "ascending hash es"
      "(case merge_loop hash no_callback (map lane_stream lanes) (map (lane_head hash) lanes) pending core () of
         (r, core', c') \<Rightarrow> (r, core')) = apply_all hash core es"
    using merge_loop_sequence [OF prime(2) lanes(2), of core "()"] lanes(1) by auto
  have "map (for_event hash) es = map Ok (map (event_key hash) es)"
    using lanes(2) mset_eq_setD [OF es(1)] keyed_for_event by auto
  then have "es = ordered"
    using order_events_ascending [OF assms(1) assms(5) [folded lanes_def] lanes(3) es(1)] es(2)
    unfolding ascending_def by blast
  moreover have "open_streams core factory (rp_bindings plan) f = Ok (map (map Ok) lanes)"
    using open_streams_deliver [OF assms(2,3)] by (simp add: lanes_def)
  ultimately show ?thesis
    using es(3) prime(1) assms(5)
    by (simp add: replay_frozen_multi_def replay_frozen_multi_with_def replay_def lanes_def)
qed

theorem frozen_multi_equals_rebuild_witness:
  "\<exists>plan ordered. rp_bindings plan \<noteq> [] \<and>
     order_events (sort_key po_key) sample_hash [sample_status_event, sample_uncross_event] = Ok ordered \<and>
     replay_frozen_multi sample_hash (\<lambda>b f. (Ok (map Ok [sample_status_event, sample_uncross_event]), f)) plan () sample_core =
     replay (sort_key po_key) sample_hash [sample_status_event, sample_uncross_event] sample_core"
proof -
  define es where "es = [sample_status_event, sample_uncross_event]"
  define b :: replay_stream_binding where "b =
    \<lparr>rb_descriptor_id = [], rb_instrument = (Twse, ''2330''), rb_trading_date = 20000,
     rb_source_revision_identity = [], rb_cache_identity = []\<rparr>"
  define plan where "plan = \<lparr>rp_upstream_plan_identity = [], rp_bindings = [b], rp_identity = []\<rparr>"
  have wf: "list_all wf_event es" using sample_status_event_wf sample_events_wf by (simp add: es_def)
  have prepared: "\<exists>p. prepared_order_event_new sample_hash e = Ok p \<and> ok_match_time (po_key p) = ev_match_time e"
    if "e \<in> set es" for e
  proof -
    have "wf_event e" using that wf by (simp add: list_all_iff)
    then obtain c where "to_canonical_bytes e = Ok c" using event.total [of e] by (auto simp: is_ok_iff)
    moreover have "source_phase_rank e = Ok 20"
      using that by (auto simp: es_def sample_status_event_def sample_uncross_event_def source_phase_rank_def realtime_phase_rank_def)
    ultimately show ?thesis
      by (simp add: prepared_order_event_new_def for_event_and_canonical_def for_event_with_fingerprint_def)
  qed
  obtain p q where pq: "prepared_order_event_new sample_hash sample_status_event = Ok p"
      "prepared_order_event_new sample_hash sample_uncross_event = Ok q"
      "ok_match_time (po_key p) = ev_match_time sample_status_event"
      "ok_match_time (po_key q) = ev_match_time sample_uncross_event"
    using prepared [of sample_status_event] prepared [of sample_uncross_event] by (auto simp: es_def)
  have less: "ok_match_time (po_key p) < ok_match_time (po_key q)"
    using pq(3,4) by (simp add: sample_status_event_def sample_uncross_event_def)
  have keys: "map (for_event sample_hash) es = map Ok [po_key p, po_key q]" "sorted [po_key p, po_key q]"
    using pq(1,2) less
    by (simp_all add: es_def prepared_new_Ok for_event_def less_eq_ordering_key_def key_fields_def less_eq_prod_simp)
  have ordered: "order_events (sort_key po_key) sample_hash es = Ok (map po_event (sort_key po_key [p, q]))"
    using pq less unfolding order_events_Ok [OF by_key.unstable_sort_axioms] es_def by auto
  have asc: "\<exists>keys. map (for_event sample_hash) es = map Ok keys \<and> sorted keys" using keys by blast
  have "check_binding sample_core b = Ok ()"
    by (simp add: check_binding_def sample_core_def bm_get_def b_def sample_state_def market_state_new_def)
  then have "\<forall>b \<in> set (rp_bindings plan). check_binding sample_core b = Ok ()" by (simp add: plan_def)
  moreover have one: "concat (map (\<lambda>b. es) (rp_bindings plan)) = es" by (simp add: plan_def)
  ultimately have "replay_frozen_multi sample_hash (\<lambda>b f. (Ok (map Ok es), f)) plan () sample_core =
      replay (sort_key po_key) sample_hash es sample_core"
    using frozen_multi_equals_rebuild [OF by_key.unstable_sort_axioms, of plan sample_core "\<lambda>b f. (Ok (map Ok es), f)"
        "\<lambda>b. es" sample_hash _ "()", unfolded one] wf asc ordered by blast
  then show ?thesis using ordered unfolding es_def by (intro exI [of _ plan]) (auto simp: plan_def)
qed

end
