(* ===== verification/SampleMarket.thy ===== *)
theory SampleMarket
  imports StrategyRun ReplayMerge
begin

text \<open>
  A small market for the concrete runs of the backtests: one instrument whose replay plan delivers two
  quotes, the committed core after each of them, and the summary of the replay.
\<close>

section \<open>The plan and its stream\<close>

text \<open>The plan is the one the constructor builds from its binding (\<open>sample_event_plan_new\<close>).\<close>

definition sample_binding :: replay_stream_binding where
  "sample_binding =
     \<lparr>rb_descriptor_id = replicate 32 1, rb_instrument = (Twse, ''2330''), rb_trading_date = 20000,
      rb_source_revision_identity = replicate 32 2, rb_cache_identity = replicate 32 3\<rparr>"

definition sample_event_plan :: replay_plan where
  "sample_event_plan =
     \<lparr>rp_upstream_plan_identity = replicate 32 4, rp_bindings = [sample_binding], rp_identity = replicate 32 0\<rparr>"

lemma sample_event_plan_new: "replay_plan_new sample_hash (replicate 32 4) [sample_binding] = Ok sample_event_plan"
  by (simp add: replay_plan_new_def build_single_def plan_single_canonical_def plan_prefix_def append_binding_def
      sample_binding_def sample_event_plan_def append_all.simps append_bytes_def append_length_def push_def in_u32_def sample_hash_def)

definition sample_market_book :: complete_book where
  "sample_market_book =
     \<lparr>cb_bids = \<lparr>bs_kind = Bid, bs_market_order_quantity = None,
        bs_slots = [Some \<lparr>bl_price = 99000000000000000000, bl_quantity = \<lparr>q_value = 5, q_unit = TradingUnit\<rparr>\<rparr>, None, None, None, None]\<rparr>,
      cb_asks = \<lparr>bs_kind = Ask, bs_market_order_quantity = None,
        bs_slots = [Some \<lparr>bl_price = 101000000000000000000, bl_quantity = \<lparr>q_value = 2, q_unit = TradingUnit\<rparr>\<rparr>, None, None, None, None]\<rparr>\<rparr>"

definition sample_quote :: "int \<Rightarrow> domain_event" where
  "sample_quote t =
     \<lparr>ev_instrument = (Twse, ''2330''), ev_trading_date = 20000, ev_source_format = ''STOCK_REALTIME'',
      ev_match_time = t, ev_source_sequence = None,
      ev_payload = PQuoteSnapshot \<lparr>qs_book = sample_market_book, qs_trade = NoObservation, qs_cumulative_volume = NoObservation,
        qs_annotations = AnnNone, qs_market_signal = Set SigContinuous\<rparr>\<rparr>"

abbreviation sample_open_time :: int where "sample_open_time \<equiv> 1728000000000000"

abbreviation sample_next_time :: int where "sample_next_time \<equiv> 1728000000005000"

definition sample_quotes :: "unit stream_factory" where
  "sample_quotes b f = (Ok [Ok (sample_quote sample_open_time), Ok (sample_quote sample_next_time)], f)"

lemma sample_market_book_wf: "wf_book sample_market_book"
proof -
  have "side_validate (cb_bids sample_market_book) = Ok ()" "side_validate (cb_asks sample_market_book) = Ok ()"
    by (simp_all add: sample_market_book_def side_validate_def side_levels_def BOOK_DEPTH_def)
  then have "valid_side (cb_bids sample_market_book)" "valid_side (cb_asks sample_market_book)" by (simp_all add: side_validate_spec)
  then show ?thesis
    by (auto simp: sample_market_book_def wf_book_def wf_side_def BOOK_DEPTH_def book_new_def side_quantity_unit_def side_levels_def
        wf_level_def wf_quantity_def range_defs)
qed

lemma sample_quote_wf: "wf_event (sample_quote sample_open_time)" "wf_event (sample_quote sample_next_time)"
  using sample_market_book_wf
  by (simp_all add: sample_quote_def wf_event_def wf_text_id_def utf8_valid_ascii range_defs
      is_utc_iso8601_representable_def MIN_SUPPORTED_UNIX_MICROSECONDS_def MAX_SUPPORTED_UNIX_MICROSECONDS_def
      MIN_EPOCH_DAYS_def MAX_EPOCH_DAYS_def constructors_valid validate_snapshot_units_def validate_optional_unit_def trade_unit_def
      volume_unit_def rbind_eq_Ok is_ok_iff)

lemma sample_market_book_bytes: obtains p where "append_book sample_market_book = Ok p" and "length p \<le> 100"
proof -
  have "\<exists>p. append_book sample_market_book = Ok p \<and> length p \<le> 100"
    by (simp add: sample_market_book_def append_book_def append_side_def append_all.simps append_level_def append_price_def append_quantity_def
        quantity_to_canonical_bytes_def decimal_to_canonical_bytes_def push_def)
  then show ?thesis using that by blast
qed

section \<open>The committed cores\<close>

definition sample_key :: "int \<Rightarrow> ordering_key" where
  "sample_key t = OrderingKey t (market_discriminant Twse) ''2330'' ''STOCK_REALTIME'' 20 (payload_discriminant (ev_payload (sample_quote t)))
     None (replicate 32 0)"

definition sample_ref :: "int \<Rightarrow> applied_event_ref" where
  "sample_ref t =
     \<lparr>ar_match_time = t, ar_source_format = ''STOCK_REALTIME'', ar_source_phase = 20, ar_event_kind = KQuoteSnapshot,
      ar_source_sequence = None, ar_fingerprint = replicate 32 0\<rparr>"

definition sample_quoted :: "int \<Rightarrow> nat \<Rightarrow> market_state" where
  "sample_quoted t n = (market_state_new (Twse, ''2330'') 20000)
     \<lparr>st_segment := Some ''open'', st_book := FieldKnown sample_market_book (sample_ref t), st_market_signal := FieldKnown SigContinuous (sample_ref t),
      st_phase := FieldKnown PhaseContinuous (sample_ref t), st_last_event := Some (sample_ref t), st_version := n\<rparr>"

definition sample_quote_occurrence :: "int \<Rightarrow> nat \<Rightarrow> event_occurrence" where
  "sample_quote_occurrence t n =
     \<lparr>eo_run_event_ordinal = n, eo_ordering_key = sample_key t, eo_event_fingerprint = replicate 32 0, eo_instrument_state_version = n\<rparr>"

lemma sample_quote_bytes:
  assumes "t = sample_open_time \<or> t = sample_next_time"
  obtains p where "to_canonical_bytes (sample_quote t) = Ok p" and "in_u32 (length p)"
proof (rule sample_market_book_bytes)
  fix p
  assume p: "append_book sample_market_book = Ok p" "length p \<le> 100"
  have "\<exists>q. to_canonical_bytes (sample_quote t) = Ok q \<and> in_u32 (length q)"
    using assms p by (auto simp: to_canonical_bytes_def sample_quote_def append_bytes_def append_length_def append_all.simps push_def
        append_market_signal_def in_u32_def CANONICAL_MAGIC_def append_optional_u64_def  is_utc_iso8601_representable_def
        MIN_SUPPORTED_UNIX_MICROSECONDS_def MAX_SUPPORTED_UNIX_MICROSECONDS_def)
  then show ?thesis using that by blast
qed

lemma sample_quote_key:
  assumes "t = sample_open_time \<or> t = sample_next_time"
  obtains p where "for_event_and_canonical sample_hash (sample_quote t) = Ok (sample_key t, p)" and "in_u32 (length p)"
    and "applied_event_ref_from_event sample_hash (sample_quote t) = Ok (sample_ref t)"
proof (rule sample_quote_bytes [OF assms])
  fix p
  assume p: "to_canonical_bytes (sample_quote t) = Ok p" "in_u32 (length p)"
  have "for_event_and_canonical sample_hash (sample_quote t) = Ok (sample_key t, p)"
    using p by (simp add: for_event_and_canonical_Ok for_event_with_fingerprint_def sample_key_def source_phase_rank_def realtime_phase_rank_def
        sample_hash_def sample_quote_def)
  moreover have "applied_event_ref_from_event sample_hash (sample_quote t) = Ok (sample_ref t)"
    using p by (simp add: applied_event_ref_from_event_def event_fingerprint_def sample_ref_def source_phase_for_event_def
        sample_hash_def sample_quote_def)
  ultimately show ?thesis using that p by blast
qed

lemma sample_quotes_applied:
  "\<exists>rc. apply_event sample_hash sample_profile sample_state (sample_quote sample_open_time) (sample_context ''open'' Carry) =
      (Ok rc, sample_quoted sample_open_time 1) \<and> tr_new_version rc = 1"
  "\<exists>rc. apply_event sample_hash sample_profile (sample_quoted sample_open_time 1) (sample_quote sample_next_time)
      (sample_context ''open'' Carry) = (Ok rc, sample_quoted sample_next_time 2) \<and> tr_new_version rc = 2"
proof -
  have ref: "applied_event_ref_from_event sample_hash (sample_quote sample_open_time) = Ok (sample_ref sample_open_time)"
      "applied_event_ref_from_event sample_hash (sample_quote sample_next_time) = Ok (sample_ref sample_next_time)"
    using sample_quote_key by metis+
  show "\<exists>rc. apply_event sample_hash sample_profile sample_state (sample_quote sample_open_time) (sample_context ''open'' Carry) =
      (Ok rc, sample_quoted sample_open_time 1) \<and> tr_new_version rc = 1"
    using ref unfolding sample_quote_def
    by (simp add: sample_run_simps sample_state_def market_state_new_def sample_quoted_def commit_def phase_field_def post_market_phase_def)
  show "\<exists>rc. apply_event sample_hash sample_profile (sample_quoted sample_open_time 1) (sample_quote sample_next_time)
      (sample_context ''open'' Carry) = (Ok rc, sample_quoted sample_next_time 2) \<and> tr_new_version rc = 2"
    using ref unfolding sample_quote_def
    by (simp add: sample_run_simps sample_state_def market_state_new_def sample_quoted_def commit_def phase_field_def post_market_phase_def sample_ref_def ref_key_def)
qed

definition sample_bytes :: "int \<Rightarrow> bytes" where
  "sample_bytes t = event_canonical sample_hash (sample_quote t)"

definition sample_core_1 :: replay_core where
  "sample_core_1 = commit_event sample_core (sample_quote sample_open_time) (sample_key sample_open_time)
     (sample_bytes sample_open_time, length (sample_bytes sample_open_time)) 1 (sample_quoted sample_open_time 1)"

definition sample_core_2 :: replay_core where
  "sample_core_2 = commit_event sample_core_1 (sample_quote sample_next_time) (sample_key sample_next_time)
     (sample_bytes sample_next_time, length (sample_bytes sample_next_time)) 2 (sample_quoted sample_next_time 2)"

lemma sample_quote_keyed:
  assumes "t = sample_open_time \<or> t = sample_next_time"
  shows "for_event_and_canonical sample_hash (sample_quote t) = Ok (sample_key t, sample_bytes t)"
    and "for_event sample_hash (sample_quote t) = Ok (sample_key t)"
    and "to_canonical_bytes (sample_quote t) = Ok (sample_bytes t)" and "in_u32 (length (sample_bytes t))"
proof -
  obtain p where p: "for_event_and_canonical sample_hash (sample_quote t) = Ok (sample_key t, p)" "in_u32 (length p)"
    by (rule sample_quote_key [OF assms])
  then have bytes: "sample_bytes t = p" by (simp add: sample_bytes_def event_canonical_def)
  show "for_event_and_canonical sample_hash (sample_quote t) = Ok (sample_key t, sample_bytes t)" "in_u32 (length (sample_bytes t))"
    using p bytes by simp_all
  show "for_event sample_hash (sample_quote t) = Ok (sample_key t)" "to_canonical_bytes (sample_quote t) = Ok (sample_bytes t)"
    using p bytes by (simp_all add: for_event_def for_event_and_canonical_Ok)
qed

lemma sample_key_increases: "sample_key sample_open_time \<le> sample_key sample_next_time"
  by (simp add: less_eq_ordering_key_def sample_key_def key_fields_def)

lemma sample_commits:
  "\<exists>cm. apply_prepared_ordered sample_hash sample_core (sample_quote sample_open_time) (sample_key sample_open_time) (sample_bytes sample_open_time) =
      (Ok cm, sample_core_1) \<and> cc_occurrence cm = sample_quote_occurrence sample_open_time 1"
  "\<exists>cm. apply_prepared_ordered sample_hash sample_core_1 (sample_quote sample_next_time) (sample_key sample_next_time) (sample_bytes sample_next_time) =
      (Ok cm, sample_core_2) \<and> cc_occurrence cm = sample_quote_occurrence sample_next_time 2"
proof -
  have inst: "ev_instrument (sample_quote t) = (Twse, ''2330'')" "ev_match_time (sample_quote t) = t" for t by (simp_all add: sample_quote_def)
  have fingerprint: "ok_event_fingerprint (sample_key t) = replicate 32 0" "ok_match_time (sample_key t) = t" for t by (simp_all add: sample_key_def)
  obtain rc where one: "apply_event sample_hash sample_profile sample_state (sample_quote sample_open_time) (sample_context ''open'' Carry) =
      (Ok rc, sample_quoted sample_open_time 1)" "tr_new_version rc = 1"
    using sample_quotes_applied(1) by blast
  have base: "transition_base sample_state (sample_quote sample_open_time) = sample_state"
    by (simp add: transition_base_def sample_state_def market_state_new_def sample_quote_def)
  have "prepare_transition sample_hash sample_core (sample_quote sample_open_time) (sample_key sample_open_time) (sample_bytes sample_open_time) =
      Ok ((sample_bytes sample_open_time, length (sample_bytes sample_open_time)), 1, rc, sample_quoted sample_open_time 1)"
    using one sample_quote_keyed(4) [of sample_open_time] base
    by (simp add: prepare_transition_def prepare_canonical_def validate_global_order_def inst sample_core_def bm_get_def context_for_event_def
        checked_u64_def in_u64_def)
  then show "\<exists>cm. apply_prepared_ordered sample_hash sample_core (sample_quote sample_open_time) (sample_key sample_open_time) (sample_bytes sample_open_time) =
      (Ok cm, sample_core_1) \<and> cc_occurrence cm = sample_quote_occurrence sample_open_time 1"
    using one by (simp add: apply_prepared_ordered_def sample_core_1_def sample_quote_occurrence_def fingerprint)
  obtain rc' where two: "apply_event sample_hash sample_profile (sample_quoted sample_open_time 1) (sample_quote sample_next_time) (sample_context ''open'' Carry) =
      (Ok rc', sample_quoted sample_next_time 2)" "tr_new_version rc' = 2"
    using sample_quotes_applied(2) by blast
  have base: "transition_base (sample_quoted sample_open_time 1) (sample_quote sample_next_time) = sample_quoted sample_open_time 1"
    by (simp add: transition_base_def sample_quoted_def market_state_new_def sample_quote_def)
  have "prepare_transition sample_hash sample_core_1 (sample_quote sample_next_time) (sample_key sample_next_time) (sample_bytes sample_next_time) =
      Ok ((sample_bytes sample_next_time, length (sample_bytes sample_next_time)), 2, rc', sample_quoted sample_next_time 2)"
    using two sample_quote_keyed(4) [of sample_next_time] base sample_key_increases
    by (simp add: prepare_transition_def prepare_canonical_def validate_global_order_def inst sample_core_1_def commit_event_def sample_core_def
        bm_get_def context_for_event_def checked_u64_def in_u64_def fingerprint sample_key_def)
  then show "\<exists>cm. apply_prepared_ordered sample_hash sample_core_1 (sample_quote sample_next_time) (sample_key sample_next_time) (sample_bytes sample_next_time) =
      (Ok cm, sample_core_2) \<and> cc_occurrence cm = sample_quote_occurrence sample_next_time 2"
    using two by (simp add: apply_prepared_ordered_def sample_core_2_def sample_quote_occurrence_def fingerprint)
qed

lemma sample_core_states:
  "co_states sample_core_1 = [((Twse, ''2330''), sample_quoted sample_open_time 1)]"
  "co_states sample_core_2 = [((Twse, ''2330''), sample_quoted sample_next_time 2)]"
  by (simp_all add: sample_core_2_def sample_core_1_def commit_event_def sample_core_def sample_quote_def)

lemma sample_replay_completes:
  "\<exists>replayed. complete_replay sample_hash sample_core_2 = Ok replayed \<and> su_event_count (snd replayed) = 2"
proof (rule sample_market_book_bytes)
  fix p
  assume p: "append_book sample_market_book = Ok p" "length p \<le> 100"
  have "is_ok (append_framed_state (sample_quoted sample_next_time 2))"
    using p by (simp add: sample_quoted_def append_framed_state_def state_to_canonical_bytes_def market_state_new_def sample_ref_def
        append_event_ref_def append_segment_def append_all.simps append_instrument_def append_bytes_def append_length_def push_def in_u32_def
        append_market_signal_def append_optional_u64_def)
  then have "is_ok (canonical_final_state_set [sample_quoted sample_next_time 2])" by (simp add: is_ok_final_state_set in_u32_def)
  then show ?thesis
    by (auto simp: is_ok_iff complete_replay_def final_state_checksum_def sample_core_states)
      (simp add: sample_core_2_def sample_core_1_def commit_event_def sample_core_def append_prepared_def hasher_new_def)
qed

end
