(* ===== verification/Simulator.thy ===== *)
theory Simulator
  imports Trading Ledger
begin

text \<open>
  The event-driven order simulator of \<open>crates/execution-sim/src/lib.rs\<close>: orders accepted from a
  strategy, filled against the best opposite level or the last trade of a later event, with slippage and
  latency, and cancelled at interruptions, segment ends and the end of a run. \<open>MultiSimulator\<close> keeps one
  simulator per instrument. Operations return the result and the simulator, so that what an error leaves
  behind is visible. The lemmas show that fills account for exactly what orders report as filled, respect
  limits, latency and causality, and are allocated first come, first served. BLAKE3 is the parameter
  \<open>hash\<close>.
\<close>

section \<open>Model\<close>

datatype evidence_mode = TopOfBook | TradePrint

datatype quantity_policy = Unlimited | Displayed

record fill_model =
  fm_evidence :: evidence_mode
  fm_quantity :: quantity_policy
  fm_adverse_price_delta :: decimal
  fm_market_data_latency_ms :: nat
  fm_order_latency_ms :: nat

datatype order_status = Pending | PartiallyFilled | Filled | Cancelled

record sim_order =
  so_id :: order_id
  so_intent :: order_intent
  so_origin_ordinal :: nat
  so_eligible_match_time :: int
  so_origin_segment_id :: session_segment_id
  so_acceptance_sequence :: nat
  so_filled :: nat
  so_status :: order_status

definition sim_remaining :: "sim_order \<Rightarrow> nat" where
  "sim_remaining ord = q_value (oi_quantity (so_intent ord)) - so_filled ord"

datatype simulation_error =
    SimCanonical canonical_encoding_error
  | SequenceOverflow
  | SimQuantityOverflow
  | InvalidQuantity
  | InvalidSlippage
  | LatencyOverflow
  | EmptyUniverse
  | DuplicateInstrument

record simulator =
  sm_universe :: "instrument_id set"
  sm_quantity_unit :: quantity_unit
  sm_model :: fill_model
  sm_price_policy :: price_policy
  sm_orders :: "sim_order list"
  sm_fills :: "fill_record list"
  sm_next_acceptance_sequence :: nat

definition simulator_new_with_price_policy ::
  "instrument_id list \<Rightarrow> quantity_unit \<Rightarrow> fill_model \<Rightarrow> price_policy \<Rightarrow> simulator" where
  "simulator_new_with_price_policy universe un model policy =
     \<lparr>sm_universe = set universe, sm_quantity_unit = un, sm_model = model, sm_price_policy = policy,
      sm_orders = [], sm_fills = [], sm_next_acceptance_sequence = 1\<rparr>"

definition simulator_new :: "instrument_id list \<Rightarrow> quantity_unit \<Rightarrow> fill_model \<Rightarrow> simulator" where
  "simulator_new universe un model = simulator_new_with_price_policy universe un model PositiveOnly"

definition entry_allowed :: "new_order_entry \<Rightarrow> order_type \<Rightarrow> bool" where
  "entry_allowed entry ot \<longleftrightarrow>
     (case entry of
        Allowed \<Rightarrow> True
      | Restricted reason \<Rightarrow> (case ot of Limit limit_price \<Rightarrow> True | Market \<Rightarrow> False)
      | Blocked reason \<Rightarrow> False
      | EntryUnknown \<Rightarrow> False)"

definition limit_touched :: "order_intent \<Rightarrow> price \<Rightarrow> bool" where
  "limit_touched intent p \<longleftrightarrow>
     (case oi_order_type intent of
        Market \<Rightarrow> True
      | Limit limit_price \<Rightarrow> (case oi_side intent of Buy \<Rightarrow> p \<le> limit_price | Sell \<Rightarrow> p \<ge> limit_price))"

definition apply_slippage ::
  "price \<Rightarrow> order_side \<Rightarrow> fill_model \<Rightarrow> price_policy \<Rightarrow> (price, simulation_error) result" where
  "apply_slippage p side model policy =
     (if fm_adverse_price_delta model < 0 then Err InvalidSlippage
      else rbind (map_err (\<lambda>_. InvalidSlippage)
                    (case side of
                       Buy \<Rightarrow> decimal_checked_add p (fm_adverse_price_delta model)
                     | Sell \<Rightarrow> decimal_checked_sub p (fm_adverse_price_delta model))) (\<lambda>adjusted.
             if \<not> policy_accepts policy adjusted then Err InvalidSlippage else Ok adjusted))"

definition add_latency :: "int \<Rightarrow> nat \<Rightarrow> nat \<Rightarrow> (int, simulation_error) result" where
  "add_latency match_time market_data_latency_ms order_latency_ms =
     rbind (ok_or (checked_u64 (market_data_latency_ms + order_latency_ms)) LatencyOverflow) (\<lambda>total.
     rbind (ok_or (Option.bind (checked_u64 (total * 1000)) (\<lambda>v. checked_i64 (int v))) LatencyOverflow) (\<lambda>micros.
       ok_or (checked_i64 (match_time + micros)) LatencyOverflow))"

definition order_is_eligible :: "nat \<Rightarrow> int \<Rightarrow> nat \<Rightarrow> int \<Rightarrow> bool" where
  "order_is_eligible origin_ordinal eligible_match_time current_ordinal current_match_time \<longleftrightarrow>
     origin_ordinal < current_ordinal \<and> eligible_match_time \<le> current_match_time"

text \<open>The evidence an event gives for one side: a price and the quantity displayed or traded at it.\<close>

type_synonym fill_evidence = "price \<times> quantity"

definition top_of_book :: "complete_book \<Rightarrow> order_side \<Rightarrow> fill_evidence option" where
  "top_of_book book side =
     map_option (\<lambda>l. (bl_price l, bl_quantity l))
       (first_level (case side of Buy \<Rightarrow> cb_asks book | Sell \<Rightarrow> cb_bids book))"

definition evidence :: "domain_event \<Rightarrow> evidence_mode \<Rightarrow> order_side \<Rightarrow> fill_evidence option" where
  "evidence e mode side =
     (case (mode, ev_payload e) of
        (TopOfBook, PQuoteSnapshot s) \<Rightarrow> top_of_book (qs_book s) side
      | (TopOfBook, PBookSnapshot s) \<Rightarrow> top_of_book (bk_book s) side
      | (TradePrint, PQuoteSnapshot s) \<Rightarrow>
          map_option (\<lambda>t. (ot_price t, ot_quantity t)) (as_set (qs_trade s))
      | (TradePrint, PTradeBatch b) \<Rightarrow>
          (case tb_trades b of [] \<Rightarrow> None | t # ts \<Rightarrow> Some (ot_price t, ot_quantity t))
      | _ \<Rightarrow> None)"

subsection \<open>Submission\<close>

definition order_identity_bytes ::
  "string \<Rightarrow> event_occurrence \<Rightarrow> nat \<Rightarrow> bytes \<Rightarrow> bytes" where
  "order_identity_bytes strategy_id occ output_sequence canonical =
     as_bytes ''OSOR'' @ as_bytes strategy_id @ eo_event_fingerprint occ @ be_bytes 8 (eo_run_event_ordinal occ) @
     be_bytes 4 output_sequence @ canonical"

definition simulator_submit ::
  "(bytes \<Rightarrow> bytes) \<Rightarrow> simulator \<Rightarrow> string \<Rightarrow> event_occurrence \<Rightarrow> trading_context \<Rightarrow> nat \<Rightarrow> order_intent \<Rightarrow>
   (order_feedback, simulation_error) result \<times> simulator" where
  "simulator_submit hash s strategy_id occ trading output_sequence intent =
     (if oi_instrument intent \<notin> sm_universe s then (Ok (Rejected InstrumentOutsideUniverseRejection), s)
      else if q_unit (oi_quantity intent) \<noteq> sm_quantity_unit s then (Ok (Rejected QuantityUnitMismatchRejection), s)
      else if (case oi_order_type intent of
                 Limit limit_price \<Rightarrow> \<not> policy_accepts (sm_price_policy s) limit_price | Market \<Rightarrow> False)
      then (Ok (Rejected PriceNotAllowedByInstrumentProfile), s)
      else if \<not> entry_allowed (tc_new_order_entry trading) (oi_order_type intent)
      then (Ok (Rejected NewOrderEntryBlockedRejection), s)
      else case intent_to_canonical_bytes intent of
        Err err \<Rightarrow> (Err (SimCanonical err), s)
      | Ok canonical \<Rightarrow>
          let oid = hash (order_identity_bytes strategy_id occ output_sequence canonical) in
          case add_latency (ok_match_time (eo_ordering_key occ)) (fm_market_data_latency_ms (sm_model s))
                 (fm_order_latency_ms (sm_model s)) of
            Err err \<Rightarrow> (Err err, s)
          | Ok eligible \<Rightarrow>
              let sequence = sm_next_acceptance_sequence s in
              case checked_u64 (sequence + 1) of
                None \<Rightarrow> (Err SequenceOverflow, s)
              | Some next_sequence \<Rightarrow>
                  (Ok (Accepted oid),
                   s\<lparr>sm_next_acceptance_sequence := next_sequence,
                     sm_orders := sm_orders s @
                       [\<lparr>so_id = oid, so_intent = intent, so_origin_ordinal = eo_run_event_ordinal occ,
                         so_eligible_match_time = eligible,
                         so_origin_segment_id = sc_segment_id (tc_session trading),
                         so_acceptance_sequence = sequence, so_filled = 0, so_status = Pending\<rparr>]\<rparr>))"

subsection \<open>Cancellation\<close>

definition is_live :: "sim_order \<Rightarrow> bool" where
  "is_live ord \<longleftrightarrow> so_status ord = Pending \<or> so_status ord = PartiallyFilled"

definition cancel_orders ::
  "(sim_order \<Rightarrow> bool) \<Rightarrow> cancellation_reason \<Rightarrow> simulator \<Rightarrow> order_feedback list \<times> simulator" where
  "cancel_orders selected reason s =
     (map (\<lambda>ord. CancelledFeedback (so_id ord) reason) (filter selected (sm_orders s)),
      s\<lparr>sm_orders := map (\<lambda>ord. if selected ord then ord\<lparr>so_status := Cancelled\<rparr> else ord) (sm_orders s)\<rparr>)"

definition cancel_pending_market_orders :: "simulator \<Rightarrow> instrument_id \<Rightarrow> order_feedback list \<times> simulator" where
  "cancel_pending_market_orders s instrument =
     cancel_orders (\<lambda>ord. oi_instrument (so_intent ord) = instrument \<and> oi_order_type (so_intent ord) = Market \<and> is_live ord)
       VolatilityInterruptionCancel s"

definition cancel_end_of_run :: "simulator \<Rightarrow> order_feedback list \<times> simulator" where
  "cancel_end_of_run s = cancel_orders is_live EndOfRun s"

definition cancel_segment_end :: "simulator \<Rightarrow> session_segment_id \<Rightarrow> order_feedback list \<times> simulator" where
  "cancel_segment_end s segment =
     cancel_orders (\<lambda>ord. so_origin_segment_id ord = segment \<and> is_live ord) SegmentEnd s"

subsection \<open>Evaluation of an event\<close>

type_synonym availability = "order_side \<Rightarrow> fill_evidence option"

definition fill_order ::
  "fill_model \<Rightarrow> domain_event \<Rightarrow> nat \<Rightarrow> availability \<Rightarrow> price \<Rightarrow> quantity \<Rightarrow> price \<Rightarrow> sim_order \<Rightarrow>
   sim_order \<times> fill_record list \<times> availability \<times> (order_feedback list, simulation_error) result" where
  "fill_order model e ordinal available p displayed fill_price ord =
     (let side = oi_side (so_intent ord);
          remaining = sim_remaining ord;
          fill_value = (case fm_quantity model of Unlimited \<Rightarrow> remaining | Displayed \<Rightarrow> min remaining (q_value displayed))
      in if fill_value = 0 then (ord, [], available, Ok [])
         else case quantity_new fill_value (q_unit displayed) of
           Err err \<Rightarrow> (ord, [], available, Err InvalidQuantity)
         | Ok quantity \<Rightarrow>
             (case checked_u64 (so_filled ord + fill_value) of
                None \<Rightarrow> (ord, [], available, Err SimQuantityOverflow)
              | Some filled \<Rightarrow>
                  let counted = ord\<lparr>so_filled := filled\<rparr>;
                      completed = (sim_remaining counted = 0);
                      ord' = counted\<lparr>so_status := (if completed then Filled else PartiallyFilled)\<rparr>;
                      fills = [fill_from_market_event (so_id ord) ordinal (ev_match_time e) side fill_price quantity];
                      left = (case quantity_new (q_value displayed - fill_value) (q_unit displayed) of
                                Ok q \<Rightarrow> Some (p, q) | Err err \<Rightarrow> None)
                  in case (if completed then Ok (FilledFeedback (so_id ord) quantity)
                           else rbind (map_err (\<lambda>_. InvalidQuantity) (quantity_new (sim_remaining ord') (q_unit quantity)))
                                  (\<lambda>rest. Ok (PartiallyFilledFeedback (so_id ord) quantity rest))) of
                       Err err \<Rightarrow> (ord', fills, available, Err err)
                     | Ok feedback \<Rightarrow>
                         (ord', fills,
                          (if fm_quantity model = Displayed then available(side := left) else available),
                          Ok [feedback])))"

definition evaluate_order ::
  "fill_model \<Rightarrow> price_policy \<Rightarrow> domain_event \<Rightarrow> nat \<Rightarrow> availability \<Rightarrow> sim_order \<Rightarrow>
   sim_order \<times> fill_record list \<times> availability \<times> (order_feedback list, simulation_error) result" where
  "evaluate_order model policy e ordinal available ord =
     (let intent = so_intent ord in
      if \<not> is_live ord \<or>
         \<not> order_is_eligible (so_origin_ordinal ord) (so_eligible_match_time ord) ordinal (ev_match_time e) \<or>
         ev_instrument e \<noteq> oi_instrument intent
      then (ord, [], available, Ok [])
      else case available (oi_side intent) of
        None \<Rightarrow> (ord, [], available, Ok [])
      | Some (p, displayed) \<Rightarrow>
          if q_unit displayed \<noteq> q_unit (oi_quantity intent) then (ord, [], available, Ok [])
          else if \<not> limit_touched intent p then (ord, [], available, Ok [])
          else case apply_slippage p (oi_side intent) model policy of
            Err err \<Rightarrow> (ord, [], available, Err err)
          | Ok fill_price \<Rightarrow>
              if \<not> limit_touched intent fill_price then (ord, [], available, Ok [])
              else fill_order model e ordinal available p displayed fill_price ord)"

fun evaluate_orders ::
  "fill_model \<Rightarrow> price_policy \<Rightarrow> domain_event \<Rightarrow> nat \<Rightarrow> availability \<Rightarrow> sim_order list \<Rightarrow>
   sim_order list \<times> fill_record list \<times> (order_feedback list, simulation_error) result" where
  "evaluate_orders model policy e ordinal available [] = ([], [], Ok [])"
| "evaluate_orders model policy e ordinal available (ord # ords) =
     (case evaluate_order model policy e ordinal available ord of
        (ord', fills, available', Err err) \<Rightarrow> (ord' # ords, fills, Err err)
      | (ord', fills, available', Ok feedback) \<Rightarrow>
          (case evaluate_orders model policy e ordinal available' ords of
             (ords', fills', rest) \<Rightarrow> (ord' # ords', fills @ fills', rbind rest (\<lambda>fb. Ok (feedback @ fb)))))"

definition accepted_evidence :: "simulator \<Rightarrow> domain_event \<Rightarrow> availability" where
  "accepted_evidence s e side =
     (case evidence e (fm_evidence (sm_model s)) side of
        None \<Rightarrow> None
      | Some (p, q) \<Rightarrow> if policy_accepts (sm_price_policy s) p then Some (p, q) else None)"

definition simulator_evaluate ::
  "simulator \<Rightarrow> domain_event \<Rightarrow> event_occurrence \<Rightarrow> trading_context \<Rightarrow>
   (order_feedback list, simulation_error) result \<times> simulator" where
  "simulator_evaluate s e occ trading =
     (if (case tc_market_signal trading of
            Some (AuctionCollecting ob) \<Rightarrow> ao_purpose ob = EvKnown VolatilityInterruption | _ \<Rightarrow> False)
      then (case cancel_pending_market_orders s (ev_instrument e) of (feedback, s') \<Rightarrow> (Ok feedback, s'))
      else if (case tc_matching trading of Enabled method \<Rightarrow> False | _ \<Rightarrow> True) then (Ok [], s)
      else if (case tc_new_order_entry trading of Blocked reason \<Rightarrow> True | EntryUnknown \<Rightarrow> True | _ \<Rightarrow> False)
      then (Ok [], s)
      else case evaluate_orders (sm_model s) (sm_price_policy s) e (eo_run_event_ordinal occ) (accepted_evidence s e)
                  (sort_key (\<lambda>ord. (so_acceptance_sequence ord, so_id ord)) (sm_orders s)) of
        (ords, fills, r) \<Rightarrow> (r, s\<lparr>sm_orders := ords, sm_fills := sm_fills s @ fills\<rparr>))"

subsection \<open>One simulator per instrument\<close>

type_synonym multi_simulator = "(instrument_id, simulator) bmap"

definition insert_simulator ::
  "multi_simulator \<Rightarrow> instrument_id \<times> quantity_unit \<times> fill_model \<times> price_policy \<Rightarrow>
   (multi_simulator, simulation_error) result" where
  "insert_simulator sims config =
     (case config of (instrument, un, model, policy) \<Rightarrow>
        if bm_get sims instrument \<noteq> None then Err DuplicateInstrument
        else Ok (bm_insert instrument (simulator_new_with_price_policy [instrument] un model policy) sims))"

definition multi_simulator_new ::
  "(instrument_id \<times> quantity_unit \<times> fill_model \<times> price_policy) list \<Rightarrow> (multi_simulator, simulation_error) result" where
  "multi_simulator_new configs =
     rbind (rfold insert_simulator [] configs) (\<lambda>sims. if sims = [] then Err EmptyUniverse else Ok sims)"

definition multi_submit ::
  "(bytes \<Rightarrow> bytes) \<Rightarrow> multi_simulator \<Rightarrow> string \<Rightarrow> event_occurrence \<Rightarrow> trading_context \<Rightarrow> nat \<Rightarrow> order_intent \<Rightarrow>
   (order_feedback, simulation_error) result \<times> multi_simulator" where
  "multi_submit hash sims strategy_id occ trading output_sequence intent =
     (case bm_get sims (oi_instrument intent) of
        None \<Rightarrow> (Ok (Rejected InstrumentOutsideUniverseRejection), sims)
      | Some s \<Rightarrow>
          (case simulator_submit hash s strategy_id occ trading output_sequence intent of
             (r, s') \<Rightarrow> (r, bm_insert (oi_instrument intent) s' sims)))"

definition multi_evaluate ::
  "multi_simulator \<Rightarrow> domain_event \<Rightarrow> event_occurrence \<Rightarrow> trading_context \<Rightarrow>
   (order_feedback list, simulation_error) result \<times> multi_simulator" where
  "multi_evaluate sims e occ trading =
     (case bm_get sims (ev_instrument e) of
        None \<Rightarrow> (Ok [], sims)
      | Some s \<Rightarrow>
          (case simulator_evaluate s e occ trading of (r, s') \<Rightarrow> (r, bm_insert (ev_instrument e) s' sims)))"

definition multi_cancel_all ::
  "(simulator \<Rightarrow> order_feedback list \<times> simulator) \<Rightarrow> multi_simulator \<Rightarrow> order_feedback list \<times> multi_simulator" where
  "multi_cancel_all cancel sims =
     (concat (map (\<lambda>(i, s). fst (cancel s)) sims), map (\<lambda>(i, s). (i, snd (cancel s))) sims)"

definition multi_cancel_one ::
  "(simulator \<Rightarrow> order_feedback list \<times> simulator) \<Rightarrow> multi_simulator \<Rightarrow> instrument_id \<Rightarrow>
   order_feedback list \<times> multi_simulator" where
  "multi_cancel_one cancel sims instrument =
     (case bm_get sims instrument of
        None \<Rightarrow> ([], sims)
      | Some s \<Rightarrow> (case cancel s of (feedback, s') \<Rightarrow> (feedback, bm_insert instrument s' sims)))"

definition multi_cancel_segment_end ::
  "multi_simulator \<Rightarrow> session_segment_id \<Rightarrow> order_feedback list \<times> multi_simulator" where
  "multi_cancel_segment_end sims segment = multi_cancel_all (\<lambda>s. cancel_segment_end s segment) sims"

definition multi_cancel_segment_end_for ::
  "multi_simulator \<Rightarrow> instrument_id \<Rightarrow> session_segment_id \<Rightarrow> order_feedback list \<times> multi_simulator" where
  "multi_cancel_segment_end_for sims instrument segment =
     multi_cancel_one (\<lambda>s. cancel_segment_end s segment) sims instrument"

definition multi_cancel_end_of_run :: "multi_simulator \<Rightarrow> order_feedback list \<times> multi_simulator" where
  "multi_cancel_end_of_run sims = multi_cancel_all cancel_end_of_run sims"

definition multi_cancel_end_of_run_for ::
  "multi_simulator \<Rightarrow> instrument_id \<Rightarrow> order_feedback list \<times> multi_simulator" where
  "multi_cancel_end_of_run_for sims instrument = multi_cancel_one cancel_end_of_run sims instrument"

definition multi_fills_for :: "multi_simulator \<Rightarrow> instrument_id \<Rightarrow> fill_record list option" where
  "multi_fills_for sims instrument = map_option sm_fills (bm_get sims instrument)"

definition multi_orders_for :: "multi_simulator \<Rightarrow> instrument_id \<Rightarrow> sim_order list option" where
  "multi_orders_for sims instrument = map_option sm_orders (bm_get sims instrument)"

definition multi_orders :: "multi_simulator \<Rightarrow> sim_order list" where
  "multi_orders sims = concat (map sm_orders (bm_values sims))"

definition multi_fills :: "multi_simulator \<Rightarrow> fill_record list" where
  "multi_fills sims = concat (map sm_fills (bm_values sims))"

definition multi_order_count :: "multi_simulator \<Rightarrow> nat" where
  "multi_order_count sims = sum_list (map (\<lambda>s. length (sm_orders s)) (bm_values sims))"

definition multi_fill_count :: "multi_simulator \<Rightarrow> nat" where
  "multi_fill_count sims = sum_list (map (\<lambda>s. length (sm_fills s)) (bm_values sims))"

section \<open>What an order may become\<close>

definition order_ok :: "sim_order \<Rightarrow> bool" where
  "order_ok ord \<longleftrightarrow>
     wf_quantity (oi_quantity (so_intent ord)) \<and> so_filled ord \<le> q_value (oi_quantity (so_intent ord)) \<and>
     (case so_status ord of
        Pending \<Rightarrow> so_filled ord = 0
      | PartiallyFilled \<Rightarrow> 0 < so_filled ord \<and> so_filled ord < q_value (oi_quantity (so_intent ord))
      | Filled \<Rightarrow> so_filled ord = q_value (oi_quantity (so_intent ord))
      | Cancelled \<Rightarrow> so_filled ord < q_value (oi_quantity (so_intent ord)))"

text \<open>An operation changes only what is filled and the status.\<close>

definition same_order :: "sim_order \<Rightarrow> sim_order \<Rightarrow> bool" where
  "same_order ord ord' \<longleftrightarrow> ord' = ord\<lparr>so_filled := so_filled ord', so_status := so_status ord'\<rparr>"

lemma same_order_fields:
  assumes "same_order ord ord'"
  shows "so_id ord' = so_id ord" "so_intent ord' = so_intent ord" "so_origin_ordinal ord' = so_origin_ordinal ord"
    "so_eligible_match_time ord' = so_eligible_match_time ord" "so_acceptance_sequence ord' = so_acceptance_sequence ord"
    "so_origin_segment_id ord' = so_origin_segment_id ord"
  using assms by (cases ord; cases ord'; simp add: same_order_def)+

lemma same_order_refl [simp]: "same_order ord ord"
  by (simp add: same_order_def)

text \<open>What makes a fill legitimate for an order.\<close>

definition fill_ok :: "price_policy \<Rightarrow> sim_order \<Rightarrow> fill_record \<Rightarrow> bool" where
  "fill_ok policy ord f \<longleftrightarrow>
     fr_order_id f = so_id ord \<and> fr_side f = oi_side (so_intent ord) \<and>
     (\<exists>n. fr_trigger f = MarketEvent n \<and> so_origin_ordinal ord < n) \<and>
     so_eligible_match_time ord \<le> fr_match_time f \<and> limit_touched (so_intent ord) (fr_price f) \<and>
     policy_accepts policy (fr_price f) \<and> wf_quantity (fr_quantity f) \<and>
     q_unit (fr_quantity f) = q_unit (oi_quantity (so_intent ord))"

lemma fill_ok_same: "same_order ord ord' \<Longrightarrow> fill_ok policy ord' f \<longleftrightarrow> fill_ok policy ord f"
  by (simp add: fill_ok_def same_order_fields)

text \<open>Whether an order may trade at a price of the event, and what it then pays.\<close>

definition fillable ::
  "fill_model \<Rightarrow> price_policy \<Rightarrow> domain_event \<Rightarrow> nat \<Rightarrow> price \<Rightarrow> quantity_unit \<Rightarrow> sim_order \<Rightarrow> bool" where
  "fillable model policy e ordinal p un ord \<longleftrightarrow>
     is_live ord \<and> order_is_eligible (so_origin_ordinal ord) (so_eligible_match_time ord) ordinal (ev_match_time e) \<and>
     ev_instrument e = oi_instrument (so_intent ord) \<and> un = q_unit (oi_quantity (so_intent ord)) \<and>
     limit_touched (so_intent ord) p \<and>
     (\<exists>fp. apply_slippage p (oi_side (so_intent ord)) model policy = Ok fp \<and> limit_touched (so_intent ord) fp)"

definition granted :: "fill_model \<Rightarrow> quantity \<Rightarrow> nat \<Rightarrow> nat" where
  "granted model displayed wanted =
     (case fm_quantity model of Unlimited \<Rightarrow> wanted | Displayed \<Rightarrow> min wanted (q_value displayed))"

definition taken_from :: "fill_model \<Rightarrow> price \<Rightarrow> quantity \<Rightarrow> nat \<Rightarrow> fill_evidence option" where
  "taken_from model p displayed v =
     (case fm_quantity model of
        Unlimited \<Rightarrow> Some (p, displayed)
      | Displayed \<Rightarrow> if q_value displayed \<le> v then None
                     else Some (p, \<lparr>q_value = q_value displayed - v, q_unit = q_unit displayed\<rparr>))"

lemma apply_slippage_accepts: "apply_slippage p side model policy = Ok fp \<Longrightarrow> policy_accepts policy fp"
  by (auto simp: apply_slippage_def split: if_splits)

lemma order_ok_remaining:
  assumes "order_ok ord" "is_live ord"
  shows "0 < sim_remaining ord" and "so_filled ord + sim_remaining ord = q_value (oi_quantity (so_intent ord))"
    and "in_u64 (q_value (oi_quantity (so_intent ord)))"
  using assms by (auto simp: order_ok_def is_live_def sim_remaining_def wf_quantity_def split: order_status.splits)

lemma order_ok_filled:
  assumes "order_ok ord"
  shows "so_filled ord \<le> q_value (oi_quantity (so_intent ord))"
    and "so_status ord = Filled \<longleftrightarrow> so_filled ord = q_value (oi_quantity (so_intent ord))"
  using assms by (cases "so_status ord"; auto simp: order_ok_def wf_quantity_def)+

lemma fill_order_eq:
  assumes ok: "order_ok ord" and live: "is_live ord"
    and v: "v = granted model displayed (sim_remaining ord)" "0 < v"
    and avail: "available (oi_side (so_intent ord)) = Some (p, displayed)"
  defines "ord' \<equiv> ord\<lparr>so_filled := so_filled ord + v, so_status := (if v = sim_remaining ord then Filled else PartiallyFilled)\<rparr>"
  obtains feedback where "fill_order model e ordinal available p displayed fp ord =
      (ord', [fill_from_market_event (so_id ord) ordinal (ev_match_time e) (oi_side (so_intent ord)) fp
                \<lparr>q_value = v, q_unit = q_unit displayed\<rparr>],
       available(oi_side (so_intent ord) := taken_from model p displayed v), Ok [feedback])"
    and "order_ok ord'" and "same_order ord ord'"
proof -
  note rem = order_ok_remaining [OF ok live]
  have le: "v \<le> sim_remaining ord" using v by (simp add: granted_def split: quantity_policy.splits)
  have cu: "checked_u64 (so_filled ord + v) = Some (so_filled ord + v)"
    using rem le by (simp add: checked_u64_def in_u64_def)
  have left: "sim_remaining (ord\<lparr>so_filled := so_filled ord + v\<rparr>) = sim_remaining ord - v"
    by (simp add: sim_remaining_def)
  have done_iff: "sim_remaining ord - v = 0 \<longleftrightarrow> v = sim_remaining ord" using le by auto
  have ok': "order_ok ord'"
    using ok rem le v(2) unfolding ord'_def order_ok_def by auto
  have same: "same_order ord ord'" by (simp add: ord'_def same_order_def)
  have fv: "(case fm_quantity model of Unlimited \<Rightarrow> sim_remaining ord | Displayed \<Rightarrow> min (sim_remaining ord) (q_value displayed)) = v"
    using v(1) by (simp add: granted_def)
  have upd: "(if fm_quantity model = Displayed
       then available(oi_side (so_intent ord) :=
              case quantity_new (q_value displayed - v) (q_unit displayed) of Ok q \<Rightarrow> Some (p, q) | Err err \<Rightarrow> None)
       else available) = available(oi_side (so_intent ord) := taken_from model p displayed v)"
    using avail by (auto simp: taken_from_def quantity_new_def fun_eq_iff split: quantity_policy.splits)
  have rem': "sim_remaining (ord\<lparr>so_filled := so_filled ord + v, so_status := st\<rparr>) = sim_remaining ord - v" for st
    by (simp add: sim_remaining_def)
  have all: "sim_remaining (ord\<lparr>so_filled := so_filled ord + sim_remaining ord\<rparr>) = 0"
    by (simp add: sim_remaining_def)
  show ?thesis
  proof (rule that [OF _ ok' same])
    show "fill_order model e ordinal available p displayed fp ord =
      (ord', [fill_from_market_event (so_id ord) ordinal (ev_match_time e) (oi_side (so_intent ord)) fp
                \<lparr>q_value = v, q_unit = q_unit displayed\<rparr>],
       available(oi_side (so_intent ord) := taken_from model p displayed v),
       Ok [if v = sim_remaining ord then FilledFeedback (so_id ord) \<lparr>q_value = v, q_unit = q_unit displayed\<rparr>
           else PartiallyFilledFeedback (so_id ord) \<lparr>q_value = v, q_unit = q_unit displayed\<rparr>
                  \<lparr>q_value = sim_remaining ord - v, q_unit = q_unit displayed\<rparr>])"
      using v(2) le done_iff unfolding fill_order_def Let_def fv upd [symmetric] ord'_def
      by (auto simp: quantity_new_def cu left rem' all)
  qed
qed

text \<open>An evaluated order is left alone, fails, or is filled with what the evidence grants.\<close>

lemma evaluate_order_cases:
  assumes ok: "order_ok ord"
  obtains (skip) "evaluate_order model policy e ordinal available ord = (ord, [], available, Ok [])"
      "\<And>p displayed. available (oi_side (so_intent ord)) = Some (p, displayed) \<Longrightarrow>
         \<not> (fillable model policy e ordinal p (q_unit displayed) ord \<and> 0 < granted model displayed (sim_remaining ord))"
  | (fail) err where "evaluate_order model policy e ordinal available ord = (ord, [], available, Err err)"
  | (fill) p displayed fp feedback ord' v where
      "available (oi_side (so_intent ord)) = Some (p, displayed)"
      "fillable model policy e ordinal p (q_unit displayed) ord"
      "v = granted model displayed (sim_remaining ord)" "0 < v"
      "ord' = ord\<lparr>so_filled := so_filled ord + v, so_status := (if v = sim_remaining ord then Filled else PartiallyFilled)\<rparr>"
      "order_ok ord'" "same_order ord ord'" "limit_touched (so_intent ord) fp" "policy_accepts policy fp"
      "evaluate_order model policy e ordinal available ord =
        (ord', [fill_from_market_event (so_id ord) ordinal (ev_match_time e) (oi_side (so_intent ord)) fp
                  \<lparr>q_value = v, q_unit = q_unit displayed\<rparr>],
         available(oi_side (so_intent ord) := taken_from model p displayed v), Ok [feedback])"
proof (cases "\<exists>p displayed. available (oi_side (so_intent ord)) = Some (p, displayed) \<and>
    fillable model policy e ordinal p (q_unit displayed) ord")
  case True
  then obtain p displayed fp where a: "available (oi_side (so_intent ord)) = Some (p, displayed)"
      and f: "fillable model policy e ordinal p (q_unit displayed) ord"
      and fp: "apply_slippage p (oi_side (so_intent ord)) model policy = Ok fp" "limit_touched (so_intent ord) fp"
    by (auto simp: fillable_def)
  have eval: "evaluate_order model policy e ordinal available ord =
      fill_order model e ordinal available p displayed fp ord"
    using a f fp by (simp add: evaluate_order_def fillable_def Let_def)
  have live: "is_live ord" using f by (simp add: fillable_def)
  show ?thesis
  proof (cases "granted model displayed (sim_remaining ord) = 0")
    case True
    have "fill_order model e ordinal available p displayed fp ord = (ord, [], available, Ok [])"
      using True unfolding fill_order_def granted_def Let_def by (simp split: quantity_policy.splits)
    then show ?thesis using skip eval a True by simp
  next
    case False
    then have pos: "0 < granted model displayed (sim_remaining ord)" by simp
    show ?thesis
    proof (rule fill_order_eq [where model = model and displayed = displayed and p = p and fp = fp and e = e and
          ordinal = ordinal and available = available, OF ok live refl pos a])
      fix feedback
      assume eq: "fill_order model e ordinal available p displayed fp ord =
        (ord\<lparr>so_filled := so_filled ord + granted model displayed (sim_remaining ord),
              so_status := (if granted model displayed (sim_remaining ord) = sim_remaining ord then Filled else PartiallyFilled)\<rparr>,
         [fill_from_market_event (so_id ord) ordinal (ev_match_time e) (oi_side (so_intent ord)) fp
            \<lparr>q_value = granted model displayed (sim_remaining ord), q_unit = q_unit displayed\<rparr>],
         available(oi_side (so_intent ord) := taken_from model p displayed (granted model displayed (sim_remaining ord))),
         Ok [feedback])"
        and kept: "order_ok (ord\<lparr>so_filled := so_filled ord + granted model displayed (sim_remaining ord),
            so_status := (if granted model displayed (sim_remaining ord) = sim_remaining ord then Filled else PartiallyFilled)\<rparr>)"
          "same_order ord (ord\<lparr>so_filled := so_filled ord + granted model displayed (sim_remaining ord),
            so_status := (if granted model displayed (sim_remaining ord) = sim_remaining ord then Filled else PartiallyFilled)\<rparr>)"
      show ?thesis
        using fill [OF a f refl pos refl kept fp(2) apply_slippage_accepts [OF fp(1)]] eq unfolding eval by blast
    qed
  qed
next
  case False
  show ?thesis
  proof (cases "\<exists>err. evaluate_order model policy e ordinal available ord = (ord, [], available, Err err)")
    case True
    then show ?thesis using fail by blast
  next
    case no_error: False
    have "evaluate_order model policy e ordinal available ord = (ord, [], available, Ok [])"
    proof (cases "available (oi_side (so_intent ord))")
      case None
      then show ?thesis by (simp add: evaluate_order_def Let_def)
    next
      case (Some pd)
      then show ?thesis using False no_error
        by (cases pd) (auto simp: evaluate_order_def fillable_def Let_def split: if_splits result.splits)
    qed
    then show ?thesis using skip False by blast
  qed
qed

section \<open>Fills account for what is filled\<close>

definition order_total :: "order_id \<Rightarrow> sim_order list \<Rightarrow> nat" where
  "order_total oid ords = (\<Sum>ord \<leftarrow> filter (\<lambda>ord. so_id ord = oid) ords. so_filled ord)"

definition fill_total :: "order_id \<Rightarrow> fill_record list \<Rightarrow> nat" where
  "fill_total oid fills = (\<Sum>f \<leftarrow> filter (\<lambda>f. fr_order_id f = oid) fills. q_value (fr_quantity f))"

lemma totals_simps [simp]:
  "order_total oid [] = 0"
  "order_total oid (ord # ords) = (if so_id ord = oid then so_filled ord else 0) + order_total oid ords"
  "order_total oid (ords @ ords') = order_total oid ords + order_total oid ords'"
  "fill_total oid [] = 0"
  "fill_total oid (f # fills) = (if fr_order_id f = oid then q_value (fr_quantity f) else 0) + fill_total oid fills"
  "fill_total oid (fills @ fills') = fill_total oid fills + fill_total oid fills'"
  by (simp_all add: order_total_def fill_total_def)

definition carried :: "sim_order list \<Rightarrow> sim_order list \<Rightarrow> bool" where
  "carried ords ords' \<longleftrightarrow> list_all2 (\<lambda>ord ord'. same_order ord ord' \<and> order_ok ord') ords ords'"

lemma carried_refl: "\<forall>ord \<in> set ords. order_ok ord \<Longrightarrow> carried ords ords"
  by (auto simp: carried_def intro: list.rel_refl_strong)

lemma evaluate_orders_sound:
  assumes "evaluate_orders model policy e ordinal available ords = (ords', fills, r)"
    and "\<forall>ord \<in> set ords. order_ok ord"
  shows "carried ords ords' \<and> (\<forall>oid. order_total oid ords' = order_total oid ords + fill_total oid fills) \<and>
    (\<forall>f \<in> set fills. \<exists>ord \<in> set ords. fill_ok policy ord f)"
  using assms
proof (induction ords arbitrary: available ords' fills r)
  case Nil
  then show ?case by (simp add: carried_def)
next
  case (Cons ord ords)
  have ok: "order_ok ord" "\<forall>ord \<in> set ords. order_ok ord" using Cons.prems(2) by auto
  from ok(1) show ?case
  proof (cases rule: evaluate_order_cases [where model = model and policy = policy and e = e and ordinal = ordinal
        and available = available])
    case skip
    then obtain ords1 fills1 r1 where e1: "evaluate_orders model policy e ordinal available ords = (ords1, fills1, r1)"
        and out: "ords' = ord # ords1" "fills = fills1"
      using Cons.prems(1) by (auto split: prod.splits)
    show ?thesis using Cons.IH [OF e1 ok(2)] ok(1) by (auto simp: out carried_def)
  next
    case (fail err)
    then have "ords' = ord # ords" "fills = []" using Cons.prems(1) by auto
    then show ?thesis using Cons.prems(2) by (simp add: carried_refl)
  next
    case (fill p displayed fp feedback ord' v)
    then obtain ords1 fills1 r1 where
        e1: "evaluate_orders model policy e ordinal (available(oi_side (so_intent ord) := taken_from model p displayed v)) ords =
          (ords1, fills1, r1)"
        and out: "ords' = ord' # ords1"
          "fills = fill_from_market_event (so_id ord) ordinal (ev_match_time e) (oi_side (so_intent ord)) fp
                     \<lparr>q_value = v, q_unit = q_unit displayed\<rparr> # fills1"
      using Cons.prems(1) by (auto split: prod.splits)
    have "so_filled ord' \<le> q_value (oi_quantity (so_intent ord'))" "in_u64 (q_value (oi_quantity (so_intent ord')))"
      using fill(6) by (auto simp: order_ok_def wf_quantity_def)
    then have "in_u64 v" using fill(5) by (auto simp: in_u64_def)
    then have "fill_ok policy ord (fill_from_market_event (so_id ord) ordinal (ev_match_time e)
        (oi_side (so_intent ord)) fp \<lparr>q_value = v, q_unit = q_unit displayed\<rparr>)"
      using fill(2,4,8,9)
      by (auto simp: fill_ok_def fill_from_market_event_def fillable_def order_is_eligible_def wf_quantity_def)
    moreover have "so_id ord' = so_id ord" "so_filled ord' = so_filled ord + v" using fill(5) by simp_all
    ultimately show ?thesis
      using Cons.IH [OF e1 ok(2)] fill(6,7) by (auto simp: out carried_def fill_from_market_event_def)
  qed
qed

section \<open>Reachable simulators\<close>

inductive sim_reachable :: "(bytes \<Rightarrow> bytes) \<Rightarrow> simulator \<Rightarrow> bool" for hash where
  fresh: "sim_reachable hash (simulator_new_with_price_policy universe un model policy)"
| submitted: "\<lbrakk> sim_reachable hash s; wf_intent intent;
      simulator_submit hash s strategy_id occ trading n intent = (r, s') \<rbrakk> \<Longrightarrow> sim_reachable hash s'"
| evaluated: "\<lbrakk> sim_reachable hash s; simulator_evaluate s e occ trading = (r', s') \<rbrakk> \<Longrightarrow> sim_reachable hash s'"
| run_ended: "\<lbrakk> sim_reachable hash s; cancel_end_of_run s = (feedback, s') \<rbrakk> \<Longrightarrow> sim_reachable hash s'"
| segment_ended: "\<lbrakk> sim_reachable hash s; cancel_segment_end s segment = (feedback, s') \<rbrakk> \<Longrightarrow> sim_reachable hash s'"

definition sim_inv :: "simulator \<Rightarrow> bool" where
  "sim_inv s \<longleftrightarrow>
     sorted_wrt (<) (map so_acceptance_sequence (sm_orders s)) \<and>
     (\<forall>ord \<in> set (sm_orders s). so_acceptance_sequence ord < sm_next_acceptance_sequence s \<and> order_ok ord) \<and>
     (\<forall>oid. fill_total oid (sm_fills s) = order_total oid (sm_orders s)) \<and>
     (\<forall>f \<in> set (sm_fills s). \<exists>ord \<in> set (sm_orders s). fill_ok (sm_price_policy s) ord f)"

lemma carried_sequences: "carried ords ords' \<Longrightarrow> map so_acceptance_sequence ords' = map so_acceptance_sequence ords"
  unfolding carried_def by (induction rule: list_all2_induct) (auto simp: same_order_fields)

lemma carried_fill_ok:
  assumes "carried ords ords'" "\<exists>ord \<in> set ords. fill_ok policy ord f"
  shows "\<exists>ord \<in> set ords'. fill_ok policy ord f"
  using assms unfolding carried_def by (induction rule: list_all2_induct) (auto simp: fill_ok_same)

lemma carried_ok: "carried ords ords' \<Longrightarrow> \<forall>ord \<in> set ords'. order_ok ord"
  unfolding carried_def by (induction rule: list_all2_induct) auto

lemma sim_inv_carried:
  assumes inv: "sim_inv s" and "carried (sm_orders s) ords"
    and total: "\<And>oid. order_total oid ords = order_total oid (sm_orders s) + fill_total oid fills"
    and fills: "\<forall>f \<in> set fills. \<exists>ord \<in> set (sm_orders s). fill_ok (sm_price_policy s) ord f"
  shows "sim_inv (s\<lparr>sm_orders := ords, sm_fills := sm_fills s @ fills\<rparr>)"
proof -
  have seq: "map so_acceptance_sequence ords = map so_acceptance_sequence (sm_orders s)"
    by (rule carried_sequences [OF assms(2)])
  have "so_acceptance_sequence ord < sm_next_acceptance_sequence s" if "ord \<in> set ords" for ord
  proof -
    have "so_acceptance_sequence ord \<in> set (map so_acceptance_sequence (sm_orders s))"
      using that unfolding seq [symmetric] by simp
    then show ?thesis using inv by (auto simp: sim_inv_def)
  qed
  then show ?thesis
    using inv seq carried_ok [OF assms(2)] total fills carried_fill_ok [OF assms(2)] by (auto simp: sim_inv_def)
qed

lemma sort_by_sequence:
  assumes "sorted_wrt (<) (map so_acceptance_sequence ords)"
  shows "sort_key (\<lambda>ord. (so_acceptance_sequence ord, so_id ord)) ords = ords"
proof (rule sort_key_id_if_sorted)
  show "sorted (map (\<lambda>ord. (so_acceptance_sequence ord, so_id ord)) ords)"
    using assms by (induction ords) (auto simp: less_eq_prod_def)
qed

lemma cancel_orders_inv:
  assumes "sim_inv s" and live: "\<And>ord. selected ord \<Longrightarrow> is_live ord"
  shows "sim_inv (snd (cancel_orders selected reason s))"
proof -
  let ?f = "\<lambda>ord. if selected ord then ord\<lparr>so_status := Cancelled\<rparr> else ord"
  have ok: "order_ok (ord\<lparr>so_status := Cancelled\<rparr>)" if "order_ok ord" "is_live ord" for ord
    using that by (auto simp: order_ok_def is_live_def wf_quantity_def split: order_status.splits)
  have "carried (sm_orders s) (map ?f (sm_orders s))"
    using assms(1) ok live unfolding carried_def list_all2_map2
    by (intro list.rel_refl_strong) (auto simp: sim_inv_def same_order_def)
  moreover have "order_total oid (map ?f ords) = order_total oid ords" for oid ords
    by (induction ords) auto
  ultimately have "sim_inv (s\<lparr>sm_orders := map ?f (sm_orders s), sm_fills := sm_fills s @ []\<rparr>)"
    by (intro sim_inv_carried [OF assms(1)]) auto
  moreover have "s\<lparr>sm_orders := map ?f (sm_orders s), sm_fills := sm_fills s @ []\<rparr> = s\<lparr>sm_orders := map ?f (sm_orders s)\<rparr>"
    by simp
  ultimately show ?thesis by (simp add: cancel_orders_def)
qed

lemma submit_cases:
  assumes "simulator_submit hash s strategy_id occ trading n intent = (r, s')"
  obtains "s' = s"
  | oid eligible next_sequence where "r = Ok (Accepted oid)" "next_sequence = sm_next_acceptance_sequence s + 1"
      "entry_allowed (tc_new_order_entry trading) (oi_order_type intent)"
      "oi_instrument intent \<in> sm_universe s" "q_unit (oi_quantity intent) = sm_quantity_unit s"
      "add_latency (ok_match_time (eo_ordering_key occ)) (fm_market_data_latency_ms (sm_model s))
         (fm_order_latency_ms (sm_model s)) = Ok eligible"
      "s' = s\<lparr>sm_next_acceptance_sequence := next_sequence,
              sm_orders := sm_orders s @
                [\<lparr>so_id = oid, so_intent = intent, so_origin_ordinal = eo_run_event_ordinal occ,
                  so_eligible_match_time = eligible, so_origin_segment_id = sc_segment_id (tc_session trading),
                  so_acceptance_sequence = sm_next_acceptance_sequence s, so_filled = 0, so_status = Pending\<rparr>]\<rparr>"
proof (cases "s' = s")
  case True
  then show ?thesis by (rule that(1))
next
  case False
  let ?allowed = "oi_instrument intent \<in> sm_universe s \<and> q_unit (oi_quantity intent) = sm_quantity_unit s \<and>
    \<not> (case oi_order_type intent of
         Limit limit_price \<Rightarrow> \<not> policy_accepts (sm_price_policy s) limit_price | Market \<Rightarrow> False) \<and>
    entry_allowed (tc_new_order_entry trading) (oi_order_type intent)"
  have allowed: "?allowed"
    using assms False unfolding simulator_submit_def by (auto simp only: prod.inject split: if_splits)
  from allowed assms obtain canonical where canonical: "intent_to_canonical_bytes intent = Ok canonical"
    using False by (cases "intent_to_canonical_bytes intent") (simp_all add: simulator_submit_def)
  from allowed assms canonical obtain eligible where
      eligible: "add_latency (ok_match_time (eo_ordering_key occ)) (fm_market_data_latency_ms (sm_model s))
         (fm_order_latency_ms (sm_model s)) = Ok eligible"
    using False
    by (cases "add_latency (ok_match_time (eo_ordering_key occ)) (fm_market_data_latency_ms (sm_model s))
         (fm_order_latency_ms (sm_model s))") (simp_all add: simulator_submit_def Let_def)
  have "checked_u64 (sm_next_acceptance_sequence s + 1) \<noteq> None"
  proof
    assume "checked_u64 (sm_next_acceptance_sequence s + 1) = None"
    then have "s' = s"
      using assms allowed canonical eligible by (simp add: simulator_submit_def Let_def checked_u64_def split: if_splits)
    then show False using \<open>s' \<noteq> s\<close> by simp
  qed
  then have "checked_u64 (sm_next_acceptance_sequence s + 1) = Some (sm_next_acceptance_sequence s + 1)"
    by (auto simp: checked_u64_def split: if_splits)
  then show ?thesis
    using allowed assms canonical by (intro that(2) [OF _ refl _ _ _ eligible, of "hash (order_identity_bytes strategy_id occ n canonical)"])
      (auto simp: simulator_submit_def Let_def eligible checked_u64_def split: if_splits)
qed

lemma submit_inv:
  assumes inv: "sim_inv s" and "wf_intent intent"
    and "simulator_submit hash s strategy_id occ trading n intent = (r, s')"
  shows "sim_inv s'"
  using assms(3)
proof (cases rule: submit_cases)
  case 1
  then show ?thesis using inv by simp
next
  case (2 oid eligible next_sequence)
  then show ?thesis
    using inv assms(2) by (auto simp: sim_inv_def sorted_wrt_append order_ok_def wf_intent_def fill_ok_def intro: less_SucI)
qed

lemma evaluate_cases:
  assumes "simulator_evaluate s e occ trading = (r, s')" and inv: "sim_inv s"
  obtains (cancelled) "s' = snd (cancel_pending_market_orders s (ev_instrument e))"
  | (closed) "s' = s"
  | (run) ords fills where
      "evaluate_orders (sm_model s) (sm_price_policy s) e (eo_run_event_ordinal occ) (accepted_evidence s e) (sm_orders s) =
         (ords, fills, r)"
      "s' = s\<lparr>sm_orders := ords, sm_fills := sm_fills s @ fills\<rparr>"
proof -
  have sorted: "sort_key (\<lambda>ord. (so_acceptance_sequence ord, so_id ord)) (sm_orders s) = sm_orders s"
    using inv by (intro sort_by_sequence) (simp add: sim_inv_def)
  have "s' = snd (cancel_pending_market_orders s (ev_instrument e)) \<or> s' = s \<or>
      (\<exists>ords fills. evaluate_orders (sm_model s) (sm_price_policy s) e (eo_run_event_ordinal occ) (accepted_evidence s e)
         (sm_orders s) = (ords, fills, r) \<and> s' = s\<lparr>sm_orders := ords, sm_fills := sm_fills s @ fills\<rparr>)"
    using assms(1) unfolding simulator_evaluate_def sorted
    by (auto split: if_split_asm prod.split_asm)
  then show ?thesis using that by blast
qed

lemma evaluate_inv:
  assumes inv: "sim_inv s" and "simulator_evaluate s e occ trading = (r, s')"
  shows "sim_inv s'"
  using assms(2,1)
proof (cases rule: evaluate_cases)
  case cancelled
  then show ?thesis
    using cancel_orders_inv [OF inv, of "\<lambda>ord. oi_instrument (so_intent ord) = ev_instrument e \<and>
        oi_order_type (so_intent ord) = Market \<and> is_live ord"]
    by (simp add: cancel_pending_market_orders_def)
next
  case closed
  then show ?thesis using inv by simp
next
  case (run ords fills)
  have ok: "\<forall>ord \<in> set (sm_orders s). order_ok ord" using inv by (simp add: sim_inv_def)
  show ?thesis
    using evaluate_orders_sound [OF run(1) ok] unfolding run(2) by (intro sim_inv_carried [OF inv]) auto
qed

lemma sim_reachable_inv: "sim_reachable hash s \<Longrightarrow> sim_inv s"
proof (induction rule: sim_reachable.induct)
  case (fresh universe un model policy)
  show ?case by (simp add: sim_inv_def simulator_new_with_price_policy_def)
next
  case (submitted s intent strategy_id occ trading n r s')
  then show ?case by (metis submit_inv)
next
  case (evaluated s e occ trading r' s')
  then show ?case by (metis evaluate_inv)
next
  case (run_ended s feedback s')
  then show ?case using cancel_orders_inv [of s is_live EndOfRun] by (simp add: cancel_end_of_run_def)
next
  case (segment_ended s segment feedback s')
  then show ?case
    using cancel_orders_inv [of s "\<lambda>ord. so_origin_segment_id ord = segment \<and> is_live ord" SegmentEnd]
    by (simp add: cancel_segment_end_def)
qed

text \<open>
  C17: what a simulated order reports is what its fills add up to. In every simulator that submissions,
  events and cancellations can produce, failed operations included, no order is filled beyond its
  quantity and it is \<open>Filled\<close> exactly when the whole quantity is; for each identity the fills add up to
  what its orders report; and every fill belongs to an order of the same side and unit, comes from an
  event after the one the order was submitted at and not before its latency has passed, and keeps to the
  order's limit and to the instrument's price policy.
\<close>

theorem simulator_fills_sound:
  assumes "sim_reachable hash s"
  shows "(\<forall>ord \<in> set (sm_orders s). so_filled ord \<le> q_value (oi_quantity (so_intent ord)) \<and>
           (so_status ord = Filled \<longleftrightarrow> so_filled ord = q_value (oi_quantity (so_intent ord)))) \<and>
    (\<forall>oid. fill_total oid (sm_fills s) = order_total oid (sm_orders s)) \<and>
    (\<forall>f \<in> set (sm_fills s). \<exists>ord \<in> set (sm_orders s).
       fr_order_id f = so_id ord \<and> fr_side f = oi_side (so_intent ord) \<and>
       q_unit (fr_quantity f) = q_unit (oi_quantity (so_intent ord)) \<and>
       (\<exists>n. fr_trigger f = MarketEvent n \<and> so_origin_ordinal ord < n) \<and>
       so_eligible_match_time ord \<le> fr_match_time f \<and> limit_touched (so_intent ord) (fr_price f) \<and>
       policy_accepts (sm_price_policy s) (fr_price f))"
proof (intro conjI)
  have inv: "sim_inv s" by (rule sim_reachable_inv [OF assms])
  then show "\<forall>ord \<in> set (sm_orders s). so_filled ord \<le> q_value (oi_quantity (so_intent ord)) \<and>
      (so_status ord = Filled \<longleftrightarrow> so_filled ord = q_value (oi_quantity (so_intent ord)))"
    by (auto simp: sim_inv_def order_ok_filled)
  show "\<forall>oid. fill_total oid (sm_fills s) = order_total oid (sm_orders s)" using inv by (simp add: sim_inv_def)
  show "\<forall>f \<in> set (sm_fills s). \<exists>ord \<in> set (sm_orders s).
       fr_order_id f = so_id ord \<and> fr_side f = oi_side (so_intent ord) \<and>
       q_unit (fr_quantity f) = q_unit (oi_quantity (so_intent ord)) \<and>
       (\<exists>n. fr_trigger f = MarketEvent n \<and> so_origin_ordinal ord < n) \<and>
       so_eligible_match_time ord \<le> fr_match_time f \<and> limit_touched (so_intent ord) (fr_price f) \<and>
       policy_accepts (sm_price_policy s) (fr_price f)"
    using inv unfolding sim_inv_def fill_ok_def by blast
qed

section \<open>First come, first served\<close>

definition demand ::
  "fill_model \<Rightarrow> price_policy \<Rightarrow> domain_event \<Rightarrow> nat \<Rightarrow> order_side \<Rightarrow> price \<Rightarrow> quantity_unit \<Rightarrow> sim_order \<Rightarrow> nat" where
  "demand model policy e ordinal side p un ord =
     (if oi_side (so_intent ord) = side \<and> fillable model policy e ordinal p un ord then sim_remaining ord else 0)"

definition gain :: "order_side \<Rightarrow> sim_order \<times> sim_order \<Rightarrow> nat" where
  "gain side = (\<lambda>(ord, ord'). if oi_side (so_intent ord) = side then so_filled ord' - so_filled ord else 0)"

text \<open>What a side can hand out to a total demand.\<close>

definition supplied :: "fill_model \<Rightarrow> fill_evidence option \<Rightarrow> nat \<Rightarrow> nat" where
  "supplied model ev wanted = (case ev of None \<Rightarrow> 0 | Some (p, displayed) \<Rightarrow> granted model displayed wanted)"

lemma supplied_none: "supplied model ev 0 = 0"
  by (simp add: supplied_def granted_def split: option.splits quantity_policy.splits)

lemma supplied_step:
  assumes "v = granted model displayed w"
  shows "supplied model (Some (p, displayed)) (w + x) = v + supplied model (taken_from model p displayed v) x"
  using assms by (auto simp: supplied_def granted_def taken_from_def split: quantity_policy.splits)

lemma evaluate_orders_fifo:
  assumes "evaluate_orders model policy e ordinal available ords = (ords', fills, Ok feedback)"
    and "\<forall>ord \<in> set ords. order_ok ord"
    and "\<And>q d. available side = Some (q, d) \<Longrightarrow> q = p \<and> q_unit d = un"
  shows "(\<Sum>x \<leftarrow> take k (zip ords ords'). gain side x) =
    supplied model (available side) (\<Sum>ord \<leftarrow> take k ords. demand model policy e ordinal side p un ord)"
  using assms
proof (induction ords arbitrary: available ords' fills feedback k)
  case Nil
  then show ?case by (simp add: supplied_none)
next
  case (Cons ord ords)
  have ok: "order_ok ord" "\<forall>ord \<in> set ords. order_ok ord" using Cons.prems(2) by auto
  show ?case
  proof (cases k)
    case 0
    then show ?thesis by (simp add: supplied_none)
  next
    case (Suc j)
    from ok(1) show ?thesis
    proof (cases rule: evaluate_order_cases [where model = model and policy = policy and e = e and ordinal = ordinal
          and available = available])
      case skip
      then obtain ords1 fills1 fb1 where e1: "evaluate_orders model policy e ordinal available ords = (ords1, fills1, Ok fb1)"
          and out: "ords' = ord # ords1"
        using Cons.prems(1) by (auto split: prod.splits)
      note IH = Cons.IH [OF e1 ok(2) Cons.prems(3), of j]
      have "supplied model (available side) (demand model policy e ordinal side p un ord + x) =
          supplied model (available side) x" for x
      proof (cases "available side")
        case None
        then show ?thesis by (simp add: supplied_def)
      next
        case (Some pd)
        obtain d where d: "available side = Some (p, d)" "q_unit d = un"
          using Some Cons.prems(3) by (cases pd) auto
        show ?thesis
        proof (cases "demand model policy e ordinal side p un ord = 0")
          case True
          then show ?thesis by simp
        next
          case False
          then have f: "oi_side (so_intent ord) = side" "fillable model policy e ordinal p un ord"
              "demand model policy e ordinal side p un ord = sim_remaining ord" "0 < sim_remaining ord"
            by (auto simp: demand_def split: if_splits)
          then have "granted model d (sim_remaining ord) = 0" using skip(2) [of p d] d by auto
          then have "fm_quantity model = Displayed" "q_value d = 0"
            using f(4) by (auto simp: granted_def split: quantity_policy.splits)
          then show ?thesis using d by (simp add: supplied_def granted_def)
        qed
      qed
      then show ?thesis using IH Suc by (simp add: out gain_def)
    next
      case (fail err)
      then show ?thesis using Cons.prems(1) by simp
    next
      case (fill q displayed fp fb ord' v)
      let ?available = "available(oi_side (so_intent ord) := taken_from model q displayed v)"
      from fill obtain ords1 fills1 fb1 where e1: "evaluate_orders model policy e ordinal ?available ords = (ords1, fills1, Ok fb1)"
          and out: "ords' = ord' # ords1"
        using Cons.prems(1) by (auto split: prod.splits)
      have shape: "q' = p \<and> q_unit d = un" if "?available side = Some (q', d)" for q' d
        using that Cons.prems(3) fill(1)
        by (auto simp: taken_from_def split: if_splits quantity_policy.splits)
      note IH = Cons.IH [OF e1 ok(2) shape, of j]
      show ?thesis
      proof (cases "oi_side (so_intent ord) = side")
        case True
        then have "q = p" "q_unit displayed = un" using Cons.prems(3) fill(1) by auto
        then have "demand model policy e ordinal side p un ord = sim_remaining ord"
          using fill(2) True by (simp add: demand_def)
        moreover have "gain side (ord, ord') = v" using True fill(5) by (simp add: gain_def)
        ultimately show ?thesis
          using IH Suc True fill(1) supplied_step [OF fill(3), of q] by (simp add: out)
      next
        case False
        then show ?thesis using IH Suc by (simp add: out gain_def demand_def)
      qed
    qed
  qed
qed

text \<open>
  C28: liquidity is handed out first come, first served. When an event is evaluated while matching is
  enabled and order entry open, and no order fails, then for each side and for every number \<open>k\<close> the first
  \<open>k\<close> orders in acceptance order together gain exactly what the event's evidence can supply to what they
  may take: the lesser of the displayed quantity and their total demand under the displayed policy, all
  of it under the unlimited policy. An order has a demand only if it is live, eligible, of the event's
  instrument and unit, and within its limit before and after slippage.
\<close>

theorem evaluate_first_come_first_served:
  assumes "sim_reachable hash s" and "simulator_evaluate s e occ trading = (Ok feedback, s')"
    and "\<not> (\<exists>ob. tc_market_signal trading = Some (AuctionCollecting ob) \<and> ao_purpose ob = EvKnown VolatilityInterruption)"
    and "tc_matching trading = Enabled method" and "entry_open (tc_new_order_entry trading)"
  shows "(\<Sum>x \<leftarrow> take k (zip (sm_orders s) (sm_orders s')). gain side x) =
    (case accepted_evidence s e side of
       None \<Rightarrow> 0
     | Some (p, displayed) \<Rightarrow>
         let wanted = (\<Sum>ord \<leftarrow> take k (sm_orders s).
               demand (sm_model s) (sm_price_policy s) e (eo_run_event_ordinal occ) side p (q_unit displayed) ord)
         in case fm_quantity (sm_model s) of Unlimited \<Rightarrow> wanted | Displayed \<Rightarrow> min wanted (q_value displayed))"
proof -
  have inv: "sim_inv s" by (rule sim_reachable_inv [OF assms(1)])
  then have ok: "\<forall>ord \<in> set (sm_orders s). order_ok ord"
    and sorted: "sort_key (\<lambda>ord. (so_acceptance_sequence ord, so_id ord)) (sm_orders s) = sm_orders s"
    by (auto simp: sim_inv_def intro: sort_by_sequence)
  obtain ords fills where run: "evaluate_orders (sm_model s) (sm_price_policy s) e (eo_run_event_ordinal occ)
      (accepted_evidence s e) (sm_orders s) = (ords, fills, Ok feedback)" and s': "sm_orders s' = ords"
    using assms(2-5) unfolding simulator_evaluate_def sorted entry_open_def
    by (auto split: if_split_asm prod.split_asm option.split_asm market_signal.split_asm)
  show ?thesis
  proof (cases "accepted_evidence s e side")
    case None
    then show ?thesis using evaluate_orders_fifo [OF run ok, of side] by (simp add: s' supplied_def)
  next
    case (Some pd)
    obtain p displayed where pd: "pd = (p, displayed)" by (cases pd)
    show ?thesis
      using evaluate_orders_fifo [OF run ok, of side p "q_unit displayed" k] Some
      by (simp add: s' pd supplied_def granted_def Let_def)
  qed
qed

text \<open>
  Two buy orders of four and five units meet an offer of six: the first is filled, the second receives
  the remaining two.
\<close>

definition sample_fill_model :: fill_model where
  "sample_fill_model =
     \<lparr>fm_evidence = TopOfBook, fm_quantity = Displayed, fm_adverse_price_delta = 0, fm_market_data_latency_ms = 1,
      fm_order_latency_ms = 2\<rparr>"

definition sample_occurrence :: "nat \<Rightarrow> event_occurrence" where
  "sample_occurrence n =
     \<lparr>eo_run_event_ordinal = n, eo_ordering_key = OrderingKey 1000 1 ''2330'' ''STOCK_SNAPSHOT'' 0 20 None [],
      eo_event_fingerprint = replicate 32 7, eo_instrument_state_version = n\<rparr>"

definition sample_trading :: trading_context where
  "sample_trading =
     \<lparr>tc_event_fingerprint = replicate 32 7, tc_instrument_state_version = 1,
      tc_session = \<lparr>sc_segment_id = ''open'', sc_session_kind = Regular, sc_phase = Active\<rparr>,
      tc_new_order_entry = Allowed, tc_matching = Enabled MethodContinuous, tc_auction = None,
      tc_market_signal = Some SigContinuous, tc_market_rule_name = ''market.signal'', tc_market_rule_version = 3\<rparr>"

definition sample_intent :: "nat \<Rightarrow> order_intent" where
  "sample_intent n =
     \<lparr>oi_instrument = (Twse, ''2330''), oi_side = Buy, oi_quantity = \<lparr>q_value = n, q_unit = TradingUnit\<rparr>,
      oi_order_type = Limit 102\<rparr>"

definition sample_offer :: domain_event where
  "sample_offer =
     \<lparr>ev_instrument = (Twse, ''2330''), ev_trading_date = 20000, ev_source_format = ''STOCK_SNAPSHOT'',
      ev_match_time = 5000, ev_source_sequence = None,
      ev_payload = PBookSnapshot \<lparr>bk_book = \<lparr>cb_bids = \<lparr>bs_kind = Bid, bs_market_order_quantity = None, bs_slots = [None, None, None, None, None]\<rparr>,
          cb_asks = \<lparr>bs_kind = Ask, bs_market_order_quantity = None,
            bs_slots = [Some \<lparr>bl_price = 101, bl_quantity = \<lparr>q_value = 6, q_unit = TradingUnit\<rparr>\<rparr>, None, None, None, None]\<rparr>\<rparr>,
        bk_annotations = AnnNone, bk_market_signal = Set SigContinuous\<rparr>\<rparr>"

definition sample_order :: "nat \<Rightarrow> nat \<Rightarrow> sim_order" where
  "sample_order sequence n =
     \<lparr>so_id = replicate 32 0, so_intent = sample_intent n, so_origin_ordinal = 1, so_eligible_match_time = 4000,
      so_origin_segment_id = ''open'', so_acceptance_sequence = sequence, so_filled = 0, so_status = Pending\<rparr>"

definition sample_simulator :: simulator where
  "sample_simulator =
     \<lparr>sm_universe = {(Twse, ''2330'')}, sm_quantity_unit = TradingUnit, sm_model = sample_fill_model,
      sm_price_policy = PositiveOnly, sm_orders = [sample_order 1 4, sample_order 2 5], sm_fills = [],
      sm_next_acceptance_sequence = 3\<rparr>"

lemma sample_submissions:
  "simulator_submit sample_hash (simulator_new [(Twse, ''2330'')] TradingUnit sample_fill_model) ''demo'' (sample_occurrence 1)
     sample_trading 0 (sample_intent 4) =
   (Ok (Accepted (replicate 32 0)), sample_simulator\<lparr>sm_orders := [sample_order 1 4], sm_next_acceptance_sequence := 2\<rparr>)"
  "simulator_submit sample_hash (sample_simulator\<lparr>sm_orders := [sample_order 1 4], sm_next_acceptance_sequence := 2\<rparr>) ''demo''
     (sample_occurrence 1) sample_trading 1 (sample_intent 5) = (Ok (Accepted (replicate 32 0)), sample_simulator)"
  by (simp_all add: simulator_submit_def simulator_new_def simulator_new_with_price_policy_def sample_fill_model_def
      sample_intent_def sample_trading_def sample_occurrence_def sample_simulator_def sample_order_def policy_accepts_def
      entry_allowed_def intent_to_canonical_bytes_def append_all.simps push_def append_bytes_def append_length_def in_u32_def
      append_quantity_def append_price_def add_latency_def checked_u64_def in_u64_def checked_i64_def in_i64_def Let_def sample_hash_def)

lemma sample_simulator_reachable: "sim_reachable sample_hash sample_simulator"
proof -
  have wf: "wf_intent (sample_intent 4)" "wf_intent (sample_intent 5)"
    by (simp_all add: wf_intent_def sample_intent_def wf_quantity_def in_u64_def wf_order_type_def in_i128_def)
  have "sim_reachable sample_hash (simulator_new [(Twse, ''2330'')] TradingUnit sample_fill_model)"
    unfolding simulator_new_def by (rule sim_reachable.fresh)
  then have "sim_reachable sample_hash (sample_simulator\<lparr>sm_orders := [sample_order 1 4], sm_next_acceptance_sequence := 2\<rparr>)"
    by (rule sim_reachable.submitted [OF _ wf(1) sample_submissions(1)])
  then show ?thesis by (rule sim_reachable.submitted [OF _ wf(2) sample_submissions(2)])
qed

lemmas simulator_eval = accepted_evidence_def evidence_def top_of_book_def first_level_def side_levels_def sample_offer_def
  sample_fill_model_def sample_order_def sample_intent_def sample_occurrence_def policy_accepts_def evaluate_order_def
  is_live_def order_is_eligible_def limit_touched_def apply_slippage_def decimal_checked_add_def checked_i128_def in_i128_def
  fill_order_def sim_remaining_def quantity_new_def checked_u64_def in_u64_def fill_from_market_event_def

lemma sample_evaluation:
  obtains feedback s' where "simulator_evaluate sample_simulator sample_offer (sample_occurrence 2) sample_trading = (Ok feedback, s')"
    and "map so_filled (sm_orders s') = [4, 2]"
proof -
  have "sort_key (\<lambda>ord. (so_acceptance_sequence ord, so_id ord)) (sm_orders sample_simulator) = sm_orders sample_simulator"
    by (rule sort_by_sequence) (simp add: sample_simulator_def sample_order_def)
  then have eq: "simulator_evaluate sample_simulator sample_offer (sample_occurrence 2) sample_trading =
      (case evaluate_orders sample_fill_model PositiveOnly sample_offer 2 (accepted_evidence sample_simulator sample_offer)
         [sample_order 1 4, sample_order 2 5] of
       (ords, fills, r) \<Rightarrow> (r, sample_simulator\<lparr>sm_orders := ords, sm_fills := sm_fills sample_simulator @ fills\<rparr>))"
    by (simp add: simulator_evaluate_def sample_trading_def sample_occurrence_def) (simp add: sample_simulator_def)
  have ev: "accepted_evidence sample_simulator sample_offer =
      (\<lambda>side. if side = Buy then Some (101, \<lparr>q_value = 6, q_unit = TradingUnit\<rparr>) else None)"
    by (auto simp: fun_eq_iff simulator_eval sample_simulator_def split: order_side.splits)
  have "\<exists>ords fills fb. evaluate_orders sample_fill_model PositiveOnly sample_offer 2
      (\<lambda>side. if side = Buy then Some (101, \<lparr>q_value = 6, q_unit = TradingUnit\<rparr>) else None)
      [sample_order 1 4, sample_order 2 5] = (ords, fills, Ok fb) \<and> map so_filled ords = [4, 2]"
    by (simp add: simulator_eval Let_def)
  then obtain ords fills fb where "evaluate_orders sample_fill_model PositiveOnly sample_offer 2
      (accepted_evidence sample_simulator sample_offer) [sample_order 1 4, sample_order 2 5] = (ords, fills, Ok fb)"
      "map so_filled ords = [4, 2]"
    unfolding ev by (elim exE conjE)
  then show ?thesis using that unfolding eq by simp
qed

theorem simulator_fills_sound_witness:
  "\<exists>s. sim_reachable sample_hash s \<and> map so_filled (sm_orders s) = [4, 2] \<and>
     fill_total (replicate 32 0) (sm_fills s) = order_total (replicate 32 0) (sm_orders s)"
proof (rule sample_evaluation)
  fix feedback s'
  assume a: "simulator_evaluate sample_simulator sample_offer (sample_occurrence 2) sample_trading = (Ok feedback, s')"
    "map so_filled (sm_orders s') = [4, 2]"
  have reach: "sim_reachable sample_hash s'" by (rule sim_reachable.evaluated [OF sample_simulator_reachable a(1)])
  show ?thesis
    by (rule exI [of _ s'], intro conjI reach a(2))
      (rule spec [OF conjunct1 [OF conjunct2 [OF simulator_fills_sound [OF reach]]]])
qed

theorem evaluate_first_come_first_served_witness:
  "\<exists>feedback s'. simulator_evaluate sample_simulator sample_offer (sample_occurrence 2) sample_trading = (Ok feedback, s') \<and>
     (\<Sum>x \<leftarrow> take 2 (zip (sm_orders sample_simulator) (sm_orders s')). gain Buy x) = 6"
proof (rule sample_evaluation)
  fix feedback s'
  assume a: "simulator_evaluate sample_simulator sample_offer (sample_occurrence 2) sample_trading = (Ok feedback, s')"
  have "(\<Sum>x \<leftarrow> take 2 (zip (sm_orders sample_simulator) (sm_orders s')). gain Buy x) = 6"
    using evaluate_first_come_first_served [OF sample_simulator_reachable a, of MethodContinuous Buy 2]
    by (simp add: sample_trading_def sample_simulator_def simulator_eval demand_def fillable_def)
  then show ?thesis using a by blast
qed

end
