(* ===== verification/Backtest.thy ===== *)
theory Backtest
  imports SampleMarket Simulator MultiLedger
begin

text \<open>
  The event-driven backtest of \<open>crates/osmium-runner/src/lib.rs\<close>: the session schedule of several
  instruments and the coordinator that merges the event streams, calls the strategy with each committed
  event, submits its order intents, fills them, books the fills and feeds the outcome back. The
  coordinator composes the replay core, the trading context, the strategy, the simulator and the ledger;
  the lemmas show that a completed backtest replays exactly what a replay without a strategy does, books
  exactly the fills of the simulator, and leaves no order open.
\<close>

section \<open>Model\<close>

subsection \<open>Errors\<close>

text \<open>
  The source keeps only the text of a lower error; the model keeps the error itself. A panic of a
  strategy callback, or a slice out of range, ends the run with \<open>BacktestPanicked\<close>.
\<close>

datatype backtest_message =
    BacktestText string
  | BacktestReplayError replay_error
  | BacktestVisibleMismatch
  | BacktestOrderingError ordering_error
  | BacktestEncodingError canonical_encoding_error
  | BacktestDecodingError canonical_decoding_error
  | BacktestStrategyError strategy_execution_error
  | BacktestOutputError strategy_output_error

datatype accounting_message =
    AccountingFailed accounting_error
  | MissingEquityMark instrument_id
  | EquityOverflow

datatype 'sim multi_backtest_error =
    BacktestDeclaration
  | BacktestSchedule string
  | BacktestReplay backtest_message
  | BacktestContext context_error
  | BacktestStrategy backtest_message
  | BacktestSimulation 'sim
  | BacktestAccounting accounting_message
  | BacktestSequence
  | BacktestIntentAfterEnd
  | BacktestPanicked

subsection \<open>The session schedule\<close>

type_synonym multi_session_schedule = "(instrument_id, session_segment list) bmap"

definition insert_session_windows ::
  "multi_session_schedule \<Rightarrow> instrument_id \<times> session_segment list \<Rightarrow> (multi_session_schedule, 'sim multi_backtest_error) result" where
  "insert_session_windows segments entry =
     (case entry of (instrument, windows) \<Rightarrow>
        if windows = [] then Err (BacktestSchedule ''instrument session schedule is empty'')
        else let windows' = sort_key sg_open windows in
          if any_adjacent (\<lambda>a b. sg_close a \<ge> sg_open b) windows'
          then Err (BacktestSchedule ''instrument session schedule overlaps'')
          else if bm_get segments instrument \<noteq> None
          then Err (BacktestSchedule ''instrument session schedule is duplicated'')
          else Ok (bm_insert instrument windows' segments))"

definition multi_session_schedule_new ::
  "(instrument_id \<times> session_segment list) list \<Rightarrow> (multi_session_schedule, 'sim multi_backtest_error) result" where
  "multi_session_schedule_new entries =
     rbind (rfold insert_session_windows [] entries) (\<lambda>segments.
       if segments = [] then Err (BacktestSchedule ''multi-market session schedule is empty'') else Ok segments)"

definition segment_for :: "multi_session_schedule \<Rightarrow> instrument_id \<Rightarrow> int \<Rightarrow> session_segment option" where
  "segment_for schedule instrument match_time =
     Option.bind (bm_get schedule instrument) (List.find (\<lambda>segment. is_ok (segment_phase segment match_time)))"

subsection \<open>State of a run\<close>

record 's backtest_state =
  bt_strategy :: 's
  bt_current_segments :: "(instrument_id, session_segment_id) bmap"
  bt_last_contexts :: "(instrument_id, event_occurrence \<times> trading_context) bmap"
  bt_simulator :: multi_simulator
  bt_ledger :: multi_ledger
  bt_output :: strategy_output

definition strategy_ended :: "callback_end \<Rightarrow> (unit, 'sim multi_backtest_error) result" where
  "strategy_ended ended =
     (case ended of
        Returned \<Rightarrow> Ok ()
      | Failed err \<Rightarrow> Err (BacktestStrategy (BacktestStrategyError err))
      | PanickedCallback \<Rightarrow> Err BacktestPanicked)"

subsection \<open>Feedback\<close>

text \<open>Intents are submitted in the order the strategy gave them, numbered from one.\<close>

fun submit_intents ::
  "(bytes \<Rightarrow> bytes) \<Rightarrow> string \<Rightarrow> event_occurrence \<Rightarrow> trading_context \<Rightarrow> nat \<Rightarrow> order_intent list \<Rightarrow> multi_simulator \<Rightarrow>
   (order_feedback list \<times> multi_simulator, simulation_error multi_backtest_error) result" where
  "submit_intents hash strategy_id occ trading index [] sims = Ok ([], sims)"
| "submit_intents hash strategy_id occ trading index (intent # intents) sims =
     (if \<not> in_u32 (index + 1) then Err BacktestSequence
      else case multi_submit hash sims strategy_id occ trading (index + 1) intent of
        (Err err, sims') \<Rightarrow> Err (BacktestSimulation err)
      | (Ok feedback, sims') \<Rightarrow>
          rbind (submit_intents hash strategy_id occ trading (index + 1) intents sims') (\<lambda>(feedbacks, sims'').
            Ok (feedback # feedbacks, sims'')))"

definition process_multi_feedback ::
  "(bytes \<Rightarrow> bytes) \<Rightarrow> 's strategy \<Rightarrow> event_occurrence \<Rightarrow> trading_context \<Rightarrow> order_feedback list \<Rightarrow> bool \<Rightarrow>
   's backtest_state \<Rightarrow> ('s backtest_state, simulation_error multi_backtest_error) result" where
  "process_multi_feedback hash strategy occ trading feedback reject_intents st =
     (if feedback = [] then Ok st
      else case sy_on_feedback strategy \<lparr>fx_feedback = feedback, fx_execution_fills = []\<rparr> sink_with_order_intents (bt_strategy st) of
        (ended, sink, s) \<Rightarrow>
          rbind (strategy_ended ended) (\<lambda>_.
          let intents = fst (take_intents sink); sink' = snd (take_intents sink) in
          rbind (map_err (\<lambda>err. BacktestStrategy (BacktestOutputError err)) (into_event_records sink' occ)) (\<lambda>records.
          let st' = st\<lparr>bt_strategy := s, bt_output := output_extend (bt_output st) records\<rparr> in
          if reject_intents \<and> intents \<noteq> [] then Err BacktestIntentAfterEnd
          else rbind (submit_intents hash (id_strategy_id (sy_identity strategy s)) occ trading 0 intents (bt_simulator st'))
                 (\<lambda>(_, sims). Ok (st'\<lparr>bt_simulator := sims\<rparr>)))))"

subsection \<open>One committed event\<close>

text \<open>
  \<open>process_multi_event\<close> holds the core mutably; it gives the core back beside its outcome.
\<close>

text \<open>The fills an evaluation adds are booked one by one.\<close>

definition book_fills ::
  "instrument_id \<Rightarrow> nat \<Rightarrow> fill_record list \<Rightarrow> multi_ledger \<Rightarrow> (multi_ledger, 'sim multi_backtest_error) result" where
  "book_fills instrument previous fills ledger =
     (if length fills < previous then Err BacktestPanicked
      else map_err (\<lambda>err. BacktestAccounting (AccountingFailed err))
             (rfold (\<lambda>m fill. multi_apply_fill m instrument fill) ledger (drop previous fills)))"

text \<open>A change of segment cancels what the old segment left open.\<close>

definition leave_segment ::
  "(bytes \<Rightarrow> bytes) \<Rightarrow> 's strategy \<Rightarrow> instrument_id \<Rightarrow> session_segment_id \<Rightarrow> event_occurrence \<Rightarrow> trading_context \<Rightarrow>
   's backtest_state \<Rightarrow> ('s backtest_state, simulation_error multi_backtest_error) result" where
  "leave_segment hash strategy instrument segment occ trading st =
     (let previous = bm_get (bt_current_segments st) instrument;
          st' = st\<lparr>bt_current_segments := bm_insert instrument segment (bt_current_segments st)\<rparr> in
      case previous of
        None \<Rightarrow> Ok st'
      | Some p \<Rightarrow>
          if p = segment then Ok st'
          else let (cancellations, sims) = multi_cancel_segment_end_for (bt_simulator st') instrument p in
            process_multi_feedback hash strategy occ trading cancellations False (st'\<lparr>bt_simulator := sims\<rparr>))"

definition process_multi_event ::
  "(bytes \<Rightarrow> bytes) \<Rightarrow> 's strategy \<Rightarrow> multi_session_schedule \<Rightarrow> replay_core \<Rightarrow> domain_event \<Rightarrow> core_commit \<Rightarrow>
   's backtest_state \<Rightarrow> replay_core \<times> ('s backtest_state, simulation_error multi_backtest_error) result" where
  "process_multi_event hash strategy schedule core e cm st0 =
     (let instrument = ev_instrument e; occ = cc_occurrence cm in
      (core, rbind (ok_or (segment_for schedule instrument (ev_match_time e)) (BacktestSchedule ''event is outside session schedule'')) (\<lambda>segment.
      rbind (ok_or (bm_get (co_states core) instrument) (BacktestSchedule ''event state is absent from replay core'')) (\<lambda>state.
      rbind (map_err BacktestContext (evaluate_context e occ state segment)) (\<lambda>trading.
      rbind (leave_segment hash strategy instrument (sg_id segment) occ trading st0) (\<lambda>st.
      case sy_on_event strategy (event_context occ e state (co_states core) trading) sink_with_order_intents (bt_strategy st) of
        (ended, sink, s) \<Rightarrow>
          rbind (strategy_ended ended) (\<lambda>_.
          let intents = fst (take_intents sink); sink' = snd (take_intents sink) in
          rbind (map_err (\<lambda>err. BacktestStrategy (BacktestOutputError err)) (into_event_records sink' occ)) (\<lambda>records.
          rbind (submit_intents hash (id_strategy_id (sy_identity strategy s)) occ trading 0 intents (bt_simulator st)) (\<lambda>(submitted, sims).
          let previous = (case multi_fills_for sims instrument of None \<Rightarrow> 0 | Some fills \<Rightarrow> length fills) in
          case multi_evaluate sims e occ trading of
            (Err err, _) \<Rightarrow> Err (BacktestSimulation err)
          | (Ok evaluated, sims') \<Rightarrow>
              rbind (ok_or (multi_fills_for sims' instrument) (BacktestSchedule ''event instrument is absent from simulator'')) (\<lambda>fills.
              rbind (book_fills instrument previous fills (bt_ledger st)) (\<lambda>ledger.
              rbind (process_multi_feedback hash strategy occ trading (submitted @ evaluated) False
                       (st\<lparr>bt_strategy := s, bt_output := output_extend (bt_output st) records, bt_simulator := sims',
                           bt_ledger := ledger\<rparr>)) (\<lambda>st'.
                Ok (st'\<lparr>bt_last_contexts := bm_insert instrument (occ, trading) (bt_last_contexts st')\<rparr>)))))))))))))"

subsection \<open>The run\<close>

text \<open>The mark of an instrument at the end: its last trade, or the exact middle of the best prices when allowed.\<close>

definition final_mark :: "market_state \<Rightarrow> bool \<Rightarrow> decimal option" where
  "final_mark state allow_midpoint_fallback =
     (case view_last_trade (st_recent_trade state) of
        LastKnown trade \<Rightarrow> Some (ot_price trade)
      | _ \<Rightarrow>
          if \<not> allow_midpoint_fallback then None
          else case (best_bid state, best_ask state) of
            (Some bid, Some ask) \<Rightarrow>
              Option.bind (checked_i128 (bl_price bid + bl_price ask)) (\<lambda>total.
                if even total then Some (total div 2) else None)
          | _ \<Rightarrow> None)"

definition settle_orders ::
  "(bytes \<Rightarrow> bytes) \<Rightarrow> 's strategy \<Rightarrow> (multi_simulator \<Rightarrow> order_feedback list \<times> multi_simulator) \<Rightarrow> instrument_id \<Rightarrow>
   's backtest_state \<Rightarrow> ('s backtest_state, simulation_error multi_backtest_error) result" where
  "settle_orders hash strategy cancel instrument st =
     (let (cancellations, sims) = cancel (bt_simulator st); st' = st\<lparr>bt_simulator := sims\<rparr> in
      if cancellations = [] then Ok st'
      else rbind (ok_or (bm_get (bt_last_contexts st') instrument) BacktestSequence) (\<lambda>(occ, trading).
             process_multi_feedback hash strategy occ trading cancellations True st'))"

record completed_multi_backtest =
  cb_replay :: "(instrument_id, market_state) bmap \<times> replay_summary"
  cb_strategy_output :: strategy_output
  cb_simulator :: multi_simulator
  cb_ledger :: multi_ledger
  cb_performance :: multi_performance_summary

definition check_universes ::
  "instrument_id list \<Rightarrow> (string \<times> instrument_id list) list \<Rightarrow> (unit, 'sim multi_backtest_error) result" where
  "check_universes core_instruments named =
     rfold (\<lambda>_ (name, instruments).
       if instruments \<noteq> core_instruments
       then Err (BacktestSchedule (name @ '' instrument universe differs from replay core'')) else Ok ()) () named"

definition check_sessions ::
  "strategy_declaration \<Rightarrow> multi_session_schedule \<Rightarrow> (unit, 'sim multi_backtest_error) result" where
  "check_sessions declaration schedule =
     (if sl_sessions declaration \<noteq> sort (remdups (map sg_kind (concat (bm_values schedule))))
      then Err (BacktestSchedule ''strategy sessions differ from session schedule'') else Ok ())"

text \<open>
  The callback of the merge. \<open>debug_text\<close> is the text Rust derives for an error; a panic unwinds through
  the merge, which the flag beside the state records.
\<close>

definition backtest_callback ::
  "(bytes \<Rightarrow> bytes) \<Rightarrow> (simulation_error multi_backtest_error \<Rightarrow> string) \<Rightarrow> 's strategy \<Rightarrow> multi_session_schedule \<Rightarrow>
   ('s backtest_state \<times> bool) replay_callback" where
  "backtest_callback hash debug_text strategy schedule core e cm c =
     (case process_multi_event hash strategy schedule core e cm (fst c) of
        (core', Ok st) \<Rightarrow> (Ok (), core', st, snd c)
      | (core', Err err) \<Rightarrow> (Err (debug_text err), core', fst c, snd c \<or> err = BacktestPanicked))"

text \<open>Everything after the merge: cancellations, marks, finalization, reconciliation and performance.\<close>

definition finalize_strategy ::
  "'s strategy \<Rightarrow> replay_core \<Rightarrow> 's \<Rightarrow> strategy_output \<Rightarrow> (strategy_output, 'sim multi_backtest_error) result" where
  "finalize_strategy strategy core s out =
     (case sy_finalize strategy \<lparr>zc_clock = co_clock core, zc_states = bm_values (co_states core)\<rparr> sink_new s of
        (ended, sink, s') \<Rightarrow>
          rbind (strategy_ended ended) (\<lambda>_.
          rbind (map_err (\<lambda>err. BacktestStrategy (BacktestOutputError err)) (into_finalize_records sink)) (\<lambda>records.
            Ok (output_extend out records))))"

definition final_marks :: "replay_core \<Rightarrow> bool \<Rightarrow> (instrument_id, decimal option) bmap" where
  "final_marks core allow_midpoint_fallback =
     bm_collect (map (\<lambda>state. (st_instrument state, final_mark state allow_midpoint_fallback)) (bm_values (co_states core)))"

definition finish_multi_backtest ::
  "(bytes \<Rightarrow> bytes) \<Rightarrow> 's strategy \<Rightarrow> bool \<Rightarrow> instrument_id list \<Rightarrow> replay_core \<Rightarrow> 's backtest_state \<Rightarrow>
   (completed_multi_backtest, simulation_error multi_backtest_error) result" where
  "finish_multi_backtest hash strategy allow_midpoint_fallback core_instruments core st0 =
     rbind (rfold (\<lambda>st (instrument, segment).
              settle_orders hash strategy (\<lambda>sims. multi_cancel_segment_end_for sims instrument segment) instrument st)
              st0 (bt_current_segments st0)) (\<lambda>st1.
     rbind (rfold (\<lambda>st instrument.
              settle_orders hash strategy (\<lambda>sims. multi_cancel_end_of_run_for sims instrument) instrument st)
              st1 core_instruments) (\<lambda>st2.
     rbind (finalize_strategy strategy core (bt_strategy st2) (bt_output st2)) (\<lambda>out.
     rbind (map_err (\<lambda>err. BacktestAccounting (AccountingFailed err)) (multi_reconcile (bt_ledger st2))) (\<lambda>_.
     rbind (map_err (\<lambda>err. BacktestAccounting (AccountingFailed err)) (multi_performance (bt_ledger st2) (final_marks core allow_midpoint_fallback))) (\<lambda>performance.
     rbind (map_err (\<lambda>err. BacktestReplay (BacktestReplayError err)) (complete_replay hash core)) (\<lambda>replayed.
       Ok \<lparr>cb_replay = replayed, cb_strategy_output = out, cb_simulator = bt_simulator st2,
           cb_ledger = bt_ledger st2, cb_performance = performance\<rparr>))))))"

definition run_multi_backtest ::
  "(bytes \<Rightarrow> bytes) \<Rightarrow> (simulation_error multi_backtest_error \<Rightarrow> string) \<Rightarrow> 'f stream_factory \<Rightarrow> 's strategy \<Rightarrow> replay_core \<Rightarrow> 's \<Rightarrow>
   replay_plan \<Rightarrow> 'f \<Rightarrow> multi_session_schedule \<Rightarrow> multi_simulator \<Rightarrow> multi_ledger \<Rightarrow> bool \<Rightarrow>
   (completed_multi_backtest, simulation_error multi_backtest_error) result" where
  "run_multi_backtest hash debug_text factory strategy core s plan f schedule sims ledger allow_midpoint_fallback =
     (let declaration = sy_declaration strategy s; core_instruments = map st_instrument (bm_values (co_states core)) in
      rbind (check_universes core_instruments
               [(''strategy'', sl_universe declaration), (''schedule'', bm_keys schedule),
                (''simulator'', bm_keys sims), (''ledger'', bm_keys (ml_ledgers ledger))]) (\<lambda>_.
      rbind (check_sessions declaration schedule) (\<lambda>_.
      case sy_initialize strategy declaration s of
        (ended, s') \<Rightarrow>
          rbind (strategy_ended ended) (\<lambda>_.
          let st = \<lparr>bt_strategy = s', bt_current_segments = [], bt_last_contexts = [], bt_simulator = sims, bt_ledger = ledger,
                    bt_output = strategy_output_new (sy_identity strategy s') (sy_params_checksum strategy s')\<rparr> in
          case replay_frozen_multi_with hash factory (backtest_callback hash debug_text strategy schedule) plan f core (st, False) of
            (Err err, core', st', panicked) \<Rightarrow>
              Err (if panicked then BacktestPanicked else BacktestReplay (BacktestReplayError err))
          | (Ok _, core', st', panicked) \<Rightarrow>
              finish_multi_backtest hash strategy allow_midpoint_fallback core_instruments core' st'))))"

section \<open>A callback that leaves the core alone\<close>

text \<open>
  What the merge does to the core does not depend on a callback that only watches it, and whatever each
  committed event and its accepted callback keep of the core and the callback's state holds at the end.
\<close>

lemma merge_loop_watched:
  assumes "\<And>core e cm c. fst (snd (callback core e cm c)) = core"
    and "merge_loop hash callback streams heads pending core c = (Ok (), core', c')"
  shows "merge_loop hash no_callback streams heads pending core () = (Ok (), core', ())"
  using assms(2,1)
proof (induction hash callback streams heads pending core c rule: merge_loop.induct)
  case (1 hash callback streams heads core c)
  then show ?case by simp
next
  case (2 hash callback streams heads key i pending core c)
  obtain e canonical where head: "i < length streams" "i < length heads" "heads ! i = Some (e, canonical)"
    using "2.prems"(1) by (auto split: if_splits option.splits)
  obtain committed core1 where applied: "apply_prepared_ordered hash core e key canonical = (Ok committed, core1)"
    using "2.prems"(1) head by (auto split: prod.splits result.splits)
  obtain c1 where called: "callback core1 e committed c = (Ok (), core1, c1)"
    using "2.prems" head applied by (auto split: prod.splits result.splits) (metis fst_conv snd_conv)
  show ?case
  proof (cases "streams ! i")
    case Nil
    then show ?thesis using 2 head applied called by simp
  next
    case (Cons x rest)
    then obtain "next" key' canonical' where "x = Ok next" "for_event_and_canonical hash next = Ok (key', canonical')"
      using "2.prems"(1) head applied called by (auto split: result.splits)
    then show ?thesis using 2 Cons head applied called by simp
  qed
qed

lemma merge_loop_keeps:
  assumes "merge_loop hash callback streams heads pending core c = (Ok (), core', c')"
    and "\<And>core e key canonical cm core1 core2 c c1. apply_prepared_ordered hash core e key canonical = (Ok cm, core1) \<Longrightarrow>
      callback core1 e cm c = (Ok (), core2, c1) \<Longrightarrow> P core c \<Longrightarrow> P core2 c1" and "P core c"
  shows "P core' c'"
  using assms
proof (induction hash callback streams heads pending core c rule: merge_loop.induct)
  case (1 hash callback streams heads core c)
  then show ?case by simp
next
  case (2 hash callback streams heads key i pending core c)
  obtain e canonical where head: "i < length streams" "i < length heads" "heads ! i = Some (e, canonical)"
    using "2.prems"(1) by (auto split: if_splits option.splits)
  obtain committed core1 where applied: "apply_prepared_ordered hash core e key canonical = (Ok committed, core1)"
    using "2.prems"(1) head by (auto split: prod.splits result.splits)
  obtain core2 c1 where called: "callback core1 e committed c = (Ok (), core2, c1)"
    using "2.prems"(1) head applied by (auto split: prod.splits result.splits)
  from "2.prems"(2) [OF applied this "2.prems"(3)] have "P core2 c1" .
  show ?case
  proof (cases "streams ! i")
    case Nil
    then show ?thesis using 2 head applied called \<open>P core2 c1\<close> by simp
  next
    case (Cons x rest)
    then obtain "next" key' canonical' where "x = Ok next" "for_event_and_canonical hash next = Ok (key', canonical')"
      using "2.prems"(1) head applied called by (auto split: result.splits)
    then show ?thesis using 2 Cons head applied called \<open>P core2 c1\<close> by simp
  qed
qed

section \<open>Simulators and ledgers move together\<close>

definition booked_fills :: "multi_ledger \<Rightarrow> instrument_id \<Rightarrow> fill_record list option" where
  "booked_fills m i = map_option (\<lambda>entry. ld_fills (il_ledger entry)) (bm_get (ml_ledgers m) i)"

text \<open>
  The invariant of a run: every simulator and the ledger are reachable, and instrument by instrument the
  ledger holds the fills of the simulator.
\<close>

definition run_inv :: "(bytes \<Rightarrow> bytes) \<Rightarrow> instrument_id list \<Rightarrow> multi_simulator \<Rightarrow> multi_ledger \<Rightarrow> bool" where
  "run_inv hash universe sims m \<longleftrightarrow> multi_reachable m \<and> (\<forall>i s. bm_get sims i = Some s \<longrightarrow> sim_reachable hash s) \<and>
     (\<forall>i. multi_fills_for sims i = booked_fills m i) \<and> (\<forall>i s. bm_get sims i = Some s \<longrightarrow> i \<in> set universe)"

lemma run_invI:
  "multi_reachable m \<Longrightarrow> (\<And>i s. bm_get sims i = Some s \<Longrightarrow> sim_reachable hash s \<and> i \<in> set universe) \<Longrightarrow>
   (\<And>i. multi_fills_for sims i = booked_fills m i) \<Longrightarrow> run_inv hash universe sims m"
  unfolding run_inv_def by blast

lemma run_invD:
  assumes "run_inv hash universe sims m"
  shows "bm_get sims i = Some s \<Longrightarrow> sim_reachable hash s" and "multi_reachable m" and "multi_fills_for sims i = booked_fills m i"
    and "bm_get sims i = Some s \<Longrightarrow> i \<in> set universe"
  using assms unfolding run_inv_def by blast+

text \<open>Intents a strategy hands over are values of their Rust types: quantities and limits in range.\<close>

definition emits_typed_intents :: "'s strategy \<Rightarrow> bool" where
  "emits_typed_intents strategy \<longleftrightarrow>
     (\<forall>ctxt s. list_all wf_intent (sk_intents (fst (snd (sy_on_event strategy ctxt sink_with_order_intents s))))) \<and>
     (\<forall>ctxt s. list_all wf_intent (sk_intents (fst (snd (sy_on_feedback strategy ctxt sink_with_order_intents s)))))"

lemma emits_typedD:
  assumes "emits_typed_intents strategy"
  shows "sy_on_event strategy ctxt sink_with_order_intents s = (ended, sink, s') \<Longrightarrow> list_all wf_intent (sk_intents sink)"
    and "sy_on_feedback strategy fctxt sink_with_order_intents s = (ended, sink, s') \<Longrightarrow> list_all wf_intent (sk_intents sink)"
  using assms unfolding emits_typed_intents_def by (metis fst_conv snd_conv)+

lemma submit_keeps_fills: "simulator_submit hash s strategy_id occ trading n intent = (r, s') \<Longrightarrow> sm_fills s' = sm_fills s"
  by (auto elim: submit_cases)

lemma evaluate_appends_fills:
  assumes "simulator_evaluate s e occ trading = (r, s')"
  obtains fills where "sm_fills s' = sm_fills s @ fills"
  using assms that
  by (auto simp: simulator_evaluate_def cancel_pending_market_orders_def cancel_orders_def split: if_splits prod.splits)

lemma run_inv_replace:
  assumes "run_inv hash universe sims m" and "bm_get sims i = Some s" and "sim_reachable hash s'" and "sm_fills s' = sm_fills s"
  shows "run_inv hash universe (bm_insert i s' sims) m"
proof -
  have "multi_fills_for (bm_insert i s' sims) j = multi_fills_for sims j" for j
    using assms(2,4) by (simp add: multi_fills_for_def)
  moreover have "sim_reachable hash x \<and> j \<in> set universe" if "bm_get (bm_insert i s' sims) j = Some x" for j x
    using that assms(2,3) run_invD(1,4) [OF assms(1)] by (cases "j = i") auto
  ultimately show ?thesis using run_invD(2,3) [OF assms(1)] by (intro run_invI) simp_all
qed

lemma run_inv_submit:
  assumes "run_inv hash universe sims m" and "wf_intent intent"
    and "multi_submit hash sims strategy_id occ trading n intent = (r, sims')"
  shows "run_inv hash universe sims' m"
proof (cases "bm_get sims (oi_instrument intent)")
  case None
  then show ?thesis using assms by (simp add: multi_submit_def)
next
  case (Some s)
  obtain r' s' where sub: "simulator_submit hash s strategy_id occ trading n intent = (r', s')" by (cases "simulator_submit hash s strategy_id occ trading n intent")
  have "sim_reachable hash s'"
    by (rule sim_reachable.submitted [OF run_invD(1) [OF assms(1) Some] assms(2) sub])
  then show ?thesis
    using run_inv_replace [OF assms(1) Some _ submit_keeps_fills [OF sub]] assms(3) Some sub by (simp add: multi_submit_def)
qed

lemma run_inv_submit_intents:
  "submit_intents hash strategy_id occ trading n intents sims = Ok (feedback, sims') \<Longrightarrow> list_all wf_intent intents \<Longrightarrow>
   run_inv hash universe sims m \<Longrightarrow> run_inv hash universe sims' m"
proof (induction intents arbitrary: n sims feedback)
  case (Cons intent intents)
  obtain r sims1 where sub: "multi_submit hash sims strategy_id occ trading (n + 1) intent = (Ok r, sims1)"
    using Cons.prems(1) by (auto split: if_splits prod.splits result.splits)
  then show ?case
    using Cons.IH [of "n + 1" sims1] run_inv_submit [OF Cons.prems(3) _ sub] Cons.prems(1,2)
    by (auto split: if_splits)
qed simp

lemma run_inv_cancel:
  assumes "run_inv hash universe sims m" and "multi_cancel_one cancel sims i = (feedback, sims')"
    and "\<And>s. sim_reachable hash s \<Longrightarrow> sim_reachable hash (snd (cancel s)) \<and> sm_fills (snd (cancel s)) = sm_fills s"
  shows "run_inv hash universe sims' m"
proof (cases "bm_get sims i")
  case None
  then show ?thesis using assms(1,2) by (simp add: multi_cancel_one_def)
next
  case (Some s)
  then have "sim_reachable hash (snd (cancel s)) \<and> sm_fills (snd (cancel s)) = sm_fills s"
    using assms(3) run_invD(1) [OF assms(1) Some] by blast
  then show ?thesis
    using run_inv_replace [OF assms(1) Some] assms(2) Some by (auto simp: multi_cancel_one_def split: prod.splits)
qed

lemma cancel_end_reachable:
  "sim_reachable hash s \<Longrightarrow> sim_reachable hash (snd (cancel_end_of_run s)) \<and> sm_fills (snd (cancel_end_of_run s)) = sm_fills s"
  using sim_reachable.run_ended [of hash s "fst (cancel_end_of_run s)" "snd (cancel_end_of_run s)"]
  by (simp add: cancel_end_of_run_def cancel_orders_def)

lemma cancel_segment_reachable:
  "sim_reachable hash s \<Longrightarrow>
   sim_reachable hash (snd (cancel_segment_end s segment)) \<and> sm_fills (snd (cancel_segment_end s segment)) = sm_fills s"
  using sim_reachable.segment_ended [of hash s segment "fst (cancel_segment_end s segment)" "snd (cancel_segment_end s segment)"]
  by (simp add: cancel_segment_end_def cancel_orders_def)

lemma apply_fill_books:
  assumes "multi_apply_fill m i f = Ok m'"
  shows "booked_fills m' j = (if j = i then map_option (\<lambda>fills. fills @ [f]) (booked_fills m i) else booked_fills m j)"
proof -
  obtain entry l' where "bm_get (ml_ledgers m) i = Some entry" "ledger_apply_fill (il_ledger entry) f = Ok l'"
      "ml_ledgers m' = bm_insert i (entry\<lparr>il_ledger := l'\<rparr>) (ml_ledgers m)"
    using assms by (auto simp: multi_apply_fill_def split: if_splits)
  moreover from this(2) have "ld_fills l' = ld_fills (il_ledger entry) @ [f]"
    by (auto simp: ledger_apply_fill_def)
  ultimately show ?thesis by (simp add: booked_fills_def)
qed

lemma apply_fills_books:
  "rfold (\<lambda>m fill. multi_apply_fill m i fill) m fills = Ok m' \<Longrightarrow> multi_reachable m \<Longrightarrow>
   multi_reachable m' \<and> booked_fills m' j = (if j = i then map_option (\<lambda>old. old @ fills) (booked_fills m i) else booked_fills m j)"
proof (induction fills arbitrary: m)
  case Nil
  then show ?case by (simp add: option.map_ident)
next
  case (Cons f fills)
  then obtain m1 where "multi_apply_fill m i f = Ok m1" "rfold (\<lambda>m fill. multi_apply_fill m i fill) m1 fills = Ok m'" by auto
  then show ?case
    using Cons.IH [of m1] multi_reachable.fill [OF Cons.prems(2)] apply_fill_books [of m i f m1]
    by (auto simp: option.map_comp comp_def)
qed

lemma run_inv_evaluate:
  assumes "run_inv hash universe sims m" and "multi_evaluate sims e occ trading = (r, sims')"
    and "multi_fills_for sims' (ev_instrument e) = Some fills"
    and "book_fills (ev_instrument e) (case multi_fills_for sims (ev_instrument e) of None \<Rightarrow> 0 | Some fs \<Rightarrow> length fs) fills m = Ok m'"
  shows "run_inv hash universe sims' m'"
proof -
  let ?i = "ev_instrument e"
  obtain s where s: "bm_get sims ?i = Some s"
    using assms(2,3) by (cases "bm_get sims ?i") (auto simp: multi_evaluate_def multi_fills_for_def)
  obtain s' where ev: "simulator_evaluate s e occ trading = (r, s')" and sims': "sims' = bm_insert ?i s' sims"
    using assms(2) s by (auto simp: multi_evaluate_def split: prod.splits)
  obtain new where new: "sm_fills s' = sm_fills s @ new" using evaluate_appends_fills [OF ev] .
  have "sim_reachable hash s'" by (rule sim_reachable.evaluated [OF run_invD(1) [OF assms(1) s] ev])
  moreover have "rfold (\<lambda>m fill. multi_apply_fill m ?i fill) m new = Ok m'"
    using assms(3,4) s sims' new by (auto simp: book_fills_def multi_fills_for_def)
  then have "multi_reachable m'"
    "\<And>j. booked_fills m' j = (if j = ?i then map_option (\<lambda>old. old @ new) (booked_fills m ?i) else booked_fills m j)"
    using apply_fills_books run_invD(2) [OF assms(1)] by blast+
  moreover have "multi_fills_for sims' j = (if j = ?i then map_option (\<lambda>old. old @ new) (multi_fills_for sims ?i) else multi_fills_for sims j)" for j
    using s sims' new by (simp add: multi_fills_for_def)
  moreover have "sim_reachable hash x \<and> j \<in> set universe" if "bm_get sims' j = Some x" for j x
    using that s sims' \<open>sim_reachable hash s'\<close> run_invD(1,4) [OF assms(1)] by (cases "j = ?i") auto
  ultimately show ?thesis using run_invD(3) [OF assms(1)] by (intro run_invI) simp_all
qed

section \<open>The coordinator keeps the invariant\<close>

abbreviation state_inv :: "(bytes \<Rightarrow> bytes) \<Rightarrow> instrument_id list \<Rightarrow> 's backtest_state \<Rightarrow> bool" where
  "state_inv hash universe st \<equiv> run_inv hash universe (bt_simulator st) (bt_ledger st)"

lemma feedback_inv:
  assumes "process_multi_feedback hash strategy occ trading feedback reject st = Ok st'"
    and "emits_typed_intents strategy" and "state_inv hash universe st"
  shows "state_inv hash universe st'"
proof (cases "feedback = []")
  case True
  then show ?thesis using assms by (simp add: process_multi_feedback_def)
next
  case False
  obtain ended sink s where call: "sy_on_feedback strategy \<lparr>fx_feedback = feedback, fx_execution_fills = []\<rparr>
      sink_with_order_intents (bt_strategy st) = (ended, sink, s)" by (rule prod_cases3)
  obtain fb sims where sub: "submit_intents hash (id_strategy_id (sy_identity strategy s)) occ trading 0 (sk_intents sink) (bt_simulator st) = Ok (fb, sims)"
      "bt_simulator st' = sims" "bt_ledger st' = bt_ledger st"
    using assms(1) False call by (auto simp: process_multi_feedback_def take_intents_def Let_def split: if_splits)
  show ?thesis
    using run_inv_submit_intents [OF sub(1) emits_typedD(2) [OF assms(2) call] assms(3)] sub(2,3) by simp
qed

lemma rejecting_feedback_keeps:
  assumes "process_multi_feedback hash strategy occ trading feedback True st = Ok st'"
  shows "bt_simulator st' = bt_simulator st \<and> bt_ledger st' = bt_ledger st"
  using assms by (auto simp: process_multi_feedback_def take_intents_def Let_def split: if_splits prod.splits)

lemma leave_segment_inv:
  assumes "leave_segment hash strategy instrument segment occ trading st = Ok st'"
    and "emits_typed_intents strategy" and "state_inv hash universe st"
  shows "state_inv hash universe st'"
proof (cases "\<exists>p. bm_get (bt_current_segments st) instrument = Some p \<and> p \<noteq> segment")
  case False
  then show ?thesis using assms by (auto simp: leave_segment_def Let_def split: option.splits if_splits)
next
  case True
  then obtain p where p: "bm_get (bt_current_segments st) instrument = Some p" "p \<noteq> segment" by blast
  obtain cancellations sims where c: "multi_cancel_segment_end_for (bt_simulator st) instrument p = (cancellations, sims)"
    by (cases "multi_cancel_segment_end_for (bt_simulator st) instrument p")
  have "run_inv hash universe sims (bt_ledger st)"
    by (rule run_inv_cancel [OF assms(3) c [unfolded multi_cancel_segment_end_for_def]]) (rule cancel_segment_reachable)
  then show ?thesis
    using assms(1) p c by (auto simp: leave_segment_def Let_def intro: feedback_inv [OF _ assms(2)])
qed

text \<open>The stages of an event the run accepts.\<close>

lemma event_stages:
  assumes "process_multi_event hash strategy schedule core e cm st0 = (core1, Ok st1)"
  obtains segment state trading st ended sink s records submitted sims evaluated sims' fills ledger st' where
    "core1 = core" "segment_for schedule (ev_instrument e) (ev_match_time e) = Some segment"
    "leave_segment hash strategy (ev_instrument e) (sg_id segment) (cc_occurrence cm) trading st0 = Ok st"
    "sy_on_event strategy (event_context (cc_occurrence cm) e state (co_states core) trading) sink_with_order_intents (bt_strategy st) =
       (ended, sink, s)"
    "into_event_records (sink\<lparr>sk_intents := []\<rparr>) (cc_occurrence cm) = Ok records"
    "submit_intents hash (id_strategy_id (sy_identity strategy s)) (cc_occurrence cm) trading 0 (sk_intents sink) (bt_simulator st) =
       Ok (submitted, sims)"
    "multi_evaluate sims e (cc_occurrence cm) trading = (Ok evaluated, sims')"
    "multi_fills_for sims' (ev_instrument e) = Some fills"
    "book_fills (ev_instrument e) (case multi_fills_for sims (ev_instrument e) of None \<Rightarrow> 0 | Some fs \<Rightarrow> length fs) fills (bt_ledger st) =
       (Ok ledger :: (multi_ledger, simulation_error multi_backtest_error) result)"
    "process_multi_feedback hash strategy (cc_occurrence cm) trading (submitted @ evaluated) False
       (st\<lparr>bt_strategy := s, bt_output := output_extend (bt_output st) records, bt_simulator := sims', bt_ledger := ledger\<rparr>) = Ok st'"
    "st1 = st'\<lparr>bt_last_contexts := bm_insert (ev_instrument e) (cc_occurrence cm, trading) (bt_last_contexts st')\<rparr>"
proof -
  let ?i = "ev_instrument e" and ?occ = "cc_occurrence cm"
  obtain segment state trading st where pre: "core1 = core" "segment_for schedule ?i (ev_match_time e) = Some segment"
      "bm_get (co_states core) ?i = Some state" "evaluate_context e ?occ state segment = Ok trading"
      "leave_segment hash strategy ?i (sg_id segment) ?occ trading st0 = Ok st"
    using assms by (auto simp: process_multi_event_def Let_def)
  obtain ended sink s where call: "sy_on_event strategy (event_context ?occ e state (co_states core) trading)
      sink_with_order_intents (bt_strategy st) = (ended, sink, s)" by (rule prod_cases3)
  obtain submitted sims records where sub: "submit_intents hash (id_strategy_id (sy_identity strategy s)) ?occ trading 0 (sk_intents sink)
      (bt_simulator st) = Ok (submitted, sims)" "into_event_records (sink\<lparr>sk_intents := []\<rparr>) ?occ = Ok records"
      "strategy_ended ended = (Ok () :: (unit, simulation_error multi_backtest_error) result)"
    using assms pre call by (auto simp: process_multi_event_def Let_def take_intents_def)
  obtain evaluated sims' where ev: "multi_evaluate sims e ?occ trading = (Ok evaluated, sims')"
    using assms pre call sub by (auto simp: process_multi_event_def Let_def take_intents_def split: prod.splits result.splits)
  obtain fills where fills: "multi_fills_for sims' ?i = Some fills"
    using assms pre call sub ev by (auto simp: process_multi_event_def Let_def take_intents_def)
  obtain ledger where ledger:
      "book_fills ?i (case multi_fills_for sims ?i of None \<Rightarrow> 0 | Some fs \<Rightarrow> length fs) fills (bt_ledger st) =
         (Ok ledger :: (multi_ledger, simulation_error multi_backtest_error) result)"
    using assms pre call sub ev fills by (auto simp: process_multi_event_def Let_def take_intents_def)
  obtain st' where st': "process_multi_feedback hash strategy ?occ trading (submitted @ evaluated) False
         (st\<lparr>bt_strategy := s, bt_output := output_extend (bt_output st) records, bt_simulator := sims', bt_ledger := ledger\<rparr>) = Ok st'"
      "st1 = st'\<lparr>bt_last_contexts := bm_insert ?i (?occ, trading) (bt_last_contexts st')\<rparr>"
    using assms pre call sub ev fills ledger by (auto simp: process_multi_event_def Let_def take_intents_def)
  show ?thesis by (rule that [OF pre(1,2,5) call sub(2,1) ev fills ledger st'])
qed

lemma event_inv:
  assumes "process_multi_event hash strategy schedule core e cm st0 = (core1, Ok st1)"
    and "emits_typed_intents strategy" and "state_inv hash universe st0"
  shows "state_inv hash universe st1"
proof (rule event_stages [OF assms(1)], goal_cases)
  case (1 segment state trading st ended sink s records submitted sims evaluated sims' fills ledger st')
  have "state_inv hash universe st" by (rule leave_segment_inv [OF 1(3) assms(2,3)])
  then have "run_inv hash universe sims (bt_ledger st)"
    by (rule run_inv_submit_intents [OF 1(6) emits_typedD(1) [OF assms(2) 1(4)]])
  then have "run_inv hash universe sims' ledger" by (rule run_inv_evaluate [OF _ 1(7-9)])
  then have "state_inv hash universe st'" using feedback_inv [OF 1(10) assms(2)] by simp
  then show ?case using 1(11) by simp
qed

lemma merged_inv:
  assumes "replay_frozen_multi_with hash factory (backtest_callback hash debug_text strategy schedule) plan f core (st, False) =
      (Ok (), core', st', panicked)"
    and "emits_typed_intents strategy" and "state_inv hash universe st"
  shows "state_inv hash universe st'"
proof -
  obtain streams heads pending where "merge_loop hash (backtest_callback hash debug_text strategy schedule) streams heads pending core (st, False) =
      (Ok (), core', st', panicked)"
    using assms(1) by (auto simp: replay_frozen_multi_with_def split: result.splits prod.splits)
  then have "(\<lambda>core c. state_inv hash universe (fst c)) core' (st', panicked)"
  proof (rule merge_loop_keeps)
    fix core e key canonical cm core1 core2 c c1
    assume "backtest_callback hash debug_text strategy schedule core1 e cm c = (Ok (), core2, c1)"
    then have "process_multi_event hash strategy schedule core1 e cm (fst c) = (core2, Ok (fst c1))"
      by (auto simp: backtest_callback_def split: result.splits prod.splits)
    then show "state_inv hash universe (fst c) \<Longrightarrow> state_inv hash universe (fst c1)" by (rule event_inv [OF _ assms(2)])
  qed (simp add: assms(3))
  then show ?thesis by simp
qed

lemma merged_core:
  assumes "replay_frozen_multi_with hash factory (backtest_callback hash debug_text strategy schedule) plan f core c =
      (Ok (), core', c')"
  shows "replay_frozen_multi hash factory plan f core = (Ok (), core')"
proof -
  obtain streams heads pending where p: "rbind (open_streams core factory (rp_bindings plan) f) (prime_heads hash 0) = Ok (streams, heads, pending)"
      and m: "merge_loop hash (backtest_callback hash debug_text strategy schedule) streams heads pending core c = (Ok (), core', c')"
    using assms by (auto simp: replay_frozen_multi_with_def split: result.splits prod.splits)
  have "fst (snd (backtest_callback hash debug_text strategy schedule core e cm c)) = core" for core e cm c
    by (simp add: backtest_callback_def process_multi_event_def Let_def split: result.splits)
  from merge_loop_watched [OF this m] show ?thesis
    by (simp only: replay_frozen_multi_def replay_frozen_multi_with_def p result.case prod.case)
qed

section \<open>The end of a run\<close>

lemma settle_orders_effect:
  assumes "settle_orders hash strategy cancel i st = Ok st'"
  shows "bt_simulator st' = snd (cancel (bt_simulator st)) \<and> bt_ledger st' = bt_ledger st"
proof -
  obtain cancellations sims where c: "cancel (bt_simulator st) = (cancellations, sims)" by (cases "cancel (bt_simulator st)")
  show ?thesis
    using assms rejecting_feedback_keeps [of hash strategy _ _ cancellations "st\<lparr>bt_simulator := sims\<rparr>" st']
    by (auto simp: settle_orders_def Let_def c split: if_splits)
qed

lemma settle_segments_inv:
  "rfold (\<lambda>st (instrument, segment).
      settle_orders hash strategy (\<lambda>sims. multi_cancel_segment_end_for sims instrument segment) instrument st) st segments = Ok st' \<Longrightarrow>
   state_inv hash universe st \<Longrightarrow> state_inv hash universe st'"
proof (induction segments arbitrary: st)
  case (Cons x segments)
  obtain i segment where x: "x = (i, segment)" by (cases x)
  obtain st1 where st1: "settle_orders hash strategy (\<lambda>sims. multi_cancel_segment_end_for sims i segment) i st = Ok st1"
    using Cons.prems(1) x by auto
  obtain fb sims where c: "multi_cancel_one (\<lambda>s. cancel_segment_end s segment) (bt_simulator st) i = (fb, sims)"
    by (cases "multi_cancel_one (\<lambda>s. cancel_segment_end s segment) (bt_simulator st) i")
  have "run_inv hash universe sims (bt_ledger st)"
    by (rule run_inv_cancel [OF Cons.prems(2) c]) (rule cancel_segment_reachable)
  then have "state_inv hash universe st1"
    using settle_orders_effect [OF st1] c by (simp add: multi_cancel_segment_end_for_def)
  then show ?case using Cons.IH Cons.prems(1) st1 x by simp
qed simp

definition settled :: "multi_simulator \<Rightarrow> instrument_id \<Rightarrow> bool" where
  "settled sims i \<longleftrightarrow> (\<forall>s. bm_get sims i = Some s \<longrightarrow> (\<forall>ord \<in> set (sm_orders s). \<not> is_live ord))"

lemma cancel_end_settles: "ord \<in> set (sm_orders (snd (cancel_end_of_run s))) \<Longrightarrow> \<not> is_live ord"
  by (auto simp: cancel_end_of_run_def cancel_orders_def is_live_def)

lemma cancel_end_settled:
  assumes "multi_cancel_one cancel_end_of_run sims i = (fb, sims')"
  shows "settled sims' i" and "settled sims j \<Longrightarrow> settled sims' j"
proof -
  have none: "\<not> is_live ord" if "cancel_end_of_run s = (fb, s')" "ord \<in> set (sm_orders s')" for s s' ord
    using cancel_end_settles [of ord s] that by simp
  show "settled sims' i" "settled sims j \<Longrightarrow> settled sims' j"
    using assms none by (auto simp: settled_def multi_cancel_one_def split: option.splits prod.splits if_splits)
qed

lemma settle_run_inv:
  "rfold (\<lambda>st instrument. settle_orders hash strategy (\<lambda>sims. multi_cancel_end_of_run_for sims instrument) instrument st) st instruments = Ok st' \<Longrightarrow>
   state_inv hash universe st \<Longrightarrow>
   state_inv hash universe st' \<and> (\<forall>i. i \<in> set instruments \<or> settled (bt_simulator st) i \<longrightarrow> settled (bt_simulator st') i)"
proof (induction instruments arbitrary: st)
  case (Cons i instruments)
  obtain st1 where st1: "settle_orders hash strategy (\<lambda>sims. multi_cancel_end_of_run_for sims i) i st = Ok st1"
      "rfold (\<lambda>st instrument. settle_orders hash strategy (\<lambda>sims. multi_cancel_end_of_run_for sims instrument) instrument st) st1 instruments = Ok st'"
    using Cons.prems(1) by auto
  obtain fb sims where c: "multi_cancel_one cancel_end_of_run (bt_simulator st) i = (fb, sims)"
    by (cases "multi_cancel_one cancel_end_of_run (bt_simulator st) i")
  have "run_inv hash universe sims (bt_ledger st)"
    by (rule run_inv_cancel [OF Cons.prems(2) c]) (rule cancel_end_reachable)
  then have "state_inv hash universe st1" and sims: "bt_simulator st1 = sims"
    using settle_orders_effect [OF st1(1)] c by (simp_all add: multi_cancel_end_of_run_for_def)
  from Cons.IH [OF st1(2) this(1)] show ?case
    using cancel_end_settled [OF c] by (metis set_ConsD sims)
qed simp

lemma completed_run:
  assumes "run_multi_backtest hash debug_text factory strategy core s plan f schedule sims ledger allow = Ok run"
  obtains s' core' st' st1 st2 panicked out where
    "bm_keys sims = map st_instrument (bm_values (co_states core))"
    "bm_keys (ml_ledgers ledger) = map st_instrument (bm_values (co_states core))"
    "replay_frozen_multi_with hash factory (backtest_callback hash debug_text strategy schedule) plan f core
       (\<lparr>bt_strategy = s', bt_current_segments = [], bt_last_contexts = [], bt_simulator = sims, bt_ledger = ledger, bt_output = out\<rparr>, False) =
       (Ok (), core', st', panicked)"
    "rfold (\<lambda>st (instrument, segment).
       settle_orders hash strategy (\<lambda>sims. multi_cancel_segment_end_for sims instrument segment) instrument st)
       st' (bt_current_segments st') = Ok st1"
    "rfold (\<lambda>st instrument. settle_orders hash strategy (\<lambda>sims. multi_cancel_end_of_run_for sims instrument) instrument st)
       st1 (map st_instrument (bm_values (co_states core))) = Ok st2"
    "complete_replay hash core' = Ok (cb_replay run)" "cb_simulator run = bt_simulator st2" "cb_ledger run = bt_ledger st2"
    "multi_reconcile (cb_ledger run) = Ok ()" "out_records out = []"
    "finalize_strategy strategy core' (bt_strategy st2) (bt_output st2) =
       (Ok (cb_strategy_output run) :: (strategy_output, simulation_error multi_backtest_error) result)"
proof -
  define core_instruments where "core_instruments = map st_instrument (bm_values (co_states core))"
  obtain ended s' where init: "sy_initialize strategy (sy_declaration strategy s) s = (ended, s')"
    by (cases "sy_initialize strategy (sy_declaration strategy s) s")
  define st where "st = \<lparr>bt_strategy = s', bt_current_segments = [], bt_last_contexts = [], bt_simulator = sims, bt_ledger = ledger,
    bt_output = strategy_output_new (sy_identity strategy s') (sy_params_checksum strategy s')\<rparr>"
  have keys: "bm_keys sims = core_instruments" "bm_keys (ml_ledgers ledger) = core_instruments"
    using assms by (simp_all add: run_multi_backtest_def Let_def check_universes_def core_instruments_def split: if_splits)
  obtain core' st' panicked where merged: "replay_frozen_multi_with hash factory (backtest_callback hash debug_text strategy schedule) plan f core (st, False) =
      (Ok (), core', st', panicked)"
      and fin: "finish_multi_backtest hash strategy allow core_instruments core' st' = Ok run"
    using assms init by (auto simp: run_multi_backtest_def Let_def st_def core_instruments_def split: prod.splits result.splits)
  from fin show thesis
    using that [OF keys [unfolded core_instruments_def] merged [unfolded st_def]]
    by (auto simp: finish_multi_backtest_def core_instruments_def strategy_output_new_def)
qed

lemma insert_simulators_fresh:
  "rfold insert_simulator sims configs = Ok sims' \<Longrightarrow>
   (\<And>i s. bm_get sims i = Some s \<Longrightarrow> sim_reachable hash s \<and> sm_fills s = []) \<Longrightarrow>
   bm_get sims' i = Some s \<Longrightarrow> sim_reachable hash s \<and> sm_fills s = []"
proof (induction configs arbitrary: sims)
  case (Cons c configs)
  obtain j un model policy where c: "c = (j, un, model, policy)" by (cases c)
  let ?s = "simulator_new_with_price_policy [j] un model policy"
  have rest: "rfold insert_simulator (bm_insert j ?s sims) configs = Ok sims'"
    using Cons.prems(1) insert_simulator_def [of sims c] c by (auto split: if_splits)
  have "sim_reachable hash x \<and> sm_fills x = []" if "bm_get (bm_insert j ?s sims) k = Some x" for k x
    using that Cons.prems(2) sim_reachable.fresh [of hash "[j]" un model policy]
    by (cases "k = j") (auto simp: simulator_new_with_price_policy_def)
  then show ?case using Cons.IH [OF rest _ Cons.prems(3)] by blast
qed auto

lemma add_ledgers_fresh:
  "rfold add_ledger_config ledgers configs = Ok ledgers' \<Longrightarrow>
   (\<And>i e. bm_get ledgers i = Some e \<Longrightarrow> ld_fills (il_ledger e) = []) \<Longrightarrow>
   bm_get ledgers' i = Some e \<Longrightarrow> ld_fills (il_ledger e) = []"
proof (induction configs arbitrary: ledgers)
  case (Cons c configs)
  have rest: "rfold add_ledger_config (bm_insert (lc_instrument c) (fresh_entry c) ledgers) configs = Ok ledgers'"
    using Cons.prems(1) add_ledger_config_def [of ledgers c] by (auto split: if_splits)
  have "ld_fills (il_ledger x) = []" if "bm_get (bm_insert (lc_instrument c) (fresh_entry c) ledgers) k = Some x" for k x
    using that Cons.prems(2)
    by (cases "k = lc_instrument c") (auto simp: fresh_entry_def with_optional_day_trade_tax_def ledger_new_with_model_def split: option.splits)
  then show ?case using Cons.IH [OF rest _ Cons.prems(3)] by blast
qed auto

lemma fresh_run_inv:
  assumes "multi_simulator_new configs = Ok sims" and "multi_ledger_new cash ledger_configs = Ok ledger"
    and keys: "bm_keys sims = universe" "bm_keys (ml_ledgers ledger) = universe"
  shows "run_inv hash universe sims ledger"
proof (rule run_invI)
  show "multi_reachable ledger" by (rule multi_reachable.fresh [OF assms(2)])
  have sims: "sim_reachable hash s \<and> sm_fills s = []" if "bm_get sims i = Some s" for i s
    using insert_simulators_fresh [of "[]" configs sims hash i s] assms(1) that
    by (auto simp: multi_simulator_new_def bm_get_def split: if_splits)
  then show "bm_get sims i = Some s \<Longrightarrow> sim_reachable hash s \<and> i \<in> set universe" for i s
    using bm_get_Some_in [of sims i s] unfolding keys(1) [symmetric] by (auto simp: rev_image_eqI)
  have fresh: "ld_fills (il_ledger e) = []" if "bm_get (ml_ledgers ledger) i = Some e" for i e
    using add_ledgers_fresh [of "[]" ledger_configs "ml_ledgers ledger" i e] assms(2) that
    by (auto simp: multi_ledger_new_def bm_get_def split: if_splits)
  have same: "bm_get sims i = None \<longleftrightarrow> bm_get (ml_ledgers ledger) i = None" for i
    using keys by (simp add: bm_get_def map_of_eq_None_iff flip: set_map)
  show "multi_fills_for sims i = booked_fills ledger i" for i
    using sims [of i] fresh [of i] same [of i] unfolding multi_fills_for_def booked_fills_def
    by (cases "bm_get sims i"; cases "bm_get (ml_ledgers ledger) i") auto
qed

lemma completed_inv:
  assumes "run_multi_backtest hash debug_text factory strategy core s plan f schedule sims ledger allow = Ok run"
    and "multi_simulator_new configs = Ok sims" and "multi_ledger_new cash ledger_configs = Ok ledger"
    and "emits_typed_intents strategy"
  shows "run_inv hash (map st_instrument (bm_values (co_states core))) (cb_simulator run) (cb_ledger run) \<and>
    (\<forall>i \<in> set (map st_instrument (bm_values (co_states core))). settled (cb_simulator run) i)"
proof (rule completed_run [OF assms(1)], goal_cases)
  case (1 s' core' st' st1 st2 panicked out)
  let ?universe = "map st_instrument (bm_values (co_states core))"
  have start: "run_inv hash ?universe sims ledger" by (rule fresh_run_inv [OF assms(2,3) 1(1,2)])
  have "state_inv hash ?universe st'" using merged_inv [OF 1(3) assms(4)] start by simp
  then have "state_inv hash ?universe st1" by (rule settle_segments_inv [OF 1(4)])
  from settle_run_inv [OF 1(5) this] show ?case unfolding 1(7,8) by blast
qed

section \<open>The records of a run\<close>

text \<open>The event a record belongs to; the records of the finalization belong to none.\<close>

fun record_ordinal :: "strategy_output_record \<Rightarrow> nat option" where
  "record_ordinal (EventIndicator n fingerprint version sequence name v) = Some n"
| "record_ordinal (EventCashCharge n fingerprint version sequence amount category reference) = Some n"
| "record_ordinal _ = None"

text \<open>A strategy that gives an indicator on every event.\<close>

definition indicates_events :: "'s strategy \<Rightarrow> bool" where
  "indicates_events strategy \<longleftrightarrow>
     (\<forall>ctxt s. sk_pending (fst (snd (sy_on_event strategy ctxt sink_with_order_intents s))) \<noteq> [])"

text \<open>The records an event leaves: all of its ordinal, and at least one when the strategy gives one.\<close>

definition event_block :: "'s strategy \<Rightarrow> nat \<Rightarrow> strategy_output_record list \<Rightarrow> bool" where
  "event_block strategy n records \<longleftrightarrow>
     (\<forall>r \<in> set records. record_ordinal r = Some n) \<and> (indicates_events strategy \<longrightarrow> records \<noteq> [])"

definition ordinals_within :: "nat \<Rightarrow> nat \<Rightarrow> strategy_output_record list \<Rightarrow> bool" where
  "ordinals_within low high records \<longleftrightarrow> (\<forall>r \<in> set records. \<exists>n. record_ordinal r = Some n \<and> low < n \<and> n \<le> high)"

text \<open>What the merge keeps: one block for each event so far, and contexts of events already processed.\<close>

definition run_reports :: "'s strategy \<Rightarrow> nat \<Rightarrow> replay_core \<Rightarrow> 's backtest_state \<Rightarrow> bool" where
  "run_reports strategy start core st \<longleftrightarrow>
     (\<exists>blocks. event_ordinal (co_clock core) = start + length blocks \<and> out_records (bt_output st) = concat blocks \<and>
        (\<forall>n < length blocks. event_block strategy (Suc (start + n)) (blocks ! n))) \<and>
     (\<forall>i occ trading. bm_get (bt_last_contexts st) i = Some (occ, trading) \<longrightarrow>
        start < eo_run_event_ordinal occ \<and> eo_run_event_ordinal occ \<le> event_ordinal (co_clock core))"

lemma event_records_report:
  assumes "into_event_records k occ = Ok records"
  shows "\<forall>r \<in> set records. record_ordinal r = Some (eo_run_event_ordinal occ)" and "sk_pending k \<noteq> [] \<Longrightarrow> records \<noteq> []"
proof -
  obtain a b where records: "records = a @ b"
      "number_records (\<lambda>sequence (name, v). EventIndicator (eo_run_event_ordinal occ) (eo_event_fingerprint occ)
         (eo_instrument_state_version occ) sequence name v) 0 (sk_pending k) = Ok a"
      "number_records (\<lambda>sequence c. EventCashCharge (eo_run_event_ordinal occ) (eo_event_fingerprint occ)
         (eo_instrument_state_version occ) sequence (cq_amount c) (cq_category c) (cq_reference c)) (length a) (sk_cash_charges k) = Ok b"
    using assms by (auto simp: into_event_records_def)
  have numbered: "number_records mk n xs = Ok rs \<Longrightarrow>
      length rs = length xs \<and> (\<forall>r \<in> set rs. \<exists>m x. r = mk m x)" for mk :: "nat \<Rightarrow> 'a \<Rightarrow> strategy_output_record" and n xs rs
    by (induction xs arbitrary: n rs) (force split: if_splits)+
  show "\<forall>r \<in> set records. record_ordinal r = Some (eo_run_event_ordinal occ)"
    using numbered [OF records(2)] numbered [OF records(3)] unfolding records(1) by fastforce
  show "sk_pending k \<noteq> [] \<Longrightarrow> records \<noteq> []" using numbered [OF records(2)] records(1) by auto
qed

lemma feedback_reports:
  assumes "process_multi_feedback hash strategy occ trading feedback reject st = Ok st'"
  obtains records where "bt_output st' = output_extend (bt_output st) records"
    and "\<forall>r \<in> set records. record_ordinal r = Some (eo_run_event_ordinal occ)" and "bt_last_contexts st' = bt_last_contexts st"
proof (cases "feedback = []")
  case True
  then show ?thesis using that [of "[]"] assms by (simp add: process_multi_feedback_def output_extend_def)
next
  case False
  obtain ended sink s where call: "sy_on_feedback strategy \<lparr>fx_feedback = feedback, fx_execution_fills = []\<rparr>
      sink_with_order_intents (bt_strategy st) = (ended, sink, s)" by (rule prod_cases3)
  obtain records where records: "into_event_records (sink\<lparr>sk_intents := []\<rparr>) occ = Ok records"
      "bt_output st' = output_extend (bt_output st) records" "bt_last_contexts st' = bt_last_contexts st"
    using assms False call by (auto simp: process_multi_feedback_def take_intents_def Let_def split: if_splits)
  show ?thesis by (rule that [OF records(2) event_records_report(1) [OF records(1)] records(3)])
qed

lemma leave_segment_reports:
  assumes "leave_segment hash strategy instrument segment occ trading st = Ok st'"
  obtains records where "bt_output st' = output_extend (bt_output st) records"
    and "\<forall>r \<in> set records. record_ordinal r = Some (eo_run_event_ordinal occ)" and "bt_last_contexts st' = bt_last_contexts st"
proof (cases "\<exists>p. bm_get (bt_current_segments st) instrument = Some p \<and> p \<noteq> segment")
  case False
  then show ?thesis
    using that [of "[]"] assms by (auto simp: leave_segment_def Let_def output_extend_def split: option.splits if_splits)
next
  case True
  then obtain p where p: "bm_get (bt_current_segments st) instrument = Some p" "p \<noteq> segment" by blast
  obtain cancellations sims where c: "multi_cancel_segment_end_for (bt_simulator st) instrument p = (cancellations, sims)"
    by (cases "multi_cancel_segment_end_for (bt_simulator st) instrument p")
  have "process_multi_feedback hash strategy occ trading cancellations False
      (st\<lparr>bt_current_segments := bm_insert instrument segment (bt_current_segments st), bt_simulator := sims\<rparr>) = Ok st'"
    using assms p c by (simp add: leave_segment_def Let_def)
  then show ?thesis by (rule feedback_reports) (use that in simp)
qed

text \<open>An accepted event adds its block.\<close>

lemma event_reports:
  assumes commit: "apply_prepared_ordered hash core e key canonical = (Ok cm, core1)"
    and event: "process_multi_event hash strategy schedule core1 e cm st = (core2, Ok st1)"
    and inv: "run_reports strategy start core st"
  shows "run_reports strategy start core2 st1"
proof (rule event_stages [OF event], goal_cases)
  case (1 segment state trading sta ended sink s records submitted sims evaluated sims' fills ledger stb)
  let ?occ = "cc_occurrence cm"
  have next_ordinal: "event_ordinal (co_clock core1) = Suc (event_ordinal (co_clock core))"
      "eo_run_event_ordinal ?occ = Suc (event_ordinal (co_clock core))"
    using commit by (auto simp: apply_prepared_Ok commit_event_def elim: prepare_transition_OkE)
  obtain blocks where blocks: "event_ordinal (co_clock core) = start + length blocks" "out_records (bt_output st) = concat blocks"
      "\<forall>n < length blocks. event_block strategy (Suc (start + n)) (blocks ! n)"
    and contexts: "\<And>i occ trading. bm_get (bt_last_contexts st) i = Some (occ, trading) \<Longrightarrow>
        start < eo_run_event_ordinal occ \<and> eo_run_event_ordinal occ \<le> event_ordinal (co_clock core)"
    using inv unfolding run_reports_def by blast
  obtain a where a: "bt_output sta = output_extend (bt_output st) a" "\<forall>r \<in> set a. record_ordinal r = Some (eo_run_event_ordinal ?occ)"
      "bt_last_contexts sta = bt_last_contexts st"
    by (rule leave_segment_reports [OF 1(3)])
  obtain c where c: "bt_output stb = output_extend (output_extend (bt_output sta) records) c"
      "\<forall>r \<in> set c. record_ordinal r = Some (eo_run_event_ordinal ?occ)" "bt_last_contexts stb = bt_last_contexts sta"
    by (rule feedback_reports [OF 1(10)]) simp
  note b = event_records_report [OF 1(5)]
  have "event_block strategy (Suc (start + length blocks)) (a @ records @ c)"
  proof -
    have "indicates_events strategy \<Longrightarrow> sk_pending sink \<noteq> []"
      unfolding indicates_events_def using 1(4) by (metis fst_conv snd_conv)
    then show ?thesis using a(2) b c(2) next_ordinal(2) blocks(1) by (auto simp: event_block_def)
  qed
  then have "\<forall>n < length (blocks @ [a @ records @ c]). event_block strategy (Suc (start + n)) ((blocks @ [a @ records @ c]) ! n)"
    using blocks(3) by (simp add: nth_append less_Suc_eq)
  moreover have "out_records (bt_output st1) = concat (blocks @ [a @ records @ c])"
    using 1(11) a(1) c(1) blocks(2) by (simp add: output_extend_def)
  moreover have "event_ordinal (co_clock core2) = start + length (blocks @ [a @ records @ c])"
    using 1(1) next_ordinal(1) blocks(1) by simp
  moreover have "start < eo_run_event_ordinal occ \<and> eo_run_event_ordinal occ \<le> event_ordinal (co_clock core2)"
    if "bm_get (bt_last_contexts st1) i = Some (occ, trading')" for i occ trading'
  proof (cases "i = ev_instrument e")
    case True
    then have "occ = ?occ" using that 1(11) by simp
    then show ?thesis using next_ordinal 1(1) blocks(1) by simp
  next
    case False
    then have "bm_get (bt_last_contexts st) i = Some (occ, trading')" using that 1(11) a(3) c(3) by simp
    then show ?thesis using contexts next_ordinal(1) 1(1) by fastforce
  qed
  ultimately show ?case unfolding run_reports_def by blast
qed

lemma merged_reports:
  assumes "replay_frozen_multi_with hash factory (backtest_callback hash debug_text strategy schedule) plan f core (st, False) =
      (Ok (), core', st', panicked)"
    and "out_records (bt_output st) = []" and "bt_last_contexts st = []"
  shows "run_reports strategy (event_ordinal (co_clock core)) core' st'"
proof -
  obtain streams heads pending where "merge_loop hash (backtest_callback hash debug_text strategy schedule) streams heads pending core (st, False) =
      (Ok (), core', st', panicked)"
    using assms(1) by (auto simp: replay_frozen_multi_with_def split: result.splits prod.splits)
  then have "(\<lambda>core1 c. run_reports strategy (event_ordinal (co_clock core)) core1 (fst c)) core' (st', panicked)"
  proof (rule merge_loop_keeps)
    fix core0 e key canonical cm core1 core2 c c1
    assume "apply_prepared_ordered hash core0 e key canonical = (Ok cm, core1)"
      and "backtest_callback hash debug_text strategy schedule core1 e cm c = (Ok (), core2, c1)"
    then show "run_reports strategy (event_ordinal (co_clock core)) core0 (fst c) \<Longrightarrow>
        run_reports strategy (event_ordinal (co_clock core)) core2 (fst c1)"
      by (elim event_reports) (auto simp: backtest_callback_def split: result.splits prod.splits)
  qed (use assms(2,3) in \<open>auto simp: run_reports_def bm_get_def intro: exI [of _ "[]"]\<close>)
  then show ?thesis by simp
qed

text \<open>The cancellations at the end are reported under the last event of their instrument.\<close>

definition settled_reports :: "nat \<Rightarrow> nat \<Rightarrow> 's backtest_state \<Rightarrow> 's backtest_state \<Rightarrow> bool" where
  "settled_reports low high st st' \<longleftrightarrow> bt_last_contexts st' = bt_last_contexts st \<and>
     (\<exists>records. bt_output st' = output_extend (bt_output st) records \<and> ordinals_within low high records)"

definition contexts_within :: "nat \<Rightarrow> nat \<Rightarrow> 's backtest_state \<Rightarrow> bool" where
  "contexts_within low high st \<longleftrightarrow> (\<forall>i occ trading. bm_get (bt_last_contexts st) i = Some (occ, trading) \<longrightarrow>
     low < eo_run_event_ordinal occ \<and> eo_run_event_ordinal occ \<le> high)"

lemma settled_reportsI:
  "bt_last_contexts st' = bt_last_contexts st \<Longrightarrow> bt_output st' = output_extend (bt_output st) records \<Longrightarrow>
   ordinals_within low high records \<Longrightarrow> settled_reports low high st st'"
  unfolding settled_reports_def by blast

lemma settled_reports_trans:
  assumes "settled_reports low high st st1" and "settled_reports low high st1 st2"
  shows "settled_reports low high st st2"
proof -
  obtain a b where "bt_output st1 = output_extend (bt_output st) a" "ordinals_within low high a"
      "bt_output st2 = output_extend (bt_output st1) b" "ordinals_within low high b"
    using assms unfolding settled_reports_def by blast
  then show ?thesis
    using assms by (intro settled_reportsI [of _ _ "a @ b"]) (auto simp: settled_reports_def output_extend_def ordinals_within_def)
qed

lemma settled_reports_refl: "settled_reports low high st st"
  by (rule settled_reportsI [of _ _ "[]"]) (simp_all add: output_extend_def ordinals_within_def)

lemma settle_orders_reports:
  assumes "settle_orders hash strategy cancel i st = Ok st'" and "contexts_within low high st"
  shows "settled_reports low high st st'"
proof -
  obtain cancellations sims where c: "cancel (bt_simulator st) = (cancellations, sims)" by (cases "cancel (bt_simulator st)")
  show ?thesis
  proof (cases "cancellations = []")
    case True
    then have "st' = st\<lparr>bt_simulator := sims\<rparr>" using assms(1) c by (simp add: settle_orders_def)
    then show ?thesis by (intro settled_reportsI [of _ _ "[]"]) (simp_all add: output_extend_def ordinals_within_def)
  next
    case False
    then obtain occ trading where last: "bm_get (bt_last_contexts st) i = Some (occ, trading)"
        "process_multi_feedback hash strategy occ trading cancellations True (st\<lparr>bt_simulator := sims\<rparr>) = Ok st'"
      using assms(1) c by (auto simp: settle_orders_def)
    have occ: "low < eo_run_event_ordinal occ \<and> eo_run_event_ordinal occ \<le> high"
      using assms(2) last(1) unfolding contexts_within_def by blast
    from last(2) show ?thesis
    proof (rule feedback_reports)
      fix records
      assume "bt_output st' = output_extend (bt_output (st\<lparr>bt_simulator := sims\<rparr>)) records"
        "\<forall>r \<in> set records. record_ordinal r = Some (eo_run_event_ordinal occ)"
        "bt_last_contexts st' = bt_last_contexts (st\<lparr>bt_simulator := sims\<rparr>)"
      then show ?thesis using occ by (intro settled_reportsI [of _ _ records]) (simp_all add: ordinals_within_def)
    qed
  qed
qed

lemma settle_all_reports:
  "rfold (\<lambda>st x. settle_orders hash strategy (cancel x) (key_of x) st) st xs = Ok st' \<Longrightarrow> contexts_within low high st \<Longrightarrow>
   settled_reports low high st st'"
proof (induction xs arbitrary: st)
  case Nil
  then show ?case by (simp add: settled_reports_refl)
next
  case (Cons x xs)
  then obtain st1 where st1: "settle_orders hash strategy (cancel x) (key_of x) st = Ok st1"
      "rfold (\<lambda>st x. settle_orders hash strategy (cancel x) (key_of x) st) st1 xs = Ok st'" by auto
  have one: "settled_reports low high st st1" by (rule settle_orders_reports [OF st1(1) Cons.prems(2)])
  then have "contexts_within low high st1" using Cons.prems(2) by (simp add: settled_reports_def contexts_within_def)
  from settled_reports_trans [OF one Cons.IH [OF st1(2) this]] show ?case .
qed

lemma finalize_reports:
  assumes "finalize_strategy strategy core s out = Ok out'"
  obtains records where "out_records out' = out_records out @ records" and "\<forall>r \<in> set records. record_ordinal r = None"
proof -
  obtain sink records where records: "into_finalize_records sink = Ok records" "out' = output_extend out records"
    using assms by (auto simp: finalize_strategy_def split: prod.splits)
  have "\<forall>r \<in> set records. record_ordinal r = None"
    using records(1) by (auto simp: into_finalize_records_def number_records_Ok simp del: upt_Suc dest!: set_zip_leftD)
  then show ?thesis using that [of records] records(2) by (simp add: output_extend_def)
qed

section \<open>Properties of a completed backtest\<close>

text \<open>
  C8: a backtest replays what a replay without a strategy does, and reports it event by event. Whatever
  the strategy, the simulator and the ledger do, a completed backtest reports the states and the summary
  of merging the same streams with no callback. Its output is one block of records for each merged event,
  in order, every record numbered with the ordinal of its event, no block empty when the strategy gives an
  indicator on each event; then the records of the cancellations at the end, each under an event of this
  run; and then the records of the finalization.
\<close>

theorem backtest_replays_exactly:
  assumes "run_multi_backtest hash debug_text factory strategy core s plan f schedule sims ledger allow = Ok run"
  shows "\<exists>core' blocks settlement final.
    replay_frozen_multi hash factory plan f core = (Ok (), core') \<and> complete_replay hash core' = Ok (cb_replay run) \<and>
    out_records (cb_strategy_output run) = concat blocks @ settlement @ final \<and>
    event_ordinal (co_clock core') = event_ordinal (co_clock core) + length blocks \<and>
    (\<forall>n < length blocks. event_block strategy (Suc (event_ordinal (co_clock core) + n)) (blocks ! n)) \<and>
    ordinals_within (event_ordinal (co_clock core)) (event_ordinal (co_clock core')) settlement \<and>
    (\<forall>r \<in> set final. record_ordinal r = None)"
proof (rule completed_run [OF assms], goal_cases)
  case (1 s' core' st' st1 st2 panicked out)
  let ?low = "event_ordinal (co_clock core)" and ?high = "event_ordinal (co_clock core')"
  have "run_reports strategy ?low core' st'" by (rule merged_reports [OF 1(3)]) (simp_all add: 1(10))
  then obtain blocks where blocks: "?high = ?low + length blocks" "out_records (bt_output st') = concat blocks"
      "\<forall>n < length blocks. event_block strategy (Suc (?low + n)) (blocks ! n)"
    and contexts: "contexts_within ?low ?high st'"
    unfolding run_reports_def contexts_within_def by blast
  have one: "settled_reports ?low ?high st' st1"
    by (rule settle_all_reports [OF _ contexts, where cancel = "\<lambda>x sims. multi_cancel_segment_end_for sims (fst x) (snd x)"
          and key_of = fst and xs = "bt_current_segments st'" and hash = hash and strategy = strategy])
      (use 1(4) in \<open>simp add: case_prod_unfold\<close>)
  then have "contexts_within ?low ?high st1" using contexts by (simp add: settled_reports_def contexts_within_def)
  then have "settled_reports ?low ?high st1 st2"
    by (rule settle_all_reports [OF 1(5)])
  from settled_reports_trans [OF one this] obtain settlement where settlement:
      "bt_output st2 = output_extend (bt_output st') settlement" "ordinals_within ?low ?high settlement"
    unfolding settled_reports_def by blast
  obtain final where final: "out_records (cb_strategy_output run) = out_records (bt_output st2) @ final"
      "\<forall>r \<in> set final. record_ordinal r = None"
    by (rule finalize_reports [OF 1(11)])
  have "out_records (cb_strategy_output run) = concat blocks @ settlement @ final"
    using final(1) settlement(1) blocks(2) by (simp add: output_extend_def)
  then show ?case using merged_core [OF 1(3)] 1(6) blocks settlement(2) final(2) by blast
qed

text \<open>
  C5: the ledger books exactly what the simulator filled. When a backtest of a strategy that hands over
  well-typed intents completes from a fresh simulator and a fresh ledger, the fills of each instrument's
  ledger are those of its simulator, in the same order; each of them fills an accepted order of that
  simulator, after the event the order came from and within its limit; and cash is the initial cash plus
  the cash movements of the booked fills.
\<close>

theorem backtest_books_every_fill:
  assumes "run_multi_backtest hash debug_text factory strategy core s plan f schedule sims ledger allow = Ok run"
    and "multi_simulator_new configs = Ok sims" and "multi_ledger_new cash ledger_configs = Ok ledger"
    and "emits_typed_intents strategy"
  shows "(\<forall>i. booked_fills (cb_ledger run) i = multi_fills_for (cb_simulator run) i) \<and>
    (\<forall>i sim. bm_get (cb_simulator run) i = Some sim \<longrightarrow>
       (\<forall>fill \<in> set (sm_fills sim). \<exists>ord \<in> set (sm_orders sim).
          fr_order_id fill = so_id ord \<and> (\<exists>n. fr_trigger fill = MarketEvent n \<and> so_origin_ordinal ord < n) \<and>
          so_eligible_match_time ord \<le> fr_match_time fill \<and> limit_touched (so_intent ord) (fr_price fill))) \<and>
    ml_cash (cb_ledger run) = ml_initial_cash (cb_ledger run) + (\<Sum>e \<leftarrow> bm_values (ml_ledgers (cb_ledger run)). ld_cash (il_ledger e))
       - (\<Sum>c \<leftarrow> ml_cash_charges (cb_ledger run). cc_amount c)"
proof -
  have inv: "run_inv hash (map st_instrument (bm_values (co_states core))) (cb_simulator run) (cb_ledger run)"
    using completed_inv [OF assms] by blast
  have "sim_inv sim" if "bm_get (cb_simulator run) i = Some sim" for i sim
    by (rule sim_reachable_inv [OF run_invD(1) [OF inv that]])
  then have "\<forall>i sim. bm_get (cb_simulator run) i = Some sim \<longrightarrow>
       (\<forall>fill \<in> set (sm_fills sim). \<exists>ord \<in> set (sm_orders sim).
          fr_order_id fill = so_id ord \<and> (\<exists>n. fr_trigger fill = MarketEvent n \<and> so_origin_ordinal ord < n) \<and>
          so_eligible_match_time ord \<le> fr_match_time fill \<and> limit_touched (so_intent ord) (fr_price fill))"
    unfolding sim_inv_def fill_ok_def by blast
  moreover have "multi_inv (cb_ledger run)" by (rule reachable_multi_inv [OF run_invD(2) [OF inv]])
  ultimately show ?thesis using run_invD(3) [OF inv] by (simp add: multi_inv_def entry_cash_def comp_def)
qed

text \<open>
  C12: a completed backtest leaves no order open. Every order a simulator accepted in the run is filled or
  cancelled when the run completes.
\<close>

theorem backtest_settles_every_order:
  assumes "run_multi_backtest hash debug_text factory strategy core s plan f schedule sims ledger allow = Ok run"
    and "multi_simulator_new configs = Ok sims" and "multi_ledger_new cash ledger_configs = Ok ledger"
    and "emits_typed_intents strategy"
  shows "\<forall>i sim. bm_get (cb_simulator run) i = Some sim \<longrightarrow>
    (\<forall>ord \<in> set (sm_orders sim). so_status ord = Filled \<or> so_status ord = Cancelled)"
proof (intro allI impI ballI)
  fix i sim ord
  assume sim: "bm_get (cb_simulator run) i = Some sim" and ord: "ord \<in> set (sm_orders sim)"
  have inv: "run_inv hash (map st_instrument (bm_values (co_states core))) (cb_simulator run) (cb_ledger run)"
    and settled: "\<forall>i \<in> set (map st_instrument (bm_values (co_states core))). settled (cb_simulator run) i"
    using completed_inv [OF assms] by blast+
  have "\<not> is_live ord" using settled run_invD(4) [OF inv sim] sim ord unfolding settled_def by blast
  then show "so_status ord = Filled \<or> so_status ord = Cancelled"
    by (cases "so_status ord") (simp_all add: is_live_def)
qed

section \<open>A sample run\<close>

definition sample_session_schedule :: multi_session_schedule where
  "sample_session_schedule = [((Twse, ''2330''), [sample_segment])]"

text \<open>
  A strategy that gives an indicator on every event and, on the first, an intent to buy five units; the
  second quote offers two, so the order is filled in part and cancelled at the end.
\<close>

definition sample_buy :: order_intent where
  "sample_buy =
     \<lparr>oi_instrument = (Twse, ''2330''), oi_side = Buy, oi_quantity = \<lparr>q_value = 5, q_unit = TradingUnit\<rparr>,
      oi_order_type = Limit 102000000000000000000\<rparr>"

definition buying_strategy :: "nat strategy" where
  "buying_strategy = (counting_strategy Returned)\<lparr>sy_on_event := (\<lambda>ctxt k n.
     (Returned,
      (let k' = snd (emit_indicator k ''events'' (IndicatorUnsigned (n + 1))) in
       if n = 0 then snd (emit_order_intent k' sample_buy) else k'),
      n + 1))\<rparr>"

definition sample_backtest ::
  "multi_simulator \<Rightarrow> multi_ledger \<Rightarrow> (completed_multi_backtest, simulation_error multi_backtest_error) result" where
  "sample_backtest sims ledger =
     run_multi_backtest sample_hash (\<lambda>_. ''error'') sample_quotes buying_strategy sample_core 0 sample_event_plan ()
       sample_session_schedule sims ledger True"

lemma sample_schedule_new:
  "multi_session_schedule_new [((Twse, ''2330''), [sample_segment])] = (Ok sample_session_schedule :: (_, unit multi_backtest_error) result)"
  by (simp add: multi_session_schedule_new_def insert_session_windows_def sample_session_schedule_def bm_get_def)

lemma buying_typed: "emits_typed_intents buying_strategy"
  by (auto simp: emits_typed_intents_def buying_strategy_def counting_strategy_def sink_with_order_intents_def Let_def emit_indicator_def
      emit_order_intent_def sample_buy_def wf_intent_def wf_quantity_def wf_order_type_def in_u64_def in_i128_def)

lemma sample_ledger_completes:
  obtains ledger performance where "multi_ledger_new 5000000000000000000000 [sample_config] = Ok ledger"
    and "bm_keys (ml_ledgers ledger) = [(Twse, ''2330'')]" and "multi_reconcile ledger = Ok ()"
    and "multi_performance ledger (final_marks sample_core True) = Ok performance"
proof -
  obtain ledger where ledger: "multi_ledger_new 5000000000000000000000 [sample_config] = Ok ledger"
      "bm_keys (ml_ledgers ledger) = [(Twse, ''2330'')]" "multi_reconcile ledger = Ok ()"
      "is_ok (multi_performance ledger (final_marks sample_core True))"
    by (simp add: multi_eval ledger_eval multi_reconcile_def reconcile_entry_def ledger_reconcile_def rebuild_base_def cong: rbind_weak_cong)
  then show ?thesis using that by (auto simp: is_ok_iff)
qed

text \<open>The trading context of each quote, and the simulator as the order rests, fills in part and ends.\<close>

definition sample_quote_trading :: "nat \<Rightarrow> trading_context" where
  "sample_quote_trading n = sample_trading\<lparr>tc_event_fingerprint := replicate 32 0, tc_instrument_state_version := n\<rparr>"

lemma sample_quote_context:
  assumes "t = sample_open_time \<or> t = sample_next_time"
  shows "segment_for sample_session_schedule (Twse, ''2330'') t = Some sample_segment"
    and "evaluate_context (sample_quote t) (sample_quote_occurrence t n) (sample_quoted t n) sample_segment = Ok (sample_quote_trading n)"
proof -
  have phase: "segment_phase sample_segment t = Ok Active"
    using assms unfolding segment_phase_eq [OF sample_segment_new] by (auto simp: WARM_UP_MICROSECONDS_def)
  then show "segment_for sample_session_schedule (Twse, ''2330'') t = Some sample_segment"
    by (simp add: segment_for_def sample_session_schedule_def bm_get_def)
  have "validate_event_state (sample_quote t) (sample_quote_occurrence t n) (sample_quoted t n) sample_segment = Ok ()"
    by (simp add: validate_event_state_def sample_quote_def sample_quote_occurrence_def sample_quoted_def sample_segment_def market_state_new_def
        sample_ref_def)
  then show "evaluate_context (sample_quote t) (sample_quote_occurrence t n) (sample_quoted t n) sample_segment = Ok (sample_quote_trading n)"
    using phase
    by (simp add: evaluate_context_def sample_quote_def sample_quoted_def market_state_new_def sample_quote_trading_def sample_trading_def
        sample_quote_occurrence_def sample_segment_def order_entry_for_signal_def)
qed

definition sample_bought :: fill_record where
  "sample_bought = fill_from_market_event (replicate 32 0) 2 sample_next_time Buy 101000000000000000000 \<lparr>q_value = 2, q_unit = TradingUnit\<rparr>"

definition sample_sim :: "nat \<Rightarrow> order_status \<Rightarrow> fill_record list \<Rightarrow> simulator" where
  "sample_sim filled status fills =
     \<lparr>sm_universe = {(Twse, ''2330'')}, sm_quantity_unit = TradingUnit, sm_model = sample_fill_model, sm_price_policy = PositiveOnly,
      sm_orders = [\<lparr>so_id = replicate 32 0, so_intent = sample_buy, so_origin_ordinal = 1,
        so_eligible_match_time = sample_open_time + 3000, so_origin_segment_id = ''open'', so_acceptance_sequence = 1,
        so_filled = filled, so_status = status\<rparr>],
      sm_fills = fills, sm_next_acceptance_sequence = 2\<rparr>"

lemma sample_sim_submit:
  "simulator_submit sample_hash (simulator_new_with_price_policy [(Twse, ''2330'')] TradingUnit sample_fill_model PositiveOnly) ident
     (sample_quote_occurrence sample_open_time 1) (sample_quote_trading 1) 1 sample_buy =
   (Ok (Accepted (replicate 32 0)), sample_sim 0 Pending [])"
  by (simp add: simulator_submit_def simulator_new_with_price_policy_def sample_fill_model_def sample_buy_def sample_quote_trading_def
      sample_trading_def sample_quote_occurrence_def sample_key_def sample_sim_def policy_accepts_def entry_allowed_def
      intent_to_canonical_bytes_def append_all.simps push_def append_bytes_def append_length_def in_u32_def append_quantity_def
      append_price_def add_latency_def checked_u64_def in_u64_def checked_i64_def in_i64_def Let_def sample_hash_def)

lemma sample_sim_evaluate:
  "simulator_evaluate (sample_sim 0 Pending []) (sample_quote sample_open_time) (sample_quote_occurrence sample_open_time 1)
     (sample_quote_trading 1) = (Ok [], sample_sim 0 Pending [])"
  "simulator_evaluate (sample_sim 0 Pending []) (sample_quote sample_next_time) (sample_quote_occurrence sample_next_time 2)
     (sample_quote_trading 2) =
   (Ok [PartiallyFilledFeedback (replicate 32 0) \<lparr>q_value = 2, q_unit = TradingUnit\<rparr> \<lparr>q_value = 3, q_unit = TradingUnit\<rparr>],
    sample_sim 2 PartiallyFilled [sample_bought])"
  by (simp_all add: simulator_evaluate_def sample_sim_def sample_quote_trading_def sample_trading_def sample_quote_occurrence_def
      sample_quote_def sample_market_book_def sample_buy_def sample_bought_def simulator_eval Let_def)

text \<open>The ledger: two units bought, reconciled and marked at the middle of the last quote.\<close>

lemma sample_ledger_books:
  assumes "fr_side f = Buy" and "fr_price f = 101000000000000000000" and "fr_quantity f = \<lparr>q_value = 2, q_unit = TradingUnit\<rparr>"
  obtains ledger booked performance where "multi_ledger_new 1000000000000000000000000 [sample_config] = Ok ledger"
    and "bm_keys (ml_ledgers ledger) = [(Twse, ''2330'')]" and "multi_apply_fill ledger (Twse, ''2330'') f = Ok booked"
    and "multi_reconcile booked = Ok ()" and "multi_performance booked [((Twse, ''2330''), Some 100000000000000000000)] = Ok performance"
    and "map (\<lambda>(i, e). (i, ld_position (il_ledger e))) (ml_ledgers ledger) = [((Twse, ''2330''), 0)]"
    and "map (\<lambda>(i, e). (i, ld_position (il_ledger e))) (ml_ledgers booked) = [((Twse, ''2330''), 2)]"
proof -
  have "\<exists>ledger booked. multi_ledger_new 1000000000000000000000000 [sample_config] = Ok ledger \<and>
      bm_keys (ml_ledgers ledger) = [(Twse, ''2330'')] \<and> multi_apply_fill ledger (Twse, ''2330'') f = Ok booked \<and>
      is_ok (multi_reconcile booked) \<and> is_ok (multi_performance booked [((Twse, ''2330''), Some 100000000000000000000)]) \<and>
      map (\<lambda>(i, e). (i, ld_position (il_ledger e))) (ml_ledgers ledger) = [((Twse, ''2330''), 0)] \<and>
      map (\<lambda>(i, e). (i, ld_position (il_ledger e))) (ml_ledgers booked) = [((Twse, ''2330''), 2)]"
    by (simp add: assms multi_eval ledger_eval multi_reconcile_def reconcile_entry_def ledger_reconcile_def rebuild_base_def
        cong: rbind_weak_cong)
  then show ?thesis using that by (auto simp: is_ok_iff)
qed

text \<open>The two events of the run.\<close>

definition sample_record :: "nat \<Rightarrow> strategy_output_record" where
  "sample_record n = EventIndicator n (replicate 32 0) n 1 ''events'' (IndicatorUnsigned n)"

definition sample_state_after ::
  "nat \<Rightarrow> int \<Rightarrow> strategy_output_record list \<Rightarrow> simulator \<Rightarrow> multi_ledger \<Rightarrow> nat backtest_state" where
  "sample_state_after n t records sim ledger =
     \<lparr>bt_strategy = n, bt_current_segments = [((Twse, ''2330''), ''open'')],
      bt_last_contexts = [((Twse, ''2330''), (sample_quote_occurrence t n, sample_quote_trading n))],
      bt_simulator = [((Twse, ''2330''), sim)], bt_ledger = ledger,
      bt_output = (strategy_output_new sample_identity (replicate 32 0))\<lparr>out_records := records\<rparr>\<rparr>"

lemmas sample_event_eval = process_multi_event_def Let_def sample_quote_context leave_segment_def sample_state_after_def
  buying_strategy_def counting_strategy_def emit_indicator_def emit_order_intent_def sink_with_order_intents_def strategy_ended_def
  take_intents_def into_event_records_def in_u32_def output_extend_def strategy_output_new_def sample_record_def
  multi_submit_def multi_evaluate_def multi_fills_for_def bm_get_def book_fills_def process_multi_feedback_def

lemma sample_first_event:
  assumes "cc_occurrence cm = sample_quote_occurrence sample_open_time 1"
  shows "process_multi_event sample_hash buying_strategy sample_session_schedule sample_core_1 (sample_quote sample_open_time) cm
      \<lparr>bt_strategy = 0, bt_current_segments = [], bt_last_contexts = [],
       bt_simulator = [((Twse, ''2330''), simulator_new_with_price_policy [(Twse, ''2330'')] TradingUnit sample_fill_model PositiveOnly)],
       bt_ledger = ledger, bt_output = strategy_output_new sample_identity (replicate 32 0)\<rparr> =
    (sample_core_1, Ok (sample_state_after 1 sample_open_time [sample_record 1] (sample_sim 0 Pending []) ledger))"
proof -
  have quote: "ev_instrument (sample_quote sample_open_time) = (Twse, ''2330'')" "ev_match_time (sample_quote sample_open_time) = sample_open_time"
    by (simp_all add: sample_quote_def)
  have fills: "sm_fills (sample_sim 0 Pending []) = []" by (simp add: sample_sim_def)
  have instrument: "oi_instrument sample_buy = (Twse, ''2330'')" by (simp add: sample_buy_def)
  show ?thesis
    using assms quote fills instrument sample_sim_submit sample_sim_evaluate(1)
    by (simp add: sample_event_eval sample_core_states) (simp add: sample_quote_occurrence_def sample_segment_def)
qed

lemma sample_second_event:
  assumes "cc_occurrence cm = sample_quote_occurrence sample_next_time 2" and "multi_apply_fill ledger (Twse, ''2330'') sample_bought = Ok booked"
  shows "process_multi_event sample_hash buying_strategy sample_session_schedule sample_core_2 (sample_quote sample_next_time) cm
      (sample_state_after 1 sample_open_time [sample_record 1] (sample_sim 0 Pending []) ledger) =
    (sample_core_2, Ok (sample_state_after 2 sample_next_time [sample_record 1, sample_record 2]
       (sample_sim 2 PartiallyFilled [sample_bought]) booked))"
proof -
  have quote: "ev_instrument (sample_quote sample_next_time) = (Twse, ''2330'')" "ev_match_time (sample_quote sample_next_time) = sample_next_time"
    by (simp_all add: sample_quote_def)
  have fills: "sm_fills (sample_sim filled status fs) = fs" for filled status fs by (simp add: sample_sim_def)
  show ?thesis
    using assms quote fills sample_sim_evaluate(2)
    by (simp add: sample_event_eval sample_core_states) (simp add: sample_quote_occurrence_def sample_segment_def)
qed

text \<open>The plan opens one stream, whose two quotes the merge commits.\<close>

lemma sample_merge:
  assumes "\<And>cm c. cc_occurrence cm = sample_quote_occurrence sample_open_time 1 \<Longrightarrow>
      callback sample_core_1 (sample_quote sample_open_time) cm c0 = (Ok (), sample_core_1, c1)"
    and "\<And>cm c. cc_occurrence cm = sample_quote_occurrence sample_next_time 2 \<Longrightarrow>
      callback sample_core_2 (sample_quote sample_next_time) cm c1 = (Ok (), sample_core_2, c2)"
  shows "replay_frozen_multi_with sample_hash sample_quotes callback sample_event_plan () sample_core c0 = (Ok (), sample_core_2, c2)"
proof -
  obtain cm1 cm2 where cm1: "apply_prepared_ordered sample_hash sample_core (sample_quote sample_open_time) (sample_key sample_open_time)
        (sample_bytes sample_open_time) = (Ok cm1, sample_core_1)" "cc_occurrence cm1 = sample_quote_occurrence sample_open_time 1"
      and cm2: "apply_prepared_ordered sample_hash sample_core_1 (sample_quote sample_next_time) (sample_key sample_next_time)
        (sample_bytes sample_next_time) = (Ok cm2, sample_core_2)" "cc_occurrence cm2 = sample_quote_occurrence sample_next_time 2"
    using sample_commits by blast
  have "check_binding sample_core sample_binding = Ok ()"
    by (simp add: check_binding_def sample_core_def bm_get_def sample_binding_def sample_state_def market_state_new_def)
  then show ?thesis
    using cm1(1) cm2(1) assms(1) [OF cm1(2)] assms(2) [OF cm2(2)] sample_quote_keyed(1) [of sample_open_time]
      sample_quote_keyed(1) [of sample_next_time]
    by (simp add: replay_frozen_multi_with_def sample_event_plan_def sample_quotes_def)
qed

lemma sample_marks: "final_marks sample_core_2 True = [((Twse, ''2330''), Some 100000000000000000000)]"
  by (simp add: final_marks_def sample_core_states bm_collect_def final_mark_def sample_quoted_def market_state_new_def best_bid_def best_ask_def
      sample_market_book_def first_level_def side_levels_def checked_i128_def in_i128_def)

text \<open>At the end the rest of the order is cancelled.\<close>

lemma sample_finish:
  assumes "multi_reconcile booked = Ok ()" and "multi_performance booked [((Twse, ''2330''), Some 100000000000000000000)] = Ok performance"
  obtains run where "finish_multi_backtest sample_hash buying_strategy True [(Twse, ''2330'')] sample_core_2
      (sample_state_after 2 sample_next_time [sample_record 1, sample_record 2] (sample_sim 2 PartiallyFilled [sample_bought]) booked) = Ok run"
    and "cb_simulator run = [((Twse, ''2330''), sample_sim 2 Cancelled [sample_bought])]"
    and "out_records (cb_strategy_output run) = [sample_record 1, sample_record 2, FinalizeIndicator 1 ''events'' (IndicatorUnsigned 2)]"
proof -
  obtain replayed where replayed: "complete_replay sample_hash sample_core_2 = Ok replayed" using sample_replay_completes by blast
  have cancelled: "cancel_segment_end (sample_sim 2 PartiallyFilled [sample_bought]) ''open'' =
        ([CancelledFeedback (replicate 32 0) SegmentEnd], sample_sim 2 Cancelled [sample_bought])"
      "cancel_end_of_run (sample_sim 2 Cancelled [sample_bought]) = ([], sample_sim 2 Cancelled [sample_bought])"
    by (simp_all add: cancel_segment_end_def cancel_end_of_run_def cancel_orders_def sample_sim_def is_live_def)
  have "\<exists>run. finish_multi_backtest sample_hash buying_strategy True [(Twse, ''2330'')] sample_core_2
      (sample_state_after 2 sample_next_time [sample_record 1, sample_record 2] (sample_sim 2 PartiallyFilled [sample_bought]) booked) = Ok run \<and>
      cb_simulator run = [((Twse, ''2330''), sample_sim 2 Cancelled [sample_bought])] \<and>
      out_records (cb_strategy_output run) = [sample_record 1, sample_record 2, FinalizeIndicator 1 ''events'' (IndicatorUnsigned 2)]"
    using assms replayed
    by (simp add: finish_multi_backtest_def settle_orders_def multi_cancel_segment_end_for_def multi_cancel_end_of_run_for_def
        multi_cancel_one_def cancelled finalize_strategy_def sink_new_def into_finalize_records_def sample_event_eval sample_marks)
  then show ?thesis using that by blast
qed

lemma sample_backtest_completes:
  obtains sims ledger run where "multi_simulator_new [((Twse, ''2330''), TradingUnit, sample_fill_model, PositiveOnly)] = Ok sims"
    and "multi_ledger_new 1000000000000000000000000 [sample_config] = Ok ledger" and "sample_backtest sims ledger = Ok run"
    and "cb_simulator run = [((Twse, ''2330''), sample_sim 2 Cancelled [sample_bought])]"
    and "out_records (cb_strategy_output run) = [sample_record 1, sample_record 2, FinalizeIndicator 1 ''events'' (IndicatorUnsigned 2)]"
proof -
  define sims where "sims = [((Twse, ''2330''), simulator_new_with_price_policy [(Twse, ''2330'')] TradingUnit sample_fill_model PositiveOnly)]"
  have sims: "multi_simulator_new [((Twse, ''2330''), TradingUnit, sample_fill_model, PositiveOnly)] = Ok sims"
    by (simp add: multi_simulator_new_def insert_simulator_def bm_get_def sims_def)
  obtain ledger booked performance where ledger: "multi_ledger_new 1000000000000000000000000 [sample_config] = Ok ledger"
      "bm_keys (ml_ledgers ledger) = [(Twse, ''2330'')]" "multi_apply_fill ledger (Twse, ''2330'') sample_bought = Ok booked"
      "multi_reconcile booked = Ok ()" "multi_performance booked [((Twse, ''2330''), Some 100000000000000000000)] = Ok performance"
    by (rule sample_ledger_books [of sample_bought]) (simp_all add: sample_bought_def fill_from_market_event_def)
  obtain run where run: "finish_multi_backtest sample_hash buying_strategy True [(Twse, ''2330'')] sample_core_2
      (sample_state_after 2 sample_next_time [sample_record 1, sample_record 2] (sample_sim 2 PartiallyFilled [sample_bought]) booked) = Ok run"
      "cb_simulator run = [((Twse, ''2330''), sample_sim 2 Cancelled [sample_bought])]"
      "out_records (cb_strategy_output run) = [sample_record 1, sample_record 2, FinalizeIndicator 1 ''events'' (IndicatorUnsigned 2)]"
    by (rule sample_finish [OF ledger(4,5)])
  let ?callback = "backtest_callback sample_hash (\<lambda>_. ''error'') buying_strategy sample_session_schedule"
  have merged: "replay_frozen_multi_with sample_hash sample_quotes ?callback sample_event_plan () sample_core
      (\<lparr>bt_strategy = 0, bt_current_segments = [], bt_last_contexts = [], bt_simulator = sims, bt_ledger = ledger,
        bt_output = strategy_output_new sample_identity (replicate 32 0)\<rparr>, False) =
      (Ok (), sample_core_2, sample_state_after 2 sample_next_time [sample_record 1, sample_record 2]
        (sample_sim 2 PartiallyFilled [sample_bought]) booked, False)"
    by (rule sample_merge [where ?c1.0 = "(sample_state_after 1 sample_open_time [sample_record 1] (sample_sim 0 Pending []) ledger, False)"])
      (simp_all add: backtest_callback_def sims_def sample_first_event sample_second_event [OF _ ledger(3)] del: One_nat_def)
  have instruments: "map st_instrument (bm_values (co_states sample_core)) = [(Twse, ''2330'')]"
    by (simp add: sample_core_def sample_state_def market_state_new_def)
  have declared: "sy_declaration buying_strategy 0 = \<lparr>sl_universe = [(Twse, ''2330'')], sl_sessions = [Regular]\<rparr>"
      "sy_initialize buying_strategy d 0 = (Returned, 0)" "sy_identity buying_strategy 0 = sample_identity"
      "sy_params_checksum buying_strategy 0 = replicate 32 0" for d
    by (simp_all add: buying_strategy_def counting_strategy_def)
  have checks: "check_universes [(Twse, ''2330'')] [(''strategy'', [(Twse, ''2330'')]), (''schedule'', bm_keys sample_session_schedule),
        (''simulator'', bm_keys sims), (''ledger'', bm_keys (ml_ledgers ledger))] = (Ok () :: (unit, simulation_error multi_backtest_error) result)"
      "check_sessions \<lparr>sl_universe = [(Twse, ''2330'')], sl_sessions = [Regular]\<rparr> sample_session_schedule =
        (Ok () :: (unit, simulation_error multi_backtest_error) result)"
    using ledger(2) by (simp_all add: check_universes_def check_sessions_def sample_session_schedule_def sample_segment_def sims_def)
  have "sample_backtest sims ledger = Ok run"
    unfolding sample_backtest_def run_multi_backtest_def Let_def instruments declared
    using merged run(1) checks by (simp add: strategy_ended_def declared)
  then show ?thesis using that sims ledger(1) run(2,3) by blast
qed

theorem backtest_replays_exactly_witness:
  "\<exists>sims ledger run core' blocks settlement final.
     replay_plan_new sample_hash (replicate 32 4) [sample_binding] = Ok sample_event_plan \<and> sample_backtest sims ledger = Ok run \<and>
     replay_frozen_multi sample_hash sample_quotes sample_event_plan () sample_core = (Ok (), core') \<and>
     complete_replay sample_hash core' = Ok (cb_replay run) \<and> event_ordinal (co_clock core') = 2 \<and>
     out_records (cb_strategy_output run) = [sample_record 1, sample_record 2, FinalizeIndicator 1 ''events'' (IndicatorUnsigned 2)] \<and>
     out_records (cb_strategy_output run) = concat blocks @ settlement @ final \<and> length blocks = 2 \<and> [] \<notin> set blocks"
proof (rule sample_backtest_completes)
  fix sims ledger run
  assume run: "sample_backtest sims ledger = Ok run"
    and records: "out_records (cb_strategy_output run) = [sample_record 1, sample_record 2, FinalizeIndicator 1 ''events'' (IndicatorUnsigned 2)]"
  have start: "event_ordinal (co_clock sample_core) = 0" by (simp add: sample_core_def)
  obtain core' blocks settlement final where th: "replay_frozen_multi sample_hash sample_quotes sample_event_plan () sample_core = (Ok (), core')"
      "complete_replay sample_hash core' = Ok (cb_replay run)" "out_records (cb_strategy_output run) = concat blocks @ settlement @ final"
      "event_ordinal (co_clock core') = event_ordinal (co_clock sample_core) + length blocks"
      "\<forall>n < length blocks. event_block buying_strategy (Suc (event_ordinal (co_clock sample_core) + n)) (blocks ! n)"
    using backtest_replays_exactly [OF run [unfolded sample_backtest_def]] by blast
  have "replay_frozen_multi sample_hash sample_quotes sample_event_plan () sample_core = (Ok (), sample_core_2)"
    unfolding replay_frozen_multi_def using sample_merge [where callback = "\<lambda>core e cm c. (Ok (), core, c)" and ?c1.0 = "()" and ?c2.0 = "()"] by simp
  then have core': "core' = sample_core_2" using th(1) by simp
  have two: "event_ordinal (co_clock sample_core_2) = 2" by (simp add: sample_core_2_def commit_event_def)
  have "indicates_events buying_strategy"
    by (simp add: indicates_events_def buying_strategy_def Let_def emit_indicator_def emit_order_intent_def sink_with_order_intents_def)
  then have "[] \<notin> set blocks" using th(5) by (auto simp: in_set_conv_nth event_block_def)
  moreover have "length blocks = 2" using th(4) start two core' by simp
  ultimately show ?thesis using sample_event_plan_new run records th(1-3) core' two by blast
qed

theorem backtest_books_every_fill_witness:
  "\<exists>sims ledger run. sample_backtest sims ledger = Ok run \<and>
     booked_fills (cb_ledger run) (Twse, ''2330'') = Some [sample_bought] \<and> q_value (fr_quantity sample_bought) = 2 \<and>
     (\<forall>i. booked_fills (cb_ledger run) i = multi_fills_for (cb_simulator run) i)"
proof (rule sample_backtest_completes)
  fix sims ledger run
  assume fresh: "multi_simulator_new [((Twse, ''2330''), TradingUnit, sample_fill_model, PositiveOnly)] = Ok sims"
    "multi_ledger_new 1000000000000000000000000 [sample_config] = Ok ledger" and run: "sample_backtest sims ledger = Ok run"
    and sim: "cb_simulator run = [((Twse, ''2330''), sample_sim 2 Cancelled [sample_bought])]"
  have booked: "\<forall>i. booked_fills (cb_ledger run) i = multi_fills_for (cb_simulator run) i"
    using backtest_books_every_fill [OF run [unfolded sample_backtest_def] fresh buying_typed] by blast
  moreover have filled: "multi_fills_for (cb_simulator run) (Twse, ''2330'') = Some [sample_bought]"
    by (simp add: sim multi_fills_for_def bm_get_def sample_sim_def)
  moreover have "q_value (fr_quantity sample_bought) = 2" by (simp add: sample_bought_def fill_from_market_event_def)
  moreover from booked filled have "booked_fills (cb_ledger run) (Twse, ''2330'') = Some [sample_bought]" by simp
  ultimately show ?thesis using run by blast
qed

theorem backtest_settles_every_order_witness:
  "\<exists>sims ledger run sim. sample_backtest sims ledger = Ok run \<and> bm_get (cb_simulator run) (Twse, ''2330'') = Some sim \<and>
     map so_filled (sm_orders sim) = [2] \<and> (\<forall>ord \<in> set (sm_orders sim). so_status ord = Filled \<or> so_status ord = Cancelled)"
proof (rule sample_backtest_completes)
  fix sims ledger run
  assume fresh: "multi_simulator_new [((Twse, ''2330''), TradingUnit, sample_fill_model, PositiveOnly)] = Ok sims"
    "multi_ledger_new 1000000000000000000000000 [sample_config] = Ok ledger" and run: "sample_backtest sims ledger = Ok run"
    and sim: "cb_simulator run = [((Twse, ''2330''), sample_sim 2 Cancelled [sample_bought])]"
  have get: "bm_get (cb_simulator run) (Twse, ''2330'') = Some (sample_sim 2 Cancelled [sample_bought])"
    by (simp add: sim bm_get_def)
  have "map so_filled (sm_orders (sample_sim 2 Cancelled [sample_bought])) = [2]" by (simp add: sample_sim_def)
  moreover have "\<forall>ord \<in> set (sm_orders (sample_sim 2 Cancelled [sample_bought])). so_status ord = Filled \<or> so_status ord = Cancelled"
    using backtest_settles_every_order [OF run [unfolded sample_backtest_def] fresh buying_typed] get by blast
  ultimately show ?thesis
    using get run by (intro exI [of _ sims] exI [of _ ledger] exI [of _ run] exI [of _ "sample_sim 2 Cancelled [sample_bought]"]) simp
qed

end
