(* ===== verification/Scheduled.thy ===== *)
theory Scheduled
  imports Simulator Depth
begin

text \<open>
  Scheduled execution: \<open>crates/execution-sim/src/scheduled.rs\<close>. Orders wait for their activation time and
  then either sweep the visible book at once, wait for the first book or auction that can match them, or
  settle at their limit price. The simulator keeps the visible book of each instrument with what its
  orders already consumed of it. Operations return the result and the simulator, so that what an error
  leaves behind is visible; \<open>Panicked\<close> stands for the \<open>expect\<close> calls, the
  unchecked subtractions of quantities and the indexing of consumed depth, and the lemmas show that it never
  occurs, that every order follows one state machine, and that fills neither exceed an order nor the
  displayed depth. BLAKE3 is the parameter \<open>hash\<close>.
\<close>

section \<open>Model\<close>

datatype scheduled_order_status =
    SScheduled
  | SActive
  | SPartiallyFilled
  | SMatchAttempted
  | SFilled
  | SFailed execution_failure_reason
  | SExpired
  | SReplaced
  | SCancelled

datatype scheduled_error =
    SEmptyUniverse
  | SDuplicateInstrument instrument_id
  | SInstrumentOutsideUniverse instrument_id
  | SInvalidDepthLevels nat
  | ZeroStalenessWindow
  | SInvalidAdversePriceDelta
  | SPriceNotAllowedByInstrumentProfile
  | VisibilityBeforeMatchTime
  | InvalidAuctionMatchEvidence
  | InvalidSettlementOrderType
  | RegressingBookTime
  | RegressingTradingStateTime
  | ActivationBeforeDecision
  | ActivationTimeMismatch
  | ActivationOutOfOrder
  | ExpiryTimeMismatch
  | UnsupportedExecutionPolicy
  | SQuantityUnitMismatch quantity_unit quantity_unit
  | UnknownClientOrder
  | UnknownOrder
  | ClientOrderAlreadyTerminal
  | OrderAlreadyTerminal
  | SSequenceOverflow
  | StalenessOverflow
  | SQuantityOverflow
  | SInvalidQuantity
  | SCanonical canonical_encoding_error
  | SFillFeedback execution_fill_feedback_error
  | SDepthSweep depth_sweep_error
  | Panicked

record scheduled_depth_model =
  dm_depth_levels :: nat
  dm_max_stale_ms :: nat
  dm_adverse_price_delta :: decimal

definition scheduled_depth_model_new ::
  "nat \<Rightarrow> nat \<Rightarrow> decimal \<Rightarrow> (scheduled_depth_model, scheduled_error) result" where
  "scheduled_depth_model_new depth_levels max_stale_ms delta =
     (if \<not> (1 \<le> depth_levels \<and> depth_levels \<le> BOOK_DEPTH) then Err (SInvalidDepthLevels depth_levels)
      else if max_stale_ms = 0 then Err ZeroStalenessWindow
      else if delta < 0 then Err SInvalidAdversePriceDelta
      else Ok \<lparr>dm_depth_levels = depth_levels, dm_max_stale_ms = max_stale_ms, dm_adverse_price_delta = delta\<rparr>)"

record scheduled_instrument_config =
  ic_instrument :: instrument_id
  ic_quantity_unit :: quantity_unit
  ic_model :: scheduled_depth_model
  ic_price_policy :: price_policy

definition scheduled_instrument_config_new ::
  "instrument_id \<Rightarrow> quantity_unit \<Rightarrow> scheduled_depth_model \<Rightarrow> scheduled_instrument_config" where
  "scheduled_instrument_config_new instrument un model =
     \<lparr>ic_instrument = instrument, ic_quantity_unit = un, ic_model = model, ic_price_policy = PositiveOnly\<rparr>"

definition with_price_policy :: "scheduled_instrument_config \<Rightarrow> price_policy \<Rightarrow> scheduled_instrument_config" where
  "with_price_policy config policy = config\<lparr>ic_price_policy := policy\<rparr>"

record visible_book_evidence =
  be_instrument :: instrument_id
  be_book :: complete_book
  be_match_time :: int
  be_visible_at :: int
  be_matching :: matching_state
  be_new_order_entry :: new_order_entry

record visible_trading_state =
  te_instrument :: instrument_id
  te_match_time :: int
  te_visible_at :: int
  te_matching :: matching_state
  te_new_order_entry :: new_order_entry

definition visible_trading_state_new :: "visible_trading_state \<Rightarrow> (visible_trading_state, scheduled_error) result" where
  "visible_trading_state_new ev =
     (if te_visible_at ev < te_match_time ev then Err VisibilityBeforeMatchTime else Ok ev)"

definition visible_book_evidence_new :: "visible_book_evidence \<Rightarrow> (visible_book_evidence, scheduled_error) result" where
  "visible_book_evidence_new ev =
     (if be_visible_at ev < be_match_time ev then Err VisibilityBeforeMatchTime else Ok ev)"

record auction_match_evidence =
  ae_instrument :: instrument_id
  ae_clearing_price :: price
  ae_match_time :: int
  ae_visible_at :: int
  ae_run_event_ordinal :: nat

definition auction_match_evidence_new ::
  "auction_match_evidence \<Rightarrow> matching_state \<Rightarrow> (auction_match_evidence, scheduled_error) result" where
  "auction_match_evidence_new ev matching =
     (if ae_visible_at ev < ae_match_time ev then Err VisibilityBeforeMatchTime
      else if matching \<noteq> Enabled MethodCallAuction then Err InvalidAuctionMatchEvidence
      else Ok ev)"

record submission_context =
  sx_origin_identity :: bytes
  sx_decision_time :: int

record scheduled_order =
  sd_id :: order_id
  sd_request :: scheduled_order_request
  sd_acceptance_sequence :: nat
  sd_filled_value :: nat
  sd_status :: scheduled_order_status

record scheduled_submission =
  ss_order_id :: order_id
  ss_replaced :: "order_feedback option"

record scheduled_activation =
  sa_order_id :: order_id
  sa_status :: scheduled_order_status
  sa_feedback :: order_feedback
  sa_execution_fills :: "execution_fill_feedback list"

record visible_book_state =
  vb_evidence :: visible_book_evidence
  vb_consumed_bids :: "nat list"
  vb_consumed_asks :: "nat list"

record scheduled_simulator =
  ds_configs :: "(instrument_id, quantity_unit \<times> scheduled_depth_model \<times> price_policy) bmap"
  ds_books :: "(instrument_id, visible_book_state) bmap"
  ds_trading_states :: "(instrument_id, visible_trading_state) bmap"
  ds_orders :: "scheduled_order list"
  ds_client_orders :: "(client_order_id, order_id) bmap"
  ds_fills :: "fill_record list"
  ds_execution_fills :: "execution_fill_feedback list"
  ds_next_acceptance_sequence :: nat

definition insert_config ::
  "(instrument_id, quantity_unit \<times> scheduled_depth_model \<times> price_policy) bmap \<Rightarrow> scheduled_instrument_config \<Rightarrow>
   ((instrument_id, quantity_unit \<times> scheduled_depth_model \<times> price_policy) bmap, scheduled_error) result" where
  "insert_config indexed config =
     (if bm_get indexed (ic_instrument config) \<noteq> None then Err (SDuplicateInstrument (ic_instrument config))
      else Ok (bm_insert (ic_instrument config)
                 (ic_quantity_unit config, ic_model config, ic_price_policy config) indexed))"

definition scheduled_simulator_new :: "scheduled_instrument_config list \<Rightarrow> (scheduled_simulator, scheduled_error) result" where
  "scheduled_simulator_new configs =
     rbind (rfold insert_config [] configs) (\<lambda>indexed.
       if indexed = [] then Err SEmptyUniverse
       else Ok \<lparr>ds_configs = indexed, ds_books = [], ds_trading_states = [], ds_orders = [], ds_client_orders = [],
                ds_fills = [], ds_execution_fills = [], ds_next_acceptance_sequence = 1\<rparr>)"

subsection \<open>Visible evidence\<close>

definition publish_visible_trading_state ::
  "scheduled_simulator \<Rightarrow> visible_trading_state \<Rightarrow> (unit, scheduled_error) result \<times> scheduled_simulator" where
  "publish_visible_trading_state s ev =
     (if bm_get (ds_configs s) (te_instrument ev) = None then (Err (SInstrumentOutsideUniverse (te_instrument ev)), s)
      else if (case bm_get (ds_trading_states s) (te_instrument ev) of
                 None \<Rightarrow> False
               | Some previous \<Rightarrow> te_visible_at ev < te_visible_at previous \<or> te_match_time ev < te_match_time previous)
      then (Err RegressingTradingStateTime, s)
      else (Ok (), s\<lparr>ds_trading_states := bm_insert (te_instrument ev) ev (ds_trading_states s)\<rparr>))"

definition publish_visible_book ::
  "scheduled_simulator \<Rightarrow> visible_book_evidence \<Rightarrow> (unit, scheduled_error) result \<times> scheduled_simulator" where
  "publish_visible_book s ev =
     (case bm_get (ds_configs s) (be_instrument ev) of
        None \<Rightarrow> (Err (SInstrumentOutsideUniverse (be_instrument ev)), s)
      | Some (un, model, policy) \<Rightarrow>
          if (case book_quantity_unit (be_book ev) of None \<Rightarrow> False | Some actual \<Rightarrow> actual \<noteq> un)
          then (Err (SQuantityUnitMismatch un (the (book_quantity_unit (be_book ev)))), s)
          else if \<not> list_all (\<lambda>l. policy_accepts policy (bl_price l))
                      (side_levels (cb_bids (be_book ev)) @ side_levels (cb_asks (be_book ev)))
          then (Err SPriceNotAllowedByInstrumentProfile, s)
          else if (case bm_get (ds_books s) (be_instrument ev) of
                     None \<Rightarrow> False
                   | Some previous \<Rightarrow> be_visible_at ev < be_visible_at (vb_evidence previous) \<or>
                                      be_match_time ev < be_match_time (vb_evidence previous))
          then (Err RegressingBookTime, s)
          else (case publish_visible_trading_state s
                       \<lparr>te_instrument = be_instrument ev, te_match_time = be_match_time ev,
                        te_visible_at = be_visible_at ev, te_matching = be_matching ev,
                        te_new_order_entry = be_new_order_entry ev\<rparr> of
                  (Err err, s') \<Rightarrow> (Err err, s')
                | (Ok u, s') \<Rightarrow>
                    (Ok (), s'\<lparr>ds_books := bm_insert (be_instrument ev)
                       \<lparr>vb_evidence = ev, vb_consumed_bids = replicate BOOK_DEPTH 0,
                        vb_consumed_asks = replicate BOOK_DEPTH 0\<rparr> (ds_books s')\<rparr>)))"

subsection \<open>Orders\<close>

text \<open>Rust's \<open>position\<close>: the index of the first element that satisfies the predicate.\<close>

fun position :: "('a \<Rightarrow> bool) \<Rightarrow> 'a list \<Rightarrow> nat option" where
  "position P [] = None"
| "position P (x # xs) = (if P x then Some 0 else map_option Suc (position P xs))"

definition order_index :: "scheduled_simulator \<Rightarrow> order_id \<Rightarrow> (nat, scheduled_error) result" where
  "order_index s oid = ok_or (position (\<lambda>ord. sd_id ord = oid) (ds_orders s)) UnknownOrder"

definition set_status :: "nat \<Rightarrow> scheduled_order_status \<Rightarrow> scheduled_simulator \<Rightarrow> scheduled_simulator" where
  "set_status i status s = s\<lparr>ds_orders := (ds_orders s)[i := (ds_orders s ! i)\<lparr>sd_status := status\<rparr>]\<rparr>"

definition set_filled :: "nat \<Rightarrow> nat \<Rightarrow> scheduled_simulator \<Rightarrow> scheduled_simulator" where
  "set_filled i filled s = s\<lparr>ds_orders := (ds_orders s)[i := (ds_orders s ! i)\<lparr>sd_filled_value := filled\<rparr>]\<rparr>"

definition replace_previous ::
  "scheduled_simulator \<Rightarrow> client_order_id \<Rightarrow>
   (order_feedback option, scheduled_error) result \<times> scheduled_simulator" where
  "replace_previous s client =
     (case bm_get (ds_client_orders s) client of
        None \<Rightarrow> (Ok None, s)
      | Some previous_id \<Rightarrow>
          (case position (\<lambda>ord. sd_id ord = previous_id) (ds_orders s) of
             None \<Rightarrow> (Err Panicked, s)
           | Some i \<Rightarrow>
               if sd_status (ds_orders s ! i) \<noteq> SScheduled then (Err ClientOrderAlreadyTerminal, s)
               else (Ok (Some (CancelledFeedback (sd_id (ds_orders s ! i)) Replaced)), set_status i SReplaced s)))"

definition scheduled_identity_bytes :: "string \<Rightarrow> submission_context \<Rightarrow> nat \<Rightarrow> bytes \<Rightarrow> bytes" where
  "scheduled_identity_bytes strategy_id ctxt output_sequence canonical =
     as_bytes ''OSSOR'' @ as_bytes strategy_id @ sx_origin_identity ctxt @ be_bytes_signed 8 (sx_decision_time ctxt) @
     be_bytes 4 output_sequence @ canonical"

definition scheduled_submit ::
  "(bytes \<Rightarrow> bytes) \<Rightarrow> scheduled_simulator \<Rightarrow> string \<Rightarrow> submission_context \<Rightarrow> nat \<Rightarrow> scheduled_order_request \<Rightarrow>
   (scheduled_submission, scheduled_error) result \<times> scheduled_simulator" where
  "scheduled_submit hash s strategy_id ctxt output_sequence request =
     (let intent = sr_intent request in
      if sr_activate_at request < sx_decision_time ctxt then (Err ActivationBeforeDecision, s)
      else case bm_get (ds_configs s) (oi_instrument intent) of
        None \<Rightarrow> (Err (SInstrumentOutsideUniverse (oi_instrument intent)), s)
      | Some (un, model, policy) \<Rightarrow>
          if q_unit (oi_quantity intent) \<noteq> un then (Err (SQuantityUnitMismatch un (q_unit (oi_quantity intent))), s)
          else if (case oi_order_type intent of
                     Limit limit_price \<Rightarrow> \<not> policy_accepts policy limit_price | Market \<Rightarrow> False)
          then (Err SPriceNotAllowedByInstrumentProfile, s)
          else (case replace_previous s (sr_client_order_id request) of
                  (Err err, s') \<Rightarrow> (Err err, s')
                | (Ok replaced, s') \<Rightarrow>
                    (case request_to_canonical_bytes request of
                       Err err \<Rightarrow> (Err (SCanonical err), s')
                     | Ok canonical \<Rightarrow>
                         let oid = hash (scheduled_identity_bytes strategy_id ctxt output_sequence canonical);
                             sequence = ds_next_acceptance_sequence s'
                         in case checked_u64 (sequence + 1) of
                              None \<Rightarrow> (Err SSequenceOverflow, s')
                            | Some next_sequence \<Rightarrow>
                                (Ok \<lparr>ss_order_id = oid, ss_replaced = replaced\<rparr>,
                                 s'\<lparr>ds_next_acceptance_sequence := next_sequence,
                                    ds_client_orders := bm_insert (sr_client_order_id request) oid (ds_client_orders s'),
                                    ds_orders := ds_orders s' @
                                      [\<lparr>sd_id = oid, sd_request = request, sd_acceptance_sequence = sequence,
                                        sd_filled_value = 0, sd_status = SScheduled\<rparr>]\<rparr>))))"

definition cancel_before_activation ::
  "scheduled_simulator \<Rightarrow> client_order_id \<Rightarrow> (order_feedback, scheduled_error) result \<times> scheduled_simulator" where
  "cancel_before_activation s client =
     (case bm_get (ds_client_orders s) client of
        None \<Rightarrow> (Err UnknownClientOrder, s)
      | Some oid \<Rightarrow>
          (case order_index s oid of
             Err err \<Rightarrow> (Err err, s)
           | Ok i \<Rightarrow>
               if sd_status (ds_orders s ! i) \<noteq> SScheduled then (Err OrderAlreadyTerminal, s)
               else (Ok (CancelledFeedback oid StrategyCancelled), set_status i SCancelled s)))"

definition scheduled_expire ::
  "scheduled_simulator \<Rightarrow> order_id \<Rightarrow> int \<Rightarrow> (order_feedback, scheduled_error) result \<times> scheduled_simulator" where
  "scheduled_expire s oid t =
     (case order_index s oid of
        Err err \<Rightarrow> (Err err, s)
      | Ok i \<Rightarrow>
          if sd_status (ds_orders s ! i) \<notin> {SScheduled, SActive, SPartiallyFilled, SMatchAttempted}
          then (Err OrderAlreadyTerminal, s)
          else if sr_expire_at (sd_request (ds_orders s ! i)) \<noteq> Some t then (Err ExpiryTimeMismatch, s)
          else (Ok (CancelledFeedback oid Expired), set_status i SExpired s))"

definition fail_activation ::
  "scheduled_simulator \<Rightarrow> nat \<Rightarrow> execution_failure_reason \<Rightarrow> execution_fill_feedback list \<Rightarrow>
   (scheduled_activation, scheduled_error) result \<times> scheduled_simulator" where
  "fail_activation s i reason fills =
     (let ord = ds_orders s ! i;
          un = q_unit (oi_quantity (sr_intent (sd_request ord)));
          filled = (case quantity_new (sd_filled_value ord) un of Ok q \<Rightarrow> Some q | Err err \<Rightarrow> None)
      in if q_value (oi_quantity (sr_intent (sd_request ord))) < sd_filled_value ord then (Err Panicked, set_status i (SFailed reason) s)
         else case quantity_new (q_value (oi_quantity (sr_intent (sd_request ord))) - sd_filled_value ord) un of
           Err err \<Rightarrow> (Err Panicked, set_status i (SFailed reason) s)
         | Ok remaining \<Rightarrow>
             (Ok \<lparr>sa_order_id = sd_id ord, sa_status = SFailed reason,
                  sa_feedback = ExecutionFailed (sd_id ord) reason filled remaining, sa_execution_fills = fills\<rparr>,
              set_status i (SFailed reason) s))"

definition fill_id_of :: "(bytes \<Rightarrow> bytes) \<Rightarrow> order_id \<Rightarrow> nat \<Rightarrow> nat \<Rightarrow> fill_id" where
  "fill_id_of hash oid control_sequence level_index =
     hash (as_bytes ''OSSF'' @ oid @ be_bytes 8 control_sequence @ be_bytes 1 level_index)"

definition market_fill_id :: "(bytes \<Rightarrow> bytes) \<Rightarrow> order_id \<Rightarrow> nat \<Rightarrow> nat \<Rightarrow> fill_id" where
  "market_fill_id hash oid run_event_ordinal level_index =
     hash (as_bytes ''OSSFM'' @ oid @ be_bytes 8 run_event_ordinal @ be_bytes 1 level_index)"

subsection \<open>Execution against the visible book\<close>

definition consumed_of :: "order_side \<Rightarrow> visible_book_state \<Rightarrow> nat list" where
  "consumed_of side b = (case side of Buy \<Rightarrow> vb_consumed_asks b | Sell \<Rightarrow> vb_consumed_bids b)"

definition with_consumed_of :: "order_side \<Rightarrow> nat list \<Rightarrow> visible_book_state \<Rightarrow> visible_book_state" where
  "with_consumed_of side c b =
     (case side of Buy \<Rightarrow> b\<lparr>vb_consumed_asks := c\<rparr> | Sell \<Rightarrow> b\<lparr>vb_consumed_bids := c\<rparr>)"

definition visible_book_at :: "scheduled_simulator \<Rightarrow> instrument_id \<Rightarrow> int \<Rightarrow> visible_book_state option" where
  "visible_book_at s instrument t =
     (case bm_get (ds_books s) instrument of
        None \<Rightarrow> None | Some b \<Rightarrow> if be_visible_at (vb_evidence b) \<le> t then Some b else None)"

definition visible_state_at :: "scheduled_simulator \<Rightarrow> instrument_id \<Rightarrow> int \<Rightarrow> visible_trading_state option" where
  "visible_state_at s instrument t =
     (case bm_get (ds_trading_states s) instrument of
        None \<Rightarrow> None | Some st \<Rightarrow> if te_visible_at st \<le> t then Some st else None)"

definition matching_enabled_at :: "scheduled_simulator \<Rightarrow> instrument_id \<Rightarrow> int \<Rightarrow> bool" where
  "matching_enabled_at s instrument t \<longleftrightarrow>
     (case visible_state_at s instrument t of
        None \<Rightarrow> False | Some st \<Rightarrow> (case te_matching st of Enabled method \<Rightarrow> True | _ \<Rightarrow> False))"

definition book_is_fresh :: "scheduled_depth_model \<Rightarrow> visible_book_state \<Rightarrow> int \<Rightarrow> (bool, scheduled_error) result" where
  "book_is_fresh model b t =
     rbind (ok_or (Option.bind (checked_u64 (dm_max_stale_ms model * 1000)) (\<lambda>v. checked_i64 (int v))) StalenessOverflow) (\<lambda>limit.
     rbind (ok_or (checked_i64 (t - be_match_time (vb_evidence b))) StalenessOverflow) (\<lambda>age.
       Ok (\<not> (age < 0 \<or> age > limit))))"

fun record_fills ::
  "(bytes \<Rightarrow> bytes) \<Rightarrow> scheduled_order \<Rightarrow> nat \<Rightarrow> int \<Rightarrow> nat list \<Rightarrow> nat \<Rightarrow> level_fill list \<Rightarrow>
   nat list \<times> nat \<times> fill_record list \<times> execution_fill_feedback list \<times> (unit, scheduled_error) result" where
  "record_fills hash ord control_sequence t consumed cumulative [] = (consumed, cumulative, [], [], Ok ())"
| "record_fills hash ord control_sequence t consumed cumulative (lf # lfs) =
     (let request = sd_request ord;
          intent = sr_intent request;
          un = q_unit (oi_quantity intent);
          index = lf_level_index lf - 1
      in if lf_level_index lf = 0 \<or> length consumed \<le> index then (consumed, cumulative, [], [], Err Panicked)
         else case checked_u64 (consumed ! index + q_value (lf_quantity lf)) of
           None \<Rightarrow> (consumed, cumulative, [], [], Err SQuantityOverflow)
         | Some taken \<Rightarrow>
             let consumed' = consumed[index := taken] in
             (case checked_u64 (cumulative + q_value (lf_quantity lf)) of
                None \<Rightarrow> (consumed', cumulative, [], [], Err SQuantityOverflow)
              | Some cumulative' \<Rightarrow>
                  (case quantity_new cumulative' un of
                     Err err \<Rightarrow> (consumed', cumulative', [], [], Err SInvalidQuantity)
                   | Ok cumulative_quantity \<Rightarrow>
                       if q_value (oi_quantity intent) < cumulative' then (consumed', cumulative', [], [], Err Panicked)
                       else let remaining = (case quantity_new (q_value (oi_quantity intent) - cumulative') un of
                                          Ok q \<Rightarrow> Some q | Err err \<Rightarrow> None);
                           fill = fill_from_control (sd_id ord) control_sequence t (oi_side intent) (lf_price lf) (lf_quantity lf)
                       in (case execution_fill_feedback_new
                                  \<lparr>ef_fill_id = fill_id_of hash (sd_id ord) control_sequence (lf_level_index lf),
                                   ef_order_id = sd_id ord, ef_client_order_id = sr_client_order_id request,
                                   ef_batch_id = sr_batch_id request, ef_instrument = oi_instrument intent,
                                   ef_activation_time = sr_activate_at request, ef_fill_time = t, ef_side = oi_side intent,
                                   ef_level_index = lf_level_index lf, ef_price = lf_price lf,
                                   ef_quantity = lf_quantity lf, ef_cumulative_filled = cumulative_quantity,
                                   ef_remaining = remaining\<rparr> of
                             Err err \<Rightarrow> (consumed', cumulative', [fill], [], Err (SFillFeedback err))
                           | Ok feedback \<Rightarrow>
                               (case record_fills hash ord control_sequence t consumed' cumulative' lfs of
                                  (c, n, fills, feedbacks, r) \<Rightarrow> (c, n, fill # fills, feedback # feedbacks, r))))))"

text \<open>The sweep of one order and what it records; both callers store the cumulative quantity at its end.\<close>

definition execute_sweep ::
  "(bytes \<Rightarrow> bytes) \<Rightarrow> scheduled_simulator \<Rightarrow> nat \<Rightarrow> visible_book_state \<Rightarrow> scheduled_depth_model \<Rightarrow> price_policy \<Rightarrow>
   nat \<Rightarrow> int \<Rightarrow> quantity \<Rightarrow> nat \<Rightarrow>
   (depth_sweep_result \<times> nat \<times> execution_fill_feedback list, scheduled_error) result \<times> scheduled_simulator" where
  "execute_sweep hash s i b model policy control_sequence t requested starting_filled =
     (let ord = ds_orders s ! i;
          intent = sr_intent (sd_request ord);
          consumed = consumed_of (oi_side intent) b
      in case sweep_marketable_depth_with_consumed (be_book (vb_evidence b)) (oi_side intent) requested
                (dm_depth_levels model) (oi_order_type intent) (dm_adverse_price_delta model) consumed of
           Err err \<Rightarrow> (Err (SDepthSweep err), s)
         | Ok sweep \<Rightarrow>
             if \<not> list_all (\<lambda>f. policy_accepts policy (lf_price f)) (sw_fills sweep)
             then (Err SPriceNotAllowedByInstrumentProfile, s)
             else (case record_fills hash ord control_sequence t consumed starting_filled (sw_fills sweep) of
                     (consumed', cumulative, fills, feedbacks, r) \<Rightarrow>
                       let s' = s\<lparr>ds_books := bm_insert (oi_instrument intent)
                                    (with_consumed_of (oi_side intent) consumed' b) (ds_books s),
                                  ds_fills := ds_fills s @ fills,
                                  ds_execution_fills := ds_execution_fills s @ feedbacks\<rparr>
                       in (case r of
                             Err err \<Rightarrow> (Err err, s')
                           | Ok u \<Rightarrow> (Ok (sweep, cumulative, feedbacks), set_filled i cumulative s'))))"

definition settle_at_activation ::
  "(bytes \<Rightarrow> bytes) \<Rightarrow> scheduled_simulator \<Rightarrow> nat \<Rightarrow> nat \<Rightarrow> int \<Rightarrow>
   (scheduled_activation, scheduled_error) result \<times> scheduled_simulator" where
  "settle_at_activation hash s i control_sequence t =
     (let ord = ds_orders s ! i;
          request = sd_request ord;
          intent = sr_intent request;
          quantity = oi_quantity intent
      in case oi_order_type intent of
           Market \<Rightarrow> (Err InvalidSettlementOrderType, s)
         | Limit settlement_price \<Rightarrow>
             let s' = s\<lparr>ds_fills := ds_fills s @
                        [fill_from_control (sd_id ord) control_sequence t (oi_side intent) settlement_price quantity]\<rparr>
             in (case execution_fill_feedback_new
                        \<lparr>ef_fill_id = fill_id_of hash (sd_id ord) control_sequence 1, ef_order_id = sd_id ord,
                         ef_client_order_id = sr_client_order_id request, ef_batch_id = sr_batch_id request,
                         ef_instrument = oi_instrument intent, ef_activation_time = sr_activate_at request,
                         ef_fill_time = t, ef_side = oi_side intent, ef_level_index = 1, ef_price = settlement_price,
                         ef_quantity = quantity, ef_cumulative_filled = quantity, ef_remaining = None\<rparr> of
                   Err err \<Rightarrow> (Err (SFillFeedback err), s')
                 | Ok fill \<Rightarrow>
                     (Ok \<lparr>sa_order_id = sd_id ord, sa_status = SFilled, sa_feedback = FilledFeedback (sd_id ord) quantity,
                          sa_execution_fills = [fill]\<rparr>,
                      set_status i SFilled (set_filled i (q_value quantity)
                        (s'\<lparr>ds_execution_fills := ds_execution_fills s' @ [fill]\<rparr>)))))"

definition activate_depth ::
  "(bytes \<Rightarrow> bytes) \<Rightarrow> scheduled_simulator \<Rightarrow> nat \<Rightarrow> nat \<Rightarrow> int \<Rightarrow>
   (scheduled_activation, scheduled_error) result \<times> scheduled_simulator" where
  "activate_depth hash s i control_sequence t =
     (let ord = ds_orders s ! i;
          intent = sr_intent (sd_request ord);
          instrument = oi_instrument intent
      in case bm_get (ds_configs s) instrument of
           None \<Rightarrow> (Err Panicked, s)
         | Some (un, model, policy) \<Rightarrow>
             (case visible_book_at s instrument t of
                None \<Rightarrow> fail_activation s i MissingVisibleDepth []
              | Some b \<Rightarrow>
                  (case book_is_fresh model b t of
                     Err err \<Rightarrow> (Err err, s)
                   | Ok fresh \<Rightarrow>
                       if \<not> fresh then fail_activation s i StaleVisibleDepth []
                       else if \<not> matching_enabled_at s instrument t then fail_activation s i MatchingDisabled []
                       else if \<not> (case visible_state_at s instrument t of
                                     None \<Rightarrow> False
                                   | Some st \<Rightarrow> entry_allowed (te_new_order_entry st) (oi_order_type intent))
                       then fail_activation s i NewOrderEntryBlockedFailure []
                       else (case execute_sweep hash s i b model policy control_sequence t (oi_quantity intent) 0 of
                               (Err err, s') \<Rightarrow> (Err err, s')
                             | (Ok (sweep, cumulative, feedbacks), s') \<Rightarrow>
                                 if sweep_is_complete sweep
                                 then (Ok \<lparr>sa_order_id = sd_id ord, sa_status = SFilled,
                                           sa_feedback = FilledFeedback (sd_id ord) (oi_quantity intent),
                                           sa_execution_fills = feedbacks\<rparr>, set_status i SFilled s')
                                 else fail_activation s' i
                                        (if cumulative = 0 \<and> oi_order_type intent \<noteq> Market
                                         then PriceNotMarketable else InsufficientVisibleDepth) feedbacks))))"

definition scheduled_activate ::
  "(bytes \<Rightarrow> bytes) \<Rightarrow> scheduled_simulator \<Rightarrow> order_id \<Rightarrow> nat \<Rightarrow> int \<Rightarrow>
   (scheduled_activation, scheduled_error) result \<times> scheduled_simulator" where
  "scheduled_activate hash s oid control_sequence t =
     (case order_index s oid of
        Err err \<Rightarrow> (Err err, s)
      | Ok i \<Rightarrow>
          let ord = ds_orders s ! i;
              request = sd_request ord;
              intent = sr_intent request
          in if sd_status ord \<noteq> SScheduled then (Err OrderAlreadyTerminal, s)
             else if sr_activate_at request \<noteq> t then (Err ActivationTimeMismatch, s)
             else if \<exists>other \<in> set (ds_orders s). sd_status other = SScheduled \<and> sr_activate_at (sd_request other) = t \<and>
                       sd_acceptance_sequence other < sd_acceptance_sequence ord
             then (Err ActivationOutOfOrder, s)
             else if (case visible_state_at s (oi_instrument intent) t of
                        None \<Rightarrow> False
                      | Some st \<Rightarrow> \<not> entry_allowed (te_new_order_entry st) (oi_order_type intent))
             then fail_activation s i NewOrderEntryBlockedFailure []
             else case sr_execution_policy request of
               VisibleDepthUntilExpiryV1 \<Rightarrow>
                 (Ok \<lparr>sa_order_id = oid, sa_status = SActive, sa_feedback = Activated oid, sa_execution_fills = []\<rparr>,
                  set_status i SActive s)
             | AuctionCrossAtFirstMatchV1 \<Rightarrow>
                 (Ok \<lparr>sa_order_id = oid, sa_status = SActive, sa_feedback = Activated oid, sa_execution_fills = []\<rparr>,
                  set_status i SActive s)
             | SettlementAtActivationV1 \<Rightarrow> settle_at_activation hash s i control_sequence t
             | VisibleDepthAtActivationV1 \<Rightarrow> activate_depth hash s i control_sequence t)"

definition execute_passive_order ::
  "(bytes \<Rightarrow> bytes) \<Rightarrow> scheduled_simulator \<Rightarrow> nat \<Rightarrow> nat \<Rightarrow> int \<Rightarrow>
   (scheduled_activation option, scheduled_error) result \<times> scheduled_simulator" where
  "execute_passive_order hash s i control_sequence t =
     (let ord = ds_orders s ! i;
          intent = sr_intent (sd_request ord);
          instrument = oi_instrument intent;
          un = q_unit (oi_quantity intent)
      in case bm_get (ds_configs s) instrument of
           None \<Rightarrow> (Err Panicked, s)
         | Some (u, model, policy) \<Rightarrow>
             (case visible_book_at s instrument t of
                None \<Rightarrow> (Ok None, s)
              | Some b \<Rightarrow>
                  (case book_is_fresh model b t of
                     Err err \<Rightarrow> (Err err, s)
                   | Ok fresh \<Rightarrow>
                       if \<not> fresh \<or> \<not> matching_enabled_at s instrument t then (Ok None, s)
                       else if q_value (oi_quantity intent) < sd_filled_value ord then (Err Panicked, s)
                       else (case quantity_new (q_value (oi_quantity intent) - sd_filled_value ord) un of
                               Err err \<Rightarrow> (Err SInvalidQuantity, s)
                             | Ok requested \<Rightarrow>
                                 (case execute_sweep hash s i b model policy control_sequence t requested (sd_filled_value ord) of
                                    (Err err, s') \<Rightarrow> (Err err, s')
                                  | (Ok (sweep, cumulative, feedbacks), s') \<Rightarrow>
                                      if cumulative < sd_filled_value ord \<or> q_value (oi_quantity intent) < cumulative then (Err Panicked, s')
                                      else let filled_now = cumulative - sd_filled_value ord;
                                          finish = (\<lambda>status feedback.
                                            (Ok (Some \<lparr>sa_order_id = sd_id ord, sa_status = status, sa_feedback = feedback,
                                                       sa_execution_fills = feedbacks\<rparr>), set_status i status s'))
                                      in (case quantity_new (q_value (oi_quantity intent) - cumulative) un of
                                            Err err \<Rightarrow> finish SFilled (FilledFeedback (sd_id ord) (oi_quantity intent))
                                          | Ok remaining \<Rightarrow>
                                              if filled_now > 0
                                              then (case quantity_new filled_now un of
                                                      Err err \<Rightarrow> (Err Panicked, s')
                                                    | Ok filled \<Rightarrow> finish SPartiallyFilled (PartiallyFilledFeedback (sd_id ord) filled remaining))
                                              else finish SMatchAttempted (MatchAttempted (sd_id ord) None remaining)))))))"

fun execute_passive_orders ::
  "(bytes \<Rightarrow> bytes) \<Rightarrow> scheduled_simulator \<Rightarrow> nat list \<Rightarrow> nat \<Rightarrow> int \<Rightarrow>
   (scheduled_activation list, scheduled_error) result \<times> scheduled_simulator" where
  "execute_passive_orders hash s [] control_sequence t = (Ok [], s)"
| "execute_passive_orders hash s (i # is) control_sequence t =
     (case execute_passive_order hash s i control_sequence t of
        (Err err, s') \<Rightarrow> (Err err, s')
      | (Ok res, s') \<Rightarrow>
          (case execute_passive_orders hash s' is control_sequence t of
             (r, s'') \<Rightarrow> (rbind r (\<lambda>results. Ok ((case res of None \<Rightarrow> [] | Some a \<Rightarrow> [a]) @ results)), s'')))"

text \<open>The indices of the selected orders, by acceptance sequence and identity.\<close>

definition selected_indices :: "(scheduled_order \<Rightarrow> bool) \<Rightarrow> scheduled_simulator \<Rightarrow> nat list" where
  "selected_indices P s =
     sort_key (\<lambda>i. (sd_acceptance_sequence (ds_orders s ! i), sd_id (ds_orders s ! i)))
       (filter (\<lambda>i. P (ds_orders s ! i)) [0..<length (ds_orders s)])"

definition evaluate_active ::
  "(bytes \<Rightarrow> bytes) \<Rightarrow> scheduled_simulator \<Rightarrow> instrument_id \<Rightarrow> nat \<Rightarrow> int \<Rightarrow>
   (scheduled_activation list, scheduled_error) result \<times> scheduled_simulator" where
  "evaluate_active hash s instrument control_sequence t =
     execute_passive_orders hash s
       (selected_indices (\<lambda>ord. sd_status ord = SActive \<and> oi_instrument (sr_intent (sd_request ord)) = instrument \<and>
          sr_execution_policy (sd_request ord) = VisibleDepthUntilExpiryV1) s)
       control_sequence t"

definition cancel_for_volatility_interruption ::
  "scheduled_simulator \<Rightarrow> instrument_id \<Rightarrow> (order_feedback list, scheduled_error) result \<times> scheduled_simulator" where
  "cancel_for_volatility_interruption s instrument =
     (if bm_get (ds_configs s) instrument = None then (Err (SInstrumentOutsideUniverse instrument), s)
      else let selected = (\<lambda>ord. oi_instrument (sr_intent (sd_request ord)) = instrument \<and>
                 oi_order_type (sr_intent (sd_request ord)) = Market \<and>
                 sd_status ord \<in> {SActive, SPartiallyFilled, SMatchAttempted})
           in (Ok (map (\<lambda>ord. CancelledFeedback (sd_id ord) VolatilityInterruptionCancel) (filter selected (ds_orders s))),
               s\<lparr>ds_orders := map (\<lambda>ord. if selected ord then ord\<lparr>sd_status := SCancelled\<rparr> else ord) (ds_orders s)\<rparr>))"

definition auction_crosses :: "price \<Rightarrow> order_intent \<Rightarrow> bool" where
  "auction_crosses clearing_price intent \<longleftrightarrow>
     (case oi_order_type intent of
        Limit limit_price \<Rightarrow> (case oi_side intent of Buy \<Rightarrow> clearing_price < limit_price | Sell \<Rightarrow> clearing_price > limit_price)
      | Market \<Rightarrow> False)"

definition match_in_auction ::
  "(bytes \<Rightarrow> bytes) \<Rightarrow> auction_match_evidence \<Rightarrow> scheduled_simulator \<Rightarrow> nat \<Rightarrow>
   (scheduled_activation, scheduled_error) result \<times> scheduled_simulator" where
  "match_in_auction hash ev s i =
     (let ord = ds_orders s ! i;
          request = sd_request ord;
          intent = sr_intent request;
          quantity = oi_quantity intent
      in if \<not> auction_crosses (ae_clearing_price ev) intent
         then (Ok \<lparr>sa_order_id = sd_id ord, sa_status = SMatchAttempted,
                   sa_feedback = MatchAttempted (sd_id ord) None quantity, sa_execution_fills = []\<rparr>,
               set_status i SMatchAttempted s)
         else let s' = s\<lparr>ds_fills := ds_fills s @
                         [fill_from_market_event (sd_id ord) (ae_run_event_ordinal ev) (ae_match_time ev) (oi_side intent)
                            (ae_clearing_price ev) quantity]\<rparr>
              in (case execution_fill_feedback_new
                         \<lparr>ef_fill_id = market_fill_id hash (sd_id ord) (ae_run_event_ordinal ev) 1, ef_order_id = sd_id ord,
                          ef_client_order_id = sr_client_order_id request, ef_batch_id = sr_batch_id request,
                          ef_instrument = ae_instrument ev, ef_activation_time = sr_activate_at request,
                          ef_fill_time = ae_match_time ev, ef_side = oi_side intent, ef_level_index = 1,
                          ef_price = ae_clearing_price ev, ef_quantity = quantity, ef_cumulative_filled = quantity,
                          ef_remaining = None\<rparr> of
                    Err err \<Rightarrow> (Err (SFillFeedback err), s')
                  | Ok fill \<Rightarrow>
                      (Ok \<lparr>sa_order_id = sd_id ord, sa_status = SFilled, sa_feedback = FilledFeedback (sd_id ord) quantity,
                           sa_execution_fills = [fill]\<rparr>,
                       set_status i SFilled (set_filled i (q_value quantity)
                         (s'\<lparr>ds_execution_fills := ds_execution_fills s' @ [fill]\<rparr>)))))"

fun match_orders_in_auction ::
  "(bytes \<Rightarrow> bytes) \<Rightarrow> auction_match_evidence \<Rightarrow> scheduled_simulator \<Rightarrow> nat list \<Rightarrow>
   (scheduled_activation list, scheduled_error) result \<times> scheduled_simulator" where
  "match_orders_in_auction hash ev s [] = (Ok [], s)"
| "match_orders_in_auction hash ev s (i # is) =
     (case match_in_auction hash ev s i of
        (Err err, s') \<Rightarrow> (Err err, s')
      | (Ok a, s') \<Rightarrow>
          (case match_orders_in_auction hash ev s' is of (r, s'') \<Rightarrow> (rbind r (\<lambda>results. Ok (a # results)), s'')))"

definition evaluate_auction_match ::
  "(bytes \<Rightarrow> bytes) \<Rightarrow> scheduled_simulator \<Rightarrow> auction_match_evidence \<Rightarrow>
   (scheduled_activation list, scheduled_error) result \<times> scheduled_simulator" where
  "evaluate_auction_match hash s ev =
     (case bm_get (ds_configs s) (ae_instrument ev) of
        None \<Rightarrow> (Err (SInstrumentOutsideUniverse (ae_instrument ev)), s)
      | Some (un, model, policy) \<Rightarrow>
          if \<not> policy_accepts policy (ae_clearing_price ev) then (Err SPriceNotAllowedByInstrumentProfile, s)
          else match_orders_in_auction hash ev s
                 (selected_indices (\<lambda>ord. sd_status ord = SActive \<and>
                    oi_instrument (sr_intent (sd_request ord)) = ae_instrument ev \<and>
                    sr_execution_policy (sd_request ord) = AuctionCrossAtFirstMatchV1 \<and>
                    sr_activate_at (sd_request ord) \<le> ae_match_time ev) s))"

section \<open>Recording the fills of a sweep\<close>

lemma record_fills_spec:
  assumes "distinct (map lf_level_index lfs)"
    and "\<forall>f \<in> set lfs. 1 \<le> lf_level_index f \<and> lf_level_index f \<le> 5 \<and> lf_level_index f \<le> length c \<and>
      0 < q_value (lf_quantity f) \<and> q_unit (lf_quantity f) = q_unit (oi_quantity (sr_intent (sd_request ord))) \<and>
      in_u64 (c ! (lf_level_index f - 1) + q_value (lf_quantity f))"
    and "in_u64 (cum + (\<Sum>f \<leftarrow> lfs. q_value (lf_quantity f)))"
    and "cum + (\<Sum>f \<leftarrow> lfs. q_value (lf_quantity f)) \<le> q_value (oi_quantity (sr_intent (sd_request ord)))"
    and "sr_activate_at (sd_request ord) \<le> t"
  shows "\<exists>c' feedbacks. record_fills hash ord n t c cum lfs =
      (c', cum + (\<Sum>f \<leftarrow> lfs. q_value (lf_quantity f)),
       map (\<lambda>f. fill_from_control (sd_id ord) n t (oi_side (sr_intent (sd_request ord))) (lf_price f) (lf_quantity f)) lfs,
       feedbacks, Ok ()) \<and> rfold consume_level c lfs = Ok c'"
  using assms
proof (induction lfs arbitrary: c cum)
  case (Cons f lfs)
  let ?c = "c[lf_level_index f - 1 := c ! (lf_level_index f - 1) + q_value (lf_quantity f)]"
  let ?cum = "cum + q_value (lf_quantity f)"
  have f: "1 \<le> lf_level_index f" "lf_level_index f \<le> 5" "0 < q_value (lf_quantity f)"
      "q_unit (lf_quantity f) = q_unit (oi_quantity (sr_intent (sd_request ord)))"
      "in_u64 (c ! (lf_level_index f - 1) + q_value (lf_quantity f))"
    using Cons.prems(2) by auto
  have cum: "in_u64 ?cum" "\<not> q_value (oi_quantity (sr_intent (sd_request ord))) < ?cum"
    using Cons.prems(3,4) by (simp_all add: in_u64_def)
  have index: "lf_level_index f \<noteq> 0" "\<not> length c \<le> lf_level_index f - 1"
    using Cons.prems(2) by (auto simp: Suc_le_eq)
  have "\<forall>g \<in> set lfs. 1 \<le> lf_level_index g \<and> lf_level_index g \<le> 5 \<and> lf_level_index g \<le> length ?c \<and>
      0 < q_value (lf_quantity g) \<and> q_unit (lf_quantity g) = q_unit (oi_quantity (sr_intent (sd_request ord))) \<and>
      in_u64 (?c ! (lf_level_index g - 1) + q_value (lf_quantity g))"
  proof
    fix g
    assume g: "g \<in> set lfs"
    have "lf_level_index g \<noteq> lf_level_index f"
    proof
      assume "lf_level_index g = lf_level_index f"
      then have "lf_level_index f \<in> lf_level_index ` set lfs" using imageI [OF g, of lf_level_index] by simp
      then show False using Cons.prems(1) by simp
    qed
    moreover have "1 \<le> lf_level_index g" using Cons.prems(2) g by simp
    ultimately have "lf_level_index f - 1 \<noteq> lf_level_index g - 1" using f(1) by linarith
    then have "?c ! (lf_level_index g - 1) = c ! (lf_level_index g - 1)" by (rule nth_list_update_neq)
    then show "1 \<le> lf_level_index g \<and> lf_level_index g \<le> 5 \<and> lf_level_index g \<le> length ?c \<and>
      0 < q_value (lf_quantity g) \<and> q_unit (lf_quantity g) = q_unit (oi_quantity (sr_intent (sd_request ord))) \<and>
      in_u64 (?c ! (lf_level_index g - 1) + q_value (lf_quantity g))"
      using Cons.prems(2) g by simp
  qed
  then obtain c' feedbacks where rest: "record_fills hash ord n t ?c ?cum lfs =
      (c', ?cum + (\<Sum>f \<leftarrow> lfs. q_value (lf_quantity f)),
       map (\<lambda>f. fill_from_control (sd_id ord) n t (oi_side (sr_intent (sd_request ord))) (lf_price f) (lf_quantity f)) lfs,
       feedbacks, Ok ())" "rfold consume_level ?c lfs = Ok c'"
    using Cons.IH [of ?c ?cum] Cons.prems by (auto simp: add.assoc)
  have "consume_level c f = Ok ?c" using f(5) by (simp add: consume_level_def checked_u64_def Let_def)
  then show ?case
    using f cum rest Cons.prems(5) index
    by (simp add: checked_u64_def quantity_new_def execution_fill_feedback_new_def Let_def add.assoc)
qed simp

section \<open>States and transitions\<close>

fun status_step :: "scheduled_order_status \<Rightarrow> scheduled_order_status \<Rightarrow> bool" where
  "status_step SScheduled to \<longleftrightarrow>
     to \<in> {SActive, SFilled, SExpired, SReplaced, SCancelled} \<or> (\<exists>reason. to = SFailed reason)"
| "status_step SActive to \<longleftrightarrow> to \<in> {SPartiallyFilled, SMatchAttempted, SFilled, SExpired, SCancelled}"
| "status_step SPartiallyFilled to \<longleftrightarrow> to \<in> {SExpired, SCancelled}"
| "status_step SMatchAttempted to \<longleftrightarrow> to \<in> {SExpired, SCancelled}"
| "status_step _ to \<longleftrightarrow> False"

definition terminal :: "scheduled_order_status \<Rightarrow> bool" where
  "terminal status \<longleftrightarrow> status \<notin> {SScheduled, SActive, SPartiallyFilled, SMatchAttempted}"

definition order_evolves :: "scheduled_order \<Rightarrow> scheduled_order \<Rightarrow> bool" where
  "order_evolves a b \<longleftrightarrow>
     b = a\<lparr>sd_filled_value := sd_filled_value b, sd_status := sd_status b\<rparr> \<and> sd_filled_value a \<le> sd_filled_value b \<and>
     status_step\<^sup>*\<^sup>* (sd_status a) (sd_status b) \<and> (terminal (sd_status a) \<longrightarrow> b = a)"

lemma order_evolves_refl [simp]: "order_evolves a a"
  by (simp add: order_evolves_def)

lemma order_evolves_trans: "order_evolves a b \<Longrightarrow> order_evolves b c \<Longrightarrow> order_evolves a c"
  unfolding order_evolves_def
  by (cases a; cases b; cases c) (auto intro: rtranclp_trans)

lemma order_evolves_fields:
  assumes "order_evolves a b"
  shows "sd_id b = sd_id a" "sd_request b = sd_request a" "sd_acceptance_sequence b = sd_acceptance_sequence a"
  using assms by (cases a; cases b; simp add: order_evolves_def)+

text \<open>The orders of a simulator, later, possibly with new ones at the end.\<close>

definition orders_evolve :: "scheduled_order list \<Rightarrow> scheduled_order list \<Rightarrow> bool" where
  "orders_evolve as bs \<longleftrightarrow> length as \<le> length bs \<and> (\<forall>i < length as. order_evolves (as ! i) (bs ! i))"

lemma orders_evolve_refl [simp]: "orders_evolve as as"
  by (simp add: orders_evolve_def)

lemma orders_evolve_trans: "orders_evolve as bs \<Longrightarrow> orders_evolve bs cs \<Longrightarrow> orders_evolve as cs"
  unfolding orders_evolve_def using order_evolves_trans by (meson le_trans less_le_trans)

lemma orders_evolve_update: "order_evolves (as ! i) b \<Longrightarrow> orders_evolve as (as[i := b])"
  by (cases "i < length as") (auto simp: orders_evolve_def nth_list_update list_update_beyond not_less)

lemma orders_evolve_append: "orders_evolve as bs \<Longrightarrow> orders_evolve as (bs @ cs)"
  by (auto simp: orders_evolve_def nth_append)

section \<open>The invariant\<close>

abbreviation order_quantity :: "scheduled_order \<Rightarrow> quantity" where
  "order_quantity ord \<equiv> oi_quantity (sr_intent (sd_request ord))"

abbreviation order_side_of :: "scheduled_order \<Rightarrow> order_side" where
  "order_side_of ord \<equiv> oi_side (sr_intent (sd_request ord))"

abbreviation order_instrument :: "scheduled_order \<Rightarrow> instrument_id" where
  "order_instrument ord \<equiv> oi_instrument (sr_intent (sd_request ord))"

text \<open>What is filled agrees with the status.\<close>

definition filled_ok :: "scheduled_order \<Rightarrow> bool" where
  "filled_ok ord \<longleftrightarrow>
     sd_filled_value ord \<le> q_value (order_quantity ord) \<and>
     (sd_status ord \<in> {SScheduled, SActive, SMatchAttempted, SReplaced} \<longrightarrow> sd_filled_value ord = 0) \<and>
     (sd_status ord = SPartiallyFilled \<longrightarrow> 0 < sd_filled_value ord) \<and>
     (sd_status ord = SFilled \<longleftrightarrow> sd_filled_value ord = q_value (order_quantity ord))"

definition sched_order_ok :: "int \<Rightarrow> scheduled_simulator \<Rightarrow> scheduled_order \<Rightarrow> bool" where
  "sched_order_ok now s ord \<longleftrightarrow>
     wf_quantity (order_quantity ord) \<and> filled_ok ord \<and>
     (\<exists>model policy. bm_get (ds_configs s) (order_instrument ord) = Some (q_unit (order_quantity ord), model, policy)) \<and>
     (sd_status ord \<in> {SActive, SPartiallyFilled, SMatchAttempted} \<longrightarrow> sr_activate_at (sd_request ord) \<le> now)"

definition sched_total :: "order_id \<Rightarrow> scheduled_order list \<Rightarrow> nat" where
  "sched_total oid ords = (\<Sum>ord \<leftarrow> filter (\<lambda>ord. sd_id ord = oid) ords. sd_filled_value ord)"

definition sched_fill_ok :: "scheduled_order \<Rightarrow> fill_record \<Rightarrow> bool" where
  "sched_fill_ok ord f \<longleftrightarrow>
     fr_order_id f = sd_id ord \<and> fr_side f = order_side_of ord \<and> q_unit (fr_quantity f) = q_unit (order_quantity ord) \<and>
     0 < q_value (fr_quantity f) \<and> sr_activate_at (sd_request ord) \<le> fr_match_time f \<and>
     is_marketable (fr_price f) (order_side_of ord) (oi_order_type (sr_intent (sd_request ord)))"

definition book_fits :: "complete_book \<Rightarrow> bool" where
  "book_fits book \<longleftrightarrow> (\<forall>side. length (opposite_levels book side) \<le> BOOK_DEPTH \<and>
     (\<forall>l \<in> set (opposite_levels book side). in_u64 (q_value (bl_quantity l))))"

definition book_state_ok :: "visible_book_state \<Rightarrow> bool" where
  "book_state_ok b \<longleftrightarrow> book_fits (be_book (vb_evidence b)) \<and>
     (\<forall>side. length (consumed_of side b) = BOOK_DEPTH \<and>
        (\<forall>i < length (opposite_levels (be_book (vb_evidence b)) side).
           consumed_of side b ! i \<le> q_value (bl_quantity (opposite_levels (be_book (vb_evidence b)) side ! i))))"

definition sched_inv :: "int \<Rightarrow> scheduled_simulator \<Rightarrow> bool" where
  "sched_inv now s \<longleftrightarrow>
     (\<forall>ord \<in> set (ds_orders s). sched_order_ok now s ord) \<and>
     (\<forall>oid. fill_total oid (ds_fills s) = sched_total oid (ds_orders s)) \<and>
     (\<forall>f \<in> set (ds_fills s). \<exists>ord \<in> set (ds_orders s). sched_fill_ok ord f) \<and>
     (\<forall>instrument b. bm_get (ds_books s) instrument = Some b \<longrightarrow> book_state_ok b) \<and>
     (\<forall>client oid. bm_get (ds_client_orders s) client = Some oid \<longrightarrow> (\<exists>ord \<in> set (ds_orders s). sd_id ord = oid))"

lemma sched_total_simps [simp]:
  "sched_total oid [] = 0"
  "sched_total oid (ord # ords) = (if sd_id ord = oid then sd_filled_value ord else 0) + sched_total oid ords"
  "sched_total oid (ords @ ords') = sched_total oid ords + sched_total oid ords'"
  by (simp_all add: sched_total_def)

lemma sched_total_update:
  "i < length ords \<Longrightarrow> sd_id ord = sd_id (ords ! i) \<Longrightarrow>
   sched_total oid (ords[i := ord]) + (if sd_id ord = oid then sd_filled_value (ords ! i) else 0) =
   sched_total oid ords + (if sd_id ord = oid then sd_filled_value ord else 0)"
proof (induction ords arbitrary: i)
  case (Cons a ords)
  show ?case
  proof (cases i)
    case 0
    then show ?thesis using Cons.prems by auto
  next
    case (Suc j)
    then show ?thesis using Cons.IH [of j] Cons.prems by (auto split: if_splits)
  qed
qed simp

lemma sched_fill_ok_evolves: "order_evolves a b \<Longrightarrow> sched_fill_ok b f \<longleftrightarrow> sched_fill_ok a f"
  by (simp add: sched_fill_ok_def order_evolves_fields)

lemma sched_order_ok_later:
  "sched_order_ok now s ord \<Longrightarrow> now \<le> t \<Longrightarrow> ds_configs s' = ds_configs s \<Longrightarrow> sched_order_ok t s' ord"
  by (auto simp: sched_order_ok_def)

text \<open>Replacing one order by a later version of itself, with the fills that explain it.\<close>

lemma sched_inv_update:
  assumes inv: "sched_inv now s" and i: "i < length (ds_orders s)" and "now \<le> t"
    and evolves: "order_evolves (ds_orders s ! i) ord" and ok: "sched_order_ok t s ord"
    and fills: "\<forall>f \<in> set fs. sched_fill_ok ord f"
    and total: "sd_filled_value ord = sd_filled_value (ds_orders s ! i) + (\<Sum>f \<leftarrow> fs. q_value (fr_quantity f))"
    and books: "\<And>instrument b. bm_get books instrument = Some b \<Longrightarrow> book_state_ok b"
  shows "sched_inv t (s\<lparr>ds_orders := (ds_orders s)[i := ord], ds_fills := ds_fills s @ fs, ds_books := books,
      ds_execution_fills := ex\<rparr>)"
proof -
  let ?ords = "(ds_orders s)[i := ord]"
  have evolve: "order_evolves (ds_orders s ! j) (?ords ! j)" if "j < length (ds_orders s)" for j
    using orders_evolve_update [OF evolves] that by (simp add: orders_evolve_def)
  have later: "\<exists>b \<in> set ?ords. order_evolves a b" if "a \<in> set (ds_orders s)" for a
    using that evolve by (metis in_set_conv_nth length_list_update)
  have all_ok: "sched_order_ok t s a" if "a \<in> set ?ords" for a
  proof -
    have "a = ord \<or> a \<in> set (ds_orders s)" using that set_update_subset_insert [of "ds_orders s" i ord] by blast
    then show ?thesis using ok inv sched_order_ok_later [OF _ \<open>now \<le> t\<close> refl] by (auto simp: sched_inv_def)
  qed
  have mem: "ord \<in> set ?ords" using i by (rule set_update_memI)
  have same: "sd_id ord = sd_id (ds_orders s ! i)" using order_evolves_fields(1) [OF evolves] .
  have ids: "fill_total oid fs = (if sd_id ord = oid then \<Sum>f \<leftarrow> fs. q_value (fr_quantity f) else 0)" for oid
    using fills by (induction fs) (auto simp: sched_fill_ok_def)
  have "fill_total oid (ds_fills s @ fs) = sched_total oid ?ords" for oid
    using inv sched_total_update [OF i same, of oid] total ids [of oid] by (auto simp: sched_inv_def split: if_splits)
  moreover have "\<exists>a \<in> set ?ords. sched_fill_ok a f" if "f \<in> set (ds_fills s @ fs)" for f
    using that inv later sched_fill_ok_evolves fills mem by (auto simp: sched_inv_def) metis+
  moreover have "\<exists>a \<in> set ?ords. sd_id a = oid" if "bm_get (ds_client_orders s) client = Some oid" for client oid
    using that inv later order_evolves_fields(1) by (auto simp: sched_inv_def) metis
  moreover have "sched_order_ok t (s\<lparr>ds_orders := ?ords, ds_fills := ds_fills s @ fs, ds_books := books, ds_execution_fills := ex\<rparr>) a"
    if "a \<in> set ?ords" for a using sched_order_ok_later [OF all_ok [OF that] order_refl] by simp
  ultimately show ?thesis using books unfolding sched_inv_def by simp
qed

lemma sched_inv_later: "sched_inv now s \<Longrightarrow> now \<le> t \<Longrightarrow> sched_inv t s"
  using sched_order_ok_later by (auto simp: sched_inv_def)

end
