(* ===== verification/ScheduledSound.thy ===== *)
theory ScheduledSound
  imports Scheduled
begin

text \<open>
  Soundness of scheduled execution: every operation of \<open>ScheduledExecutionSimulator\<close> keeps the invariant of
  the theory Scheduled, moves orders only along the state machine, and never reaches one of its \<open>expect\<close>
  calls. The step relation at the end composes the operations under one clock.
\<close>

section \<open>Every operation is sound\<close>

fun err_of :: "('a, 'e) result \<Rightarrow> 'e option" where
  "err_of (Ok x) = None"
| "err_of (Err err) = Some err"

definition step_ok :: "int \<Rightarrow> scheduled_simulator \<Rightarrow> ('a, scheduled_error) result \<times> scheduled_simulator \<Rightarrow> bool" where
  "step_ok t s out \<longleftrightarrow>
     sched_inv t (snd out) \<and> orders_evolve (ds_orders s) (ds_orders (snd out)) \<and>
     ds_configs (snd out) = ds_configs s \<and> err_of (fst out) \<noteq> Some Panicked"

lemma step_ok_same: "sched_inv now s \<Longrightarrow> now \<le> t \<Longrightarrow> err_of r \<noteq> Some Panicked \<Longrightarrow> step_ok t s (r, s)"
  by (simp add: step_ok_def sched_inv_later)

lemma step_ok_result: "step_ok t s (r, s') \<Longrightarrow> err_of r' \<noteq> Some Panicked \<Longrightarrow> step_ok t s (r', s')"
  by (simp add: step_ok_def)

lemma order_at:
  assumes "sched_inv now s" "i < length (ds_orders s)"
  shows "sched_order_ok now s (ds_orders s ! i)"
  using assms by (simp add: sched_inv_def)

lemma position_Some:
  "position P xs = Some i \<Longrightarrow> i < length xs \<and> P (xs ! i)"
  by (induction xs arbitrary: i) (auto split: if_splits)

lemma position_None: "position P xs = None \<Longrightarrow> x \<in> set xs \<Longrightarrow> \<not> P x"
  by (induction xs) (auto split: if_splits)

lemma order_index_Ok: "order_index s oid = Ok i \<Longrightarrow> i < length (ds_orders s) \<and> sd_id (ds_orders s ! i) = oid"
  by (auto simp: order_index_def dest: position_Some)

lemma order_index_Err: "order_index s oid = Err err \<Longrightarrow> err \<noteq> Panicked"
  by (cases "position (\<lambda>ord. sd_id ord = oid) (ds_orders s)") (auto simp: order_index_def)

lemma set_status_ok:
  assumes inv: "sched_inv now s" and i: "i < length (ds_orders s)" and "now \<le> t"
    and step: "status_step (sd_status (ds_orders s ! i)) status"
    and ok: "filled_ok ((ds_orders s ! i)\<lparr>sd_status := status\<rparr>)"
    and active: "status \<in> {SActive, SPartiallyFilled, SMatchAttempted} \<Longrightarrow> sr_activate_at (sd_request (ds_orders s ! i)) \<le> t"
  shows "sched_inv t (set_status i status s)" and "orders_evolve (ds_orders s) (ds_orders (set_status i status s))"
proof -
  let ?ord = "(ds_orders s ! i)\<lparr>sd_status := status\<rparr>"
  have "\<not> terminal (sd_status (ds_orders s ! i))" using step by (cases "sd_status (ds_orders s ! i)") (auto simp: terminal_def)
  then have evolves: "order_evolves (ds_orders s ! i) ?ord" using step by (simp add: order_evolves_def)
  then show "orders_evolve (ds_orders s) (ds_orders (set_status i status s))"
    by (simp add: set_status_def orders_evolve_update)
  have "sched_order_ok t s ?ord" using order_at [OF inv i] ok active by (simp add: sched_order_ok_def)
  then have "sched_inv t (s\<lparr>ds_orders := (ds_orders s)[i := ?ord], ds_fills := ds_fills s @ [], ds_books := ds_books s,
      ds_execution_fills := ds_execution_fills s\<rparr>)"
    using inv by (intro sched_inv_update [OF inv i \<open>now \<le> t\<close> evolves]) (auto simp: sched_inv_def)
  moreover have "s\<lparr>ds_orders := (ds_orders s)[i := ?ord], ds_fills := ds_fills s @ [], ds_books := ds_books s,
      ds_execution_fills := ds_execution_fills s\<rparr> = set_status i status s"
    by (simp add: set_status_def)
  ultimately show "sched_inv t (set_status i status s)" by simp
qed

lemma set_status_configs [simp]: "ds_configs (set_status i status s) = ds_configs s"
  by (simp add: set_status_def)

text \<open>A waiting order may fail, expire or be replaced.\<close>

lemma filled_ok_waiting:
  assumes "filled_ok ord" "sd_status ord = SScheduled" "wf_quantity (order_quantity ord)" "status \<notin> {SPartiallyFilled, SFilled}"
  shows "filled_ok (ord\<lparr>sd_status := status\<rparr>)"
  using assms by (auto simp: filled_ok_def wf_quantity_def)

lemma fail_activation_ok:
  assumes inv: "sched_inv now s" and i: "i < length (ds_orders s)" "sd_status (ds_orders s ! i) = SScheduled" and "now \<le> t"
  shows "step_ok t s (fail_activation s i reason fills)"
proof -
  have ok: "sched_order_ok now s (ds_orders s ! i)" by (rule order_at [OF inv i(1)])
  then have "filled_ok ((ds_orders s ! i)\<lparr>sd_status := SFailed reason\<rparr>)"
    using i(2) by (intro filled_ok_waiting) (auto simp: sched_order_ok_def)
  then have "sched_inv t (set_status i (SFailed reason) s)" "orders_evolve (ds_orders s) (ds_orders (set_status i (SFailed reason) s))"
    using set_status_ok [OF inv i(1) \<open>now \<le> t\<close>, of "SFailed reason"] i(2) by auto
  moreover have "sd_filled_value (ds_orders s ! i) = 0" "0 < q_value (order_quantity (ds_orders s ! i))"
    using ok i(2) by (auto simp: sched_order_ok_def filled_ok_def wf_quantity_def)
  ultimately show ?thesis by (simp add: step_ok_def fail_activation_def Let_def quantity_new_def)
qed

lemma publish_trading_state_ok:
  assumes inv: "sched_inv now s" and "now \<le> t"
  shows "step_ok t s (publish_visible_trading_state s ev)"
proof -
  have "sched_inv t (s\<lparr>ds_trading_states := x\<rparr>)" for x
    using sched_inv_later [OF assms] by (simp add: sched_inv_def sched_order_ok_def)
  then show ?thesis
    using sched_inv_later [OF assms] by (auto simp: publish_visible_trading_state_def step_ok_def)
qed

lemma book_state_fresh:
  assumes "book_fits (be_book ev)"
  shows "book_state_ok \<lparr>vb_evidence = ev, vb_consumed_bids = replicate BOOK_DEPTH 0, vb_consumed_asks = replicate BOOK_DEPTH 0\<rparr>"
proof -
  let ?b = "\<lparr>vb_evidence = ev, vb_consumed_bids = replicate BOOK_DEPTH 0, vb_consumed_asks = replicate BOOK_DEPTH 0\<rparr>"
  have none: "consumed_of side ?b = replicate BOOK_DEPTH 0" for side
    by (simp add: consumed_of_def split: order_side.split)
  have "replicate BOOK_DEPTH 0 ! n = (0::nat)" if "n < length (opposite_levels (be_book ev) side)" for n side
    using that assms by (auto simp: book_fits_def dest: spec [of _ side])
  then show ?thesis using assms by (simp add: book_state_ok_def none)
qed

lemma publish_visible_book_ok:
  assumes inv: "sched_inv now s" and "now \<le> t" and fits: "book_fits (be_book ev)"
  shows "step_ok t s (publish_visible_book s ev)"
proof -
  obtain r s' where p: "publish_visible_trading_state s \<lparr>te_instrument = be_instrument ev, te_match_time = be_match_time ev,
      te_visible_at = be_visible_at ev, te_matching = be_matching ev, te_new_order_entry = be_new_order_entry ev\<rparr> = (r, s')"
    by (rule prod.exhaust)
  have s': "step_ok t s (r, s')" using publish_trading_state_ok [OF assms(1,2)] p by metis
  then have "sched_inv t s'" by (simp add: step_ok_def)
  then have "sched_inv t (s'\<lparr>ds_books := bm_insert (be_instrument ev) \<lparr>vb_evidence = ev,
      vb_consumed_bids = replicate BOOK_DEPTH 0, vb_consumed_asks = replicate BOOK_DEPTH 0\<rparr> (ds_books s')\<rparr>)"
    using book_state_fresh [OF fits] by (auto simp: sched_inv_def sched_order_ok_def split: if_splits)
  then have new: "step_ok t s (Ok (), s'\<lparr>ds_books := bm_insert (be_instrument ev) \<lparr>vb_evidence = ev,
      vb_consumed_bids = replicate BOOK_DEPTH 0, vb_consumed_asks = replicate BOOK_DEPTH 0\<rparr> (ds_books s')\<rparr>)"
    using s' by (simp add: step_ok_def)
  note same = step_ok_same [OF assms(1,2)]
  show ?thesis
  proof (cases r)
    case (Ok u)
    then show ?thesis unfolding publish_visible_book_def p using new by (simp add: same split: option.split)
  next
    case (Err err)
    then show ?thesis unfolding publish_visible_book_def p using s' by (simp add: same split: option.split)
  qed
qed

lemma replace_previous_ok:
  assumes inv: "sched_inv now s"
  shows "step_ok now s (replace_previous s client)"
proof (cases "bm_get (ds_client_orders s) client")
  case None
  then show ?thesis by (simp add: step_ok_same [OF inv order_refl] replace_previous_def)
next
  case (Some oid)
  then obtain ord where ord: "ord \<in> set (ds_orders s)" "sd_id ord = oid" using inv unfolding sched_inv_def by metis
  obtain i where i: "position (\<lambda>ord. sd_id ord = oid) (ds_orders s) = Some i"
    using position_None [OF _ ord(1), of "\<lambda>ord. sd_id ord = oid"] ord(2)
    by (cases "position (\<lambda>ord. sd_id ord = oid) (ds_orders s)") auto
  then have len: "i < length (ds_orders s)" using position_Some [OF i] by simp
  show ?thesis
  proof (cases "sd_status (ds_orders s ! i) = SScheduled")
    case True
    have "filled_ok ((ds_orders s ! i)\<lparr>sd_status := SReplaced\<rparr>)"
      using True order_at [OF inv len] by (intro filled_ok_waiting) (auto simp: sched_order_ok_def)
    then have "sched_inv now (set_status i SReplaced s)" "orders_evolve (ds_orders s) (ds_orders (set_status i SReplaced s))"
      using set_status_ok [OF inv len order_refl, of SReplaced] True by auto
    then show ?thesis using Some i True by (simp add: replace_previous_def step_ok_def)
  next
    case False
    then show ?thesis using Some i by (simp add: step_ok_same [OF inv order_refl] replace_previous_def)
  qed
qed

lemma sched_inv_append:
  assumes inv: "sched_inv now s" and "wf_quantity (oi_quantity (sr_intent request))"
    and config: "bm_get (ds_configs s) (oi_instrument (sr_intent request)) =
      Some (q_unit (oi_quantity (sr_intent request)), model, policy)"
  shows "sched_inv now (s\<lparr>ds_next_acceptance_sequence := n, ds_client_orders := bm_insert client oid (ds_client_orders s),
    ds_orders := ds_orders s @ [\<lparr>sd_id = oid, sd_request = request, sd_acceptance_sequence = sequence,
      sd_filled_value = 0, sd_status = SScheduled\<rparr>]\<rparr>)"
  using assms by (auto simp: sched_inv_def sched_order_ok_def filled_ok_def wf_quantity_def)

lemma scheduled_submit_ok:
  assumes inv: "sched_inv now s" and wf: "wf_quantity (oi_quantity (sr_intent request))"
  shows "step_ok now s (scheduled_submit hash s strategy ctxt output_sequence request)"
proof -
  note same = step_ok_same [OF inv order_refl]
  obtain r s' where p: "replace_previous s (sr_client_order_id request) = (r, s')" by (rule prod.exhaust)
  have s': "step_ok now s (r, s')" using replace_previous_ok [OF inv] p by metis
  show ?thesis
  proof (cases "bm_get (ds_configs s) (oi_instrument (sr_intent request))")
    case None
    then show ?thesis unfolding scheduled_submit_def by (simp add: same Let_def)
  next
    case (Some c)
    obtain un model policy where c: "c = (un, model, policy)" by (rule prod_cases3)
    show ?thesis
    proof (cases "q_unit (oi_quantity (sr_intent request)) = un")
      case True
      have new: "step_ok now s (Ok sub, s'\<lparr>ds_next_acceptance_sequence := n,
          ds_client_orders := bm_insert client oid (ds_client_orders s'),
          ds_orders := ds_orders s' @ [\<lparr>sd_id = oid, sd_request = request, sd_acceptance_sequence = sequence,
            sd_filled_value = 0, sd_status = SScheduled\<rparr>]\<rparr>)" for sub n client oid sequence
        using s' sched_inv_append [OF _ wf, of now s'] Some c True by (simp add: step_ok_def orders_evolve_append)
      have "err_of r \<noteq> Some Panicked" using s' by (simp add: step_ok_def)
      then show ?thesis using Some c True
        unfolding scheduled_submit_def p
        by (cases r) (simp_all add: same new step_ok_result [OF s'] Let_def split: result.split option.split)
    next
      case False
      then show ?thesis using Some c unfolding scheduled_submit_def by (simp add: same Let_def)
    qed
  qed
qed

lemma cancel_before_activation_ok:
  assumes inv: "sched_inv now s"
  shows "step_ok now s (cancel_before_activation s client)"
proof -
  note same = step_ok_same [OF inv order_refl]
  have cancelled: "step_ok now s (Ok fb, set_status i SCancelled s)"
    if i: "order_index s oid = Ok i" and waiting: "sd_status (ds_orders s ! i) = SScheduled" for fb i oid
  proof -
    have len: "i < length (ds_orders s)" using order_index_Ok [OF i] by simp
    have "filled_ok ((ds_orders s ! i)\<lparr>sd_status := SCancelled\<rparr>)"
      using waiting order_at [OF inv len] by (intro filled_ok_waiting) (auto simp: sched_order_ok_def)
    then show ?thesis using set_status_ok [OF inv len order_refl, of SCancelled] waiting by (simp add: step_ok_def)
  qed
  show ?thesis
    by (simp add: cancelled order_index_Err cancel_before_activation_def same split: option.split result.split)
qed

lemma scheduled_expire_ok:
  assumes inv: "sched_inv now s" and "now \<le> t"
  shows "step_ok t s (scheduled_expire s oid t)"
proof -
  note same = step_ok_same [OF inv \<open>now \<le> t\<close>]
  have expired: "step_ok t s (Ok fb, set_status i SExpired s)"
    if i: "order_index s oid = Ok i" and live: "\<not> terminal (sd_status (ds_orders s ! i))" for fb i
  proof -
    have len: "i < length (ds_orders s)" using order_index_Ok [OF i] by simp
    have "filled_ok ((ds_orders s ! i)\<lparr>sd_status := SExpired\<rparr>)"
      using live order_at [OF inv len] by (auto simp: sched_order_ok_def filled_ok_def terminal_def)
    moreover have "status_step (sd_status (ds_orders s ! i)) SExpired"
      using live by (cases "sd_status (ds_orders s ! i)") (simp_all add: terminal_def)
    ultimately show ?thesis using set_status_ok [OF inv len \<open>now \<le> t\<close>, of SExpired] by (simp add: step_ok_def)
  qed
  show ?thesis
    using order_index_Err [of s oid]
    by (auto simp: scheduled_expire_def terminal_def intro!: same expired split: result.split)
qed

text \<open>The order that an execution leaves behind, with the fills that explain it.\<close>

definition executed :: "nat \<Rightarrow> scheduled_order_status \<Rightarrow> nat \<Rightarrow> scheduled_order list \<Rightarrow> scheduled_order list" where
  "executed i status filled ords = ords[i := (ords ! i)\<lparr>sd_filled_value := filled, sd_status := status\<rparr>]"

lemma executed_ok:
  assumes inv: "sched_inv now s" and i: "i < length (ds_orders s)" and "now \<le> t"
    and step: "sd_status (ds_orders s ! i) \<in> {SScheduled, SActive}" "status_step (sd_status (ds_orders s ! i)) status"
    and filled: "filled_ok ((ds_orders s ! i)\<lparr>sd_filled_value := \<Sum>f \<leftarrow> fs. q_value (fr_quantity f), sd_status := status\<rparr>)"
    and active: "sr_activate_at (sd_request (ds_orders s ! i)) \<le> t"
    and fills: "\<forall>f \<in> set fs. sched_fill_ok (ds_orders s ! i) f"
    and books: "\<And>instrument b. bm_get books instrument = Some b \<Longrightarrow> book_state_ok b"
    and r: "err_of r \<noteq> Some Panicked"
  shows "step_ok t s (r, s\<lparr>ds_orders := executed i status (\<Sum>f \<leftarrow> fs. q_value (fr_quantity f)) (ds_orders s),
    ds_fills := ds_fills s @ fs, ds_books := books, ds_execution_fills := ex\<rparr>)"
proof -
  let ?ord = "(ds_orders s ! i)\<lparr>sd_filled_value := \<Sum>f \<leftarrow> fs. q_value (fr_quantity f), sd_status := status\<rparr>"
  have ok: "sched_order_ok now s (ds_orders s ! i)" by (rule order_at [OF inv i])
  then have zero: "sd_filled_value (ds_orders s ! i) = 0" using step(1) by (auto simp: sched_order_ok_def filled_ok_def)
  have evolves: "order_evolves (ds_orders s ! i) ?ord"
    using step zero by (auto simp: order_evolves_def terminal_def)
  have "sched_order_ok t s ?ord" using ok filled active by (simp add: sched_order_ok_def)
  then have "sched_inv t (s\<lparr>ds_orders := (ds_orders s)[i := ?ord], ds_fills := ds_fills s @ fs, ds_books := books,
      ds_execution_fills := ex\<rparr>)"
    using fills zero books
    by (intro sched_inv_update [OF inv i \<open>now \<le> t\<close> evolves]) (simp_all add: sched_fill_ok_evolves [OF evolves])
  then show ?thesis using orders_evolve_update [OF evolves] r by (simp add: step_ok_def executed_def)
qed

text \<open>A sweep for an order that has no fill yet either refuses and changes nothing, or records its fills.\<close>

lemma sweep_record:
  assumes b: "book_state_ok b" and wf: "wf_quantity (order_quantity ord)" and active: "sr_activate_at (sd_request ord) \<le> t"
    and sw: "sweep_marketable_depth_with_consumed (be_book (vb_evidence b)) (order_side_of ord) (order_quantity ord) n
      (oi_order_type (sr_intent (sd_request ord))) delta (consumed_of (order_side_of ord) b) = Ok sw"
  obtains c' feedbacks where
    "record_fills hash ord control_sequence t (consumed_of (order_side_of ord) b) 0 (sw_fills sw) =
       (c', sw_filled_value sw, map (\<lambda>f. fill_from_control (sd_id ord) control_sequence t (order_side_of ord) (lf_price f)
          (lf_quantity f)) (sw_fills sw), feedbacks, Ok ())"
    "book_state_ok (with_consumed_of (order_side_of ord) c' b)"
proof -
  let ?c = "consumed_of (order_side_of ord) b" and ?ls = "opposite_levels (be_book (vb_evidence b)) (order_side_of ord)"
  have depth: "length ?ls \<le> BOOK_DEPTH" and len: "length ?c = BOOK_DEPTH"
    and below: "\<forall>i < length ?ls. ?c ! i \<le> q_value (bl_quantity (?ls ! i))"
    using b by (simp_all add: book_state_ok_def book_fits_def)
  note fills = sweep_fills_bounded [OF sw depth]
  have fits: "in_u64 (?c ! (lf_level_index f - 1) + q_value (lf_quantity f))" if f: "f \<in> set (sw_fills sw)" for f
  proof -
    let ?i = "lf_level_index f - 1"
    have i: "Suc ?i = lf_level_index f" "?i < length ?ls" using fills(2) [OF f] by auto
    have "q_value (lf_quantity f) \<le> (\<Sum>g \<leftarrow> filter (\<lambda>g. lf_level_index g = Suc ?i) (sw_fills sw). q_value (lf_quantity g))"
      by (rule member_le_sum_list) (use f i(1) in \<open>force+\<close>)
    also have "\<dots> \<le> q_value (bl_quantity (?ls ! ?i)) - ?c ! ?i" by (rule fills(3) [OF i(2)])
    finally have "?c ! ?i + q_value (lf_quantity f) \<le> q_value (bl_quantity (?ls ! ?i))"
      using below i(2) fills(2) [OF f] by auto
    moreover have "in_u64 (q_value (bl_quantity (?ls ! ?i)))" using b nth_mem [OF i(2)] by (simp add: book_state_ok_def book_fits_def)
    ultimately show ?thesis by (simp add: in_u64_def)
  qed
  have "in_u64 (0 + (\<Sum>f \<leftarrow> sw_fills sw. q_value (lf_quantity f)))"
    using fills(4,6) wf by (auto simp: wf_quantity_def in_u64_def)
  moreover have "0 + (\<Sum>f \<leftarrow> sw_fills sw. q_value (lf_quantity f)) \<le> q_value (order_quantity ord)" using fills(4,6) by simp
  moreover have "\<forall>f \<in> set (sw_fills sw). 1 \<le> lf_level_index f \<and> lf_level_index f \<le> 5 \<and> lf_level_index f \<le> length ?c \<and>
      0 < q_value (lf_quantity f) \<and> q_unit (lf_quantity f) = q_unit (order_quantity ord) \<and>
      in_u64 (?c ! (lf_level_index f - 1) + q_value (lf_quantity f))"
    using fills(2) fits len by (simp add: BOOK_DEPTH_def)
  ultimately obtain c' feedbacks where r: "record_fills hash ord control_sequence t ?c 0 (sw_fills sw) =
      (c', 0 + (\<Sum>f \<leftarrow> sw_fills sw. q_value (lf_quantity f)),
       map (\<lambda>f. fill_from_control (sd_id ord) control_sequence t (order_side_of ord) (lf_price f) (lf_quantity f)) (sw_fills sw),
       feedbacks, Ok ())" "rfold consume_level ?c (sw_fills sw) = Ok c'"
    using record_fills_spec [OF fills(1) _ _ _ active] by blast
  have "book_state_ok (with_consumed_of (order_side_of ord) c' b)"
    using b sweep_consumption [OF sw depth len below r(2)]
    by (auto simp: book_state_ok_def with_consumed_of_def consumed_of_def split: order_side.splits)
  then show ?thesis using that r(1) fills(4) by simp
qed

abbreviation filled_by :: "fill_record list \<Rightarrow> nat" where
  "filled_by fs \<equiv> \<Sum>f \<leftarrow> fs. q_value (fr_quantity f)"

text \<open>What a sweep that succeeds leaves: the new fills, the consumed book and the order's filled quantity.\<close>

definition swept ::
  "scheduled_simulator \<Rightarrow> nat \<Rightarrow> fill_record list \<Rightarrow> execution_fill_feedback list \<Rightarrow> visible_book_state \<Rightarrow> scheduled_simulator" where
  "swept s i fs feedbacks b =
     s\<lparr>ds_orders := (ds_orders s)[i := (ds_orders s ! i)\<lparr>sd_filled_value := filled_by fs\<rparr>],
       ds_books := bm_insert (order_instrument (ds_orders s ! i)) b (ds_books s),
       ds_fills := ds_fills s @ fs, ds_execution_fills := ds_execution_fills s @ feedbacks\<rparr>"

lemma execute_sweep_cases:
  assumes inv: "sched_inv now s" and i: "i < length (ds_orders s)"
    and b: "bm_get (ds_books s) (order_instrument (ds_orders s ! i)) = Some b"
    and active: "sr_activate_at (sd_request (ds_orders s ! i)) \<le> t"
  shows "(\<exists>err. err \<noteq> Panicked \<and>
       execute_sweep hash s i b model policy n t (order_quantity (ds_orders s ! i)) 0 = (Err err, s)) \<or>
    (\<exists>sw fs feedbacks b'.
       execute_sweep hash s i b model policy n t (order_quantity (ds_orders s ! i)) 0 =
         (Ok (sw, filled_by fs, feedbacks), swept s i fs feedbacks b') \<and>
       book_state_ok b' \<and> (\<forall>f \<in> set fs. sched_fill_ok (ds_orders s ! i) f) \<and>
       filled_by fs \<le> q_value (order_quantity (ds_orders s ! i)) \<and>
       (sweep_is_complete sw \<longleftrightarrow> filled_by fs = q_value (order_quantity (ds_orders s ! i))))"
    (is "?refused \<or> ?swept")
proof -
  let ?ord = "ds_orders s ! i"
  have ok: "book_state_ok b" using inv b by (cases "order_instrument ?ord") (auto simp: sched_inv_def)
  have wf: "wf_quantity (order_quantity ?ord)" using order_at [OF inv i] by (simp add: sched_order_ok_def)
  show ?thesis
  proof (cases "sweep_marketable_depth_with_consumed (be_book (vb_evidence b)) (order_side_of ?ord) (order_quantity ?ord)
      (dm_depth_levels model) (oi_order_type (sr_intent (sd_request ?ord))) (dm_adverse_price_delta model)
      (consumed_of (order_side_of ?ord) b)")
    case (Err err)
    then have "execute_sweep hash s i b model policy n t (order_quantity ?ord) 0 = (Err (SDepthSweep err), s)"
      by (simp add: execute_sweep_def Let_def)
    then show ?thesis by (intro disjI1) auto
  next
    case (Ok sw)
    obtain c' feedbacks where rec:
      "record_fills hash ?ord n t (consumed_of (order_side_of ?ord) b) 0 (sw_fills sw) =
         (c', sw_filled_value sw, map (\<lambda>f. fill_from_control (sd_id ?ord) n t (order_side_of ?ord) (lf_price f)
            (lf_quantity f)) (sw_fills sw), feedbacks, Ok ())"
      "book_state_ok (with_consumed_of (order_side_of ?ord) c' b)"
      by (rule sweep_record [OF ok wf active Ok])
    let ?fs = "map (\<lambda>f. fill_from_control (sd_id ?ord) n t (order_side_of ?ord) (lf_price f) (lf_quantity f)) (sw_fills sw)"
    have depth: "length (opposite_levels (be_book (vb_evidence b)) (order_side_of ?ord)) \<le> BOOK_DEPTH"
      using ok by (simp add: book_state_ok_def book_fits_def)
    note fills = sweep_fills_bounded [OF Ok depth]
    have filled: "filled_by ?fs = sw_filled_value sw"
      using fills(4) by (simp add: fill_from_control_def comp_def)
    have fills_ok: "\<forall>f \<in> set ?fs. sched_fill_ok ?ord f"
      using fills(2) sweep_fills_marketable [OF Ok] active by (auto simp: sched_fill_ok_def fill_from_control_def)
    have complete: "sweep_is_complete sw \<longleftrightarrow> filled_by ?fs = q_value (order_quantity ?ord)"
      using filled fills(5) by (simp add: sweep_is_complete_def)
    show ?thesis
    proof (cases "list_all (\<lambda>f. policy_accepts policy (lf_price f)) (sw_fills sw)")
      case True
      then have run: "execute_sweep hash s i b model policy n t (order_quantity ?ord) 0 =
          (Ok (sw, filled_by ?fs, feedbacks), swept s i ?fs feedbacks (with_consumed_of (order_side_of ?ord) c' b))"
        using Ok rec(1) filled by (simp add: execute_sweep_def Let_def swept_def set_filled_def)
      have le: "filled_by ?fs \<le> q_value (order_quantity ?ord)" using fills(6) filled by simp
      show ?thesis by (intro disjI2 exI conjI, rule run, rule rec(2), rule fills_ok, rule le, rule complete)
    next
      case False
      then have "execute_sweep hash s i b model policy n t (order_quantity ?ord) 0 = (Err SPriceNotAllowedByInstrumentProfile, s)"
        using Ok by (simp add: execute_sweep_def Let_def)
      then show ?thesis by (intro disjI1) auto
    qed
  qed
qed

lemma swept_ok:
  assumes inv: "sched_inv now s" and i: "i < length (ds_orders s)" and "now \<le> t"
    and step: "sd_status (ds_orders s ! i) \<in> {SScheduled, SActive}" "status_step (sd_status (ds_orders s ! i)) status"
    and filled: "filled_ok ((ds_orders s ! i)\<lparr>sd_filled_value := filled_by fs, sd_status := status\<rparr>)"
    and active: "sr_activate_at (sd_request (ds_orders s ! i)) \<le> t"
    and fills: "\<forall>f \<in> set fs. sched_fill_ok (ds_orders s ! i) f"
    and b: "book_state_ok b" and r: "err_of r \<noteq> Some Panicked"
  shows "step_ok t s (r, set_status i status (swept s i fs feedbacks b))"
proof -
  have "book_state_ok b'" if "bm_get (bm_insert (order_instrument (ds_orders s ! i)) b (ds_books s)) instrument = Some b'"
    for instrument b'
    using that inv b by (cases instrument) (auto simp: sched_inv_def split: if_splits)
  then have "step_ok t s (r, s\<lparr>ds_orders := executed i status (filled_by fs) (ds_orders s), ds_fills := ds_fills s @ fs,
      ds_books := bm_insert (order_instrument (ds_orders s ! i)) b (ds_books s),
      ds_execution_fills := ds_execution_fills s @ feedbacks\<rparr>)"
    by (rule executed_ok [OF inv i \<open>now \<le> t\<close> step filled active fills _ r])
  moreover have "set_status i status (swept s i fs feedbacks b) = s\<lparr>ds_orders := executed i status (filled_by fs) (ds_orders s),
      ds_fills := ds_fills s @ fs, ds_books := bm_insert (order_instrument (ds_orders s ! i)) b (ds_books s),
      ds_execution_fills := ds_execution_fills s @ feedbacks\<rparr>"
    using i by (simp add: set_status_def swept_def executed_def)
  ultimately show ?thesis by simp
qed

text \<open>A fill of the whole order at once, as a settlement or an auction makes it.\<close>

lemma filled_at_once_ok:
  assumes inv: "sched_inv now s" and i: "i < length (ds_orders s)" and "now \<le> t"
    and status: "sd_status (ds_orders s ! i) \<in> {SScheduled, SActive}"
    and active: "sr_activate_at (sd_request (ds_orders s ! i)) \<le> t"
    and f: "sched_fill_ok (ds_orders s ! i) f" "fr_quantity f = order_quantity (ds_orders s ! i)"
  shows "step_ok t s (Ok a, set_status i SFilled (set_filled i (q_value (order_quantity (ds_orders s ! i)))
    (s\<lparr>ds_fills := ds_fills s @ [f], ds_execution_fills := ex\<rparr>)))"
proof -
  have "status_step (sd_status (ds_orders s ! i)) SFilled" using status by auto
  moreover have "filled_ok ((ds_orders s ! i)\<lparr>sd_filled_value := filled_by [f], sd_status := SFilled\<rparr>)"
    using f(2) by (simp add: filled_ok_def)
  moreover have "book_state_ok b" if "bm_get (ds_books s) instrument = Some b" for instrument b
    using that inv by (cases instrument) (auto simp: sched_inv_def)
  ultimately have "step_ok t s (Ok a, s\<lparr>ds_orders := executed i SFilled (filled_by [f]) (ds_orders s),
      ds_fills := ds_fills s @ [f], ds_books := ds_books s, ds_execution_fills := ex\<rparr>)"
    using f active status by (intro executed_ok [OF inv i \<open>now \<le> t\<close>]) auto
  moreover have "set_status i SFilled (set_filled i (q_value (order_quantity (ds_orders s ! i)))
      (s\<lparr>ds_fills := ds_fills s @ [f], ds_execution_fills := ex\<rparr>)) =
      s\<lparr>ds_orders := executed i SFilled (filled_by [f]) (ds_orders s), ds_fills := ds_fills s @ [f], ds_books := ds_books s,
        ds_execution_fills := ex\<rparr>"
    using i f(2) by (simp add: set_status_def set_filled_def executed_def)
  ultimately show ?thesis by simp
qed

lemma settle_at_activation_ok:
  assumes inv: "sched_inv now s" and i: "i < length (ds_orders s)" and "now \<le> t"
    and status: "sd_status (ds_orders s ! i) = SScheduled"
    and active: "sr_activate_at (sd_request (ds_orders s ! i)) = t"
  shows "step_ok t s (settle_at_activation hash s i n t)"
proof (cases "oi_order_type (sr_intent (sd_request (ds_orders s ! i)))")
  case Market
  then show ?thesis by (simp add: settle_at_activation_def Let_def step_ok_same [OF inv \<open>now \<le> t\<close>])
next
  case (Limit p)
  let ?ord = "ds_orders s ! i"
  let ?f = "fill_from_control (sd_id ?ord) n t (order_side_of ?ord) p (order_quantity ?ord)"
  have "0 < q_value (order_quantity ?ord)" using order_at [OF inv i] by (simp add: sched_order_ok_def wf_quantity_def)
  then have f: "sched_fill_ok ?ord ?f"
    using active Limit by (simp add: sched_fill_ok_def fill_from_control_def is_marketable_def split: order_side.split)
  then show ?thesis
    using filled_at_once_ok [OF inv i \<open>now \<le> t\<close> _ _ f] active status Limit
    by (simp add: settle_at_activation_def Let_def execution_fill_feedback_new_def fill_from_control_def)
qed

lemma visible_book_at_Some: "visible_book_at s instrument t = Some b \<Longrightarrow> bm_get (ds_books s) instrument = Some b"
  by (simp add: visible_book_at_def split: option.splits if_splits)

lemma book_is_fresh_Err: "book_is_fresh model b t = Err err \<Longrightarrow> err \<noteq> Panicked"
  by (auto simp: book_is_fresh_def rbind_eq_Err)

lemma fail_activation_swept:
  assumes "i < length (ds_orders s)" "filled_by fs < q_value (order_quantity (ds_orders s ! i))"
  obtains a where "fail_activation (swept s i fs feedbacks b) i reason feedbacks' =
    (Ok a, set_status i (SFailed reason) (swept s i fs feedbacks b))"
  using assms by (simp add: fail_activation_def swept_def Let_def quantity_new_def)

lemma activate_depth_ok:
  assumes inv: "sched_inv now s" and i: "i < length (ds_orders s)" and "now \<le> t"
    and status: "sd_status (ds_orders s ! i) = SScheduled"
    and active: "sr_activate_at (sd_request (ds_orders s ! i)) = t"
  shows "step_ok t s (activate_depth hash s i n t)"
proof -
  let ?ord = "ds_orders s ! i"
  note same = step_ok_same [OF inv \<open>now \<le> t\<close>] and fails = fail_activation_ok [OF inv i status \<open>now \<le> t\<close>]
  obtain un model policy where config: "bm_get (ds_configs s) (order_instrument ?ord) = Some (un, model, policy)"
    using order_at [OF inv i] by (auto simp: sched_order_ok_def)
  show ?thesis
  proof (cases "visible_book_at s (order_instrument ?ord) t")
    case None
    then show ?thesis using config by (simp add: activate_depth_def Let_def fails)
  next
    case (Some b)
    have done_ok: "step_ok t s (Ok a, set_status i st (swept s i fs feedbacks b'))"
      if "book_state_ok b'" "\<forall>f \<in> set fs. sched_fill_ok ?ord f" "filled_by fs \<le> q_value (order_quantity ?ord)"
        "if filled_by fs = q_value (order_quantity ?ord) then st = SFilled else \<exists>reason. st = SFailed reason"
      for a st fs feedbacks b'
      by (rule swept_ok [OF inv i \<open>now \<le> t\<close>]) (use that status active in \<open>auto simp: filled_ok_def split: if_splits\<close>)
    have "step_ok t s (case execute_sweep hash s i b model policy n t (order_quantity ?ord) 0 of
        (Err err, s') \<Rightarrow> (Err err, s')
      | (Ok (sweep, cumulative, feedbacks), s') \<Rightarrow>
          if sweep_is_complete sweep then (Ok (a feedbacks), set_status i SFilled s')
          else fail_activation s' i (reason cumulative) feedbacks)" for a reason
      using execute_sweep_cases [OF inv i visible_book_at_Some [OF Some] eq_refl [OF active], of hash model policy n]
    proof (elim disjE exE conjE)
      fix err
      assume "err \<noteq> Panicked" "execute_sweep hash s i b model policy n t (order_quantity ?ord) 0 = (Err err, s)"
      then show ?thesis by (simp add: same)
    next
      fix sw fs feedbacks b'
      assume run: "execute_sweep hash s i b model policy n t (order_quantity ?ord) 0 =
          (Ok (sw, filled_by fs, feedbacks), swept s i fs feedbacks b')"
        and ok: "book_state_ok b'" "\<forall>f \<in> set fs. sched_fill_ok ?ord f" "filled_by fs \<le> q_value (order_quantity ?ord)"
        and complete: "sweep_is_complete sw \<longleftrightarrow> filled_by fs = q_value (order_quantity ?ord)"
      show ?thesis
      proof (cases "sweep_is_complete sw")
        case True
        then show ?thesis using run complete by (simp add: done_ok [OF ok])
      next
        case False
        then obtain a where "fail_activation (swept s i fs feedbacks b') i (reason (filled_by fs)) feedbacks =
            (Ok a, set_status i (SFailed (reason (filled_by fs))) (swept s i fs feedbacks b'))"
          using fail_activation_swept [OF i] complete ok(3) by (metis le_neq_implies_less)
        then show ?thesis using run complete False by (simp add: done_ok [OF ok])
      qed
    qed
    then show ?thesis
      using config Some
      by (simp add: book_is_fresh_Err activate_depth_def Let_def fails same split: result.split)
  qed
qed

lemma scheduled_activate_ok:
  assumes inv: "sched_inv now s" and "now \<le> t"
  shows "step_ok t s (scheduled_activate hash s oid n t)"
proof (cases "order_index s oid")
  case (Err err)
  then show ?thesis using order_index_Err [OF Err] by (simp add: scheduled_activate_def step_ok_same [OF assms])
next
  case (Ok i)
  have i: "i < length (ds_orders s)" using order_index_Ok [OF Ok] by simp
  show ?thesis
  proof (cases "sd_status (ds_orders s ! i) = SScheduled \<and> sr_activate_at (sd_request (ds_orders s ! i)) = t")
    case True
    then have status: "sd_status (ds_orders s ! i) = SScheduled" and active: "sr_activate_at (sd_request (ds_orders s ! i)) = t"
      by simp_all
    have "filled_ok ((ds_orders s ! i)\<lparr>sd_status := SActive\<rparr>)"
      using order_at [OF inv i] status by (intro filled_ok_waiting) (auto simp: sched_order_ok_def)
    then have waits: "step_ok t s (Ok a, set_status i SActive s)" for a
      using set_status_ok [OF inv i \<open>now \<le> t\<close>, of SActive] status active by (simp add: step_ok_def)
    show ?thesis
      using Ok status active
      by (simp add: scheduled_activate_def Let_def step_ok_same [OF assms] waits
          fail_activation_ok [OF inv i status \<open>now \<le> t\<close>] settle_at_activation_ok [OF inv i \<open>now \<le> t\<close> status active]
          activate_depth_ok [OF inv i \<open>now \<le> t\<close> status active] split: scheduled_execution_policy.split)
  next
    case False
    then show ?thesis using Ok by (auto simp: scheduled_activate_def Let_def intro!: step_ok_same [OF assms])
  qed
qed

section \<open>Operations on several orders\<close>

definition others_kept :: "nat \<Rightarrow> scheduled_simulator \<Rightarrow> scheduled_simulator \<Rightarrow> bool" where
  "others_kept i s s' \<longleftrightarrow> (\<forall>j. j \<noteq> i \<longrightarrow> ds_orders s' ! j = ds_orders s ! j)"

lemma others_kept_simps [simp]:
  "others_kept i s s"
  "others_kept i s (set_status i status s') \<longleftrightarrow> others_kept i s s'"
  "others_kept i s (set_filled i filled s') \<longleftrightarrow> others_kept i s s'"
  "others_kept i s (swept s i fs feedbacks b)"
  "others_kept i s (s'\<lparr>ds_fills := fs\<rparr>) \<longleftrightarrow> others_kept i s s'"
  "others_kept i s (s'\<lparr>ds_execution_fills := ex\<rparr>) \<longleftrightarrow> others_kept i s s'"
  by (auto simp: others_kept_def set_status_def set_filled_def swept_def)

text \<open>
  The loops of \<open>evaluate_active\<close> and \<open>evaluate_auction_match\<close> handle the selected orders one by one and stop
  at the first error. A body that is sound for a selected order and leaves the other orders alone makes the
  loop sound.
\<close>

locale order_loop =
  fixes t :: int and selected :: "scheduled_order \<Rightarrow> bool"
    and one :: "scheduled_simulator \<Rightarrow> nat \<Rightarrow> ('a, scheduled_error) result \<times> scheduled_simulator"
    and all :: "scheduled_simulator \<Rightarrow> nat list \<Rightarrow> ('b list, scheduled_error) result \<times> scheduled_simulator"
    and add :: "'a \<Rightarrow> 'b list \<Rightarrow> 'b list"
  assumes one_ok: "sched_inv t s \<Longrightarrow> i < length (ds_orders s) \<Longrightarrow> selected (ds_orders s ! i) \<Longrightarrow>
      step_ok t s (one s i) \<and> others_kept i s (snd (one s i))"
    and all_Nil: "all s [] = (Ok [], s)"
    and all_Cons: "all s (i # is) = (case one s i of
        (Err err, s') \<Rightarrow> (Err err, s')
      | (Ok a, s') \<Rightarrow> (case all s' is of (r, s'') \<Rightarrow> (rbind r (\<lambda>results. Ok (add a results)), s'')))"
begin

lemma all_ok:
  assumes "sched_inv t s" "distinct is" "\<forall>i \<in> set is. i < length (ds_orders s) \<and> selected (ds_orders s ! i)"
  shows "step_ok t s (all s is)"
  using assms
proof (induction "is" arbitrary: s)
  case Nil
  then show ?case by (simp add: all_Nil step_ok_def)
next
  case (Cons i "is")
  obtain r s' where p: "one s i = (r, s')" by (rule prod.exhaust)
  have one: "step_ok t s (r, s')" "others_kept i s s'" using one_ok [of s i] Cons.prems p by auto
  have "length (ds_orders s) \<le> length (ds_orders s')" using one(1) by (simp add: step_ok_def orders_evolve_def)
  then have sel: "\<forall>j \<in> set is. j < length (ds_orders s') \<and> selected (ds_orders s' ! j)"
    using Cons.prems(2,3) one(2) by (auto simp: others_kept_def)
  obtain r' s'' where q: "all s' is = (r', s'')" by (rule prod.exhaust)
  have "step_ok t s' (r', s'')" using Cons.IH [of s'] one(1) Cons.prems(2) sel q by (simp add: step_ok_def)
  then have rest: "step_ok t s (rbind r' (\<lambda>results. Ok (h results)), s'')" for h :: "'b list \<Rightarrow> 'b list"
    using one(1) orders_evolve_trans by (cases r') (auto simp: step_ok_def)
  show ?case
  proof (cases r)
    case (Ok a)
    then show ?thesis using p q rest by (simp add: all_Cons)
  next
    case (Err err)
    then show ?thesis using one(1) p by (simp add: all_Cons step_ok_def)
  qed
qed

end

lemma selected_indices_ok:
  "distinct (selected_indices P s)"
  "\<forall>i \<in> set (selected_indices P s). i < length (ds_orders s) \<and> P (ds_orders s ! i)"
  by (simp_all add: selected_indices_def)

lemma execute_passive_order_ok:
  assumes inv: "sched_inv t s" and i: "i < length (ds_orders s)" and status: "sd_status (ds_orders s ! i) = SActive"
  shows "step_ok t s (execute_passive_order hash s i n t) \<and>
    others_kept i s (snd (execute_passive_order hash s i n t))" (is "?ok (execute_passive_order hash s i n t)")
proof -
  let ?ord = "ds_orders s ! i"
  note ok = order_at [OF inv i]
  obtain un model policy where config: "bm_get (ds_configs s) (order_instrument ?ord) = Some (un, model, policy)"
    using ok by (auto simp: sched_order_ok_def)
  have active: "sr_activate_at (sd_request ?ord) \<le> t" and zero: "sd_filled_value ?ord = 0"
    and whole: "quantity_new (q_value (order_quantity ?ord)) (q_unit (order_quantity ?ord)) = Ok (order_quantity ?ord)"
    using ok status by (auto simp: sched_order_ok_def filled_ok_def wf_quantity_def quantity_new_def)
  have same: "?ok (r, s)" if "err_of r \<noteq> Some Panicked" for r
    using step_ok_same [OF inv order_refl that] by simp
  show ?thesis
  proof (cases "visible_book_at s (order_instrument ?ord) t")
    case None
    then show ?thesis using config same by (simp add: execute_passive_order_def Let_def)
  next
    case (Some b)
    have stay: "?thesis" if "execute_passive_order hash s i n t = (r, s)" "err_of r \<noteq> Some Panicked" for r
      using same [OF that(2)] that(1) by simp
    from execute_sweep_cases [OF inv i visible_book_at_Some [OF Some] active, of hash model policy n]
    show ?thesis
    proof (elim disjE exE conjE)
      fix err
      assume "err \<noteq> Panicked" "execute_sweep hash s i b model policy n t (order_quantity ?ord) 0 = (Err err, s)"
      then show ?thesis
        using config Some zero whole same book_is_fresh_Err [of model b t]
        by (simp add: execute_passive_order_def Let_def split: result.split)
    next
      fix sw fs feedbacks b'
      assume run: "execute_sweep hash s i b model policy n t (order_quantity ?ord) 0 =
          (Ok (sw, filled_by fs, feedbacks), swept s i fs feedbacks b')"
        and b': "book_state_ok b'" "\<forall>f \<in> set fs. sched_fill_ok ?ord f" "filled_by fs \<le> q_value (order_quantity ?ord)"
      define k where "k = filled_by fs"
      note k = k_def [symmetric]
      have new: "?ok (Ok a, set_status i st (swept s i fs feedbacks b'))"
        if "filled_ok (?ord\<lparr>sd_filled_value := k, sd_status := st\<rparr>)" "status_step SActive st" for a st
        using b' status active that by (auto intro!: swept_ok [OF inv i order_refl] simp: k)
      show ?thesis
        using config Some zero whole same run [unfolded k] book_is_fresh_Err [of model b t] b'(3)
        by (auto simp: execute_passive_order_def Let_def quantity_new_def k filled_ok_def
            split: result.split intro!: new [THEN conjunct1])
    qed
  qed
qed

interpretation resting: order_loop t
  "\<lambda>ord. sd_status ord = SActive \<and> oi_instrument (sr_intent (sd_request ord)) = instrument \<and>
     sr_execution_policy (sd_request ord) = VisibleDepthUntilExpiryV1"
  "\<lambda>s i. execute_passive_order hash s i n t" "\<lambda>s is. execute_passive_orders hash s is n t"
  "\<lambda>a results. (case a of None \<Rightarrow> [] | Some r \<Rightarrow> [r]) @ results"
  for t instrument hash n
  by unfold_locales (simp_all add: execute_passive_order_ok)

lemma evaluate_active_ok:
  assumes inv: "sched_inv now s" and "now \<le> t"
  shows "step_ok t s (evaluate_active hash s instrument n t)"
  unfolding evaluate_active_def
  using selected_indices_ok by (rule resting.all_ok [OF sched_inv_later [OF assms]])

lemma match_in_auction_ok:
  assumes inv: "sched_inv t s" and i: "i < length (ds_orders s)" and status: "sd_status (ds_orders s ! i) = SActive"
    and active: "sr_activate_at (sd_request (ds_orders s ! i)) \<le> ae_match_time ev"
  shows "step_ok t s (match_in_auction hash ev s i) \<and> others_kept i s (snd (match_in_auction hash ev s i))"
proof -
  let ?ord = "ds_orders s ! i"
  note ok = order_at [OF inv i]
  let ?f = "fill_from_market_event (sd_id ?ord) (ae_run_event_ordinal ev) (ae_match_time ev) (order_side_of ?ord)
    (ae_clearing_price ev) (order_quantity ?ord)"
  have now: "sr_activate_at (sd_request ?ord) \<le> t" using ok status by (simp add: sched_order_ok_def)
  show ?thesis
  proof (cases "auction_crosses (ae_clearing_price ev) (sr_intent (sd_request ?ord))")
    case True
    then have "is_marketable (ae_clearing_price ev) (order_side_of ?ord) (oi_order_type (sr_intent (sd_request ?ord)))"
      by (auto simp: auction_crosses_def is_marketable_def split: order_type.splits order_side.splits)
    then have f: "sched_fill_ok ?ord ?f"
      using ok active by (simp add: sched_fill_ok_def sched_order_ok_def wf_quantity_def fill_from_market_event_def)
    show ?thesis
      using True status now active filled_at_once_ok [OF inv i order_refl _ now f]
      by (simp add: match_in_auction_def Let_def execution_fill_feedback_new_def fill_from_market_event_def)
  next
    case False
    have "filled_ok (?ord\<lparr>sd_status := SMatchAttempted\<rparr>)"
      using ok status by (auto simp: sched_order_ok_def filled_ok_def)
    then show ?thesis
      using set_status_ok [OF inv i order_refl, of SMatchAttempted] False status now
      by (simp add: match_in_auction_def Let_def step_ok_def)
  qed
qed

interpretation auction: order_loop t
  "\<lambda>ord. sd_status ord = SActive \<and> oi_instrument (sr_intent (sd_request ord)) = ae_instrument ev \<and>
     sr_execution_policy (sd_request ord) = AuctionCrossAtFirstMatchV1 \<and> sr_activate_at (sd_request ord) \<le> ae_match_time ev"
  "match_in_auction hash ev" "match_orders_in_auction hash ev" "(#)" for t ev hash
  by unfold_locales (simp_all add: match_in_auction_ok)

lemma evaluate_auction_match_ok:
  assumes "sched_inv now s"
  shows "step_ok now s (evaluate_auction_match hash s ev)"
  using auction.all_ok [OF assms selected_indices_ok, of hash]
  by (simp add: evaluate_auction_match_def step_ok_same [OF assms order_refl] split: option.split)

text \<open>A volatility interruption cancels the live market orders of the instrument.\<close>

lemma sched_total_map: "(\<And>ord. sd_id (g ord) = sd_id ord \<and> sd_filled_value (g ord) = sd_filled_value ord) \<Longrightarrow>
    sched_total oid (map g ords) = sched_total oid ords"
  by (induction ords) auto

lemma sched_inv_map:
  assumes inv: "sched_inv now s"
    and g: "\<And>ord. ord \<in> set (ds_orders s) \<Longrightarrow> sched_order_ok now s (g ord)"
    and same: "\<And>ord. g ord = ord\<lparr>sd_status := sd_status (g ord)\<rparr>"
  shows "sched_inv now (s\<lparr>ds_orders := map g (ds_orders s)\<rparr>)"
proof -
  have fields: "sd_id (g ord) = sd_id ord" "sd_filled_value (g ord) = sd_filled_value ord" "sd_request (g ord) = sd_request ord"
    for ord by (subst same, simp)+
  have "sched_fill_ok (g ord) f \<longleftrightarrow> sched_fill_ok ord f" for ord f by (simp add: sched_fill_ok_def fields)
  moreover have "sched_order_ok now (s\<lparr>ds_orders := map g (ds_orders s)\<rparr>) ord = sched_order_ok now s ord" for ord
    by (simp add: sched_order_ok_def)
  ultimately show ?thesis
    using inv g by (simp add: sched_inv_def sched_total_map fields)
qed

lemma cancel_for_volatility_interruption_ok:
  assumes inv: "sched_inv now s"
  shows "step_ok now s (cancel_for_volatility_interruption s instrument)"
proof -
  let ?sel = "\<lambda>ord. oi_instrument (sr_intent (sd_request ord)) = instrument \<and>
    oi_order_type (sr_intent (sd_request ord)) = Market \<and> sd_status ord \<in> {SActive, SPartiallyFilled, SMatchAttempted}"
  let ?g = "\<lambda>ord. if ?sel ord then ord\<lparr>sd_status := SCancelled\<rparr> else ord"
  have "sched_order_ok now s (?g ord)" if "sched_order_ok now s ord" for ord
    using that by (auto simp: sched_order_ok_def filled_ok_def)
  then have "sched_order_ok now s (?g ord)" if "ord \<in> set (ds_orders s)" for ord
    using inv that unfolding sched_inv_def by blast
  moreover have "?g ord = ord\<lparr>sd_status := sd_status (?g ord)\<rparr>" for ord
    by (rule scheduled_order.equality) simp_all
  ultimately have "sched_inv now (s\<lparr>ds_orders := map ?g (ds_orders s)\<rparr>)" by (rule sched_inv_map [OF inv])
  moreover have "order_evolves ord (?g ord)" for ord
    by (auto simp: order_evolves_def terminal_def)
  then have "orders_evolve (ds_orders s) (map ?g (ds_orders s))" by (simp add: orders_evolve_def)
  ultimately show ?thesis
    using inv by (simp add: cancel_for_volatility_interruption_def Let_def step_ok_same [OF inv order_refl] step_ok_def)
qed

section \<open>Runs of the simulator\<close>

text \<open>The calls of the simulator's interface; the timed ones carry the time the caller names.\<close>

datatype scheduled_call =
    PublishTradingState visible_trading_state
  | PublishBook visible_book_evidence
  | SubmitOrder string submission_context nat scheduled_order_request
  | CancelBeforeActivation client_order_id
  | ExpireOrder order_id int
  | ActivateOrder order_id nat int
  | EvaluateActive instrument_id nat int
  | CancelForVolatility instrument_id
  | AuctionMatch auction_match_evidence

fun outcome :: "('a, 'e) result \<times> 's \<Rightarrow> 'e option \<times> 's" where
  "outcome (r, s) = (err_of r, s)"

fun handle_call :: "(bytes \<Rightarrow> bytes) \<Rightarrow> scheduled_simulator \<Rightarrow> scheduled_call \<Rightarrow> scheduled_error option \<times> scheduled_simulator" where
  "handle_call hash s (PublishTradingState ev) = outcome (publish_visible_trading_state s ev)"
| "handle_call hash s (PublishBook ev) = outcome (publish_visible_book s ev)"
| "handle_call hash s (SubmitOrder strategy ctxt output_sequence request) =
     outcome (scheduled_submit hash s strategy ctxt output_sequence request)"
| "handle_call hash s (CancelBeforeActivation client) = outcome (cancel_before_activation s client)"
| "handle_call hash s (ExpireOrder oid t) = outcome (scheduled_expire s oid t)"
| "handle_call hash s (ActivateOrder oid n t) = outcome (scheduled_activate hash s oid n t)"
| "handle_call hash s (EvaluateActive instrument n t) = outcome (evaluate_active hash s instrument n t)"
| "handle_call hash s (CancelForVolatility instrument) = outcome (cancel_for_volatility_interruption s instrument)"
| "handle_call hash s (AuctionMatch ev) = outcome (evaluate_auction_match hash s ev)"

fun call_time :: "int \<Rightarrow> scheduled_call \<Rightarrow> int" where
  "call_time now (ExpireOrder oid t) = t"
| "call_time now (ActivateOrder oid n t) = t"
| "call_time now (EvaluateActive instrument n t) = t"
| "call_time now _ = now"

text \<open>What the types of the arguments guarantee: books of five levels and quantities that fit.\<close>

fun call_wf :: "scheduled_call \<Rightarrow> bool" where
  "call_wf (PublishBook ev) \<longleftrightarrow>
     (\<forall>ls \<in> {side_levels (cb_asks (be_book ev)), side_levels (cb_bids (be_book ev))}.
        length ls \<le> BOOK_DEPTH \<and> (\<forall>l \<in> set ls. in_u64 (q_value (bl_quantity l))))"
| "call_wf (SubmitOrder strategy ctxt output_sequence request) \<longleftrightarrow> wf_quantity (oi_quantity (sr_intent request))"
| "call_wf _ \<longleftrightarrow> True"

lemma book_fits_iff:
  "book_fits book \<longleftrightarrow> (\<forall>ls \<in> {side_levels (cb_asks book), side_levels (cb_bids book)}.
     length ls \<le> BOOK_DEPTH \<and> (\<forall>l \<in> set ls. in_u64 (q_value (bl_quantity l))))"
proof -
  have "(\<forall>side. P side) \<longleftrightarrow> P Buy \<and> P Sell" for P by (metis order_side.exhaust)
  then show ?thesis by (simp add: book_fits_def opposite_levels_def)
qed

inductive scheduled_run :: "(bytes \<Rightarrow> bytes) \<Rightarrow> int \<times> scheduled_simulator \<Rightarrow> int \<times> scheduled_simulator \<Rightarrow> bool"
  for hash :: "bytes \<Rightarrow> bytes" and start :: "int \<times> scheduled_simulator" where
  run_start: "scheduled_run hash start start"
| run_call: "scheduled_run hash start (now, s) \<Longrightarrow> now \<le> call_time now c \<Longrightarrow> call_wf c \<Longrightarrow>
    scheduled_run hash start (call_time now c, snd (handle_call hash s c))"

definition call_sound :: "int \<Rightarrow> scheduled_simulator \<Rightarrow> scheduled_error option \<times> scheduled_simulator \<Rightarrow> bool" where
  "call_sound t s out \<longleftrightarrow> sched_inv t (snd out) \<and> orders_evolve (ds_orders s) (ds_orders (snd out)) \<and> fst out \<noteq> Some Panicked"

lemma outcome_sound: "step_ok t s x \<Longrightarrow> call_sound t s (outcome x)"
  by (cases x) (simp add: step_ok_def call_sound_def)

lemma handle_call_ok:
  assumes inv: "sched_inv now s" and "now \<le> call_time now c" and "call_wf c"
  shows "call_sound (call_time now c) s (handle_call hash s c)"
  using assms
  by (cases c)
    (simp_all only: handle_call.simps call_time.simps call_wf.simps book_fits_iff [symmetric] outcome_sound
      publish_trading_state_ok [OF inv order_refl] publish_visible_book_ok [OF inv order_refl] scheduled_submit_ok [OF inv]
      cancel_before_activation_ok [OF inv] scheduled_expire_ok [OF inv] scheduled_activate_ok [OF inv]
      evaluate_active_ok [OF inv] cancel_for_volatility_interruption_ok [OF inv] evaluate_auction_match_ok [OF inv])

lemma sched_inv_new:
  assumes "scheduled_simulator_new configs = Ok s"
  shows "sched_inv now s"
  using assms by (auto simp: scheduled_simulator_new_def sched_inv_def bm_get_def split: if_splits)

lemma scheduled_run_sound:
  assumes "scheduled_run hash (t0, s0) c" "sched_inv t0 s0"
  shows "sched_inv (fst c) (snd c) \<and> orders_evolve (ds_orders s0) (ds_orders (snd c))"
  using assms
proof (induction rule: scheduled_run.induct)
  case (run_call now s c)
  then have "call_sound (call_time now c) s (handle_call hash s c)" by (intro handle_call_ok) simp_all
  then show ?case using run_call orders_evolve_trans by (auto simp: call_sound_def)
qed simp


text \<open>C24: In a run from a new simulator, orders are only appended, and each follows the state machine: its identity and
  request never change, its filled quantity never decreases, its status moves along the transitions, and once filled,
  failed, expired, replaced or cancelled it never changes again.\<close>

theorem scheduled_lifecycle:
  assumes "scheduled_simulator_new configs = Ok s0" and "scheduled_run hash (t0, s0) (t, s)"
    and "scheduled_run hash (t, s) (t', s')" and "i < length (ds_orders s)"
  shows "i < length (ds_orders s') \<and> order_evolves (ds_orders s ! i) (ds_orders s' ! i)"
proof -
  have "sched_inv t s" using scheduled_run_sound [OF assms(2) sched_inv_new [OF assms(1)]] by simp
  then have "orders_evolve (ds_orders s) (ds_orders s')" using scheduled_run_sound [OF assms(3)] by simp
  then show ?thesis using assms(4) by (auto simp: orders_evolve_def)
qed

text \<open>C25: No call of the simulator's interface reaches one of its panics in a reachable state: the \<open>expect\<close>s on
  the client map, the configured instrument, the remaining quantity of a failed order and the quantity of a
  passive fill; the unchecked subtractions on the quantities of an order; the indexing of consumed depth by
  the level of a fill.\<close>

theorem scheduled_never_panics:
  assumes "scheduled_simulator_new configs = Ok s0" and "scheduled_run hash (t0, s0) (t, s)"
    and "t \<le> call_time t c" and "call_wf c"
  shows "fst (handle_call hash s c) \<noteq> Some Panicked"
proof -
  have "sched_inv t s" using scheduled_run_sound [OF assms(2) sched_inv_new [OF assms(1)]] by simp
  then show ?thesis using handle_call_ok [OF _ assms(3,4)] by (simp add: call_sound_def)
qed

section \<open>A run: one order sweeps two levels of the book\<close>

definition sample_configs :: "scheduled_instrument_config list" where
  "sample_configs = [scheduled_instrument_config_new (Twse, ''2330'') Share
     \<lparr>dm_depth_levels = 5, dm_max_stale_ms = 10, dm_adverse_price_delta = 0\<rparr>]"

definition sample_request :: scheduled_order_request where
  "sample_request =
     \<lparr>sr_client_order_id = ''c1'', sr_batch_id = None, sr_activate_at = 2000, sr_expire_at = None,
      sr_intent = \<lparr>oi_instrument = (Twse, ''2330''), oi_side = Buy, oi_quantity = \<lparr>q_value = 4, q_unit = Share\<rparr>,
        oi_order_type = Limit 11\<rparr>,
      sr_execution_policy = VisibleDepthAtActivationV1\<rparr>"

definition sample_evidence :: visible_book_evidence where
  "sample_evidence =
     \<lparr>be_instrument = (Twse, ''2330''), be_book = sample_book, be_match_time = 1000, be_visible_at = 1000,
      be_matching = Enabled MethodContinuous, be_new_order_entry = Allowed\<rparr>"

definition sample_waiting :: scheduled_simulator where
  "sample_waiting =
     \<lparr>ds_configs = [((Twse, ''2330''), (Share, \<lparr>dm_depth_levels = 5, dm_max_stale_ms = 10, dm_adverse_price_delta = 0\<rparr>, PositiveOnly))],
      ds_books = [((Twse, ''2330''), \<lparr>vb_evidence = sample_evidence, vb_consumed_bids = [0, 0, 0, 0, 0], vb_consumed_asks = [0, 0, 0, 0, 0]\<rparr>)],
      ds_trading_states = [((Twse, ''2330''), \<lparr>te_instrument = (Twse, ''2330''), te_match_time = 1000, te_visible_at = 1000,
        te_matching = Enabled MethodContinuous, te_new_order_entry = Allowed\<rparr>)],
      ds_orders = [\<lparr>sd_id = replicate 32 0, sd_request = sample_request, sd_acceptance_sequence = 1, sd_filled_value = 0,
        sd_status = SScheduled\<rparr>],
      ds_client_orders = [(''c1'', replicate 32 0)], ds_fills = [], ds_execution_fills = [], ds_next_acceptance_sequence = 2\<rparr>"

lemma no_consumption: "replicate 5 (0::nat) = [0, 0, 0, 0, 0]"
  by (simp add: eval_nat_numeral)

lemmas scheduled_eval = no_consumption scheduled_simulator_new_def insert_config_def scheduled_instrument_config_new_def sample_configs_def
  sample_request_def sample_evidence_def sample_waiting_def publish_visible_book_def publish_visible_trading_state_def
  scheduled_submit_def replace_previous_def request_to_canonical_bytes_def intent_to_canonical_bytes_def policy_accepts_def
  sample_hash_def depth_eval bm_get_def append_all.simps push_def append_bytes_def append_length_def in_u32_def
  append_quantity_def append_price_def quantity_to_canonical_bytes_def decimal_to_canonical_bytes_def append_time_def checked_u64_def in_u64_def

definition sample_empty :: scheduled_simulator where
  "sample_empty = sample_waiting\<lparr>ds_books := [], ds_trading_states := [], ds_orders := [], ds_client_orders := [],
     ds_next_acceptance_sequence := 1\<rparr>"

lemma sample_new: "scheduled_simulator_new sample_configs = Ok sample_empty"
  by (simp add: sample_empty_def scheduled_eval)

lemma sample_calls:
  "handle_call sample_hash sample_empty (PublishBook sample_evidence) =
     (None, sample_waiting\<lparr>ds_orders := [], ds_client_orders := [], ds_next_acceptance_sequence := 1\<rparr>)"
  "handle_call sample_hash (sample_waiting\<lparr>ds_orders := [], ds_client_orders := [], ds_next_acceptance_sequence := 1\<rparr>)
     (SubmitOrder ''demo'' \<lparr>sx_origin_identity = [], sx_decision_time = 1000\<rparr> 0 sample_request) = (None, sample_waiting)"
  by (simp_all add: sample_empty_def scheduled_eval)

lemmas activation_eval = scheduled_eval scheduled_activate_def order_index_def visible_state_at_def entry_allowed_def
  activate_depth_def visible_book_at_def book_is_fresh_def checked_i64_def in_i64_def matching_enabled_at_def
  execute_sweep_def consumed_of_def with_consumed_of_def quantity_new_def execution_fill_feedback_new_def
  set_filled_def set_status_def fill_from_control_def fill_id_of_def sweep_is_complete_def fail_activation_def

definition sample_filled :: scheduled_simulator where
  "sample_filled = snd (handle_call sample_hash sample_waiting (ActivateOrder (replicate 32 0) 1 2000))"

lemma sample_filled:
  "map (\<lambda>f. (fr_price f, q_value (fr_quantity f))) (ds_fills sample_filled) = [(10, 3), (11, 1)]"
  "map sd_status (ds_orders sample_filled) = [SFilled]"
  by (simp_all add: sample_filled_def activation_eval)

lemma sample_scheduled_run: "scheduled_run sample_hash (1000, sample_empty) (1000, sample_waiting)"
proof -
  have "call_wf (PublishBook sample_evidence)" by (simp add: scheduled_eval)
  then have "scheduled_run sample_hash (1000, sample_empty)
      (1000, sample_waiting\<lparr>ds_orders := [], ds_client_orders := [], ds_next_acceptance_sequence := 1\<rparr>)"
    using run_call [OF run_start, where c = "PublishBook sample_evidence" and hash = sample_hash and now = 1000 and s = sample_empty]
    by (simp only: sample_calls call_time.simps snd_conv order_refl)
  moreover have "call_wf (SubmitOrder ''demo'' \<lparr>sx_origin_identity = [], sx_decision_time = 1000\<rparr> 0 sample_request)"
    by (simp add: sample_request_def wf_quantity_def in_u64_def)
  ultimately show ?thesis
    using run_call [of sample_hash "(1000, sample_empty)" 1000
      "sample_waiting\<lparr>ds_orders := [], ds_client_orders := [], ds_next_acceptance_sequence := 1\<rparr>"
      "SubmitOrder ''demo'' \<lparr>sx_origin_identity = [], sx_decision_time = 1000\<rparr> 0 sample_request"]
    by (simp only: sample_calls call_time.simps snd_conv order_refl)
qed

lemma sample_activates:
  assumes "scheduled_run sample_hash start (1000, sample_waiting)"
  shows "scheduled_run sample_hash start (2000, sample_filled)"
  using run_call [OF assms, of "ActivateOrder (replicate 32 0) 1 2000"] by (simp only: sample_filled_def call_time.simps call_wf.simps)


theorem scheduled_lifecycle_witness:
  "sd_status (ds_orders sample_waiting ! 0) = SScheduled \<and> order_evolves (ds_orders sample_waiting ! 0) (ds_orders sample_filled ! 0)"
  using scheduled_lifecycle [OF sample_new sample_scheduled_run sample_activates [OF run_start], of 0] by (simp add: sample_waiting_def)

text \<open>The activation that sweeps two levels, and so indexes consumed depth and subtracts quantities twice.\<close>

theorem scheduled_never_panics_witness:
  "fst (handle_call sample_hash sample_waiting (ActivateOrder (replicate 32 0) 1 2000)) \<noteq> Some Panicked \<and>
   map (\<lambda>f. (fr_price f, q_value (fr_quantity f)))
     (ds_fills (snd (handle_call sample_hash sample_waiting (ActivateOrder (replicate 32 0) 1 2000)))) = [(10, 3), (11, 1)]"
  using scheduled_never_panics [OF sample_new sample_scheduled_run, of "ActivateOrder (replicate 32 0) 1 2000"] sample_filled(1)
  by (simp add: sample_filled_def)

end
