(* ===== verification/Control.thy ===== *)
theory Control
  imports Ordering
begin

text \<open>
  Control time: \<open>crates/osmium-runner/src/control.rs\<close> and \<open>visibility.rs\<close>. The control queue orders
  deferred work by time, phase and scheduling sequence; the visibility queue delays observations by the
  market data latency. The locale \<open>release_queue\<close> states the contract of such a queue abstractly, as the
  list of what is pending in the order it was scheduled: releasing is a stable sort by time and phase of
  what is due. The control queue is an interpretation of it, and what is shown of the visibility queue
  rests on the contract alone.
\<close>

section \<open>Model\<close>

definition CONTROL_ORDERING_VERSION :: nat where "CONTROL_ORDERING_VERSION = 1"

datatype control_phase =
  ReleaseObservation | StrategyDecision | OrderExpiry | OrderActivation | FillAllocation | Accounting | FeedbackPhase

fun control_phase_rank :: "control_phase \<Rightarrow> nat" where
  "control_phase_rank ReleaseObservation = 1"
| "control_phase_rank StrategyDecision = 2"
| "control_phase_rank OrderExpiry = 3"
| "control_phase_rank OrderActivation = 4"
| "control_phase_rank FillAllocation = 5"
| "control_phase_rank Accounting = 6"
| "control_phase_rank FeedbackPhase = 7"

lemma control_phase_rank_inject: "control_phase_rank a = control_phase_rank b \<longleftrightarrow> a = b"
  by (cases a; cases b) simp_all

instantiation control_phase :: linorder
begin

definition less_eq_control_phase :: "control_phase \<Rightarrow> control_phase \<Rightarrow> bool" where
  "less_eq_control_phase a b \<longleftrightarrow> control_phase_rank a \<le> control_phase_rank b"

definition less_control_phase :: "control_phase \<Rightarrow> control_phase \<Rightarrow> bool" where
  "less_control_phase a b \<longleftrightarrow> control_phase_rank a < control_phase_rank b"

instance
  by intro_classes (auto simp: less_eq_control_phase_def less_control_phase_def control_phase_rank_inject)

end

text \<open>The derived order of the key is the lexicographic order of its fields.\<close>

type_synonym control_ordering_key = "int \<times> control_phase \<times> nat"

record 'a scheduled_control =
  sc_at :: int
  sc_control_phase :: control_phase
  sc_sequence :: nat
  sc_payload :: 'a

record 'a control_time_queue =
  cq_pending :: "(control_ordering_key, 'a) bmap"
  cq_next_sequence :: nat

datatype control_time_queue_error = ControlSequenceOverflow

definition control_queue_new :: "'a control_time_queue" where
  "control_queue_new = \<lparr>cq_pending = [], cq_next_sequence = 1\<rparr>"

definition control_schedule ::
  "'a control_time_queue \<Rightarrow> int \<Rightarrow> control_phase \<Rightarrow> 'a \<Rightarrow>
   (nat, control_time_queue_error) result \<times> 'a control_time_queue" where
  "control_schedule q t phase payload =
     (let sequence = cq_next_sequence q in
      case checked_u64 (sequence + 1) of
        None \<Rightarrow> (Err ControlSequenceOverflow, q)
      | Some next_sequence \<Rightarrow>
          (Ok sequence, q\<lparr>cq_next_sequence := next_sequence,
                          cq_pending := bm_insert (t, phase, sequence) payload (cq_pending q)\<rparr>))"

definition control_next_time :: "'a control_time_queue \<Rightarrow> int option" where
  "control_next_time q = (case cq_pending q of [] \<Rightarrow> None | (k, v) # m \<Rightarrow> Some (fst k))"

definition control_len :: "'a control_time_queue \<Rightarrow> nat" where
  "control_len q = length (cq_pending q)"

definition control_is_empty :: "'a control_time_queue \<Rightarrow> bool" where
  "control_is_empty q \<longleftrightarrow> cq_pending q = []"

fun pop_entries ::
  "(control_ordering_key \<Rightarrow> bool) \<Rightarrow> (control_ordering_key, 'a) bmap \<Rightarrow>
   'a scheduled_control list \<times> (control_ordering_key, 'a) bmap" where
  "pop_entries predicate [] = ([], [])"
| "pop_entries predicate ((key, payload) # pending) =
     (if \<not> predicate key then ([], (key, payload) # pending)
      else case pop_entries predicate pending of
        (popped, rest) \<Rightarrow>
          (\<lparr>sc_at = fst key, sc_control_phase = fst (snd key), sc_sequence = snd (snd key), sc_payload = payload\<rparr> # popped,
           rest))"

definition control_pop_while ::
  "'a control_time_queue \<Rightarrow> (control_ordering_key \<Rightarrow> bool) \<Rightarrow> 'a scheduled_control list \<times> 'a control_time_queue" where
  "control_pop_while q predicate =
     (case pop_entries predicate (cq_pending q) of (popped, rest) \<Rightarrow> (popped, q\<lparr>cq_pending := rest\<rparr>))"

definition control_pop_before :: "'a control_time_queue \<Rightarrow> int \<Rightarrow> 'a scheduled_control list \<times> 'a control_time_queue" where
  "control_pop_before q boundary = control_pop_while q (\<lambda>key. fst key < boundary)"

definition control_pop_at :: "'a control_time_queue \<Rightarrow> int \<Rightarrow> 'a scheduled_control list \<times> 'a control_time_queue" where
  "control_pop_at q t = control_pop_while q (\<lambda>key. fst key = t)"

definition control_pop_through :: "'a control_time_queue \<Rightarrow> int \<Rightarrow> 'a scheduled_control list \<times> 'a control_time_queue" where
  "control_pop_through q boundary = control_pop_while q (\<lambda>key. fst key \<le> boundary)"

subsection \<open>Visibility\<close>

record 'a visible_observation =
  vo_match_time :: int
  vo_visible_at :: int
  vo_observation :: 'a

record 'a visibility_queue =
  vq_controls :: "'a visible_observation control_time_queue"
  vq_market_data_latency_ms :: nat

datatype visibility_error = TimeOverflow | ControlQueue control_time_queue_error

definition visibility_queue_new :: "nat \<Rightarrow> 'a visibility_queue" where
  "visibility_queue_new latency = \<lparr>vq_controls = control_queue_new, vq_market_data_latency_ms = latency\<rparr>"

definition add_milliseconds :: "int \<Rightarrow> nat \<Rightarrow> (int, visibility_error) result" where
  "add_milliseconds t milliseconds =
     rbind (ok_or (Option.bind (checked_u64 (milliseconds * 1000)) (\<lambda>v. checked_i64 (int v))) TimeOverflow) (\<lambda>micros.
       ok_or (checked_i64 (t + micros)) TimeOverflow)"

definition visibility_enqueue ::
  "'a visibility_queue \<Rightarrow> int \<Rightarrow> 'a \<Rightarrow> (int, visibility_error) result \<times> 'a visibility_queue" where
  "visibility_enqueue q match_time ob =
     (case add_milliseconds match_time (vq_market_data_latency_ms q) of
        Err err \<Rightarrow> (Err err, q)
      | Ok visible_at \<Rightarrow>
          (case control_schedule (vq_controls q) visible_at ReleaseObservation
                  \<lparr>vo_match_time = match_time, vo_visible_at = visible_at, vo_observation = ob\<rparr> of
             (r, controls) \<Rightarrow> (rbind (map_err ControlQueue r) (\<lambda>_. Ok visible_at), q\<lparr>vq_controls := controls\<rparr>)))"

definition visibility_next_visible_at :: "'a visibility_queue \<Rightarrow> int option" where
  "visibility_next_visible_at q = control_next_time (vq_controls q)"

definition visibility_pop_before ::
  "'a visibility_queue \<Rightarrow> int \<Rightarrow> 'a visible_observation scheduled_control list \<times> 'a visibility_queue" where
  "visibility_pop_before q boundary =
     (case control_pop_before (vq_controls q) boundary of (popped, controls) \<Rightarrow> (popped, q\<lparr>vq_controls := controls\<rparr>))"

definition visibility_pop_at ::
  "'a visibility_queue \<Rightarrow> int \<Rightarrow> 'a visible_observation scheduled_control list \<times> 'a visibility_queue" where
  "visibility_pop_at q t =
     (case control_pop_at (vq_controls q) t of (popped, controls) \<Rightarrow> (popped, q\<lparr>vq_controls := controls\<rparr>))"

definition visibility_pop_through ::
  "'a visibility_queue \<Rightarrow> int \<Rightarrow> 'a visible_observation scheduled_control list \<times> 'a visibility_queue" where
  "visibility_pop_through q boundary =
     (case control_pop_through (vq_controls q) boundary of (popped, controls) \<Rightarrow> (popped, q\<lparr>vq_controls := controls\<rparr>))"

section \<open>Stable sorting\<close>

lemma insort_key_agree:
  "(\<And>y. y \<in> set ys \<Longrightarrow> f x \<le> f y \<longleftrightarrow> g x \<le> g y) \<Longrightarrow> insort_key f x ys = insort_key g x ys"
  by (induction ys) auto

text \<open>Sorting a list that ascends in a second key sorts by both.\<close>

lemma sort_key_refine:
  fixes f :: "'a \<Rightarrow> 'b :: linorder" and g :: "'a \<Rightarrow> 'c :: linorder"
  assumes "sorted_wrt (\<lambda>x y. g x < g y) xs"
  shows "sort_key f xs = sort_key (\<lambda>x. (f x, g x)) xs"
  using assms
proof (induction xs)
  case (Cons x xs)
  have "insort_key f x (sort_key f xs) = insort_key (\<lambda>x. (f x, g x)) x (sort_key f xs)"
    using Cons.prems by (intro insort_key_agree) (auto simp: less_eq_prod_def)
  then show ?case using Cons by simp
qed simp

lemma sort_key_eqI:
  fixes f :: "'a \<Rightarrow> 'b :: linorder"
  assumes "mset xs = mset ys" and "sorted_wrt (\<lambda>x y. f x < f y) ys"
  shows "sort_key f xs = ys"
proof -
  have "distinct (map f ys)" using assms(2) by (induction ys) auto
  then have "sort_key f ys = sort_key f xs" by (rule sort_key_unique [OF assms(1) [symmetric]])
  moreover have "sort_key f ys = ys"
    using assms(2) by (intro sort_key_id_if_sorted) (induction ys, auto)
  ultimately show ?thesis by simp
qed

lemma sort_key_split:
  fixes f :: "'a \<Rightarrow> 'b :: linorder"
  assumes "\<And>x y. x \<in> set xs \<Longrightarrow> y \<in> set xs \<Longrightarrow> P x \<Longrightarrow> \<not> P y \<Longrightarrow> f x < f y"
  shows "sort_key f xs = sort_key f (filter P xs) @ sort_key f (filter (\<lambda>x. \<not> P x) xs)"
proof (rule properties_for_sort_key)
  let ?ys = "sort_key f (filter P xs) @ sort_key f (filter (\<lambda>x. \<not> P x) xs)"
  show "mset ?ys = mset xs" by simp
  show "sorted (map f ?ys)"
    using assms by (auto simp: sorted_append less_imp_le)
  fix k
  assume k: "k \<in> set ?ys"
  have stable: "filter (\<lambda>x. f k = f x) (sort_key f zs) = filter (\<lambda>x. f k = f x) zs" for zs
    using sort_key_stable [of f "f k" zs] by (simp add: eq_commute)
  have none: "filter (\<lambda>x. f k = f x \<and> Q x) xs = filter (\<lambda>x. f k = f x) xs \<and>
      filter (\<lambda>x. f k = f x \<and> \<not> Q x) xs = []"
    if "\<And>x. x \<in> set xs \<Longrightarrow> f k = f x \<Longrightarrow> Q x" for Q
    using that by (auto intro: filter_cong simp: filter_empty_conv)
  show "filter (\<lambda>x. f k = f x) ?ys = filter (\<lambda>x. f k = f x) xs"
  proof (cases "P k")
    case True
    have "P x" if "x \<in> set xs" "f k = f x" for x
      using assms [of k x] True k that by auto
    then show ?thesis using none [of P] by (simp add: stable conj_commute)
  next
    case False
    have "\<not> P x" if "x \<in> set xs" "f k = f x" for x
      using assms [of x k] False k that by auto
    then show ?thesis using none [of "\<lambda>x. \<not> P x"] by (simp add: stable conj_commute)
  qed
qed

section \<open>The contract of a release queue\<close>

text \<open>
  What is pending is the list of time, phase and payload in the order of scheduling. Due items leave in
  the order of time and phase, and in scheduling order within one phase of one time.
\<close>

abbreviation due_key :: "int \<times> control_phase \<times> 'a \<Rightarrow> int \<times> control_phase" where
  "due_key x \<equiv> (fst x, fst (snd x))"

definition due :: "int \<Rightarrow> (int \<times> control_phase \<times> 'a) list \<Rightarrow> (int \<times> control_phase \<times> 'a) list" where
  "due boundary xs = sort_key due_key (filter (\<lambda>x. fst x \<le> boundary) xs)"

definition not_due :: "int \<Rightarrow> (int \<times> control_phase \<times> 'a) list \<Rightarrow> (int \<times> control_phase \<times> 'a) list" where
  "not_due boundary xs = filter (\<lambda>x. \<not> fst x \<le> boundary) xs"

lemma due_later:
  assumes "b \<le> c"
  shows "due c xs = due b xs @ due c (not_due b xs)" and "not_due c (not_due b xs) = not_due c xs"
proof -
  have "due c xs = sort_key due_key (filter (\<lambda>x. fst x \<le> b) (filter (\<lambda>x. fst x \<le> c) xs)) @
      sort_key due_key (filter (\<lambda>x. \<not> fst x \<le> b) (filter (\<lambda>x. fst x \<le> c) xs))"
    unfolding due_def by (rule sort_key_split) (auto simp: less_prod_def)
  moreover have "filter (\<lambda>x. fst x \<le> b) (filter (\<lambda>x. fst x \<le> c) xs) = filter (\<lambda>x. fst x \<le> b) xs"
    using assms by (auto intro: filter_cong)
  ultimately show "due c xs = due b xs @ due c (not_due b xs)"
    by (simp add: due_def not_due_def conj_commute)
  show "not_due c (not_due b xs) = not_due c xs"
    using assms by (auto simp: not_due_def intro: filter_cong)
qed

locale release_queue =
  fixes inv :: "'q \<Rightarrow> bool" and pend :: "'q \<Rightarrow> (int \<times> control_phase \<times> 'a) list"
    and schedule :: "'q \<Rightarrow> int \<Rightarrow> control_phase \<Rightarrow> 'a \<Rightarrow> ('r, 'e) result \<times> 'q"
    and release :: "'q \<Rightarrow> int \<Rightarrow> (int \<times> control_phase \<times> 'a) list \<times> 'q"
  assumes schedule_Ok: "inv q \<Longrightarrow> schedule q t phase x = (Ok n, q') \<Longrightarrow> inv q' \<and> pend q' = pend q @ [(t, phase, x)]"
    and schedule_Err: "schedule q t phase x = (Err err, q') \<Longrightarrow> q' = q"
    and release_due: "inv q \<Longrightarrow> release q b = (xs, q') \<Longrightarrow> inv q' \<and> xs = due b (pend q) \<and> pend q' = not_due b (pend q)"
begin

text \<open>Releasing up to a boundary in steps releases the same items in the same order as at once.\<close>

lemma release_steps:
  assumes "inv q" "release q b = (xs, q1)" "release q1 c = (ys, q2)" "b \<le> c" "release q c = (zs, q3)"
  shows "zs = xs @ ys" and "pend q3 = pend q2"
proof -
  have 1: "inv q1" "xs = due b (pend q)" "pend q1 = not_due b (pend q)" using release_due [OF assms(1,2)] by auto
  have 2: "ys = due c (pend q1)" "pend q2 = not_due c (pend q1)" using release_due [OF 1(1) assms(3)] by auto
  have 3: "zs = due c (pend q)" "pend q3 = not_due c (pend q)" using release_due [OF assms(1,5)] by auto
  show "zs = xs @ ys" "pend q3 = pend q2" using 1 2 3 due_later [OF assms(4), of "pend q"] by simp_all
qed

text \<open>Whatever is scheduled leaves with the first release at or after its time.\<close>

lemma scheduled_is_released:
  assumes "inv q" "schedule q t phase x = (Ok n, q')" "release q' b = (xs, q'')"
  shows "if t \<le> b then (t, phase, x) \<in> set xs else (t, phase, x) \<in> set (pend q'')"
  using schedule_Ok [OF assms(1,2)] release_due [OF _ assms(3)] by (auto simp: due_def not_due_def)

end

section \<open>The control queue\<close>

definition control_inv :: "'a control_time_queue \<Rightarrow> bool" where
  "control_inv q \<longleftrightarrow> bm_inv (cq_pending q) \<and> distinct (map (\<lambda>e. snd (snd (fst e))) (cq_pending q)) \<and>
     (\<forall>e \<in> set (cq_pending q). snd (snd (fst e)) < cq_next_sequence q)"

definition entry_item :: "control_ordering_key \<times> 'a \<Rightarrow> int \<times> control_phase \<times> 'a" where
  "entry_item e = (fst (fst e), fst (snd (fst e)), snd e)"

definition control_pend :: "'a control_time_queue \<Rightarrow> (int \<times> control_phase \<times> 'a) list" where
  "control_pend q = map entry_item (sort_key (\<lambda>e. snd (snd (fst e))) (cq_pending q))"

definition control_release :: "'a control_time_queue \<Rightarrow> int \<Rightarrow> (int \<times> control_phase \<times> 'a) list \<times> 'a control_time_queue" where
  "control_release q b =
     (case control_pop_through q b of
        (popped, q') \<Rightarrow> (map (\<lambda>c. (sc_at c, sc_control_phase c, sc_payload c)) popped, q'))"

lemma pop_entries_eq:
  "pop_entries P m =
     (map (\<lambda>(key, v). \<lparr>sc_at = fst key, sc_control_phase = fst (snd key), sc_sequence = snd (snd key), sc_payload = v\<rparr>)
        (takeWhile (\<lambda>e. P (fst e)) m), dropWhile (\<lambda>e. P (fst e)) m)"
  by (induction P m rule: pop_entries.induct) auto

lemma takeWhile_eq_filter_sorted:
  fixes f :: "'a \<Rightarrow> 'b :: linorder"
  assumes "sorted (map f xs)" "\<And>x y. P y \<Longrightarrow> f x \<le> f y \<Longrightarrow> P x"
  shows "takeWhile P xs = filter P xs" "dropWhile P xs = filter (\<lambda>x. \<not> P x) xs"
proof -
  have no: "filter P xs = []" if "\<not> P x" "\<forall>y \<in> set xs. f x \<le> f y" for x xs
    using that assms(2) by (auto simp: filter_empty_conv)
  have all: "filter (\<lambda>x. \<not> P x) xs = xs" if "\<not> P x" "\<forall>y \<in> set xs. f x \<le> f y" for x xs
    using that assms(2) by (auto simp: filter_id_conv)
  show "takeWhile P xs = filter P xs" using assms(1) by (induction xs) (auto simp: no)
  show "dropWhile P xs = filter (\<lambda>x. \<not> P x) xs" using assms(1) by (induction xs) (auto simp: all)
qed

lemma sort_key_map: "sort_key f (map g xs) = map g (sort_key (\<lambda>x. f (g x)) xs)"
proof (induction xs)
  case (Cons x xs)
  have "insort_key f (g x) (map g ys) = map g (insort_key (\<lambda>x. f (g x)) x ys)" for ys
    by (induction ys) auto
  then show ?case using Cons by simp
qed simp

lemma mset_bm_insert_new: "k \<notin> fst ` set m \<Longrightarrow> mset (bm_insert k v m) = add_mset (k, v) (mset m)"
  by (induction m) auto

text \<open>The pending entries in scheduling order.\<close>

abbreviation sequence_of :: "control_ordering_key \<times> 'a \<Rightarrow> nat" where
  "sequence_of e \<equiv> snd (snd (fst e))"

lemma scheduled_order:
  assumes "control_inv q"
  shows "sorted_wrt (\<lambda>x y. sequence_of x < sequence_of y) (sort_key sequence_of (cq_pending q))"
proof -
  have "distinct (map sequence_of (sort_key sequence_of (cq_pending q)))"
  proof -
    have "mset (map sequence_of (sort_key sequence_of (cq_pending q))) = mset (map sequence_of (cq_pending q))" by simp
    then show ?thesis using assms mset_eq_imp_distinct_iff unfolding control_inv_def by blast
  qed
  moreover have "sorted (map sequence_of (sort_key sequence_of (cq_pending q)))" by simp
  ultimately have "sorted_wrt (<) (map sequence_of (sort_key sequence_of (cq_pending q)))"
    by (simp add: strict_sorted_iff)
  then show ?thesis by (simp add: sorted_wrt_map)
qed

lemma control_schedule_pend:
  assumes inv: "control_inv q" and "control_schedule q t phase x = (Ok n, q')"
  shows "control_inv q'" and "control_pend q' = control_pend q @ [(t, phase, x)]"
proof -
  have q': "q' = q\<lparr>cq_next_sequence := cq_next_sequence q + 1,
      cq_pending := bm_insert (t, phase, cq_next_sequence q) x (cq_pending q)\<rparr>"
    using assms(2) by (auto simp: control_schedule_def checked_u64_def Let_def split: option.splits if_splits)
  let ?e = "((t, phase, cq_next_sequence q), x)"
  have below: "\<forall>e \<in> set (cq_pending q). sequence_of e < cq_next_sequence q" using inv by (simp add: control_inv_def)
  then have "(t, phase, cq_next_sequence q) \<notin> fst ` set (cq_pending q)" by auto
  then have new: "mset (cq_pending q') = add_mset ?e (mset (cq_pending q))" by (simp add: q' mset_bm_insert_new)
  have seqs: "mset (map sequence_of (cq_pending q')) = mset (map sequence_of (cq_pending q @ [?e]))"
    using new by (simp only: mset_map) simp
  have "distinct (map sequence_of (cq_pending q @ [?e]))" using inv below by (auto simp: control_inv_def)
  then have "distinct (map sequence_of (cq_pending q'))" using mset_eq_imp_distinct_iff [OF seqs] by blast
  moreover have "bm_inv (cq_pending q')" using inv by (simp add: q' control_inv_def bm.inv_insert)
  moreover have "set (cq_pending q') = insert ?e (set (cq_pending q))" using new by (metis set_mset_add_mset_insert set_mset_mset)
  then have "\<forall>e \<in> set (cq_pending q'). sequence_of e < cq_next_sequence q'" using below by (auto simp: q' less_SucI)
  ultimately show "control_inv q'" by (simp add: control_inv_def)
  have "sort_key sequence_of (cq_pending q') = sort_key sequence_of (cq_pending q) @ [?e]"
    using new below scheduled_order [OF inv] by (intro sort_key_eqI) (auto simp: sorted_wrt_append)
  then show "control_pend q' = control_pend q @ [(t, phase, x)]" by (simp add: control_pend_def entry_item_def)
qed

lemma control_release_pend:
  assumes inv: "control_inv q" and "control_release q b = (xs, q')"
  shows "control_inv q'" and "xs = due b (control_pend q)" and "control_pend q' = not_due b (control_pend q)"
proof -
  let ?due = "\<lambda>e :: control_ordering_key \<times> 'a. fst (fst e) \<le> b"
  have keys: "sorted_wrt (\<lambda>x y. fst x < fst y) (cq_pending q)" using inv by (simp add: control_inv_def bm_inv_def sorted_wrt_map)
  then have "sorted (map fst (cq_pending q))"
    unfolding sorted_wrt_map by (rule sorted_wrt_mono_rel [rotated]) simp
  then have split: "takeWhile ?due (cq_pending q) = filter ?due (cq_pending q)"
      "dropWhile ?due (cq_pending q) = filter (\<lambda>e. \<not> ?due e) (cq_pending q)"
    by (intro takeWhile_eq_filter_sorted [where f = fst]; force simp: less_eq_prod_def)+
  then have xs: "xs = map entry_item (filter ?due (cq_pending q))"
      and q': "q' = q\<lparr>cq_pending := filter (\<lambda>e. \<not> ?due e) (cq_pending q)\<rparr>"
    using assms(2) by (auto simp: control_release_def control_pop_through_def control_pop_while_def pop_entries_eq
        entry_item_def comp_def split_beta)
  let ?L = "sort_key sequence_of (cq_pending q)"
  have order: "sorted_wrt (\<lambda>x y. sequence_of x < sequence_of y) (filter P ?L)" for P
    using scheduled_order [OF inv] by (rule sorted_wrt_filter)
  have "sort_key (\<lambda>e. due_key (entry_item e)) (filter ?due ?L) =
      sort_key (\<lambda>e. (due_key (entry_item e), sequence_of e)) (filter ?due ?L)"
    by (rule sort_key_refine [OF order])
  also have "\<dots> = filter ?due (cq_pending q)"
    using keys by (intro sort_key_eqI sorted_wrt_filter)
      (auto simp: entry_item_def less_prod_def elim!: sorted_wrt_mono_rel [rotated])
  finally have "sort_key (\<lambda>e. due_key (entry_item e)) (filter ?due ?L) = filter ?due (cq_pending q)" .
  then show "xs = due b (control_pend q)"
    by (simp add: xs due_def control_pend_def filter_map sort_key_map comp_def) (simp add: entry_item_def)
  have "sort_key sequence_of (filter (\<lambda>e. \<not> ?due e) (cq_pending q)) = filter (\<lambda>e. \<not> ?due e) ?L"
    using order by (intro sort_key_eqI) auto
  then show "control_pend q' = not_due b (control_pend q)"
    by (simp add: q' control_pend_def not_due_def filter_map comp_def) (simp add: entry_item_def)
  show "control_inv q'"
    using inv by (auto simp: q' control_inv_def bm_inv_def sorted_wrt_map distinct_map_filter intro: sorted_wrt_filter)
qed

interpretation cq: release_queue control_inv control_pend control_schedule control_release
proof
  show "control_inv q' \<and> control_pend q' = control_pend q @ [(t, phase, x)]"
    if "control_inv q" "control_schedule q t phase x = (Ok n, q')" for q q' :: "'a control_time_queue" and t phase x n
    using control_schedule_pend [OF that] by blast
  show "q' = q" if "control_schedule q t phase x = (Err err, q')" for q q' :: "'a control_time_queue" and t phase x err
    using that by (auto simp: control_schedule_def Let_def split: option.splits)
  show "control_inv q' \<and> xs = due b (control_pend q) \<and> control_pend q' = not_due b (control_pend q)"
    if "control_inv q" "control_release q b = (xs, q')" for q q' :: "'a control_time_queue" and b xs
    using control_release_pend [OF that] by blast
qed

text \<open>The other pops in terms of \<open>pop_through\<close>: \<open>pop_at\<close> stops at anything earlier.\<close>

lemma control_pop_before_through: "control_pop_before q b = control_pop_through q (b - 1)"
proof -
  have "(\<lambda>key :: control_ordering_key. fst key < b) = (\<lambda>key. fst key \<le> b - 1)" by (auto simp: fun_eq_iff)
  then show ?thesis by (simp add: control_pop_before_def control_pop_through_def)
qed

lemma control_pop_at_through:
  assumes "control_inv q"
  shows "control_pop_at q t =
    (case control_next_time q of
       Some first \<Rightarrow> if first < t then ([], q) else control_pop_through q t
     | None \<Rightarrow> ([], q))"
proof (cases "cq_pending q")
  case Nil
  then show ?thesis by (simp add: control_pop_at_def control_pop_while_def control_next_time_def)
next
  case (Cons e m)
  obtain k v where e: "e = (k, v)" by (cases e)
  show ?thesis
  proof (cases "fst k < t")
    case True
    then show ?thesis using Cons e by (simp add: control_pop_at_def control_pop_while_def control_next_time_def)
  next
    case False
    have "fst k \<le> fst (fst x)" if "x \<in> set (cq_pending q)" for x
    proof -
      have "k \<le> fst x" using assms that Cons e by (auto simp: control_inv_def bm_inv_def intro: less_imp_le)
      then show ?thesis by (auto simp: less_eq_prod_def)
    qed
    then have at_t: "fst (fst x) = t \<longleftrightarrow> fst (fst x) \<le> t" if "x \<in> set (cq_pending q)" for x
      using False order_trans [of t "fst k" "fst (fst x)"] that by auto
    then have "takeWhile (\<lambda>x. fst (fst x) = t) (cq_pending q) = takeWhile (\<lambda>x. fst (fst x) \<le> t) (cq_pending q)"
        "dropWhile (\<lambda>x. fst (fst x) = t) (cq_pending q) = dropWhile (\<lambda>x. fst (fst x) \<le> t) (cq_pending q)"
      by (simp_all cong: takeWhile_cong dropWhile_cong)
    moreover have "control_next_time q = Some (fst k)" using Cons e by (simp add: control_next_time_def)
    ultimately show ?thesis
      using False by (simp add: control_pop_at_def control_pop_through_def control_pop_while_def pop_entries_eq)
  qed
qed

lemma control_queue_new_pend [simp]: "control_inv control_queue_new" "control_pend control_queue_new = []"
  by (simp_all add: control_inv_def control_pend_def control_queue_new_def bm_inv_def)

text \<open>
  C4: the control queue implements its abstract specification. Abstractly it is the list of what is
  pending in scheduling order: a fresh queue is empty, scheduling appends, and a failed scheduling changes
  nothing; \<open>pop_through\<close> removes exactly what is due at the boundary and returns it ordered by time,
  then phase, then order of scheduling; \<open>pop_before\<close> is \<open>pop_through\<close> one microsecond earlier; and popping
  up to a boundary in steps returns the same sequence as popping at once.
\<close>

theorem control_queue_refines:
  fixes q :: "'a control_time_queue"
  assumes inv: "control_inv q"
  shows "(case control_schedule q t phase x of
            (Ok n, q') \<Rightarrow> control_inv q' \<and> control_pend q' = control_pend q @ [(t, phase, x)]
          | (Err err, q') \<Rightarrow> q' = q) \<and>
    (case control_pop_through q b of
       (popped, q') \<Rightarrow> control_inv q' \<and> control_pend q' = filter (\<lambda>x. b < fst x) (control_pend q) \<and>
         map (\<lambda>c. (sc_at c, sc_control_phase c, sc_payload c)) popped =
           sort_key (\<lambda>x. (fst x, fst (snd x))) (filter (\<lambda>x. fst x \<le> b) (control_pend q))) \<and>
    control_pop_before q b = control_pop_through q (b - 1) \<and>
    (\<forall>c xs q1 ys q2 zs q3. b \<le> c \<longrightarrow> control_pop_through q b = (xs, q1) \<longrightarrow> control_pop_through q1 c = (ys, q2) \<longrightarrow>
       control_pop_through q c = (zs, q3) \<longrightarrow>
       map sc_payload zs = map sc_payload xs @ map sc_payload ys \<and> control_pend q3 = control_pend q2)"
proof (intro conjI allI impI)
  show "case control_schedule q t phase x of
      (Ok n, q') \<Rightarrow> control_inv q' \<and> control_pend q' = control_pend q @ [(t, phase, x)] | (Err err, q') \<Rightarrow> q' = q"
    using cq.schedule_Ok [OF inv] cq.schedule_Err by (auto split: prod.split result.split)
  show "case control_pop_through q b of
      (popped, q') \<Rightarrow> control_inv q' \<and> control_pend q' = filter (\<lambda>x. b < fst x) (control_pend q) \<and>
        map (\<lambda>c. (sc_at c, sc_control_phase c, sc_payload c)) popped =
          sort_key (\<lambda>x. (fst x, fst (snd x))) (filter (\<lambda>x. fst x \<le> b) (control_pend q))"
    using cq.release_due [OF inv, of b]
    by (auto simp: control_release_def due_def not_due_def not_le split: prod.split)
  show "control_pop_before q b = control_pop_through q (b - 1)" by (rule control_pop_before_through)
  fix c xs q1 ys q2 zs q3
  assume "b \<le> c" and steps: "control_pop_through q b = (xs, q1)" "control_pop_through q1 c = (ys, q2)"
    "control_pop_through q c = (zs, q3)"
  let ?item = "\<lambda>c :: 'a scheduled_control. (sc_at c, sc_control_phase c, sc_payload c)"
  have "map ?item zs = map ?item xs @ map ?item ys \<and> control_pend q3 = control_pend q2"
    using cq.release_steps [OF inv _ _ \<open>b \<le> c\<close>, of "map ?item xs" q1 "map ?item ys" q2 "map ?item zs" q3] steps
    by (simp add: control_release_def)
  then show "map sc_payload zs = map sc_payload xs @ map sc_payload ys" "control_pend q3 = control_pend q2"
    by (auto dest!: arg_cong [where f = "map (\<lambda>x. snd (snd x))"] simp: comp_def)
qed

definition sample_queue :: "nat control_time_queue" where
  "sample_queue =
     \<lparr>cq_pending = [((5, StrategyDecision, 2), 20), ((7, ReleaseObservation, 3), 30), ((7, StrategyDecision, 1), 10)],
      cq_next_sequence = 4\<rparr>"

lemma sample_queue_inv: "control_inv sample_queue"
  by (simp add: control_inv_def sample_queue_def bm_inv_def less_prod_def less_control_phase_def)

theorem control_queue_refines_witness:
  "case control_pop_through sample_queue 7 of
     (popped, q) \<Rightarrow> map sc_payload popped = [20, 30, 10] \<and> control_pend q = filter (\<lambda>x. 7 < fst x) (control_pend sample_queue)"
  using conjunct1 [OF conjunct2 [OF control_queue_refines [OF sample_queue_inv, of 0 Accounting 0 7]]]
  by (simp add: control_pop_through_def control_pop_while_def sample_queue_def)

section \<open>Visibility\<close>

definition item_of :: "nat \<Rightarrow> int \<times> 'a \<Rightarrow> int \<times> control_phase \<times> 'a visible_observation" where
  "item_of latency e =
     (fst e + int (latency * 1000), ReleaseObservation,
      \<lparr>vo_match_time = fst e, vo_visible_at = fst e + int (latency * 1000), vo_observation = snd e\<rparr>)"

abbreviation delivered :: "'a visible_observation scheduled_control \<Rightarrow> int \<times> 'a" where
  "delivered c \<equiv> (vo_match_time (sc_payload c), vo_observation (sc_payload c))"

text \<open>Runs that enqueue observations in match time order and release at any boundaries in between.\<close>

inductive visibility_run :: "nat \<Rightarrow> (int \<times> 'a) list \<Rightarrow> (int \<times> 'a) list \<Rightarrow> 'a visibility_queue \<Rightarrow> bool" for latency where
  start: "visibility_run latency [] [] (visibility_queue_new latency)"
| enqueue: "\<lbrakk> visibility_run latency enq rel q; \<forall>e \<in> set enq. fst e \<le> t; visibility_enqueue q t x = (Ok visible_at, q') \<rbrakk>
    \<Longrightarrow> visibility_run latency (enq @ [(t, x)]) rel q'"
| release: "\<lbrakk> visibility_run latency enq rel q; visibility_pop_through q b = (popped, q') \<rbrakk>
    \<Longrightarrow> visibility_run latency enq (rel @ map delivered popped) q'"

lemma add_milliseconds_Ok: "add_milliseconds t ms = Ok v \<Longrightarrow> v = t + int (ms * 1000)"
  by (auto simp: add_milliseconds_def checked_u64_def checked_i64_def bind_eq_Some_conv split: if_splits)

lemma due_items:
  assumes "sorted (map fst rest)"
  shows "due b (map (item_of latency) rest) = map (item_of latency) (filter (\<lambda>e. fst e + int (latency * 1000) \<le> b) rest)"
proof -
  have "sort_key due_key (map (item_of latency) xs) = map (item_of latency) xs" if "sorted (map fst xs)" for xs :: "(int \<times> 'a) list"
    using that by (intro sort_key_id_if_sorted) (auto simp: item_of_def comp_def sorted_wrt_map elim!: sorted_wrt_mono_rel [rotated])
  moreover have "sorted (map fst (filter P rest))" for P using assms by (rule sorted_filter)
  ultimately show ?thesis by (simp add: due_def filter_map comp_def item_of_def)
qed

lemma visibility_pop_release:
  assumes "visibility_pop_through q b = (popped, q')"
  shows "control_release (vq_controls q) b = (map (\<lambda>c. (sc_at c, sc_control_phase c, sc_payload c)) popped, vq_controls q')"
    and "vq_market_data_latency_ms q' = vq_market_data_latency_ms q"
  using assms by (auto simp: visibility_pop_through_def control_release_def split: prod.splits)

definition visibility_inv :: "nat \<Rightarrow> (int \<times> 'a) list \<Rightarrow> (int \<times> 'a) list \<Rightarrow> 'a visibility_queue \<Rightarrow> bool" where
  "visibility_inv latency enq rest q \<longleftrightarrow>
     control_inv (vq_controls q) \<and> vq_market_data_latency_ms q = latency \<and>
     control_pend (vq_controls q) = map (item_of latency) rest \<and> sorted (map fst enq)"

lemma visibility_release:
  assumes inv: "visibility_inv latency (rel @ rest) rest q" and pop: "visibility_pop_through q b = (popped, q')"
  defines "visible \<equiv> \<lambda>e :: int \<times> 'a. fst e + int (latency * 1000) \<le> b"
  shows "map delivered popped = takeWhile visible rest"
    and "\<forall>c \<in> set popped. sc_at c = vo_match_time (sc_payload c) + int (latency * 1000) \<and> sc_at c \<le> b"
    and "visibility_inv latency (rel @ rest) (dropWhile visible rest) q'"
proof -
  let ?item = "\<lambda>c :: 'a visible_observation scheduled_control. (sc_at c, sc_control_phase c, sc_payload c)"
  have sorted: "sorted (map fst rest)" using inv by (simp add: visibility_inv_def sorted_append)
  have "vq_controls q' = vq_controls q'" and rel: "map ?item popped = due b (map (item_of latency) rest)"
      "control_inv (vq_controls q')" "control_pend (vq_controls q') = not_due b (map (item_of latency) rest)"
    using cq.release_due [OF _ visibility_pop_release(1) [OF pop]] inv by (simp_all add: visibility_inv_def)
  have down: "takeWhile visible rest = filter visible rest" "dropWhile visible rest = filter (\<lambda>e. \<not> visible e) rest"
    using sorted by (intro takeWhile_eq_filter_sorted [where f = fst]; simp add: visible_def)+
  have items: "map ?item popped = map (item_of latency) (takeWhile visible rest)"
    using rel(1) unfolding due_items [OF sorted] down(1) by (simp add: visible_def)
  then have "map (\<lambda>x. (vo_match_time (snd (snd x)), vo_observation (snd (snd x)))) (map ?item popped) =
      map (\<lambda>x. (vo_match_time (snd (snd x)), vo_observation (snd (snd x)))) (map (item_of latency) (takeWhile visible rest))"
    by (rule arg_cong)
  then show "map delivered popped = takeWhile visible rest" by (simp add: comp_def item_of_def)
  show "\<forall>c \<in> set popped. sc_at c = vo_match_time (sc_payload c) + int (latency * 1000) \<and> sc_at c \<le> b"
  proof
    fix c
    assume "c \<in> set popped"
    then have "?item c \<in> set (map (item_of latency) (takeWhile visible rest))" unfolding items [symmetric] by simp
    then show "sc_at c = vo_match_time (sc_payload c) + int (latency * 1000) \<and> sc_at c \<le> b"
      by (auto simp: item_of_def visible_def dest: set_takeWhileD)
  qed
  have "control_pend (vq_controls q') = map (item_of latency) (dropWhile visible rest)"
    unfolding rel(3) down(2) by (simp add: not_due_def filter_map comp_def item_of_def visible_def)
  then show "visibility_inv latency (rel @ rest) (dropWhile visible rest) q'"
    using inv rel(2) visibility_pop_release(2) [OF pop] by (simp add: visibility_inv_def)
qed

lemma visibility_run_inv:
  "visibility_run latency enq rel q \<Longrightarrow> \<exists>rest. enq = rel @ rest \<and> visibility_inv latency enq rest q"
proof (induction rule: visibility_run.induct)
  case start
  show ?case by (simp add: visibility_inv_def visibility_queue_new_def)
next
  case (enqueue enq rel q t x visible_at q')
  then obtain rest where rest: "enq = rel @ rest" "visibility_inv latency enq rest q" by blast
  from enqueue.hyps(3) obtain n where v: "add_milliseconds t (vq_market_data_latency_ms q) = Ok visible_at"
      and sched: "control_schedule (vq_controls q) visible_at ReleaseObservation
        \<lparr>vo_match_time = t, vo_visible_at = visible_at, vo_observation = x\<rparr> = (Ok n, vq_controls q')"
      and lat: "vq_market_data_latency_ms q' = vq_market_data_latency_ms q"
    by (auto simp: visibility_enqueue_def split: result.splits prod.splits)
  have "visibility_inv latency (enq @ [(t, x)]) (rest @ [(t, x)]) q'"
    using rest(2) cq.schedule_Ok [OF _ sched] lat add_milliseconds_Ok [OF v] enqueue.hyps(2)
    by (auto simp: visibility_inv_def item_of_def sorted_append)
  then show ?case using rest(1) by auto
next
  case (release enq rel q b popped q')
  then obtain rest where rest: "enq = rel @ rest" "visibility_inv latency enq rest q" by blast
  note step = visibility_release [OF rest(2) [unfolded rest(1)] release.hyps(2)]
  show ?case
    using step(1,3) rest(1)
    by (intro exI [of _ "dropWhile (\<lambda>e. fst e + int (latency * 1000) \<le> b) rest"]) simp
qed

text \<open>
  C29: every observation is released once, in order, and exactly when it is visible. In any run that
  enqueues observations in match time order and releases at arbitrary boundaries in between, releasing
  through a boundary continues the sequence of enqueued observations where the earlier releases stopped;
  what is released was matched at least the latency before the boundary; and every observation matched
  that long before it has then been released.
\<close>

theorem observations_released_when_visible:
  assumes run: "visibility_run latency enq rel q" and pop: "visibility_pop_through q b = (popped, q')"
  shows "(\<exists>later. enq = rel @ map delivered popped @ later) \<and>
    (\<forall>c \<in> set popped. sc_at c = vo_match_time (sc_payload c) + int (latency * 1000) \<and> sc_at c \<le> b) \<and>
    (\<forall>e \<in> set enq. fst e + int (latency * 1000) \<le> b \<longrightarrow> e \<in> set (rel @ map delivered popped))"
proof (intro conjI)
  obtain rest where rest: "enq = rel @ rest" "visibility_inv latency enq rest q"
    using visibility_run_inv [OF run] by blast
  note step = visibility_release [OF rest(2) [unfolded rest(1)] pop]
  let ?visible = "\<lambda>e. fst e + int (latency * 1000) \<le> b"
  show "\<exists>later. enq = rel @ map delivered popped @ later"
    using step(1) rest(1) by (metis takeWhile_dropWhile_id)
  show "\<forall>c \<in> set popped. sc_at c = vo_match_time (sc_payload c) + int (latency * 1000) \<and> sc_at c \<le> b"
    by (rule step(2))
  have "sorted (map fst rest)" using rest by (simp add: visibility_inv_def sorted_append)
  then have "takeWhile ?visible rest = filter ?visible rest"
    by (intro takeWhile_eq_filter_sorted [where f = fst]) simp_all
  then show "\<forall>e \<in> set enq. fst e + int (latency * 1000) \<le> b \<longrightarrow> e \<in> set (rel @ map delivered popped)"
    using step(1) rest(1) by auto
qed

definition sample_visibility :: "nat visibility_queue" where
  "sample_visibility = snd (visibility_enqueue (snd (visibility_enqueue (visibility_queue_new 2) 5 50)) 3000 51)"

lemma sample_visibility_run: "visibility_run 2 [(5, 50), (3000, 51)] [] sample_visibility"
proof -
  have "visibility_run 2 ([] @ [(5, 50)]) [] (snd (visibility_enqueue (visibility_queue_new 2) 5 (50 :: nat)))"
    by (rule visibility_run.enqueue [OF visibility_run.start])
      (auto simp: visibility_enqueue_def visibility_queue_new_def add_milliseconds_def checked_u64_def in_u64_def
        checked_i64_def in_i64_def control_schedule_def control_queue_new_def)
  then have "visibility_run 2 ([(5, 50)] @ [(3000, 51)]) [] sample_visibility"
    unfolding sample_visibility_def append_Nil
    by (rule visibility_run.enqueue)
      (auto simp: visibility_enqueue_def visibility_queue_new_def add_milliseconds_def checked_u64_def in_u64_def
        checked_i64_def in_i64_def control_schedule_def control_queue_new_def)
  then show ?thesis by simp
qed

theorem observations_released_when_visible_witness:
  "case visibility_pop_through sample_visibility 2500 of
     (popped, q) \<Rightarrow> map sc_at popped = [2005] \<and> (\<exists>later. [(5, 50), (3000, 51)] = map delivered popped @ later)"
proof -
  obtain popped q where pop: "visibility_pop_through sample_visibility 2500 = (popped, q)" by (rule prod.exhaust)
  have "map sc_at popped = [2005]"
    using pop by (auto simp: visibility_pop_through_def control_pop_through_def control_pop_while_def sample_visibility_def
        visibility_enqueue_def visibility_queue_new_def add_milliseconds_def checked_u64_def in_u64_def
        checked_i64_def in_i64_def control_schedule_def control_queue_new_def split: prod.splits)
  then show ?thesis
    using pop conjunct1 [OF observations_released_when_visible [OF sample_visibility_run pop]] by simp
qed

end
