(* ===== verification/ScheduledRun.thy ===== *)
theory ScheduledRun
  imports Backtest ScheduledSound Control
begin

text \<open>
  The scheduled backtest of \<open>crates/osmium-runner/src/scheduled.rs\<close>. Committed events are buffered and
  released to the strategy when the market-data latency has passed; releases, timers, activations,
  expiries, allocations and feedback are controls of one control-time queue, which the coordinator
  processes between the events of the merge. The loops over the queue may run forever when a strategy
  keeps arming timers, so they are partial functions into \<open>option\<close>. This theory holds the model; what a run
  guarantees is shown in \<open>ScheduledRunSound\<close>, \<open>ScheduledView\<close> and \<open>ScheduledReturns\<close>.
\<close>

section \<open>Model\<close>

subsection \<open>State of the coordinator\<close>

record buffered_observation =
  ob_canonical_event :: bytes
  ob_run_event_ordinal :: nat
  ob_event_fingerprint :: bytes
  ob_instrument_state_version :: nat
  ob_trading :: trading_context
  ob_visible_at :: int

datatype backtest_control =
    ControlRelease buffered_observation
  | ControlExpire order_id
  | ControlActivate order_id
  | ControlAllocateVisibleDepth instrument_id
  | ControlAllocateAuctionMatch auction_match_evidence
  | ControlStrategyTimer strategy_timer_request
  | ControlDeliverFeedback "order_feedback list" "execution_fill_feedback list" bytes

datatype scheduled_message = ScheduledFailed scheduled_error | MultipleClearingPrices

type_synonym scheduled_backtest_error = "scheduled_message multi_backtest_error"

text \<open>What stays fixed during a run, and what the coordinator changes.\<close>

record 's run_parameters =
  rn_hash :: "bytes \<Rightarrow> bytes"
  rn_strategy :: "'s strategy"
  rn_schedule :: multi_session_schedule
  rn_market_data_latency_ms :: nat
  rn_allow_midpoint_fallback :: bool

record 's scheduled_coordinator =
  kc_strategy :: 's
  kc_simulator :: scheduled_simulator
  kc_ledger :: multi_ledger
  kc_output :: strategy_output
  kc_controls :: "backtest_control control_time_queue"
  kc_timer_generations :: "(strategy_timer_id, nat) bmap"
  kc_visible_core :: replay_core
  kc_last_visible_marks :: "(instrument_id, decimal) bmap"
  kc_open_positions :: "(instrument_id, unit) bmap"

subsection \<open>Calls into the simulator and the queue\<close>

definition simulation_failed :: "scheduled_error \<Rightarrow> scheduled_backtest_error" where
  "simulation_failed err = (if err = Panicked then BacktestPanicked else BacktestSimulation (ScheduledFailed err))"

definition sim_call ::
  "('a, scheduled_error) result \<times> scheduled_simulator \<Rightarrow> 's scheduled_coordinator \<Rightarrow>
   ('a \<times> 's scheduled_coordinator, scheduled_backtest_error) result" where
  "sim_call out k = rbind (map_err simulation_failed (fst out)) (\<lambda>x. Ok (x, k\<lparr>kc_simulator := snd out\<rparr>))"

definition schedule_control ::
  "int \<Rightarrow> control_phase \<Rightarrow> backtest_control \<Rightarrow> 's scheduled_coordinator \<Rightarrow>
   (nat \<times> 's scheduled_coordinator, scheduled_backtest_error) result" where
  "schedule_control t phase payload k =
     (case control_schedule (kc_controls k) t phase payload of
        (Err err, q) \<Rightarrow> Err BacktestSequence
      | (Ok sequence, q) \<Rightarrow> Ok (sequence, k\<lparr>kc_controls := q\<rparr>))"

definition schedule_feedback ::
  "(bytes \<Rightarrow> bytes) \<Rightarrow> int \<Rightarrow> order_feedback list \<Rightarrow> execution_fill_feedback list \<Rightarrow> bytes \<Rightarrow> nat \<Rightarrow> 's scheduled_coordinator \<Rightarrow>
   ('s scheduled_coordinator, scheduled_backtest_error) result" where
  "schedule_feedback hash t feedback execution_fills order_identity parent_sequence k =
     (let identity = as_bytes ''OSCF'' @ order_identity @ be_bytes 8 parent_sequence in
      rbind (schedule_control t FeedbackPhase (ControlDeliverFeedback feedback execution_fills (hash identity)) k) (\<lambda>(_, k'). Ok k'))"

subsection \<open>Settlement\<close>

definition refresh_open_position ::
  "instrument_id \<Rightarrow> 's scheduled_coordinator \<Rightarrow> ('s scheduled_coordinator, scheduled_backtest_error) result" where
  "refresh_open_position instrument k =
     rbind (ok_or (bm_get (ml_ledgers (kc_ledger k)) instrument) BacktestDeclaration) (\<lambda>entry.
       Ok (k\<lparr>kc_open_positions :=
             (if ld_position (il_ledger entry) \<noteq> 0 then bm_insert instrument () (kc_open_positions k)
              else bm_remove instrument (kc_open_positions k))\<rparr>))"

definition settle_activations ::
  "(bytes \<Rightarrow> bytes) \<Rightarrow> instrument_id \<Rightarrow> nat \<Rightarrow> scheduled_activation list \<Rightarrow> int \<Rightarrow> nat \<Rightarrow> 's scheduled_coordinator \<Rightarrow>
   ('s scheduled_coordinator, scheduled_backtest_error) result" where
  "settle_activations hash instrument previous activations feedback_at control_sequence k =
     rbind (book_fills instrument previous (ds_fills (kc_simulator k)) (kc_ledger k)) (\<lambda>ledger.
     rbind (refresh_open_position instrument (k\<lparr>kc_ledger := ledger\<rparr>)) (\<lambda>k'.
       rfold (\<lambda>k a. schedule_feedback hash feedback_at [sa_feedback a] (sa_execution_fills a) (sa_order_id a) control_sequence k)
         k' activations))"

definition current_equity :: "bool \<Rightarrow> 's scheduled_coordinator \<Rightarrow> (decimal, scheduled_backtest_error) result" where
  "current_equity allow_midpoint_fallback k =
     rfold (\<lambda>equity instrument.
       rbind (ok_or (case Option.bind (bm_get (co_states (kc_visible_core k)) instrument) (\<lambda>st. final_mark st allow_midpoint_fallback) of
                       Some m \<Rightarrow> Some m | None \<Rightarrow> bm_get (kc_last_visible_marks k) instrument)
               (BacktestAccounting (MissingEquityMark instrument))) (\<lambda>m.
       rbind (map_err (\<lambda>err. BacktestAccounting (AccountingFailed err)) (mark_to_market_adjustment (kc_ledger k) instrument m)) (\<lambda>adjustment.
         map_err (\<lambda>_. BacktestAccounting EquityOverflow) (decimal_checked_add equity adjustment))))
       (ml_cash (kc_ledger k)) (bm_keys (kc_open_positions k))"

definition charge_strategy ::
  "(bytes \<Rightarrow> bytes) \<Rightarrow> int \<Rightarrow> bytes \<Rightarrow> (nat \<times> cash_charge_request) list \<Rightarrow> 's scheduled_coordinator \<Rightarrow>
   ('s scheduled_coordinator, scheduled_backtest_error) result" where
  "charge_strategy hash t origin_identity charges k =
     rbind (rmap (\<lambda>(output_sequence, charge).
              map_err (\<lambda>err. BacktestAccounting (AccountingFailed err))
                (cash_charge_new (hash (as_bytes ''OSCC'' @ origin_identity @ be_bytes 4 output_sequence)) t
                   (cq_amount charge) (cq_category charge) (cq_reference charge))) charges) (\<lambda>records.
     rbind (map_err (\<lambda>err. BacktestAccounting (AccountingFailed err)) (apply_cash_charges (kc_ledger k) records)) (\<lambda>ledger.
       Ok (k\<lparr>kc_ledger := ledger\<rparr>)))"

subsection \<open>What a callback asks for\<close>

definition schedule_timers ::
  "int \<Rightarrow> strategy_timer_request list \<Rightarrow> 's scheduled_coordinator \<Rightarrow> ('s scheduled_coordinator, scheduled_backtest_error) result" where
  "schedule_timers decision_time timers k =
     rfold (\<lambda>k request.
       if tq_fire_at request < decision_time then Err (BacktestStrategy (BacktestText (timer_error_message FireBeforeDecision)))
       else rbind (schedule_control (tq_fire_at request) StrategyDecision (ControlStrategyTimer request) k) (\<lambda>(sequence, k').
              Ok (k'\<lparr>kc_timer_generations := bm_insert (tq_timer_id request) sequence (kc_timer_generations k')\<rparr>)))
       k timers"

definition submit_request ::
  "(bytes \<Rightarrow> bytes) \<Rightarrow> string \<Rightarrow> int \<Rightarrow> bytes \<Rightarrow> nat \<Rightarrow> nat \<Rightarrow> scheduled_order_request \<Rightarrow> 's scheduled_coordinator \<Rightarrow>
   ('s scheduled_coordinator, scheduled_backtest_error) result" where
  "submit_request hash strategy_id decision_time origin_identity output_sequence control_sequence request k =
     (if \<not> in_u32 output_sequence then Err BacktestSequence
      else rbind (sim_call (scheduled_submit hash (kc_simulator k) strategy_id
               \<lparr>sx_origin_identity = origin_identity, sx_decision_time = decision_time\<rparr> output_sequence request) k) (\<lambda>(submission, k1).
      rbind (case sr_expire_at request of
               None \<Rightarrow> Ok k1
             | Some expiry \<Rightarrow> rbind (schedule_control expiry OrderExpiry (ControlExpire (ss_order_id submission)) k1) (\<lambda>(_, k'). Ok k')) (\<lambda>k2.
      rbind (schedule_control (sr_activate_at request) OrderActivation (ControlActivate (ss_order_id submission)) k2) (\<lambda>(_, k3).
        schedule_feedback hash decision_time
          ((case ss_replaced submission of None \<Rightarrow> [] | Some replaced \<Rightarrow> [replaced]) @ [Accepted (ss_order_id submission)]) []
          (ss_order_id submission) control_sequence k3))))"

fun submit_requests ::
  "(bytes \<Rightarrow> bytes) \<Rightarrow> string \<Rightarrow> int \<Rightarrow> bytes \<Rightarrow> nat \<Rightarrow> nat \<Rightarrow> scheduled_order_request list \<Rightarrow> 's scheduled_coordinator \<Rightarrow>
   ('s scheduled_coordinator, scheduled_backtest_error) result" where
  "submit_requests hash strategy_id decision_time origin_identity index control_sequence [] k = Ok k"
| "submit_requests hash strategy_id decision_time origin_identity index control_sequence (request # requests) k =
     rbind (submit_request hash strategy_id decision_time origin_identity (index + 1) control_sequence request k)
       (submit_requests hash strategy_id decision_time origin_identity (index + 1) control_sequence requests)"

text \<open>
  The end every callback shares: its outcome, its records, then timers, charges and orders, in this order.
  \<open>records\<close> numbers what is left of the sink, \<open>origin_identity\<close> names the callback.
\<close>

definition commit_callback ::
  "'s run_parameters \<Rightarrow> callback_end \<times> strategy_output_sink \<times> 's \<Rightarrow>
   (strategy_output_sink \<Rightarrow> (strategy_output_record list, strategy_output_error) result) \<Rightarrow> int \<Rightarrow> bytes \<Rightarrow> nat \<Rightarrow>
   's scheduled_coordinator \<Rightarrow> ('s scheduled_coordinator, scheduled_backtest_error) result" where
  "commit_callback env called records t origin_identity control_sequence k =
     (case called of (ended, sink, s) \<Rightarrow>
        rbind (strategy_ended ended) (\<lambda>_.
        let requests = fst (take_scheduled_orders sink); sink1 = snd (take_scheduled_orders sink);
            timers = fst (take_timers sink1); sink2 = snd (take_timers sink1) in
        rbind (map_err (\<lambda>err. BacktestStrategy (BacktestOutputError err)) (charges_with_sequences sink2)) (\<lambda>charges.
        rbind (map_err (\<lambda>err. BacktestStrategy (BacktestOutputError err)) (records sink2)) (\<lambda>recs.
        rbind (schedule_timers t timers (k\<lparr>kc_strategy := s, kc_output := output_extend (kc_output k) recs\<rparr>)) (\<lambda>k1.
        rbind (charge_strategy (rn_hash env) t origin_identity charges k1) (\<lambda>k2.
          submit_requests (rn_hash env) (id_strategy_id (sy_identity (rn_strategy env) s)) t origin_identity 0 control_sequence requests k2))))))"

subsection \<open>Committed events\<close>

definition auction_clearing_price :: "domain_event \<Rightarrow> (price option, scheduled_backtest_error) result" where
  "auction_clearing_price e =
     (case ev_payload e of
        PQuoteSnapshot snapshot \<Rightarrow> Ok (map_option ot_price (as_set (qs_trade snapshot)))
      | PTradeBatch batch \<Rightarrow>
          (case tb_trades batch of
             [] \<Rightarrow> Ok None
           | first # rest \<Rightarrow>
               if list_ex (\<lambda>trade. ot_price trade \<noteq> ot_price first) (tb_trades batch)
               then Err (BacktestSimulation MultipleClearingPrices) else Ok (Some (ot_price first)))
      | _ \<Rightarrow> Ok None)"

definition instrument_needs_auction_match :: "scheduled_simulator \<Rightarrow> instrument_id \<Rightarrow> int \<Rightarrow> bool" where
  "instrument_needs_auction_match s instrument match_time \<longleftrightarrow>
     list_ex (\<lambda>ord. oi_instrument (sr_intent (sd_request ord)) = instrument \<and>
       sr_execution_policy (sd_request ord) = AuctionCrossAtFirstMatchV1 \<and>
       sr_activate_at (sd_request ord) \<le> match_time \<and> sd_status ord = SActive) (ds_orders s)"

definition schedule_auction_match ::
  "domain_event \<Rightarrow> event_occurrence \<Rightarrow> trading_context \<Rightarrow> int \<Rightarrow> 's scheduled_coordinator \<Rightarrow>
   ('s scheduled_coordinator, scheduled_backtest_error) result" where
  "schedule_auction_match e occ trading visible_at k =
     (if tc_matching trading \<noteq> Enabled MethodCallAuction then Ok k
      else rbind (auction_clearing_price e) (\<lambda>clearing.
        case clearing of
          None \<Rightarrow> Ok k
        | Some clearing_price \<Rightarrow>
            rbind (map_err simulation_failed (auction_match_evidence_new
                \<lparr>ae_instrument = ev_instrument e, ae_clearing_price = clearing_price, ae_match_time = ev_match_time e,
                 ae_visible_at = visible_at, ae_run_event_ordinal = eo_run_event_ordinal occ\<rparr> (tc_matching trading))) (\<lambda>evidence.
              if instrument_needs_auction_match (kc_simulator k) (ev_instrument e) (ev_match_time e)
              then rbind (schedule_control (ev_match_time e) FillAllocation (ControlAllocateAuctionMatch evidence) k) (\<lambda>(_, k'). Ok k')
              else Ok k)))"

definition buffer_committed ::
  "'s run_parameters \<Rightarrow> replay_core \<Rightarrow> domain_event \<Rightarrow> event_occurrence \<Rightarrow> 's scheduled_coordinator \<Rightarrow>
   ('s scheduled_coordinator, scheduled_backtest_error) result" where
  "buffer_committed env core e occ k =
     rbind (ok_or (segment_for (rn_schedule env) (ev_instrument e) (ev_match_time e)) (BacktestSchedule ''event is outside session schedule'')) (\<lambda>segment.
     rbind (ok_or (bm_get (co_states core) (ev_instrument e)) BacktestDeclaration) (\<lambda>state.
     rbind (map_err BacktestContext (evaluate_context e occ state segment)) (\<lambda>trading.
     rbind (map_err (\<lambda>_. BacktestSequence) (add_milliseconds (ev_match_time e) (rn_market_data_latency_ms env))) (\<lambda>visible_at.
     rbind (schedule_auction_match e occ trading visible_at k) (\<lambda>k1.
     rbind (map_err (\<lambda>err. BacktestReplay (BacktestEncodingError err)) (to_canonical_bytes e)) (\<lambda>canonical.
     rbind (schedule_control visible_at ReleaseObservation
         (ControlRelease \<lparr>ob_canonical_event = canonical, ob_run_event_ordinal = eo_run_event_ordinal occ,
            ob_event_fingerprint = eo_event_fingerprint occ, ob_instrument_state_version = eo_instrument_state_version occ,
            ob_trading = trading, ob_visible_at = visible_at\<rparr>) k1) (\<lambda>(_, k2). Ok k2)))))))"

subsection \<open>Release of an observation\<close>

definition instrument_needs_allocation :: "scheduled_simulator \<Rightarrow> instrument_id \<Rightarrow> int \<Rightarrow> bool" where
  "instrument_needs_allocation s instrument t \<longleftrightarrow>
     list_ex (\<lambda>ord. oi_instrument (sr_intent (sd_request ord)) = instrument \<and>
       sr_execution_policy (sd_request ord) = VisibleDepthUntilExpiryV1 \<and>
       (sd_status ord = SActive \<or> (sd_status ord = SScheduled \<and> sr_activate_at (sd_request ord) \<le> t))) (ds_orders s)"

text \<open>A volatility interruption cancels the active market orders of its instrument.\<close>

definition interrupt_market_orders ::
  "(bytes \<Rightarrow> bytes) \<Rightarrow> domain_event \<Rightarrow> event_occurrence \<Rightarrow> buffered_observation \<Rightarrow> nat \<Rightarrow> 's scheduled_coordinator \<Rightarrow>
   ('s scheduled_coordinator, scheduled_backtest_error) result" where
  "interrupt_market_orders hash e occ observation control_sequence k =
     (if (case tc_market_signal (ob_trading observation) of
            Some (AuctionCollecting auction) \<Rightarrow> ao_purpose auction = EvKnown VolatilityInterruption | _ \<Rightarrow> False)
      then rbind (sim_call (cancel_for_volatility_interruption (kc_simulator k) (ev_instrument e)) k) (\<lambda>(feedback, k').
             if feedback = [] then Ok k'
             else schedule_feedback hash (ob_visible_at observation) feedback [] (eo_event_fingerprint occ) control_sequence k')
      else Ok k)"

text \<open>The mark and the book an observation makes known; the flag tells whether a book was published.\<close>

definition publish_known ::
  "'s run_parameters \<Rightarrow> domain_event \<Rightarrow> market_state \<Rightarrow> buffered_observation \<Rightarrow> 's scheduled_coordinator \<Rightarrow>
   (bool \<times> 's scheduled_coordinator, scheduled_backtest_error) result" where
  "publish_known env e state observation k =
     (let k' = (case final_mark state (rn_allow_midpoint_fallback env) of
                  None \<Rightarrow> k
                | Some m \<Rightarrow> k\<lparr>kc_last_visible_marks := bm_insert (ev_instrument e) m (kc_last_visible_marks k)\<rparr>) in
      if (case ev_payload e of PBookSnapshot _ \<Rightarrow> True | PQuoteSnapshot _ \<Rightarrow> True | _ \<Rightarrow> False)
      then (case known (st_book state) of
              None \<Rightarrow> Ok (False, k')
            | Some book \<Rightarrow>
                rbind (map_err simulation_failed (visible_book_evidence_new
                    \<lparr>be_instrument = ev_instrument e, be_book = book, be_match_time = ev_match_time e,
                     be_visible_at = ob_visible_at observation, be_matching = tc_matching (ob_trading observation),
                     be_new_order_entry = tc_new_order_entry (ob_trading observation)\<rparr>)) (\<lambda>evidence.
                rbind (sim_call (publish_visible_book (kc_simulator k') evidence) k') (\<lambda>(_, k''). Ok (True, k''))))
      else Ok (False, k'))"

definition publish_observation ::
  "'s run_parameters \<Rightarrow> domain_event \<Rightarrow> buffered_observation \<Rightarrow> 's scheduled_coordinator \<Rightarrow>
   (market_state \<times> bool \<times> 's scheduled_coordinator, scheduled_backtest_error) result" where
  "publish_observation env e observation k =
     rbind (map_err simulation_failed (visible_trading_state_new
         \<lparr>te_instrument = ev_instrument e, te_match_time = ev_match_time e, te_visible_at = ob_visible_at observation,
          te_matching = tc_matching (ob_trading observation), te_new_order_entry = tc_new_order_entry (ob_trading observation)\<rparr>)) (\<lambda>evidence.
     rbind (sim_call (publish_visible_trading_state (kc_simulator k) evidence) k) (\<lambda>(_, k1).
     rbind (ok_or (bm_get (co_states (kc_visible_core k1)) (ev_instrument e)) BacktestDeclaration) (\<lambda>state.
     rbind (publish_known env e state observation k1) (\<lambda>(published_book, k2). Ok (state, published_book, k2)))))"

definition release_observation ::
  "'s run_parameters \<Rightarrow> buffered_observation \<Rightarrow> nat \<Rightarrow> 's scheduled_coordinator \<Rightarrow>
   ('s scheduled_coordinator, scheduled_backtest_error) result" where
  "release_observation env observation control_sequence k =
     rbind (map_err (\<lambda>err. BacktestReplay (BacktestDecodingError err)) (from_canonical_bytes (ob_canonical_event observation))) (\<lambda>e.
     case apply_ordered (rn_hash env) (kc_visible_core k) e of
       (Err err, _) \<Rightarrow> Err (BacktestReplay (BacktestReplayError err))
     | (Ok cm, visible_core) \<Rightarrow>
         let occ = cc_occurrence cm; k0 = k\<lparr>kc_visible_core := visible_core\<rparr> in
         if eo_run_event_ordinal occ \<noteq> ob_run_event_ordinal observation \<or>
            eo_event_fingerprint occ \<noteq> ob_event_fingerprint observation \<or>
            eo_instrument_state_version occ \<noteq> ob_instrument_state_version observation
         then Err (BacktestReplay BacktestVisibleMismatch)
         else
           rbind (interrupt_market_orders (rn_hash env) e occ observation control_sequence k0) (\<lambda>k1.
           rbind (publish_observation env e observation k1) (\<lambda>(state, published_book, k2).
           rbind (commit_callback env
               (sy_on_event (rn_strategy env)
                  (event_context_visible occ e state (co_states visible_core) (ob_trading observation) (ob_visible_at observation))
                  sink_with_scheduled_orders (kc_strategy k2))
               (\<lambda>sink. into_event_records sink occ) (ob_visible_at observation) (eo_event_fingerprint occ) control_sequence k2) (\<lambda>k3.
             if published_book \<and> instrument_needs_allocation (kc_simulator k3) (ev_instrument e) (ob_visible_at observation)
             then rbind (schedule_control (ob_visible_at observation) FillAllocation (ControlAllocateVisibleDepth (ev_instrument e)) k3)
                    (\<lambda>(_, k4). Ok k4)
             else Ok k3))))"

subsection \<open>Controls\<close>

definition deliver_feedback ::
  "'s run_parameters \<Rightarrow> int \<Rightarrow> nat \<Rightarrow> bytes \<Rightarrow> order_feedback list \<Rightarrow> execution_fill_feedback list \<Rightarrow> 's scheduled_coordinator \<Rightarrow>
   ('s scheduled_coordinator, scheduled_backtest_error) result" where
  "deliver_feedback env t control_sequence origin_identity feedback execution_fills k =
     commit_callback env
       (sy_on_feedback (rn_strategy env) \<lparr>fx_feedback = feedback, fx_execution_fills = execution_fills\<rparr>
          sink_with_scheduled_orders (kc_strategy k))
       (\<lambda>sink. into_control_records sink control_sequence t) t origin_identity control_sequence k"

definition fire_timer ::
  "'s run_parameters \<Rightarrow> strategy_timer_request \<Rightarrow> nat \<Rightarrow> 's scheduled_coordinator \<Rightarrow>
   ('s scheduled_coordinator, scheduled_backtest_error) result" where
  "fire_timer env request control_sequence k =
     (let t = tq_fire_at request;
          identity = as_bytes ''OSTM'' @ as_bytes (tq_timer_id request) @ be_bytes 8 control_sequence in
      rbind (current_equity (rn_allow_midpoint_fallback env) k) (\<lambda>equity.
        commit_callback env
          (sy_on_timer (rn_strategy env) \<lparr>tx_timer_id = tq_timer_id request, tx_fire_at = t, tx_current_equity = equity\<rparr>
             sink_with_scheduled_orders (kc_strategy k))
          (\<lambda>sink. into_control_records sink control_sequence t) t (rn_hash env identity) control_sequence k))"

definition order_is_scheduled :: "scheduled_simulator \<Rightarrow> order_id \<Rightarrow> bool" where
  "order_is_scheduled s oid \<longleftrightarrow> list_ex (\<lambda>ord. sd_id ord = oid \<and> sd_status ord = SScheduled) (ds_orders s)"

definition order_can_expire :: "scheduled_simulator \<Rightarrow> order_id \<Rightarrow> bool" where
  "order_can_expire s oid \<longleftrightarrow>
     list_ex (\<lambda>ord. sd_id ord = oid \<and> sd_status ord \<in> {SScheduled, SActive, SPartiallyFilled, SMatchAttempted}) (ds_orders s)"

definition activate_order ::
  "'s run_parameters \<Rightarrow> order_id \<Rightarrow> nat \<Rightarrow> int \<Rightarrow> 's scheduled_coordinator \<Rightarrow>
   ('s scheduled_coordinator, scheduled_backtest_error) result" where
  "activate_order env oid sequence t k =
     (if \<not> order_is_scheduled (kc_simulator k) oid then Ok k
      else let previous = length (ds_fills (kc_simulator k)) in
        rbind (sim_call (scheduled_activate (rn_hash env) (kc_simulator k) oid sequence t) k) (\<lambda>(activation, k1).
          case List.find (\<lambda>ord. sd_id ord = oid) (ds_orders (kc_simulator k1)) of
            None \<Rightarrow> Err BacktestPanicked
          | Some ord \<Rightarrow>
              settle_activations (rn_hash env) (oi_instrument (sr_intent (sd_request ord))) previous [activation] t sequence k1))"

definition process_control ::
  "'s run_parameters \<Rightarrow> 's scheduled_coordinator \<Rightarrow> backtest_control scheduled_control \<Rightarrow>
   ('s scheduled_coordinator, scheduled_backtest_error) result" where
  "process_control env k control =
     (let t = sc_at control; sequence = sc_sequence control; previous = length (ds_fills (kc_simulator k)) in
      case sc_payload control of
        ControlRelease observation \<Rightarrow> release_observation env observation sequence k
      | ControlExpire oid \<Rightarrow>
          if order_can_expire (kc_simulator k) oid
          then rbind (sim_call (scheduled_expire (kc_simulator k) oid t) k) (\<lambda>(feedback, k1).
                 schedule_feedback (rn_hash env) t [feedback] [] oid sequence k1)
          else Ok k
      | ControlActivate oid \<Rightarrow> activate_order env oid sequence t k
      | ControlAllocateVisibleDepth instrument \<Rightarrow>
          rbind (sim_call (evaluate_active (rn_hash env) (kc_simulator k) instrument sequence t) k) (\<lambda>(results, k1).
            settle_activations (rn_hash env) instrument previous results t sequence k1)
      | ControlAllocateAuctionMatch ev \<Rightarrow>
          rbind (sim_call (evaluate_auction_match (rn_hash env) (kc_simulator k) ev) k) (\<lambda>(results, k1).
            settle_activations (rn_hash env) (ae_instrument ev) previous results (ae_visible_at ev) sequence k1)
      | ControlStrategyTimer request \<Rightarrow>
          if bm_get (kc_timer_generations k) (tq_timer_id request) \<noteq> Some sequence then Ok k
          else fire_timer env request sequence k
      | ControlDeliverFeedback feedback execution_fills origin_identity \<Rightarrow>
          deliver_feedback env t sequence origin_identity feedback execution_fills k)"

subsection \<open>Loops over the control queue\<close>

partial_function (option) process_before ::
  "'s run_parameters \<Rightarrow> int \<Rightarrow> 's scheduled_coordinator \<Rightarrow> ('s scheduled_coordinator, scheduled_backtest_error) result option" where
  "process_before env boundary k =
     (if (case control_next_time (kc_controls k) of None \<Rightarrow> False | Some t \<Rightarrow> t < boundary)
      then (case control_pop_before (kc_controls k) boundary of (popped, q) \<Rightarrow>
              (case rfold (process_control env) (k\<lparr>kc_controls := q\<rparr>) popped of
                 Err err \<Rightarrow> Some (Err err)
               | Ok k' \<Rightarrow> process_before env boundary k'))
      else Some (Ok k))"

partial_function (option) process_at ::
  "'s run_parameters \<Rightarrow> int \<Rightarrow> 's scheduled_coordinator \<Rightarrow> ('s scheduled_coordinator, scheduled_backtest_error) result option" where
  "process_at env t k =
     (if control_next_time (kc_controls k) = Some t
      then (case control_pop_at (kc_controls k) t of (popped, q) \<Rightarrow>
              (case rfold (process_control env) (k\<lparr>kc_controls := q\<rparr>) popped of
                 Err err \<Rightarrow> Some (Err err)
               | Ok k' \<Rightarrow> process_at env t k'))
      else Some (Ok k))"

partial_function (option) drain ::
  "'s run_parameters \<Rightarrow> 's scheduled_coordinator \<Rightarrow> ('s scheduled_coordinator, scheduled_backtest_error) result option" where
  "drain env k =
     (case control_next_time (kc_controls k) of
        None \<Rightarrow> Some (Ok k)
      | Some t \<Rightarrow>
          Option.bind (process_at env t k) (\<lambda>r.
            case r of Err err \<Rightarrow> Some (Err err) | Ok k' \<Rightarrow> drain env k'))"

subsection \<open>The run\<close>

definition check_scheduled_binding ::
  "replay_core \<Rightarrow> multi_session_schedule \<Rightarrow> replay_stream_binding \<Rightarrow> (unit, scheduled_backtest_error) result" where
  "check_scheduled_binding core schedule b =
     rbind (ok_or (bm_get (co_states core) (rb_instrument b)) BacktestDeclaration) (\<lambda>state.
       if st_trading_date state \<noteq> rb_trading_date b \<and>
          \<not> (case bm_get schedule (rb_instrument b) of
                None \<Rightarrow> False
              | Some segments \<Rightarrow> list_ex (\<lambda>segment. sg_trading_date segment = rb_trading_date b) segments)
       then Err (BacktestSchedule ''replay binding trading date is absent from schedule'') else Ok ())"

fun open_scheduled_streams ::
  "replay_core \<Rightarrow> multi_session_schedule \<Rightarrow> 'f stream_factory \<Rightarrow> replay_stream_binding list \<Rightarrow> 'f \<Rightarrow>
   (event_stream list, scheduled_backtest_error) result" where
  "open_scheduled_streams core schedule factory [] f = Ok []"
| "open_scheduled_streams core schedule factory (b # bs) f =
     rbind (check_scheduled_binding core schedule b) (\<lambda>_.
     rbind (map_err (\<lambda>m. BacktestReplay (BacktestText m)) (fst (factory b f))) (\<lambda>s.
     rbind (open_scheduled_streams core schedule factory bs (snd (factory b f))) (\<lambda>ss. Ok (s # ss))))"

fun prime_event_heads ::
  "(bytes \<Rightarrow> bytes) \<Rightarrow> nat \<Rightarrow> event_stream list \<Rightarrow>
   (event_stream list \<times> domain_event option list \<times> (ordering_key \<times> nat) list, scheduled_backtest_error) result" where
  "prime_event_heads hash index [] = Ok ([], [], [])"
| "prime_event_heads hash index (s # ss) =
     (case next_event s of
        (Err m, _) \<Rightarrow> Err (BacktestReplay (BacktestText m))
      | (Ok None, s') \<Rightarrow>
          rbind (prime_event_heads hash (Suc index) ss) (\<lambda>(streams, heads, pending).
            Ok (s' # streams, None # heads, pending))
      | (Ok (Some e), s') \<Rightarrow>
          rbind (map_err (\<lambda>err. BacktestReplay (BacktestOrderingError err)) (for_event hash e)) (\<lambda>key.
            rbind (prime_event_heads hash (Suc index) ss) (\<lambda>(streams, heads, pending).
              Ok (s' # streams, Some e # heads, insort (key, index) pending))))"

text \<open>One event of the merge: the controls before it, the event itself, the controls at its time.\<close>

definition coordinate_event ::
  "'s run_parameters \<Rightarrow> domain_event \<Rightarrow> replay_core \<Rightarrow> 's scheduled_coordinator \<Rightarrow>
   (replay_core \<times> 's scheduled_coordinator, scheduled_backtest_error) result option" where
  "coordinate_event env e core k =
     Option.bind (process_before env (ev_match_time e) k) (\<lambda>r.
       case r of
         Err err \<Rightarrow> Some (Err err)
       | Ok k1 \<Rightarrow>
           (case apply_ordered (rn_hash env) core e of
              (Err err, core') \<Rightarrow> Some (Err (BacktestReplay (BacktestReplayError err)))
            | (Ok cm, core') \<Rightarrow>
                (case buffer_committed env core' e (cc_occurrence cm) k1 of
                   Err err \<Rightarrow> Some (Err err)
                 | Ok k2 \<Rightarrow>
                     map_option (\<lambda>r. rbind r (\<lambda>k3. Ok (core', k3)))
                       (process_at env (ok_match_time (eo_ordering_key (cc_occurrence cm))) k2))))"

function scheduled_loop ::
  "'s run_parameters \<Rightarrow> event_stream list \<Rightarrow> domain_event option list \<Rightarrow> (ordering_key \<times> nat) list \<Rightarrow> replay_core \<Rightarrow>
   's scheduled_coordinator \<Rightarrow> (replay_core \<times> 's scheduled_coordinator, scheduled_backtest_error) result option" where
  "scheduled_loop env streams heads [] core k = Some (Ok (core, k))"
| "scheduled_loop env streams heads ((key, i) # pending) core k =
     (if i \<ge> length streams \<or> i \<ge> length heads then Some (Err BacktestPanicked)
      else case heads ! i of
        None \<Rightarrow> Some (Err BacktestPanicked)
      | Some e \<Rightarrow>
          (case coordinate_event env e core k of
             None \<Rightarrow> None
           | Some (Err err) \<Rightarrow> Some (Err err)
           | Some (Ok (core', k')) \<Rightarrow>
               (case streams ! i of
                  [] \<Rightarrow> scheduled_loop env streams (heads[i := None]) pending core' k'
                | Err m # s \<Rightarrow> Some (Err (BacktestReplay (BacktestText m)))
                | Ok next # s \<Rightarrow>
                    (case for_event (rn_hash env) next of
                       Err err \<Rightarrow> Some (Err (BacktestReplay (BacktestOrderingError err)))
                     | Ok key' \<Rightarrow>
                         scheduled_loop env (streams[i := s]) (heads[i := Some next]) (insort (key', i) pending) core' k'))))"
  by pat_completeness auto

termination
  by (relation "measure (\<lambda>(env, streams, heads, pending, core, k). sum_list (map length streams) + length pending)")
    (auto simp: not_le intro: consumed_length)

record completed_scheduled_backtest =
  cs_replay :: "(instrument_id, market_state) bmap \<times> replay_summary"
  cs_strategy_output :: strategy_output
  cs_simulator :: scheduled_simulator
  cs_ledger :: multi_ledger
  cs_performance :: multi_performance_summary

definition finish_scheduled_backtest ::
  "'s run_parameters \<Rightarrow> replay_core \<Rightarrow> 's scheduled_coordinator \<Rightarrow> (completed_scheduled_backtest, scheduled_backtest_error) result" where
  "finish_scheduled_backtest env core k =
     rbind (finalize_strategy (rn_strategy env) core (kc_strategy k) (kc_output k)) (\<lambda>out.
     rbind (map_err (\<lambda>err. BacktestAccounting (AccountingFailed err)) (multi_reconcile (kc_ledger k))) (\<lambda>_.
     rbind (map_err (\<lambda>err. BacktestAccounting (AccountingFailed err))
              (multi_performance (kc_ledger k) (final_marks core (rn_allow_midpoint_fallback env)))) (\<lambda>performance.
     rbind (map_err (\<lambda>err. BacktestReplay (BacktestReplayError err)) (complete_replay (rn_hash env) core)) (\<lambda>replayed.
       Ok \<lparr>cs_replay = replayed, cs_strategy_output = out, cs_simulator = kc_simulator k, cs_ledger = kc_ledger k,
           cs_performance = performance\<rparr>))))"

text \<open>The coordinator a run starts with: nothing scheduled, nothing visible, the open positions of the ledger.\<close>

definition coordinator_new ::
  "'s run_parameters \<Rightarrow> 's \<Rightarrow> replay_core \<Rightarrow> scheduled_simulator \<Rightarrow> multi_ledger \<Rightarrow> 's scheduled_coordinator" where
  "coordinator_new env s visible_core sim ledger =
     \<lparr>kc_strategy = s, kc_simulator = sim, kc_ledger = ledger,
      kc_output = strategy_output_new (sy_identity (rn_strategy env) s) (sy_params_checksum (rn_strategy env) s),
      kc_controls = control_queue_new, kc_timer_generations = [], kc_visible_core = visible_core, kc_last_visible_marks = [],
      kc_open_positions = map (\<lambda>(i, entry). (i, ())) (filter (\<lambda>(i, entry). ld_position (il_ledger entry) \<noteq> 0) (ml_ledgers ledger))\<rparr>"

definition start_scheduled_backtest ::
  "'s run_parameters \<Rightarrow> 'f stream_factory \<Rightarrow> replay_core \<Rightarrow> 's \<Rightarrow> replay_plan \<Rightarrow> 'f \<Rightarrow> scheduled_simulator \<Rightarrow> multi_ledger \<Rightarrow>
   (event_stream list \<times> domain_event option list \<times> (ordering_key \<times> nat) list \<times> 's scheduled_coordinator, scheduled_backtest_error) result" where
  "start_scheduled_backtest env factory core s plan f sim ledger =
     (let declaration = sy_declaration (rn_strategy env) s in
      rbind (check_universes (map st_instrument (bm_values (co_states core)))
               [(''strategy'', sl_universe declaration), (''schedule'', bm_keys (rn_schedule env)),
                (''ledger'', bm_keys (ml_ledgers ledger))]) (\<lambda>_.
      rbind (check_sessions declaration (rn_schedule env)) (\<lambda>_.
      case sy_initialize (rn_strategy env) declaration s of
        (ended, s') \<Rightarrow>
          rbind (strategy_ended ended) (\<lambda>_.
          rbind (open_scheduled_streams core (rn_schedule env) factory (rp_bindings plan) f) (\<lambda>opened.
          rbind (map_err (\<lambda>err. BacktestReplay (BacktestReplayError err)) (fork_unstarted core)) (\<lambda>visible_core.
          rbind (prime_event_heads (rn_hash env) 0 opened) (\<lambda>(streams, heads, pending).
            Ok (streams, heads, pending, coordinator_new env s' visible_core sim ledger))))))))"

definition run_scheduled_multi_backtest ::
  "'s run_parameters \<Rightarrow> 'f stream_factory \<Rightarrow> replay_core \<Rightarrow> 's \<Rightarrow> replay_plan \<Rightarrow> 'f \<Rightarrow> scheduled_simulator \<Rightarrow> multi_ledger \<Rightarrow>
   (completed_scheduled_backtest, scheduled_backtest_error) result option" where
  "run_scheduled_multi_backtest env factory core s plan f sim ledger =
     (case start_scheduled_backtest env factory core s plan f sim ledger of
        Err err \<Rightarrow> Some (Err err)
      | Ok (streams, heads, pending, k) \<Rightarrow>
          (case scheduled_loop env streams heads pending core k of
             None \<Rightarrow> None
           | Some (Err err) \<Rightarrow> Some (Err err)
           | Some (Ok (core', k')) \<Rightarrow>
               map_option (\<lambda>r. rbind r (finish_scheduled_backtest env core')) (drain env k')))"

end
