(* ===== verification/ScheduledRunSound.thy ===== *)
theory ScheduledRunSound
  imports ScheduledRun
begin

text \<open>
  What a scheduled backtest guarantees. The locale \<open>coordinator_step\<close> states which elementary changes the
  coordinator's operations are made of; whatever relation between coordinators those changes respect, the
  processing of every control respects. It is interpreted here for the booking of fills: every fill is
  booked once, to the instrument of its order. The last section lifts what one batch of controls
  establishes to the loops over the control queue.
\<close>

section \<open>Steps of the coordinator\<close>

fun is_release :: "backtest_control \<Rightarrow> bool" where
  "is_release (ControlRelease observation) = True"
| "is_release _ = False"

text \<open>The simulator calls that add no fills.\<close>

inductive quiet_call :: "(bytes \<Rightarrow> bytes) \<Rightarrow> scheduled_simulator \<Rightarrow> scheduled_simulator \<Rightarrow> bool" for hash where
  submit: "scheduled_submit hash s strategy_id ctxt n request = (Ok x, s') \<Longrightarrow> quiet_call hash s s'"
| expire: "scheduled_expire s oid t = (Ok fb, s') \<Longrightarrow> quiet_call hash s s'"
| interrupt: "cancel_for_volatility_interruption s i = (Ok fbs, s') \<Longrightarrow> quiet_call hash s s'"
| publish_state: "publish_visible_trading_state s te = (Ok u, s') \<Longrightarrow> quiet_call hash s s'"
| publish_book: "publish_visible_book s be = (Ok u, s') \<Longrightarrow> quiet_call hash s s'"

text \<open>The calls that fill orders of one instrument.\<close>

inductive filling_call :: "(bytes \<Rightarrow> bytes) \<Rightarrow> instrument_id \<Rightarrow> scheduled_simulator \<Rightarrow> scheduled_simulator \<Rightarrow> bool" for hash where
  activate: "scheduled_activate hash s oid n t = (Ok a, s') \<Longrightarrow> find (\<lambda>ord. sd_id ord = oid) (ds_orders s') = Some ord \<Longrightarrow>
    filling_call hash (oi_instrument (sr_intent (sd_request ord))) s s'"
| allocate: "evaluate_active hash s i n t = (Ok as, s') \<Longrightarrow> filling_call hash i s s'"
| auction: "evaluate_auction_match hash s ev = (Ok as, s') \<Longrightarrow> filling_call hash (ae_instrument ev) s s'"

lemma schedule_control_Ok:
  "schedule_control t phase payload k = Ok (n, k') \<longleftrightarrow>
     (\<exists>q. control_schedule (kc_controls k) t phase payload = (Ok n, q) \<and> k' = k\<lparr>kc_controls := q\<rparr>)"
  by (auto simp: schedule_control_def split: prod.splits result.splits)

locale coordinator_step =
  fixes R :: "'s scheduled_coordinator \<Rightarrow> 's scheduled_coordinator \<Rightarrow> bool" and env :: "'s run_parameters"
  assumes step_refl: "R k k"
    and step_trans: "R k k' \<Longrightarrow> R k' k'' \<Longrightarrow> R k k''"
    and step_schedule: "control_schedule (kc_controls k) t phase payload = (Ok n, q) \<Longrightarrow> \<not> is_release payload \<Longrightarrow>
      R k (k\<lparr>kc_controls := q\<rparr>)"
    and step_strategy: "R k (k\<lparr>kc_strategy := s, kc_output := out\<rparr>)"
    and step_timers: "R k (k\<lparr>kc_timer_generations := g\<rparr>)"
    and step_marks: "R k (k\<lparr>kc_last_visible_marks := ms\<rparr>)"
    and step_quiet: "quiet_call (rn_hash env) (kc_simulator k) sim \<Longrightarrow> R k (k\<lparr>kc_simulator := sim\<rparr>)"
    and step_charges: "apply_cash_charges (kc_ledger k) cs = Ok ledger \<Longrightarrow> R k (k\<lparr>kc_ledger := ledger\<rparr>)"
    and step_fills: "filling_call (rn_hash env) i (kc_simulator k) sim \<Longrightarrow>
      book_fills i (length (ds_fills (kc_simulator k))) (ds_fills sim) (kc_ledger k) =
        (Ok ledger :: (multi_ledger, scheduled_backtest_error) result) \<Longrightarrow>
      R k (k\<lparr>kc_simulator := sim, kc_ledger := ledger, kc_open_positions := ps\<rparr>)"
begin

lemma schedule_step: "schedule_control t phase payload k = Ok (n, k') \<Longrightarrow> \<not> is_release payload \<Longrightarrow> R k k'"
  by (auto simp: schedule_control_def step_schedule split: prod.splits result.splits)

lemma feedback_step: "schedule_feedback hash t fb fills oid n k = Ok k' \<Longrightarrow> R k k'"
  by (auto simp: schedule_feedback_def dest: schedule_step)

lemma rfold_step:
  assumes "\<And>k x k'. x \<in> set xs \<Longrightarrow> f k x = Ok k' \<Longrightarrow> R k k'"
  shows "rfold f k xs = (Ok k' :: ('s scheduled_coordinator, 'e) result) \<Longrightarrow> R k k'"
  using assms
proof (induction xs arbitrary: k)
  case Nil
  then show ?case by (simp add: step_refl)
next
  case (Cons x xs)
  then obtain k1 where "f k x = Ok k1" "rfold f k1 xs = Ok k'" by auto
  then show ?case using Cons.IH [of k1] Cons.prems(2) by (meson list.set_intros step_trans)
qed

lemma timers_step: "schedule_timers t timers k = Ok k' \<Longrightarrow> R k k'"
  unfolding schedule_timers_def
proof (erule rfold_step [rotated])
  fix k :: "'s scheduled_coordinator" and request k'
  assume "(if tq_fire_at request < t then Err (BacktestStrategy (BacktestText (timer_error_message FireBeforeDecision)))
      else rbind (schedule_control (tq_fire_at request) StrategyDecision (ControlStrategyTimer request) k) (\<lambda>(sequence, k').
        Ok (k'\<lparr>kc_timer_generations := bm_insert (tq_timer_id request) sequence (kc_timer_generations k')\<rparr>))) =
      (Ok k' :: ('s scheduled_coordinator, scheduled_backtest_error) result)"
  then obtain n k1 where "schedule_control (tq_fire_at request) StrategyDecision (ControlStrategyTimer request) k = Ok (n, k1)"
      "k' = k1\<lparr>kc_timer_generations := bm_insert (tq_timer_id request) n (kc_timer_generations k1)\<rparr>"
    by (auto split: if_splits)
  then show "R k k'" using step_trans [OF schedule_step step_timers] by simp
qed

lemma charge_step: "charge_strategy hash t origin charges k = Ok k' \<Longrightarrow> R k k'"
  by (auto simp: charge_strategy_def step_charges)

lemma quiet_step: "sim_call out k = Ok (x, k') \<Longrightarrow> (\<And>y. out = (Ok y, snd out) \<Longrightarrow> quiet_call (rn_hash env) (kc_simulator k) (snd out)) \<Longrightarrow> R k k'"
  by (cases out; cases "fst out") (auto simp: sim_call_def step_quiet)

lemma submit_step:
  assumes "submit_request (rn_hash env) strategy_id t origin n control_sequence request k = Ok k'"
  shows "R k k'"
proof -
  obtain submission k1 where k1: "sim_call (scheduled_submit (rn_hash env) (kc_simulator k) strategy_id
      \<lparr>sx_origin_identity = origin, sx_decision_time = t\<rparr> n request) k = Ok (submission, k1)"
    using assms by (auto simp: submit_request_def split: if_splits)
  obtain k2 where k2: "(case sr_expire_at request of None \<Rightarrow> Ok k1
      | Some expiry \<Rightarrow> rbind (schedule_control expiry OrderExpiry (ControlExpire (ss_order_id submission)) k1) (\<lambda>(_, k'). Ok k')) = Ok k2"
    using assms k1 by (auto simp: submit_request_def split: if_splits)
  obtain m k3 where k3: "schedule_control (sr_activate_at request) OrderActivation (ControlActivate (ss_order_id submission)) k2 = Ok (m, k3)"
    using assms k1 k2 by (auto simp: submit_request_def split: if_splits)
  have last: "R k3 k'" using assms k1 k2 k3 feedback_step by (auto simp: submit_request_def split: if_splits)
  have "R k k1" by (rule quiet_step [OF k1]) (metis quiet_call.submit)
  moreover have "R k1 k2" using k2 step_refl by (auto dest: schedule_step split: option.splits)
  moreover have "R k2 k3" using schedule_step [OF k3] by simp
  ultimately show ?thesis using last step_trans by blast
qed

lemma submits_step: "submit_requests (rn_hash env) strategy_id t origin n control_sequence requests k = Ok k' \<Longrightarrow> R k k'"
proof (induction requests arbitrary: n k)
  case Nil
  then show ?case by (simp add: step_refl)
next
  case (Cons request requests)
  then show ?case using step_trans submit_step by fastforce
qed

lemma callback_step:
  assumes "commit_callback env called records t origin control_sequence k = Ok k'"
  shows "R k k'"
proof -
  obtain ended sink s where called: "called = (ended, sink, s)" by (rule prod_cases3)
  obtain recs k1 k2 timers charges where
      "schedule_timers t timers (k\<lparr>kc_strategy := s, kc_output := output_extend (kc_output k) recs\<rparr>) = Ok k1"
      "charge_strategy (rn_hash env) t origin charges k1 = Ok k2"
      "submit_requests (rn_hash env) (id_strategy_id (sy_identity (rn_strategy env) s)) t origin 0 control_sequence (sk_scheduled_orders sink) k2 = Ok k'"
    using assms unfolding called by (auto simp: commit_callback_def Let_def take_scheduled_orders_def)
  then show ?thesis using step_strategy timers_step charge_step submits_step by (meson step_trans)
qed

lemma settle_step:
  assumes "settle_activations (rn_hash env) i (length (ds_fills (kc_simulator k))) as t n (k\<lparr>kc_simulator := sim\<rparr>) = Ok k'"
    and "filling_call (rn_hash env) i (kc_simulator k) sim"
  shows "R k k'"
proof -
  obtain ledger where ledger: "book_fills i (length (ds_fills (kc_simulator k))) (ds_fills sim) (kc_ledger k) =
      (Ok ledger :: (multi_ledger, scheduled_backtest_error) result)"
    using assms(1) by (auto simp: settle_activations_def)
  obtain k1 where k1: "refresh_open_position i (k\<lparr>kc_simulator := sim, kc_ledger := ledger\<rparr>) = Ok k1"
      and rest: "rfold (\<lambda>k a. schedule_feedback (rn_hash env) t [sa_feedback a] (sa_execution_fills a) (sa_order_id a) n k) k1 as = Ok k'"
    using assms(1) ledger by (auto simp: settle_activations_def)
  obtain ps where "k1 = k\<lparr>kc_simulator := sim, kc_ledger := ledger, kc_open_positions := ps\<rparr>"
    using k1 by (auto simp: refresh_open_position_def)
  then have "R k k1" using step_fills [OF assms(2) ledger] by simp
  moreover have "R k1 k'" by (rule rfold_step [OF _ rest]) (rule feedback_step)
  ultimately show ?thesis by (rule step_trans)
qed

lemma interrupt_step:
  assumes "interrupt_market_orders (rn_hash env) e occ ob n k = Ok k'"
  shows "R k k'"
proof (cases "k' = k")
  case False
  then obtain feedback k1 where k1: "sim_call (cancel_for_volatility_interruption (kc_simulator k) (ev_instrument e)) k = Ok (feedback, k1)"
      and k': "k' = k1 \<or> schedule_feedback (rn_hash env) (ob_visible_at ob) feedback [] (eo_event_fingerprint occ) n k1 = Ok k'"
    using assms by (auto simp: interrupt_market_orders_def split: if_splits)
  have "R k k1" by (rule quiet_step [OF k1]) (metis quiet_call.interrupt)
  then show ?thesis using k' feedback_step step_trans by blast
qed (simp add: step_refl)

lemma publish_known_step:
  assumes "publish_known env e state ob k = Ok (published, k')"
  shows "R k k'"
proof -
  define k1 where "k1 = (case final_mark state (rn_allow_midpoint_fallback env) of None \<Rightarrow> k
    | Some m \<Rightarrow> k\<lparr>kc_last_visible_marks := bm_insert (ev_instrument e) m (kc_last_visible_marks k)\<rparr>)"
  have "k' = k1 \<or> (\<exists>book u. sim_call (publish_visible_book (kc_simulator k1) book) k1 = Ok (u, k'))"
    using assms unfolding publish_known_def Let_def k1_def [symmetric]
    by (auto split: if_splits option.splits)
  moreover have "R k k1" by (simp add: k1_def step_refl step_marks split: option.split)
  moreover have "R k1 k'" if "sim_call (publish_visible_book (kc_simulator k1) book) k1 = Ok (v, k')" for book v
    by (rule quiet_step [OF that]) (metis quiet_call.publish_book)
  ultimately show ?thesis using step_trans by blast
qed

lemma publish_step:
  assumes "publish_observation env e ob k = Ok (state, published, k')"
  shows "R k k'"
proof -
  obtain evidence u k1 where k1: "sim_call (publish_visible_trading_state (kc_simulator k) evidence) k = Ok (u, k1)"
      and k': "publish_known env e state ob k1 = Ok (published, k')"
    using assms by (auto simp: publish_observation_def)
  have "R k k1" by (rule quiet_step [OF k1]) (metis quiet_call.publish_state)
  then show ?thesis using publish_known_step [OF k'] step_trans by blast
qed

lemma release_step:
  assumes "release_observation env ob n k = Ok k'"
  obtains e cm visible where "from_canonical_bytes (ob_canonical_event ob) = Ok e"
    and "apply_ordered (rn_hash env) (kc_visible_core k) e = (Ok cm, visible)" and "R (k\<lparr>kc_visible_core := visible\<rparr>) k'"
proof -
  obtain e where decoded: "from_canonical_bytes (ob_canonical_event ob) = Ok e"
    using assms by (auto simp: release_observation_def)
  obtain r visible where applied: "apply_ordered (rn_hash env) (kc_visible_core k) e = (r, visible)"
    by (cases "apply_ordered (rn_hash env) (kc_visible_core k) e")
  then obtain cm where r: "r = Ok cm" using assms decoded by (cases r) (auto simp: release_observation_def)
  note e = decoded applied [unfolded r]
  let ?occ = "cc_occurrence cm"
  obtain k1 state published k2 where k2: "interrupt_market_orders (rn_hash env) e ?occ ob n (k\<lparr>kc_visible_core := visible\<rparr>) = Ok k1"
      "publish_observation env e ob k1 = Ok (state, published, k2)"
    using assms e by (auto simp: release_observation_def Let_def split: if_splits)
  obtain k3 where k3: "commit_callback env (sy_on_event (rn_strategy env)
        (event_context_visible ?occ e state (co_states visible) (ob_trading ob) (ob_visible_at ob))
        sink_with_scheduled_orders (kc_strategy k2))
      (\<lambda>sink. into_event_records sink ?occ) (ob_visible_at ob) (eo_event_fingerprint ?occ) n k2 = Ok k3"
      and k': "k' = k3 \<or> (\<exists>m. schedule_control (ob_visible_at ob) FillAllocation (ControlAllocateVisibleDepth (ev_instrument e)) k3 = Ok (m, k'))"
    using assms e k2 by (auto simp: release_observation_def Let_def split: if_splits)
  have "R k3 k'" using k' schedule_step step_refl by auto
  then have "R (k\<lparr>kc_visible_core := visible\<rparr>) k'"
    using interrupt_step [OF k2(1)] publish_step [OF k2(2)] callback_step [OF k3] step_trans by blast
  then show ?thesis using that e by blast
qed

lemma activate_step:
  assumes "activate_order env oid n t k = Ok k'"
  shows "R k k'"
proof (cases "order_is_scheduled (kc_simulator k) oid")
  case True
  then obtain a sim ord where "scheduled_activate (rn_hash env) (kc_simulator k) oid n t = (Ok a, sim)"
      "find (\<lambda>ord. sd_id ord = oid) (ds_orders sim) = Some ord"
      "settle_activations (rn_hash env) (oi_instrument (sr_intent (sd_request ord))) (length (ds_fills (kc_simulator k))) [a] t n
         (k\<lparr>kc_simulator := sim\<rparr>) = Ok k'"
    using assms
    by (cases "scheduled_activate (rn_hash env) (kc_simulator k) oid n t")
      (auto simp: activate_order_def sim_call_def Let_def split: option.splits)
  then show ?thesis using settle_step filling_call.activate by blast
qed (use assms in \<open>simp add: activate_order_def step_refl\<close>)

lemma control_step:
  assumes "process_control env k c = Ok k'" and "\<not> is_release (sc_payload c)"
  shows "R k k'"
proof (cases "sc_payload c")
  case (ControlExpire oid)
  then show ?thesis
  proof (cases "order_can_expire (kc_simulator k) oid")
    case True
    then obtain fb k1 where k1: "sim_call (scheduled_expire (kc_simulator k) oid (sc_at c)) k = Ok (fb, k1)"
        "schedule_feedback (rn_hash env) (sc_at c) [fb] [] oid (sc_sequence c) k1 = Ok k'"
      using assms(1) ControlExpire by (auto simp: process_control_def Let_def)
    have "R k k1" by (rule quiet_step [OF k1(1)]) (metis quiet_call.expire)
    then show ?thesis using feedback_step [OF k1(2)] step_trans by blast
  qed (use assms(1) in \<open>simp add: process_control_def step_refl\<close>)
next
  case (ControlActivate oid)
  then show ?thesis using assms(1) activate_step by (auto simp: process_control_def Let_def)
next
  case (ControlAllocateVisibleDepth i)
  then obtain as sim where "evaluate_active (rn_hash env) (kc_simulator k) i (sc_sequence c) (sc_at c) = (Ok as, sim)"
      "settle_activations (rn_hash env) i (length (ds_fills (kc_simulator k))) as (sc_at c) (sc_sequence c) (k\<lparr>kc_simulator := sim\<rparr>) = Ok k'"
    using assms(1)
    by (cases "evaluate_active (rn_hash env) (kc_simulator k) i (sc_sequence c) (sc_at c)")
      (auto simp: process_control_def sim_call_def Let_def)
  then show ?thesis using settle_step filling_call.allocate by blast
next
  case (ControlAllocateAuctionMatch ev)
  then obtain as sim where "evaluate_auction_match (rn_hash env) (kc_simulator k) ev = (Ok as, sim)"
      "settle_activations (rn_hash env) (ae_instrument ev) (length (ds_fills (kc_simulator k))) as (ae_visible_at ev) (sc_sequence c)
         (k\<lparr>kc_simulator := sim\<rparr>) = Ok k'"
    using assms(1)
    by (cases "evaluate_auction_match (rn_hash env) (kc_simulator k) ev")
      (auto simp: process_control_def sim_call_def Let_def)
  then show ?thesis using settle_step filling_call.auction by blast
next
  case (ControlStrategyTimer request)
  then show ?thesis
    using assms(1) by (auto simp: process_control_def fire_timer_def Let_def step_refl dest: callback_step split: if_splits)
next
  case (ControlDeliverFeedback fb fills origin)
  then show ?thesis using assms(1) by (auto simp: process_control_def deliver_feedback_def Let_def dest: callback_step)
qed (use assms(2) in simp)

end

section \<open>What simulator calls do to orders and fills\<close>

definition order_keys :: "scheduled_simulator \<Rightarrow> (order_id \<times> instrument_id) list" where
  "order_keys s = map (\<lambda>ord. (sd_id ord, order_instrument ord)) (ds_orders s)"

definition grows :: "instrument_id \<Rightarrow> scheduled_simulator \<Rightarrow> scheduled_simulator \<Rightarrow> bool" where
  "grows i s s' \<longleftrightarrow> order_keys s' = order_keys s \<and>
     (\<exists>new. ds_fills s' = ds_fills s @ new \<and> (\<forall>f \<in> set new. (fr_order_id f, i) \<in> set (order_keys s)))"

lemma grows_refl: "order_keys s' = order_keys s \<Longrightarrow> ds_fills s' = ds_fills s \<Longrightarrow> grows i s s'"
  by (simp add: grows_def)

lemma grows_trans: "grows i s s' \<Longrightarrow> grows i s' s'' \<Longrightarrow> grows i s s''"
  unfolding grows_def by (metis Un_iff append.assoc set_append)

lemma map_update_same: "(i < length xs \<Longrightarrow> f x = f (xs ! i)) \<Longrightarrow> map f (xs[i := x]) = map f xs"
  by (cases "i < length xs") (simp_all add: map_update list_update_same_conv list_update_beyond)

lemma order_keys_simps [simp]:
  "order_keys (set_status i status s) = order_keys s" "order_keys (set_filled i n s) = order_keys s"
  "ds_fills (set_status i status s) = ds_fills s" "ds_fills (set_filled i n s) = ds_fills s"
  "order_keys (s\<lparr>ds_books := books\<rparr>) = order_keys s" "order_keys (s\<lparr>ds_trading_states := states\<rparr>) = order_keys s"
  "order_keys (s\<lparr>ds_fills := fills\<rparr>) = order_keys s" "order_keys (s\<lparr>ds_execution_fills := fbs\<rparr>) = order_keys s"
  by (simp_all add: order_keys_def set_status_def set_filled_def map_update_same)

lemma order_key_at: "i < length (ds_orders s) \<Longrightarrow> (sd_id (ds_orders s ! i), order_instrument (ds_orders s ! i)) \<in> set (order_keys s)"
  by (simp add: order_keys_def)

lemma record_fills_order:
  "record_fills hash ord n t c cum lfs = (c', m, fills, fbs, r) \<Longrightarrow> f \<in> set fills \<Longrightarrow> fr_order_id f = sd_id ord"
proof (induction lfs arbitrary: c cum c' m fills fbs r)
  case (Cons lf lfs)
  then show ?case
    by (auto simp: Let_def fill_from_control_def split: if_splits option.splits result.splits prod.splits)
qed simp

lemma execute_sweep_grows:
  assumes "execute_sweep hash s i b model policy n t requested start = (r, s')" and "i < length (ds_orders s)"
  shows "grows (order_instrument (ds_orders s ! i)) s s'"
proof -
  let ?ord = "ds_orders s ! i"
  show ?thesis
  proof (cases "sweep_marketable_depth_with_consumed (be_book (vb_evidence b)) (oi_side (sr_intent (sd_request ?ord))) requested
      (dm_depth_levels model) (oi_order_type (sr_intent (sd_request ?ord))) (dm_adverse_price_delta model)
      (consumed_of (oi_side (sr_intent (sd_request ?ord))) b)")
    case (Ok sw)
    obtain c' m fills fbs r' where rf: "record_fills hash ?ord n t (consumed_of (oi_side (sr_intent (sd_request ?ord))) b) start (sw_fills sw) =
        (c', m, fills, fbs, r')" by (rule prod_cases5)
    have "s' = s \<or> (order_keys s' = order_keys s \<and> ds_fills s' = ds_fills s @ fills)"
      using assms(1) Ok rf by (cases r') (auto simp: execute_sweep_def Let_def split: if_splits)
    then show ?thesis
      using record_fills_order [OF rf] order_key_at [OF assms(2)] by (elim disjE) (simp_all add: grows_def)
  next
    case (Err err)
    then show ?thesis using assms(1) by (simp add: execute_sweep_def Let_def grows_refl)
  qed
qed

lemma length_order_keys: "length (ds_orders s) = length (order_keys s)"
  by (simp add: order_keys_def)

lemma order_keys_nth:
  assumes "order_keys s' = order_keys s" and "i < length (ds_orders s)"
  shows "order_instrument (ds_orders s' ! i) = order_instrument (ds_orders s ! i) \<and> i < length (ds_orders s')"
proof -
  have len: "i < length (ds_orders s')" using assms by (simp add: length_order_keys)
  have "order_keys s' ! i = order_keys s ! i" using assms(1) by simp
  then show ?thesis using assms(2) len by (simp add: order_keys_def)
qed

lemma grows_orders:
  assumes "grows j s s'" and "i < length (ds_orders s)"
  shows "i < length (ds_orders s')" and "order_instrument (ds_orders s' ! i) = order_instrument (ds_orders s ! i)"
proof -
  have "order_keys s' = order_keys s" using assms(1) unfolding grows_def by blast
  from order_keys_nth [OF this assms(2)]
  show "i < length (ds_orders s')" "order_instrument (ds_orders s' ! i) = order_instrument (ds_orders s ! i)" by blast+
qed

lemma fail_activation_grows: "fail_activation s i reason fills = (r, s') \<Longrightarrow> grows j s s'"
  by (auto simp: fail_activation_def Let_def intro!: grows_refl split: result.splits if_splits)

lemma settle_grows:
  assumes "settle_at_activation hash s i n t = (r, s')" and "i < length (ds_orders s)"
  shows "grows (order_instrument (ds_orders s ! i)) s s'"
  using assms(1) order_key_at [OF assms(2)]
  by (auto simp: settle_at_activation_def Let_def grows_def fill_from_control_def split: order_type.splits result.splits)

lemma activate_depth_grows:
  assumes "activate_depth hash s i n t = (r, s')" and i: "i < length (ds_orders s)"
  shows "grows (order_instrument (ds_orders s ! i)) s s'"
proof -
  let ?j = "order_instrument (ds_orders s ! i)"
  have "s' = s \<or> (\<exists>reason fills. fail_activation s i reason fills = (r, s')) \<or>
      (\<exists>b model policy q r1 s1. execute_sweep hash s i b model policy n t q 0 = (r1, s1) \<and>
         (s' = s1 \<or> s' = set_status i SFilled s1 \<or> (\<exists>reason fills. fail_activation s1 i reason fills = (r, s'))))"
    using assms(1)
    by (simp add: activate_depth_def Let_def split: option.splits prod.splits result.splits if_splits) blast+
  then show ?thesis
  proof (elim disjE exE conjE)
    fix b model policy q r1 s1 reason fills
    assume "execute_sweep hash s i b model policy n t q 0 = (r1, s1)" "fail_activation s1 i reason fills = (r, s')"
    then show ?thesis using grows_trans execute_sweep_grows i fail_activation_grows by metis
  next
    fix b model policy q r1 s1
    assume "execute_sweep hash s i b model policy n t q 0 = (r1, s1)" "s' = set_status i SFilled s1"
    then show ?thesis using execute_sweep_grows [OF _ i] by (metis grows_def order_keys_simps(1,3))
  qed (auto intro: grows_refl fail_activation_grows execute_sweep_grows [OF _ i])
qed

lemma find_map_position: "position (\<lambda>x. P (f x)) xs = Some i \<Longrightarrow> find P (map f xs) = Some (f (xs ! i))"
  by (induction xs arbitrary: i) (auto split: if_splits)

lemma find_map_found: "find (\<lambda>x. P (f x)) xs = Some x \<Longrightarrow> find P (map f xs) = Some (f x)"
  by (induction xs) (auto split: if_splits)

lemma scheduled_activate_grows:
  assumes "scheduled_activate hash s oid n t = (Ok a, s')" and "find (\<lambda>ord. sd_id ord = oid) (ds_orders s') = Some ord"
  shows "grows (order_instrument ord) s s'"
proof -
  obtain i where i: "order_index s oid = Ok i" using assms(1) by (cases "order_index s oid") (auto simp: scheduled_activate_def)
  then have len: "i < length (ds_orders s)" using order_index_Ok by blast
  have "s' = set_status i SActive s \<or> (\<exists>reason fills. fail_activation s i reason fills = (Ok a, s')) \<or>
      settle_at_activation hash s i n t = (Ok a, s') \<or> activate_depth hash s i n t = (Ok a, s')"
    using assms(1) i
    by (auto simp: scheduled_activate_def Let_def split: if_splits scheduled_execution_policy.splits)
  then have g: "grows (order_instrument (ds_orders s ! i)) s s'"
    by (elim disjE exE) (auto intro: grows_refl fail_activation_grows settle_grows [OF _ len] activate_depth_grows [OF _ len])
  let ?key = "\<lambda>ord. (sd_id ord, order_instrument ord)"
  have "position (\<lambda>ord. fst (?key ord) = oid) (ds_orders s) = Some i" using i by (auto simp: order_index_def)
  from find_map_position [where f = ?key, OF this]
  have "find (\<lambda>x. fst x = oid) (order_keys s) = Some (?key (ds_orders s ! i))" by (simp add: order_keys_def)
  moreover have "find (\<lambda>x. fst x = oid) (order_keys s') = Some (?key ord)"
    using find_map_found [where f = ?key and P = "\<lambda>x. fst x = oid"] assms(2) by (simp add: order_keys_def)
  ultimately have "order_instrument (ds_orders s ! i) = order_instrument ord" using g by (simp add: grows_def)
  then show ?thesis using g by simp
qed

lemma passive_order_grows:
  assumes "execute_passive_order hash s i n t = (r, s')" and "i < length (ds_orders s)"
  shows "grows (order_instrument (ds_orders s ! i)) s s'"
proof -
  have "s' = s \<or> (\<exists>b model policy q m r1 s1. execute_sweep hash s i b model policy n t q m = (r1, s1) \<and>
      (s' = s1 \<or> (\<exists>status. s' = set_status i status s1)))"
    using assms(1)
    by (simp add: execute_passive_order_def Let_def split: option.splits prod.splits result.splits if_splits) blast+
  then show ?thesis
  proof (elim disjE exE conjE)
    fix b model policy q m r1 s1 status
    assume "execute_sweep hash s i b model policy n t q m = (r1, s1)" "s' = set_status i status s1"
    then show ?thesis using execute_sweep_grows [OF _ assms(2)] by (metis grows_def order_keys_simps(1,3))
  qed (auto intro: grows_refl execute_sweep_grows [OF _ assms(2)])
qed

lemma passive_orders_grow:
  assumes "execute_passive_orders hash s is n t = (r, s')"
    and "\<forall>i \<in> set is. i < length (ds_orders s) \<and> order_instrument (ds_orders s ! i) = j"
  shows "grows j s s'"
  using assms
proof (induction "is" arbitrary: s r)
  case (Cons i "is")
  obtain r1 s1 where one: "execute_passive_order hash s i n t = (r1, s1)" by (cases "execute_passive_order hash s i n t")
  have g: "grows j s s1" using passive_order_grows [OF one] Cons.prems(2) by auto
  have "\<forall>i \<in> set is. i < length (ds_orders s1) \<and> order_instrument (ds_orders s1 ! i) = j"
    using grows_orders [OF g] Cons.prems(2) by simp
  then have "s' = s1 \<or> grows j s1 s'"
    using Cons.IH [of s1] Cons.prems(1) one by (auto split: result.splits prod.splits)
  then show ?case using g grows_trans by blast
qed (simp add: grows_refl)

lemma match_grows:
  assumes "match_in_auction hash ev s i = (r, s')" and "i < length (ds_orders s)"
  shows "grows (order_instrument (ds_orders s ! i)) s s'"
  using assms(1) order_key_at [OF assms(2)]
  by (auto simp: match_in_auction_def Let_def grows_def fill_from_market_event_def split: if_splits result.splits)

lemma matches_grow:
  assumes "match_orders_in_auction hash ev s is = (r, s')"
    and "\<forall>i \<in> set is. i < length (ds_orders s) \<and> order_instrument (ds_orders s ! i) = j"
  shows "grows j s s'"
  using assms
proof (induction "is" arbitrary: s r)
  case (Cons i "is")
  obtain r1 s1 where one: "match_in_auction hash ev s i = (r1, s1)" by (cases "match_in_auction hash ev s i")
  have g: "grows j s s1" using match_grows [OF one] Cons.prems(2) by auto
  have "\<forall>i \<in> set is. i < length (ds_orders s1) \<and> order_instrument (ds_orders s1 ! i) = j"
    using grows_orders [OF g] Cons.prems(2) by simp
  then have "s' = s1 \<or> grows j s1 s'"
    using Cons.IH [of s1] Cons.prems(1) one by (auto split: result.splits prod.splits)
  then show ?case using g grows_trans by blast
qed (simp add: grows_refl)

lemma selected_instrument:
  assumes "\<And>ord. P ord \<Longrightarrow> order_instrument ord = j"
  shows "\<forall>i \<in> set (selected_indices P s). i < length (ds_orders s) \<and> order_instrument (ds_orders s ! i) = j"
  using selected_indices_ok(2) [of P s] assms by blast

lemma filling_call_grows: "filling_call hash i s s' \<Longrightarrow> grows i s s'"
proof (induction rule: filling_call.induct)
  case (activate s oid n t a s' ord)
  then show ?case by (rule scheduled_activate_grows)
next
  case (allocate s i n t as s')
  then show ?case unfolding evaluate_active_def by (rule passive_orders_grow [OF _ selected_instrument]) simp
next
  case (auction s ev as s')
  then have "match_orders_in_auction hash ev s (selected_indices (\<lambda>ord. sd_status ord = SActive \<and>
      order_instrument ord = ae_instrument ev \<and> sr_execution_policy (sd_request ord) = AuctionCrossAtFirstMatchV1 \<and>
      sr_activate_at (sd_request ord) \<le> ae_match_time ev) s) = (Ok as, s')"
    by (simp add: evaluate_auction_match_def split: option.splits prod.splits if_splits)
  then show ?case by (rule matches_grow [OF _ selected_instrument]) simp
qed

lemma quiet_call_keeps: "quiet_call hash s s' \<Longrightarrow> (\<exists>more. order_keys s' = order_keys s @ more) \<and> ds_fills s' = ds_fills s"
proof (induction rule: quiet_call.induct)
  case (submit s strategy_id ctxt n request x s')
  obtain r s1 where p: "replace_previous s (sr_client_order_id request) = (r, s1)" by (cases "replace_previous s (sr_client_order_id request)")
  have s1: "order_keys s1 = order_keys s \<and> ds_fills s1 = ds_fills s"
    using p by (auto simp: replace_previous_def split: option.splits if_splits)
  have "(\<exists>more. order_keys s' = order_keys s1 @ more) \<and> ds_fills s' = ds_fills s1"
    using submit p
    by (auto simp: scheduled_submit_def Let_def order_keys_def split: if_splits option.splits prod.splits result.splits)
  then show ?case using s1 by simp
next
  case (interrupt s i fbs s')
  have "order_keys s' = order_keys s \<and> ds_fills s' = ds_fills s"
    using interrupt by (auto simp: cancel_for_volatility_interruption_def Let_def order_keys_def split: if_splits)
  then show ?case by simp
qed (auto simp: scheduled_expire_def publish_visible_trading_state_def publish_visible_book_def split: result.splits if_splits option.splits prod.splits)

section \<open>Every fill is booked once, to the instrument of its order\<close>

text \<open>
  A labelling of the simulator's fills with instruments: each ledger holds, in order, the fills with its
  label, and a fill labelled with an instrument fills an order of that instrument.
\<close>

definition labelled :: "scheduled_simulator \<Rightarrow> multi_ledger \<Rightarrow> instrument_id list \<Rightarrow> bool" where
  "labelled sim m labels \<longleftrightarrow> length labels = length (ds_fills sim) \<and>
     (\<forall>i fs. booked_fills m i = Some fs \<longrightarrow> fs = map fst (filter (\<lambda>x. snd x = i) (zip (ds_fills sim) labels))) \<and>
     (\<forall>x \<in> set (zip (ds_fills sim) labels).
        booked_fills m (snd x) \<noteq> None \<and> (fr_order_id (fst x), snd x) \<in> set (order_keys sim))"

definition booking_inv :: "'s scheduled_coordinator \<Rightarrow> bool" where
  "booking_inv k \<longleftrightarrow> multi_reachable (kc_ledger k) \<and> (\<exists>labels. labelled (kc_simulator k) (kc_ledger k) labels)"

lemma labelled_same:
  assumes "labelled sim m labels" and "ds_fills sim' = ds_fills sim" and "set (order_keys sim) \<subseteq> set (order_keys sim')"
    and "\<And>i. booked_fills m' i = booked_fills m i"
  shows "labelled sim' m' labels"
  using assms unfolding labelled_def by auto

lemma apply_fills_known:
  "rfold (\<lambda>m fill. multi_apply_fill m i fill) m fills = Ok m' \<Longrightarrow> fills \<noteq> [] \<Longrightarrow> booked_fills m i \<noteq> None"
  by (cases fills) (auto simp: multi_apply_fill_def booked_fills_def)

lemma labelled_booked:
  assumes lab: "labelled sim m labels" and reach: "multi_reachable m" and "grows i sim sim'"
    and book: "book_fills i (length (ds_fills sim)) (ds_fills sim') m = (Ok m' :: (multi_ledger, 'e multi_backtest_error) result)"
  shows "multi_reachable m' \<and> (\<exists>labels. labelled sim' m' labels)"
proof -
  obtain new where new: "ds_fills sim' = ds_fills sim @ new" "\<forall>f \<in> set new. (fr_order_id f, i) \<in> set (order_keys sim)"
      and keys: "order_keys sim' = order_keys sim"
    using assms(3) unfolding grows_def by blast
  have fold: "rfold (\<lambda>m fill. multi_apply_fill m i fill) m new = Ok m'" using book new(1) by (simp add: book_fills_def)
  have booked: "booked_fills m' j = (if j = i then map_option (\<lambda>old. old @ new) (booked_fills m i) else booked_fills m j)" for j
    using apply_fills_books [OF fold reach] by blast
  have known: "new \<noteq> [] \<Longrightarrow> booked_fills m i \<noteq> None" by (rule apply_fills_known [OF fold])
  let ?labels = "labels @ replicate (length new) i"
  have len: "length labels = length (ds_fills sim)" using lab by (simp add: labelled_def)
  then have zipped: "zip (ds_fills sim') ?labels = zip (ds_fills sim) labels @ map (\<lambda>f. (f, i)) new"
    unfolding new(1) by (simp add: zip_replicate2)
  have pick: "map fst (filter (\<lambda>x. snd x = j) (map (\<lambda>f. (f, i)) new)) = (if j = i then new else [])" for j
    by (induction new) auto
  have old: "fs = map fst (filter (\<lambda>x. snd x = j) (zip (ds_fills sim) labels))" if "booked_fills m j = Some fs" for j fs
    using lab that unfolding labelled_def by blast
  have known_old: "booked_fills m (snd x) \<noteq> None \<and> (fr_order_id (fst x), snd x) \<in> set (order_keys sim)"
    if "x \<in> set (zip (ds_fills sim) labels)" for x
    using lab that unfolding labelled_def by blast
  have "labelled sim' m' ?labels"
    unfolding labelled_def zipped
  proof (intro conjI allI impI ballI)
    show "length ?labels = length (ds_fills sim')" using len new(1) by simp
  next
    fix j fs
    assume "booked_fills m' j = Some fs"
    then show "fs = map fst (filter (\<lambda>x. snd x = j) (zip (ds_fills sim) labels @ map (\<lambda>f. (f, i)) new))"
      using booked [of j] old [of j] pick [of j] by (auto split: if_splits)
  next
    fix x
    assume x: "x \<in> set (zip (ds_fills sim) labels @ map (\<lambda>f. (f, i)) new)"
    have "new \<noteq> [] \<and> snd x = i" if "x \<notin> set (zip (ds_fills sim) labels)" using x that by auto
    then have "booked_fills m (snd x) \<noteq> None" using known known_old [of x] by blast
    then show "booked_fills m' (snd x) \<noteq> None" using booked [of "snd x"] by auto
    show "(fr_order_id (fst x), snd x) \<in> set (order_keys sim')"
      using x known_old [of x] new(2) keys by auto
  qed
  moreover have "multi_reachable m'" using apply_fills_books [OF fold reach] by blast
  ultimately show ?thesis by blast
qed

lemma charges_booked: "apply_cash_charges m cs = Ok m' \<Longrightarrow> booked_fills m' i = booked_fills m i"
  by (auto simp: apply_cash_charges_def booked_fills_def)

interpretation booking: coordinator_step "\<lambda>k k'. booking_inv k \<longrightarrow> booking_inv k'" env for env :: "'s run_parameters"
proof unfold_locales
  fix k :: "'s scheduled_coordinator" and sim
  assume "quiet_call (rn_hash env) (kc_simulator k) sim"
  then have "ds_fills sim = ds_fills (kc_simulator k)" "set (order_keys (kc_simulator k)) \<subseteq> set (order_keys sim)"
    using quiet_call_keeps [of "rn_hash env" "kc_simulator k" sim] by auto
  from labelled_same [OF _ this refl, of "kc_ledger k"]
  show "booking_inv k \<longrightarrow> booking_inv (k\<lparr>kc_simulator := sim\<rparr>)" by (auto simp: booking_inv_def)
next
  fix k :: "'s scheduled_coordinator" and cs ledger
  assume charged: "apply_cash_charges (kc_ledger k) cs = Ok ledger"
  have "labelled (kc_simulator k) (kc_ledger k) labels \<Longrightarrow> labelled (kc_simulator k) ledger labels" for labels
    by (rule labelled_same [OF _ refl subset_refl charges_booked [OF charged]])
  then show "booking_inv k \<longrightarrow> booking_inv (k\<lparr>kc_ledger := ledger\<rparr>)"
    using multi_reachable.charges [OF _ charged] by (auto simp: booking_inv_def)
next
  fix k :: "'s scheduled_coordinator" and i sim ledger ps
  assume "filling_call (rn_hash env) i (kc_simulator k) sim"
    and book: "book_fills i (length (ds_fills (kc_simulator k))) (ds_fills sim) (kc_ledger k) =
      (Ok ledger :: (multi_ledger, scheduled_backtest_error) result)"
  from labelled_booked [OF _ _ filling_call_grows [OF this(1)] book]
  show "booking_inv k \<longrightarrow> booking_inv (k\<lparr>kc_simulator := sim, kc_ledger := ledger, kc_open_positions := ps\<rparr>)"
    by (auto simp: booking_inv_def)
qed (auto simp: booking_inv_def)

section \<open>Loops over the queue\<close>

text \<open>What the processing of one popped batch establishes, for results and for errors, the loops establish.\<close>

definition outcome_ok :: "('a \<Rightarrow> bool) \<Rightarrow> ('e \<Rightarrow> bool) \<Rightarrow> ('a, 'e) result \<Rightarrow> bool" where
  "outcome_ok P E r \<longleftrightarrow> (case r of Ok x \<Rightarrow> P x | Err err \<Rightarrow> E err)"

lemma outcome_ok_simps [simp]: "outcome_ok P E (Ok x) = P x" "outcome_ok P E (Err err) = E err"
  by (simp_all add: outcome_ok_def)

definition batch_sound ::
  "'s run_parameters \<Rightarrow> ('s scheduled_coordinator \<Rightarrow> bool) \<Rightarrow> (scheduled_backtest_error \<Rightarrow> bool) \<Rightarrow> bool" where
  "batch_sound env P E \<longleftrightarrow> (\<forall>k predicate popped q. P k \<longrightarrow> control_pop_while (kc_controls k) predicate = (popped, q) \<longrightarrow>
     outcome_ok P E (rfold (process_control env) (k\<lparr>kc_controls := q\<rparr>) popped))"

lemma batch_soundD:
  "batch_sound env P E \<Longrightarrow> P k \<Longrightarrow> control_pop_while (kc_controls k) predicate = (popped, q) \<Longrightarrow>
   outcome_ok P E (rfold (process_control env) (k\<lparr>kc_controls := q\<rparr>) popped)"
  unfolding batch_sound_def by blast

lemma process_before_sound:
  assumes "process_before env boundary k = Some r"
  shows "batch_sound env P E \<longrightarrow> P k \<longrightarrow> outcome_ok P E r"
proof (rule process_before.raw_induct [OF _ assms], intro impI)
  fix f env boundary k r
  assume IH: "\<And>env boundary k r. f env boundary k = Some r \<Longrightarrow> batch_sound env P E \<longrightarrow> P k \<longrightarrow> outcome_ok P E r"
    and body: "(if case control_next_time (kc_controls k) of None \<Rightarrow> False | Some t \<Rightarrow> t < boundary
        then case control_pop_before (kc_controls k) boundary of (popped, q) \<Rightarrow>
          (case rfold (process_control env) (k\<lparr>kc_controls := q\<rparr>) popped of Err err \<Rightarrow> Some (Err err) | Ok k' \<Rightarrow> f env boundary k')
        else Some (Ok k)) = Some r"
    and sound: "batch_sound env P E" "P k"
  obtain popped q where pop: "control_pop_before (kc_controls k) boundary = (popped, q)" by (cases "control_pop_before (kc_controls k) boundary")
  show "outcome_ok P E r"
  proof (cases "rfold (process_control env) (k\<lparr>kc_controls := q\<rparr>) popped")
    case (Ok k')
    then have "P k'" using batch_soundD [OF sound pop [unfolded control_pop_before_def]] by simp
    then show ?thesis using body IH [of env boundary k'] sound pop Ok by (auto split: if_splits)
  next
    case (Err err)
    then have "E err" using batch_soundD [OF sound pop [unfolded control_pop_before_def]] by simp
    moreover have "r = Err err \<or> r = Ok k" using body pop Err by (simp split: if_splits)
    ultimately show ?thesis using sound by auto
  qed
qed

lemma process_at_sound:
  assumes "process_at env t k = Some r"
  shows "batch_sound env P E \<longrightarrow> P k \<longrightarrow> outcome_ok P E r"
proof (rule process_at.raw_induct [OF _ assms], intro impI)
  fix f env t k r
  assume IH: "\<And>env t k r. f env t k = Some r \<Longrightarrow> batch_sound env P E \<longrightarrow> P k \<longrightarrow> outcome_ok P E r"
    and body: "(if control_next_time (kc_controls k) = Some t
        then case control_pop_at (kc_controls k) t of (popped, q) \<Rightarrow>
          (case rfold (process_control env) (k\<lparr>kc_controls := q\<rparr>) popped of Err err \<Rightarrow> Some (Err err) | Ok k' \<Rightarrow> f env t k')
        else Some (Ok k)) = Some r"
    and sound: "batch_sound env P E" "P k"
  obtain popped q where pop: "control_pop_at (kc_controls k) t = (popped, q)" by (cases "control_pop_at (kc_controls k) t")
  show "outcome_ok P E r"
  proof (cases "rfold (process_control env) (k\<lparr>kc_controls := q\<rparr>) popped")
    case (Ok k')
    then have "P k'" using batch_soundD [OF sound pop [unfolded control_pop_at_def]] by simp
    then show ?thesis using body IH [of env t k'] sound pop Ok by (auto split: if_splits)
  next
    case (Err err)
    then have "E err" using batch_soundD [OF sound pop [unfolded control_pop_at_def]] by simp
    moreover have "r = Err err \<or> r = Ok k" using body pop Err by (simp split: if_splits)
    ultimately show ?thesis using sound by auto
  qed
qed

lemma drain_sound:
  assumes "drain env k = Some r"
  shows "batch_sound env P E \<longrightarrow> P k \<longrightarrow> outcome_ok (\<lambda>k'. P k' \<and> control_next_time (kc_controls k') = None) E r"
proof (rule drain.raw_induct [OF _ assms], intro impI)
  fix f env k r
  assume IH: "\<And>env k r. f env k = Some r \<Longrightarrow>
      batch_sound env P E \<longrightarrow> P k \<longrightarrow> outcome_ok (\<lambda>k'. P k' \<and> control_next_time (kc_controls k') = None) E r"
    and body: "(case control_next_time (kc_controls k) of None \<Rightarrow> Some (Ok k)
      | Some t \<Rightarrow> Option.bind (process_at env t k) (\<lambda>r. case r of Err err \<Rightarrow> Some (Err err) | Ok k' \<Rightarrow> f env k')) = Some r"
    and sound: "batch_sound env P E" "P k"
  show "outcome_ok (\<lambda>k'. P k' \<and> control_next_time (kc_controls k') = None) E r"
  proof (cases "control_next_time (kc_controls k)")
    case (Some t)
    then obtain r1 where r1: "process_at env t k = Some r1" using body by (auto simp: bind_eq_Some_conv)
    have "outcome_ok P E r1" using process_at_sound [OF r1] sound by blast
    then show ?thesis using body IH [of env] sound Some r1 by (auto split: result.splits)
  qed (use body sound in auto)
qed

lemma booking_control:
  assumes "process_control env k c = Ok k'" and "booking_inv k"
  shows "booking_inv k'"
proof (cases "is_release (sc_payload c)")
  case True
  then obtain ob where "release_observation env ob (sc_sequence c) k = Ok k'"
    using assms(1) by (cases "sc_payload c") (auto simp: process_control_def Let_def)
  then obtain visible where "booking_inv (k\<lparr>kc_visible_core := visible\<rparr>) \<longrightarrow> booking_inv k'"
    by (rule booking.release_step)
  then show ?thesis using assms(2) by (simp add: booking_inv_def)
next
  case False
  then show ?thesis using booking.control_step assms by blast
qed

lemma booking_batch: "batch_sound env booking_inv (\<lambda>_. True)"
proof -
  have "outcome_ok booking_inv (\<lambda>_. True) (rfold (process_control env) k popped)" if "booking_inv k" for k popped
    using that
  proof (induction popped arbitrary: k)
    case (Cons c popped)
    show ?case
    proof (cases "process_control env k c")
      case (Ok k1)
      then show ?thesis using Cons.IH [OF booking_control [OF Ok Cons.prems]] by simp
    qed simp
  qed simp
  moreover have "booking_inv (k\<lparr>kc_controls := q\<rparr>) = booking_inv k" for k :: "'a scheduled_coordinator" and q
    by (simp add: booking_inv_def)
  ultimately show ?thesis unfolding batch_sound_def by blast
qed

text \<open>Buffering an event schedules its release and perhaps an auction match, nothing else.\<close>

lemma buffer_committed_cases:
  assumes "buffer_committed env core e occ k = Ok k'"
  obtains visible_at q1 n q2 ob where "add_milliseconds (ev_match_time e) (rn_market_data_latency_ms env) = Ok visible_at"
    and "q1 = kc_controls k \<or> (\<exists>m ev. control_schedule (kc_controls k) (ev_match_time e) FillAllocation (ControlAllocateAuctionMatch ev) = (Ok m, q1))"
    and "control_schedule q1 visible_at ReleaseObservation (ControlRelease ob) = (Ok n, q2)" and "k' = k\<lparr>kc_controls := q2\<rparr>"
    and "to_canonical_bytes e = Ok (ob_canonical_event ob)" and "ob_run_event_ordinal ob = eo_run_event_ordinal occ"
    and "ob_event_fingerprint ob = eo_event_fingerprint occ" and "ob_instrument_state_version ob = eo_instrument_state_version occ"
proof -
  obtain segment state trading visible_at k1 canonical where
      v: "add_milliseconds (ev_match_time e) (rn_market_data_latency_ms env) = Ok visible_at"
      and k1: "schedule_auction_match e occ trading visible_at k = Ok k1" and c: "to_canonical_bytes e = Ok canonical"
      and rel: "\<exists>m. schedule_control visible_at ReleaseObservation
         (ControlRelease \<lparr>ob_canonical_event = canonical, ob_run_event_ordinal = eo_run_event_ordinal occ,
            ob_event_fingerprint = eo_event_fingerprint occ, ob_instrument_state_version = eo_instrument_state_version occ,
            ob_trading = trading, ob_visible_at = visible_at\<rparr>) k1 = Ok (m, k')"
    using assms by (auto simp: buffer_committed_def)
  have "k1 = k \<or> (\<exists>m ev q. control_schedule (kc_controls k) (ev_match_time e) FillAllocation (ControlAllocateAuctionMatch ev) = (Ok m, q) \<and>
      k1 = k\<lparr>kc_controls := q\<rparr>)"
    using k1 by (auto simp: schedule_auction_match_def schedule_control_Ok split: if_splits option.splits)
  then obtain q1 where q1: "k1 = k\<lparr>kc_controls := q1\<rparr>"
      "q1 = kc_controls k \<or> (\<exists>m ev. control_schedule (kc_controls k) (ev_match_time e) FillAllocation (ControlAllocateAuctionMatch ev) = (Ok m, q1))"
    by (metis scheduled_coordinator.surjective scheduled_coordinator.update_convs(5))
  show ?thesis
    using that [OF v q1(2)] rel c q1(1) by (auto simp: schedule_control_Ok)
qed

end
