(* ===== verification/ScheduledSample.thy ===== *)
theory ScheduledSample
  imports ScheduledRun
begin

text \<open>
  A concrete scheduled run over the two quotes of the sample market, evaluated step by step: with a market
  data latency of one millisecond, the strategy sees the first quote, schedules an order for two units two
  milliseconds after the quote, and the activation fills it from the visible book; then the second quote
  arrives and the run ends. The witnesses of the properties of a scheduled run rest on it.
\<close>

section \<open>The simulator\<close>

definition sample_unit_configs :: "scheduled_instrument_config list" where
  "sample_unit_configs = [scheduled_instrument_config_new (Twse, ''2330'') TradingUnit
     \<lparr>dm_depth_levels = 5, dm_max_stale_ms = 1000, dm_adverse_price_delta = 0\<rparr>]"

definition sample_unit_request :: scheduled_order_request where
  "sample_unit_request =
     \<lparr>sr_client_order_id = ''c1'', sr_batch_id = None, sr_activate_at = sample_open_time + 2000, sr_expire_at = None,
      sr_intent = \<lparr>oi_instrument = (Twse, ''2330''), oi_side = Buy, oi_quantity = \<lparr>q_value = 2, q_unit = TradingUnit\<rparr>,
        oi_order_type = Limit 102000000000000000000\<rparr>,
      sr_execution_policy = VisibleDepthAtActivationV1\<rparr>"

definition sample_visible :: "int \<Rightarrow> visible_book_evidence" where
  "sample_visible t =
     \<lparr>be_instrument = (Twse, ''2330''), be_book = sample_market_book, be_match_time = t, be_visible_at = t + 1000,
      be_matching = Enabled MethodContinuous, be_new_order_entry = Allowed\<rparr>"

definition sample_visible_state :: "int \<Rightarrow> visible_trading_state" where
  "sample_visible_state t =
     \<lparr>te_instrument = (Twse, ''2330''), te_match_time = t, te_visible_at = t + 1000, te_matching = Enabled MethodContinuous,
      te_new_order_entry = Allowed\<rparr>"

definition sample_unit_order :: "nat \<Rightarrow> scheduled_order_status \<Rightarrow> scheduled_order" where
  "sample_unit_order filled status =
     \<lparr>sd_id = replicate 32 0, sd_request = sample_unit_request, sd_acceptance_sequence = 1, sd_filled_value = filled, sd_status = status\<rparr>"

definition sample_desk ::
  "int \<Rightarrow> nat \<Rightarrow> scheduled_order list \<Rightarrow> fill_record list \<Rightarrow> execution_fill_feedback list \<Rightarrow> scheduled_simulator" where
  "sample_desk t taken orders fills feedbacks =
     \<lparr>ds_configs = [((Twse, ''2330''), (TradingUnit, \<lparr>dm_depth_levels = 5, dm_max_stale_ms = 1000, dm_adverse_price_delta = 0\<rparr>, PositiveOnly))],
      ds_books = [((Twse, ''2330''), \<lparr>vb_evidence = sample_visible t, vb_consumed_bids = [0, 0, 0, 0, 0], vb_consumed_asks = [taken, 0, 0, 0, 0]\<rparr>)],
      ds_trading_states = [((Twse, ''2330''), sample_visible_state t)], ds_orders = orders,
      ds_client_orders = [(''c1'', replicate 32 0)], ds_fills = fills, ds_execution_fills = feedbacks, ds_next_acceptance_sequence = 2\<rparr>"

definition sample_opening_desk :: scheduled_simulator where
  "sample_opening_desk = (sample_desk sample_open_time 0 [] [] [])\<lparr>ds_client_orders := [], ds_next_acceptance_sequence := 1\<rparr>"

definition sample_unit_empty :: scheduled_simulator where
  "sample_unit_empty = sample_opening_desk\<lparr>ds_books := [], ds_trading_states := []\<rparr>"

lemma sample_unit_new: "scheduled_simulator_new sample_unit_configs = Ok sample_unit_empty"
  by (simp add: sample_unit_configs_def sample_unit_empty_def sample_opening_desk_def sample_desk_def scheduled_eval)

definition sample_control_fill :: fill_record where
  "sample_control_fill = fill_from_control (replicate 32 0) 2 (sample_open_time + 2000) Buy 101000000000000000000 \<lparr>q_value = 2, q_unit = TradingUnit\<rparr>"

definition sample_fill_feedback :: execution_fill_feedback where
  "sample_fill_feedback =
     \<lparr>ef_fill_id = replicate 32 0, ef_order_id = replicate 32 0, ef_client_order_id = ''c1'', ef_batch_id = None,
      ef_instrument = (Twse, ''2330''), ef_activation_time = sample_open_time + 2000, ef_fill_time = sample_open_time + 2000, ef_side = Buy,
      ef_level_index = 1, ef_price = 101000000000000000000, ef_quantity = \<lparr>q_value = 2, q_unit = TradingUnit\<rparr>,
      ef_cumulative_filled = \<lparr>q_value = 2, q_unit = TradingUnit\<rparr>, ef_remaining = None\<rparr>"

lemma sample_desk_states:
  "publish_visible_trading_state sample_unit_empty (sample_visible_state sample_open_time) =
     (Ok (), sample_unit_empty\<lparr>ds_trading_states := [((Twse, ''2330''), sample_visible_state sample_open_time)]\<rparr>)"
  "publish_visible_book (sample_unit_empty\<lparr>ds_trading_states := [((Twse, ''2330''), sample_visible_state sample_open_time)]\<rparr>)
     (sample_visible sample_open_time) = (Ok (), sample_opening_desk)"
  by (simp_all add: sample_unit_empty_def sample_opening_desk_def sample_desk_def sample_visible_def sample_visible_state_def
      sample_market_book_def scheduled_eval)

lemma sample_desk_next:
  "publish_visible_trading_state (sample_desk sample_open_time taken orders fills feedbacks) (sample_visible_state sample_next_time) =
     (Ok (), (sample_desk sample_open_time taken orders fills feedbacks)\<lparr>ds_trading_states := [((Twse, ''2330''), sample_visible_state sample_next_time)]\<rparr>)"
  "publish_visible_book ((sample_desk sample_open_time taken orders fills feedbacks)
       \<lparr>ds_trading_states := [((Twse, ''2330''), sample_visible_state sample_next_time)]\<rparr>) (sample_visible sample_next_time) =
     (Ok (), sample_desk sample_next_time 0 orders fills feedbacks)"
  by (simp_all add: sample_desk_def sample_visible_def sample_visible_state_def sample_market_book_def scheduled_eval)

lemma sample_desk_submit:
  "scheduled_submit sample_hash sample_opening_desk ident \<lparr>sx_origin_identity = origin, sx_decision_time = sample_open_time + 1000\<rparr> 1 sample_unit_request =
     (Ok \<lparr>ss_order_id = replicate 32 0, ss_replaced = None\<rparr>, sample_desk sample_open_time 0 [sample_unit_order 0 SScheduled] [] [])"
  by (simp add: sample_opening_desk_def sample_desk_def sample_unit_request_def sample_unit_order_def scheduled_eval)

lemma sample_desk_activate:
  "scheduled_activate sample_hash (sample_desk sample_open_time 0 [sample_unit_order 0 SScheduled] [] []) (replicate 32 0) 2 (sample_open_time + 2000) =
     (Ok \<lparr>sa_order_id = replicate 32 0, sa_status = SFilled,
          sa_feedback = FilledFeedback (replicate 32 0) \<lparr>q_value = 2, q_unit = TradingUnit\<rparr>, sa_execution_fills = [sample_fill_feedback]\<rparr>,
      sample_desk sample_open_time 2 [sample_unit_order 2 SFilled] [sample_control_fill] [sample_fill_feedback])"
  by (simp add: sample_desk_def sample_unit_request_def sample_unit_order_def sample_visible_def sample_visible_state_def sample_market_book_def
      sample_control_fill_def sample_fill_feedback_def activation_eval)

section \<open>The coordinator\<close>

definition scheduling_strategy :: "nat strategy" where
  "scheduling_strategy = (counting_strategy Returned)\<lparr>sy_on_event := (\<lambda>ctxt k n.
     (Returned,
      (let k' = snd (emit_indicator k ''events'' (IndicatorUnsigned (n + 1))) in
       if n = 0 then snd (emit_scheduled_order k' sample_unit_request) else k'),
      n + 1))\<rparr>"

definition sample_trading_parameters :: "nat run_parameters" where
  "sample_trading_parameters =
     \<lparr>rn_hash = sample_hash, rn_strategy = scheduling_strategy, rn_schedule = sample_session_schedule,
      rn_market_data_latency_ms = 1, rn_allow_midpoint_fallback = True\<rparr>"

abbreviation sample_positions :: "(instrument_id, unit) bmap" where "sample_positions \<equiv> [((Twse, ''2330''), ())]"

abbreviation sample_known_marks :: "(instrument_id, decimal) bmap" where
  "sample_known_marks \<equiv> [((Twse, ''2330''), 100000000000000000000)]"

definition sample_coordinator ::
  "nat \<Rightarrow> scheduled_simulator \<Rightarrow> multi_ledger \<Rightarrow> replay_core \<Rightarrow> (instrument_id, decimal) bmap \<Rightarrow> (instrument_id, unit) bmap \<Rightarrow>
   nat \<Rightarrow> (control_ordering_key, backtest_control) bmap \<Rightarrow> nat scheduled_coordinator" where
  "sample_coordinator n sim ledger visible marks positions sequence pending =
     \<lparr>kc_strategy = n, kc_simulator = sim, kc_ledger = ledger,
      kc_output = (strategy_output_new sample_identity (replicate 32 0))\<lparr>out_records := map sample_record [1..<Suc n]\<rparr>,
      kc_controls = \<lparr>cq_pending = pending, cq_next_sequence = sequence\<rparr>, kc_timer_generations = [], kc_visible_core = visible,
      kc_last_visible_marks = marks, kc_open_positions = positions\<rparr>"

definition sample_observation :: "int \<Rightarrow> nat \<Rightarrow> buffered_observation" where
  "sample_observation t n =
     \<lparr>ob_canonical_event = sample_bytes t, ob_run_event_ordinal = n, ob_event_fingerprint = replicate 32 0, ob_instrument_state_version = n,
      ob_trading = sample_quote_trading n, ob_visible_at = t + 1000\<rparr>"

definition sample_feedback :: "order_feedback \<Rightarrow> execution_fill_feedback list \<Rightarrow> backtest_control" where
  "sample_feedback feedback fills = ControlDeliverFeedback [feedback] fills (replicate 32 0)"

lemmas coordinator_eval = sample_coordinator_def schedule_control_def control_schedule_def checked_u64_def in_u64_def checked_i64_def
  in_i64_def schedule_feedback_def sample_hash_def sim_call_def

lemma sample_quote_fields:
  "ev_instrument (sample_quote t) = (Twse, ''2330'')" "ev_match_time (sample_quote t) = t"
  by (simp_all add: sample_quote_def)

lemma sample_commits_ordered:
  "\<exists>cm. apply_ordered sample_hash sample_core (sample_quote sample_open_time) = (Ok cm, sample_core_1) \<and>
     cc_occurrence cm = sample_quote_occurrence sample_open_time 1"
  "\<exists>cm. apply_ordered sample_hash sample_core_1 (sample_quote sample_next_time) = (Ok cm, sample_core_2) \<and>
     cc_occurrence cm = sample_quote_occurrence sample_next_time 2"
  using sample_commits sample_quote_keyed(1) [of sample_open_time] sample_quote_keyed(1) [of sample_next_time]
  by (simp_all add: apply_ordered_def)

text \<open>A quote is buffered at its commit and released one millisecond later.\<close>

lemma sample_buffers:
  assumes "t = sample_open_time \<or> t = sample_next_time" and "co_states core = [((Twse, ''2330''), sample_quoted t n)]"
    and "in_u64 (sequence + 1)"
  shows "buffer_committed sample_trading_parameters core (sample_quote t) (sample_quote_occurrence t n)
      (sample_coordinator m sim ledger visible marks positions sequence []) =
    Ok (sample_coordinator m sim ledger visible marks positions (sequence + 1)
      [((t + 1000, ReleaseObservation, sequence), ControlRelease (sample_observation t n))])"
proof -
  have "tc_matching (sample_quote_trading n) = Enabled MethodContinuous" by (simp add: sample_quote_trading_def sample_trading_def)
  moreover have "add_milliseconds t 1 = Ok (t + 1000)"
    using assms(1) by (auto simp: add_milliseconds_def checked_u64_def in_u64_def checked_i64_def in_i64_def)
  ultimately show ?thesis
    using assms sample_quote_context(1) [OF assms(1)] sample_quote_context(2) [OF assms(1), of n] sample_quote_keyed(3) [OF assms(1)]
    by (simp add: buffer_committed_def sample_trading_parameters_def sample_quote_fields bm_get_def schedule_auction_match_def
        sample_observation_def coordinator_eval) (simp add: sample_quote_occurrence_def)
qed

text \<open>What a release makes known: the mark and the book.\<close>

lemma sample_publishes:
  assumes "co_states visible = [((Twse, ''2330''), sample_quoted t n)]"
    and "publish_visible_trading_state sim (sample_visible_state t) = (Ok (), sim1)" and "publish_visible_book sim1 (sample_visible t) = (Ok (), sim2)"
  shows "publish_observation sample_trading_parameters (sample_quote t) (sample_observation t n)
      (sample_coordinator m sim ledger visible marks positions sequence pending) =
    Ok (sample_quoted t n, True, sample_coordinator m sim2 ledger visible (bm_insert (Twse, ''2330'') 100000000000000000000 marks) positions
      sequence pending)"
proof -
  let ?k = "\<lambda>sim marks. sample_coordinator m sim ledger visible marks positions sequence pending"
  have mark: "final_mark (sample_quoted t n) True = Some 100000000000000000000"
    by (simp add: final_mark_def sample_quoted_def market_state_new_def best_bid_def best_ask_def
      sample_market_book_def first_level_def side_levels_def checked_i128_def in_i128_def)
  have book: "known (st_book (sample_quoted t n)) = Some sample_market_book" by (simp add: sample_quoted_def)
  have payload: "(case ev_payload (sample_quote t) of PBookSnapshot _ \<Rightarrow> True | PQuoteSnapshot _ \<Rightarrow> True | _ \<Rightarrow> False) = True"
    by (simp add: sample_quote_def)
  have trading: "tc_matching (ob_trading (sample_observation t n)) = Enabled MethodContinuous"
      "tc_new_order_entry (ob_trading (sample_observation t n)) = Allowed" "ob_visible_at (sample_observation t n) = t + 1000"
    by (simp_all add: sample_observation_def sample_quote_trading_def sample_trading_def)
  have evidence: "visible_trading_state_new (sample_visible_state t) = Ok (sample_visible_state t)"
      "visible_book_evidence_new (sample_visible t) = Ok (sample_visible t)"
    by (simp_all add: visible_trading_state_new_def visible_book_evidence_new_def sample_visible_state_def sample_visible_def)
  have calls: "sim_call (publish_visible_trading_state (kc_simulator (?k sim marks)) (sample_visible_state t)) (?k sim marks) = Ok ((), ?k sim1 marks)"
      "sim_call (publish_visible_book (kc_simulator (?k sim1 marks')) (sample_visible t)) (?k sim1 marks') = Ok ((), ?k sim2 marks')" for marks'
    using assms(2,3) by (simp_all add: sim_call_def sample_coordinator_def)
  have "publish_known sample_trading_parameters (sample_quote t) (sample_quoted t n) (sample_observation t n) (?k sim1 marks) =
      Ok (True, ?k sim2 (bm_insert (Twse, ''2330'') 100000000000000000000 marks))"
  proof -
    have "(?k sim1 marks)\<lparr>kc_last_visible_marks := bm_insert (Twse, ''2330'') 100000000000000000000 (kc_last_visible_marks (?k sim1 marks))\<rparr> =
        ?k sim1 (bm_insert (Twse, ''2330'') 100000000000000000000 marks)" by (simp add: sample_coordinator_def)
    moreover have "rn_allow_midpoint_fallback sample_trading_parameters" by (simp add: sample_trading_parameters_def)
    ultimately show ?thesis
      unfolding publish_known_def payload
      by (simp add: mark book trading sample_quote_fields evidence(2) calls(2) flip: sample_visible_def)
  qed
  moreover have "kc_visible_core (?k sim1 marks) = visible" by (simp add: sample_coordinator_def)
  ultimately show ?thesis
    unfolding publish_observation_def
    by (simp add: trading sample_quote_fields evidence(1) calls(1) assms(1) bm_get_def flip: sample_visible_state_def)
qed

lemmas callback_eval = commit_callback_def Let_def strategy_ended_def take_scheduled_orders_def take_timers_def charges_with_sequences_def
  into_event_records_def into_control_records_def in_u32_def schedule_timers_def charge_strategy_def apply_cash_charges_def output_extend_def
  sink_with_scheduled_orders_def emit_indicator_def emit_scheduled_order_def sample_trading_parameters_def scheduling_strategy_def
  counting_strategy_def sample_feedback_def

abbreviation sample_scheduled_controls :: "(control_ordering_key, backtest_control) bmap" where
  "sample_scheduled_controls \<equiv>
     [((sample_open_time + 1000, FeedbackPhase, 3), sample_feedback (Accepted (replicate 32 0)) []),
      ((sample_open_time + 2000, OrderActivation, 2), ControlActivate (replicate 32 0))]"

lemma sample_first_callback:
  "commit_callback sample_trading_parameters
     (sy_on_event (rn_strategy sample_trading_parameters) ctxt sink_with_scheduled_orders
        (kc_strategy (sample_coordinator 0 sample_opening_desk ledger sample_core_1 marks positions 2 [])))
     (\<lambda>sink. into_event_records sink (sample_quote_occurrence sample_open_time 1)) (sample_open_time + 1000) (replicate 32 0) 1
     (sample_coordinator 0 sample_opening_desk ledger sample_core_1 marks positions 2 []) =
   Ok (sample_coordinator 1 (sample_desk sample_open_time 0 [sample_unit_order 0 SScheduled] [] []) ledger sample_core_1 marks positions 4
         sample_scheduled_controls)"
  using sample_desk_submit
  by (simp add: callback_eval submit_request_def coordinator_eval sample_record_def sample_quote_occurrence_def sample_unit_request_def
      less_eq_control_phase_def less_control_phase_def less_prod_def' less_eq_prod_def)

lemma sample_counts: "[Suc 0..<2] = [1]" "[Suc 0..<3] = [1, 2]"
  by (simp_all add: upt_conv_Cons)

lemma sample_second_callback:
  "commit_callback sample_trading_parameters
     (sy_on_event (rn_strategy sample_trading_parameters) ctxt sink_with_scheduled_orders
        (kc_strategy (sample_coordinator 1 sim ledger sample_core_2 marks positions sequence pending)))
     (\<lambda>sink. into_event_records sink (sample_quote_occurrence sample_next_time 2)) (sample_next_time + 1000) (replicate 32 0) m
     (sample_coordinator 1 sim ledger sample_core_2 marks positions sequence pending) =
   Ok (sample_coordinator 2 sim ledger sample_core_2 marks positions sequence pending)"
  by (simp add: callback_eval sample_coordinator_def sample_record_def sample_quote_occurrence_def sample_counts flip: numeral_2_eq_2)

lemma sample_delivers:
  "deliver_feedback sample_trading_parameters t m identity feedback fills (sample_coordinator n sim ledger visible marks positions sequence pending) =
   Ok (sample_coordinator n sim ledger visible marks positions sequence pending)"
  by (simp add: deliver_feedback_def callback_eval sample_coordinator_def del: upt_Suc)

text \<open>The releases: each commits its quote to the visible core and shows it to the strategy.\<close>

lemma sample_releases:
  assumes t: "t = sample_open_time \<or> t = sample_next_time"
    and commit: "apply_ordered sample_hash visible (sample_quote t) = (Ok cm, visible')" "cc_occurrence cm = sample_quote_occurrence t n"
    and states: "co_states visible' = [((Twse, ''2330''), sample_quoted t n)]"
    and publish: "publish_visible_trading_state sim (sample_visible_state t) = (Ok (), sim1)" "publish_visible_book sim1 (sample_visible t) = (Ok (), sim2)"
    and callback: "\<And>ctxt. commit_callback sample_trading_parameters
       (sy_on_event (rn_strategy sample_trading_parameters) ctxt sink_with_scheduled_orders
          (kc_strategy (sample_coordinator m sim2 ledger visible' (bm_insert (Twse, ''2330'') 100000000000000000000 marks) positions sequence pending)))
       (\<lambda>sink. into_event_records sink (sample_quote_occurrence t n)) (t + 1000) (replicate 32 0) c
       (sample_coordinator m sim2 ledger visible' (bm_insert (Twse, ''2330'') 100000000000000000000 marks) positions sequence pending) = Ok k"
    and idle: "\<not> instrument_needs_allocation (kc_simulator k) (Twse, ''2330'') (t + 1000)"
  shows "release_observation sample_trading_parameters (sample_observation t n) c (sample_coordinator m sim ledger visible marks positions sequence pending) =
    Ok k"
proof -
  let ?k = "\<lambda>v sim marks. sample_coordinator m sim ledger v marks positions sequence pending"
  have wf: "wf_event (sample_quote t)" using t sample_quote_wf by blast
  have decoded: "from_canonical_bytes (sample_bytes t) = Ok (sample_quote t)"
    using event.roundtrip [OF wf sample_quote_keyed(3) [OF t], of "[]"] by (simp add: from_canonical_bytes_def)
  have fields: "ob_canonical_event (sample_observation t n) = sample_bytes t" "ob_run_event_ordinal (sample_observation t n) = n"
      "ob_event_fingerprint (sample_observation t n) = replicate 32 0" "ob_instrument_state_version (sample_observation t n) = n"
      "ob_visible_at (sample_observation t n) = t + 1000" "tc_market_signal (ob_trading (sample_observation t n)) = Some SigContinuous"
    by (simp_all add: sample_observation_def sample_quote_trading_def sample_trading_def)
  have occ: "eo_run_event_ordinal (sample_quote_occurrence t n) = n" "eo_event_fingerprint (sample_quote_occurrence t n) = replicate 32 0"
      "eo_instrument_state_version (sample_quote_occurrence t n) = n"
    by (simp_all add: sample_quote_occurrence_def)
  have k0: "(?k visible sim marks)\<lparr>kc_visible_core := visible'\<rparr> = ?k visible' sim marks" "kc_visible_core (?k visible sim marks) = visible"
    by (simp_all add: sample_coordinator_def)
  have env: "rn_hash sample_trading_parameters = sample_hash" by (simp add: sample_trading_parameters_def)
  show ?thesis
    unfolding release_observation_def Let_def
    using sample_publishes [OF states publish, of m ledger marks positions sequence pending] callback idle
    by (simp add: decoded fields env k0 commit occ interrupt_market_orders_def sample_quote_fields)
qed

lemma sample_first_release:
  "release_observation sample_trading_parameters (sample_observation sample_open_time 1) 1
     (sample_coordinator 0 sample_unit_empty ledger sample_core [] [] 2 []) =
   Ok (sample_coordinator 1 (sample_desk sample_open_time 0 [sample_unit_order 0 SScheduled] [] []) ledger sample_core_1 sample_known_marks [] 4
         sample_scheduled_controls)"
proof -
  obtain cm where cm: "apply_ordered sample_hash sample_core (sample_quote sample_open_time) = (Ok cm, sample_core_1)"
      "cc_occurrence cm = sample_quote_occurrence sample_open_time 1"
    using sample_commits_ordered(1) by blast
  show ?thesis
  proof (rule sample_releases [OF _ cm sample_core_states(1) sample_desk_states])
    show "\<not> instrument_needs_allocation (kc_simulator (sample_coordinator 1 (sample_desk sample_open_time 0 [sample_unit_order 0 SScheduled] [] [])
        ledger sample_core_1 sample_known_marks [] 4 sample_scheduled_controls)) (Twse, ''2330'') (sample_open_time + 1000)"
      by (simp add: instrument_needs_allocation_def sample_coordinator_def sample_desk_def sample_unit_order_def sample_unit_request_def)
  qed (simp_all only: sample_first_callback bm_insert.simps simp_thms)
qed

lemma sample_second_release:
  "release_observation sample_trading_parameters (sample_observation sample_next_time 2) c
     (sample_coordinator 1 (sample_desk sample_open_time 2 [sample_unit_order 2 SFilled] fills feedbacks) ledger sample_core_1 sample_known_marks positions
        sequence []) =
   Ok (sample_coordinator 2 (sample_desk sample_next_time 0 [sample_unit_order 2 SFilled] fills feedbacks) ledger sample_core_2 sample_known_marks positions
         sequence [])"
proof -
  obtain cm where cm: "apply_ordered sample_hash sample_core_1 (sample_quote sample_next_time) = (Ok cm, sample_core_2)"
      "cc_occurrence cm = sample_quote_occurrence sample_next_time 2"
    using sample_commits_ordered(2) by blast
  have marks: "bm_insert (Twse, ''2330'') 100000000000000000000 sample_known_marks = sample_known_marks" by simp
  show ?thesis
  proof (rule sample_releases [OF _ cm sample_core_states(2) sample_desk_next])
    show "\<not> instrument_needs_allocation (kc_simulator (sample_coordinator 2 (sample_desk sample_next_time 0 [sample_unit_order 2 SFilled] fills feedbacks)
        ledger sample_core_2 sample_known_marks positions sequence [])) (Twse, ''2330'') (sample_next_time + 1000)"
      by (simp add: instrument_needs_allocation_def sample_coordinator_def sample_desk_def sample_unit_order_def sample_unit_request_def)
  qed (simp_all only: sample_second_callback marks simp_thms)
qed

text \<open>The activation fills the order, books the fill and schedules its feedback.\<close>

lemma sample_activation:
  assumes "multi_apply_fill ledger (Twse, ''2330'') sample_control_fill = Ok booked"
    and "map (\<lambda>(i, e). (i, ld_position (il_ledger e))) (ml_ledgers booked) = [((Twse, ''2330''), 2)]"
  shows "activate_order sample_trading_parameters (replicate 32 0) 2 (sample_open_time + 2000)
      (sample_coordinator 1 (sample_desk sample_open_time 0 [sample_unit_order 0 SScheduled] [] []) ledger sample_core_1 sample_known_marks [] 4 []) =
    Ok (sample_coordinator 1 (sample_desk sample_open_time 2 [sample_unit_order 2 SFilled] [sample_control_fill] [sample_fill_feedback]) booked sample_core_1
      sample_known_marks sample_positions 5
      [((sample_open_time + 2000, FeedbackPhase, 4),
        sample_feedback (FilledFeedback (replicate 32 0) \<lparr>q_value = 2, q_unit = TradingUnit\<rparr>) [sample_fill_feedback])])"
proof -
  obtain entry where entry: "bm_get (ml_ledgers booked) (Twse, ''2330'') = Some entry" "ld_position (il_ledger entry) = 2"
    using assms(2) by (auto simp: bm_get_def)
  have desk: "ds_fills (sample_desk sample_open_time taken orders fills feedbacks) = fills"
      "ds_orders (sample_desk sample_open_time taken orders fills feedbacks) = orders" for taken orders fills feedbacks
    by (simp_all add: sample_desk_def)
  have ord: "sd_id (sample_unit_order filled status) = replicate 32 0" "sd_status (sample_unit_order filled status) = status"
      "oi_instrument (sr_intent (sd_request (sample_unit_order filled status))) = (Twse, ''2330'')" for filled status
    by (simp_all add: sample_unit_order_def sample_unit_request_def)
  have env: "rn_hash sample_trading_parameters = sample_hash" by (simp add: sample_trading_parameters_def)
  show ?thesis
    using sample_desk_activate
    by (simp add: activate_order_def order_is_scheduled_def env coordinator_eval desk ord settle_activations_def book_fills_def assms(1)
        refresh_open_position_def entry sample_feedback_def)
qed

lemma sample_queue:
  "kc_controls (sample_coordinator n sim l v marks positions sequence pending) = \<lparr>cq_pending = pending, cq_next_sequence = sequence\<rparr>"
  "(sample_coordinator n sim l v marks positions sequence pending)\<lparr>kc_controls := \<lparr>cq_pending = rest, cq_next_sequence = sequence\<rparr>\<rparr> =
     sample_coordinator n sim l v marks positions sequence rest"
  by (simp_all add: sample_coordinator_def)

lemma sample_control:
  "process_control sample_trading_parameters k \<lparr>sc_at = t, sc_control_phase = phase, sc_sequence = m, sc_payload = ControlRelease ob\<rparr> =
     release_observation sample_trading_parameters ob m k"
  "process_control sample_trading_parameters k \<lparr>sc_at = t, sc_control_phase = phase, sc_sequence = m, sc_payload = ControlActivate oid\<rparr> =
     activate_order sample_trading_parameters oid m t k"
  "process_control sample_trading_parameters k \<lparr>sc_at = t, sc_control_phase = phase, sc_sequence = m, sc_payload = sample_feedback fb fills\<rparr> =
     deliver_feedback sample_trading_parameters t m (replicate 32 0) [fb] fills k"
  by (simp_all add: process_control_def sample_feedback_def)

lemmas sample_loop = control_next_time_def control_pop_before_def control_pop_at_def control_pop_while_def sample_queue sample_control sample_delivers

lemma sample_controls_before:
  assumes "multi_apply_fill ledger (Twse, ''2330'') sample_control_fill = Ok booked"
    and "map (\<lambda>(i, e). (i, ld_position (il_ledger e))) (ml_ledgers booked) = [((Twse, ''2330''), 2)]"
  shows "process_before sample_trading_parameters sample_next_time (sample_coordinator 0 sample_unit_empty ledger sample_core [] [] 2
      [((sample_open_time + 1000, ReleaseObservation, 1), ControlRelease (sample_observation sample_open_time 1))]) =
    Some (Ok (sample_coordinator 1 (sample_desk sample_open_time 2 [sample_unit_order 2 SFilled] [sample_control_fill] [sample_fill_feedback]) booked
      sample_core_1 sample_known_marks sample_positions 5 []))"
proof -
  let ?before = "process_before sample_trading_parameters sample_next_time"
  let ?filled = "sample_coordinator 1 (sample_desk sample_open_time 2 [sample_unit_order 2 SFilled] [sample_control_fill] [sample_fill_feedback]) booked
      sample_core_1 sample_known_marks sample_positions 5"
  have "?before (sample_coordinator 0 sample_unit_empty ledger sample_core [] [] 2
      [((sample_open_time + 1000, ReleaseObservation, 1), ControlRelease (sample_observation sample_open_time 1))]) =
    ?before (sample_coordinator 1 (sample_desk sample_open_time 0 [sample_unit_order 0 SScheduled] [] []) ledger sample_core_1 sample_known_marks [] 4
         sample_scheduled_controls)"
    by (subst process_before.simps) (simp add: sample_loop sample_first_release del: One_nat_def)
  also have "\<dots> = ?before (?filled [((sample_open_time + 2000, FeedbackPhase, 4),
        sample_feedback (FilledFeedback (replicate 32 0) \<lparr>q_value = 2, q_unit = TradingUnit\<rparr>) [sample_fill_feedback])])"
    by (subst process_before.simps) (simp add: sample_loop sample_activation [OF assms, unfolded arith_simps] del: One_nat_def)
  also have "\<dots> = ?before (?filled [])"
    by (subst process_before.simps) (simp add: sample_loop del: One_nat_def)
  also have "\<dots> = Some (Ok (?filled []))"
    by (subst process_before.simps) (simp add: sample_loop del: One_nat_def)
  finally show ?thesis .
qed

section \<open>The run\<close>

abbreviation sample_settled_desk :: "int \<Rightarrow> nat \<Rightarrow> scheduled_simulator" where
  "sample_settled_desk t taken \<equiv> sample_desk t taken [sample_unit_order 2 SFilled] [sample_control_fill] [sample_fill_feedback]"

lemma sample_turns:
  assumes "multi_apply_fill ledger (Twse, ''2330'') sample_control_fill = Ok booked"
    and "map (\<lambda>(i, e). (i, ld_position (il_ledger e))) (ml_ledgers booked) = [((Twse, ''2330''), 2)]"
  shows "coordinate_event sample_trading_parameters (sample_quote sample_open_time) sample_core
      (sample_coordinator 0 sample_unit_empty ledger sample_core [] [] 1 []) =
    Some (Ok (sample_core_1, sample_coordinator 0 sample_unit_empty ledger sample_core [] [] 2
      [((sample_open_time + 1000, ReleaseObservation, 1), ControlRelease (sample_observation sample_open_time 1))]))" (is ?first)
    and "coordinate_event sample_trading_parameters (sample_quote sample_next_time) sample_core_1
      (sample_coordinator 0 sample_unit_empty ledger sample_core [] [] 2
        [((sample_open_time + 1000, ReleaseObservation, 1), ControlRelease (sample_observation sample_open_time 1))]) =
    Some (Ok (sample_core_2, sample_coordinator 1 (sample_settled_desk sample_open_time 2) booked sample_core_1 sample_known_marks sample_positions 6
      [((sample_next_time + 1000, ReleaseObservation, 5), ControlRelease (sample_observation sample_next_time 2))]))" (is ?second)
proof -
  have env: "rn_hash sample_trading_parameters = sample_hash" by (simp add: sample_trading_parameters_def)
  have time: "ok_match_time (eo_ordering_key (sample_quote_occurrence t n)) = t" for t n
    by (simp add: sample_quote_occurrence_def sample_key_def)
  have idle: "process_at sample_trading_parameters t (sample_coordinator n sim l v marks positions sequence [((t + 1000, phase, c), x)]) =
      Some (Ok (sample_coordinator n sim l v marks positions sequence [((t + 1000, phase, c), x)]))" for t n sim l v marks positions sequence phase c x
    by (subst process_at.simps) (simp add: sample_loop)
  have quiet: "process_before sample_trading_parameters t (sample_coordinator n sim l v marks positions sequence []) =
      Some (Ok (sample_coordinator n sim l v marks positions sequence []))" for t n sim l v marks positions sequence
    by (subst process_before.simps) (simp add: sample_loop)
  obtain cm1 cm2 where cm1: "apply_ordered sample_hash sample_core (sample_quote sample_open_time) = (Ok cm1, sample_core_1)"
        "cc_occurrence cm1 = sample_quote_occurrence sample_open_time 1"
      and cm2: "apply_ordered sample_hash sample_core_1 (sample_quote sample_next_time) = (Ok cm2, sample_core_2)"
        "cc_occurrence cm2 = sample_quote_occurrence sample_next_time 2"
    using sample_commits_ordered by blast
  have small: "in_u64 (1 + 1)" "in_u64 (5 + 1)" by (simp_all add: in_u64_def)
  show ?first
    using sample_buffers [OF disjI1 [OF refl] sample_core_states(1) small(1), of 0 sample_unit_empty ledger sample_core "[]" "[]"] cm1
    unfolding coordinate_event_def sample_quote_fields quiet env
    by (simp add: time idle [of sample_open_time, unfolded arith_simps] del: One_nat_def)
  show ?second
    using sample_buffers [OF disjI2 [OF refl] sample_core_states(2) small(2), of 1 "sample_settled_desk sample_open_time 2" booked sample_core_1
      sample_known_marks sample_positions] cm2
    unfolding coordinate_event_def sample_quote_fields sample_controls_before [OF assms] env
    by (simp add: time idle [of sample_next_time, unfolded arith_simps] del: One_nat_def)
qed

lemma sample_drains:
  "drain sample_trading_parameters (sample_coordinator 1 (sample_settled_desk sample_open_time 2) booked sample_core_1 sample_known_marks sample_positions 6
      [((sample_next_time + 1000, ReleaseObservation, 5), ControlRelease (sample_observation sample_next_time 2))]) =
    Some (Ok (sample_coordinator 2 (sample_settled_desk sample_next_time 0) booked sample_core_2 sample_known_marks sample_positions 6 []))"
proof -
  let ?last = "sample_coordinator 2 (sample_settled_desk sample_next_time 0) booked sample_core_2 sample_known_marks sample_positions 6 []"
  have last: "process_at sample_trading_parameters t ?last = Some (Ok ?last)" "drain sample_trading_parameters ?last = Some (Ok ?last)" for t
    by (subst process_at.simps drain.simps, simp add: sample_loop)+
  have "process_at sample_trading_parameters (sample_next_time + 1000)
      (sample_coordinator 1 (sample_settled_desk sample_open_time 2) booked sample_core_1 sample_known_marks sample_positions 6
        [((sample_next_time + 1000, ReleaseObservation, 5), ControlRelease (sample_observation sample_next_time 2))]) = Some (Ok ?last)"
    using last(1) by (subst process_at.simps) (simp add: sample_loop sample_second_release del: One_nat_def)
  then show ?thesis
    using last(2) by (subst drain.simps) (simp add: sample_loop del: One_nat_def)
qed

lemma sample_scheduled_completes:
  obtains ledger run where "multi_ledger_new 1000000000000000000000000 [sample_config] = Ok ledger"
    and "run_scheduled_multi_backtest sample_trading_parameters sample_quotes sample_core 0 sample_event_plan () sample_unit_empty ledger = Some (Ok run)"
    and "cs_simulator run = sample_settled_desk sample_next_time 0"
    and "booked_fills (cs_ledger run) (Twse, ''2330'') = Some [sample_control_fill]" and "su_event_count (snd (cs_replay run)) = 2"
proof -
  obtain ledger booked performance where ledger: "multi_ledger_new 1000000000000000000000000 [sample_config] = Ok ledger"
      "bm_keys (ml_ledgers ledger) = [(Twse, ''2330'')]" "multi_apply_fill ledger (Twse, ''2330'') sample_control_fill = Ok booked"
      "multi_reconcile booked = Ok ()" "multi_performance booked [((Twse, ''2330''), Some 100000000000000000000)] = Ok performance"
      "map (\<lambda>(i, e). (i, ld_position (il_ledger e))) (ml_ledgers ledger) = [((Twse, ''2330''), 0)]"
      "map (\<lambda>(i, e). (i, ld_position (il_ledger e))) (ml_ledgers booked) = [((Twse, ''2330''), 2)]"
    by (rule sample_ledger_books [of sample_control_fill]) (simp_all add: sample_control_fill_def fill_from_control_def)
  obtain replayed where replayed: "complete_replay sample_hash sample_core_2 = Ok replayed" "su_event_count (snd replayed) = 2"
    using sample_replay_completes by blast
  have instruments: "map st_instrument (bm_values (co_states sample_core)) = [(Twse, ''2330'')]"
    by (simp add: sample_core_def sample_state_def market_state_new_def)
  have opened: "open_scheduled_streams sample_core sample_session_schedule sample_quotes (rp_bindings sample_event_plan) () =
      Ok [[Ok (sample_quote sample_open_time), Ok (sample_quote sample_next_time)]]"
    by (simp add: sample_event_plan_def sample_binding_def check_scheduled_binding_def sample_core_def bm_get_def sample_state_def
        market_state_new_def sample_quotes_def)
  have fork: "fork_unstarted sample_core = Ok sample_core" using sample_core_new by (simp add: fork_unstarted_def sample_core_def)
  have new: "coordinator_new sample_trading_parameters 0 sample_core sample_unit_empty ledger =
      sample_coordinator 0 sample_unit_empty ledger sample_core [] [] 1 []"
    using ledger(6)
    by (auto simp: coordinator_new_def sample_coordinator_def sample_trading_parameters_def scheduling_strategy_def counting_strategy_def
        strategy_output_new_def control_queue_new_def)
  have start: "start_scheduled_backtest sample_trading_parameters sample_quotes sample_core 0 sample_event_plan () sample_unit_empty ledger =
      Ok ([[Ok (sample_quote sample_next_time)]], [Some (sample_quote sample_open_time)], [(sample_key sample_open_time, 0)],
        sample_coordinator 0 sample_unit_empty ledger sample_core [] [] 1 [])"
    using opened fork sample_quote_keyed(2) [of sample_open_time] ledger(2)
    unfolding start_scheduled_backtest_def Let_def instruments new [symmetric]
    by (simp add: sample_trading_parameters_def scheduling_strategy_def counting_strategy_def check_universes_def check_sessions_def
        sample_session_schedule_def sample_segment_def strategy_ended_def)
  have env: "rn_hash sample_trading_parameters = sample_hash" by (simp add: sample_trading_parameters_def)
  have loop: "scheduled_loop sample_trading_parameters [[Ok (sample_quote sample_next_time)]] [Some (sample_quote sample_open_time)]
      [(sample_key sample_open_time, 0)] sample_core (sample_coordinator 0 sample_unit_empty ledger sample_core [] [] 1 []) =
    Some (Ok (sample_core_2, sample_coordinator 1 (sample_settled_desk sample_open_time 2) booked sample_core_1 sample_known_marks sample_positions 6
      [((sample_next_time + 1000, ReleaseObservation, 5), ControlRelease (sample_observation sample_next_time 2))]))"
    using sample_turns [OF ledger(3,7)] sample_quote_keyed(2) [of sample_next_time] by (simp add: env del: One_nat_def)
  let ?last = "sample_coordinator 2 (sample_settled_desk sample_next_time 0) booked sample_core_2 sample_known_marks sample_positions 6 []"
  have finalized: "\<exists>out. finalize_strategy scheduling_strategy sample_core_2 2 (kc_output ?last) = (Ok out :: (strategy_output, scheduled_backtest_error) result)"
    by (simp add: finalize_strategy_def scheduling_strategy_def counting_strategy_def strategy_ended_def emit_indicator_def into_finalize_records_def
        sink_new_def in_u32_def)
  have last: "kc_ledger ?last = booked" "kc_strategy ?last = 2" "kc_simulator ?last = sample_settled_desk sample_next_time 0"
    by (simp_all add: sample_coordinator_def)
  obtain run where run: "finish_scheduled_backtest sample_trading_parameters sample_core_2 ?last = Ok run" "cs_simulator run = sample_settled_desk sample_next_time 0"
      "cs_ledger run = booked" "cs_replay run = replayed"
    using finalized ledger(4,5) replayed(1)
    by (auto simp: finish_scheduled_backtest_def last env sample_marks) (auto simp: sample_trading_parameters_def sample_marks)
  have "booked_fills ledger (Twse, ''2330'') = Some []"
    using add_ledgers_fresh [of "[]" "[sample_config]" "ml_ledgers ledger" "(Twse, ''2330'')"] ledger(1,2)
    by (cases "bm_get (ml_ledgers ledger) (Twse, ''2330'')")
      (auto simp: multi_ledger_new_def booked_fills_def bm_get_def map_of_eq_None_iff split: if_splits)
  then have "booked_fills booked (Twse, ''2330'') = Some [sample_control_fill]" using apply_fill_books [OF ledger(3)] by simp
  then show ?thesis
    using that [OF ledger(1)] start loop sample_drains run replayed(2) by (simp add: run_scheduled_multi_backtest_def)
qed

end
