(* ===== verification/ScheduledView.thy ===== *)
theory ScheduledView
  imports ScheduledRunSound ScheduledSample
begin

text \<open>
  What a scheduled backtest shows its strategy and what a completed one guarantees. The second
  interpretation of \<open>coordinator_step\<close> follows the pending releases: in queue order they lead the visible
  core to the committed one, so no release can fail and the strategy has seen every committed event when
  the run ends. The merge of the run is that of \<open>replay_frozen_multi\<close>.
\<close>

section \<open>What the strategy sees\<close>

definition release_entries :: "backtest_control control_time_queue \<Rightarrow> (control_ordering_key \<times> backtest_control) list" where
  "release_entries q = filter (\<lambda>e. is_release (snd e)) (cq_pending q)"

fun observation_of :: "backtest_control \<Rightarrow> buffered_observation" where
  "observation_of (ControlRelease ob) = ob"
| "observation_of _ = undefined"

text \<open>The observations lead one core to another: releasing them in turn commits what was committed before.\<close>

fun expects :: "(bytes \<Rightarrow> bytes) \<Rightarrow> replay_core \<Rightarrow> buffered_observation list \<Rightarrow> replay_core \<Rightarrow> bool" where
  "expects hash visible [] core \<longleftrightarrow> visible = core"
| "expects hash visible (ob # obs) core \<longleftrightarrow>
     (\<exists>e cm visible'. from_canonical_bytes (ob_canonical_event ob) = Ok e \<and> apply_ordered hash visible e = (Ok cm, visible') \<and>
        eo_run_event_ordinal (cc_occurrence cm) = ob_run_event_ordinal ob \<and>
        eo_event_fingerprint (cc_occurrence cm) = ob_event_fingerprint ob \<and>
        eo_instrument_state_version (cc_occurrence cm) = ob_instrument_state_version ob \<and>
        expects hash visible' obs core)"

lemma expects_snoc:
  "expects hash visible obs core \<Longrightarrow> expects hash core [ob] core' \<Longrightarrow> expects hash visible (obs @ [ob]) core'"
  by (induction obs arbitrary: visible) auto

lemma bm_insert_filter_out:
  "\<not> P v \<Longrightarrow> k \<notin> fst ` set m \<Longrightarrow> filter (\<lambda>e. P (snd e)) (bm_insert k v m) = filter (\<lambda>e. P (snd e)) m"
  by (induction m) auto

lemma bm_insert_filter_last:
  "P v \<Longrightarrow> bm_inv m \<Longrightarrow> k \<notin> fst ` set m \<Longrightarrow> (\<And>e. e \<in> set m \<Longrightarrow> P (snd e) \<Longrightarrow> fst e < k) \<Longrightarrow>
   filter (\<lambda>e. P (snd e)) (bm_insert k v m) = filter (\<lambda>e. P (snd e)) m @ [(k, v)]"
proof (induction m)
  case (Cons e m)
  show ?case
  proof (cases "k < fst e")
    case True
    then have "\<forall>x \<in> set (e # m). k < fst x" using Cons.prems(2) by (auto simp: bm_inv_def)
    then have "\<not> P (snd x)" if "x \<in> set (e # m)" for x using Cons.prems(4) [OF that] that by (meson less_asym)
    then have "filter (\<lambda>e. P (snd e)) (e # m) = []" unfolding filter_empty_conv by blast
    then show ?thesis using True Cons.prems(1) by simp
  next
    case False
    then have "filter (\<lambda>e. P (snd e)) (bm_insert k v m) = filter (\<lambda>e. P (snd e)) m @ [(k, v)]"
      using Cons by (auto simp: bm_inv_def)
    then show ?thesis using False Cons.prems(3) by auto
  qed
qed simp

lemma fresh_key:
  assumes "control_inv q"
  shows "(t, phase, cq_next_sequence q) \<notin> fst ` set (cq_pending q)"
  using assms unfolding control_inv_def by (metis (no_types, lifting) image_iff less_irrefl snd_conv)

lemma schedule_releases:
  assumes "control_inv q" and "control_schedule q t phase payload = (Ok n, q')"
  shows "\<not> is_release payload \<Longrightarrow> release_entries q' = release_entries q"
    and "is_release payload \<Longrightarrow> (\<And>e. e \<in> set (release_entries q) \<Longrightarrow> fst e < (t, phase, cq_next_sequence q)) \<Longrightarrow>
      release_entries q' = release_entries q @ [((t, phase, cq_next_sequence q), payload)]"
proof -
  have q': "cq_pending q' = bm_insert (t, phase, cq_next_sequence q) payload (cq_pending q)"
    using assms(2) by (auto simp: control_schedule_def Let_def split: option.splits)
  have inv: "bm_inv (cq_pending q)" using assms(1) by (simp add: control_inv_def)
  show "\<not> is_release payload \<Longrightarrow> release_entries q' = release_entries q"
    unfolding release_entries_def q' by (rule bm_insert_filter_out [OF _ fresh_key [OF assms(1)]])
  show "is_release payload \<Longrightarrow> (\<And>e. e \<in> set (release_entries q) \<Longrightarrow> fst e < (t, phase, cq_next_sequence q)) \<Longrightarrow>
      release_entries q' = release_entries q @ [((t, phase, cq_next_sequence q), payload)]"
    unfolding release_entries_def q' by (rule bm_insert_filter_last [OF _ inv fresh_key [OF assms(1)]]) auto
qed

interpretation view: coordinator_step
  "\<lambda>k k'. control_inv (kc_controls k) \<longrightarrow> control_inv (kc_controls k') \<and>
     release_entries (kc_controls k') = release_entries (kc_controls k) \<and> kc_visible_core k' = kc_visible_core k"
  env for env :: "'s run_parameters"
  by unfold_locales (auto simp: schedule_releases control_schedule_pend(1))

text \<open>
  The invariant between the committed core and a coordinator: the pending releases, in queue order, lead
  the visible core to the committed one, and none of them is due later than an event that comes next.
\<close>

definition release_bounded :: "nat \<Rightarrow> replay_core \<Rightarrow> control_ordering_key \<times> backtest_control \<Rightarrow> bool" where
  "release_bounded latency core e \<longleftrightarrow> fst (snd (fst e)) = ReleaseObservation \<and>
     (\<exists>l. co_last_ordering_key core = Some l \<and> fst (fst e) \<le> ok_match_time l + int (latency * 1000))"

definition visible_inv :: "'s run_parameters \<Rightarrow> replay_core \<Rightarrow> 's scheduled_coordinator \<Rightarrow> bool" where
  "visible_inv env core k \<longleftrightarrow> control_inv (kc_controls k) \<and>
     (\<forall>e \<in> set (release_entries (kc_controls k)). release_bounded (rn_market_data_latency_ms env) core e) \<and>
     expects (rn_hash env) (kc_visible_core k) (map (\<lambda>e. observation_of (snd e)) (release_entries (kc_controls k))) core"

definition popped_releases :: "backtest_control scheduled_control list \<Rightarrow> buffered_observation list" where
  "popped_releases popped = map (\<lambda>c. observation_of (sc_payload c)) (filter (\<lambda>c. is_release (sc_payload c)) popped)"

lemma pop_entries_split:
  "pop_entries predicate m = (popped, rest) \<Longrightarrow>
   map (\<lambda>e. observation_of (snd e)) (filter (\<lambda>e. is_release (snd e)) m) =
     popped_releases popped @ map (\<lambda>e. observation_of (snd e)) (filter (\<lambda>e. is_release (snd e)) rest) \<and>
   (\<exists>first. m = first @ rest)"
proof (induction predicate m arbitrary: popped rule: pop_entries.induct)
  case (1 predicate)
  then show ?case by (simp add: popped_releases_def)
next
  case (2 predicate key payload m)
  show ?case
  proof (cases "predicate key")
    case True
    obtain popped' rest' where "pop_entries predicate m = (popped', rest')" by (cases "pop_entries predicate m")
    then show ?thesis using 2 True by (auto simp: popped_releases_def)
  next
    case False
    then show ?thesis using 2 by (auto simp: popped_releases_def)
  qed
qed

lemma pop_while_inv:
  assumes "control_inv q" and "control_pop_while q predicate = (popped, q')"
  shows "control_inv q'" and "set (release_entries q') \<subseteq> set (release_entries q)"
    and "map (\<lambda>e. observation_of (snd e)) (release_entries q) =
      popped_releases popped @ map (\<lambda>e. observation_of (snd e)) (release_entries q')"
proof -
  obtain rest where rest: "pop_entries predicate (cq_pending q) = (popped, rest)" "q' = q\<lparr>cq_pending := rest\<rparr>"
    using assms(2) by (auto simp: control_pop_while_def split: prod.splits)
  from pop_entries_split [OF rest(1)] obtain first where first: "cq_pending q = first @ rest" by blast
  show "control_inv q'" using assms(1) unfolding rest(2) by (auto simp: control_inv_def first bm_inv_def sorted_wrt_append)
  show "set (release_entries q') \<subseteq> set (release_entries q)" by (auto simp: release_entries_def rest(2) first)
  show "map (\<lambda>e. observation_of (snd e)) (release_entries q) =
      popped_releases popped @ map (\<lambda>e. observation_of (snd e)) (release_entries q')"
    using pop_entries_split [OF rest(1)] by (simp add: release_entries_def rest(2))
qed

subsection \<open>Controls never fail the visible replay\<close>

definition replay_free :: "('a, scheduled_backtest_error) result \<Rightarrow> bool" where
  "replay_free r \<longleftrightarrow> (\<forall>m. r \<noteq> Err (BacktestReplay m))"

lemma replay_free_simps [simp]:
  "replay_free (Ok x)" "replay_free (Err err) \<longleftrightarrow> (\<forall>m. err \<noteq> BacktestReplay m)" "replay_free (ok_or v err) \<longleftrightarrow> v \<noteq> None \<or> (\<forall>m. err \<noteq> BacktestReplay m)"
  by (cases v; auto simp: replay_free_def)+

lemma replay_free_bind [intro!]:
  "replay_free r \<Longrightarrow> (\<And>x. r = Ok x \<Longrightarrow> replay_free (f x)) \<Longrightarrow> replay_free (rbind r f)"
  by (cases r) (auto simp: replay_free_def)

lemma replay_free_map_err [intro!]: "(\<And>err m. g err \<noteq> BacktestReplay m) \<Longrightarrow> replay_free (map_err g r)"
  by (cases r) (auto simp: replay_free_def)

lemma replay_free_rfold [intro!]: "(\<And>k x. replay_free (f k x)) \<Longrightarrow> replay_free (rfold f k xs)"
  by (induction xs arbitrary: k) auto

lemma replay_free_rmap [intro!]: "(\<And>x. replay_free (f x)) \<Longrightarrow> replay_free (rmap f xs)"
  by (induction xs) auto

lemma simulation_failed_not_replay [simp]: "simulation_failed err \<noteq> BacktestReplay m"
  by (simp add: simulation_failed_def)

lemma replay_free_basic [simp, intro!]:
  "replay_free (strategy_ended ended)" "replay_free (sim_call out k)" "replay_free (schedule_control t phase payload k)"
  "replay_free (schedule_feedback hash t fb fills oid n k)" "replay_free (book_fills i n fs m)" "replay_free (refresh_open_position i k)"
  by (auto simp: strategy_ended_def sim_call_def schedule_control_def schedule_feedback_def book_fills_def refresh_open_position_def
      split: callback_end.splits prod.splits result.splits)

lemma replay_free_callback [simp, intro!]: "replay_free (commit_callback env called records t origin n k)"
proof -
  have "replay_free (submit_request hash strategy_id t origin m n request k)" for hash strategy_id m request and k :: "'a scheduled_coordinator"
    by (auto simp: submit_request_def split: option.split)
  then have "replay_free (submit_requests hash strategy_id t origin m n requests k)" for hash strategy_id m requests and k :: "'a scheduled_coordinator"
    by (induction requests arbitrary: m k) auto
  moreover have "replay_free (schedule_timers t timers k)" for timers and k :: "'a scheduled_coordinator"
    by (auto simp: schedule_timers_def)
  moreover have "replay_free (charge_strategy hash t origin charges k)" for hash charges and k :: "'a scheduled_coordinator"
    by (auto simp: charge_strategy_def)
  ultimately show ?thesis by (auto simp: commit_callback_def Let_def split: prod.split)
qed

lemma replay_free_settle [simp, intro!]: "replay_free (settle_activations hash i n as t m k)"
  by (auto simp: settle_activations_def)

lemma replay_free_equity [simp, intro!]: "replay_free (current_equity allow k)"
  by (auto simp: current_equity_def)

lemma replay_free_control:
  assumes "\<not> is_release (sc_payload c)"
  shows "replay_free (process_control env k c)"
  using assms
  by (cases "sc_payload c")
    (auto simp: process_control_def activate_order_def fire_timer_def deliver_feedback_def Let_def split: option.split)

lemma replay_free_release:
  assumes "from_canonical_bytes (ob_canonical_event ob) = Ok e" and "apply_ordered (rn_hash env) (kc_visible_core k) e = (Ok cm, visible)"
    and "eo_run_event_ordinal (cc_occurrence cm) = ob_run_event_ordinal ob"
    and "eo_event_fingerprint (cc_occurrence cm) = ob_event_fingerprint ob"
    and "eo_instrument_state_version (cc_occurrence cm) = ob_instrument_state_version ob"
  shows "replay_free (release_observation env ob n k)"
proof -
  have "replay_free (interrupt_market_orders hash e occ ob n k)" for hash occ and k :: "'a scheduled_coordinator"
    by (auto simp: interrupt_market_orders_def)
  moreover have "replay_free (publish_known env e state ob k)" for state and k :: "'a scheduled_coordinator"
    by (auto simp: publish_known_def Let_def split: option.split)
  then have "replay_free (publish_observation env e ob k)" for k :: "'a scheduled_coordinator"
    by (auto simp: publish_observation_def)
  ultimately show ?thesis using assms by (auto simp: release_observation_def Let_def)
qed

text \<open>A popped batch keeps the view and cannot fail the visible replay.\<close>

lemma visible_batch_popped:
  assumes "control_inv (kc_controls k)"
    and "\<forall>e \<in> set (release_entries (kc_controls k)). release_bounded (rn_market_data_latency_ms env) core e"
    and "expects (rn_hash env) (kc_visible_core k)
      (popped_releases popped @ map (\<lambda>e. observation_of (snd e)) (release_entries (kc_controls k))) core"
  shows "outcome_ok (visible_inv env core) (\<lambda>err. \<forall>m. err \<noteq> BacktestReplay m) (rfold (process_control env) k popped)"
  using assms
proof (induction popped arbitrary: k)
  case Nil
  then show ?case by (simp add: visible_inv_def popped_releases_def)
next
  case (Cons c popped)
  have one: "replay_free (process_control env k c) \<and> (\<forall>k1. process_control env k c = Ok k1 \<longrightarrow> control_inv (kc_controls k1) \<and>
      release_entries (kc_controls k1) = release_entries (kc_controls k) \<and>
      expects (rn_hash env) (kc_visible_core k1)
        (popped_releases popped @ map (\<lambda>e. observation_of (snd e)) (release_entries (kc_controls k))) core)"
  proof (cases "is_release (sc_payload c)")
    case True
    then obtain ob where ob: "sc_payload c = ControlRelease ob" by (cases "sc_payload c") auto
    then have c: "process_control env k c = release_observation env ob (sc_sequence c) k" by (simp add: process_control_def)
    obtain e cm visible where e: "from_canonical_bytes (ob_canonical_event ob) = Ok e"
        "apply_ordered (rn_hash env) (kc_visible_core k) e = (Ok cm, visible)"
        "eo_run_event_ordinal (cc_occurrence cm) = ob_run_event_ordinal ob"
        "eo_event_fingerprint (cc_occurrence cm) = ob_event_fingerprint ob"
        "eo_instrument_state_version (cc_occurrence cm) = ob_instrument_state_version ob"
        and rest: "expects (rn_hash env) visible
          (popped_releases popped @ map (\<lambda>e. observation_of (snd e)) (release_entries (kc_controls k))) core"
      using Cons.prems(3) by (auto simp: popped_releases_def ob)
    have "control_inv (kc_controls k1) \<and> release_entries (kc_controls k1) = release_entries (kc_controls k) \<and> kc_visible_core k1 = visible"
      if "release_observation env ob (sc_sequence c) k = Ok k1" for k1
      by (rule view.release_step [OF that]) (use e(1,2) Cons.prems(1) in simp)
    then show ?thesis using replay_free_release [OF e] rest unfolding c by simp
  next
    case False
    then have "popped_releases (c # popped) = popped_releases popped" by (simp add: popped_releases_def)
    moreover have "control_inv (kc_controls k1) \<and> release_entries (kc_controls k1) = release_entries (kc_controls k) \<and>
        kc_visible_core k1 = kc_visible_core k" if "process_control env k c = Ok k1" for k1
      using view.control_step [OF that False] Cons.prems(1) by blast
    ultimately show ?thesis using replay_free_control [OF False] Cons.prems(3) by simp
  qed
  show ?case
  proof (cases "process_control env k c")
    case (Ok k1)
    then show ?thesis using Cons.IH [of k1] Cons.prems(2) one by simp
  next
    case (Err err)
    then show ?thesis using one by simp
  qed
qed

lemma visible_batch: "batch_sound env (visible_inv env core) (\<lambda>err. \<forall>m. err \<noteq> BacktestReplay m)"
  unfolding batch_sound_def
proof (intro allI impI)
  fix k predicate popped q
  assume inv: "visible_inv env core k" and pop: "control_pop_while (kc_controls k) predicate = (popped, q)"
  note q = pop_while_inv [OF _ pop]
  show "outcome_ok (visible_inv env core) (\<lambda>err. \<forall>m. err \<noteq> BacktestReplay m) (rfold (process_control env) (k\<lparr>kc_controls := q\<rparr>) popped)"
    by (rule visible_batch_popped) (use inv q in \<open>auto simp: visible_inv_def\<close>)
qed

section \<open>Buffering keeps the view\<close>

lemma key_match_time: "k \<le> l \<Longrightarrow> ok_match_time k \<le> ok_match_time l"
  by (auto simp: less_eq_ordering_key_def key_fields_def less_eq_prod_simp)

lemma decode_encoded:
  assumes "wf_event e" and "to_canonical_bytes e = Ok c"
  shows "from_canonical_bytes c = Ok e"
  using event.roundtrip [OF assms, of "[]"] by (simp add: from_canonical_bytes_def)

lemma buffered_visible:
  assumes wf: "wf_event e" and inv: "visible_inv env core k" and applied: "apply_ordered (rn_hash env) core e = (Ok cm, core')"
    and buffered: "buffer_committed env core' e (cc_occurrence cm) k = Ok k'"
  shows "visible_inv env core' k'"
proof -
  let ?q = "kc_controls k" and ?occ = "cc_occurrence cm"
  obtain key canonical where key: "for_event_and_canonical (rn_hash env) e = Ok (key, canonical)"
      "validate_global_order core key canonical = Ok ()" "co_last_ordering_key core' = Some key"
    using apply_ordered_effect [OF applied] by metis
  have time: "ok_match_time key = ev_match_time e"
    using key(1) by (auto simp: for_event_and_canonical_def for_event_with_fingerprint_def)
  have later: "ok_match_time l \<le> ev_match_time e" if "co_last_ordering_key core = Some l" for l
    using key_match_time [OF global_order_Ok [OF key(2) that]] time by simp
  obtain visible_at q1 n q2 ob where v: "add_milliseconds (ev_match_time e) (rn_market_data_latency_ms env) = Ok visible_at"
      and q1: "q1 = ?q \<or> (\<exists>m ev. control_schedule ?q (ev_match_time e) FillAllocation (ControlAllocateAuctionMatch ev) = (Ok m, q1))"
      and q2: "control_schedule q1 visible_at ReleaseObservation (ControlRelease ob) = (Ok n, q2)" and k': "k' = k\<lparr>kc_controls := q2\<rparr>"
      and ob: "to_canonical_bytes e = Ok (ob_canonical_event ob)" "ob_run_event_ordinal ob = eo_run_event_ordinal ?occ"
        "ob_event_fingerprint ob = eo_event_fingerprint ?occ" "ob_instrument_state_version ob = eo_instrument_state_version ?occ"
    by (rule buffer_committed_cases [OF buffered])
  have inv0: "control_inv ?q" using inv by (simp add: visible_inv_def)
  have inv1: "control_inv q1" "release_entries q1 = release_entries ?q"
    using inv0 q1 control_schedule_pend(1) [OF inv0] schedule_releases(1) [OF inv0] by auto
  have at: "visible_at = ev_match_time e + int (rn_market_data_latency_ms env * 1000)" by (rule add_milliseconds_Ok [OF v])
  have bounded: "fst (snd (fst x)) = ReleaseObservation \<and> fst (fst x) \<le> visible_at" if "x \<in> set (release_entries q1)" for x
  proof -
    have "release_bounded (rn_market_data_latency_ms env) core x" using inv that by (simp add: inv1(2) visible_inv_def)
    then obtain l where "fst (snd (fst x)) = ReleaseObservation" "co_last_ordering_key core = Some l"
        "fst (fst x) \<le> ok_match_time l + int (rn_market_data_latency_ms env * 1000)"
      unfolding release_bounded_def by (elim conjE exE)
    then show ?thesis using later [of l] at by linarith
  qed
  have "fst x < (visible_at, ReleaseObservation, cq_next_sequence q1)" if "x \<in> set (release_entries q1)" for x
  proof -
    have "snd (snd (fst x)) < cq_next_sequence q1"
      using inv1(1) that unfolding control_inv_def release_entries_def by fastforce
    then show ?thesis using bounded [OF that] by (cases "fst x") (auto simp: less_prod_simp)
  qed
  from schedule_releases(2) [OF inv1(1) q2 _ this]
  have entries: "release_entries q2 = release_entries ?q @ [((visible_at, ReleaseObservation, cq_next_sequence q1), ControlRelease ob)]"
    using inv1(2) by simp
  have "expects (rn_hash env) core [ob] core'"
    using decode_encoded [OF wf ob(1)] applied ob(2-4) by simp
  then have "expects (rn_hash env) (kc_visible_core k) (map (\<lambda>e. observation_of (snd e)) (release_entries q2)) core'"
    using inv expects_snoc unfolding visible_inv_def entries by fastforce
  moreover have "release_bounded (rn_market_data_latency_ms env) core' x" if "x \<in> set (release_entries q2)" for x
    using that bounded at key(3) time unfolding entries inv1(2) release_bounded_def by fastforce
  moreover have "control_inv q2" using control_schedule_pend(1) [OF inv1(1) q2] .
  ultimately show ?thesis by (simp add: visible_inv_def k')
qed

section \<open>The loop over the merged events\<close>

definition streams_all :: "(domain_event \<Rightarrow> bool) \<Rightarrow> event_stream list \<Rightarrow> domain_event option list \<Rightarrow> bool" where
  "streams_all W streams heads \<longleftrightarrow>
     (\<forall>s \<in> set streams. \<forall>e. Ok e \<in> set s \<longrightarrow> W e) \<and> (\<forall>e. Some e \<in> set heads \<longrightarrow> W e)"

abbreviation streams_wf :: "event_stream list \<Rightarrow> domain_event option list \<Rightarrow> bool" where
  "streams_wf \<equiv> streams_all wf_event"

lemma streams_all_next:
  assumes "streams_all W streams heads" and "i < length streams"
  shows "streams_all W streams (heads[i := None])"
    and "streams ! i = Ok e # s \<Longrightarrow> streams_all W (streams[i := s]) (heads[i := Some e])"
proof -
  have wf: "W x" if "Ok x \<in> set t" "t \<in> set streams" for x t using assms(1) that unfolding streams_all_def by blast
  have heads: "W x" if "Some x \<in> set (heads[i := h])" "\<forall>y. h = Some y \<longrightarrow> W y" for x h
    using assms(1) subsetD [OF set_update_subset_insert that(1)] that(2) unfolding streams_all_def by auto
  show "streams_all W streams (heads[i := None])" using wf heads [of _ None] unfolding streams_all_def by blast
  assume i: "streams ! i = Ok e # s"
  have at: "W x" if "Ok x \<in> set (streams ! i)" for x by (rule wf [OF that nth_mem [OF assms(2)]])
  have "W x" if "t \<in> set (streams[i := s])" "Ok x \<in> set t" for x t
    using subsetD [OF set_update_subset_insert that(1)] that(2) wf [of x t] at [of x] i by auto
  moreover have "W e" using at i by simp
  ultimately show "streams_all W (streams[i := s]) (heads[i := Some e])" using heads [of _ "Some e"] unfolding streams_all_def by blast
qed

lemma scheduled_loop_keeps:
  assumes "scheduled_loop env streams heads pending core k = Some (Ok (core', k'))"
    and "\<And>e core k core' k'. coordinate_event env e core k = Some (Ok (core', k')) \<Longrightarrow> W e \<Longrightarrow> P core k \<Longrightarrow> P core' k'"
    and "streams_all W streams heads" and "P core k"
  shows "P core' k'"
  using assms
proof (induction env streams heads pending core k rule: scheduled_loop.induct)
  case (1 env streams heads core k)
  then show ?case by simp
next
  case (2 env streams heads key i pending core k)
  obtain e where head: "i < length streams" "i < length heads" "heads ! i = Some e"
    using "2.prems"(1) by (auto split: if_splits option.splits)
  obtain core1 k1 where turn: "coordinate_event env e core k = Some (Ok (core1, k1))"
    using "2.prems"(1) head by (auto split: option.splits result.splits)
  have "W e" using "2.prems"(3) head by (metis nth_mem streams_all_def)
  then have P: "P core1 k1" using "2.prems"(2) [OF turn] "2.prems"(4) by blast
  show ?case
  proof (cases "streams ! i")
    case Nil
    have "scheduled_loop env streams (heads[i := None]) pending core1 k1 = Some (Ok (core', k'))"
      using "2.prems"(1) head turn Nil by simp
    then show ?thesis using "2.IH"(1) [of e "Ok (core1, k1)"] head turn Nil P "2.prems"(2) streams_all_next(1) [OF "2.prems"(3) head(1)]
      by simp
  next
    case (Cons x rest)
    then obtain n key' where "x = Ok n" "for_event (rn_hash env) n = Ok key'"
      using "2.prems"(1) head turn by (auto split: result.splits)
    then show ?thesis using 2 Cons head turn P streams_all_next(2) [OF "2.prems"(3) head(1)] by simp
  qed
qed

lemma coordinate_event_Ok:
  assumes "coordinate_event env e core k = Some (Ok (core', k'))"
  obtains k1 cm k2 where "process_before env (ev_match_time e) k = Some (Ok k1)"
    and "apply_ordered (rn_hash env) core e = (Ok cm, core')" and "buffer_committed env core' e (cc_occurrence cm) k1 = Ok k2"
    and "process_at env (ok_match_time (eo_ordering_key (cc_occurrence cm))) k2 = Some (Ok k')"
proof -
  obtain k1 where k1: "process_before env (ev_match_time e) k = Some (Ok k1)"
    using assms by (cases "process_before env (ev_match_time e) k" rule: option.exhaust; simp add: coordinate_event_def split: result.splits)
  obtain r core1 where applied: "apply_ordered (rn_hash env) core e = (r, core1)" by (cases "apply_ordered (rn_hash env) core e")
  then obtain cm where r: "r = Ok cm" using assms k1 by (cases r) (auto simp: coordinate_event_def)
  obtain k2 where k2: "buffer_committed env core1 e (cc_occurrence cm) k1 = Ok k2"
    using assms k1 applied r by (cases "buffer_committed env core1 e (cc_occurrence cm) k1") (auto simp: coordinate_event_def)
  show ?thesis
    using that [OF k1 _ _ ] assms k1 applied r k2 by (auto simp: coordinate_event_def)
qed

lemma booking_event:
  assumes "coordinate_event env e core k = Some (Ok (core', k'))" and "booking_inv k"
  shows "booking_inv k'"
  using assms(1)
proof (rule coordinate_event_Ok)
  fix k1 cm k2
  assume k1: "process_before env (ev_match_time e) k = Some (Ok k1)" and buffered: "buffer_committed env core' e (cc_occurrence cm) k1 = Ok k2"
    and k': "process_at env (ok_match_time (eo_ordering_key (cc_occurrence cm))) k2 = Some (Ok k')"
  have "booking_inv k1" using process_before_sound [OF k1] booking_batch assms(2) by fastforce
  moreover obtain q where "k2 = k1\<lparr>kc_controls := q\<rparr>" using buffer_committed_cases [OF buffered] by metis
  ultimately have "booking_inv k2" by (simp add: booking_inv_def)
  then show ?thesis using process_at_sound [OF k'] booking_batch by fastforce
qed

lemma visible_event:
  assumes "coordinate_event env e core k = Some (Ok (core', k'))" and "wf_event e" and "visible_inv env core k"
  shows "visible_inv env core' k'"
  using assms(1)
proof (rule coordinate_event_Ok)
  fix k1 cm k2
  assume k1: "process_before env (ev_match_time e) k = Some (Ok k1)" and applied: "apply_ordered (rn_hash env) core e = (Ok cm, core')"
    and buffered: "buffer_committed env core' e (cc_occurrence cm) k1 = Ok k2"
    and k': "process_at env (ok_match_time (eo_ordering_key (cc_occurrence cm))) k2 = Some (Ok k')"
  have "visible_inv env core k1" using process_before_sound [OF k1] visible_batch assms(3) by fastforce
  from buffered_visible [OF assms(2) this applied buffered]
  show ?thesis using process_at_sound [OF k'] visible_batch by fastforce
qed

lemma booking_loop:
  assumes "scheduled_loop env streams heads pending core k = Some (Ok (core', k'))" and "booking_inv k"
  shows "booking_inv k'"
  by (rule scheduled_loop_keeps [where P = "\<lambda>_. booking_inv" and W = "\<lambda>_. True", OF assms(1) _ _ assms(2)])
    (simp_all add: booking_event streams_all_def)

lemma visible_loop:
  assumes "scheduled_loop env streams heads pending core k = Some (Ok (core', k'))" and "streams_wf streams heads" and "visible_inv env core k"
  shows "visible_inv env core' k'"
  by (rule scheduled_loop_keeps [where P = "visible_inv env", OF assms(1) _ assms(2,3)]) (rule visible_event)

section \<open>The scheduled merge is the merge of the replay\<close>

definition with_canonical :: "(bytes \<Rightarrow> bytes) \<Rightarrow> domain_event option \<Rightarrow> merge_head" where
  "with_canonical hash = map_option (\<lambda>e. (e, event_canonical hash e))"

definition pending_heads :: "(bytes \<Rightarrow> bytes) \<Rightarrow> nat \<Rightarrow> domain_event option list \<Rightarrow> (ordering_key \<times> nat) list \<Rightarrow> bool" where
  "pending_heads hash n heads pending \<longleftrightarrow> distinct (map snd pending) \<and>
     (\<forall>(key, i) \<in> set pending. \<exists>j e. i = n + j \<and> j < length heads \<and> heads ! j = Some e \<and> for_event hash e = Ok key)"

lemma for_event_keyed: "for_event hash e = Ok key \<Longrightarrow> for_event_and_canonical hash e = Ok (key, event_canonical hash e)"
  by (auto simp: for_event_def event_canonical_def)

lemma distinct_insort_snd: "distinct (map snd (insort x xs)) \<longleftrightarrow> distinct (map snd (x # xs))"
  by (rule mset_eq_imp_distinct_iff) simp

lemma prime_event_heads_merge:
  "prime_event_heads hash n ss = Ok (streams, heads, pending) \<Longrightarrow>
   prime_heads hash n ss = Ok (streams, map (with_canonical hash) heads, pending) \<and> pending_heads hash n heads pending"
proof (induction ss arbitrary: n streams heads pending)
  case Nil
  then show ?case by (simp add: pending_heads_def)
next
  case (Cons s ss)
  obtain r s' where nx: "next_event s = (r, s')" by (cases "next_event s")
  obtain streams' heads' pending' where rest: "prime_event_heads hash (Suc n) ss = Ok (streams', heads', pending')"
    using Cons.prems nx by (auto split: result.splits option.splits)
  note IH = Cons.IH [OF rest]
  have shift: "\<exists>j e. i = n + j \<and> j < length (h # heads') \<and> (h # heads') ! j = Some e \<and> for_event hash e = Ok key \<and> i \<noteq> n"
    if "(key, i) \<in> set pending'" for key i h
  proof -
    obtain j e where "i = Suc n + j" "j < length heads'" "heads' ! j = Some e" "for_event hash e = Ok key"
      using IH \<open>(key, i) \<in> set pending'\<close> unfolding pending_heads_def by blast
    then show ?thesis by (intro exI [of _ "Suc j"] exI [of _ e]) simp
  qed
  show ?case
  proof (cases "r = Ok None")
    case True
    then have "streams = s' # streams'" "heads = None # heads'" "pending = pending'" using Cons.prems nx rest by auto
    then show ?thesis using IH shift nx rest True unfolding pending_heads_def by (fastforce simp: with_canonical_def)
  next
    case False
    then obtain e key where e: "r = Ok (Some e)" "for_event hash e = Ok key"
      using Cons.prems nx by (auto split: result.splits option.splits)
    then have out: "streams = s' # streams'" "heads = Some e # heads'" "pending = insort (key, n) pending'"
      using Cons.prems nx rest by auto
    have "prime_heads hash n (s # ss) = Ok (streams, map (with_canonical hash) heads, pending)"
      using IH nx e for_event_keyed [OF e(2)] out by (simp add: with_canonical_def)
    moreover have "distinct (map snd pending)"
      using IH shift unfolding out(3) distinct_insort_snd pending_heads_def by fastforce
    moreover have "\<exists>j e. i = n + j \<and> j < length heads \<and> heads ! j = Some e \<and> for_event hash e = Ok key'"
      if "(key', i) \<in> set pending" for key' i
    proof (cases "(key', i) = (key, n)")
      case True
      then show ?thesis using e(2) out(2) by (intro exI [of _ 0] exI [of _ e]) simp
    next
      case False
      then have "(key', i) \<in> set pending'" using that unfolding out(3) set_insort_key by auto
      then show ?thesis using shift [of key' i "Some e"] out(2) by blast
    qed
    ultimately show ?thesis unfolding pending_heads_def by blast
  qed
qed

lemma pending_heads_next:
  assumes "pending_heads hash 0 heads ((key, i) # pending)"
  shows "pending_heads hash 0 (heads[i := None]) pending"
    and "for_event hash e = Ok key' \<Longrightarrow> pending_heads hash 0 (heads[i := Some e]) (insort (key', i) pending)"
proof -
  have i: "i < length heads" and fresh: "i \<notin> snd ` set pending" and "distinct (map snd pending)"
    using assms by (auto simp: pending_heads_def)
  have kept: "j < length heads \<and> (\<exists>x. heads[i := h] ! j = Some x \<and> for_event hash x = Ok k)" if "(k, j) \<in> set pending" for k j h
  proof -
    have "j \<noteq> i" using fresh that by force
    then show ?thesis using assms that by (fastforce simp: pending_heads_def)
  qed
  show "pending_heads hash 0 (heads[i := None]) pending"
    using kept \<open>distinct (map snd pending)\<close> by (fastforce simp: pending_heads_def)
  show "pending_heads hash 0 (heads[i := Some e]) (insort (key', i) pending)" if "for_event hash e = Ok key'"
    using kept [of _ _ "Some e"] that i fresh \<open>distinct (map snd pending)\<close>
    unfolding pending_heads_def distinct_insort_snd by (fastforce simp: set_insort_key)
qed

lemma scheduled_loop_merges:
  assumes "scheduled_loop env streams heads pending core k = Some (Ok (core', k'))"
    and "pending_heads (rn_hash env) 0 heads pending"
  shows "merge_loop (rn_hash env) no_callback streams (map (with_canonical (rn_hash env)) heads) pending core () = (Ok (), core', ())"
  using assms
proof (induction env streams heads pending core k rule: scheduled_loop.induct)
  case (1 env streams heads core k)
  then show ?case by simp
next
  case (2 env streams heads key i pending core k)
  obtain e where head: "i < length streams" "i < length heads" "heads ! i = Some e"
    using "2.prems"(1) by (auto split: if_splits option.splits)
  obtain core1 k1 where turn: "coordinate_event env e core k = Some (Ok (core1, k1))"
    using "2.prems"(1) head by (auto split: option.splits result.splits)
  obtain cm where applied: "apply_ordered (rn_hash env) core e = (Ok cm, core1)" using coordinate_event_Ok [OF turn] by metis
  have "for_event (rn_hash env) e = Ok key" using "2.prems"(2) head(3) by (auto simp: pending_heads_def)
  then have prepared: "apply_prepared_ordered (rn_hash env) core e key (event_canonical (rn_hash env) e) = (Ok cm, core1)"
    using applied for_event_keyed by (simp add: apply_ordered_def)
  have merge_head: "with_canonical (rn_hash env) (heads ! i) = Some (e, event_canonical (rn_hash env) e)"
    using head(3) by (simp add: with_canonical_def)
  show ?case
  proof (cases "streams ! i")
    case Nil
    then show ?thesis
      using 2 head turn prepared merge_head pending_heads_next(1) [OF "2.prems"(2)]
      by (simp add: map_update with_canonical_def)
  next
    case (Cons x rest)
    then obtain n key' where n: "x = Ok n" "for_event (rn_hash env) n = Ok key'"
      using "2.prems"(1) head turn by (auto split: result.splits)
    then show ?thesis
      using 2 Cons head turn prepared merge_head pending_heads_next(2) [OF "2.prems"(2) n(2)] for_event_keyed [OF n(2)]
      by (simp add: map_update with_canonical_def)
  qed
qed

lemma open_scheduled_streams_open:
  "open_scheduled_streams core schedule factory bs f = Ok ss \<Longrightarrow> \<forall>b \<in> set bs. check_binding core b = Ok () \<Longrightarrow>
   open_streams core factory bs f = Ok ss"
  by (induction bs arbitrary: f ss) auto

section \<open>The visible core starts as the committed core\<close>

lemma bm_insert_last: "bm_inv (m @ [(k, v)]) \<Longrightarrow> bm_insert k v m = m @ [(k, v)]"
  by (induction m) (auto simp: bm_inv_def)

lemma bm_get_absent: "bm_inv (m @ (k, v) # rest) \<Longrightarrow> bm_get m k = None"
  by (fastforce simp: bm_inv_def bm_get_def map_of_eq_None_iff sorted_wrt_append)

lemma bm_inv_prefix: "bm_inv (m @ x # rest) \<Longrightarrow> bm_inv (m @ [x])"
  by (auto simp: bm_inv_def sorted_wrt_append)

lemma collect_again: "bm_inv (m @ rest) \<Longrightarrow> fold (\<lambda>(k, v). bm_insert k v) rest m = m @ rest"
proof (induction rest arbitrary: m)
  case (Cons x rest)
  then show ?case using Cons.IH [of "m @ [x]"] bm_insert_last [OF bm_inv_prefix, of m "fst x" "snd x" rest] by (cases x) simp
qed simp

lemma bm_collect_sorted: "bm_inv m \<Longrightarrow> bm_collect m = m"
  using collect_again [of "[]" m] by (simp add: bm_collect_def)

lemma insert_states_again:
  "bm_inv (m @ rest) \<Longrightarrow> \<forall>x \<in> set rest. st_instrument (snd x) = fst x \<Longrightarrow> rfold insert_state m (map snd rest) = Ok (m @ rest)"
proof (induction rest arbitrary: m)
  case (Cons x rest)
  obtain i s where x: "x = (i, s)" by (cases x)
  have "insert_state m s = Ok (m @ [x])"
    using Cons.prems bm_get_absent [of m i s rest] bm_insert_last [OF bm_inv_prefix, of m i s rest]
    by (simp add: insert_state_def x)
  then show ?case using Cons.IH [of "m @ [x]"] Cons.prems x by simp
qed simp

definition schedule_settled :: "instrument_id list \<Rightarrow> instrument_id \<times> replay_context_window list \<Rightarrow> bool" where
  "schedule_settled universe x \<longleftrightarrow> fst x \<in> set universe \<and> sort_key cw_start (snd x) = snd x \<and>
     \<not> any_adjacent (\<lambda>a b. cw_end_exclusive a > cw_start b) (snd x)"

lemma insert_schedules_again:
  "bm_inv (m @ rest) \<Longrightarrow> \<forall>x \<in> set rest. schedule_settled universe x \<Longrightarrow> rfold (insert_schedule universe) m rest = Ok (m @ rest)"
proof (induction rest arbitrary: m)
  case (Cons x rest)
  obtain i ws where x: "x = (i, ws)" by (cases x)
  have "insert_schedule universe m x = Ok (m @ [x])"
    using Cons.prems bm_get_absent [of m i ws rest] bm_insert_last [OF bm_inv_prefix, of m i ws rest]
    by (simp add: insert_schedule_def schedule_settled_def x)
  then show ?case using Cons.IH [of "m @ [x]"] Cons.prems x by simp
qed simp

lemma bm_insert_set: "x \<in> set (bm_insert k v m) \<Longrightarrow> x = (k, v) \<or> x \<in> set m"
  by (induction m) (auto split: if_splits)

lemma inserted_states:
  assumes "rfold insert_state [] states = Ok m"
  shows "bm_inv m \<and> (\<forall>x \<in> set m. st_instrument (snd x) = fst x)"
  using assms
proof (rule rfold_invariant)
  fix m s m'
  assume "insert_state m s = Ok m'" and inv: "bm_inv m \<and> (\<forall>x \<in> set m. st_instrument (snd x) = fst x)"
  then have "m' = bm_insert (st_instrument s) s m" by (simp add: insert_state_def split: if_splits)
  then show "bm_inv m' \<and> (\<forall>x \<in> set m'. st_instrument (snd x) = fst x)"
    using inv bm_insert_set [of _ "st_instrument s" s m] bm.inv_insert by fastforce
qed (simp add: bm_inv_def)

lemma inserted_schedules:
  assumes "rfold (insert_schedule universe) [] schedules = Ok m"
  shows "bm_inv m \<and> (\<forall>x \<in> set m. schedule_settled universe x)"
  using assms
proof (rule rfold_invariant)
  fix m x m'
  assume ins: "insert_schedule universe m x = Ok m'" and inv: "bm_inv m \<and> (\<forall>x \<in> set m. schedule_settled universe x)"
  let ?ws = "sort_key cw_start (snd x)"
  have m': "m' = bm_insert (fst x) ?ws m" and new: "schedule_settled universe (fst x, ?ws)"
    using ins by (auto simp: insert_schedule_def schedule_settled_def Let_def sort_key_id_if_sorted split: if_splits)
  have "schedule_settled universe y" if "y \<in> set m'" for y
    using bm_insert_set [OF that [unfolded m']] inv new by (elim disjE) simp_all
  moreover have "bm_inv m'" unfolding m' by (rule bm.inv_insert) (simp add: inv)
  ultimately show "bm_inv m' \<and> (\<forall>x \<in> set m'. schedule_settled universe x)" by simp
qed (simp add: bm_inv_def)

lemma inserted_states_nonempty: "rfold insert_state m states = Ok m' \<Longrightarrow> states \<noteq> [] \<or> m \<noteq> [] \<Longrightarrow> m' \<noteq> []"
proof (induction states arbitrary: m)
  case (Cons s states)
  then obtain m1 where m1: "insert_state m s = Ok m1" "rfold insert_state m1 states = Ok m'" by auto
  then have "m1 \<noteq> []" by (cases m) (auto simp: insert_state_def split: if_splits)
  then show ?case using Cons.IH [OF m1(2)] by blast
qed simp

lemma new_core_fields:
  assumes "replay_core_new_multi_with_schedules states reducers contexts schedules = Ok core"
  shows "states \<noteq> []" and "length (co_reducers core) = length (co_states core)"
    and "length (co_reducer_contexts core) = length (co_states core)"
    and "\<not> list_ex (\<lambda>i. bm_get (co_reducers core) i = None \<or> bm_get (co_reducer_contexts core) i = None) (bm_keys (co_states core))"
    and "\<not> list_ex (\<lambda>(i, s). case bm_get (co_reducer_contexts core) i of
          None \<Rightarrow> True | Some c \<Rightarrow> rc_trading_date c \<noteq> st_trading_date s) (co_states core)"
    and "rfold (insert_schedule (bm_keys (co_states core))) [] schedules = Ok (co_reducer_context_windows core)"
    and "bm_inv (co_reducers core)" and "bm_inv (co_reducer_contexts core)"
    and "core = \<lparr>co_states = co_states core, co_reducers = co_reducers core, co_reducer_contexts = co_reducer_contexts core,
          co_reducer_context_windows = co_reducer_context_windows core, co_clock = Unstarted, co_last_ordering_key = None,
          co_last_canonical_event = None, co_event_stream = hasher_new, co_first_match_time = None\<rparr>"
  using assms by (auto simp: replay_core_new_multi_with_schedules_def Let_def simp del: list_ex_iff split: if_splits)

lemma fork_of_new_core:
  assumes "replay_core_new_multi_with_schedules states reducers contexts schedules = Ok core"
  shows "fork_unstarted core = Ok core"
proof -
  note fields = new_core_fields [OF assms]
  have m: "bm_inv (co_states core)" "\<forall>x \<in> set (co_states core). st_instrument (snd x) = fst x" "co_states core \<noteq> []"
    using inserted_states [OF new_core_states [OF assms]] inserted_states_nonempty [OF new_core_states [OF assms]] fields(1) by auto
  have w: "bm_inv (co_reducer_context_windows core)"
      "\<forall>x \<in> set (co_reducer_context_windows core). schedule_settled (bm_keys (co_states core)) x"
    using inserted_schedules [OF fields(6)] by blast+
  have "replay_core_new_multi_with_schedules (bm_values (co_states core)) (co_reducers core) (co_reducer_contexts core)
      (co_reducer_context_windows core) = Ok core"
    unfolding replay_core_new_multi_with_schedules_def
    using fields(2-5,7-9) m insert_states_again [of "[]"] insert_schedules_again [of "[]", OF _ w(2)] w(1)
    by (simp add: bm_collect_sorted del: list_ex_iff)
  moreover have "co_clock core = Unstarted" using fields(9) by (metis replay_core.select_convs(5))
  ultimately show ?thesis by (simp add: fork_unstarted_def)
qed

section \<open>Completed runs\<close>

definition delivers_wf :: "'f stream_factory \<Rightarrow> bool" where
  "delivers_wf factory \<longleftrightarrow> (\<forall>b f s e. fst (factory b f) = Ok s \<longrightarrow> Ok e \<in> set s \<longrightarrow> wf_event e)"

lemma opened_wf:
  "open_scheduled_streams core schedule factory bs f = Ok ss \<Longrightarrow> delivers_wf factory \<Longrightarrow> \<forall>s \<in> set ss. \<forall>e. Ok e \<in> set s \<longrightarrow> wf_event e"
proof (induction bs arbitrary: f ss)
  case (Cons b bs)
  then obtain s rest where "fst (factory b f) = Ok s" "open_scheduled_streams core schedule factory bs (snd (factory b f)) = Ok rest" "ss = s # rest"
    by auto
  then show ?case using Cons.IH [of _ rest] Cons.prems(2) unfolding delivers_wf_def by auto
qed simp

lemma primed_wf:
  "prime_event_heads hash n ss = Ok (streams, heads, pending) \<Longrightarrow> \<forall>s \<in> set ss. \<forall>e. Ok e \<in> set s \<longrightarrow> wf_event e \<Longrightarrow> streams_wf streams heads"
proof (induction ss arbitrary: n streams heads pending)
  case Nil
  then show ?case by (simp add: streams_all_def)
next
  case (Cons s ss)
  obtain r s' where nx: "next_event s = (r, s')" by (cases "next_event s")
  obtain streams' heads' pending' where rest: "prime_event_heads hash (Suc n) ss = Ok (streams', heads', pending')"
    using Cons.prems nx by (auto split: result.splits option.splits)
  have IH: "streams_wf streams' heads'" using Cons.IH [OF rest] Cons.prems(2) by simp
  have "set s' \<subseteq> set s" "\<And>e. r = Ok (Some e) \<Longrightarrow> Ok e \<in> set s"
    using nx by (cases s rule: next_event.cases; auto)+
  moreover obtain h where "streams = s' # streams'" "heads = h # heads'" "h = None \<or> r = Ok h"
    using Cons.prems(1) nx rest by (auto split: result.splits option.splits)
  ultimately show ?case using IH Cons.prems(2) unfolding streams_all_def by auto
qed

lemma started:
  assumes "start_scheduled_backtest env factory core s plan f sim ledger = Ok (streams, heads, pending, k)"
  obtains s' opened visible where "open_scheduled_streams core (rn_schedule env) factory (rp_bindings plan) f = Ok opened"
    and "fork_unstarted core = Ok visible" and "prime_event_heads (rn_hash env) 0 opened = Ok (streams, heads, pending)"
    and "k = coordinator_new env s' visible sim ledger"
  using assms by (auto simp: start_scheduled_backtest_def Let_def split: prod.splits)

lemma started_wf:
  assumes "start_scheduled_backtest env factory core s plan f sim ledger = Ok (streams, heads, pending, k)" and "delivers_wf factory"
  shows "streams_wf streams heads"
  using assms(1)
proof (rule started)
  fix opened
  assume opened: "open_scheduled_streams core (rn_schedule env) factory (rp_bindings plan) f = Ok opened"
    and primed: "prime_event_heads (rn_hash env) 0 opened = Ok (streams, heads, pending)"
  show ?thesis by (rule primed_wf [OF primed opened_wf [OF opened assms(2)]])
qed

lemma started_visible:
  assumes "start_scheduled_backtest env factory core s plan f sim ledger = Ok (streams, heads, pending, k)"
    and "replay_core_new_multi_with_schedules states reducers contexts schedules = Ok core"
  shows "visible_inv env core k"
  using assms(1)
proof (rule started)
  fix s' visible
  assume "fork_unstarted core = Ok visible" and "k = coordinator_new env s' visible sim ledger"
  then show ?thesis
    using fork_of_new_core [OF assms(2)]
    by (simp add: visible_inv_def coordinator_new_def control_queue_new_def control_inv_def bm_inv_def release_entries_def)
qed

lemma started_booking:
  assumes "start_scheduled_backtest env factory core s plan f sim ledger = Ok (streams, heads, pending, k)"
    and "scheduled_simulator_new configs = Ok sim" and "multi_ledger_new cash ledger_configs = Ok ledger"
  shows "booking_inv k"
  using assms(1)
proof (rule started)
  fix s' visible
  assume k: "k = coordinator_new env s' visible sim ledger"
  have "ds_fills sim = []" using assms(2) by (auto simp: scheduled_simulator_new_def split: if_splits)
  moreover have "fs = []" if "booked_fills ledger i = Some fs" for i fs
    using add_ledgers_fresh [of "[]" ledger_configs "ml_ledgers ledger" i] assms(3) that
    by (auto simp: multi_ledger_new_def booked_fills_def bm_get_def split: if_splits)
  ultimately have "labelled sim ledger []" by (auto simp: labelled_def)
  then show ?thesis using multi_reachable.fresh [OF assms(3)] by (auto simp: booking_inv_def k coordinator_new_def)
qed

lemma completed_scheduled:
  assumes "run_scheduled_multi_backtest env factory core s plan f sim ledger = Some (Ok run)"
  obtains streams heads pending k core' k' k'' where
    "start_scheduled_backtest env factory core s plan f sim ledger = Ok (streams, heads, pending, k)"
    and "scheduled_loop env streams heads pending core k = Some (Ok (core', k'))" and "drain env k' = Some (Ok k'')"
    and "complete_replay (rn_hash env) core' = Ok (cs_replay run)" and "cs_simulator run = kc_simulator k''"
    and "cs_ledger run = kc_ledger k''"
proof -
  obtain streams heads pending k where start: "start_scheduled_backtest env factory core s plan f sim ledger = Ok (streams, heads, pending, k)"
    using assms by (auto simp: run_scheduled_multi_backtest_def split: result.splits)
  obtain core' k' where loop: "scheduled_loop env streams heads pending core k = Some (Ok (core', k'))"
    using assms start by (auto simp: run_scheduled_multi_backtest_def split: result.splits option.splits)
  obtain k'' where "drain env k' = Some (Ok k'')" "finish_scheduled_backtest env core' k'' = Ok run"
    using assms start loop by (auto simp: run_scheduled_multi_backtest_def)
  then show ?thesis using that [OF start loop] by (auto simp: finish_scheduled_backtest_def)
qed

text \<open>The errors that would mean that the visible core left the path of the committed one.\<close>

definition diverged :: "scheduled_backtest_error \<Rightarrow> bool" where
  "diverged err \<longleftrightarrow> err = BacktestReplay BacktestVisibleMismatch \<or> (\<exists>d. err = BacktestReplay (BacktestDecodingError d))"

lemma visible_controls:
  assumes "visible_inv env core k"
  shows "process_before env t k = Some (Err err) \<Longrightarrow> \<not> diverged err" and "process_at env t k = Some (Err err) \<Longrightarrow> \<not> diverged err"
    and "drain env k = Some (Err err) \<Longrightarrow> \<not> diverged err"
  using process_before_sound [of env t k "Err err"] process_at_sound [of env t k "Err err"] drain_sound [of env k "Err err"]
    visible_batch [of env core] assms
  by (fastforce simp: diverged_def)+

lemma replay_free_auction: "replay_free (schedule_auction_match e occ trading visible_at k)"
proof -
  have "replay_free (auction_clearing_price e)"
    by (auto simp: auction_clearing_price_def split: event_payload.split list.split)
  then show ?thesis by (auto simp: schedule_auction_match_def split: option.split)
qed

lemma replay_free_undiverged: "replay_free r \<Longrightarrow> r = Err err \<Longrightarrow> \<not> diverged err"
  by (auto simp: diverged_def)

lemma undiverged_buffer: "buffer_committed env core e occ k = Err err \<Longrightarrow> \<not> diverged err"
  by (auto simp: buffer_committed_def result_simps
      dest!: replay_free_undiverged [OF replay_free_auction] replay_free_undiverged [OF replay_free_basic(3)])
    (auto simp: diverged_def)

lemma undiverged_event:
  assumes "coordinate_event env e core k = Some (Err err)" and "wf_event e" and "visible_inv env core k"
  shows "\<not> diverged err"
proof (cases "process_before env (ev_match_time e) k")
  case (Some r)
  show ?thesis
  proof (cases r)
    case (Err err1)
    then show ?thesis using assms(1) Some visible_controls(1) [OF assms(3)] by (simp add: coordinate_event_def)
  next
    case (Ok k1)
    then have inv: "visible_inv env core k1" using process_before_sound [OF Some] visible_batch assms(3) by fastforce
    obtain r core' where applied: "apply_ordered (rn_hash env) core e = (r, core')" by (cases "apply_ordered (rn_hash env) core e")
    show ?thesis
    proof (cases r)
      case (Err err1)
      then show ?thesis using assms(1) Some Ok applied by (auto simp: coordinate_event_def diverged_def)
    next
      case cm: (Ok cm)
      show ?thesis
      proof (cases "buffer_committed env core' e (cc_occurrence cm) k1")
        case (Err err1)
        then show ?thesis using undiverged_buffer [OF Err] assms(1) Some Ok applied cm Err by (simp add: coordinate_event_def)
      next
        case k2: (Ok k2)
        have "visible_inv env core' k2" using buffered_visible [OF assms(2) inv] applied cm k2 by simp
        from visible_controls(2) [OF this] show ?thesis
          using assms(1) Some Ok applied cm k2 by (auto simp: coordinate_event_def result_simps)
      qed
    qed
  qed
qed (use assms(1) in \<open>simp add: coordinate_event_def\<close>)

lemma undiverged_loop:
  assumes "scheduled_loop env streams heads pending core k = Some (Err err)"
    and "streams_wf streams heads" and "visible_inv env core k"
  shows "\<not> diverged err"
  using assms
proof (induction env streams heads pending core k rule: scheduled_loop.induct)
  case (1 env streams heads core k)
  then show ?case by simp
next
  case (2 env streams heads key i pending core k)
  show ?case
  proof (cases "i < length streams \<and> i < length heads \<and> heads ! i \<noteq> None")
    case False
    then have "err = BacktestPanicked" using "2.prems"(1) by (auto split: if_splits)
    then show ?thesis by (simp add: diverged_def)
  next
    case True
    then obtain e where head: "i < length streams" "i < length heads" "heads ! i = Some e" by blast
    have wf: "wf_event e" using "2.prems"(2) head by (metis nth_mem streams_all_def)
    obtain r where turn: "coordinate_event env e core k = Some r" using "2.prems"(1) head by (auto split: option.splits)
    show ?thesis
    proof (cases r)
      case (Err err1)
      then show ?thesis using undiverged_event [OF _ wf "2.prems"(3)] turn head "2.prems"(1) by simp
    next
      case (Ok x)
      obtain core1 k1 where x: "x = (core1, k1)" by (cases x)
      have inv: "visible_inv env core1 k1" using visible_event [OF _ wf "2.prems"(3)] turn Ok x by simp
      show ?thesis
      proof (cases "streams ! i")
        case Nil
        then show ?thesis using 2 head turn Ok x inv streams_all_next(1) [OF "2.prems"(2) head(1)] by simp
      next
        case (Cons y rest)
        show ?thesis
        proof (cases "\<exists>n key'. y = Ok n \<and> for_event (rn_hash env) n = Ok key'")
          case True
          then obtain n key' where "y = Ok n" "for_event (rn_hash env) n = Ok key'" by blast
          then show ?thesis using 2 Cons head turn Ok x inv streams_all_next(2) [OF "2.prems"(2) head(1)] by simp
        next
          case False
          then show ?thesis using "2.prems"(1) Cons head turn Ok x by (auto simp: diverged_def split: result.splits)
        qed
      qed
    qed
  qed
qed

lemma undiverged_start:
  "start_scheduled_backtest env factory core s plan f sim ledger = Err err \<Longrightarrow> \<not> diverged err"
proof -
  have opened: "\<not> diverged err" if "open_scheduled_streams core schedule factory bs f = Err err" for schedule bs f err
    using that
    by (induction bs arbitrary: f) (auto simp: result_simps check_scheduled_binding_def diverged_def split: if_splits)
  have primed: "\<not> diverged err" if "prime_event_heads hash n ss = Err err" for hash n ss err
    using that
    by (induction ss arbitrary: n) (auto simp: result_simps diverged_def split: result.splits option.splits prod.splits)
  have "replay_free (check_universes xs ys)" for xs ys by (auto simp: check_universes_def)
  from replay_free_undiverged [OF this] show "start_scheduled_backtest env factory core s plan f sim ledger = Err err \<Longrightarrow> \<not> diverged err"
    by (auto simp: start_scheduled_backtest_def Let_def result_simps check_sessions_def split: prod.splits if_splits
        dest: opened primed replay_free_undiverged [OF replay_free_basic(1)]) (auto simp: diverged_def)
qed

lemma undiverged_finish: "finish_scheduled_backtest env core k = Err err \<Longrightarrow> \<not> diverged err"
  by (auto simp: finish_scheduled_backtest_def finalize_strategy_def result_simps Let_def split: prod.splits
      dest!: replay_free_undiverged [OF replay_free_basic(1)]) (auto simp: diverged_def)

section \<open>Properties\<close>

text \<open>
  C9: a scheduled backtest replays what a replay without a strategy does. When the core accepts the
  bindings of the plan, a completed scheduled run reports the states and the summary of merging the same
  streams with no callback, whatever the strategy schedules.
\<close>

theorem scheduled_run_replays_exactly:
  assumes "run_scheduled_multi_backtest env factory core s plan f sim ledger = Some (Ok run)"
    and "\<forall>b \<in> set (rp_bindings plan). check_binding core b = Ok ()"
  shows "\<exists>core'. replay_frozen_multi (rn_hash env) factory plan f core = (Ok (), core') \<and>
    complete_replay (rn_hash env) core' = Ok (cs_replay run)"
proof (rule completed_scheduled [OF assms(1)], goal_cases)
  case (1 streams heads pending k core' k' k'')
  obtain opened where o: "open_scheduled_streams core (rn_schedule env) factory (rp_bindings plan) f = Ok opened"
      "prime_event_heads (rn_hash env) 0 opened = Ok (streams, heads, pending)"
    using 1(1) by (rule started)
  note primed = prime_event_heads_merge [OF o(2)]
  have "replay_frozen_multi (rn_hash env) factory plan f core = (Ok (), core')"
    using open_scheduled_streams_open [OF o(1) assms(2)] primed scheduled_loop_merges [OF 1(2)]
    by (simp add: replay_frozen_multi_def replay_frozen_multi_with_def)
  then show ?case using 1(4) by blast
qed

text \<open>
  C7: every fill of a scheduled backtest is booked once, to the instrument of its order. When a run
  completes from a fresh simulator and a fresh ledger, the simulator's fills can be labelled with
  instruments so that each instrument's ledger holds exactly the fills with its label, in order, and a
  fill labelled with an instrument fills an order of that instrument that the ledger covers; and cash is
  the initial cash plus the cash movements of the booked fills minus the charges.
\<close>

theorem scheduled_run_books_every_fill:
  assumes "run_scheduled_multi_backtest env factory core s plan f sim ledger = Some (Ok run)"
    and "scheduled_simulator_new configs = Ok sim" and "multi_ledger_new cash ledger_configs = Ok ledger"
  shows "(\<exists>labels. length labels = length (ds_fills (cs_simulator run)) \<and>
      (\<forall>i fs. booked_fills (cs_ledger run) i = Some fs \<longrightarrow>
         fs = map fst (filter (\<lambda>x. snd x = i) (zip (ds_fills (cs_simulator run)) labels))) \<and>
      (\<forall>x \<in> set (zip (ds_fills (cs_simulator run)) labels). booked_fills (cs_ledger run) (snd x) \<noteq> None \<and>
         (\<exists>ord \<in> set (ds_orders (cs_simulator run)). fr_order_id (fst x) = sd_id ord \<and> order_instrument ord = snd x))) \<and>
    ml_cash (cs_ledger run) = ml_initial_cash (cs_ledger run) + (\<Sum>e \<leftarrow> bm_values (ml_ledgers (cs_ledger run)). ld_cash (il_ledger e))
       - (\<Sum>c \<leftarrow> ml_cash_charges (cs_ledger run). cc_amount c)"
proof (rule completed_scheduled [OF assms(1)], goal_cases)
  case (1 streams heads pending k core' k' k'')
  have "booking_inv k'" by (rule booking_loop [OF 1(2) started_booking [OF 1(1) assms(2,3)]])
  then have "booking_inv k''" using drain_sound [OF 1(3)] booking_batch by fastforce
  then obtain labels where reach: "multi_reachable (cs_ledger run)" and lab: "labelled (cs_simulator run) (cs_ledger run) labels"
    unfolding 1(5,6) booking_inv_def by blast
  let ?zip = "zip (ds_fills (cs_simulator run)) labels"
  have orders: "\<exists>ord \<in> set (ds_orders (cs_simulator run)). fr_order_id (fst x) = sd_id ord \<and> order_instrument ord = snd x"
    if "(fr_order_id (fst x), snd x) \<in> set (order_keys (cs_simulator run))" for x :: "fill_record \<times> instrument_id"
    using that by (auto simp: order_keys_def)
  have known: "booked_fills (cs_ledger run) (snd x) \<noteq> None \<and>
      (\<exists>ord \<in> set (ds_orders (cs_simulator run)). fr_order_id (fst x) = sd_id ord \<and> order_instrument ord = snd x)" if "x \<in> set ?zip" for x
  proof -
    have "booked_fills (cs_ledger run) (snd x) \<noteq> None \<and> (fr_order_id (fst x), snd x) \<in> set (order_keys (cs_simulator run))"
      using lab that unfolding labelled_def by blast
    then show ?thesis using orders [of x] by blast
  qed
  have booked: "fs = map fst (filter (\<lambda>x. snd x = i) ?zip)" if "booked_fills (cs_ledger run) i = Some fs" for i fs
    using lab that unfolding labelled_def by blast
  have "length labels = length (ds_fills (cs_simulator run))" using lab by (simp add: labelled_def)
  moreover have "multi_inv (cs_ledger run)" by (rule reachable_multi_inv [OF reach])
  then have "ml_cash (cs_ledger run) = ml_initial_cash (cs_ledger run) + (\<Sum>e \<leftarrow> bm_values (ml_ledgers (cs_ledger run)). ld_cash (il_ledger e))
       - (\<Sum>c \<leftarrow> ml_cash_charges (cs_ledger run). cc_amount c)"
    by (simp add: multi_inv_def entry_cash_def comp_def)
  ultimately show ?case using booked known by (intro conjI exI [of _ labels] allI impI ballI) simp_all
qed

text \<open>
  C6: the strategy sees every committed event, once and in order. When a run over a freshly built core has
  merged every event and drained its controls, no control is pending and the core that the releases have
  built for the strategy is the committed core: nothing was lost, repeated or reordered by the latency.
\<close>

theorem strategy_sees_every_event:
  assumes "start_scheduled_backtest env factory core s plan f sim ledger = Ok (streams, heads, pending, k)"
    and "scheduled_loop env streams heads pending core k = Some (Ok (core', k'))" and "drain env k' = Some (Ok k'')"
    and "replay_core_new_multi_with_schedules states reducers contexts schedules = Ok core" and "delivers_wf factory"
  shows "kc_visible_core k'' = core' \<and> control_next_time (kc_controls k'') = None"
proof -
  have "visible_inv env core' k'"
    by (rule visible_loop [OF assms(2) started_wf [OF assms(1,5)] started_visible [OF assms(1,4)]])
  then have inv: "visible_inv env core' k''" and none: "control_next_time (kc_controls k'') = None"
    using drain_sound [OF assms(3)] visible_batch by fastforce+
  have "cq_pending (kc_controls k'') = []"
    using none by (cases "cq_pending (kc_controls k'')") (auto simp: control_next_time_def)
  then show ?thesis using inv none by (simp add: visible_inv_def release_entries_def)
qed

text \<open>
  C10: the visible replay never diverges. A run over a freshly built core never ends because a buffered
  event cannot be decoded or because its release commits with another ordinal, fingerprint or version
  than the event was committed with.
\<close>

theorem visible_replay_never_diverges:
  assumes "run_scheduled_multi_backtest env factory core s plan f sim ledger = Some (Err err)"
    and "replay_core_new_multi_with_schedules states reducers contexts schedules = Ok core" and "delivers_wf factory"
  shows "err \<noteq> BacktestReplay BacktestVisibleMismatch \<and> err \<noteq> BacktestReplay (BacktestDecodingError d)"
proof -
  have "\<not> diverged err"
  proof (cases "start_scheduled_backtest env factory core s plan f sim ledger")
    case (Err err1)
    then show ?thesis using assms(1) undiverged_start [OF Err] by (simp add: run_scheduled_multi_backtest_def)
  next
    case (Ok x)
    obtain streams heads pending k where x: "x = (streams, heads, pending, k)" by (rule prod_cases4)
    note start = Ok [unfolded x]
    note wf = started_wf [OF start assms(3)] and visible = started_visible [OF start assms(2)]
    obtain r where loop: "scheduled_loop env streams heads pending core k = Some r"
      using assms(1) start by (auto simp: run_scheduled_multi_backtest_def split: option.splits)
    show ?thesis
    proof (cases r)
      case (Err err1)
      then show ?thesis
        using assms(1) start loop undiverged_loop [OF _ wf visible] by (simp add: run_scheduled_multi_backtest_def)
    next
      case (Ok y)
      obtain core' k' where y: "y = (core', k')" by (cases y)
      have "visible_inv env core' k'"
        by (rule visible_loop [OF loop [unfolded Ok y] wf visible])
      from visible_controls(3) [OF this] show ?thesis
        using assms(1) start loop Ok y by (auto simp: run_scheduled_multi_backtest_def result_simps dest: undiverged_finish)
    qed
  qed
  then show ?thesis by (auto simp: diverged_def)
qed

section \<open>Sample runs\<close>

text \<open>
  A run over one event with a latency of one millisecond. The strategy counts events; it returns from
  each, or ends as the parameter says.
\<close>

definition sample_parameters :: "callback_end \<Rightarrow> nat run_parameters" where
  "sample_parameters ended =
     \<lparr>rn_hash = sample_hash, rn_strategy = counting_strategy ended, rn_schedule = sample_session_schedule,
      rn_market_data_latency_ms = 1, rn_allow_midpoint_fallback = True\<rparr>"

lemma sample_parameters_simps:
  "rn_hash (sample_parameters ended) = sample_hash"
  "sy_on_event (rn_strategy (sample_parameters ended)) c sink n = (ended, sink, n + 1)"
  by (simp_all add: sample_parameters_def counting_strategy_def)

definition sample_factory :: "unit stream_factory" where
  "sample_factory b f = (Ok [Ok sample_status_event], f)"

lemma sample_factory_wf: "delivers_wf sample_factory"
  using sample_status_event_wf by (simp add: delivers_wf_def sample_factory_def)

lemma sample_scheduled_start:
  assumes "bm_keys (ml_ledgers ledger) = [(Twse, ''2330'')]"
  obtains key where "start_scheduled_backtest (sample_parameters ended) sample_factory sample_core 0 sample_event_plan () sample_empty ledger =
    Ok ([[]], [Some sample_status_event], [(key, 0)], coordinator_new (sample_parameters ended) 0 sample_core sample_empty ledger)"
proof -
  obtain cm core where "apply_ordered sample_hash sample_core sample_status_event = (Ok cm, core)" using sample_commit by metis
  then obtain key canonical where "for_event_and_canonical sample_hash sample_status_event = Ok (key, canonical)"
    using apply_ordered_effect by metis
  then have key: "for_event sample_hash sample_status_event = Ok key" by (simp add: for_event_def)
  have instruments: "map st_instrument (bm_values (co_states sample_core)) = [(Twse, ''2330'')]"
    by (simp add: sample_core_def sample_state_def market_state_new_def)
  have opened: "open_scheduled_streams sample_core sample_session_schedule sample_factory (rp_bindings sample_event_plan) () =
      Ok [[Ok sample_status_event]]"
    by (simp add: sample_event_plan_def sample_binding_def check_scheduled_binding_def sample_core_def bm_get_def sample_state_def market_state_new_def
        sample_factory_def)
  show ?thesis
    using that [of key] key assms opened fork_of_new_core [OF sample_core_new]
    unfolding start_scheduled_backtest_def Let_def instruments
    by (simp add: sample_parameters_def counting_strategy_def check_universes_def check_sessions_def sample_session_schedule_def
        sample_segment_def strategy_ended_def)
qed

lemma no_controls:
  assumes "cq_pending (kc_controls k) = []"
  shows "process_before env t k = Some (Ok k)" and "process_at env t k = Some (Ok k)" and "drain env k = Some (Ok k)"
  using assms by (simp_all add: process_before.simps process_at.simps drain.simps control_next_time_def)

text \<open>The event is buffered; its release is due one millisecond later.\<close>

lemma sample_buffered:
  assumes "k0 = coordinator_new (sample_parameters ended) 0 sample_core sample_empty ledger"
  obtains cm core ob where "apply_ordered sample_hash sample_core sample_status_event = (Ok cm, core)"
    and "coordinate_event (sample_parameters ended) sample_status_event sample_core k0 =
      Some (Ok (core, k0\<lparr>kc_controls := \<lparr>cq_pending = [((1728000000001000, ReleaseObservation, 1), ControlRelease ob)],
        cq_next_sequence = 2\<rparr>\<rparr>))"
    and "expects sample_hash sample_core [ob] core" and "ob_visible_at ob = 1728000000001000"
    and "tc_market_signal (ob_trading ob) = Some (AuctionCollecting (auction_new Opening True False))"
    and "from_canonical_bytes (ob_canonical_event ob) = Ok sample_status_event"
proof (rule sample_commit)
  fix cm core st tc
  assume commit: "apply_ordered sample_hash sample_core sample_status_event = (Ok cm, core)"
    "bm_get (co_states core) (ev_instrument sample_status_event) = Some st"
    "evaluate_context sample_status_event (cc_occurrence cm) st sample_segment = Ok tc"
  obtain key canonical where key: "for_event_and_canonical sample_hash sample_status_event = Ok (key, canonical)"
    using apply_ordered_effect [OF commit(1)] by metis
  then have canonical: "to_canonical_bytes sample_status_event = Ok canonical"
    by (auto simp: for_event_and_canonical_def)
  define ob where "ob = \<lparr>ob_canonical_event = canonical, ob_run_event_ordinal = eo_run_event_ordinal (cc_occurrence cm),
      ob_event_fingerprint = eo_event_fingerprint (cc_occurrence cm),
      ob_instrument_state_version = eo_instrument_state_version (cc_occurrence cm), ob_trading = tc,
      ob_visible_at = 1728000000001000\<rparr>"
  have time: "ev_match_time sample_status_event = 1728000000000000" by (simp add: sample_status_event_def)
  have segment: "segment_for sample_session_schedule (ev_instrument sample_status_event) 1728000000000000 = Some sample_segment"
    by (simp add: segment_for_def sample_session_schedule_def sample_status_event_def bm_get_def segment_phase_eq [OF sample_segment_new]
        WARM_UP_MICROSECONDS_def)
  have clearing: "auction_clearing_price sample_status_event = Ok None"
    by (simp add: auction_clearing_price_def sample_status_event_def)
  have signal: "tc_market_signal tc = Some (AuctionCollecting (auction_new Opening True False))"
    using commit(3) by (auto simp: evaluate_context_def Let_def sample_status_event_def split: prod.splits)
  let ?k1 = "k0\<lparr>kc_controls := \<lparr>cq_pending = [((1728000000001000, ReleaseObservation, 1), ControlRelease ob)], cq_next_sequence = 2\<rparr>\<rparr>"
  have buffered: "buffer_committed (sample_parameters ended) core sample_status_event (cc_occurrence cm) k0 = Ok ?k1"
    using commit(2,3) segment clearing canonical
    by (simp add: buffer_committed_def time sample_parameters_def add_milliseconds_def checked_u64_def in_u64_def checked_i64_def in_i64_def
        schedule_auction_match_def schedule_control_def control_schedule_def ob_def assms coordinator_new_def control_queue_new_def)
  have queue: "cq_pending (kc_controls k0) = []" by (simp add: assms coordinator_new_def control_queue_new_def)
  have at: "ok_match_time (eo_ordering_key (cc_occurrence cm)) = 1728000000000000"
    using commit(1) time by (auto simp: apply_ordered_def apply_prepared_ordered_def for_event_and_canonical_def
        for_event_with_fingerprint_def split: result.splits prod.splits)
  have "process_at (sample_parameters ended) 1728000000000000 ?k1 = Some (Ok ?k1)"
    by (subst process_at.simps) (simp add: control_next_time_def)
  then have turn: "coordinate_event (sample_parameters ended) sample_status_event sample_core k0 = Some (Ok (core, ?k1))"
    using no_controls(1) [OF queue] commit(1) buffered at
    by (simp add: coordinate_event_def) (simp add: sample_parameters_def)
  have "expects sample_hash sample_core [ob] core"
    using commit(1) decode_encoded [OF sample_status_event_wf canonical] by (simp add: ob_def)
  then show ?thesis using that [OF commit(1) turn] signal decode_encoded [OF sample_status_event_wf canonical] by (simp add: ob_def)
qed

text \<open>Released, the event is shown to the strategy, which asks for nothing.\<close>

lemma sample_released:
  assumes ob: "expects sample_hash sample_core [ob] core" "ob_visible_at ob = 1728000000001000"
      "tc_market_signal (ob_trading ob) = Some (AuctionCollecting (auction_new Opening True False))"
    and commit: "apply_ordered sample_hash sample_core e = (Ok cm, core)" "from_canonical_bytes (ob_canonical_event ob) = Ok e"
    and e: "e = sample_status_event"
    and k: "kc_visible_core k = sample_core" "kc_simulator k = sample_empty"
  obtains k' where "release_observation (sample_parameters ended) ob 1 k = rbind (strategy_ended ended) (\<lambda>_. Ok k')"
    and "kc_controls k' = kc_controls k"
proof -
  let ?k0 = "k\<lparr>kc_visible_core := core\<rparr>"
  have interrupted: "interrupt_market_orders sample_hash e (cc_occurrence cm) ob 1 ?k0 = Ok ?k0"
    by (simp add: interrupt_market_orders_def ob(3) auction_new_def)
  obtain st where st: "bm_get (co_states core) (ev_instrument e) = Some st"
    using apply_ordered_effect [OF commit(1)] by (metis bm.get_insert)
  have inst: "ev_instrument e = (Twse, ''2330'')" "ev_match_time e = 1728000000000000" by (simp_all add: e sample_status_event_def)
  have "\<exists>k2. publish_observation (sample_parameters ended) e ob ?k0 = Ok (st, False, k2) \<and> kc_controls k2 = kc_controls k \<and>
      kc_ledger k2 = kc_ledger k \<and> ds_orders (kc_simulator k2) = []"
    using st
    by (auto simp: publish_observation_def visible_trading_state_new_def sim_call_def publish_visible_trading_state_def k(2) sample_empty_def
        sample_waiting_def bm_get_def inst ob(2) publish_known_def Let_def e sample_status_event_def split: option.splits)
  then obtain k2 where k2: "publish_observation (sample_parameters ended) e ob ?k0 = Ok (st, False, k2)" "kc_controls k2 = kc_controls k"
    by blast
  obtain k3 where k3: "commit_callback (sample_parameters ended) (ended, sink_with_scheduled_orders, kc_strategy k2 + 1)
      (\<lambda>sink. into_event_records sink (cc_occurrence cm)) (ob_visible_at ob) (eo_event_fingerprint (cc_occurrence cm)) 1 k2 =
      rbind (strategy_ended ended) (\<lambda>_. Ok k3)" "kc_controls k3 = kc_controls k"
    using k2(2)
    by (auto simp: commit_callback_def Let_def take_scheduled_orders_def take_timers_def sink_with_scheduled_orders_def
        charges_with_sequences_def into_event_records_def schedule_timers_def charge_strategy_def apply_cash_charges_def)
  have "release_observation (sample_parameters ended) ob 1 k = rbind (strategy_ended ended) (\<lambda>_. Ok k3)"
    using commit k(1) ob(1) interrupted k2(1) k3(1)
    by (simp add: release_observation_def Let_def sample_parameters_simps rbind_assoc)
  then show ?thesis using that k3(2) by blast
qed

lemma sample_delayed_run:
  assumes "bm_keys (ml_ledgers ledger) = [(Twse, ''2330'')]"
  obtains key k core k' k'' where
    "start_scheduled_backtest (sample_parameters ended) sample_factory sample_core 0 sample_event_plan () sample_empty ledger =
       Ok ([[]], [Some sample_status_event], [(key, 0)], k)"
    and "scheduled_loop (sample_parameters ended) [[]] [Some sample_status_event] [(key, 0)] sample_core k = Some (Ok (core, k'))"
    and "drain (sample_parameters ended) k' = Some (rbind (strategy_ended ended) (\<lambda>_. Ok k''))"
    and "event_ordinal (co_clock core) = 1"
proof -
  let ?env = "sample_parameters ended" and ?t = "1728000000001000"
  define k where "k = coordinator_new ?env 0 sample_core sample_empty ledger"
  obtain key where start: "start_scheduled_backtest ?env sample_factory sample_core 0 sample_event_plan () sample_empty ledger =
      Ok ([[]], [Some sample_status_event], [(key, 0)], k)"
    using sample_scheduled_start [OF assms] unfolding k_def by metis
  obtain cm core ob where commit: "apply_ordered sample_hash sample_core sample_status_event = (Ok cm, core)"
      and turn: "coordinate_event ?env sample_status_event sample_core k =
        Some (Ok (core, k\<lparr>kc_controls := \<lparr>cq_pending = [((?t, ReleaseObservation, 1), ControlRelease ob)], cq_next_sequence = 2\<rparr>\<rparr>))"
      and ob: "expects sample_hash sample_core [ob] core" "ob_visible_at ob = ?t"
        "tc_market_signal (ob_trading ob) = Some (AuctionCollecting (auction_new Opening True False))"
        "from_canonical_bytes (ob_canonical_event ob) = Ok sample_status_event"
    by (rule sample_buffered [OF k_def])
  let ?k1 = "k\<lparr>kc_controls := \<lparr>cq_pending = [((?t, ReleaseObservation, 1), ControlRelease ob)], cq_next_sequence = 2\<rparr>\<rparr>"
  let ?k2 = "k\<lparr>kc_controls := \<lparr>cq_pending = [], cq_next_sequence = 2\<rparr>\<rparr>"
  have k2: "kc_visible_core ?k2 = sample_core" "kc_simulator ?k2 = sample_empty" by (simp_all add: k_def coordinator_new_def)
  obtain k3 where k3: "release_observation ?env ob 1 ?k2 = rbind (strategy_ended ended) (\<lambda>_. Ok k3)" "kc_controls k3 = kc_controls ?k2"
    by (rule sample_released [OF ob(1-3) commit ob(4) refl k2])
  have empty: "cq_pending (kc_controls k3) = []" by (simp add: k3(2))
  have "process_at ?env ?t ?k1 = Some (rbind (strategy_ended ended) (\<lambda>_. Ok k3))"
    using k3(1) no_controls(2) [OF empty]
    by (subst process_at.simps)
      (cases ended; simp add: control_next_time_def control_pop_at_def control_pop_while_def process_control_def strategy_ended_def)
  then have drained: "drain ?env ?k1 = Some (rbind (strategy_ended ended) (\<lambda>_. Ok k3))"
    using no_controls(3) [OF empty]
    by (subst drain.simps) (cases ended; simp add: control_next_time_def strategy_ended_def)
  have "event_ordinal (co_clock core) = 1" using apply_ordered_state(3) [OF commit] by (simp add: sample_core_def)
  moreover have "scheduled_loop ?env [[]] [Some sample_status_event] [(key, 0)] sample_core k = Some (Ok (core, ?k1))"
    using turn by simp
  ultimately show ?thesis using that [OF start _ drained] by simp
qed

theorem scheduled_run_replays_exactly_witness:
  "\<exists>ledger run core'. replay_plan_new sample_hash (replicate 32 4) [sample_binding] = Ok sample_event_plan \<and>
     run_scheduled_multi_backtest sample_trading_parameters sample_quotes sample_core 0 sample_event_plan () sample_unit_empty ledger = Some (Ok run) \<and>
     replay_frozen_multi sample_hash sample_quotes sample_event_plan () sample_core = (Ok (), core') \<and>
     complete_replay sample_hash core' = Ok (cs_replay run) \<and> su_event_count (snd (cs_replay run)) = 2"
proof (rule sample_scheduled_completes)
  fix ledger run
  assume run: "run_scheduled_multi_backtest sample_trading_parameters sample_quotes sample_core 0 sample_event_plan () sample_unit_empty ledger = Some (Ok run)"
    and count: "su_event_count (snd (cs_replay run)) = 2"
  have "\<forall>b \<in> set (rp_bindings sample_event_plan). check_binding sample_core b = Ok ()"
    by (simp add: sample_event_plan_def check_binding_def sample_core_def bm_get_def sample_binding_def sample_state_def market_state_new_def)
  moreover have "rn_hash sample_trading_parameters = sample_hash" by (simp add: sample_trading_parameters_def)
  ultimately show ?thesis using scheduled_run_replays_exactly [OF run] sample_event_plan_new run count by auto
qed

text \<open>The order of the run is filled, and the one fill is in the ledger of its instrument.\<close>

theorem scheduled_run_books_every_fill_witness:
  "\<exists>ledger run labels.
     run_scheduled_multi_backtest sample_trading_parameters sample_quotes sample_core 0 sample_event_plan () sample_unit_empty ledger = Some (Ok run) \<and>
     ds_fills (cs_simulator run) = [sample_control_fill] \<and> booked_fills (cs_ledger run) (Twse, ''2330'') = Some [sample_control_fill] \<and>
     length labels = length (ds_fills (cs_simulator run)) \<and>
     (\<forall>x \<in> set (zip (ds_fills (cs_simulator run)) labels). booked_fills (cs_ledger run) (snd x) \<noteq> None \<and>
        (\<exists>ord \<in> set (ds_orders (cs_simulator run)). fr_order_id (fst x) = sd_id ord \<and> order_instrument ord = snd x))"
proof (rule sample_scheduled_completes)
  fix ledger run
  assume ledger: "multi_ledger_new 1000000000000000000000000 [sample_config] = Ok ledger"
    and run: "run_scheduled_multi_backtest sample_trading_parameters sample_quotes sample_core 0 sample_event_plan () sample_unit_empty ledger = Some (Ok run)"
    and sim: "cs_simulator run = sample_settled_desk sample_next_time 0"
    and booked: "booked_fills (cs_ledger run) (Twse, ''2330'') = Some [sample_control_fill]"
  have "ds_fills (cs_simulator run) = [sample_control_fill]" by (simp add: sim sample_desk_def)
  then show ?thesis using scheduled_run_books_every_fill [OF run sample_unit_new ledger] run booked by blast
qed

theorem strategy_sees_every_event_witness:
  "\<exists>ledger key k core k' k''. start_scheduled_backtest (sample_parameters Returned) sample_factory sample_core 0 sample_event_plan () sample_empty
       ledger = Ok ([[]], [Some sample_status_event], [(key, 0)], k) \<and>
     scheduled_loop (sample_parameters Returned) [[]] [Some sample_status_event] [(key, 0)] sample_core k = Some (Ok (core, k')) \<and>
     drain (sample_parameters Returned) k' = Some (Ok k'') \<and> event_ordinal (co_clock core) = 1 \<and> kc_visible_core k'' = core"
proof (rule sample_ledger_completes)
  fix ledger :: multi_ledger
  assume "bm_keys (ml_ledgers ledger) = [(Twse, ''2330'')]"
  then show ?thesis
  proof (rule sample_delayed_run [where ended = Returned])
    fix key k core k' k''
    assume run: "start_scheduled_backtest (sample_parameters Returned) sample_factory sample_core 0 sample_event_plan () sample_empty ledger =
         Ok ([[]], [Some sample_status_event], [(key, 0)], k)"
      "scheduled_loop (sample_parameters Returned) [[]] [Some sample_status_event] [(key, 0)] sample_core k = Some (Ok (core, k'))"
      "event_ordinal (co_clock core) = 1"
      and "drain (sample_parameters Returned) k' = Some (rbind (strategy_ended Returned) (\<lambda>_. Ok k''))"
    then have drained: "drain (sample_parameters Returned) k' = Some (Ok k'')" by (simp add: strategy_ended_def)
    from strategy_sees_every_event [OF run(1,2) drained sample_core_new sample_factory_wf] run drained show ?thesis by blast
  qed
qed

text \<open>A strategy that panics on its first event ends the run, and not with a replay error.\<close>

theorem visible_replay_never_diverges_witness:
  "\<exists>ledger err. run_scheduled_multi_backtest (sample_parameters PanickedCallback) sample_factory sample_core 0 sample_event_plan () sample_empty
       ledger = Some (Err err) \<and> err \<noteq> BacktestReplay BacktestVisibleMismatch"
proof (rule sample_ledger_completes)
  fix ledger :: multi_ledger
  assume "bm_keys (ml_ledgers ledger) = [(Twse, ''2330'')]"
  then show ?thesis
  proof (rule sample_delayed_run [where ended = PanickedCallback])
    fix key k core k' k''
    assume "start_scheduled_backtest (sample_parameters PanickedCallback) sample_factory sample_core 0 sample_event_plan () sample_empty ledger =
         Ok ([[]], [Some sample_status_event], [(key, 0)], k)"
      "scheduled_loop (sample_parameters PanickedCallback) [[]] [Some sample_status_event] [(key, 0)] sample_core k = Some (Ok (core, k'))"
      "drain (sample_parameters PanickedCallback) k' = Some (rbind (strategy_ended PanickedCallback) (\<lambda>_. Ok k''))"
    then have run: "run_scheduled_multi_backtest (sample_parameters PanickedCallback) sample_factory sample_core 0 sample_event_plan () sample_empty
        ledger = Some (Err BacktestPanicked)"
      by (simp add: run_scheduled_multi_backtest_def strategy_ended_def)
    from visible_replay_never_diverges [OF run sample_core_new sample_factory_wf] run show ?thesis by blast
  qed
qed

end
