(* ===== verification/ScheduledReturns.thy ===== *)
theory ScheduledReturns
  imports ScheduledView
begin

text \<open>
  When the loops over the control queue return. They are partial: a strategy that arms a timer from every
  timer keeps a run busy forever. A strategy whose event callback asks for no orders and no timers leaves
  only releases in the queue, each batch takes at least one of them out, and the run returns.
\<close>

section \<open>Idle coordinators\<close>

definition asks_nothing :: "'s strategy \<Rightarrow> bool" where
  "asks_nothing strategy \<longleftrightarrow> (\<forall>c sink s. case sy_on_event strategy c sink s of (ended, sink', s') \<Rightarrow>
     sk_scheduled_orders sink' = sk_scheduled_orders sink \<and> sk_timers sink' = sk_timers sink)"

lemma asks_nothingD:
  assumes "asks_nothing strategy" and "sy_on_event strategy c sink s = (ended, sink', s')"
  shows "sk_scheduled_orders sink' = sk_scheduled_orders sink" and "sk_timers sink' = sk_timers sink"
  using spec [OF spec [OF spec [OF assms(1) [unfolded asks_nothing_def], of c], of sink], of s] assms(2) by simp_all

definition idle :: "'s scheduled_coordinator \<Rightarrow> bool" where
  "idle k \<longleftrightarrow> ds_orders (kc_simulator k) = [] \<and> (\<forall>e \<in> set (cq_pending (kc_controls k)). is_release (snd e))"

definition kept :: "'s scheduled_coordinator \<Rightarrow> 's scheduled_coordinator \<Rightarrow> bool" where
  "kept k k' \<longleftrightarrow> kc_controls k' = kc_controls k \<and> ds_orders (kc_simulator k') = ds_orders (kc_simulator k)"

lemma kept_trans: "kept k k' \<Longrightarrow> kept k' k'' \<Longrightarrow> kept k k''"
  by (simp add: kept_def)

lemma quiet_callback:
  assumes "commit_callback env (ended, sink, s) records t origin n k = Ok k'" and "sk_scheduled_orders sink = []" "sk_timers sink = []"
  shows "kept k k'"
  using assms
  by (auto simp: commit_callback_def Let_def take_scheduled_orders_def take_timers_def schedule_timers_def charge_strategy_def kept_def)

lemma quiet_interrupt:
  assumes "interrupt_market_orders hash e occ ob n k = Ok k'" and "ds_orders (kc_simulator k) = []"
  shows "kept k k'"
  using assms
  by (auto simp: interrupt_market_orders_def sim_call_def cancel_for_volatility_interruption_def Let_def kept_def split: if_splits)

lemma publish_keeps_orders:
  "ds_orders (snd (publish_visible_trading_state s te)) = ds_orders s" "ds_orders (snd (publish_visible_book s be)) = ds_orders s"
  by (auto simp: publish_visible_trading_state_def publish_visible_book_def split: prod.splits result.splits if_splits)

lemma quiet_publish:
  assumes "publish_observation env e ob k = Ok (state, published, k')"
  shows "kept k k'"
proof -
  obtain ev u k1 where sim: "sim_call (publish_visible_trading_state (kc_simulator k) ev) k = Ok (u, k1)"
      and k1: "publish_known env e state ob k1 = Ok (published, k')"
    using assms by (auto simp: publish_observation_def)
  have "kept k k1" using sim by (auto simp: sim_call_def publish_keeps_orders kept_def)
  define k2 where "k2 = (case final_mark state (rn_allow_midpoint_fallback env) of None \<Rightarrow> k1
    | Some m \<Rightarrow> k1\<lparr>kc_last_visible_marks := bm_insert (ev_instrument e) m (kc_last_visible_marks k1)\<rparr>)"
  have "kept k1 k2" by (simp add: k2_def kept_def split: option.split)
  moreover have "k' = k2 \<or> (\<exists>book u. sim_call (publish_visible_book (kc_simulator k2) book) k2 = Ok (u, k'))"
    using k1 unfolding publish_known_def Let_def k2_def [symmetric] by (auto split: if_splits option.splits)
  then have "kept k2 k'"
    by (auto simp: kept_def sim_call_def publish_keeps_orders)
  ultimately show ?thesis using \<open>kept k k1\<close> kept_trans by blast
qed

lemma quiet_release:
  assumes released: "release_observation env ob n k = Ok k'" and "asks_nothing (rn_strategy env)" and "ds_orders (kc_simulator k) = []"
  shows "kept k k'"
proof -
  obtain e cm visible where e: "from_canonical_bytes (ob_canonical_event ob) = Ok e"
      "apply_ordered (rn_hash env) (kc_visible_core k) e = (Ok cm, visible)"
    by (rule view.release_step [OF released])
  let ?k0 = "k\<lparr>kc_visible_core := visible\<rparr>"
  obtain k1 state published k2 where k2: "interrupt_market_orders (rn_hash env) e (cc_occurrence cm) ob n ?k0 = Ok k1"
      "publish_observation env e ob k1 = Ok (state, published, k2)"
    using released e by (auto simp: release_observation_def Let_def split: if_splits)
  obtain ended sink s where call: "sy_on_event (rn_strategy env)
      (event_context_visible (cc_occurrence cm) e state (co_states visible) (ob_trading ob) (ob_visible_at ob))
      sink_with_scheduled_orders (kc_strategy k2) = (ended, sink, s)" by (rule prod_cases3)
  then have sink: "sk_scheduled_orders sink = []" "sk_timers sink = []"
    using asks_nothingD [OF assms(2) call] by (simp_all add: sink_with_scheduled_orders_def)
  obtain k3 where k3: "commit_callback env (ended, sink, s) (\<lambda>sink. into_event_records sink (cc_occurrence cm)) (ob_visible_at ob)
      (eo_event_fingerprint (cc_occurrence cm)) n k2 = Ok k3"
      and k': "k' = k3 \<or> instrument_needs_allocation (kc_simulator k3) (ev_instrument e) (ob_visible_at ob)"
    using released e k2 call by (auto simp: release_observation_def Let_def split: if_splits)
  have "kept ?k0 k1" using quiet_interrupt [OF k2(1)] assms(3) by simp
  then have "kept k k3"
    using quiet_publish [OF k2(2)] quiet_callback [OF k3 sink] by (simp add: kept_def)
  moreover have "k' = k3" using k' \<open>kept k k3\<close> assms(3) by (simp add: kept_def instrument_needs_allocation_def)
  ultimately show ?thesis by simp
qed

lemma quiet_batch:
  assumes "rfold (process_control env) k popped = Ok k'" and "asks_nothing (rn_strategy env)"
    and "ds_orders (kc_simulator k) = []" and "\<forall>c \<in> set popped. is_release (sc_payload c)"
  shows "kept k k'"
  using assms(1,3,4)
proof (induction popped arbitrary: k)
  case Nil
  then show ?case by (simp add: kept_def)
next
  case (Cons c popped)
  obtain k1 where k1: "process_control env k c = Ok k1" "rfold (process_control env) k1 popped = Ok k'" using Cons.prems(1) by auto
  obtain ob where "sc_payload c = ControlRelease ob" using Cons.prems(3) by (cases "sc_payload c") auto
  then have "kept k k1" using k1(1) quiet_release [OF _ assms(2) Cons.prems(2)] by (simp add: process_control_def)
  then show ?case using Cons.IH [OF k1(2)] Cons.prems kept_trans by (simp add: kept_def)
qed

text \<open>One turn of a loop: the popped controls are releases, and what remains is idle.\<close>

lemma popped_idle:
  "pop_entries predicate m = (popped, rest) \<Longrightarrow> \<forall>e \<in> set m. is_release (snd e) \<Longrightarrow>
   (\<forall>c \<in> set popped. is_release (sc_payload c)) \<and> (\<forall>e \<in> set rest. is_release (snd e)) \<and> length m = length popped + length rest"
  by (induction predicate m arbitrary: popped rule: pop_entries.induct) (auto split: if_splits prod.splits)

lemma turn_idle:
  assumes "idle k" and "asks_nothing (rn_strategy env)" and "control_pop_while (kc_controls k) predicate = (popped, q)"
    and "rfold (process_control env) (k\<lparr>kc_controls := q\<rparr>) popped = Ok k'"
  shows "idle k' \<and> length (cq_pending (kc_controls k)) = length popped + length (cq_pending (kc_controls k'))"
proof -
  obtain rest where rest: "pop_entries predicate (cq_pending (kc_controls k)) = (popped, rest)" "cq_pending q = rest"
    using assms(3) by (auto simp: control_pop_while_def split: prod.splits)
  note p = popped_idle [OF rest(1)]
  have "kept (k\<lparr>kc_controls := q\<rparr>) k'"
    using quiet_batch [OF assms(4,2)] assms(1) p by (simp add: idle_def)
  then show ?thesis using assms(1) p rest(2) by (simp add: idle_def kept_def)
qed

lemma pops_first:
  assumes "control_next_time q = Some t" and "predicate (fst (hd (cq_pending q)))" and "control_pop_while q predicate = (popped, q')"
  shows "popped \<noteq> []"
  using assms
  by (cases "cq_pending q") (auto simp: control_next_time_def control_pop_while_def split: prod.splits)

section \<open>The loops return\<close>

abbreviation pending_count :: "'s scheduled_coordinator \<Rightarrow> nat" where
  "pending_count k \<equiv> length (cq_pending (kc_controls k))"

definition returns_idle :: "nat \<Rightarrow> ('s scheduled_coordinator, scheduled_backtest_error) result option \<Rightarrow> bool" where
  "returns_idle n out \<longleftrightarrow> (\<exists>r. out = Some r \<and> (\<forall>k'. r = Ok k' \<longrightarrow> idle k' \<and> pending_count k' \<le> n))"

lemma returns_idle_simps [simp]:
  "\<not> returns_idle n None" "returns_idle n (Some (Err err))" "returns_idle n (Some (Ok k)) \<longleftrightarrow> idle k \<and> pending_count k \<le> n"
  by (simp_all add: returns_idle_def)

lemma returns_idle_mono: "returns_idle m out \<Longrightarrow> m \<le> n \<Longrightarrow> returns_idle n out"
  by (auto simp: returns_idle_def)

lemma process_at_returns:
  assumes "idle k" and "asks_nothing (rn_strategy env)"
  shows "returns_idle (if control_next_time (kc_controls k) = Some t then pending_count k - 1 else pending_count k) (process_at env t k)"
  using assms(1)
proof (induction "pending_count k" arbitrary: k rule: less_induct)
  case less
  show ?case
  proof (cases "control_next_time (kc_controls k) = Some t")
    case True
    obtain popped q where pop: "control_pop_at (kc_controls k) t = (popped, q)" by (cases "control_pop_at (kc_controls k) t")
    have "popped \<noteq> []"
      by (rule pops_first [OF True _ pop [unfolded control_pop_at_def]])
        (use True in \<open>auto simp: control_next_time_def split: list.splits\<close>)
    show ?thesis
    proof (cases "rfold (process_control env) (k\<lparr>kc_controls := q\<rparr>) popped")
      case (Err err)
      then show ?thesis using True pop by (subst process_at.simps) simp
    next
      case (Ok k')
      have k': "idle k'" "pending_count k' < pending_count k"
        using turn_idle [OF less.prems assms(2) pop [unfolded control_pop_at_def] Ok] \<open>popped \<noteq> []\<close> by auto
      have "process_at env t k = process_at env t k'" using True pop Ok by (subst process_at.simps) simp
      moreover have "returns_idle (pending_count k') (process_at env t k')"
        by (rule returns_idle_mono [OF less.hyps [OF k'(2,1)]]) simp
      ultimately show ?thesis using k'(2) True by (auto intro: returns_idle_mono)
    qed
  next
    case False
    then show ?thesis using less.prems by (subst process_at.simps) simp
  qed
qed

lemma process_before_returns:
  assumes "idle k" and "asks_nothing (rn_strategy env)"
  shows "returns_idle (pending_count k) (process_before env boundary k)"
  using assms(1)
proof (induction "pending_count k" arbitrary: k rule: less_induct)
  case less
  show ?case
  proof (cases "\<exists>t. control_next_time (kc_controls k) = Some t \<and> t < boundary")
    case True
    then obtain t where t: "control_next_time (kc_controls k) = Some t" "t < boundary" by blast
    obtain popped q where pop: "control_pop_before (kc_controls k) boundary = (popped, q)" by (cases "control_pop_before (kc_controls k) boundary")
    have "popped \<noteq> []"
      by (rule pops_first [OF t(1) _ pop [unfolded control_pop_before_def]])
        (use t in \<open>auto simp: control_next_time_def split: list.splits\<close>)
    show ?thesis
    proof (cases "rfold (process_control env) (k\<lparr>kc_controls := q\<rparr>) popped")
      case (Err err)
      then show ?thesis using t pop by (subst process_before.simps) simp
    next
      case (Ok k')
      have k': "idle k'" "pending_count k' < pending_count k"
        using turn_idle [OF less.prems assms(2) pop [unfolded control_pop_before_def] Ok] \<open>popped \<noteq> []\<close> by auto
      have "process_before env boundary k = process_before env boundary k'" using t pop Ok by (subst process_before.simps) simp
      then show ?thesis using less.hyps [OF k'(2,1)] k'(2) by (auto simp: returns_idle_def)
    qed
  next
    case False
    then show ?thesis using less.prems by (subst process_before.simps) (auto split: option.splits)
  qed
qed

lemma drain_returns:
  assumes "idle k" and "asks_nothing (rn_strategy env)"
  shows "\<exists>r. drain env k = Some r"
  using assms(1)
proof (induction "pending_count k" arbitrary: k rule: less_induct)
  case less
  show ?case
  proof (cases "control_next_time (kc_controls k)")
    case None
    then show ?thesis by (subst drain.simps) simp
  next
    case (Some t)
    then have "pending_count k \<noteq> 0" by (auto simp: control_next_time_def)
    obtain r where r: "process_at env t k = Some r" "\<forall>k'. r = Ok k' \<longrightarrow> idle k' \<and> pending_count k' \<le> pending_count k - 1"
      using process_at_returns [OF less.prems assms(2), of t] Some by (auto simp: returns_idle_def)
    show ?thesis
    proof (cases r)
      case (Ok k')
      then have "idle k'" "pending_count k' \<le> pending_count k - 1" using r(2) by blast+
      moreover from this have "pending_count k' < pending_count k" using \<open>pending_count k \<noteq> 0\<close> by linarith
      ultimately have "\<exists>r. drain env k' = Some r" using less.hyps by blast
      then show ?thesis using Some r(1) Ok by (subst drain.simps) simp
    qed (use Some r(1) in \<open>subst drain.simps, simp\<close>)
  qed
qed

lemma coordinate_event_returns:
  assumes "idle k" and "asks_nothing (rn_strategy env)"
  obtains r where "coordinate_event env e core k = Some r" and "\<And>core' k'. r = Ok (core', k') \<Longrightarrow> idle k'"
proof -
  obtain r1 where r1: "process_before env (ev_match_time e) k = Some r1" "\<forall>k'. r1 = Ok k' \<longrightarrow> idle k'"
    using process_before_returns [OF assms, of "ev_match_time e"] by (auto simp: returns_idle_def)
  show ?thesis
  proof (cases "\<exists>k1 cm core' k2. r1 = Ok k1 \<and> apply_ordered (rn_hash env) core e = (Ok cm, core') \<and>
      buffer_committed env core' e (cc_occurrence cm) k1 = Ok k2")
    case True
    then obtain k1 cm core' k2 where k2: "r1 = Ok k1" "apply_ordered (rn_hash env) core e = (Ok cm, core')"
        "buffer_committed env core' e (cc_occurrence cm) k1 = Ok k2" by blast
    have "idle k1" using r1(2) k2(1) by blast
    have "idle k2"
    proof -
      have none: "schedule_auction_match e occ trading v k1 = Ok k' \<Longrightarrow> k' = k1" for occ trading v k'
        using \<open>idle k1\<close> by (auto simp: schedule_auction_match_def idle_def instrument_needs_auction_match_def split: if_splits option.splits)
      obtain t n q ob where "control_schedule (kc_controls k1) t ReleaseObservation (ControlRelease ob) = (Ok n, q)" "k2 = k1\<lparr>kc_controls := q\<rparr>"
        using k2(3) by (auto simp: buffer_committed_def schedule_control_Ok dest!: none)
      then have "ds_orders (kc_simulator k2) = ds_orders (kc_simulator k1)"
          "cq_pending (kc_controls k2) = bm_insert (t, ReleaseObservation, cq_next_sequence (kc_controls k1)) (ControlRelease ob)
             (cq_pending (kc_controls k1))"
        by (auto simp: control_schedule_def Let_def split: option.splits)
      moreover have "is_release (snd x)"
        if "x \<in> set (bm_insert key (ControlRelease ob) (cq_pending (kc_controls k1)))" for x key
        using bm_insert_set [OF that] \<open>idle k1\<close> by (elim disjE) (simp_all add: idle_def)
      ultimately show ?thesis using \<open>idle k1\<close> unfolding idle_def by simp
    qed
    from process_at_returns [OF this assms(2), of "ok_match_time (eo_ordering_key (cc_occurrence cm))"]
    obtain r where "process_at env (ok_match_time (eo_ordering_key (cc_occurrence cm))) k2 = Some r" "\<forall>k'. r = Ok k' \<longrightarrow> idle k'"
      by (auto simp: returns_idle_def)
    then show ?thesis using that r1(1) k2 by (auto simp: coordinate_event_def)
  next
    case False
    obtain r2 core' where applied: "apply_ordered (rn_hash env) core e = (r2, core')" by (cases "apply_ordered (rn_hash env) core e")
    have "\<exists>err. coordinate_event env e core k = Some (Err err)"
    proof (cases "\<exists>k1 cm. r1 = Ok k1 \<and> r2 = Ok cm")
      case True
      then obtain k1 cm where ok: "r1 = Ok k1" "r2 = Ok cm" by blast
      then obtain err where "buffer_committed env core' e (cc_occurrence cm) k1 = Err err"
        using False applied by (cases "buffer_committed env core' e (cc_occurrence cm) k1") auto
      then show ?thesis using r1(1) applied ok by (simp add: coordinate_event_def)
    qed (use r1(1) applied in \<open>cases r1; cases r2; simp add: coordinate_event_def\<close>)
    then show ?thesis using that by blast
  qed
qed

lemma scheduled_loop_returns:
  assumes "idle k" and "asks_nothing (rn_strategy env)"
  shows "\<exists>r. scheduled_loop env streams heads pending core k = Some r \<and> (\<forall>core' k'. r = Ok (core', k') \<longrightarrow> idle k')"
  using assms
proof (induction env streams heads pending core k rule: scheduled_loop.induct)
  case (1 env streams heads core k)
  then show ?case by simp
next
  case (2 env streams heads key i pending core k)
  show ?case
  proof (cases "i < length streams \<and> i < length heads \<and> heads ! i \<noteq> None")
    case False
    then show ?thesis by auto
  next
    case True
    then obtain e where head: "i < length streams" "i < length heads" "heads ! i = Some e" by blast
    obtain r where r: "coordinate_event env e core k = Some r" "\<And>core' k'. r = Ok (core', k') \<Longrightarrow> idle k'"
      using coordinate_event_returns [OF "2.prems"] by metis
    show ?thesis
    proof (cases r)
      case (Err err)
      then show ?thesis using head r(1) by simp
    next
      case (Ok x)
      obtain core1 k1 where x: "x = (core1, k1)" by (cases x)
      have "idle k1" using r(2) Ok x by simp
      show ?thesis
      proof (cases "streams ! i")
        case Nil
        then show ?thesis using 2 head r(1) Ok x \<open>idle k1\<close> by simp
      next
        case (Cons y rest)
        show ?thesis
        proof (cases "\<exists>n key'. y = Ok n \<and> for_event (rn_hash env) n = Ok key'")
          case True
          then obtain n key' where "y = Ok n" "for_event (rn_hash env) n = Ok key'" by blast
          then show ?thesis using 2 Cons head r(1) Ok x \<open>idle k1\<close> by simp
        next
          case False
          then show ?thesis using Cons head r(1) Ok x by (cases y) (auto split: result.splits)
        qed
      qed
    qed
  qed
qed

text \<open>
  C11: a scheduled backtest returns. For a strategy whose event callback asks for no orders and no timers,
  a run from a fresh simulator always returns, with a result or an error: the loops over the control queue
  end however many events the streams deliver and however they are interleaved.
\<close>

theorem scheduled_run_returns:
  assumes "scheduled_simulator_new configs = Ok sim" and "asks_nothing (rn_strategy env)"
  shows "\<exists>r. run_scheduled_multi_backtest env factory core s plan f sim ledger = Some r"
proof (cases "start_scheduled_backtest env factory core s plan f sim ledger")
  case (Err err)
  then show ?thesis by (simp add: run_scheduled_multi_backtest_def)
next
  case (Ok x)
  obtain streams heads pending k where x: "x = (streams, heads, pending, k)" by (rule prod_cases4)
  have sim: "ds_orders sim = []" using assms(1) by (auto simp: scheduled_simulator_new_def split: if_splits)
  have "idle k" by (rule started [OF Ok [unfolded x]]) (simp add: sim idle_def coordinator_new_def control_queue_new_def)
  then obtain r where r: "scheduled_loop env streams heads pending core k = Some r" "\<forall>core' k'. r = Ok (core', k') \<longrightarrow> idle k'"
    using scheduled_loop_returns [OF _ assms(2)] by blast
  show ?thesis
  proof (cases r)
    case (Err err)
    then show ?thesis using Ok x r(1) by (simp add: run_scheduled_multi_backtest_def)
  next
    case loop: (Ok y)
    obtain core' k' where y: "y = (core', k')" by (cases y)
    then have "\<exists>r. drain env k' = Some r" using drain_returns [OF _ assms(2)] r(2) loop by blast
    then show ?thesis using Ok x r(1) loop y by (auto simp: run_scheduled_multi_backtest_def)
  qed
qed

theorem scheduled_run_returns_witness:
  "asks_nothing (counting_strategy Returned) \<and>
   (\<exists>ledger r. multi_ledger_new 5000000000000000000000 [sample_config] = Ok ledger \<and>
      run_scheduled_multi_backtest (sample_parameters Returned) sample_factory sample_core 0 sample_event_plan () sample_empty ledger = Some r)"
proof (rule sample_ledger_completes)
  fix ledger
  assume ledger: "multi_ledger_new 5000000000000000000000 [sample_config] = Ok ledger"
  have quiet: "asks_nothing (counting_strategy Returned)" by (simp add: asks_nothing_def counting_strategy_def)
  then have "asks_nothing (rn_strategy (sample_parameters Returned))" by (simp add: sample_parameters_def)
  from scheduled_run_returns [OF sample_new this, of sample_factory sample_core 0 sample_event_plan "()" ledger]
  show ?thesis using ledger quiet by blast
qed

end
