(* ===== verification/Spec2Isabelle.thy ===== *)
theory Spec2Isabelle
  imports Calendar Depth Session ScheduledReturns
begin

text \<open>
  A verification library for the Osmium market replay and backtest platform: a Rust workspace under
  \<open>crates/\<close> that decodes market data into domain events, reduces them to per-instrument market states in a
  total order, replays them deterministically, evaluates the trading context a strategy sees, simulates the
  execution of its orders, and accounts for the fills.

  \<^bold>\<open>The program's parts and how they interact.\<close> \<open>market-types\<close> defines the values every other crate exchanges
  (decimals, quantities, books, signals, events) with their canonical bytes. \<open>market-state\<close> folds events into
  states: \<open>propose\<close> computes a transition, \<open>commit\<close> installs it. \<open>replay-engine\<close> orders events by a key that ends
  in the event's fingerprint, drives one reducer per instrument through \<open>apply_ordered\<close>, and reports checksums of
  the sequence and of the final states. \<open>strategy-api\<close> turns a committed event into a trading context and
  defines order requests and feedback. \<open>execution-sim\<close> fills orders, on market events (\<open>lib.rs\<close>) or at scheduled
  times against visible depth (\<open>scheduled.rs\<close>, which uses \<open>depth.rs\<close>), and books fills in ledgers
  (\<open>accounting.rs\<close>). \<open>osmium-runner\<close> composes them: \<open>lib.rs\<close> runs a strategy on every committed event and fills
  its order intents, \<open>scheduled.rs\<close> buffers committed events until their latency has passed and interleaves their
  release with timers, activations, expiries, allocations and feedback through one control-time queue.
  \<open>run-planner\<close> plans the sessions of a trading date.

  \<^bold>\<open>Theories.\<close> Each theory opens with what it holds; the operations keep the names of the Rust functions, with
  the type's name in front where two types share one.

    \<^item> Prelude: results with \<open>rbind\<close>, \<open>rmap\<close>, \<open>rfold\<close> for Rust's \<open>Result\<close> and \<open>?\<close>; checked arithmetic at the widths
      of u32, u64, i64, i128; big-endian bytes; the collection \<open>result_simps\<close>.
    \<^item> Decimals (\<open>decimal.rs\<close>, \<open>price.rs\<close>), Quantities (\<open>quantity.rs\<close>, \<open>volume.rs\<close> and the identifiers), Book
      (\<open>book.rs\<close>, \<open>trade.rs\<close>), Signals (\<open>signal.rs\<close>, \<open>annotations.rs\<close>), Events (\<open>event.rs\<close>), Codec (\<open>canonical.rs\<close>),
      Calendar (\<open>trading_date.rs\<close>, \<open>match_time.rs\<close>): the text and byte formats are exact, that is, parsers accept
      exactly what the printers and encoders produce (or the grammar denotes), and constructors keep the
      types' invariants.
    \<^item> MarketState (\<open>model.rs\<close>, \<open>profile.rs\<close>), Reducer (\<open>reducer.rs\<close>), StateCanonical (market-state's
      \<open>canonical.rs\<close>): a refused event changes nothing, reachable states satisfy the state invariant, cumulative
      volumes do not regress, indicative auctions stay isolated, state bytes identify states.
    \<^item> OrdMap (Rust's \<open>BTreeMap\<close> as a sorted association list), Ordering (\<open>ordering.rs\<close>, \<open>checksum.rs\<close>), ReplayPlan
      (\<open>plan.rs\<close>), Replay and ReplayMerge (\<open>engine.rs\<close>, \<open>stream.rs\<close>): the order is deterministic, the summary reports
      exactly what was processed, and merging ascending streams equals ordering all events in memory.
    \<^item> Orders (\<open>orders.rs\<close>), Trading (\<open>context.rs\<close>): order requests and their bytes, and when the evaluator
      accepts a committed event and opens order entry.
    \<^item> StrategyOutput (\<open>identity.rs\<close>, \<open>timer.rs\<close>, \<open>output.rs\<close> of strategy-api), StrategyRun (\<open>strategy.rs\<close>, \<open>runner.rs\<close>):
      output records are numbered without gaps and their bytes identify an output; a strategy, whatever its
      callbacks do, cannot influence the replay, and a failed run names exactly the events it processed.
    \<^item> Charges, Ledger, MultiLedger (\<open>accounting.rs\<close>): rounding and charges against a reference, the cash and
      cost-basis identities, the day-trade pool, reconciliation as a characterisation of reachable ledgers,
      shared cash over several instruments.
    \<^item> Depth (\<open>depth.rs\<close>), Simulator (\<open>lib.rs\<close> of execution-sim), Scheduled and ScheduledSound (\<open>scheduled.rs\<close>):
      sweeps are greedy and atomic executions all-or-nothing; fills of the event-driven simulator are sound
      and first come, first served; scheduled orders follow one state machine, are never overfilled, and the
      panics of the simulator are unreachable.
    \<^item> Control (\<open>control.rs\<close>, \<open>visibility.rs\<close>): the control queue refines a stable ordered release from a pending
      list; every observation is released once, when its latency has passed.
    \<^item> Backtest (\<open>lib.rs\<close> of osmium-runner): a completed backtest replays what a replay without a strategy does
      and reports it event by event, books exactly the fills of its simulators, and leaves no order open.
    \<^item> SampleMarket and ScheduledSample: a plan with one binding, the two quotes it delivers and the cores they commit,
      evaluated in the kernel; the concrete runs that show the properties of both kinds of backtest at work
      (an order filled in part and cancelled, an order filled at its activation) rest on them.
    \<^item> ScheduledRun (\<open>scheduled.rs\<close> of osmium-runner) with ScheduledRunSound, ScheduledView and ScheduledReturns: every
      fill is booked once, to the instrument of its order; the events released to the strategy rebuild the
      committed core, and no release diverges from its commit; the run of a strategy that asks for nothing
      returns.
    \<^item> Session (\<open>session.rs\<close>): plans exist exactly for supported requests and their windows are exact.

  \<^bold>\<open>How state and errors are modelled.\<close> A struct is a record, an enum a datatype with the source's variants, a
  \<open>&mut self\<close> method a function that returns the result together with the new state, so what an error leaves
  behind is part of every statement. Unsigned integers are \<open>nat\<close> and signed ones \<open>int\<close>; each checked operation of the
  source is a range test at its width, and the invariants show that the unchecked subtractions on quantities
  do not go below zero. Bytes are \<open>8 word\<close>. Where the scheduled simulator would panic (an \<open>expect\<close>, an unchecked
  subtraction of quantities that goes below zero, an index outside the consumed depth) the model returns the error
  \<open>Panicked\<close>, which no reachable call does.
  Where an error of the source carries the text of another error, the model carries the error itself.

  \<^bold>\<open>Interfaces.\<close> The locales state what a client relies on: codes that decode exactly what they encode (\<open>codec\<close>,
  \<open>byte_enum\<close>) or are self-delimiting (\<open>prefix_code\<close>), the arithmetic of unit-carrying amounts
  (\<open>unit_arithmetic\<close>), ordered maps (\<open>ordered_map\<close>), unstable sorting (\<open>unstable_sort\<close>), the release contract of a
  queue (\<open>release_queue\<close>), the loop over selected orders of the scheduled simulator (\<open>order_loop\<close>), and the elementary
  changes the scheduled coordinator is made of (\<open>coordinator_step\<close>, interpreted for the booking of fills and for
  the view of the strategy). Each is
  interpreted on the model's own definitions.

  \<^bold>\<open>Parameters.\<close> BLAKE3 is an argument \<open>hash\<close> of the definitions that use it, with collision freedom or an output
  length of 32 bytes as a hypothesis only where a property needs it; Rust's unstable sort is an argument that returns some
  sorted permutation; event streams and callbacks of the replay are arguments; a strategy is a record of callbacks over a state of its own,
  each of which may fail or panic; the text Rust derives for an error of a backtest callback is an argument \<open>debug_text\<close>.

  \<^bold>\<open>Termination and bounds.\<close> No definition uses fuel. Recursions that are not structural (the reduction of
  fractions, the digits of numbers, the search for the previous business day, the merge of streams) have
  termination proofs by a measure, so that returning is part of what is proved. The loops over the control
  queue (\<open>process_before\<close>, \<open>process_at\<close>, \<open>drain\<close>) may run forever when a strategy keeps arming timers; they are
  partial functions into \<open>option\<close>, and ScheduledReturns proves that they return for a strategy that asks for
  no orders and no timers. A book has five levels on
  each side, as \<open>BOOK_DEPTH\<close> says.

  \<^bold>\<open>Not modelled.\<close> \<open>osmium-config\<close> and the configuration of \<open>run-planner\<close> deserialise files through serde;
  \<open>osmium-cli\<close> parses arguments and performs I/O; \<open>data-sync\<close> and \<open>providers/teralion\<close> access the file system,
  Parquet files and HTTP; the artifact files of \<open>osmium-runner\<close> are left out, as are the registry of boxed
  strategy factories and the example strategies of \<open>strategy-api\<close>. Display texts of errors and accessor
  methods carry no behaviour of their own.
\<close>

end
